(* ===== verification/Prelude.thy ===== *)
theory Prelude
  imports Main "HOL-Library.Word"
begin

text \<open>
  Vocabulary shared by every component: the machine types, the error type of
  \<open>src/src/error.rs\<close>, the outcome of a fallible operation (a value, an error returned to the
  caller, or a panic), slices and indexing with the panics the language has, loops over an index
  range, and the little-endian byte layouts.
\<close>

unbundle bit_operations_syntax

type_synonym u8 = "8 word"
type_synonym u16 = "16 word"
type_synonym u32 = "32 word"
type_synonym u64 = "64 word"
type_synonym i8 = "8 word"
type_synonym i32 = "32 word"
type_synonym bytes = "8 word list"

named_theorems outcome_simps \<open>evaluation of the outcome type\<close>
named_theorems loop_simps \<open>loops over index ranges as list expressions\<close>
named_theorems length_simps \<open>lengths of the buffers the operations build\<close>

subsection \<open>Errors and outcomes\<close>

datatype error =
    ShapeMismatch string string
  | DTypeMismatch string string
  | DeviceMismatch string
  | GpuError string
  | OutOfMemory
  | TooManyDims nat nat
  | InvalidShape string
  | NotImplemented string string
  | Internal string
  | Malformed string
  | Truncated string
  | Overflow string

datatype ('e, 'a) outcome = Ok 'a | Err 'e | Panic

type_synonym 'a res = "(error, 'a) outcome"

fun obind :: "('e, 'a) outcome \<Rightarrow> ('a \<Rightarrow> ('e, 'b) outcome) \<Rightarrow> ('e, 'b) outcome" where
  "obind (Ok x) f = f x"
| "obind (Err e) f = Err e"
| "obind Panic f = Panic"

fun omap :: "('a \<Rightarrow> 'b) \<Rightarrow> ('e, 'a) outcome \<Rightarrow> ('e, 'b) outcome" where
  "omap f (Ok x) = Ok (f x)"
| "omap f (Err e) = Err e"
| "omap f Panic = Panic"

fun omap_err :: "('e \<Rightarrow> 'f) \<Rightarrow> ('e, 'a) outcome \<Rightarrow> ('f, 'a) outcome" where
  "omap_err f (Ok x) = Ok x"
| "omap_err f (Err e) = Err (f e)"
| "omap_err f Panic = Panic"

definition oassert :: "bool \<Rightarrow> 'e \<Rightarrow> ('e, unit) outcome" where
  "oassert c e = (if c then Ok () else Err e)"

lemma obind_eq_Ok [outcome_simps]:
  "obind m f = Ok y \<longleftrightarrow> (\<exists>x. m = Ok x \<and> f x = Ok y)"
  by (cases m) auto

lemma obind_eq_Err [outcome_simps]:
  "obind m f = Err e \<longleftrightarrow> m = Err e \<or> (\<exists>x. m = Ok x \<and> f x = Err e)"
  by (cases m) auto

lemma obind_eq_Panic [outcome_simps]:
  "obind m f = Panic \<longleftrightarrow> m = Panic \<or> (\<exists>x. m = Ok x \<and> f x = Panic)"
  by (cases m) auto

lemma omap_eq_Ok [outcome_simps]: "omap f m = Ok y \<longleftrightarrow> (\<exists>x. m = Ok x \<and> y = f x)"
  by (cases m) auto

lemma omap_eq_Err [outcome_simps]: "omap f m = Err e \<longleftrightarrow> m = Err e"
  by (cases m) auto

lemma omap_eq_Panic [outcome_simps]: "omap f m = Panic \<longleftrightarrow> m = Panic"
  by (cases m) auto

lemma oassert_eq_Ok [outcome_simps]: "oassert c e = Ok u \<longleftrightarrow> c"
  by (simp add: oassert_def)

lemma oassert_eq_Err [outcome_simps]: "oassert c e = Err e' \<longleftrightarrow> \<not> c \<and> e' = e"
  by (auto simp: oassert_def)

lemma oassert_not_Panic [simp]: "oassert c e \<noteq> Panic"
  by (simp add: oassert_def)

lemma oassert_True [simp]: "oassert True e = Ok ()"
  by (simp add: oassert_def)

lemma oassert_False [simp]: "oassert False e = Err e"
  by (simp add: oassert_def)

lemma obind_assoc: "obind (obind m f) g = obind m (\<lambda>x. obind (f x) g)"
  by (cases m) auto

lemma obind_cong [fundef_cong]:
  assumes "m = m'" and "\<And>x. m' = Ok x \<Longrightarrow> f x = f' x"
  shows "obind m f = obind m' f'"
  using assms by (cases m') auto

lemma obind_Ok_right [simp]: "obind m Ok = m"
  by (cases m) auto

text \<open>Option to outcome, the \<open>ok_or\<close> of the language.\<close>

fun ok_or :: "'a option \<Rightarrow> 'e \<Rightarrow> ('e, 'a) outcome" where
  "ok_or (Some x) e = Ok x"
| "ok_or None e = Err e"

lemma ok_or_eq_Ok [outcome_simps]: "ok_or x e = Ok y \<longleftrightarrow> x = Some y"
  by (cases x) auto

lemma ok_or_eq_Err [outcome_simps]: "ok_or x e = Err e' \<longleftrightarrow> x = None \<and> e' = e"
  by (cases x) auto

lemma ok_or_not_Panic [simp]: "ok_or x e \<noteq> Panic"
  by (cases x) auto

subsection \<open>Slices and indexing\<close>

definition slice :: "'a list \<Rightarrow> nat \<Rightarrow> nat \<Rightarrow> 'a list" where
  "slice xs a b = take (b - a) (drop a xs)"

text \<open>\<open>&xs[a..b]\<close>: panics unless \<open>a \<le> b \<le> xs.len()\<close>.\<close>

definition oslice :: "'a list \<Rightarrow> nat \<Rightarrow> nat \<Rightarrow> ('e, 'a list) outcome" where
  "oslice xs a b = (if a \<le> b \<and> b \<le> length xs then Ok (slice xs a b) else Panic)"

text \<open>\<open>xs[i]\<close>: panics out of bounds.\<close>

definition oget :: "'a list \<Rightarrow> nat \<Rightarrow> ('e, 'a) outcome" where
  "oget xs i = (if i < length xs then Ok (xs ! i) else Panic)"

lemma length_slice [simp]: "b \<le> length xs \<Longrightarrow> length (slice xs a b) = b - a"
  by (simp add: slice_def)

lemma nth_slice [simp]: "b \<le> length xs \<Longrightarrow> i < b - a \<Longrightarrow> slice xs a b ! i = xs ! (a + i)"
  by (simp add: slice_def)

lemma slice_full [simp]: "length xs \<le> b \<Longrightarrow> slice xs 0 b = xs"
  by (simp add: slice_def)

lemma slice_0 [simp]: "slice xs 0 n = take n xs"
  by (simp add: slice_def)

lemma slice_empty [simp]: "slice xs a a = []"
  by (simp add: slice_def)

lemma oslice_eq_Ok [outcome_simps]:
  "oslice xs a b = Ok ys \<longleftrightarrow> a \<le> b \<and> b \<le> length xs \<and> ys = slice xs a b"
  by (auto simp: oslice_def)

lemma oslice_ok [simp]: "a \<le> b \<Longrightarrow> b \<le> length xs \<Longrightarrow> oslice xs a b = Ok (slice xs a b)"
  by (simp add: oslice_def)

lemma oslice_eq_Panic [outcome_simps]: "oslice xs a b = Panic \<longleftrightarrow> b < a \<or> length xs < b"
  by (auto simp: oslice_def)

lemma oslice_not_Err [simp]: "oslice xs a b \<noteq> Err e"
  by (simp add: oslice_def)

lemma nth_update_at: "b < length xs \<Longrightarrow> xs[a := x] ! b = (if a = b then x else xs ! b)"
  by auto

lemma oget_eq_Ok [outcome_simps]: "oget xs i = Ok x \<longleftrightarrow> i < length xs \<and> x = xs ! i"
  by (auto simp: oget_def)

lemma oget_ok [simp]: "i < length xs \<Longrightarrow> oget xs i = Ok (xs ! i)"
  by (simp add: oget_def)

lemma slice_append_slice: "a \<le> b \<Longrightarrow> b \<le> c \<Longrightarrow> slice xs a b @ slice xs b c = slice xs a c"
proof -
  assume "a \<le> b" and "b \<le> c"
  then have "c - a = (b - a) + (c - b)" and "b = (b - a) + a" by simp_all
  then show ?thesis unfolding slice_def by (metis drop_drop take_add)
qed

lemma slice_slice: "a \<le> b \<Longrightarrow> c + b \<le> d \<Longrightarrow> slice (slice xs c d) a b = slice xs (c + a) (c + b)"
  by (simp add: slice_def drop_take add.commute)

lemma slice_map: "slice (map f xs) a b = map f (slice xs a b)"
  by (simp add: slice_def drop_map take_map)

lemma slice_conv_nth: "b \<le> length xs \<Longrightarrow> slice xs a b = map (\<lambda>i. xs ! (a + i)) [0..<b - a]"
  by (rule nth_equalityI) simp_all

lemma set_slice: "set (slice xs a b) \<subseteq> set xs"
  unfolding slice_def by (meson in_set_dropD in_set_takeD subsetI)

text \<open>\<open>xs[i] = v\<close>: panics out of bounds.\<close>

definition oset :: "'a list \<Rightarrow> nat \<Rightarrow> 'a \<Rightarrow> ('e, 'a list) outcome" where
  "oset xs i v = (if i < length xs then Ok (xs[i := v]) else Panic)"

lemma oset_ok [simp]: "i < length xs \<Longrightarrow> oset xs i v = Ok (xs[i := v])"
  by (simp add: oset_def)

lemma oset_eq_Ok [outcome_simps]: "oset xs i v = Ok ys \<longleftrightarrow> i < length xs \<and> ys = xs[i := v]"
  by (auto simp: oset_def)

text \<open>Splitting a buffer into \<open>n\<close> rows of equal width, and its rows.\<close>

lemma slice_concat_rows:
  assumes "\<And>i. i < n \<Longrightarrow> length (f i) = w" and "i < n"
  shows "slice (concat (map f [0..<n])) (i * w) (i * w + w) = f i"
  using assms
proof (induction n)
  case 0
  then show ?case by simp
next
  case (Suc n)
  have len: "length (concat (map f [0..<n])) = n * w"
    using Suc.prems(1) by (induction n) auto
  show ?case
  proof (cases "i = n")
    case True
    then show ?thesis using len Suc.prems(1) by (simp add: slice_def)
  next
    case False
    then have i: "i < n" using Suc.prems(2) by simp
    then have "i * w + w \<le> n * w"
      by (metis Suc_leI add.commute mult_Suc mult_le_mono1)
    then show ?thesis
      using Suc.IH Suc.prems(1) i len by (simp add: slice_def)
  qed
qed

lemma length_concat_rows [length_simps]:
  assumes "\<And>i. i < n \<Longrightarrow> length (f i) = w"
  shows "length (concat (map f [0..<n])) = n * w"
  using assms by (induction n) auto

subsection \<open>Loops over an index range\<close>

text \<open>
  \<open>oloop body [a..<b] s\<close> is \<open>for i in a..b\<close> over the mutable state \<open>s\<close>, left at the first
  error or panic of the body.
\<close>

fun oloop :: "('s \<Rightarrow> 'i \<Rightarrow> ('e, 's) outcome) \<Rightarrow> 'i list \<Rightarrow> 's \<Rightarrow> ('e, 's) outcome" where
  "oloop f [] s = Ok s"
| "oloop f (i # is) s = obind (f s i) (oloop f is)"

fun omapM :: "('i \<Rightarrow> ('e, 'a) outcome) \<Rightarrow> 'i list \<Rightarrow> ('e, 'a list) outcome" where
  "omapM f [] = Ok []"
| "omapM f (i # is) = obind (f i) (\<lambda>x. obind (omapM f is) (\<lambda>xs. Ok (x # xs)))"

lemma oloop_append [loop_simps]: "oloop f (xs @ ys) s = obind (oloop f xs s) (oloop f ys)"
  by (induction xs arbitrary: s) (auto simp: obind_assoc intro: obind_cong)

lemma oloop_Ok [loop_simps]:
  assumes "\<And>s i. i \<in> set is \<Longrightarrow> f s i = Ok (g s i)"
  shows "oloop f is s = Ok (foldl g s is)"
  using assms by (induction "is" arbitrary: s) auto

lemma oloop_Ok_inv:
  assumes "\<And>s i. i \<in> set is \<Longrightarrow> P s \<Longrightarrow> f s i = Ok (g s i)"
    and "\<And>s i. i \<in> set is \<Longrightarrow> P s \<Longrightarrow> P (g s i)" and "P s"
  shows "oloop f is s = Ok (foldl g s is)"
  using assms by (induction "is" arbitrary: s) auto

lemma oloop_invariant:
  assumes "oloop f is s = Ok s'" and "P s"
    and "\<And>s i t. i \<in> set is \<Longrightarrow> P s \<Longrightarrow> f s i = Ok t \<Longrightarrow> P t"
  shows "P s'"
  using assms by (induction "is" arbitrary: s) (auto simp: outcome_simps)

lemma oloop_not_Panic:
  assumes "\<And>s i. i \<in> set is \<Longrightarrow> P s \<Longrightarrow> f s i \<noteq> Panic" and "P s"
    and "\<And>s i t. i \<in> set is \<Longrightarrow> P s \<Longrightarrow> f s i = Ok t \<Longrightarrow> P t"
  shows "oloop f is s \<noteq> Panic"
  using assms
proof (induction "is" arbitrary: s)
  case Nil
  then show ?case by simp
next
  case (Cons i "is")
  have "oloop f is t \<noteq> Panic" if "f s i = Ok t" for t
  proof (rule Cons.IH)
    show "P t" using Cons.prems(3) [OF _ Cons.prems(2) that] by simp
    show "f s' j \<noteq> Panic" if "j \<in> set is" "P s'" for s' j
      using Cons.prems(1) [of j s'] that by simp
    show "P t'" if "j \<in> set is" "P s'" "f s' j = Ok t'" for s' j t'
      using Cons.prems(3) [of j s' t'] that by simp
  qed
  then show ?case using Cons.prems by (auto simp: outcome_simps)
qed

lemma omapM_Ok [loop_simps]:
  assumes "\<And>i. i \<in> set is \<Longrightarrow> f i = Ok (g i)"
  shows "omapM f is = Ok (map g is)"
  using assms by (induction "is") auto

lemma omapM_length: "omapM f is = Ok xs \<Longrightarrow> length xs = length is"
  by (induction "is" arbitrary: xs) (auto simp: outcome_simps)

lemma omapM_nth: "omapM f is = Ok xs \<Longrightarrow> k < length is \<Longrightarrow> f (is ! k) = Ok (xs ! k)"
proof (induction "is" arbitrary: xs k)
  case Nil
  then show ?case by simp
next
  case (Cons i "is")
  then show ?case by (cases k) (auto simp: outcome_simps)
qed

lemma omapM_cong [fundef_cong]:
  assumes "is = js" and "\<And>i. i \<in> set js \<Longrightarrow> f i = g i"
  shows "omapM f is = omapM g js"
  using assms by (induction js arbitrary: "is") auto

lemma oloop_cong:
  assumes "is = js" and "s = t" and "\<And>i s. i \<in> set js \<Longrightarrow> f s i = g s i"
  shows "oloop f is s = oloop g js t"
  using assms by (induction js arbitrary: "is" s t) (auto intro!: obind_cong)

text \<open>A pure loop that writes position \<open>i\<close> of a buffer at step \<open>i\<close> computes a map.\<close>

lemma length_foldl_update [simp]:
  "length (foldl (\<lambda>ys i. ys[p i := g ys i]) ys is) = length ys"
  by (induction "is" arbitrary: ys) auto

lemma foldl_update_map:
  assumes "n \<le> length ys"
  shows "foldl (\<lambda>ys i. ys[i := g i]) ys [0..<n] = map g [0..<n] @ drop n ys"
  using assms
proof (induction n)
  case 0
  then show ?case by simp
next
  case (Suc n)
  then have "foldl (\<lambda>ys i. ys[i := g i]) ys [0..<Suc n] = (map g [0..<n] @ drop n ys)[n := g n]"
    by simp
  also have "drop n ys = ys ! n # drop (Suc n) ys"
    using Suc.prems by (simp add: Cons_nth_drop_Suc)
  finally show ?case by (simp add: list_update_append)
qed

lemma foldl_update_all [loop_simps]:
  "n = length ys \<Longrightarrow> foldl (\<lambda>ys i. ys[i := g i]) ys [0..<n] = map g [0..<n]"
  by (simp add: foldl_update_map)

text \<open>The order of the writes does not matter when every position is written.\<close>

lemma foldl_update_any:
  assumes "set is = {..<n}" and "length ys = n"
  shows "foldl (\<lambda>ys i. ys[i := g i]) ys is = map g [0..<n]"
proof (rule nth_equalityI)
  show "length (foldl (\<lambda>ys i. ys[i := g i]) ys is) = length (map g [0..<n])"
    using assms(2) by simp
  have "foldl (\<lambda>ys i. ys[i := g i]) zs js ! k = (if k \<in> set js then g k else zs ! k)"
    if "k < length zs" for zs js k
    using that by (induction js arbitrary: zs) auto
  then show "foldl (\<lambda>ys i. ys[i := g i]) ys is ! k = map g [0..<n] ! k"
    if "k < length (foldl (\<lambda>ys i. ys[i := g i]) ys is)" for k
    using that assms by simp
qed

text \<open>Writes to distinct positions keep their values.\<close>

lemma foldl_update_other:
  "q \<notin> f ` set ps \<Longrightarrow> foldl (\<lambda>zs p. zs[f p := h p]) zs ps ! q = zs ! q"
  by (induction ps arbitrary: zs) auto

lemma foldl_update_inj:
  assumes "inj_on f (set ps)" and "p \<in> set ps" and "f p < length zs"
  shows "foldl (\<lambda>zs p. zs[f p := h p]) zs ps ! f p = h p"
  using assms
proof (induction ps arbitrary: zs)
  case Nil
  then show ?case by simp
next
  case (Cons a ps)
  show ?case
  proof (cases "p \<in> set ps")
    case True
    then show ?thesis using Cons by simp
  next
    case False
    then have "a = p" and "f p \<notin> f ` set ps" using Cons.prems by auto
    then show ?thesis using Cons.prems(3) by (simp add: foldl_update_other)
  qed
qed

lemma foldl_concat_map: "foldl f s (concat (map g ks)) = foldl (\<lambda>s k. foldl f s (g k)) s ks"
  by (induction ks arbitrary: s) auto

text \<open>A range walked in blocks of \<open>w\<close>.\<close>

lemma concat_blocks: "concat (map (\<lambda>k. [k * w..<k * w + w]) [0..<m]) = [0..<m * w]"
proof (induction m)
  case 0
  then show ?case by simp
next
  case (Suc m)
  then show ?case using upt_add_eq_append [of 0 "m * w" w] by (simp add: add.commute)
qed

lemma foldl_blocks:
  "foldl (\<lambda>s k. foldl f s [k * w..<k * w + w]) s [0..<m] = foldl f s [0..<m * w]"
proof -
  have "foldl (\<lambda>s k. foldl f s (g k)) s ks = foldl f s (concat (map g ks))" for g and ks :: "nat list" and s
    by (induction ks arbitrary: s) auto
  from this [of "\<lambda>k. [k * w..<k * w + w]"] show ?thesis by (simp add: concat_blocks)
qed

lemma foldl_shift: "foldl (\<lambda>s j. f s (a + j)) s [0..<n] = foldl f s [a..<a + n]"
  by (induction n) simp_all

lemma foldl_cong_set:
  assumes "\<And>s i. i \<in> set is \<Longrightarrow> f s i = g s i"
  shows "foldl f s is = foldl g s is"
  using assms by (induction "is" arbitrary: s) auto

subsection \<open>Strings and little-endian bytes\<close>

definition str :: "string \<Rightarrow> bytes" where
  "str s = map of_char s"

text \<open>The number a little-endian byte string spells, and the \<open>k\<close> bytes of a number.\<close>

fun le_nat :: "bytes \<Rightarrow> nat" where
  "le_nat [] = 0"
| "le_nat (b # bs) = unat b + 256 * le_nat bs"

fun le_bytes :: "nat \<Rightarrow> nat \<Rightarrow> bytes" where
  "le_bytes 0 n = []"
| "le_bytes (Suc k) n = of_nat n # le_bytes k (n div 256)"

definition le16 :: "bytes \<Rightarrow> u16" where
  "le16 bs = of_nat (le_nat bs)"

definition le32 :: "bytes \<Rightarrow> u32" where
  "le32 bs = of_nat (le_nat bs)"

definition le64 :: "bytes \<Rightarrow> u64" where
  "le64 bs = of_nat (le_nat bs)"

definition to_le_bytes16 :: "u16 \<Rightarrow> bytes" where
  "to_le_bytes16 w = le_bytes 2 (unat w)"

definition to_le_bytes32 :: "u32 \<Rightarrow> bytes" where
  "to_le_bytes32 w = le_bytes 4 (unat w)"

definition to_le_bytes64 :: "u64 \<Rightarrow> bytes" where
  "to_le_bytes64 w = le_bytes 8 (unat w)"

lemma length_le_bytes [simp]: "length (le_bytes k n) = k"
  by (induction k arbitrary: n) auto

lemma length_to_le_bytes [simp]:
  "length (to_le_bytes16 a) = 2" "length (to_le_bytes32 b) = 4" "length (to_le_bytes64 c) = 8"
  by (simp_all add: to_le_bytes16_def to_le_bytes32_def to_le_bytes64_def)

lemma to_le_bytes_not_Nil [simp]: "to_le_bytes16 a \<noteq> []" "to_le_bytes32 b \<noteq> []" "to_le_bytes64 c \<noteq> []"
  by (metis length_to_le_bytes list.size(3) zero_neq_numeral)+

lemma unat_of_nat_u8 [simp]: "unat (of_nat n :: u8) = n mod 256"
  by (simp add: unat_of_nat)

lemma le_nat_less: "le_nat bs < 256 ^ length bs"
proof (induction bs)
  case Nil
  then show ?case by simp
next
  case (Cons b bs)
  have "unat b < 256" using unsigned_less [of b] by simp
  moreover have "Suc (le_nat bs) * 256 \<le> 256 ^ length bs * 256"
    using Cons by (intro mult_le_mono1) simp
  ultimately show ?case by simp
qed

lemma le_nat_le_bytes: "le_nat (le_bytes k n) = n mod 256 ^ k"
proof (induction k arbitrary: n)
  case 0
  then show ?case by simp
next
  case (Suc k)
  have "n mod (256 * 256 ^ k) = 256 * (n div 256 mod 256 ^ k) + n mod 256"
    by (rule mod_mult2_eq)
  then show ?case using Suc by simp
qed

lemma le_bytes_le_nat: "length bs = k \<Longrightarrow> le_bytes k (le_nat bs) = bs"
proof (induction bs arbitrary: k)
  case Nil
  then show ?case by simp
next
  case (Cons b bs)
  have "unat b < 256" using unsigned_less [of b] by simp
  then have "(unat b + 256 * le_nat bs) div 256 = le_nat bs" by simp
  moreover have "of_nat (unat b + 256 * le_nat bs) = b"
    by (simp add: word_unat_eq_iff unat_of_nat \<open>unat b < 256\<close> del: of_nat_add of_nat_mult)
  ultimately show ?case using Cons by (auto simp del: of_nat_add of_nat_mult)
qed

lemma le_bytes_inj: "le_bytes k m = le_bytes k n \<Longrightarrow> m mod 256 ^ k = n mod 256 ^ k"
  by (metis le_nat_le_bytes)

lemma le_nat_to_le_bytes [simp]:
  "le_nat (to_le_bytes16 v) = unat v" "le_nat (to_le_bytes32 w) = unat w"
  "le_nat (to_le_bytes64 x) = unat x"
  using unsigned_less [of v, where 'a = nat] unsigned_less [of w, where 'a = nat]
    unsigned_less [of x, where 'a = nat]
  by (simp_all add: to_le_bytes16_def to_le_bytes32_def to_le_bytes64_def le_nat_le_bytes)

lemma le_to_le_bytes [simp]:
  "le16 (to_le_bytes16 v) = v" "le32 (to_le_bytes32 w) = w" "le64 (to_le_bytes64 x) = x"
  by (simp_all add: le16_def le32_def le64_def)

lemma to_le_bytes_inj [simp]:
  "to_le_bytes16 v = to_le_bytes16 v' \<longleftrightarrow> v = v'"
  "to_le_bytes32 w = to_le_bytes32 w' \<longleftrightarrow> w = w'"
  "to_le_bytes64 x = to_le_bytes64 x' \<longleftrightarrow> x = x'"
  by (metis le_to_le_bytes)+

lemma to_le_bytes_le [simp]:
  "length bs = 2 \<Longrightarrow> to_le_bytes16 (le16 bs) = bs"
  "length bs = 4 \<Longrightarrow> to_le_bytes32 (le32 bs) = bs"
  "length bs = 8 \<Longrightarrow> to_le_bytes64 (le64 bs) = bs"
  using le_nat_less [of bs]
  by (simp_all add: to_le_bytes16_def to_le_bytes32_def to_le_bytes64_def le16_def le32_def
      le64_def unat_of_nat le_bytes_le_nat)

subsection \<open>Word operations as arithmetic\<close>

lemma or_push_nat:
  fixes a b :: nat
  assumes "a < 2 ^ k"
  shows "push_bit k b OR a = b * 2 ^ k + a"
proof -
  have "push_bit k b AND a = 0"
  proof (rule bit_eqI)
    fix n
    have "\<not> bit a n" if "k \<le> n"
      using assms that by (metis bit_take_bit_iff not_less take_bit_nat_eq_self)
    then show "bit (push_bit k b AND a) n = bit (0 :: nat) n"
      by (auto simp: bit_simps)
  qed
  then show ?thesis by (simp add: disjunctive_add_eq_or [symmetric] push_bit_eq_mult)
qed

lemma unat_push_bit:
  assumes "unat b * 2 ^ k < 2 ^ LENGTH('a)"
  shows "unat (push_bit k (b :: 'a::len word)) = unat b * 2 ^ k"
proof -
  have "unat (push_bit k b) = take_bit LENGTH('a) (push_bit k (unat b))"
    by (rule unsigned_push_bit_eq)
  also have "\<dots> = unat b * 2 ^ k"
    using assms by (simp only: push_bit_eq_mult take_bit_nat_eq_self)
  finally show ?thesis .
qed

lemma unat_or_push:
  fixes a b :: "'a::len word"
  assumes "unat a < 2 ^ k" and "unat b * 2 ^ k < 2 ^ LENGTH('a)"
  shows "unat (push_bit k b OR a) = unat b * 2 ^ k + unat a"
proof -
  have "unat (push_bit k b OR a) = unat b * 2 ^ k OR unat a"
    using assms(2) by (simp only: unsigned_or_eq unat_push_bit)
  then show ?thesis using or_push_nat [OF assms(1), of "unat b"] by (simp only: push_bit_eq_mult)
qed

lemma unat_drop_bit: "unat (drop_bit k (w :: 'a::len word)) = unat w div 2 ^ k"
proof -
  have "unat (drop_bit k w) = drop_bit k (take_bit LENGTH('a) (unat w))"
    by (rule unsigned_drop_bit_eq)
  also have "take_bit LENGTH('a) (unat w) = unat w" by (rule take_bit_nat_eq_self) (rule unsigned_less)
  finally show ?thesis by (simp only: drop_bit_eq_div)
qed

lemma unat_take_bit: "unat (take_bit k (w :: 'a::len word)) = unat w mod 2 ^ k"
  unfolding unsigned_take_bit_eq by (rule take_bit_eq_mod)

lemma unat_and_mask: "unat (w AND mask k) = unat (w :: 'a::len word) mod 2 ^ k"
  by (simp only: take_bit_eq_mask [symmetric] unat_take_bit)

lemma unat_ucast_le:
  assumes "LENGTH('a) \<le> LENGTH('b)"
  shows "unat (ucast (w :: 'a::len word) :: 'b::len word) = unat w"
proof -
  have "unat w < 2 ^ LENGTH('b)"
    by (rule less_le_trans [OF unsigned_less power_increasing [OF assms]]) simp
  then show ?thesis by (simp only: unsigned_ucast_eq take_bit_nat_eq_self)
qed

lemma unat_ucast_mod: "unat (ucast (w :: 'a::len word) :: 'b::len word) = unat w mod 2 ^ LENGTH('b)"
  by (simp only: unsigned_ucast_eq take_bit_eq_mod)

lemma mask_num: "(0x0F :: 'a::len word) = mask 4" "(0x1F :: 'a::len word) = mask 5"
  "(0x3F :: 'a::len word) = mask 6" "(0x3FF :: 'a::len word) = mask 10" "(1 :: 'a::len word) = mask 1"
  "(3 :: 'a::len word) = mask 2" "(0xFF :: 'a::len word) = mask 8"
  by (simp_all add: mask_eq_exp_minus_1)

subsection \<open>Filling a buffer row by row\<close>

definition splice :: "'a list \<Rightarrow> nat \<Rightarrow> 'a list \<Rightarrow> 'a list" where
  "splice xs off vals = take off xs @ vals @ drop (off + length vals) xs"

lemma length_splice [simp]: "off + length vals \<le> length xs \<Longrightarrow> length (splice xs off vals) = length xs"
  by (simp add: splice_def)

lemma splice_loop:
  assumes "\<And>r. r < n \<Longrightarrow> f r = Ok (g r)" and "\<And>r. r < n \<Longrightarrow> length (g r) = w" and "n * w \<le> length xs"
  shows "oloop (\<lambda>xs r. omap (\<lambda>v. splice xs (r * w) v) (f r)) [0..<n] xs = Ok (concat (map g [0..<n]) @ drop (n * w) xs)"
  using assms
proof (induction n)
  case 0
  then show ?case by simp
next
  case (Suc n)
  have len: "length (concat (map g [0..<n])) = n * w" using Suc.prems(2) by (intro length_concat_rows) simp
  have "oloop (\<lambda>xs r. omap (\<lambda>v. splice xs (r * w) v) (f r)) [0..<n] xs = Ok (concat (map g [0..<n]) @ drop (n * w) xs)"
    using Suc by simp
  moreover have "splice (concat (map g [0..<n]) @ drop (n * w) xs) (n * w) (g n) = concat (map g [0..<Suc n]) @ drop (Suc n * w) xs"
    using Suc.prems len by (simp add: splice_def add.commute)
  ultimately show ?case using Suc.prems(1) [of n] by (simp add: oloop_append)
qed

subsection \<open>Total correctness of outcomes\<close>

text \<open>The computation ends with a value, and the value satisfies the condition.\<close>

definition oks :: "('e, 'a) outcome \<Rightarrow> ('a \<Rightarrow> bool) \<Rightarrow> bool" where
  "oks m P \<longleftrightarrow> (\<exists>x. m = Ok x \<and> P x)"

lemma oks_Ok [simp]: "oks (Ok x) P \<longleftrightarrow> P x"
  by (simp add: oks_def)

lemma oks_bind: "oks m P \<Longrightarrow> (\<And>x. P x \<Longrightarrow> oks (f x) Q) \<Longrightarrow> oks (obind m f) Q"
  by (auto simp: oks_def)

lemma oks_map: "oks m (\<lambda>x. Q (f x)) \<Longrightarrow> oks (omap f m) Q"
  by (auto simp: oks_def)

lemma oks_mono: "oks m P \<Longrightarrow> (\<And>x. P x \<Longrightarrow> Q x) \<Longrightarrow> oks m Q"
  by (auto simp: oks_def)

lemma oks_if: "(P \<Longrightarrow> oks x Q) \<Longrightarrow> (\<not> P \<Longrightarrow> oks y Q) \<Longrightarrow> oks (if P then x else y) Q"
  by simp

lemma oks_loop:
  assumes "\<And>s i. i \<in> set is \<Longrightarrow> P s \<Longrightarrow> oks (f s i) P" and "P s"
  shows "oks (oloop f is s) P"
  using assms by (induction "is" arbitrary: s) (auto intro!: oks_bind)

lemma oks_loop_upt:
  assumes "\<And>m s. a \<le> m \<Longrightarrow> m < b \<Longrightarrow> P m s \<Longrightarrow> oks (f s m) (P (Suc m))" and "P a s" and "a \<le> b"
  shows "oks (oloop f [a..<b] s) (P b)"
  using assms(3,1)
proof (induction b rule: dec_induct)
  case (step n)
  then obtain x where x: "oloop f [a..<n] s = Ok x" "P n x" by (auto simp: oks_def)
  moreover obtain y where "f x n = Ok y" "P (Suc n) y" using step.prems [OF step.hyps(1) _ x(2)] by (auto simp: oks_def)
  ultimately show ?case using step.hyps(1) by (simp add: oloop_append)
qed (simp add: assms(2))

lemma oloop_Nil_fun: "oloop f [] = Ok"
  by (rule ext) simp

lemma omap_id: "omap (\<lambda>x. x) m = m"
  by (cases m) auto

lemma obind_Ok_map: "obind m (\<lambda>x. Ok (f x)) = omap f m"
  by (cases m) auto

lemma omap_bind: "omap f (obind m g) = obind m (\<lambda>x. omap f (g x))"
  by (cases m) auto

lemma omap_twice: "omap f (omap g m) = omap (\<lambda>x. f (g x)) m"
  by (cases m) auto

lemma omap_err_eq_Ok: "omap_err f m = Ok x \<longleftrightarrow> m = Ok x"
  by (cases m) auto

lemma omap_err_omap: "omap_err f (omap g m) = omap g (omap_err f m)"
  by (cases m) auto

lemma obind_omap: "obind (omap f m) g = obind m (\<lambda>x. g (f x))"
  by (cases m) auto

lemma omap_err_obind: "omap_err f (obind m g) = obind (omap_err f m) (\<lambda>x. omap_err f (g x))"
  by (cases m) auto

lemma oloop_upt_inv:
  assumes "oloop f [a..<b] s = Ok s'" and "P a s" and "a \<le> b" and "\<And>m t u. a \<le> m \<Longrightarrow> m < b \<Longrightarrow> P m t \<Longrightarrow> f t m = Ok u \<Longrightarrow> P (Suc m) u"
  shows "P b s'"
  using assms(3,1,4)
proof (induction b arbitrary: s' rule: dec_induct)
  case (step n)
  then obtain t where "oloop f [a..<n] s = Ok t" "f t n = Ok s'" by (auto simp: oloop_append outcome_simps oloop_Nil_fun)
  then show ?case using step by simp
qed (simp add: assms(2))

end
