(* ===== verification/F32.thy ===== *)
theory F32
  imports Prelude "HOL-Library.Code_Target_Nat"
begin

text \<open>
  The \<open>f32\<close> arithmetic the crate uses, bit for bit: an \<open>f32\<close> is its 32-bit pattern, every
  operation computes the exact result on integers and rounds it once to nearest, ties to even.
  A finite pattern with magnitude bits \<open>mag\<close> stands for \<open>f32_val mag\<close> units of \<open>2\<^sup>-\<^sup>1\<^sup>4\<^sup>9\<close>
  (the smallest subnormal), so all values are integers of this unit. An operation whose result
  is not a number returns the canonical quiet NaN.
\<close>

type_synonym f32 = "32 word"

subsection \<open>Fields and values\<close>

definition f32_inf_mag :: nat where "f32_inf_mag = 0x7F800000"

definition f32_neg_bit :: "f32 \<Rightarrow> bool" where
  "f32_neg_bit w \<longleftrightarrow> 2 ^ 31 \<le> unat w"

definition f32_mag :: "f32 \<Rightarrow> nat" where
  "f32_mag w = unat w mod 2 ^ 31"

definition f32_mk :: "bool \<Rightarrow> nat \<Rightarrow> f32" where
  "f32_mk s mag = of_nat ((if s then 2 ^ 31 else 0) + mag)"

definition f32_nan :: f32 where "f32_nan = 0x7FC00000"
definition f32_infinity :: f32 where "f32_infinity = 0x7F800000"
definition f32_neg_infinity :: f32 where "f32_neg_infinity = 0xFF800000"

definition f32_is_nan :: "f32 \<Rightarrow> bool" where
  "f32_is_nan w \<longleftrightarrow> f32_inf_mag < f32_mag w"

definition f32_is_inf :: "f32 \<Rightarrow> bool" where
  "f32_is_inf w \<longleftrightarrow> f32_mag w = f32_inf_mag"

definition f32_finite :: "f32 \<Rightarrow> bool" where
  "f32_finite w \<longleftrightarrow> f32_mag w < f32_inf_mag"

definition f32_is_zero :: "f32 \<Rightarrow> bool" where
  "f32_is_zero w \<longleftrightarrow> f32_mag w = 0"

definition f32_mant :: "nat \<Rightarrow> nat" where
  "f32_mant mag = (if mag < 2 ^ 23 then mag else mag mod 2 ^ 23 + 2 ^ 23)"

definition f32_ee :: "nat \<Rightarrow> nat" where
  "f32_ee mag = mag div 2 ^ 23 - 1"

definition f32_val :: "nat \<Rightarrow> nat" where
  "f32_val mag = f32_mant mag * 2 ^ f32_ee mag"

definition f32_int :: "f32 \<Rightarrow> int" where
  "f32_int w = (if f32_neg_bit w then - int (f32_val (f32_mag w)) else int (f32_val (f32_mag w)))"

subsection \<open>Rounding\<close>

fun nbits :: "nat \<Rightarrow> nat" where
  "nbits n = (if n = 0 then 0 else Suc (nbits (n div 2)))"

declare nbits.simps [simp del]

text \<open>\<open>N / 2 ^ q\<close> to the nearest integer, ties to even.\<close>

definition rne :: "nat \<Rightarrow> nat \<Rightarrow> nat" where
  "rne N q = (let d = N div 2 ^ q; r = N mod 2 ^ q in
     if 2 ^ q < 2 * r \<or> (2 * r = 2 ^ q \<and> odd d) then d + 1 else d)"

text \<open>
  The \<open>f32\<close> nearest to \<open>N / 2 ^ k\<close> units. With \<open>q\<close> the position of the last kept bit, the
  exponent field and the significand add up to the magnitude bits, also when rounding carries
  into the next binade; past the largest finite value the result is infinite.
\<close>

definition f32_round :: "bool \<Rightarrow> nat \<Rightarrow> nat \<Rightarrow> f32" where
  "f32_round s N k = (let q = max k (nbits N - 24) in
     f32_mk s (min ((q - k) * 2 ^ 23 + rne N q) f32_inf_mag))"

subsection \<open>Operations\<close>

definition f32_neg :: "f32 \<Rightarrow> f32" where
  "f32_neg x = f32_mk (\<not> f32_neg_bit x) (f32_mag x)"

definition f32_abs :: "f32 \<Rightarrow> f32" where
  "f32_abs x = f32_mk False (f32_mag x)"

definition f32_add :: "f32 \<Rightarrow> f32 \<Rightarrow> f32" where
  "f32_add x y =
     (if f32_is_nan x \<or> f32_is_nan y then f32_nan
      else if f32_is_inf x then
        (if f32_is_inf y \<and> f32_neg_bit x \<noteq> f32_neg_bit y then f32_nan else x)
      else if f32_is_inf y then y
      else let s = f32_int x + f32_int y in
        if s = 0 then f32_mk (f32_neg_bit x \<and> f32_neg_bit y) 0
        else f32_round (s < 0) (nat \<bar>s\<bar>) 0)"

definition f32_sub :: "f32 \<Rightarrow> f32 \<Rightarrow> f32" where
  "f32_sub x y = f32_add x (f32_neg y)"

definition f32_mul :: "f32 \<Rightarrow> f32 \<Rightarrow> f32" where
  "f32_mul x y =
     (let s = (f32_neg_bit x \<noteq> f32_neg_bit y) in
      if f32_is_nan x \<or> f32_is_nan y then f32_nan
      else if f32_is_inf x \<or> f32_is_inf y then
        (if f32_is_zero x \<or> f32_is_zero y then f32_nan else f32_mk s f32_inf_mag)
      else f32_round s (f32_val (f32_mag x) * f32_val (f32_mag y)) 149)"

text \<open>
  The quotient is developed to two bits below the smallest subnormal, with one sticky bit for
  the remainder, which decides the rounding as the exact quotient would.
\<close>

definition f32_div :: "f32 \<Rightarrow> f32 \<Rightarrow> f32" where
  "f32_div x y =
     (let s = (f32_neg_bit x \<noteq> f32_neg_bit y) in
      if f32_is_nan x \<or> f32_is_nan y then f32_nan
      else if f32_is_inf x then (if f32_is_inf y then f32_nan else f32_mk s f32_inf_mag)
      else if f32_is_inf y then f32_mk s 0
      else if f32_is_zero y then
        (if f32_is_zero x then f32_nan else f32_mk s f32_inf_mag)
      else let a = f32_val (f32_mag x) * 2 ^ 151; b = f32_val (f32_mag y) in
        f32_round s (2 * (a div b) + (if a mod b = 0 then 0 else 1)) 3)"

text \<open>\<open>as f32\<close> from an integer type, and the saturating \<open>as i32\<close> from \<open>f32\<close>.\<close>

definition f32_of_int :: "int \<Rightarrow> f32" where
  "f32_of_int i = f32_round (i < 0) (nat \<bar>i\<bar> * 2 ^ 149) 0"

definition f32_of_nat :: "nat \<Rightarrow> f32" where
  "f32_of_nat n = f32_of_int (int n)"

definition f32_to_int :: "f32 \<Rightarrow> int" where
  "f32_to_int x = (if f32_neg_bit x then - int (f32_val (f32_mag x) div 2 ^ 149)
                   else int (f32_val (f32_mag x) div 2 ^ 149))"

definition f32_to_i32 :: "f32 \<Rightarrow> int" where
  "f32_to_i32 x = (if f32_is_nan x then 0
     else max (- (2 ^ 31)) (min (2 ^ 31 - 1) (f32_to_int x)))"

text \<open>Comparisons are false on NaN; the key of an infinity is beyond every finite value.\<close>

definition f32_lt :: "f32 \<Rightarrow> f32 \<Rightarrow> bool" where
  "f32_lt x y \<longleftrightarrow> \<not> f32_is_nan x \<and> \<not> f32_is_nan y \<and> f32_int x < f32_int y"

definition f32_le :: "f32 \<Rightarrow> f32 \<Rightarrow> bool" where
  "f32_le x y \<longleftrightarrow> \<not> f32_is_nan x \<and> \<not> f32_is_nan y \<and> f32_int x \<le> f32_int y"

definition f32_eq :: "f32 \<Rightarrow> f32 \<Rightarrow> bool" where
  "f32_eq x y \<longleftrightarrow> \<not> f32_is_nan x \<and> \<not> f32_is_nan y \<and> f32_int x = f32_int y"

definition f32_one :: f32 where "f32_one = 0x3F800000"

subsection \<open>Patterns as sign and magnitude\<close>

lemma f32_inf_mag_less [simp]: "f32_inf_mag < 2147483648"
  by (simp add: f32_inf_mag_def)

lemma f32_mag_less [simp]: "f32_mag w < 2147483648"
  by (simp add: f32_mag_def)

lemma unat_f32_less: "unat (w :: f32) < 4294967296"
  using unsigned_less [of w] by simp

lemma unat_f32_mk:
  assumes "mag < 2147483648"
  shows "unat (f32_mk s mag) = (if s then 2147483648 else 0) + mag"
  using assms unfolding f32_mk_def by (subst unat_of_nat) simp

lemma f32_neg_bit_mk [simp]: "mag < 2147483648 \<Longrightarrow> f32_neg_bit (f32_mk s mag) = s"
  by (simp add: f32_neg_bit_def unat_f32_mk)

lemma f32_mag_mk [simp]: "mag < 2147483648 \<Longrightarrow> f32_mag (f32_mk s mag) = mag"
  by (simp add: f32_mag_def unat_f32_mk)

lemma f32_mk_eta [simp]: "f32_mk (f32_neg_bit w) (f32_mag w) = w"
proof -
  have "unat (f32_mk (f32_neg_bit w) (f32_mag w))
        = (if f32_neg_bit w then 2147483648 else 0) + f32_mag w"
    by (rule unat_f32_mk) simp
  also have "\<dots> = unat w"
    using unat_f32_less [of w] by (auto simp: f32_neg_bit_def f32_mag_def le_mod_geq not_le)
  finally show ?thesis by (simp add: word_unat_eq_iff)
qed

lemma f32_eqI:
  assumes "f32_neg_bit x = f32_neg_bit y" and "f32_mag x = f32_mag y"
  shows "x = y"
proof -
  have "f32_mk (f32_neg_bit x) (f32_mag x) = f32_mk (f32_neg_bit y) (f32_mag y)"
    by (simp only: assms)
  then show ?thesis by (simp only: f32_mk_eta)
qed

lemma f32_neg_bit_neg [simp]: "f32_neg_bit (f32_neg x) = (\<not> f32_neg_bit x)"
  and f32_mag_neg [simp]: "f32_mag (f32_neg x) = f32_mag x"
  by (simp_all add: f32_neg_def)

lemma f32_neg_bit_abs [simp]: "\<not> f32_neg_bit (f32_abs x)"
  and f32_mag_abs [simp]: "f32_mag (f32_abs x) = f32_mag x"
  by (simp_all add: f32_abs_def)

lemma f32_neg_neg [simp]: "f32_neg (f32_neg x) = x"
  by (rule f32_eqI) simp_all

lemma f32_int_neg [simp]: "f32_int (f32_neg x) = - f32_int x"
  by (simp add: f32_int_def)

lemma f32_is_nan_nan [simp]: "f32_is_nan f32_nan"
  by (simp add: f32_is_nan_def f32_nan_def f32_mag_def f32_inf_mag_def)

lemma f32_finite_not_nan [simp]: "f32_finite x \<Longrightarrow> \<not> f32_is_nan x"
  and f32_finite_not_inf [simp]: "f32_finite x \<Longrightarrow> \<not> f32_is_inf x"
  by (simp_all add: f32_finite_def f32_is_nan_def f32_is_inf_def)

lemma f32_zero [simp]:
  "f32_mag 0 = 0" "\<not> f32_neg_bit 0" "f32_finite 0" "\<not> f32_is_nan 0" "\<not> f32_is_inf 0"
  by (simp_all add: f32_mag_def f32_neg_bit_def f32_finite_def f32_is_nan_def f32_is_inf_def
      f32_inf_mag_def)

lemma f32_val_0 [simp]: "f32_val 0 = 0"
  by (simp add: f32_val_def f32_mant_def)

lemma f32_int_0 [simp]: "f32_int 0 = 0"
  by (simp add: f32_int_def)

subsection \<open>Bit lengths\<close>

lemma nbits_0 [simp]: "nbits 0 = 0"
  by (simp add: nbits.simps)

lemma nbits_pos: "0 < n \<Longrightarrow> nbits n = Suc (nbits (n div 2))"
  by (subst nbits.simps) simp

lemma nbits_times_2: "0 < n \<Longrightarrow> nbits (n * 2) = Suc (nbits n)"
  by (simp add: nbits_pos [of "n * 2"])

lemma nbits_times_power: "0 < n \<Longrightarrow> nbits (n * 2 ^ k) = nbits n + k"
proof (induction k)
  case 0
  then show ?case by simp
next
  case (Suc k)
  have "nbits (n * 2 ^ Suc k) = nbits ((n * 2 ^ k) * 2)" by (simp add: ac_simps)
  also have "\<dots> = Suc (nbits (n * 2 ^ k))" using Suc.prems by (intro nbits_times_2) simp
  finally show ?case using Suc by simp
qed

lemma nbits_le_iff: "nbits n \<le> k \<longleftrightarrow> n < 2 ^ k"
proof (induction k arbitrary: n)
  case 0
  show ?case by (cases "n = 0") (auto simp: nbits_pos)
next
  case (Suc k)
  show ?case
  proof (cases "n = 0")
    case False
    then have "nbits n \<le> Suc k \<longleftrightarrow> nbits (n div 2) \<le> k" by (simp add: nbits_pos)
    also have "\<dots> \<longleftrightarrow> n div 2 < 2 ^ k" by (rule Suc.IH)
    also have "\<dots> \<longleftrightarrow> n < 2 ^ Suc k" by (simp add: less_mult_imp_div_less div_less_iff_less_mult mult.commute)
    finally show ?thesis .
  qed simp
qed

lemma nbits_eqI: "2 ^ k \<le> n \<Longrightarrow> n < 2 ^ Suc k \<Longrightarrow> nbits n = Suc k"
  using nbits_le_iff [of n "Suc k"] nbits_le_iff [of n k] by simp

subsection \<open>Values of magnitudes\<close>

lemma f32_val_fields:
  assumes "m < 2 ^ 24" and "j = 0 \<or> 2 ^ 23 \<le> m"
  shows "f32_val (j * 2 ^ 23 + m) = m * 2 ^ j"
proof (cases "m < 2 ^ 23")
  case True
  with assms have "j = 0" by auto
  with True show ?thesis by (simp add: f32_val_def f32_mant_def f32_ee_def)
next
  case False
  define r where "r = m - 2 ^ 23"
  have m: "m = r + 2 ^ 23" and r: "r < 2 ^ 23" using False assms(1) by (auto simp: r_def)
  have eq: "j * 2 ^ 23 + m = r + Suc j * 2 ^ 23" by (simp add: m)
  have "(j * 2 ^ 23 + m) mod 2 ^ 23 = r" "(j * 2 ^ 23 + m) div 2 ^ 23 = Suc j"
    unfolding eq using r by (simp_all del: mult_Suc)
  moreover have "\<not> j * 2 ^ 23 + m < 2 ^ 23" using False by simp
  ultimately show ?thesis by (simp add: f32_val_def f32_mant_def f32_ee_def m)
qed

lemma f32_fields:
  obtains m j where "mag = j * 2 ^ 23 + m" and "m < 2 ^ 24" and "j = 0 \<or> 2 ^ 23 \<le> m"
    and "f32_mant mag = m" and "f32_ee mag = j"
proof (cases "mag < 2 ^ 23")
  case True
  then show ?thesis using that [of 0 mag] by (simp add: f32_mant_def f32_ee_def)
next
  case False
  define d where "d = mag div 2 ^ 23"
  define r where "r = mag mod 2 ^ 23"
  have d: "0 < d" using False by (simp add: d_def div_greater_zero_iff)
  have r: "r < 2 ^ 23" by (simp add: r_def)
  have eq: "mag = d * 2 ^ 23 + r" by (simp add: d_def r_def div_mult_mod_eq)
  also have "\<dots> = (d - 1) * 2 ^ 23 + (r + 2 ^ 23)" using d by (cases d) simp_all
  finally have "mag = (d - 1) * 2 ^ 23 + (r + 2 ^ 23)" .
  then show ?thesis
    using r False by (intro that [of "d - 1" "r + 2 ^ 23"])
      (auto simp: f32_mant_def f32_ee_def d_def r_def)
qed

lemma rne_exact: "rne (m * 2 ^ q) q = m"
  by (simp add: rne_def Let_def)

lemma f32_round_val:
  assumes "mag \<le> f32_inf_mag"
  shows "f32_round s (f32_val mag * 2 ^ k) k = f32_mk s mag"
proof -
  obtain m j where mag: "mag = j * 2 ^ 23 + m" and m: "m < 2 ^ 24" "j = 0 \<or> 2 ^ 23 \<le> m"
    by (rule f32_fields [of mag])
  have N: "f32_val mag * 2 ^ k = m * 2 ^ (j + k)"
    using f32_val_fields [OF m] by (simp add: mag power_add)
  have q: "max k (nbits (m * 2 ^ (j + k)) - 24) = j + k"
  proof (cases "m < 2 ^ 23")
    case True
    then have "nbits m \<le> 23" and "j = 0" using m by (auto simp: nbits_le_iff)
    then show ?thesis by (cases "m = 0") (auto simp: nbits_times_power)
  next
    case False
    then have "nbits m = 24" using m nbits_eqI [of 23 m] by simp
    moreover have "0 < m" using False by (cases m) auto
    ultimately show ?thesis by (simp add: nbits_times_power)
  qed
  show ?thesis
    using assms unfolding f32_round_def N q Let_def rne_exact by (simp add: mag)
qed

lemma f32_representable:
  assumes "m < 2 ^ 24" and "j \<le> 253"
  obtains mag where "mag < f32_inf_mag" and "f32_val mag = m * 2 ^ j"
proof -
  have "\<exists>mag. mag < f32_inf_mag \<and> f32_val mag = m * 2 ^ j"
    using assms
  proof (induction j arbitrary: m)
    case 0
    then show ?case
      using f32_val_fields [of m 0] by (intro exI [of _ m]) (simp add: f32_inf_mag_def)
  next
    case (Suc j)
    show ?case
    proof (cases "m < 2 ^ 23")
      case True
      then have "2 * m < 2 ^ 24" by simp
      with Suc.IH [of "2 * m"] Suc.prems(2)
      obtain mag where "mag < f32_inf_mag" "f32_val mag = 2 * m * 2 ^ j" by auto
      then show ?thesis by (intro exI [of _ mag]) simp
    next
      case False
      have "Suc j * 2 ^ 23 + m < 253 * 2 ^ 23 + 2 ^ 24"
        using Suc.prems by (intro add_le_less_mono mult_le_mono) auto
      then have "Suc j * 2 ^ 23 + m < f32_inf_mag" by (simp add: f32_inf_mag_def)
      moreover have "f32_val (Suc j * 2 ^ 23 + m) = m * 2 ^ Suc j"
        using Suc.prems False by (intro f32_val_fields) auto
      ultimately show ?thesis by blast
    qed
  qed
  then show thesis using that by blast
qed

text \<open>The magnitude order is the value order.\<close>

lemma f32_val_bounds: "f32_val mag < f32_val (Suc mag)"
proof -
  obtain m j where mag: "mag = j * 2 ^ 23 + m" and m: "m < 2 ^ 24" "j = 0 \<or> 2 ^ 23 \<le> m"
    by (rule f32_fields [of mag])
  have v: "f32_val mag = m * 2 ^ j" using f32_val_fields [OF m] by (simp add: mag)
  show ?thesis
  proof (cases "Suc m < 2 ^ 24")
    case True
    then have "f32_val (j * 2 ^ 23 + Suc m) = Suc m * 2 ^ j"
      using m by (intro f32_val_fields) auto
    then show ?thesis using v by (simp add: mag)
  next
    case False
    with m have me: "Suc m = 2 ^ 24" by linarith
    have "f32_val (Suc j * 2 ^ 23 + 2 ^ 23) = 2 ^ 23 * 2 ^ Suc j"
      by (rule f32_val_fields) auto
    moreover have "Suc mag = Suc j * 2 ^ 23 + 2 ^ 23" using me by (simp add: mag)
    ultimately have "f32_val (Suc mag) = 2 ^ 24 * 2 ^ j" by simp
    moreover have "m * 2 ^ j < 2 ^ 24 * 2 ^ j" using m(1) by (intro mult_strict_right_mono) auto
    ultimately show ?thesis using v by simp
  qed
qed

lemma f32_val_strict_mono: "strict_mono f32_val"
  unfolding strict_mono_Suc_iff by (simp add: f32_val_bounds)

lemma f32_val_less_iff [simp]: "f32_val a < f32_val b \<longleftrightarrow> a < b"
  by (rule strict_mono_less [OF f32_val_strict_mono])

lemma f32_val_eq_iff [simp]: "f32_val a = f32_val b \<longleftrightarrow> a = b"
  by (rule strict_mono_eq [OF f32_val_strict_mono])

lemma f32_val_eq_0 [simp]: "f32_val a = 0 \<longleftrightarrow> a = 0"
  using f32_val_eq_iff [of a 0] by (simp del: f32_val_eq_iff)

lemma f32_round_eq_val:
  assumes "mag \<le> f32_inf_mag" and "N = f32_val mag * 2 ^ k"
  shows "f32_round s N k = f32_mk s mag"
  using assms f32_round_val by simp

text \<open>Rounding an exactly representable value keeps it.\<close>

lemma f32_round_exact:
  assumes "N = m * 2 ^ j * 2 ^ k" and "m < 2 ^ 24" and "j \<le> 253"
  obtains mag where "f32_round s N k = f32_mk s mag" and "mag < f32_inf_mag"
    and "f32_val mag = m * 2 ^ j"
proof -
  obtain mag where "mag < f32_inf_mag" "f32_val mag = m * 2 ^ j"
    by (rule f32_representable [OF assms(2,3)])
  then show ?thesis using that [of mag] f32_round_eq_val [of mag N k s] assms(1) by simp
qed

subsection \<open>Exact operations\<close>

lemma f32_abs_int: "nat \<bar>f32_int x\<bar> = f32_val (f32_mag x)"
  by (simp add: f32_int_def)

lemma f32_finite_mk [simp]: "mag < f32_inf_mag \<Longrightarrow> f32_finite (f32_mk s mag)"
  by (simp add: f32_finite_def order_less_trans [OF _ f32_inf_mag_less])

lemma f32_int_mk:
  "mag < 2147483648 \<Longrightarrow> f32_int (f32_mk s mag) = (if s then - int (f32_val mag) else int (f32_val mag))"
  by (simp add: f32_int_def)

lemma f32_round_exact_int:
  assumes "N = m * 2 ^ j * 2 ^ k" and "m < 2 ^ 24" and "j \<le> 253"
  shows "f32_finite (f32_round s N k)"
    and "f32_neg_bit (f32_round s N k) = s"
    and "f32_int (f32_round s N k) * 2 ^ k = (if s then - int N else int N)"
proof -
  obtain mag where r: "f32_round s N k = f32_mk s mag" and mag: "mag < f32_inf_mag"
    and v: "f32_val mag = m * 2 ^ j"
    by (rule f32_round_exact [OF assms])
  have lt: "mag < 2147483648" using mag f32_inf_mag_less by (rule less_trans)
  show "f32_finite (f32_round s N k)" using mag by (simp add: r)
  show "f32_neg_bit (f32_round s N k) = s" using lt by (simp add: r)
  show "f32_int (f32_round s N k) * 2 ^ k = (if s then - int N else int N)"
    unfolding r f32_int_mk [OF lt] v by (simp add: assms(1))
qed

lemma f32_of_int_exact:
  assumes "\<bar>i\<bar> < 2 ^ 24"
  shows "f32_finite (f32_of_int i)" and "f32_neg_bit (f32_of_int i) = (i < 0)"
    and "f32_int (f32_of_int i) = i * 2 ^ 149"
proof -
  have m: "nat \<bar>i\<bar> < 2 ^ 24" using assms by simp
  have N: "nat \<bar>i\<bar> * 2 ^ 149 = nat \<bar>i\<bar> * 2 ^ 149 * 2 ^ 0" by simp
  note ex = f32_round_exact_int [OF N m, of "i < 0", folded f32_of_int_def]
  show "f32_finite (f32_of_int i)" and "f32_neg_bit (f32_of_int i) = (i < 0)"
    using ex(1,2) by simp_all
  have "f32_int (f32_of_int i) = (if i < 0 then - int (nat \<bar>i\<bar> * 2 ^ 149) else int (nat \<bar>i\<bar> * 2 ^ 149))"
    using ex(3) by (simp only: power_0 mult_1_right)
  then show "f32_int (f32_of_int i) = i * 2 ^ 149" by simp
qed

text \<open>A product whose exact value has at most 24 significant bits is not rounded.\<close>

lemma f32_mul_exact:
  assumes "f32_finite x" and "f32_finite y"
    and "\<bar>f32_int x * f32_int y\<bar> = int (m * 2 ^ j * 2 ^ 149)" and "m < 2 ^ 24" and "j \<le> 253"
  shows "f32_finite (f32_mul x y)"
    and "f32_neg_bit (f32_mul x y) = (f32_neg_bit x \<noteq> f32_neg_bit y)"
    and "f32_int (f32_mul x y) * 2 ^ 149 = f32_int x * f32_int y"
proof -
  let ?N = "f32_val (f32_mag x) * f32_val (f32_mag y)"
  have "int ?N = \<bar>f32_int x * f32_int y\<bar>" by (simp add: f32_int_def abs_mult)
  then have N: "?N = m * 2 ^ j * 2 ^ 149" using assms(3) by (metis nat_int)
  have mul: "f32_mul x y = f32_round (f32_neg_bit x \<noteq> f32_neg_bit y) ?N 149"
    using assms(1,2) by (simp add: f32_mul_def)
  note ex = f32_round_exact_int [OF N assms(4,5)]
  show "f32_finite (f32_mul x y)" "f32_neg_bit (f32_mul x y) = (f32_neg_bit x \<noteq> f32_neg_bit y)"
    unfolding mul by (rule ex)+
  have "f32_int (f32_mul x y) * 2 ^ 149 = (if f32_neg_bit x \<noteq> f32_neg_bit y then - int ?N else int ?N)"
    unfolding mul by (rule ex(3))
  also have "\<dots> = f32_int x * f32_int y" by (auto simp: f32_int_def)
  finally show "f32_int (f32_mul x y) * 2 ^ 149 = f32_int x * f32_int y" .
qed

lemma f32_one_val: "f32_mag f32_one = 0x3F800000" "\<not> f32_neg_bit f32_one" "f32_finite f32_one"
    "f32_val 0x3F800000 = 2 ^ 149"
  by (simp_all add: f32_one_def f32_mag_def f32_neg_bit_def f32_finite_def f32_inf_mag_def
      f32_val_def f32_mant_def f32_ee_def)

lemma f32_is_infD: "f32_is_inf x \<Longrightarrow> f32_mk (f32_neg_bit x) f32_inf_mag = x"
  unfolding f32_is_inf_def by (metis f32_mk_eta)

lemma f32_mul_one:
  assumes "\<not> f32_is_nan x"
  shows "f32_mul x f32_one = x"
proof (cases "f32_is_inf x")
  case True
  then have "f32_mag x \<noteq> 0" by (simp add: f32_is_inf_def f32_inf_mag_def)
  with True show ?thesis
    using assms f32_one_val by (simp add: f32_mul_def f32_is_infD f32_is_zero_def)
next
  case False
  have "f32_mul x f32_one = f32_round (f32_neg_bit x) (f32_val (f32_mag x) * 2 ^ 149) 149"
    using assms False f32_one_val by (simp add: f32_mul_def)
  also have "\<dots> = f32_mk (f32_neg_bit x) (f32_mag x)"
    using assms by (intro f32_round_val) (simp add: f32_is_nan_def)
  finally show ?thesis by simp
qed

lemma f32_add_commute: "f32_add x y = f32_add y x"
proof (cases "f32_is_inf x \<and> f32_is_inf y \<and> f32_neg_bit x = f32_neg_bit y")
  case True
  then have "x = y" by (intro f32_eqI) (auto simp: f32_is_inf_def)
  then show ?thesis by simp
next
  case False
  then show ?thesis
    unfolding f32_add_def Let_def
    by (cases "f32_is_inf x"; cases "f32_is_inf y") (simp_all add: ac_simps conj_commute disj_commute)
qed

lemma f32_mul_commute: "f32_mul x y = f32_mul y x"
  by (cases "f32_neg_bit x"; cases "f32_neg_bit y")
     (simp_all add: f32_mul_def mult.commute disj_commute)

lemma f32_add_nan [simp]: "f32_is_nan x \<Longrightarrow> f32_add x y = f32_nan"
  "f32_is_nan y \<Longrightarrow> f32_add x y = f32_nan"
  by (simp_all add: f32_add_def)

lemma f32_mul_nan [simp]: "f32_is_nan x \<Longrightarrow> f32_mul x y = f32_nan"
  "f32_is_nan y \<Longrightarrow> f32_mul x y = f32_nan"
  by (simp_all add: f32_mul_def Let_def)

text \<open>Multiplying by one before an addition changes nothing, NaN included.\<close>

lemma f32_add_mul_one: "f32_add a (f32_mul x f32_one) = f32_add a x"
  by (cases "f32_is_nan x") (simp_all add: f32_mul_one)

subsection \<open>Comparison\<close>

lemma f32_lt_irrefl [simp]: "\<not> f32_lt x x"
  by (simp add: f32_lt_def)

lemma f32_lt_trans: "f32_lt x y \<Longrightarrow> f32_lt y z \<Longrightarrow> f32_lt x z"
  by (simp add: f32_lt_def)

lemma f32_not_lt: "\<not> f32_is_nan x \<Longrightarrow> \<not> f32_is_nan y \<Longrightarrow> \<not> f32_lt x y \<longleftrightarrow> f32_int y \<le> f32_int x"
  by (auto simp: f32_lt_def)

lemma f32_lt_nan [simp]: "f32_is_nan x \<Longrightarrow> \<not> f32_lt x y" "f32_is_nan y \<Longrightarrow> \<not> f32_lt x y"
  by (simp_all add: f32_lt_def)

lemma f32_to_i32_range: "- (2 ^ 31) \<le> f32_to_i32 x" "f32_to_i32 x < 2 ^ 31"
  by (auto simp: f32_to_i32_def min_def max_def)

lemmas f32_eval = f32_add_def f32_mul_def f32_div_def f32_sub_def f32_neg_def f32_abs_def
  f32_is_nan_def f32_is_inf_def f32_is_zero_def f32_mag_def f32_inf_mag_def f32_int_def f32_val_def
  f32_mant_def f32_ee_def f32_neg_bit_def f32_round_def f32_mk_def Let_def nbits.simps rne_def
  f32_of_int_def f32_to_i32_def f32_to_int_def f32_lt_def f32_le_def f32_eq_def f32_nan_def

text \<open>Addition is not associative: the order of a reduction is part of its result.\<close>

lemma f32_add_not_assoc:
  "f32_add (f32_add 0x4B800000 0x3F800000) 0x3F800000 \<noteq>
   f32_add 0x4B800000 (f32_add 0x3F800000 0x3F800000)"
  by (simp add: f32_eval)

end
