(* ===== verification/Shape.thy ===== *)
theory Shape
  imports Prelude
begin

text \<open>
  Element types (\<open>src/src/dtype.rs\<close>), shapes and strides (\<open>src/src/shape.rs\<close>) and devices
  (\<open>src/src/device.rs\<close>). A \<open>usize\<close> is a natural number; where the code multiplies without a
  check, the product is taken modulo \<open>2 ^ 64\<close>, where it saturates it is cut at \<open>2 ^ 64 - 1\<close>.
\<close>

definition usize_max :: nat where "usize_max = 2 ^ 64 - 1"

definition sat_mul :: "nat \<Rightarrow> nat \<Rightarrow> nat" where
  "sat_mul a b = min (a * b) usize_max"

definition wrap_mul :: "nat \<Rightarrow> nat \<Rightarrow> nat" where
  "wrap_mul a b = (a * b) mod 2 ^ 64"

subsection \<open>Element types\<close>

datatype DType = F32 | F16 | BF16 | U32 | I64 | Q4_0 | Q8_0 | Q4_K | Q6_K

definition Q4_K_BLOCK_NUMEL :: nat where "Q4_K_BLOCK_NUMEL = 256"
definition Q4_K_BLOCK_BYTES :: nat where "Q4_K_BLOCK_BYTES = 144"
definition Q6_K_BLOCK_NUMEL :: nat where "Q6_K_BLOCK_NUMEL = 256"
definition Q6_K_BLOCK_BYTES :: nat where "Q6_K_BLOCK_BYTES = 210"
definition Q4_0_BLOCK_NUMEL :: nat where "Q4_0_BLOCK_NUMEL = 32"
definition Q4_0_BLOCK_BYTES :: nat where "Q4_0_BLOCK_BYTES = 18"
definition Q8_0_BLOCK_NUMEL :: nat where "Q8_0_BLOCK_NUMEL = 32"
definition Q8_0_BLOCK_BYTES :: nat where "Q8_0_BLOCK_BYTES = 34"

lemmas block_consts = Q4_K_BLOCK_NUMEL_def Q4_K_BLOCK_BYTES_def Q6_K_BLOCK_NUMEL_def
  Q6_K_BLOCK_BYTES_def Q4_0_BLOCK_NUMEL_def Q4_0_BLOCK_BYTES_def Q8_0_BLOCK_NUMEL_def
  Q8_0_BLOCK_BYTES_def

fun size_in_bytes :: "DType \<Rightarrow> nat res" where
  "size_in_bytes F32 = Ok 4"
| "size_in_bytes U32 = Ok 4"
| "size_in_bytes F16 = Ok 2"
| "size_in_bytes BF16 = Ok 2"
| "size_in_bytes I64 = Ok 8"
| "size_in_bytes _ = Panic"

fun bytes_for_numel :: "DType \<Rightarrow> nat \<Rightarrow> nat" where
  "bytes_for_numel F32 n = wrap_mul n 4"
| "bytes_for_numel U32 n = wrap_mul n 4"
| "bytes_for_numel F16 n = wrap_mul n 2"
| "bytes_for_numel BF16 n = wrap_mul n 2"
| "bytes_for_numel I64 n = wrap_mul n 8"
| "bytes_for_numel Q4_0 n = wrap_mul (n div Q4_0_BLOCK_NUMEL) Q4_0_BLOCK_BYTES"
| "bytes_for_numel Q8_0 n = wrap_mul (n div Q8_0_BLOCK_NUMEL) Q8_0_BLOCK_BYTES"
| "bytes_for_numel Q4_K n = wrap_mul (n div Q4_K_BLOCK_NUMEL) Q4_K_BLOCK_BYTES"
| "bytes_for_numel Q6_K n = wrap_mul (n div Q6_K_BLOCK_NUMEL) Q6_K_BLOCK_BYTES"

fun is_block_quantized :: "DType \<Rightarrow> bool" where
  "is_block_quantized Q4_0 = True"
| "is_block_quantized Q8_0 = True"
| "is_block_quantized Q4_K = True"
| "is_block_quantized Q6_K = True"
| "is_block_quantized _ = False"

fun block_numel :: "DType \<Rightarrow> nat" where
  "block_numel Q4_0 = Q4_0_BLOCK_NUMEL"
| "block_numel Q8_0 = Q8_0_BLOCK_NUMEL"
| "block_numel _ = 1"

fun dtype_str :: "DType \<Rightarrow> string" where
  "dtype_str F32 = ''f32''"
| "dtype_str F16 = ''f16''"
| "dtype_str BF16 = ''bf16''"
| "dtype_str U32 = ''u32''"
| "dtype_str I64 = ''i64''"
| "dtype_str Q4_0 = ''q4_0''"
| "dtype_str Q8_0 = ''q8_0''"
| "dtype_str Q4_K = ''q4_k''"
| "dtype_str Q6_K = ''q6_k''"

text \<open>The tags of distinct element types are distinct.\<close>

lemma dtype_str_inj: "dtype_str a = dtype_str b \<longleftrightarrow> a = b"
  by (cases a; cases b) simp_all

text \<open>
  For the block types added last (\<open>Q4_K\<close>, \<open>Q6_K\<close>) \<open>block_numel\<close> answers 1 although a block
  holds 256 elements.
\<close>

lemma block_numel_of_k_quants:
  "is_block_quantized Q4_K \<and> block_numel Q4_K = 1 \<and> block_numel Q4_K \<noteq> Q4_K_BLOCK_NUMEL"
  "is_block_quantized Q6_K \<and> block_numel Q6_K = 1 \<and> block_numel Q6_K \<noteq> Q6_K_BLOCK_NUMEL"
  by (simp_all add: block_consts)

subsection \<open>Devices\<close>

datatype Device = Cpu | Gpu u8

fun device_str :: "Device \<Rightarrow> string" where
  "device_str Cpu = ''cpu''"
| "device_str (Gpu _) = ''gpu''"

fun same_device :: "Device \<Rightarrow> Device \<Rightarrow> bool" where
  "same_device Cpu Cpu = True"
| "same_device (Gpu a) (Gpu b) = (a = b)"
| "same_device _ _ = False"

lemma same_device_iff: "same_device a b \<longleftrightarrow> a = b"
  by (cases a; cases b) simp_all

subsection \<open>Shapes and strides\<close>

definition MAX_RANK :: nat where "MAX_RANK = 6"

record shape =
  sh_dims :: "nat list"
  sh_rank :: nat

record strides =
  st_strides :: "nat list"
  st_rank :: nat

definition shape_new :: "nat list \<Rightarrow> shape res" where
  "shape_new ds =
     (if MAX_RANK < length ds then Err (TooManyDims (length ds) MAX_RANK)
      else let buf = foldl (\<lambda>buf i. buf[i := ds ! i]) (replicate MAX_RANK 0) [0..<length ds]
        in Ok \<lparr>sh_dims = buf, sh_rank = length ds\<rparr>)"

definition shape_scalar :: shape where
  "shape_scalar = \<lparr>sh_dims = replicate MAX_RANK 0, sh_rank = 0\<rparr>"

definition shape_dims :: "shape \<Rightarrow> nat list" where
  "shape_dims s = take (sh_rank s) (sh_dims s)"

definition numel :: "shape \<Rightarrow> nat" where
  "numel s = foldl sat_mul 1 (shape_dims s)"

definition contiguous_strides :: "shape \<Rightarrow> strides" where
  "contiguous_strides s =
     (let r = sh_rank s; st0 = replicate MAX_RANK 0 in
      \<lparr>st_strides =
         (if 0 < r then
            foldl (\<lambda>st i. st[i - 1 := wrap_mul (st ! i) (sh_dims s ! i)])
              (st0[r - 1 := 1]) (rev [1..<r])
          else st0),
       st_rank = r\<rparr>)"

definition strides_slice :: "strides \<Rightarrow> nat list" where
  "strides_slice st = take (st_rank st) (st_strides st)"

definition strides_contiguous :: "strides \<Rightarrow> shape \<Rightarrow> bool" where
  "strides_contiguous st s = (strides_slice st = strides_slice (contiguous_strides s))"

text \<open>The representation invariant: six slots, the rank within them.\<close>

definition shape_ok :: "shape \<Rightarrow> bool" where
  "shape_ok s \<longleftrightarrow> length (sh_dims s) = MAX_RANK \<and> sh_rank s \<le> MAX_RANK"

lemma shape_new_eq:
  "length ds \<le> MAX_RANK \<Longrightarrow>
   shape_new ds = Ok \<lparr>sh_dims = ds @ replicate (MAX_RANK - length ds) 0, sh_rank = length ds\<rparr>"
  by (simp add: shape_new_def foldl_update_map map_nth Let_def)

lemma shape_new_Ok_iff: "shape_new ds = Ok s \<longleftrightarrow> length ds \<le> MAX_RANK \<and>
    s = \<lparr>sh_dims = ds @ replicate (MAX_RANK - length ds) 0, sh_rank = length ds\<rparr>"
proof (cases "length ds \<le> MAX_RANK")
  case True
  then show ?thesis by (auto simp: shape_new_eq)
next
  case False
  then show ?thesis by (simp add: shape_new_def)
qed

lemma shape_new_dims: "shape_new ds = Ok s \<Longrightarrow> shape_dims s = ds"
  by (simp add: shape_new_Ok_iff shape_dims_def)

lemma shape_new_ok: "shape_new ds = Ok s \<Longrightarrow> shape_ok s"
  by (auto simp: shape_new_Ok_iff shape_ok_def)

lemma length_shape_dims: "shape_ok s \<Longrightarrow> length (shape_dims s) = sh_rank s"
  by (simp add: shape_dims_def shape_ok_def)

text \<open>The saturating product is the product cut at the largest \<open>usize\<close>.\<close>

lemma sat_mul_min: "min (min p usize_max * d) usize_max = min (p * d) usize_max"
proof (cases "p \<le> usize_max")
  case True
  then show ?thesis by simp
next
  case False
  have "usize_max \<le> usize_max * d" "usize_max \<le> p * d" if "0 < d"
  proof -
    show "usize_max \<le> usize_max * d" using that by simp
    also have "\<dots> \<le> p * d" using False by simp
    finally show "usize_max \<le> p * d" .
  qed
  with False show ?thesis by (cases "d = 0") simp_all
qed

lemma foldl_sat_mul: "foldl sat_mul (min p usize_max) ds = min (p * prod_list ds) usize_max"
proof (induction ds arbitrary: p)
  case Nil
  then show ?case by simp
next
  case (Cons d ds)
  then show ?case using Cons.IH [of "p * d"] by (simp add: sat_mul_def sat_mul_min mult.assoc)
qed

lemma numel_eq: "numel s = min (prod_list (shape_dims s)) usize_max"
proof -
  have "1 = min 1 usize_max" by (simp add: usize_max_def)
  then show ?thesis unfolding numel_def using foldl_sat_mul [of 1 "shape_dims s"] by (simp add: min_def)
qed

subsection \<open>Row-major strides\<close>

definition flat_index :: "nat list \<Rightarrow> nat list \<Rightarrow> nat" where
  "flat_index st ix = sum_list (map2 (*) ix st)"

fun suffix_prods :: "nat list \<Rightarrow> nat list" where
  "suffix_prods [] = []"
| "suffix_prods (d # ds) = prod_list ds # suffix_prods ds"

lemma length_suffix_prods [simp]: "length (suffix_prods ds) = length ds"
  by (induction ds) auto

lemma nth_suffix_prods: "i < length ds \<Longrightarrow> suffix_prods ds ! i = prod_list (drop (Suc i) ds)"
proof (induction ds arbitrary: i)
  case Nil
  then show ?case by simp
next
  case (Cons d ds)
  then show ?case by (cases i) auto
qed

lemma stride_loop:
  fixes ds st0 :: "nat list"
  assumes "0 < r" and "r \<le> length ds" and "length st0 = length ds" and "1 \<le> j" and "j \<le> r"
    and "k < r" and "j - 1 \<le> k"
  shows "foldl (\<lambda>st i. st[i - 1 := wrap_mul (st ! i) (ds ! i)]) (st0[r - 1 := 1]) (rev [j..<r]) ! k
         = prod_list (drop (Suc k) (take r ds)) mod 2 ^ 64"
  using \<open>j \<le> r\<close> assms(4,6,7)
proof (induction j arbitrary: k rule: inc_induct)
  case base
  then have "k = r - 1" by simp
  then show ?case using assms by simp
next
  case (step j)
  let ?f = "\<lambda>st i. st[i - 1 := wrap_mul (st ! i) (ds ! i)]"
  let ?st = "foldl ?f (st0[r - 1 := 1]) (rev [Suc j..<r])"
  have split: "foldl ?f (st0[r - 1 := 1]) (rev [j..<r]) = ?st[j - 1 := wrap_mul (?st ! j) (ds ! j)]"
    using step.hyps by (simp add: upt_conv_Cons)
  have len: "length ?st = length ds" using assms(3) by simp
  show ?case
  proof (cases "k = j - 1")
    case True
    have IH: "?st ! j = prod_list (drop (Suc j) (take r ds)) mod 2 ^ 64"
      using step by simp
    have "drop j (take r ds) = ds ! j # drop (Suc j) (take r ds)"
      using step.hyps assms(2) by (simp add: Cons_nth_drop_Suc [symmetric])
    then have "prod_list (drop (Suc k) (take r ds)) = ds ! j * prod_list (drop (Suc j) (take r ds))"
      using True step.prems(1) by simp
    then show ?thesis
      unfolding split using True len IH step.hyps assms(2)
      by (simp add: wrap_mul_def mod_simps mult.commute)
  next
    case False
    then have "j \<le> k" using step.prems by simp
    moreover have "?st[j - 1 := wrap_mul (?st ! j) (ds ! j)] ! k = ?st ! k" using False by simp
    moreover have "?st ! k = prod_list (drop (Suc k) (take r ds)) mod 2 ^ 64"
      using \<open>j \<le> k\<close> step.prems by (intro step.IH) auto
    ultimately show ?thesis unfolding split by simp
  qed
qed

lemma strides_slice_eq:
  assumes "shape_ok s"
  shows "strides_slice (contiguous_strides s) = map (\<lambda>p. p mod 2 ^ 64) (suffix_prods (shape_dims s))"
proof (rule nth_equalityI)
  show "length (strides_slice (contiguous_strides s)) =
        length (map (\<lambda>p. p mod 2 ^ 64) (suffix_prods (shape_dims s)))"
    using assms by (simp add: strides_slice_def contiguous_strides_def shape_dims_def shape_ok_def Let_def)
next
  fix i assume "i < length (strides_slice (contiguous_strides s))"
  then have i: "i < sh_rank s"
    using assms by (simp add: strides_slice_def contiguous_strides_def shape_ok_def Let_def)
  then have "strides_slice (contiguous_strides s) ! i
      = foldl (\<lambda>st i. st[i - 1 := wrap_mul (st ! i) (sh_dims s ! i)])
          ((replicate MAX_RANK 0)[sh_rank s - 1 := 1]) (rev [1..<sh_rank s]) ! i"
    by (simp add: strides_slice_def contiguous_strides_def Let_def)
  also have "\<dots> = prod_list (drop (Suc i) (take (sh_rank s) (sh_dims s))) mod 2 ^ 64"
    using i assms by (intro stride_loop) (auto simp: shape_ok_def)
  finally show "strides_slice (contiguous_strides s) ! i
      = map (\<lambda>p. p mod 2 ^ 64) (suffix_prods (shape_dims s)) ! i"
    using i assms length_shape_dims [OF assms] by (simp add: nth_suffix_prods shape_dims_def)
qed

text \<open>Valid index tuples, their offsets and the way back.\<close>

fun valid_index :: "nat list \<Rightarrow> nat list \<Rightarrow> bool" where
  "valid_index [] [] = True"
| "valid_index (d # ds) (i # ix) = (i < d \<and> valid_index ds ix)"
| "valid_index _ _ = False"

lemma flat_index_Cons: "flat_index (suffix_prods (d # ds)) (i # ix)
    = i * prod_list ds + flat_index (suffix_prods ds) ix"
  by (simp add: flat_index_def)

lemma flat_index_less: "valid_index ds ix \<Longrightarrow> flat_index (suffix_prods ds) ix < prod_list ds"
proof (induction ds ix rule: valid_index.induct)
  case (2 d ds i ix)
  then have "flat_index (suffix_prods ds) ix < prod_list ds" and "Suc i \<le> d" by auto
  then have "i * prod_list ds + flat_index (suffix_prods ds) ix < Suc i * prod_list ds" by simp
  also have "\<dots> \<le> d * prod_list ds" using \<open>Suc i \<le> d\<close> by (rule mult_le_mono1)
  finally show ?case by (simp only: flat_index_Cons prod_list.Cons)
qed (simp_all add: flat_index_def)

lemma flat_index_inj:
  assumes "valid_index ds ix" and "valid_index ds jx"
    and "flat_index (suffix_prods ds) ix = flat_index (suffix_prods ds) jx"
  shows "ix = jx"
  using assms
proof (induction ds arbitrary: ix jx)
  case Nil
  then show ?case by (cases ix; cases jx) auto
next
  case (Cons d ds)
  obtain i ix' where ix: "ix = i # ix'" using Cons.prems(1) by (cases ix) auto
  obtain j jx' where jx: "jx = j # jx'" using Cons.prems(2) by (cases jx) auto
  let ?f = "flat_index (suffix_prods ds)" and ?p = "prod_list ds"
  have lt: "?f ix' < ?p" "?f jx' < ?p" using Cons.prems ix jx flat_index_less by auto
  have eq: "i * ?p + ?f ix' = j * ?p + ?f jx'"
    using Cons.prems(3) unfolding ix jx flat_index_Cons .
  then have "(i * ?p + ?f ix') div ?p = (j * ?p + ?f jx') div ?p" by simp
  then have "i = j" using lt by simp
  with eq have "?f ix' = ?f jx'" by simp
  then show ?case using Cons.IH [of ix' jx'] Cons.prems ix jx \<open>i = j\<close> by simp
qed

lemma suffix_prods_le: "\<forall>d\<in>set ds. 0 < d \<Longrightarrow> p \<in> set (suffix_prods ds) \<Longrightarrow> p \<le> prod_list ds"
proof (induction ds)
  case Nil
  then show ?case by simp
next
  case (Cons d ds)
  have "prod_list ds \<le> d * prod_list ds" using Cons.prems(1) by simp
  with Cons show ?case by (auto intro: order_trans)
qed

lemma valid_index_pos: "valid_index ds ix \<Longrightarrow> \<forall>d\<in>set ds. 0 < d"
  by (induction ds ix rule: valid_index.induct) auto

lemma contiguous_strides_offset:
  assumes "shape_ok s" and "prod_list (shape_dims s) \<le> usize_max" and "valid_index (shape_dims s) ix"
  shows "flat_index (strides_slice (contiguous_strides s)) ix
         = flat_index (suffix_prods (shape_dims s)) ix"
proof -
  have "p mod 2 ^ 64 = p" if "p \<in> set (suffix_prods (shape_dims s))" for p
  proof -
    have "p \<le> usize_max"
      using suffix_prods_le [OF valid_index_pos [OF assms(3)] that] assms(2) by simp
    then show ?thesis by (simp add: usize_max_def)
  qed
  then have "map (\<lambda>p. p mod 2 ^ 64) (suffix_prods (shape_dims s)) = suffix_prods (shape_dims s)"
    by (simp add: map_idI)
  then show ?thesis using strides_slice_eq [OF assms(1)] by simp
qed


subsection \<open>Properties\<close>

text \<open>
  For a shape built by \<open>Shape::new\<close> whose element count fits \<open>usize\<close>, the
  computed strides map every index tuple inside the shape to an offset below \<open>numel\<close>, and
  different tuples to different offsets, although the code multiplies with wrap-around.
\<close>

theorem strides_row_major:
  assumes "shape_new ds = Ok s" and "prod_list ds \<le> usize_max" and "valid_index ds ix" and "valid_index ds jx"
  shows "flat_index (strides_slice (contiguous_strides s)) ix < numel s \<and>
    (flat_index (strides_slice (contiguous_strides s)) ix = flat_index (strides_slice (contiguous_strides s)) jx
      \<longleftrightarrow> ix = jx)"
proof -
  have ds: "shape_dims s = ds" and ok: "shape_ok s"
    using shape_new_dims [OF assms(1)] shape_new_ok [OF assms(1)] by auto
  then have "numel s = prod_list ds" using assms(2) by (simp add: numel_eq)
  then show ?thesis
    using contiguous_strides_offset [OF ok, of ix] contiguous_strides_offset [OF ok, of jx]
      flat_index_less [OF assms(3)] flat_index_inj [OF assms(3,4)] assms ds by auto
qed

theorem strides_row_major_witness:
  "\<exists>s. shape_new [2, 3] = Ok s \<and> flat_index (strides_slice (contiguous_strides s)) [1, 2] < numel s \<and>
    (flat_index (strides_slice (contiguous_strides s)) [1, 2] = flat_index (strides_slice (contiguous_strides s)) [0, 2]
      \<longleftrightarrow> [1::nat, 2] = [0, 2])"
proof -
  obtain s where "shape_new [2, 3] = Ok s" by (simp add: shape_new_eq MAX_RANK_def)
  then show ?thesis using strides_row_major [of "[2, 3]" s "[1, 2]" "[0, 2]"] by (auto simp: usize_max_def)
qed

end
