(* ===== verification/Tensor.thy ===== *)
theory Tensor
  imports F32 Shape
begin

text \<open>
  Storage (\<open>src/src/storage.rs\<close>) and the tensor type (\<open>src/src/tensor.rs\<close>, constructors and
  accessors). CPU storage is a buffer of 32-bit words with a byte length, so the \<open>f32\<close> view and
  the byte view read the same words. Sharing (\<open>Arc\<close>) is not modelled: a tensor is never
  mutated after its construction.
\<close>

subsection \<open>Storage\<close>

record cpu_storage =
  cs_words :: "u32 list"
  cs_nbytes :: nat
  cs_dtype :: DType

record gpu_storage =
  gs_handle :: u32
  gs_numel :: nat
  gs_dtype :: DType

datatype storage = StCpu cpu_storage | StGpu gpu_storage

definition div_ceil4 :: "nat \<Rightarrow> nat" where
  "div_ceil4 n = (n + 3) div 4"

definition storage_from_raw_bytes :: "bytes \<Rightarrow> DType \<Rightarrow> cpu_storage" where
  "storage_from_raw_bytes bs dt =
     (let n = length bs; w = div_ceil4 n; buf = bs @ replicate (w * 4 - n) 0 in
      \<lparr>cs_words = map (\<lambda>i. le32 (slice buf (4 * i) (4 * i + 4))) [0..<w],
       cs_nbytes = n, cs_dtype = dt\<rparr>)"

definition storage_zeros :: "nat \<Rightarrow> DType \<Rightarrow> cpu_storage" where
  "storage_zeros n dt =
     (let nb = bytes_for_numel dt n in
      \<lparr>cs_words = replicate (div_ceil4 nb) 0, cs_nbytes = nb, cs_dtype = dt\<rparr>)"

definition storage_from_bytes :: "bytes \<Rightarrow> DType \<Rightarrow> cpu_storage" where
  "storage_from_bytes bs dt = storage_from_raw_bytes bs dt"

definition storage_from_f32 :: "f32 list \<Rightarrow> cpu_storage" where
  "storage_from_f32 xs = \<lparr>cs_words = xs, cs_nbytes = length xs * 4, cs_dtype = F32\<rparr>"

definition storage_from_u32 :: "u32 list \<Rightarrow> cpu_storage" where
  "storage_from_u32 xs = \<lparr>cs_words = xs, cs_nbytes = length xs * 4, cs_dtype = U32\<rparr>"

definition word_bytes :: "u32 list \<Rightarrow> bytes" where
  "word_bytes ws = concat (map to_le_bytes32 ws)"

definition as_bytes :: "cpu_storage \<Rightarrow> bytes" where
  "as_bytes s = take (cs_nbytes s) (word_bytes (cs_words s))"

definition as_f32_slice :: "cpu_storage \<Rightarrow> f32 list" where
  "as_f32_slice s = take (cs_nbytes s div 4) (cs_words s)"

lemma length_word_bytes [simp]: "length (word_bytes ws) = 4 * length ws"
  by (induction ws) (auto simp: word_bytes_def)

lemma word_bytes_Nil [simp]: "word_bytes [] = []"
  by (simp add: word_bytes_def)

lemma word_bytes_Cons [simp]: "word_bytes (w # ws) = to_le_bytes32 w @ word_bytes ws"
  by (simp add: word_bytes_def)

lemma word_bytes_eq_Nil [simp]: "word_bytes ws = [] \<longleftrightarrow> ws = []"
  by (metis length_word_bytes length_0_conv mult_is_0 zero_neq_numeral)

lemma word_bytes_inj: "word_bytes xs = word_bytes ys \<longleftrightarrow> xs = ys"
proof (induction xs arbitrary: ys)
  case Nil
  show ?case by (simp add: eq_commute [of "[]"])
next
  case (Cons x xs)
  then show ?case by (cases ys) simp_all
qed

text \<open>Packing bytes into words and reading them back is the identity.\<close>

lemma word_bytes_pack:
  "length buf = w * 4 \<Longrightarrow>
   word_bytes (map (\<lambda>i. le32 (slice buf (4 * i) (4 * i + 4))) [0..<w]) = buf"
proof (induction w arbitrary: buf)
  case 0
  then show ?case by simp
next
  case (Suc w)
  have "map (\<lambda>i. le32 (slice buf (4 * i) (4 * i + 4))) [0..<Suc w] =
        le32 (take 4 buf) # map (\<lambda>i. le32 (slice (drop 4 buf) (4 * i) (4 * i + 4))) [0..<w]"
    by (simp add: map_upt_Suc slice_def add.commute del: upt_Suc)
  moreover have "length (drop 4 buf) = w * 4" "length (take 4 buf) = 4" using Suc.prems by auto
  ultimately show ?case using Suc.IH by simp
qed

lemma as_bytes_from_bytes: "as_bytes (storage_from_bytes bs dt) = bs"
proof -
  let ?w = "div_ceil4 (length bs)"
  have "length (bs @ replicate (?w * 4 - length bs) 0) = ?w * 4"
    by (simp add: div_ceil4_def)
  from word_bytes_pack [OF this] show ?thesis
    by (simp add: storage_from_bytes_def storage_from_raw_bytes_def as_bytes_def Let_def)
qed

lemma as_f32_from_f32 [simp]: "as_f32_slice (storage_from_f32 xs) = xs"
  by (simp add: as_f32_slice_def storage_from_f32_def)

lemma as_bytes_from_f32: "as_bytes (storage_from_f32 xs) = word_bytes xs"
  by (simp add: as_bytes_def storage_from_f32_def)

lemma as_bytes_from_u32: "as_bytes (storage_from_u32 xs) = word_bytes xs"
  by (simp add: as_bytes_def storage_from_u32_def)

subsection \<open>Tensors\<close>

record tensor =
  t_storage :: storage
  t_shape :: shape
  t_strides :: strides
  t_offset :: nat
  t_dtype :: DType
  t_device :: Device

definition tensor_zeros :: "shape \<Rightarrow> DType \<Rightarrow> tensor res" where
  "tensor_zeros s dt = Ok \<lparr>t_storage = StCpu (storage_zeros (numel s) dt), t_shape = s,
     t_strides = contiguous_strides s, t_offset = 0, t_dtype = dt, t_device = Cpu\<rparr>"

definition tensor_from_f32 :: "f32 list \<Rightarrow> shape \<Rightarrow> tensor res" where
  "tensor_from_f32 xs s =
     (if length xs \<noteq> numel s then Err (InvalidShape ''from_f32: data.len() != shape.numel()'')
      else Ok \<lparr>t_storage = StCpu (storage_from_f32 xs), t_shape = s,
        t_strides = contiguous_strides s, t_offset = 0, t_dtype = F32, t_device = Cpu\<rparr>)"

definition tensor_from_u32 :: "u32 list \<Rightarrow> shape \<Rightarrow> tensor res" where
  "tensor_from_u32 xs s =
     (if length xs \<noteq> numel s then Err (InvalidShape ''from_u32: data.len() != shape.numel()'')
      else Ok \<lparr>t_storage = StCpu (storage_from_u32 xs), t_shape = s,
        t_strides = contiguous_strides s, t_offset = 0, t_dtype = U32, t_device = Cpu\<rparr>)"

fun storage_cpu_bytes :: "tensor \<Rightarrow> bytes res" where
  "storage_cpu_bytes t = (case t_storage t of
     StCpu c \<Rightarrow> Ok (as_bytes c)
   | StGpu _ \<Rightarrow> Err (Internal ''storage_cpu_bytes called on GPU tensor''))"

definition is_contiguous :: "tensor \<Rightarrow> bool" where
  "is_contiguous t \<longleftrightarrow> strides_contiguous (t_strides t) (t_shape t) \<and> t_offset t = 0"

definition t_dims :: "tensor \<Rightarrow> nat list" where
  "t_dims t = shape_dims (t_shape t)"

text \<open>
  A well-formed CPU \<open>f32\<close> tensor: what every constructor and every operation of this crate
  produces, its data the flat list of its elements.
\<close>

definition f32_tensor :: "tensor \<Rightarrow> f32 list \<Rightarrow> nat list \<Rightarrow> bool" where
  "f32_tensor t xs ds \<longleftrightarrow> t_storage t = StCpu (storage_from_f32 xs) \<and> shape_ok (t_shape t) \<and>
     t_dims t = ds \<and> length xs = numel (t_shape t) \<and> t_strides t = contiguous_strides (t_shape t) \<and>
     t_offset t = 0 \<and> t_dtype t = F32 \<and> t_device t = Cpu"

lemma f32_tensorD:
  assumes "f32_tensor t xs ds"
  shows "t_storage t = StCpu (storage_from_f32 xs)" "t_dims t = ds" "shape_dims (t_shape t) = ds"
    "is_contiguous t" "t_dtype t = F32" "t_device t = Cpu" "length xs = numel (t_shape t)"
    "sh_rank (t_shape t) = length ds" "shape_ok (t_shape t)"
  using assms length_shape_dims [of "t_shape t"]
  by (auto simp: f32_tensor_def is_contiguous_def strides_contiguous_def t_dims_def)

lemma tensor_from_f32_Ok:
  assumes "shape_ok s" and "length xs = numel s"
  obtains t where "tensor_from_f32 xs s = Ok t" and "f32_tensor t xs (shape_dims s)"
  using assms by (auto simp: tensor_from_f32_def f32_tensor_def t_dims_def)

lemma f32_tensor_from_f32:
  "tensor_from_f32 xs s = Ok t \<Longrightarrow> shape_ok s \<Longrightarrow> f32_tensor t xs (shape_dims s)"
  by (auto simp: tensor_from_f32_def f32_tensor_def t_dims_def split: if_splits)

lemma f32_tensor_numel:
  "f32_tensor t xs ds \<Longrightarrow> prod_list ds \<le> usize_max \<Longrightarrow> length xs = prod_list ds"
  by (auto simp: f32_tensor_def t_dims_def numel_eq)


subsection \<open>Properties\<close>

text \<open>
  A CPU buffer built from any byte string reads back as exactly those bytes,
  whatever the length (the last word is padded, the padding is cut off again), and one built
  from \<open>f32\<close> values shows the same values through the float view and their little-endian bytes
  through the byte view, from which the values can be rebuilt.
\<close>

theorem storage_round_trip:
  "as_bytes (storage_from_bytes bs dt) = bs \<and> as_f32_slice (storage_from_f32 xs) = xs \<and>
   as_bytes (storage_from_f32 xs) = word_bytes xs \<and>
   as_f32_slice (storage_from_bytes (as_bytes (storage_from_f32 xs)) F32) = xs"
proof -
  let ?s = "storage_from_bytes (word_bytes xs) F32"
  have "div_ceil4 (4 * length xs) = length xs" by (simp add: div_ceil4_def)
  then have len: "length (cs_words ?s) = length xs" "cs_nbytes ?s = 4 * length xs"
    by (simp_all add: storage_from_bytes_def storage_from_raw_bytes_def Let_def)
  have "as_bytes ?s = word_bytes xs" by (rule as_bytes_from_bytes)
  then have "word_bytes (cs_words ?s) = word_bytes xs" using len by (simp add: as_bytes_def)
  then have "cs_words ?s = xs" by (simp only: word_bytes_inj)
  then have "as_f32_slice ?s = xs" using len by (simp add: as_f32_slice_def)
  then show ?thesis by (simp add: as_bytes_from_bytes as_bytes_from_f32)
qed

end
