(* ===== verification/Half.thy ===== *)
theory Half
  imports F32
begin

text \<open>
  The half-precision conversions of \<open>src/src/ops/quant.rs\<close> (\<open>f16_to_f32\<close>, \<open>f32_to_f16\<close>), the
  format of every block scale. The decoder is proved exact on every finite half; the encoder is
  its inverse on the halves it can produce.
\<close>

text \<open>The normalisation loop of a subnormal half, with fuel; ten steps are always enough.\<close>

fun f16_normalize :: "nat \<Rightarrow> u32 \<Rightarrow> int \<Rightarrow> (u32 \<times> int) option" where
  "f16_normalize 0 m e = None"
| "f16_normalize (Suc k) m e =
     (if m AND 0x400 = 0 then f16_normalize k (push_bit 1 m) (e - 1) else Some (m, e))"

definition f16_to_f32 :: "u16 \<Rightarrow> f32" where
  "f16_to_f32 half =
     (let sign = ucast (drop_bit 15 half AND 0x1) :: u32;
          exp = ucast (drop_bit 10 half AND 0x1F) :: u32;
          mant = ucast (half AND 0x3FF) :: u32 in
      if exp = 0 then
        if mant = 0 then push_bit 31 sign
        else (case f16_normalize 11 mant 1 of
            Some (m, e) \<Rightarrow> push_bit 31 sign OR (push_bit 23 (word_of_int (127 - 15 + e)) OR
                            push_bit 13 (m AND 0x3FF))
          | None \<Rightarrow> 0)
      else if exp = 0x1F then push_bit 31 sign OR (0x7F800000 OR push_bit 13 mant)
      else push_bit 31 sign OR (push_bit 23 (exp + 127 - 15) OR push_bit 13 mant))"

definition f32_to_f16 :: "f32 \<Rightarrow> u16" where
  "f32_to_f16 bits =
     (let sign = ucast (drop_bit 31 bits AND 0x1) :: u16;
          exp = uint (drop_bit 23 bits AND 0xFF) - 127 + 15;
          mant = drop_bit 13 bits AND 0x3FF in
      if exp \<le> 0 then push_bit 15 sign
      else if 0x1F \<le> exp then push_bit 15 sign OR 0x7C00
      else push_bit 15 sign OR (push_bit 10 (word_of_int exp) OR ucast mant))"

subsection \<open>The fields of a half\<close>

definition f16_sign :: "u16 \<Rightarrow> nat" where "f16_sign h = unat h div 2 ^ 15"
definition f16_exp :: "u16 \<Rightarrow> nat" where "f16_exp h = unat h div 2 ^ 10 mod 2 ^ 5"
definition f16_mant :: "u16 \<Rightarrow> nat" where "f16_mant h = unat h mod 2 ^ 10"

text \<open>A finite half in units of \<open>2\<^sup>-\<^sup>2\<^sup>4\<close>.\<close>

definition f16_finite :: "u16 \<Rightarrow> bool" where
  "f16_finite h \<longleftrightarrow> f16_exp h \<noteq> 31"

definition f16_int :: "u16 \<Rightarrow> int" where
  "f16_int h = (if f16_sign h = 1 then -1 else 1) *
     int (if f16_exp h = 0 then f16_mant h else (f16_mant h + 2 ^ 10) * 2 ^ (f16_exp h - 1))"

lemma f16_fields_less: "f16_sign h < 2" "f16_exp h < 32" "f16_mant h < 1024"
  using unsigned_less [of h, where 'a = nat]
  by (simp_all add: f16_sign_def f16_exp_def f16_mant_def less_mult_imp_div_less)

lemma f16_fields: "unat h = f16_sign h * 2 ^ 15 + f16_exp h * 2 ^ 10 + f16_mant h"
proof -
  have "unat h = unat h div 2 ^ 10 * 2 ^ 10 + unat h mod 2 ^ 10" by (rule div_mult_mod_eq [symmetric])
  also have "unat h div 2 ^ 10 = unat h div 2 ^ 10 div 2 ^ 5 * 2 ^ 5 + unat h div 2 ^ 10 mod 2 ^ 5"
    by (rule div_mult_mod_eq [symmetric])
  also have "unat h div 2 ^ 10 div 2 ^ 5 = f16_sign h"
    by (simp add: f16_sign_def div_mult2_eq [symmetric])
  finally show ?thesis by (simp add: f16_exp_def f16_mant_def algebra_simps)
qed

lemma f16_fields_words:
  "unat (ucast (drop_bit 15 h AND 0x1) :: u32) = f16_sign h"
  "unat (ucast (drop_bit 10 h AND 0x1F) :: u32) = f16_exp h"
  "unat (ucast (h AND 0x3FF) :: u32) = f16_mant h"
proof -
  have "f16_sign h mod 2 ^ 1 = f16_sign h" using f16_fields_less(1) [of h] by simp
  then show "unat (ucast (drop_bit 15 h AND 0x1) :: u32) = f16_sign h"
    unfolding mask_num(5) by (subst unat_ucast_le) (simp_all only: unat_and_mask unat_drop_bit f16_sign_def, simp)
  show "unat (ucast (drop_bit 10 h AND 0x1F) :: u32) = f16_exp h"
    unfolding mask_num(2) by (subst unat_ucast_le) (simp_all only: unat_and_mask unat_drop_bit f16_exp_def, simp)
  show "unat (ucast (h AND 0x3FF) :: u32) = f16_mant h"
    unfolding mask_num(4) by (subst unat_ucast_le) (simp_all only: unat_and_mask f16_mant_def, simp)
qed

subsection \<open>The decoder is exact\<close>

lemma and_0x400_iff:
  assumes "unat (m :: u32) < 2048"
  shows "m AND 0x400 = 0 \<longleftrightarrow> unat m < 1024"
proof -
  have "m AND 0x400 = 0 \<longleftrightarrow> \<not> bit m 10"
    using and_exp_eq_0_iff_not_bit [of m 10] by simp
  also have "bit m 10 \<longleftrightarrow> bit (unat m) 10" by (simp add: bit_unsigned_iff)
  also have "\<dots> \<longleftrightarrow> odd (unat m div 1024)" by (simp add: bit_iff_odd)
  also have "unat m div 1024 = (if unat m < 1024 then 0 else 1)"
    using assms div_nat_eqI [of 1 1024 "unat m"] by auto
  finally show ?thesis by simp
qed

lemma f16_normalize_enough:
  assumes "0 < unat m" and "unat m < 2048" and "1024 \<le> unat m * 2 ^ f"
  obtains k m' where "f16_normalize (Suc f) m e = Some (m', e - int k)" and "k \<le> f"
    and "unat m' = unat m * 2 ^ k" and "1024 \<le> unat m'" and "unat m' < 2048"
proof -
  have "\<exists>k m'. f16_normalize (Suc f) m e = Some (m', e - int k) \<and> k \<le> f \<and>
      unat m' = unat m * 2 ^ k \<and> 1024 \<le> unat m' \<and> unat m' < 2048"
    using assms
  proof (induction f arbitrary: m e)
    case 0
    then have "m AND 0x400 \<noteq> 0" using and_0x400_iff [of m] by simp
    then show ?case using 0 by (intro exI [of _ 0] exI [of _ m]) simp
  next
    case (Suc f)
    show ?case
    proof (cases "unat m < 1024")
      case True
      have u: "unat (push_bit 1 m) = unat m * 2" using True unat_push_bit [of m 1] by simp
      obtain k m' where IH: "f16_normalize (Suc f) (push_bit 1 m) (e - 1) = Some (m', e - 1 - int k)"
        "k \<le> f" "unat m' = unat (push_bit 1 m) * 2 ^ k" "1024 \<le> unat m'" "unat m' < 2048"
        using Suc.IH [of "push_bit 1 m" "e - 1"] Suc.prems True unfolding u by auto
      have "f16_normalize (Suc (Suc f)) m e = f16_normalize (Suc f) (push_bit 1 m) (e - 1)"
        using True Suc.prems(2) by (simp only: f16_normalize.simps(2) [of "Suc f"] and_0x400_iff if_True)
      with IH show ?thesis
        unfolding u by (intro exI [of _ "Suc k"] exI [of _ m']) (simp add: algebra_simps)
    next
      case False
      then show ?thesis
        using Suc.prems(2) and_0x400_iff [of m] by (intro exI [of _ 0] exI [of _ m]) simp
    qed
  qed
  then show thesis using that by blast
qed

text \<open>Assembling sign, exponent and significand fields.\<close>

lemma assemble_f32:
  assumes "unat (s :: u32) < 2" and "unat e < 256" and "unat m < 1024"
  shows "push_bit 31 s OR (push_bit 23 e OR push_bit 13 m)
         = f32_mk (unat s = 1) (unat e * 2 ^ 23 + unat m * 2 ^ 13)"
proof -
  have m: "unat (push_bit 13 m) = unat m * 2 ^ 13" using assms(3) by (intro unat_push_bit) simp
  have em: "unat (push_bit 23 e OR push_bit 13 m) = unat e * 2 ^ 23 + unat m * 2 ^ 13"
    using unat_or_push [of "push_bit 13 m" 23 e] m assms(2,3) by simp
  have lt: "unat e * 2 ^ 23 + unat m * 2 ^ 13 < 2147483648" using assms by simp
  have "unat (push_bit 31 s OR (push_bit 23 e OR push_bit 13 m))
      = unat s * 2 ^ 31 + (unat e * 2 ^ 23 + unat m * 2 ^ 13)"
    using unat_or_push [of "push_bit 23 e OR push_bit 13 m" 31 s] em assms(1) lt by simp
  moreover have "unat (f32_mk (unat s = 1) (unat e * 2 ^ 23 + unat m * 2 ^ 13))
      = (if unat s = 1 then 2147483648 else 0) + (unat e * 2 ^ 23 + unat m * 2 ^ 13)"
    using lt by (rule unat_f32_mk)
  ultimately show ?thesis using assms(1) by (auto simp: word_unat_eq_iff less_2_cases_iff)
qed

lemma sign_only_f32: "unat (s :: u32) < 2 \<Longrightarrow> push_bit 31 s = f32_mk (unat s = 1) 0"
  using assemble_f32 [of s 0 0] by simp

lemma f16_to_f32_normal:
  assumes "f16_exp h \<noteq> 0" and "f16_exp h \<noteq> 31"
  shows "f16_to_f32 h = f32_mk (f16_sign h = 1) ((f16_exp h + 112) * 2 ^ 23 + f16_mant h * 2 ^ 13)"
proof -
  let ?exp = "ucast (drop_bit 10 h AND 0x1F) :: u32"
  have exp: "?exp = of_nat (f16_exp h)"
    by (simp only: f16_fields_words(2) [symmetric] of_nat_unat ucast_id)
  have "?exp + 127 - 15 = of_nat (f16_exp h + 112)" unfolding exp by simp
  then have e: "unat (?exp + 127 - 15) = f16_exp h + 112"
    using f16_fields_less(2) [of h] by (simp add: unat_of_nat del: of_nat_add)
  have "?exp \<noteq> 0" "?exp \<noteq> 0x1F"
    using assms by (auto simp: word_unat_eq_iff f16_fields_words)
  then have "f16_to_f32 h = push_bit 31 (ucast (drop_bit 15 h AND 0x1)) OR
      (push_bit 23 (?exp + 127 - 15) OR push_bit 13 (ucast (h AND 0x3FF)))"
    by (simp only: f16_to_f32_def Let_def if_False)
  then show ?thesis
    using f16_fields_less [of h] by (simp only: assemble_f32 f16_fields_words e)
qed

lemma f16_to_f32_zero:
  "f16_exp h = 0 \<Longrightarrow> f16_mant h = 0 \<Longrightarrow> f16_to_f32 h = f32_mk (f16_sign h = 1) 0"
  using f16_fields_less [of h]
  by (simp add: f16_to_f32_def Let_def word_unat_eq_iff f16_fields_words sign_only_f32)

lemma f16_to_f32_subnormal:
  assumes "f16_exp h = 0" and "f16_mant h \<noteq> 0"
  obtains k where "k \<le> 10" and "1024 \<le> f16_mant h * 2 ^ k" and "f16_mant h * 2 ^ k < 2048"
    and "f16_to_f32 h = f32_mk (f16_sign h = 1)
          ((113 - k) * 2 ^ 23 + (f16_mant h * 2 ^ k - 1024) * 2 ^ 13)"
proof -
  let ?m = "ucast (h AND 0x3FF) :: u32"
  have m: "unat ?m = f16_mant h" by (rule f16_fields_words)
  have e0: "ucast (drop_bit 10 h AND 0x1F) = (0 :: u32)" and m0: "?m \<noteq> 0"
    using assms by (simp_all add: word_unat_eq_iff f16_fields_words)
  have pre: "0 < unat ?m" "unat ?m < 2048" "1024 \<le> unat ?m * 2 ^ 10"
    using assms f16_fields_less(3) [of h] unfolding m by simp_all
  obtain k m' where norm: "f16_normalize (Suc 10) ?m 1 = Some (m', 1 - int k)" and k: "k \<le> 10"
    and m': "unat m' = f16_mant h * 2 ^ k" "1024 \<le> unat m'" "unat m' < 2048"
    using f16_normalize_enough [OF pre, of 1] unfolding m by blast
  let ?e = "word_of_int (127 - 15 + (1 - int k)) :: u32"
  have "?e = word_of_int (int (113 - k))" using k by (intro arg_cong [of _ _ word_of_int]) simp
  then have e: "unat ?e = 113 - k" using k by (simp only: of_int_of_nat_eq unat_of_nat) simp
  have a: "unat (m' AND 0x3FF) = f16_mant h * 2 ^ k - 1024"
    using m' unfolding mask_num(4) unat_and_mask by (simp add: le_mod_geq)
  have "Suc 10 = 11" by simp
  note norm = norm [unfolded this]
  have "f16_to_f32 h = push_bit 31 (ucast (drop_bit 15 h AND 0x1)) OR
      (push_bit 23 ?e OR push_bit 13 (m' AND 0x3FF))"
    using m0 unfolding f16_to_f32_def Let_def e0 norm by (simp only: refl if_True if_False option.case prod.case)
  also have "\<dots> = f32_mk (f16_sign h = 1) ((113 - k) * 2 ^ 23 + (f16_mant h * 2 ^ k - 1024) * 2 ^ 13)"
  proof -
    have "unat (ucast (drop_bit 15 h AND 0x1) :: u32) < 2" "unat ?e < 256" "unat (m' AND 0x3FF) < 1024"
      using f16_fields_less(1) [of h] m' unfolding f16_fields_words e a by simp_all
    from assemble_f32 [OF this] show ?thesis unfolding f16_fields_words e a .
  qed
  finally show thesis using that k m' by simp
qed

text \<open>
  Every finite half converts to the finite \<open>f32\<close> of the same value: one unit \<open>2\<^sup>-\<^sup>2\<^sup>4\<close> of a
  half is \<open>2 ^ 125\<close> units of an \<open>f32\<close>.
\<close>

lemma f16_to_f32_exact:
  assumes "f16_finite h"
  shows "f32_finite (f16_to_f32 h)" and "f32_neg_bit (f16_to_f32 h) = (f16_sign h = 1)"
    and "f32_int (f16_to_f32 h) = f16_int h * 2 ^ 125"
proof -
  have "\<exists>mag. f16_to_f32 h = f32_mk (f16_sign h = 1) mag \<and> mag < f32_inf_mag \<and>
      f32_val mag = (if f16_exp h = 0 then f16_mant h else (f16_mant h + 2 ^ 10) * 2 ^ (f16_exp h - 1)) * 2 ^ 125"
  proof (cases "f16_exp h = 0")
    case True
    show ?thesis
    proof (cases "f16_mant h = 0")
      case True
      then show ?thesis using f16_to_f32_zero [OF \<open>f16_exp h = 0\<close> True] \<open>f16_exp h = 0\<close>
        by (intro exI [of _ 0]) (simp add: f32_inf_mag_def)
    next
      case False
      obtain k where k: "k \<le> 10" and M: "1024 \<le> f16_mant h * 2 ^ k" "f16_mant h * 2 ^ k < 2048"
        and eq: "f16_to_f32 h = f32_mk (f16_sign h = 1)
          ((113 - k) * 2 ^ 23 + (f16_mant h * 2 ^ k - 1024) * 2 ^ 13)"
        by (rule f16_to_f32_subnormal [OF True False])
      let ?M = "f16_mant h * 2 ^ k"
      have "(113 - k) * 2 ^ 23 + (?M - 1024) * 2 ^ 13 = (112 - k) * 2 ^ 23 + ?M * 2 ^ 13"
        using k M(1) by (simp add: algebra_simps)
      moreover have "f32_val ((112 - k) * 2 ^ 23 + ?M * 2 ^ 13) = ?M * 2 ^ 13 * 2 ^ (112 - k)"
        using M by (intro f32_val_fields) auto
      moreover have "?M * 2 ^ 13 * 2 ^ (112 - k) = f16_mant h * 2 ^ 125"
      proof -
        have "k + 13 + (112 - k) = 125" using k by simp
        then have "(2 :: nat) ^ k * 2 ^ 13 * 2 ^ (112 - k) = 2 ^ 125"
          by (simp only: power_add [symmetric])
        then show ?thesis by (simp only: mult.assoc)
      qed
      moreover have "(112 - k) * 2 ^ 23 + ?M * 2 ^ 13 < f32_inf_mag"
        using M(2) by (simp add: f32_inf_mag_def)
      ultimately show ?thesis using eq True by auto
    qed
  next
    case False
    have e: "f16_exp h < 31" using assms f16_fields_less(2) [of h] by (simp add: f16_finite_def)
    let ?m = "(f16_mant h + 2 ^ 10) * 2 ^ 13"
    let ?mag = "(f16_exp h + 112) * 2 ^ 23 + f16_mant h * 2 ^ 13"
    have mag: "?mag = (f16_exp h + 111) * 2 ^ 23 + ?m" by (simp add: algebra_simps)
    have "f32_val ((f16_exp h + 111) * 2 ^ 23 + ?m) = ?m * 2 ^ (f16_exp h + 111)"
      using f16_fields_less(3) [of h] by (intro f32_val_fields) auto
    moreover have "?m * 2 ^ (f16_exp h + 111) = (f16_mant h + 2 ^ 10) * 2 ^ (f16_exp h - 1) * 2 ^ 125"
    proof -
      have "13 + (f16_exp h + 111) = (f16_exp h - 1) + 125" using False by simp
      then have "(2 :: nat) ^ 13 * 2 ^ (f16_exp h + 111) = 2 ^ (f16_exp h - 1) * 2 ^ 125"
        by (simp only: power_add [symmetric])
      then show ?thesis by (simp only: mult.assoc)
    qed
    moreover have "(f16_exp h + 111) * 2 ^ 23 + ?m < f32_inf_mag"
      using e f16_fields_less(3) [of h] by (simp add: f32_inf_mag_def)
    moreover have "f16_to_f32 h = f32_mk (f16_sign h = 1) ?mag"
      using assms False unfolding f16_finite_def by (intro f16_to_f32_normal)
    ultimately show ?thesis
      using False by (intro exI [of _ ?mag]) (simp only: mag if_False simp_thms)
  qed
  then obtain mag where mk: "f16_to_f32 h = f32_mk (f16_sign h = 1) mag" and mag: "mag < f32_inf_mag"
    and val: "f32_val mag = (if f16_exp h = 0 then f16_mant h else (f16_mant h + 2 ^ 10) * 2 ^ (f16_exp h - 1)) * 2 ^ 125"
    by blast
  have lt: "mag < 2147483648" using mag f32_inf_mag_less by (rule less_trans)
  show "f32_finite (f16_to_f32 h)" "f32_neg_bit (f16_to_f32 h) = (f16_sign h = 1)"
    using mag lt by (simp_all add: mk)
  show "f32_int (f16_to_f32 h) = f16_int h * 2 ^ 125"
    unfolding mk f32_int_mk [OF lt] val f16_int_def by simp
qed

subsection \<open>The encoder\<close>

lemma assemble_f16:
  assumes "unat (s :: u16) < 2" and "unat e < 32" and "unat m < 1024"
  shows "unat (push_bit 15 s OR (push_bit 10 e OR m)) = unat s * 2 ^ 15 + unat e * 2 ^ 10 + unat m"
proof -
  have em: "unat (push_bit 10 e OR m) = unat e * 2 ^ 10 + unat m"
    using unat_or_push [of m 10 e] assms(2,3) by simp
  show ?thesis
    using unat_or_push [of "push_bit 10 e OR m" 15 s] em assms by simp
qed

lemma f32_mag_fields:
  "f32_mag w div 2 ^ 23 = unat w div 2 ^ 23 mod 2 ^ 8"
  "f32_mag w div 2 ^ 13 mod 2 ^ 10 = unat w div 2 ^ 13 mod 2 ^ 10"
proof -
  have "unat w mod (2 ^ 23 * 2 ^ 8) = 2 ^ 23 * (unat w div 2 ^ 23 mod 2 ^ 8) + unat w mod 2 ^ 23"
    by (rule mod_mult2_eq)
  then show "f32_mag w div 2 ^ 23 = unat w div 2 ^ 23 mod 2 ^ 8"
    by (simp add: f32_mag_def)
  have "unat w mod (2 ^ 13 * 2 ^ 18) = 2 ^ 13 * (unat w div 2 ^ 13 mod 2 ^ 18) + unat w mod 2 ^ 13"
    by (rule mod_mult2_eq)
  then have "f32_mag w div 2 ^ 13 = unat w div 2 ^ 13 mod 2 ^ 18" by (simp add: f32_mag_def)
  then show "f32_mag w div 2 ^ 13 mod 2 ^ 10 = unat w div 2 ^ 13 mod 2 ^ 10"
    by (simp add: mod_mod_cancel)
qed

lemma f32_sign_field: "unat w div 2 ^ 31 = (if f32_neg_bit w then 1 else 0)"
  using unat_f32_less [of w] by (auto simp: f32_neg_bit_def intro!: div_nat_eqI)

lemma unat_f32_to_f16:
  "unat (f32_to_f16 w) = (let E = f32_mag w div 2 ^ 23; S = (if f32_neg_bit w then 2 ^ 15 else 0) in
     if E \<le> 112 then S else if 143 \<le> E then S + 0x7C00
     else S + (E - 112) * 2 ^ 10 + f32_mag w div 2 ^ 13 mod 2 ^ 10)"
proof -
  define E where "E = f32_mag w div 2 ^ 23"
  let ?sw = "ucast (drop_bit 31 w AND 0x1) :: u16" and ?ew = "drop_bit 23 w AND 0xFF"
  let ?mw = "ucast (drop_bit 13 w AND 0x3FF) :: u16"
  have sw: "unat ?sw = (if f32_neg_bit w then 1 else 0)"
    unfolding mask_num(5) unat_ucast_mod unat_and_mask unat_drop_bit f32_sign_field by simp
  have ew: "uint ?ew = int E"
  proof -
    have "unat ?ew = E" unfolding mask_num(7) unat_and_mask unat_drop_bit E_def f32_mag_fields ..
    then show ?thesis by (metis of_nat_unat unsigned_of_nat uint_nat)
  qed
  have mw: "unat ?mw = f32_mag w div 2 ^ 13 mod 2 ^ 10"
    unfolding mask_num(4) unat_ucast_mod unat_and_mask unat_drop_bit f32_mag_fields by simp
  consider "E \<le> 112" | "143 \<le> E" | "112 < E" "E < 143" by linarith
  then show ?thesis
  proof cases
    case 1
    have "unat (push_bit 15 ?sw) = unat ?sw * 2 ^ 15" by (intro unat_push_bit) (simp add: sw)
    then show ?thesis using 1 unfolding f32_to_f16_def Let_def ew E_def [symmetric] sw by simp
  next
    case 2
    have "unat (push_bit 15 ?sw OR 0x7C00) = unat ?sw * 2 ^ 15 + 0x7C00"
      using unat_or_push [of "0x7C00" 15 ?sw] unfolding sw by simp
    then show ?thesis using 2 unfolding f32_to_f16_def Let_def ew E_def [symmetric] sw by simp
  next
    case 3
    have "word_of_int (int E - 127 + 15) = (word_of_int (int (E - 112)) :: u16)"
      using 3 by (intro arg_cong [of _ _ word_of_int]) simp
    then have e: "unat (word_of_int (int E - 127 + 15) :: u16) = E - 112"
      using 3 by (simp only: of_int_of_nat_eq unat_of_nat) simp
    have "unat (push_bit 15 ?sw OR (push_bit 10 (word_of_int (int E - 127 + 15)) OR ?mw))
        = unat ?sw * 2 ^ 15 + unat (word_of_int (int E - 127 + 15) :: u16) * 2 ^ 10 + unat ?mw"
      using 3 by (intro assemble_f16) (simp_all only: sw e mw, simp_all)
    then show ?thesis using 3 unfolding f32_to_f16_def Let_def ew E_def [symmetric] sw mw e by simp
  qed
qed

lemma f16_sign_bit: "(if f16_sign h = 1 then 2 ^ 15 else 0) = f16_sign h * 2 ^ 15"
  using f16_fields_less(1) [of h] by (auto simp: less_2_cases_iff)

lemma f16_roundtrip_normal:
  assumes "f16_exp h \<noteq> 0" and "f16_exp h \<noteq> 31"
  shows "f32_to_f16 (f16_to_f32 h) = h"
proof -
  let ?E = "f16_exp h" and ?M = "f16_mant h"
  let ?mag = "(?E + 112) * 2 ^ 23 + ?M * 2 ^ 13"
  have E: "0 < ?E" "?E < 31" and M: "?M < 1024"
    using assms f16_fields_less [of h] by auto
  have lt: "?mag < 2147483648" using E M by simp
  have m: "?M * 2 ^ 13 < 2 ^ 23" using M by simp
  have d: "?mag div 2 ^ 23 = ?E + 112" using m by (intro div_nat_eqI) simp_all
  have "?mag = ((?E + 112) * 2 ^ 10 + ?M) * 2 ^ 13" by simp
  then have "?mag div 2 ^ 13 = (?E + 112) * 2 ^ 10 + ?M" by (metis div_mult_self_is_m zero_less_numeral zero_less_power)
  then have r: "?mag div 2 ^ 13 mod 2 ^ 10 = ?M" using M by (simp only: mod_mult_self3) simp
  have "unat (f32_to_f16 (f16_to_f32 h)) = (if f16_sign h = 1 then 2 ^ 15 else 0) + ?E * 2 ^ 10 + ?M"
    unfolding unat_f32_to_f16 f16_to_f32_normal [OF assms] f32_mag_mk [OF lt] f32_neg_bit_mk [OF lt]
      d r Let_def using E by simp
  then show ?thesis
    unfolding f16_sign_bit by (simp add: word_unat_eq_iff f16_fields [of h])
qed

lemma f16_roundtrip_zero:
  assumes "f16_exp h = 0" and "f16_mant h = 0"
  shows "f32_to_f16 (f16_to_f32 h) = h"
proof -
  have "unat (f32_to_f16 (f16_to_f32 h)) = (if f16_sign h = 1 then 2 ^ 15 else 0)"
    by (simp add: unat_f32_to_f16 f16_to_f32_zero [OF assms])
  then show ?thesis
    unfolding f16_sign_bit by (simp add: word_unat_eq_iff f16_fields [of h] assms)
qed

lemma f16_roundtrip_inf:
  assumes "f16_exp h = 31" and "f16_mant h = 0"
  shows "f32_to_f16 (f16_to_f32 h) = h" and "f32_is_inf (f16_to_f32 h)"
proof -
  let ?e = "ucast (drop_bit 10 h AND 0x1F) :: u32"
  have e: "?e = 0x1F" "?e \<noteq> 0" and m: "ucast (h AND 0x3FF) = (0 :: u32)"
    using assms by (auto simp: word_unat_eq_iff f16_fields_words)
  have "f16_to_f32 h = push_bit 31 (ucast (drop_bit 15 h AND 0x1)) OR (push_bit 23 0xFF OR push_bit 13 0)"
    unfolding f16_to_f32_def Let_def m using e by (simp only: if_False if_True) simp
  also have "\<dots> = f32_mk (f16_sign h = 1) (unat (0xFF :: u32) * 2 ^ 23 + unat (0 :: u32) * 2 ^ 13)"
    using f16_fields_less(1) [of h] by (subst assemble_f32) (simp_all only: f16_fields_words, simp_all)
  finally have eq: "f16_to_f32 h = f32_mk (f16_sign h = 1) f32_inf_mag"
    by (simp add: f32_inf_mag_def)
  then show "f32_is_inf (f16_to_f32 h)" by (simp add: f32_is_inf_def)
  have "unat (f32_to_f16 (f16_to_f32 h)) = (if f16_sign h = 1 then 2 ^ 15 else 0) + 0x7C00"
    unfolding unat_f32_to_f16 eq f32_mag_mk [OF f32_inf_mag_less] f32_neg_bit_mk [OF f32_inf_mag_less]
    by (simp add: f32_inf_mag_def)
  then show "f32_to_f16 (f16_to_f32 h) = h"
    unfolding f16_sign_bit by (simp add: word_unat_eq_iff f16_fields [of h] assms)
qed

text \<open>Subnormal halves decode exactly but encode to a signed zero.\<close>

lemma f16_subnormal_flushed:
  assumes "f16_exp h = 0" and "f16_mant h \<noteq> 0"
  shows "unat (f32_to_f16 (f16_to_f32 h)) = f16_sign h * 2 ^ 15"
proof -
  obtain k where k: "k \<le> 10" and M: "1024 \<le> f16_mant h * 2 ^ k" "f16_mant h * 2 ^ k < 2048"
    and eq: "f16_to_f32 h = f32_mk (f16_sign h = 1) ((113 - k) * 2 ^ 23 + (f16_mant h * 2 ^ k - 1024) * 2 ^ 13)"
    by (rule f16_to_f32_subnormal [OF assms])
  let ?mag = "(113 - k) * 2 ^ 23 + (f16_mant h * 2 ^ k - 1024) * 2 ^ 13"
  have k0: "k \<noteq> 0" using M(1) f16_fields_less(3) [of h] by (cases k) auto
  have lt: "?mag < 2147483648" using M(2) by simp
  have "?mag div 2 ^ 23 = 113 - k" using M(2) by (intro div_nat_eqI) simp_all
  then have d: "?mag div 2 ^ 23 \<le> 112" using k0 by simp
  have "unat (f32_to_f16 (f16_to_f32 h)) = (if f16_sign h = 1 then 2 ^ 15 else 0)"
    unfolding unat_f32_to_f16 eq f32_mag_mk [OF lt] f32_neg_bit_mk [OF lt] Let_def
    using d by (simp only: if_True)
  then show ?thesis unfolding f16_sign_bit .
qed

lemma f16_to_f32_special:
  assumes "f16_exp h = 31"
  shows "f16_to_f32 h = f32_mk (f16_sign h = 1) (255 * 2 ^ 23 + f16_mant h * 2 ^ 13)"
proof -
  let ?e = "ucast (drop_bit 10 h AND 0x1F) :: u32"
  have e: "?e = 0x1F" "?e \<noteq> 0" using assms by (auto simp: word_unat_eq_iff f16_fields_words)
  have "f16_to_f32 h = push_bit 31 (ucast (drop_bit 15 h AND 0x1)) OR
      (push_bit 23 0xFF OR push_bit 13 (ucast (h AND 0x3FF)))"
    unfolding f16_to_f32_def Let_def using e by (simp only: if_False if_True) simp
  also have "\<dots> = f32_mk (f16_sign h = 1) (unat (0xFF :: u32) * 2 ^ 23 + f16_mant h * 2 ^ 13)"
  proof -
    have "unat (ucast (drop_bit 15 h AND 0x1) :: u32) < 2" "unat (0xFF :: u32) < 256"
      "unat (ucast (h AND 0x3FF) :: u32) < 1024"
      using f16_fields_less [of h] unfolding f16_fields_words by simp_all
    from assemble_f32 [OF this] show ?thesis unfolding f16_fields_words .
  qed
  finally show ?thesis by simp
qed

lemma f16_special_encoded:
  assumes "f16_exp h = 31"
  shows "unat (f32_to_f16 (f16_to_f32 h)) = f16_sign h * 2 ^ 15 + 0x7C00"
proof -
  let ?mag = "255 * 2 ^ 23 + f16_mant h * 2 ^ 13 :: nat"
  have M: "f16_mant h < 1024" by (rule f16_fields_less)
  have lt: "?mag < 2147483648" using M by simp
  have d: "?mag div 2 ^ 23 = 255" using M by (intro div_nat_eqI) simp_all
  have "unat (f32_to_f16 (f16_to_f32 h)) = (if f16_sign h = 1 then 2 ^ 15 else 0) + 0x7C00"
    unfolding unat_f32_to_f16 f16_to_f32_special [OF assms] f32_mag_mk [OF lt] f32_neg_bit_mk [OF lt] d Let_def
    by simp
  then show ?thesis unfolding f16_sign_bit .
qed

subsection \<open>Properties\<close>

text \<open>
  \<open>f16_to_f32\<close> is exact on every finite half, subnormals included: the result is finite,
  keeps the sign, and has the same value (one half unit \<open>2\<^sup>-\<^sup>2\<^sup>4\<close> is \<open>2 ^ 125\<close> single units).
\<close>

theorem f16_decode_exact:
  assumes "f16_finite h"
  shows "f32_finite (f16_to_f32 h) \<and> f32_neg_bit (f16_to_f32 h) = (f16_sign h = 1) \<and>
    f32_int (f16_to_f32 h) = f16_int h * 2 ^ 125"
  using f16_to_f32_exact [OF assms] by simp

theorem f16_decode_exact_witness:
  "f32_finite (f16_to_f32 0x8001) \<and> f32_neg_bit (f16_to_f32 0x8001) = (f16_sign 0x8001 = 1) \<and>
    f32_int (f16_to_f32 0x8001) = f16_int 0x8001 * 2 ^ 125"
  by (rule f16_decode_exact) (simp add: f16_finite_def f16_exp_def)

text \<open>
  Decoding and re-encoding a half gives the half back for every normal number, both zeros
  and both infinities; subnormals are flushed to the zero of their sign and NaNs become the
  infinity of their sign.
\<close>

theorem f16_reencode:
  "unat (f32_to_f16 (f16_to_f32 h)) =
     (if f16_exp h = 0 then f16_sign h * 2 ^ 15
      else if f16_exp h = 31 then f16_sign h * 2 ^ 15 + 0x7C00 else unat h)"
proof -
  have "unat h = f16_sign h * 2 ^ 15" if "f16_exp h = 0" "f16_mant h = 0"
    using f16_fields [of h] that by simp
  then show ?thesis
    using f16_subnormal_flushed [of h] f16_special_encoded [of h] f16_roundtrip_normal [of h]
      f16_roundtrip_zero [of h] by (cases "f16_mant h = 0") auto
qed

end
