(* ===== verification/Quant.thy ===== *)
theory Quant
  imports Half Shape
begin

text \<open>
  The block formats of \<open>src/src/ops/quant.rs\<close>: decoding of Q4_0, Q5_0, Q8_0, Q4_K and Q6_K
  blobs into \<open>f32\<close> and encoding into Q4_0 and Q8_0. A decoder fills its output block after
  block; a block's values are listed here in the order of the output positions they are written
  to. All indices are within the block by the length check made first.
\<close>

definition blk :: "bytes \<Rightarrow> nat \<Rightarrow> nat \<Rightarrow> bytes" where
  "blk data sz b = slice data (b * sz) (b * sz + sz)"

lemma length_blk [simp]: "length data = n * sz \<Longrightarrow> b < n \<Longrightarrow> length (blk data sz b) = sz"
proof -
  assume "length data = n * sz" "b < n"
  then have "Suc b * sz \<le> length data" by (metis Suc_leI mult_le_mono1)
  then show ?thesis by (simp add: blk_def add.commute)
qed

definition f16_at :: "bytes \<Rightarrow> nat \<Rightarrow> f32" where
  "f16_at bs off = f16_to_f32 (le16 [bs ! off, bs ! (off + 1)])"

definition f32_of_u8 :: "u8 \<Rightarrow> f32" where "f32_of_u8 b = f32_of_nat (unat b)"
definition f32_of_i8 :: "i8 \<Rightarrow> f32" where "f32_of_i8 b = f32_of_int (sint b)"

definition internal :: "string \<Rightarrow> 'a res" where "internal msg = Err (Internal msg)"

subsection \<open>Q4_0, Q5_0, Q8_0\<close>

definition dq_block_q4_0 :: "bytes \<Rightarrow> f32 list" where
  "dq_block_q4_0 q4 =
     (let scale = f16_at q4 0; qs = slice q4 2 Q4_0_BLOCK_BYTES in
      concat (map (\<lambda>k. let byte = qs ! k;
          lo = int (unat (byte AND 0x0F)) - 8;
          hi = int (unat (drop_bit 4 byte)) - 8 in
        [f32_mul scale (f32_of_int lo), f32_mul scale (f32_of_int hi)]) [0..<16]))"

definition dequantize_q4_0 :: "bytes \<Rightarrow> f32 list res" where
  "dequantize_q4_0 q4 =
     (if length q4 mod Q4_0_BLOCK_BYTES \<noteq> 0 then internal ''Q4_0 byte length not a multiple of 18''
      else Ok (concat (map (\<lambda>b. dq_block_q4_0 (blk q4 Q4_0_BLOCK_BYTES b))
        [0..<length q4 div Q4_0_BLOCK_BYTES])))"

definition q5_lo :: "bytes \<Rightarrow> nat \<Rightarrow> int" where
  "q5_lo q5 j = (let qh = le32 (slice q5 2 6); qs = slice q5 6 22;
       xh_0 = ucast (push_bit 4 (drop_bit j qh) AND 0x10) :: u8 in
     int (unat ((qs ! j AND 0x0F) OR xh_0)) - 16)"

definition q5_hi :: "bytes \<Rightarrow> nat \<Rightarrow> int" where
  "q5_hi q5 j = (let qh = le32 (slice q5 2 6); qs = slice q5 6 22;
       xh_1 = ucast (drop_bit (j + 12) qh AND 0x10) :: u8 in
     int (unat (drop_bit 4 (qs ! j) OR xh_1)) - 16)"

definition dq_block_q5_0 :: "bytes \<Rightarrow> f32 list" where
  "dq_block_q5_0 q5 =
     (let scale = f16_at q5 0 in
      map (\<lambda>j. f32_mul scale (f32_of_int (q5_lo q5 j))) [0..<16]
      @ map (\<lambda>j. f32_mul scale (f32_of_int (q5_hi q5 j))) [0..<16])"

definition dequantize_q5_0 :: "bytes \<Rightarrow> f32 list res" where
  "dequantize_q5_0 q5 =
     (if length q5 mod 22 \<noteq> 0 then internal ''Q5_0 byte length not a multiple of 22''
      else Ok (concat (map (\<lambda>b. dq_block_q5_0 (blk q5 22 b)) [0..<length q5 div 22])))"

definition dq_block_q8_0 :: "bytes \<Rightarrow> f32 list" where
  "dq_block_q8_0 q8 =
     (let scale = f16_at q8 0; qs = slice q8 2 Q8_0_BLOCK_BYTES in
      map (\<lambda>k. f32_mul scale (f32_of_i8 (qs ! k))) [0..<32])"

definition dequantize_q8_0 :: "bytes \<Rightarrow> f32 list res" where
  "dequantize_q8_0 q8 =
     (if length q8 mod Q8_0_BLOCK_BYTES \<noteq> 0 then internal ''Q8_0 byte length not a multiple of 34''
      else Ok (concat (map (\<lambda>b. dq_block_q8_0 (blk q8 Q8_0_BLOCK_BYTES b))
        [0..<length q8 div Q8_0_BLOCK_BYTES])))"

subsection \<open>Q4_K and Q6_K\<close>

definition get_scale_min_k4 :: "nat \<Rightarrow> bytes \<Rightarrow> u8 \<times> u8" where
  "get_scale_min_k4 j scales =
     (if j < 4 then (scales ! j AND 0x3F, scales ! (j + 4) AND 0x3F)
      else ((scales ! (j + 4) AND 0x0F) OR push_bit 4 (drop_bit 6 (scales ! (j - 4))),
            drop_bit 4 (scales ! (j + 4)) OR push_bit 4 (drop_bit 6 (scales ! j))))"

text \<open>Iteration \<open>it\<close> of the four that write 64 values each.\<close>

definition dq_q4k_iter :: "bytes \<Rightarrow> nat \<Rightarrow> f32 list" where
  "dq_q4k_iter q4k it =
     (let d = f16_at q4k 0; dmin = f16_at q4k 2; scales = slice q4k 4 16;
          qs = slice q4k 16 Q4_K_BLOCK_BYTES; is = 2 * it; q_off = 32 * it;
          (sc1, m1) = get_scale_min_k4 is scales;
          (sc2, m2) = get_scale_min_k4 (is + 1) scales;
          d1 = f32_mul d (f32_of_u8 sc1); m1f = f32_mul dmin (f32_of_u8 m1);
          d2 = f32_mul d (f32_of_u8 sc2); m2f = f32_mul dmin (f32_of_u8 m2) in
      map (\<lambda>l. f32_sub (f32_mul d1 (f32_of_u8 (qs ! (q_off + l) AND 0x0F))) m1f) [0..<32]
      @ map (\<lambda>l. f32_sub (f32_mul d2 (f32_of_u8 (drop_bit 4 (qs ! (q_off + l))))) m2f) [0..<32])"

definition dq_block_q4_k :: "bytes \<Rightarrow> f32 list" where
  "dq_block_q4_k q4k = concat (map (dq_q4k_iter q4k) [0..<4])"

definition dequantize_q4_k :: "bytes \<Rightarrow> f32 list res" where
  "dequantize_q4_k q4k =
     (if length q4k mod Q4_K_BLOCK_BYTES \<noteq> 0 then internal ''Q4_K byte length not a multiple of 144''
      else Ok (concat (map (\<lambda>b. dq_block_q4_k (blk q4k Q4_K_BLOCK_BYTES b))
        [0..<length q4k div Q4_K_BLOCK_BYTES])))"

text \<open>Half \<open>hf\<close> of a Q6_K super-block: four groups of 32 values.\<close>

definition q6_quant :: "bytes \<Rightarrow> nat \<Rightarrow> nat \<Rightarrow> nat \<Rightarrow> int" where
  "q6_quant q6 hf g l =
     (let ql = q6 ! (64 * hf + l + (if g mod 2 = 0 then 0 else 32));
          q = (if g < 2 then ql AND 0x0F else drop_bit 4 ql);
          qh = q6 ! (128 + 32 * hf + l) in
      int (unat (q OR push_bit 4 (drop_bit (2 * g) qh AND 0x03))) - 32)"

definition q6_scale :: "bytes \<Rightarrow> nat \<Rightarrow> nat \<Rightarrow> nat \<Rightarrow> i8" where
  "q6_scale q6 hf g l = q6 ! (192 + 8 * hf + l div 16 + 2 * g)"

definition dq_block_q6_k :: "bytes \<Rightarrow> f32 list" where
  "dq_block_q6_k q6 =
     (let d = f16_at q6 208 in
      concat (map (\<lambda>hf. concat (map (\<lambda>g. map (\<lambda>l.
        f32_mul (f32_mul d (f32_of_i8 (q6_scale q6 hf g l))) (f32_of_int (q6_quant q6 hf g l)))
        [0..<32]) [0..<4])) [0..<2]))"

definition dequantize_q6_k :: "bytes \<Rightarrow> f32 list res" where
  "dequantize_q6_k q6 =
     (if length q6 mod Q6_K_BLOCK_BYTES \<noteq> 0 then internal ''Q6_K byte length not a multiple of 210''
      else Ok (concat (map (\<lambda>b. dq_block_q6_k (blk q6 Q6_K_BLOCK_BYTES b))
        [0..<length q6 div Q6_K_BLOCK_BYTES])))"

subsection \<open>Lengths\<close>

lemma length_concat_const: "(\<And>x. x \<in> set xs \<Longrightarrow> length (f x) = w) \<Longrightarrow> length (concat (map f xs)) = length xs * w"
  by (induction xs) auto

lemma length_dq_blocks [simp]:
  "length (dq_block_q4_0 q) = 32" "length (dq_block_q5_0 q) = 32" "length (dq_block_q8_0 q) = 32"
  "length (dq_block_q4_k q) = 256" "length (dq_block_q6_k q) = 256"
proof -
  show "length (dq_block_q4_0 q) = 32"
    unfolding dq_block_q4_0_def Let_def by (subst length_concat_const [where w = 2]) auto
  show "length (dq_block_q5_0 q) = 32" "length (dq_block_q8_0 q) = 32"
    by (simp_all add: dq_block_q5_0_def dq_block_q8_0_def Let_def)
  have "length (dq_q4k_iter q it) = 64" for it
    by (simp add: dq_q4k_iter_def Let_def split: prod.splits)
  then show "length (dq_block_q4_k q) = 256"
    unfolding dq_block_q4_k_def by (subst length_concat_const [where w = 64]) auto
  show "length (dq_block_q6_k q) = 256"
    unfolding dq_block_q6_k_def Let_def
    by (subst length_concat_const [where w = 128])
       (auto simp: length_concat_const [where w = 32] simp del: upt_Suc)
qed

lemma nth_concat_blocks:
  assumes "\<And>i. i < n \<Longrightarrow> length (f i) = w" and "b < n" and "k < w"
  shows "concat (map f [0..<n]) ! (b * w + k) = f b ! k"
proof -
  have "slice (concat (map f [0..<n])) (b * w) (b * w + w) = f b"
    using assms(1,2) by (rule slice_concat_rows)
  moreover have "b * w + w \<le> length (concat (map f [0..<n]))"
    using assms(2) length_concat_rows [of n f w, OF assms(1)] mult_le_mono1 [of "Suc b" n w]
    by (simp add: add.commute)
  ultimately show ?thesis
    using assms(3) nth_slice [of "b * w + w" "concat (map f [0..<n])" k "b * w"] by simp
qed

subsection \<open>The interface of a block format\<close>

text \<open>
  What the matrix products use of a format: a decoder that maps every block of \<open>sz\<close> bytes to
  \<open>w\<close> values, independently of the other blocks, and rejects a partial block.
\<close>

locale block_format =
  fixes sz w :: nat
    and dec :: "bytes \<Rightarrow> f32 list"
    and dequant :: "bytes \<Rightarrow> f32 list res"
  assumes sz_pos: "0 < sz"
    and w_pos: "0 < w"
    and dec_length: "length (dec bs) = w"
    and dequant_ok: "length data = n * sz \<Longrightarrow>
      dequant data = Ok (concat (map (\<lambda>b. dec (blk data sz b)) [0..<n]))"
    and dequant_bad: "length data mod sz \<noteq> 0 \<Longrightarrow> \<exists>msg. dequant data = Err (Internal msg)"
begin

definition decoded :: "bytes \<Rightarrow> nat \<Rightarrow> f32 list" where
  "decoded data n = concat (map (\<lambda>b. dec (blk data sz b)) [0..<n])"

lemma length_decoded: "length (decoded data n) = n * w"
  unfolding decoded_def using length_concat_rows [of n "\<lambda>b. dec (blk data sz b)" w] by (simp add: dec_length)

lemma dequant_decoded: "length data = n * sz \<Longrightarrow> dequant data = Ok (decoded data n)"
  unfolding decoded_def by (rule dequant_ok)

lemma dequant_length: "dequant data = Ok xs \<Longrightarrow> length xs * sz = length data * w"
proof (cases "length data mod sz = 0")
  case True
  then obtain n where n: "length data = n * sz" by (metis dvd_div_mult_self mod_eq_0_iff_dvd)
  then show "dequant data = Ok xs \<Longrightarrow> length xs * sz = length data * w"
    using dequant_decoded [OF n] by (auto simp: length_decoded)
next
  case False
  then show "dequant data = Ok xs \<Longrightarrow> length xs * sz = length data * w"
    using dequant_bad [OF False] by auto
qed

lemma dequant_no_panic: "dequant data \<noteq> Panic"
proof (cases "length data mod sz = 0")
  case True
  then obtain n where n: "length data = n * sz" by (metis dvd_div_mult_self mod_eq_0_iff_dvd)
  show ?thesis by (simp add: dequant_decoded [OF n])
next
  case False
  then show ?thesis using dequant_bad [OF False] by auto
qed

lemma nth_decoded: "b < n \<Longrightarrow> k < w \<Longrightarrow> decoded data n ! (b * w + k) = dec (blk data sz b) ! k"
  unfolding decoded_def by (rule nth_concat_blocks) (simp_all add: dec_length)

lemma nth_decoded_div: "i < n * w \<Longrightarrow> decoded data n ! i = dec (blk data sz (i div w)) ! (i mod w)"
  using nth_decoded [of "i div w" n "i mod w" data] w_pos by (simp add: less_mult_imp_div_less)

text \<open>A slice of whole blocks decodes to the slice of the values.\<close>

lemma blk_slice:
  assumes "length data = n * sz" and "a + m \<le> n" and "b < m"
  shows "blk (slice data (a * sz) ((a + m) * sz)) sz b = blk data sz (a + b)"
proof -
  have "Suc b * sz \<le> m * sz" using assms(3) by (intro mult_le_mono1) simp
  then show ?thesis
    unfolding blk_def by (subst slice_slice) (simp_all add: algebra_simps)
qed

lemma dequant_slice:
  assumes "length data = n * sz" and "a + m \<le> n"
  shows "dequant (slice data (a * sz) ((a + m) * sz)) = Ok (slice (decoded data n) (a * w) ((a + m) * w))"
proof -
  have "(a + m) * sz \<le> n * sz" using assms(2) by (rule mult_le_mono1)
  then have "length (slice data (a * sz) ((a + m) * sz)) = m * sz"
    using assms(1) by (simp add: algebra_simps)
  moreover have "decoded (slice data (a * sz) ((a + m) * sz)) m = slice (decoded data n) (a * w) ((a + m) * w)"
  proof (rule nth_equalityI)
    have le: "(a + m) * w \<le> n * w" using assms(2) by (rule mult_le_mono1)
    then show "length (decoded (slice data (a * sz) ((a + m) * sz)) m)
        = length (slice (decoded data n) (a * w) ((a + m) * w))"
      by (simp add: length_decoded algebra_simps)
    fix i assume "i < length (decoded (slice data (a * sz) ((a + m) * sz)) m)"
    then have i: "i < m * w" by (simp add: length_decoded)
    then have b: "i div w < m" by (simp add: less_mult_imp_div_less)
    have "a * w + i < n * w" using i le by (simp add: algebra_simps)
    then have "decoded data n ! (a * w + i) = dec (blk data sz (a + i div w)) ! (i mod w)"
      using w_pos nth_decoded_div [of "a * w + i" n data] by simp
    then show "decoded (slice data (a * sz) ((a + m) * sz)) m ! i
        = slice (decoded data n) (a * w) ((a + m) * w) ! i"
      using i b le by (simp add: nth_decoded_div blk_slice [OF assms b, unfolded add_mult_distrib] length_decoded add_mult_distrib)
  qed
  ultimately show ?thesis using dequant_decoded by metis
qed

text \<open>Row \<open>r\<close> of a matrix whose rows are \<open>m\<close> blocks.\<close>

lemma decoded_row:
  assumes "length data = n * (m * sz)" and "r < n"
  shows "decoded (slice data (r * (m * sz)) ((r + 1) * (m * sz))) m
    = slice (decoded data (n * m)) (r * (m * w)) ((r + 1) * (m * w))"
proof -
  have len: "length data = n * m * sz" using assms(1) by (simp add: mult.assoc)
  have "(r + 1) * m \<le> n * m" using assms(2) by (intro mult_le_mono1) simp
  then have le: "r * m + m \<le> n * m" by simp
  have sl: "slice data (r * (m * sz)) ((r + 1) * (m * sz)) = slice data (r * m * sz) ((r * m + m) * sz)"
    by (simp add: algebra_simps)
  have "(r * m + m) * sz \<le> n * m * sz" using le by (rule mult_le_mono1)
  then have "length (slice data (r * m * sz) ((r * m + m) * sz)) = m * sz"
    using len by (simp add: algebra_simps)
  from dequant_decoded [OF this] dequant_slice [OF len le]
  have "decoded (slice data (r * m * sz) ((r * m + m) * sz)) m = slice (decoded data (n * m)) (r * m * w) ((r * m + m) * w)"
    by simp
  moreover have "r * m * w = r * (m * w)" "(r * m + m) * w = (r + 1) * (m * w)"
    by (simp_all add: algebra_simps)
  ultimately show ?thesis unfolding sl by (simp only:)
qed

end

interpretation q4_0: block_format 18 32 dq_block_q4_0 dequantize_q4_0
  by unfold_locales (auto simp: dequantize_q4_0_def block_consts internal_def)

interpretation q5_0: block_format 22 32 dq_block_q5_0 dequantize_q5_0
  by unfold_locales (auto simp: dequantize_q5_0_def internal_def)

interpretation q8_0: block_format 34 32 dq_block_q8_0 dequantize_q8_0
  by unfold_locales (auto simp: dequantize_q8_0_def block_consts internal_def)

interpretation q4_k: block_format 144 256 dq_block_q4_k dequantize_q4_k
  by unfold_locales (auto simp: dequantize_q4_k_def block_consts internal_def)

interpretation q6_k: block_format 210 256 dq_block_q6_k dequantize_q6_k
  by unfold_locales (auto simp: dequantize_q6_k_def block_consts internal_def)

subsection \<open>Exactness\<close>

text \<open>
  A value with a short significand: at most \<open>B\<close> units of \<open>2 ^ j\<close>. A half has eleven bits, so
  its products with the small integers of the formats fit in the 24 bits of an \<open>f32\<close>.
\<close>

definition f32_short :: "nat \<Rightarrow> f32 \<Rightarrow> bool" where
  "f32_short B x \<longleftrightarrow> f32_finite x \<and> (\<exists>m j. m \<le> B \<and> j \<le> 154 \<and> \<bar>f32_int x\<bar> = int (m * 2 ^ j))"

lemma f32_short_mul_int:
  assumes "f32_short B x" and "\<bar>i\<bar> \<le> int C" and "B * C < 2 ^ 24" and "C < 2 ^ 24"
  shows "f32_int (f32_mul x (f32_of_int i)) = f32_int x * i"
    and "f32_short (B * C) (f32_mul x (f32_of_int i))"
proof -
  obtain m j where fin: "f32_finite x" and m: "m \<le> B" "j \<le> 154" and x: "\<bar>f32_int x\<bar> = int (m * 2 ^ j)"
    using assms(1) by (auto simp: f32_short_def)
  have i24: "\<bar>i\<bar> < 2 ^ 24" using assms(2,4) by (simp add: le_less_trans)
  note oi = f32_of_int_exact [OF i24]
  have mC: "m * nat \<bar>i\<bar> \<le> B * C" using m(1) assms(2) by (intro mult_le_mono) simp_all
  have abs: "\<bar>f32_int x * f32_int (f32_of_int i)\<bar> = int (m * nat \<bar>i\<bar> * 2 ^ j * 2 ^ 149)"
    by (simp add: abs_mult x oi(3))
  have j: "j \<le> 253" and lt: "m * nat \<bar>i\<bar> < 2 ^ 24" using m(2) mC assms(3) by simp_all
  note ex = f32_mul_exact [OF fin oi(1) abs lt j]
  have "f32_int (f32_mul x (f32_of_int i)) * 2 ^ 149 = f32_int x * i * 2 ^ 149"
    using ex(3) by (simp add: oi(3))
  then show val: "f32_int (f32_mul x (f32_of_int i)) = f32_int x * i" by simp
  have "\<bar>f32_int (f32_mul x (f32_of_int i))\<bar> = int (m * nat \<bar>i\<bar> * 2 ^ j)"
    by (simp add: val abs_mult x)
  then show "f32_short (B * C) (f32_mul x (f32_of_int i))"
    using ex(1) mC m(2) unfolding f32_short_def by blast
qed

lemma f16_short:
  assumes "f16_finite h"
  shows "f32_short 2047 (f16_to_f32 h)"
proof -
  have e: "f16_exp h \<le> 30" using f16_fields_less(2) [of h] assms by (simp add: f16_finite_def)
  have v: "\<bar>f32_int (f16_to_f32 h)\<bar> = \<bar>f16_int h\<bar> * 2 ^ 125"
    by (simp add: f16_to_f32_exact(3) [OF assms] abs_mult)
  have "\<exists>m j. m \<le> 2047 \<and> j \<le> 154 \<and> \<bar>f32_int (f16_to_f32 h)\<bar> = int (m * 2 ^ j)"
  proof (cases "f16_exp h = 0")
    case True
    then have "\<bar>f32_int (f16_to_f32 h)\<bar> = int (f16_mant h * 2 ^ 125)"
      unfolding v by (simp add: f16_int_def abs_mult)
    then show ?thesis using f16_fields_less(3) [of h] by (intro exI [of _ "f16_mant h"] exI [of _ 125]) simp
  next
    case False
    have "\<bar>f32_int (f16_to_f32 h)\<bar> = int ((f16_mant h + 2 ^ 10) * 2 ^ ((f16_exp h - 1) + 125))"
      unfolding v power_add using False by (simp add: f16_int_def abs_mult)
    then show ?thesis using f16_fields_less(3) [of h] e
      by (intro exI [of _ "f16_mant h + 2 ^ 10"] exI [of _ "(f16_exp h - 1) + 125"]) simp
  qed
  then show ?thesis using f16_to_f32_exact(1) [OF assms] by (simp add: f32_short_def)
qed

lemma sint_i8_abs: "\<bar>sint (q :: i8)\<bar> \<le> 128"
  using sint_range_size [of q] by (simp add: word_size abs_le_iff)

lemma f32_of_i8_int: "f32_of_i8 q = f32_of_int (sint q)" by (simp add: f32_of_i8_def)
lemma f32_of_u8_int: "f32_of_u8 q = f32_of_int (int (unat q))" by (simp add: f32_of_u8_def f32_of_nat_def)

lemma unat_nibble: "unat ((b :: u8) AND 0x0F) = unat b mod 16" "unat (drop_bit 4 b) = unat b div 16"
  by (simp_all only: mask_num(1) unat_and_mask unat_drop_bit, simp_all)

lemma unat_u8: "unat (b :: u8) < 256"
  using unsigned_less [of b, where 'a = nat] by simp

lemma nibble_less: "unat ((b :: u8) AND 0x0F) < 16" "unat (drop_bit 4 b) < 16"
  unfolding unat_nibble using unat_u8 [of b] by (simp_all add: less_mult_imp_div_less)

definition block_scale :: "bytes \<Rightarrow> nat \<Rightarrow> u16" where
  "block_scale bs off = le16 [bs ! off, bs ! (off + 1)]"

lemma f16_at_scale: "f16_at bs off = f16_to_f32 (block_scale bs off)"
  by (simp add: f16_at_def block_scale_def)

lemma abs_small: "n < 256 \<Longrightarrow> c \<le> 32 \<Longrightarrow> \<bar>int n - c\<bar> \<le> 2 ^ 12" if "0 \<le> c"
  using that by (simp add: abs_le_iff)

lemma scale_mul_exact:
  assumes "f16_finite (block_scale bs off)" and "\<bar>i\<bar> \<le> 2 ^ 12"
  shows "f32_int (f32_mul (f16_at bs off) (f32_of_int i)) = f32_int (f16_at bs off) * i"
  using f32_short_mul_int(1) [OF f16_short [OF assms(1)], of i "2 ^ 12"] assms(2)
  by (simp add: f16_at_scale)

text \<open>Q8_0: every weight is exactly scale times quant.\<close>

lemma dq_block_q8_0_exact:
  assumes "f16_finite (block_scale q 0)" and "k < 32" and "length q = 34"
  shows "f32_int (dq_block_q8_0 q ! k) = f32_int (f16_at q 0) * sint (q ! (2 + k))"
proof -
  have "\<bar>sint (q ! (2 + k))\<bar> \<le> 2 ^ 12" using sint_i8_abs [of "q ! (2 + k)"] by simp
  from scale_mul_exact [OF assms(1) this] show ?thesis
    using assms(2,3) by (simp add: dq_block_q8_0_def Let_def block_consts f32_of_i8_int)
qed

lemma dq_block_q4_0_exact:
  assumes "f16_finite (block_scale q 0)" and "k < 16" and "length q = 18"
  shows "f32_int (dq_block_q4_0 q ! (2 * k)) = f32_int (f16_at q 0) * (int (unat (q ! (2 + k)) mod 16) - 8)"
    and "f32_int (dq_block_q4_0 q ! (2 * k + 1)) = f32_int (f16_at q 0) * (int (unat (q ! (2 + k)) div 16) - 8)"
proof -
  let ?f = "\<lambda>k. [f32_mul (f16_at q 0) (f32_of_int (int (unat (slice q 2 18 ! k AND 0x0F)) - 8)),
    f32_mul (f16_at q 0) (f32_of_int (int (unat (drop_bit 4 (slice q 2 18 ! k))) - 8))]"
  have blk: "dq_block_q4_0 q = concat (map ?f [0..<16])"
    by (simp add: dq_block_q4_0_def Let_def block_consts del: upt_Suc upt_rec_numeral)
  have nth: "concat (map ?f [0..<16]) ! (k * 2 + r) = ?f k ! r" if "r < 2" for r
    using assms(2) that by (intro nth_concat_blocks) auto
  have b: "\<bar>int (unat (q ! (2 + k)) mod 16) - 8\<bar> \<le> 2 ^ 12"
    "\<bar>int (unat (q ! (2 + k)) div 16) - 8\<bar> \<le> 2 ^ 12"
    using unat_u8 [of "q ! (2 + k)"] by (intro abs_small; simp)+
  have s: "slice q 2 18 ! k = q ! (2 + k)" using assms(2,3) by simp
  have "dq_block_q4_0 q ! (2 * k) = ?f k ! 0" "dq_block_q4_0 q ! (2 * k + 1) = ?f k ! 1"
    using nth [of 0] nth [of 1] unfolding blk by (simp_all only: mult.commute [of 2] add_0_right one_less_numeral_iff zero_less_numeral semiring_norm)
  then show "f32_int (dq_block_q4_0 q ! (2 * k)) = f32_int (f16_at q 0) * (int (unat (q ! (2 + k)) mod 16) - 8)"
    "f32_int (dq_block_q4_0 q ! (2 * k + 1)) = f32_int (f16_at q 0) * (int (unat (q ! (2 + k)) div 16) - 8)"
    using scale_mul_exact [OF assms(1) b(1)] scale_mul_exact [OF assms(1) b(2)]
    by (simp_all add: s unat_nibble)
qed

text \<open>Joining a nibble with the high bits stored elsewhere.\<close>

lemma unat_join_high:
  assumes "unat (lo :: u8) < 16" and "unat hi < 16"
  shows "unat (lo OR push_bit 4 hi) = unat hi * 16 + unat lo"
  using unat_or_push [of lo 4 hi] assms by (simp add: or.commute)

lemma unat_and_3: "unat ((b :: u8) AND 0x03) < 4"
  unfolding mask_num(6) unat_and_mask by simp

lemma q6_quant_range: "- 32 \<le> q6_quant q hf g l" "q6_quant q hf g l \<le> 31"
proof -
  let ?ql = "q ! (64 * hf + l + (if g mod 2 = 0 then 0 else 32))"
  let ?n = "if g < 2 then ?ql AND 0x0F else drop_bit 4 ?ql"
  let ?h = "drop_bit (2 * g) (q ! (128 + 32 * hf + l)) AND 0x03"
  have n: "unat ?n < 16" by (simp only: nibble_less split: if_split) simp
  have h: "unat ?h < 4" by (rule unat_and_3)
  have "unat (?n OR push_bit 4 ?h) = unat ?h * 16 + unat ?n"
    using n h by (intro unat_join_high) simp_all
  then have "unat (?n OR push_bit 4 ?h) < 64" using n h by linarith
  moreover have "q6_quant q hf g l = int (unat (?n OR push_bit 4 ?h)) - 32"
    by (simp only: q6_quant_def Let_def)
  ultimately show "- 32 \<le> q6_quant q hf g l" "q6_quant q hf g l \<le> 31" by linarith+
qed

lemma nth_dq_block_q6_k:
  assumes "hf < 2" and "g < 4" and "l < 32"
  shows "dq_block_q6_k q ! (hf * 128 + (g * 32 + l)) =
     f32_mul (f32_mul (f16_at q 208) (f32_of_i8 (q6_scale q hf g l))) (f32_of_int (q6_quant q hf g l))"
proof -
  let ?v = "\<lambda>hf g l. f32_mul (f32_mul (f16_at q 208) (f32_of_i8 (q6_scale q hf g l)))
    (f32_of_int (q6_quant q hf g l))"
  let ?h = "\<lambda>hf. concat (map (\<lambda>g. map (?v hf g) [0..<32]) [0..<4])"
  have len: "length (?h i) = 128" for i by (subst length_concat_const [where w = 32]) auto
  have "g * 32 + l < 128" using assms(2,3) by linarith
  then have "concat (map ?h [0..<2]) ! (hf * 128 + (g * 32 + l)) = ?h hf ! (g * 32 + l)"
    using assms(1) len by (intro nth_concat_blocks) auto
  also have "\<dots> = map (?v hf g) [0..<32] ! l"
    using assms(2,3) by (intro nth_concat_blocks) auto
  finally show ?thesis using assms(3) by (simp only: dq_block_q6_k_def Let_def) simp
qed

lemma dq_block_q6_k_exact:
  assumes "f16_finite (block_scale q 208)" and "hf < 2" and "g < 4" and "l < 32"
  shows "f32_int (dq_block_q6_k q ! (hf * 128 + (g * 32 + l))) =
     f32_int (f16_at q 208) * sint (q6_scale q hf g l) * q6_quant q hf g l"
proof -
  have "\<bar>sint (q6_scale q hf g l)\<bar> \<le> int 128" using sint_i8_abs by simp
  then have s: "f32_int (f32_mul (f16_at q 208) (f32_of_int (sint (q6_scale q hf g l))))
        = f32_int (f16_at q 208) * sint (q6_scale q hf g l)"
      "f32_short (2047 * 128) (f32_mul (f16_at q 208) (f32_of_int (sint (q6_scale q hf g l))))"
    unfolding f16_at_scale by (rule f32_short_mul_int [OF f16_short [OF assms(1)]]; simp)+
  have "\<bar>q6_quant q hf g l\<bar> \<le> int 32"
    using q6_quant_range [of q hf g l] by (simp add: abs_le_iff)
  from f32_short_mul_int(1) [OF s(2) this] show ?thesis
    unfolding nth_dq_block_q6_k [OF assms(2-4)] f32_of_i8_int s(1) by simp
qed

lemma q5_range: "- 16 \<le> q5_lo q j" "q5_lo q j \<le> 15" "- 16 \<le> q5_hi q j" "q5_hi q j \<le> 15"
proof -
  have bit: "ucast (w AND 0x10) = (push_bit 4 (if bit w 4 then 1 else 0) :: u8)" for w :: u32
  proof -
    have "(0x10 :: u32) = 2 ^ 4" by simp
    then have b: "bit (0x10 :: u32) n \<longleftrightarrow> n = 4" for n
      by (simp only: bit_exp_iff possible_bit_word) auto
    have "bit (w AND 0x10) n = bit (if bit w 4 then 0x10 else 0 :: u32) n" for n
      by (cases "n = 4"; cases "bit w 4") (simp_all only: bit_and_iff b if_True if_False bit_0_eq simp_thms, simp_all)
    then have "w AND 0x10 = (if bit w 4 then 0x10 else 0)"
      by (intro bit_eqI)
    then show ?thesis by simp
  qed
  have ub: "unat (lo OR push_bit 4 (if c then 1 else 0)) < 32" if "unat lo < 16" for lo :: u8 and c
    using unat_join_high [OF that, of "if c then 1 else 0"] that by (cases c) auto
  let ?b = "\<lambda>j. slice q 6 22 ! j"
  have n: "unat (?b j AND 0x0F) < 16" "unat (drop_bit 4 (?b j)) < 16"
    by (rule nibble_less)+
  have aux: "- 16 \<le> int (unat x) - 16 \<and> int (unat x) - 16 \<le> 15" if "unat x < 32" for x :: u8
    using that by linarith
  have "- 16 \<le> q5_lo q j \<and> q5_lo q j \<le> 15"
    unfolding q5_lo_def Let_def bit by (rule aux, rule ub, rule n)
  moreover have "- 16 \<le> q5_hi q j \<and> q5_hi q j \<le> 15"
    unfolding q5_hi_def Let_def bit by (rule aux, rule ub, rule n)
  ultimately show "- 16 \<le> q5_lo q j" "q5_lo q j \<le> 15" "- 16 \<le> q5_hi q j" "q5_hi q j \<le> 15"
    by simp_all
qed

lemma dq_block_q5_0_exact:
  assumes "f16_finite (block_scale q 0)" and "j < 16"
  shows "f32_int (dq_block_q5_0 q ! j) = f32_int (f16_at q 0) * q5_lo q j"
    and "f32_int (dq_block_q5_0 q ! (j + 16)) = f32_int (f16_at q 0) * q5_hi q j"
proof -
  have b: "\<bar>q5_lo q j\<bar> \<le> 2 ^ 12" "\<bar>q5_hi q j\<bar> \<le> 2 ^ 12"
    using q5_range [of q j] by (simp_all add: abs_le_iff)
  show "f32_int (dq_block_q5_0 q ! j) = f32_int (f16_at q 0) * q5_lo q j"
    "f32_int (dq_block_q5_0 q ! (j + 16)) = f32_int (f16_at q 0) * q5_hi q j"
    using assms(2) scale_mul_exact [OF assms(1) b(1)] scale_mul_exact [OF assms(1) b(2)]
    by (simp_all add: dq_block_q5_0_def Let_def nth_append)
qed

text \<open>Q4_K: both products are exact, so a weight is the correctly rounded difference.\<close>

lemma unat_and_63: "unat ((b :: u8) AND 0x3F) < 64"
  unfolding mask_num(3) unat_and_mask by simp

lemma unat_top_two: "unat (drop_bit 6 (b :: u8)) < 4"
  using unat_u8 [of b] by (simp add: unat_drop_bit less_mult_imp_div_less)

lemma scale_min_k4_less:
  "unat (fst (get_scale_min_k4 j s)) < 64" "unat (snd (get_scale_min_k4 j s)) < 64"
proof -
  have join: "unat (lo OR push_bit 4 (drop_bit 6 b)) < 64" if "unat lo < 16" for lo b :: u8
    using that unat_join_high [OF that, of "drop_bit 6 b"] unat_top_two [of b] by simp
  show "unat (fst (get_scale_min_k4 j s)) < 64" "unat (snd (get_scale_min_k4 j s)) < 64"
    unfolding get_scale_min_k4_def
    by (simp_all only: fst_conv snd_conv unat_and_63 join [OF nibble_less(1)] join [OF nibble_less(2)]
        split: if_split, simp_all)
qed

definition q4k_nibble :: "bytes \<Rightarrow> nat \<Rightarrow> nat \<Rightarrow> nat" where
  "q4k_nibble q sub l = (let b = q ! (16 + 32 * (sub div 2) + l) in
     if sub mod 2 = 0 then unat b mod 16 else unat b div 16)"

definition q4k_scale :: "bytes \<Rightarrow> nat \<Rightarrow> nat" where
  "q4k_scale q sub = unat (fst (get_scale_min_k4 sub (slice q 4 16)))"

definition q4k_min :: "bytes \<Rightarrow> nat \<Rightarrow> nat" where
  "q4k_min q sub = unat (snd (get_scale_min_k4 sub (slice q 4 16)))"

definition q4k_product :: "bytes \<Rightarrow> nat \<Rightarrow> nat \<Rightarrow> f32" where
  "q4k_product q sub l = f32_mul (f32_mul (f16_at q 0) (f32_of_nat (q4k_scale q sub)))
     (f32_of_nat (q4k_nibble q sub l))"

definition q4k_offset :: "bytes \<Rightarrow> nat \<Rightarrow> f32" where
  "q4k_offset q sub = f32_mul (f16_at q 2) (f32_of_nat (q4k_min q sub))"

lemma nth_dq_block_q4_k:
  assumes "length q = 144" and "sub < 8" and "l < 32"
  shows "dq_block_q4_k q ! (sub * 32 + l) = f32_sub (q4k_product q sub l) (q4k_offset q sub)"
proof -
  define it r where "it = sub div 2" and "r = sub mod 2"
  have it: "it < 4" and r: "r < 2" and sub: "sub = 2 * it + r"
    using assms(2) by (auto simp: it_def r_def)
  have len: "length (dq_q4k_iter q it) = 64" for it
    by (simp add: dq_q4k_iter_def Let_def split: prod.splits)
  have "r * 32 + l < 64" using r assms(3) by linarith
  then have "dq_block_q4_k q ! (it * 64 + (r * 32 + l)) = dq_q4k_iter q it ! (r * 32 + l)"
    unfolding dq_block_q4_k_def using it len by (intro nth_concat_blocks) auto
  moreover have "sub * 32 + l = it * 64 + (r * 32 + l)" by (simp add: sub)
  moreover have "dq_q4k_iter q it ! (r * 32 + l) = f32_sub (q4k_product q sub l) (q4k_offset q sub)"
  proof -
    have qs: "slice q 16 144 ! (32 * it + l) = q ! (16 + 32 * it + l)"
      using assms(1,3) it by (simp add: add.assoc)
    consider "r = 0" | "r = 1" using r by linarith
    then show ?thesis
    proof cases
      case 1
      then show ?thesis
        using assms(3) qs unfolding dq_q4k_iter_def Let_def q4k_product_def q4k_offset_def
        by (simp add: nth_append sub block_consts q4k_scale_def q4k_min_def q4k_nibble_def f32_of_u8_def
            unat_nibble split: prod.splits)
    next
      case 2
      then show ?thesis
        using assms(3) qs unfolding dq_q4k_iter_def Let_def q4k_product_def q4k_offset_def
        by (simp add: nth_append sub block_consts q4k_scale_def q4k_min_def q4k_nibble_def f32_of_u8_def
            unat_nibble split: prod.splits)
    qed
  qed
  ultimately show ?thesis by (simp only:)
qed

lemma q4k_nibble_less: "q4k_nibble q sub l < 16"
  using unat_u8 by (simp add: q4k_nibble_def Let_def less_mult_imp_div_less)

lemma q4k_product_exact:
  assumes "f16_finite (block_scale q 0)"
  shows "f32_finite (q4k_product q sub l)"
    and "f32_int (q4k_product q sub l) = f32_int (f16_at q 0) * int (q4k_scale q sub) * int (q4k_nibble q sub l)"
proof -
  have "\<bar>int (q4k_scale q sub)\<bar> \<le> int 63"
    using scale_min_k4_less(1) [of sub "slice q 4 16", folded q4k_scale_def] by linarith
  then have s: "f32_int (f32_mul (f16_at q 0) (f32_of_int (int (q4k_scale q sub)))) = f32_int (f16_at q 0) * int (q4k_scale q sub)"
      "f32_short (2047 * 63) (f32_mul (f16_at q 0) (f32_of_int (int (q4k_scale q sub))))"
    unfolding f16_at_scale by (rule f32_short_mul_int [OF f16_short [OF assms]]; simp)+
  have n: "\<bar>int (q4k_nibble q sub l)\<bar> \<le> int 15" using q4k_nibble_less [of q sub l] by simp
  have p: "2047 * 63 * 15 < (2 :: nat) ^ 24" "15 < (2 :: nat) ^ 24" by simp_all
  show "f32_int (q4k_product q sub l) = f32_int (f16_at q 0) * int (q4k_scale q sub) * int (q4k_nibble q sub l)"
    using f32_short_mul_int(1) [OF s(2) n p] by (simp only: q4k_product_def f32_of_nat_def s(1))
  show "f32_finite (q4k_product q sub l)"
    using f32_short_mul_int(2) [OF s(2) n p] by (simp only: q4k_product_def f32_of_nat_def f32_short_def)
qed

lemma q4k_offset_exact:
  assumes "f16_finite (block_scale q 2)"
  shows "f32_finite (q4k_offset q sub)"
    and "f32_int (q4k_offset q sub) = f32_int (f16_at q 2) * int (q4k_min q sub)"
proof -
  have m: "\<bar>int (q4k_min q sub)\<bar> \<le> int 63"
    using scale_min_k4_less(2) [of sub "slice q 4 16", folded q4k_min_def] by linarith
  have p: "2047 * 63 < (2 :: nat) ^ 24" "63 < (2 :: nat) ^ 24" by simp_all
  note ex = f32_short_mul_int [OF f16_short [OF assms] m p]
  show "f32_int (q4k_offset q sub) = f32_int (f16_at q 2) * int (q4k_min q sub)"
    "f32_finite (q4k_offset q sub)"
    using ex by (simp_all only: q4k_offset_def f32_of_nat_def f16_at_scale f32_short_def)
qed

subsection \<open>Encoding\<close>

text \<open>The literals \<open>-8.0\<close>, \<open>8.5\<close>, \<open>127.0\<close>, \<open>0.5\<close> and \<open>-0.5\<close>.\<close>

definition f32_m8 :: f32 where "f32_m8 = 0xC1000000"
definition f32_8_5 :: f32 where "f32_8_5 = 0x41080000"
definition f32_127 :: f32 where "f32_127 = 0x42FE0000"
definition f32_half :: f32 where "f32_half = 0x3F000000"
definition f32_mhalf :: f32 where "f32_mhalf = 0xBF000000"

definition clamp :: "int \<Rightarrow> int \<Rightarrow> int \<Rightarrow> int" where
  "clamp i lo hi = (if i < lo then lo else if hi < i then hi else i)"

definition inverse_scale :: "f32 \<Rightarrow> f32" where
  "inverse_scale scale = (if \<not> f32_eq scale 0 then f32_div f32_one scale else 0)"

definition q4_0_max :: "f32 list \<Rightarrow> f32 \<times> f32" where
  "q4_0_max block = foldl (\<lambda>(amax, max_val) v.
     if f32_lt amax (f32_abs v) then (f32_abs v, v) else (amax, max_val)) (0, 0) block"

definition q4_0_code :: "f32 \<Rightarrow> f32 \<Rightarrow> u8" where
  "q4_0_code v inv_scale =
     word_of_int (clamp (f32_to_i32 (f32_add (f32_mul v inv_scale) f32_8_5)) 0 15)"

definition qz_block_q4_0 :: "f32 list \<Rightarrow> bytes" where
  "qz_block_q4_0 block =
     (let scale = f32_div (snd (q4_0_max block)) f32_m8; inv_scale = inverse_scale scale in
      to_le_bytes16 (f32_to_f16 scale) @
      map (\<lambda>k. q4_0_code (block ! (2 * k)) inv_scale OR
              push_bit 4 (q4_0_code (block ! (2 * k + 1)) inv_scale)) [0..<16])"

definition quantize_q4_0 :: "f32 list \<Rightarrow> bytes res" where
  "quantize_q4_0 data =
     (if length data mod Q4_0_BLOCK_NUMEL \<noteq> 0 then internal ''Q4_0 quantize: input not a multiple of 32''
      else Ok (concat (map (\<lambda>b. qz_block_q4_0 (slice data (b * Q4_0_BLOCK_NUMEL) ((b + 1) * Q4_0_BLOCK_NUMEL)))
        [0..<length data div Q4_0_BLOCK_NUMEL])))"

definition abs_max :: "f32 list \<Rightarrow> f32" where
  "abs_max block = foldl (\<lambda>amax v. if f32_lt amax (f32_abs v) then f32_abs v else amax) 0 block"

definition q8_0_code :: "f32 \<Rightarrow> f32 \<Rightarrow> i8" where
  "q8_0_code v inv_scale =
     (let scaled = f32_mul v inv_scale; bias = (if f32_le 0 scaled then f32_half else f32_mhalf) in
      word_of_int (clamp (f32_to_i32 (f32_add scaled bias)) (-127) 127))"

definition qz_block_q8_0 :: "f32 list \<Rightarrow> bytes" where
  "qz_block_q8_0 block =
     (let scale = f32_div (abs_max block) f32_127; inv_scale = inverse_scale scale in
      to_le_bytes16 (f32_to_f16 scale) @ map (\<lambda>k. q8_0_code (block ! k) inv_scale) [0..<32])"

definition quantize_q8_0 :: "f32 list \<Rightarrow> bytes res" where
  "quantize_q8_0 data =
     (if length data mod Q8_0_BLOCK_NUMEL \<noteq> 0 then internal ''Q8_0 quantize: input not a multiple of 32''
      else Ok (concat (map (\<lambda>b. qz_block_q8_0 (slice data (b * Q8_0_BLOCK_NUMEL) ((b + 1) * Q8_0_BLOCK_NUMEL)))
        [0..<length data div Q8_0_BLOCK_NUMEL])))"

lemma length_qz_blocks [simp]: "length (qz_block_q4_0 b) = 18" "length (qz_block_q8_0 b) = 34"
  by (simp_all add: qz_block_q4_0_def qz_block_q8_0_def Let_def)

lemma clamp_range: "lo \<le> hi \<Longrightarrow> lo \<le> clamp i lo hi" "lo \<le> hi \<Longrightarrow> clamp i lo hi \<le> hi"
  by (simp_all add: clamp_def)

lemma sint_small_i8: "-128 \<le> i \<Longrightarrow> i \<le> 127 \<Longrightarrow> sint (word_of_int i :: i8) = i"
  unfolding sint_sbintrunc' by (rule signed_take_bit_int_eq_self) simp_all

lemma sint_q8_0_code: "\<bar>sint (q8_0_code v s)\<bar> \<le> 127"
proof -
  let ?c = "clamp (f32_to_i32 (f32_add (f32_mul v s)
      (if f32_le 0 (f32_mul v s) then f32_half else f32_mhalf))) (-127) 127"
  have r: "-127 \<le> ?c" "?c \<le> 127" by (rule clamp_range; simp)+
  then have "sint (word_of_int ?c :: i8) = ?c" by (intro sint_small_i8) simp_all
  then show ?thesis using r by (simp add: q8_0_code_def Let_def abs_le_iff)
qed

text \<open>What is encoded decodes again, to as many values.\<close>

lemma quantize_q8_0_shape:
  assumes "quantize_q8_0 data = Ok q"
  obtains n where "length data = n * 32" and "length q = n * 34"
    and "\<And>b. b < n \<Longrightarrow> blk q 34 b = qz_block_q8_0 (slice data (b * 32) ((b + 1) * 32))"
proof -
  let ?n = "length data div 32"
  have m: "length data mod 32 = 0" and q: "q = concat (map (\<lambda>b. qz_block_q8_0 (slice data (b * 32) ((b + 1) * 32))) [0..<?n])"
    using assms by (auto simp: quantize_q8_0_def block_consts internal_def split: if_splits)
  have "length data = ?n * 32" using m by (metis dvd_div_mult_self mod_eq_0_iff_dvd)
  moreover have "length q = ?n * 34" unfolding q by (rule length_concat_rows) simp
  moreover have "blk q 34 b = qz_block_q8_0 (slice data (b * 32) ((b + 1) * 32))" if "b < ?n" for b
    unfolding blk_def q using that by (intro slice_concat_rows) simp_all
  ultimately show thesis using that by blast
qed

subsection \<open>Properties\<close>

lemma dequantized_nth:
  assumes "length q = n * 34" and "dequantize_q8_0 q = Ok v" and "b < n" and "k < 32"
  shows "v ! (b * 32 + k) = dq_block_q8_0 (blk q 34 b) ! k"
  using assms q8_0.dequant_decoded [OF assms(1)] q8_0.nth_decoded [of b n k q] by simp

text \<open>
  \<open>dequantize_q8_0\<close> loses nothing: when the scale of block \<open>b\<close> is a finite half, value \<open>k\<close> of
  the block is exactly the scale times the signed quant byte.
\<close>

theorem dequantize_q8_0_exact:
  assumes "length q = n * 34" and "dequantize_q8_0 q = Ok v" and "b < n" and "k < 32"
    and "f16_finite (block_scale (blk q 34 b) 0)"
  shows "f32_int (v ! (b * 32 + k)) = f32_int (f16_to_f32 (block_scale (blk q 34 b) 0)) * sint (q ! (b * 34 + 2 + k))"
proof -
  have "Suc b * 34 \<le> n * 34" using assms(3) by (intro mult_le_mono1) simp
  then have "blk q 34 b ! (2 + k) = q ! (b * 34 + 2 + k)" and "length (blk q 34 b) = 34"
    using assms(1,4) by (simp_all add: blk_def add.assoc)
  with dq_block_q8_0_exact [OF assms(5,4)] show ?thesis
    by (simp add: dequantized_nth [OF assms(1-4)] f16_at_scale)
qed

theorem dequantize_q8_0_exact_witness:
  "f32_int (q8_0.decoded ([0x00, 0x3C] @ replicate 32 0x81) 1 ! (0 * 32 + 5))
   = f32_int (f16_to_f32 (block_scale (blk ([0x00, 0x3C] @ replicate 32 0x81) 34 0) 0))
     * sint (([0x00, 0x3C] @ replicate 32 0x81) ! (0 * 34 + 2 + 5) :: i8)"
proof (rule dequantize_q8_0_exact [where n = 1])
  show "dequantize_q8_0 ([0x00, 0x3C] @ replicate 32 0x81) = Ok (q8_0.decoded ([0x00, 0x3C] @ replicate 32 0x81) 1)"
    by (rule q8_0.dequant_decoded) simp
  show "f16_finite (block_scale (blk ([0x00, 0x3C] @ replicate 32 0x81) 34 0) 0)"
    by (simp add: block_scale_def blk_def le16_def f16_finite_def f16_exp_def)
qed simp_all

text \<open>
  \<open>dequantize_q6_k\<close> is exact: both roundings (scale times sub-scale, then times the 6-bit
  quant) are on representable values, so each weight is the integer product of the three.
\<close>

theorem dequantize_q6_k_exact:
  assumes "length q = n * 210" and "dequantize_q6_k q = Ok v" and "b < n"
    and "hf < 2" and "g < 4" and "l < 32" and "f16_finite (block_scale (blk q 210 b) 208)"
  shows "f32_int (v ! (b * 256 + (hf * 128 + (g * 32 + l)))) =
    f32_int (f16_to_f32 (block_scale (blk q 210 b) 208)) * sint (q6_scale (blk q 210 b) hf g l)
      * q6_quant (blk q 210 b) hf g l"
proof -
  have "hf * 128 + (g * 32 + l) < 256" using assms(4-6) by linarith
  then have "v ! (b * 256 + (hf * 128 + (g * 32 + l))) = dq_block_q6_k (blk q 210 b) ! (hf * 128 + (g * 32 + l))"
    using assms(2) q6_k.dequant_decoded [OF assms(1)] q6_k.nth_decoded [OF assms(3), of _ q] by auto
  then show ?thesis by (simp only: dq_block_q6_k_exact [OF assms(7,4-6)] f16_at_scale)
qed

theorem dequantize_q6_k_exact_witness:
  "f32_int (q6_k.decoded (replicate 209 1 @ [0x3C]) 1 ! (0 * 256 + (1 * 128 + (3 * 32 + 7)))) =
    f32_int (f16_to_f32 (block_scale (blk (replicate 209 1 @ [0x3C]) 210 0) 208))
      * sint (q6_scale (blk (replicate 209 1 @ [0x3C]) 210 0) 1 3 7) * q6_quant (blk (replicate 209 1 @ [0x3C]) 210 0) 1 3 7"
proof (rule dequantize_q6_k_exact [where n = 1])
  show "dequantize_q6_k (replicate 209 1 @ [0x3C]) = Ok (q6_k.decoded (replicate 209 1 @ [0x3C]) 1)"
    by (rule q6_k.dequant_decoded) simp
  show "f16_finite (block_scale (blk (replicate 209 1 @ [0x3C]) 210 0) 208)"
    by (simp add: block_scale_def blk_def nth_append le16_def f16_finite_def f16_exp_def)
qed simp_all

text \<open>
  C13: A Q4_K weight is the correctly rounded value of \<open>d * scale * nibble - dmin * min\<close>: the two
  products are exact, and one rounding to nearest is left.
\<close>

theorem dequantize_q4_k_rounded:
  assumes "length q = n * 144" and "dequantize_q4_k q = Ok v" and "b < n" and "sub < 8" and "l < 32"
    and "f16_finite (block_scale (blk q 144 b) 0)" and "f16_finite (block_scale (blk q 144 b) 2)"
    and "e = f32_int (f16_at (blk q 144 b) 0) * int (q4k_scale (blk q 144 b) sub) * int (q4k_nibble (blk q 144 b) sub l)
           - f32_int (f16_at (blk q 144 b) 2) * int (q4k_min (blk q 144 b) sub)"
    and "e \<noteq> 0"
  shows "v ! (b * 256 + (sub * 32 + l)) = f32_round (e < 0) (nat \<bar>e\<bar>) 0"
proof -
  let ?k = "blk q 144 b"
  have "sub * 32 + l < 256" using assms(4,5) by linarith
  then have "v ! (b * 256 + (sub * 32 + l)) = dq_block_q4_k ?k ! (sub * 32 + l)"
    using assms(2) q4_k.dequant_decoded [OF assms(1)] q4_k.nth_decoded [OF assms(3), of _ q] by auto
  also have "\<dots> = f32_sub (q4k_product ?k sub l) (q4k_offset ?k sub)"
    using assms(1,3-5) by (intro nth_dq_block_q4_k length_blk)
  also have "\<dots> = f32_round (e < 0) (nat \<bar>e\<bar>) 0"
  proof -
    have i: "f32_int (q4k_product ?k sub l) + f32_int (f32_neg (q4k_offset ?k sub)) = e"
      by (simp add: assms(8) q4k_product_exact(2) [OF assms(6)] q4k_offset_exact(2) [OF assms(7)])
    have "f32_finite (f32_neg (q4k_offset ?k sub))"
      using q4k_offset_exact(1) [OF assms(7), of sub] by (simp add: f32_finite_def)
    then show ?thesis
      using q4k_product_exact(1) [OF assms(6), of sub l] assms(9)
      by (simp add: f32_sub_def f32_add_def Let_def i del: f32_int_neg)
  qed
  finally show ?thesis .
qed

definition q4k_sample :: bytes where
  "q4k_sample = [0x00, 0x3C, 0x00, 0x3C] @ replicate 12 1 @ replicate 128 0x21"

theorem dequantize_q4_k_rounded_witness:
  "q4_k.decoded q4k_sample 1 ! (0 * 256 + (1 * 32 + 3)) = f32_round False (nat \<bar>2 ^ 149\<bar>) 0"
proof -
  have len: "length q4k_sample = 1 * 144" by (simp add: q4k_sample_def)
  have b: "blk q4k_sample 144 0 = q4k_sample" by (simp add: blk_def q4k_sample_def)
  have s: "block_scale q4k_sample 0 = 0x3C00" "block_scale q4k_sample 2 = 0x3C00"
    by (simp_all add: block_scale_def q4k_sample_def le16_def)
  have f: "f16_finite 0x3C00" by (simp add: f16_finite_def f16_exp_def)
  have v: "f32_int (f16_to_f32 0x3C00) = 2 ^ 149"
    by (simp add: f16_to_f32_exact(3) [OF f] f16_int_def f16_exp_def f16_mant_def f16_sign_def)
  have k: "q4k_scale q4k_sample 1 = 1" "q4k_min q4k_sample 1 = 1" "q4k_nibble q4k_sample 1 3 = 2"
    by (simp_all add: q4k_scale_def q4k_min_def q4k_nibble_def get_scale_min_k4_def q4k_sample_def slice_def nth_append)
  have "q4_k.decoded q4k_sample 1 ! (0 * 256 + (1 * 32 + 3)) = f32_round ((2 :: int) ^ 149 < 0) (nat \<bar>2 ^ 149\<bar>) 0"
    by (rule dequantize_q4_k_rounded [OF len q4_k.dequant_decoded [OF len]])
       (simp_all add: b s f k [unfolded One_nat_def] f16_at_scale v)
  then show ?thesis by simp
qed

text \<open>
  Encoding into Q8_0 accepts exactly the inputs whose length is a multiple of 32; each block
  becomes 34 bytes, its quants lie between -127 and 127, and the result decodes to as many values
  as were encoded.
\<close>

theorem quantize_q8_0_bytes:
  assumes "quantize_q8_0 data = Ok q"
  shows "\<exists>v. dequantize_q8_0 q = Ok v \<and> length v = length data \<and>
    (\<forall>b < length data div 32. \<forall>k < 32. \<bar>sint (blk q 34 b ! (2 + k))\<bar> \<le> 127)"
proof -
  obtain n where n: "length data = n * 32" "length q = n * 34"
    and blk: "\<And>b. b < n \<Longrightarrow> blk q 34 b = qz_block_q8_0 (slice data (b * 32) ((b + 1) * 32))"
    using quantize_q8_0_shape [OF assms] by blast
  have "\<bar>sint (blk q 34 b ! (2 + k))\<bar> \<le> 127" if "b < n" "k < 32" for b k
    using that by (simp add: blk qz_block_q8_0_def Let_def nth_append sint_q8_0_code)
  then show ?thesis
    using q8_0.dequant_decoded [OF n(2)] n(1) by (simp add: q8_0.length_decoded)
qed

theorem quantize_q8_0_bytes_witness:
  "\<exists>v. dequantize_q8_0 (qz_block_q8_0 (replicate 32 f32_one)) = Ok v \<and> length v = length (replicate 32 f32_one) \<and>
    (\<forall>b < length (replicate 32 f32_one) div 32. \<forall>k < 32.
      \<bar>sint (blk (qz_block_q8_0 (replicate 32 f32_one)) 34 b ! (2 + k))\<bar> \<le> 127)"
  by (rule quantize_q8_0_bytes) (simp add: quantize_q8_0_def block_consts)

end
