(* ===== verification/Reduction.thy ===== *)
theory Reduction
  imports F32
begin

text \<open>
  The canonical reduction of \<open>src/src/ops/quant.rs\<close>: eight accumulator lanes per chunk of 8192
  elements, a fixed pairwise tree over the lanes and one over the chunk sums. The loops are
  modelled as written (in-place tree, blocked hot loop and tail) and proved equal to the
  specification of the source comment: lane \<open>j\<close> accumulates, in increasing order, the elements
  whose index is \<open>j\<close> modulo eight.
\<close>

definition CANON_LANES :: nat where "CANON_LANES = 8"
definition CANON_CHUNK :: nat where "CANON_CHUNK = 8192"

subsection \<open>The in-place tree\<close>

definition tree_pass :: "f32 list \<Rightarrow> nat \<Rightarrow> f32 list" where
  "tree_pass part len =
     foldl (\<lambda>part t. let u = 2 * t in
        part[t := if u + 1 < len then f32_add (part ! u) (part ! (u + 1)) else part ! u])
       part [0..<(len + 1) div 2]"

function tree_loop :: "f32 list \<Rightarrow> nat \<Rightarrow> f32" where
  "tree_loop part len = (if 1 < len then tree_loop (tree_pass part len) ((len + 1) div 2) else part ! 0)"
  by auto
termination by (relation "measure snd") auto

declare tree_loop.simps [simp del]

definition fixed_tree :: "f32 list \<Rightarrow> f32" where
  "fixed_tree part = (if length part = 0 then 0 else tree_loop part (length part))"

text \<open>The tree as a function on lists.\<close>

fun pairs :: "f32 list \<Rightarrow> f32 list" where
  "pairs (x # y # r) = f32_add x y # pairs r"
| "pairs xs = xs"

lemma length_pairs [simp]: "length (pairs xs) = (length xs + 1) div 2"
  by (induction xs rule: pairs.induct) auto

function tree_sum :: "f32 list \<Rightarrow> f32" where
  "tree_sum xs = (case xs of [] \<Rightarrow> 0 | [x] \<Rightarrow> x | _ \<Rightarrow> tree_sum (pairs xs))"
  by auto
termination by (relation "measure length") auto

declare tree_sum.simps [simp del]

lemma tree_sum_Nil [simp]: "tree_sum [] = 0"
  by (subst tree_sum.simps) simp

lemma tree_sum_single [simp]: "tree_sum [x] = x"
  by (subst tree_sum.simps) simp

lemma tree_sum_step: "1 < length xs \<Longrightarrow> tree_sum xs = tree_sum (pairs xs)"
  by (subst tree_sum.simps) (auto split: list.splits)

lemma nth_pairs:
  "t < (length xs + 1) div 2 \<Longrightarrow> pairs xs ! t =
    (if 2 * t + 1 < length xs then f32_add (xs ! (2 * t)) (xs ! (2 * t + 1)) else xs ! (2 * t))"
proof (induction xs arbitrary: t rule: pairs.induct)
  case (1 x y r)
  then show ?case by (cases t) auto
qed auto

text \<open>
  Writing position \<open>t\<close> before reading \<open>2 t\<close> and \<open>2 t + 1\<close> is harmless: both lie at or after
  the positions still to be read.
\<close>

lemma tree_pass_prefix:
  assumes "len \<le> length part" and "h \<le> (len + 1) div 2"
  shows "foldl (\<lambda>part t. let u = 2 * t in
        part[t := if u + 1 < len then f32_add (part ! u) (part ! (u + 1)) else part ! u])
       part [0..<h] = take h (pairs (take len part)) @ drop h part"
  using assms(2)
proof (induction h)
  case 0
  then show ?case by simp
next
  case (Suc h)
  let ?p = "pairs (take len part)"
  let ?part = "take h ?p @ drop h part"
  have len: "length ?p = (len + 1) div 2" using assms(1) by simp
  have rd: "?part ! k = part ! k" if "h \<le> k" "k < length part" for k
    using that Suc.prems len by (simp add: nth_append min_def)
  have h2: "h \<le> 2 * h" "2 * h < len" using Suc.prems by auto
  have "(if 2 * h + 1 < len then f32_add (?part ! (2 * h)) (?part ! (2 * h + 1)) else ?part ! (2 * h))
        = ?p ! h"
    using h2 assms(1) Suc.prems rd [of "2 * h"] rd [of "2 * h + 1"] by (simp add: nth_pairs)
  moreover have "?part[h := ?p ! h] = take (Suc h) ?p @ drop (Suc h) part"
    using Suc.prems len assms(1) h2
    by (simp add: list_update_append take_Suc_conv_app_nth min_def Cons_nth_drop_Suc [symmetric])
  ultimately show ?case using Suc by (simp add: Let_def)
qed

lemma tree_loop_eq: "0 < len \<Longrightarrow> len \<le> length part \<Longrightarrow> tree_loop part len = tree_sum (take len part)"
proof (induction part len rule: tree_loop.induct)
  case (1 part len)
  show ?case
  proof (cases "1 < len")
    case True
    let ?h = "(len + 1) div 2"
    have pass: "tree_pass part len = pairs (take len part) @ drop ?h part"
      unfolding tree_pass_def using tree_pass_prefix [OF 1(3), of ?h] 1(3) by simp
    have "tree_loop part len = tree_loop (tree_pass part len) ?h"
      using True by (simp add: tree_loop.simps)
    also have "\<dots> = tree_sum (take ?h (tree_pass part len))"
      using True 1 by (intro "1.IH") (auto simp: pass)
    also have "take ?h (tree_pass part len) = pairs (take len part)"
      using 1(3) by (simp add: pass)
    finally show ?thesis using True 1(3) tree_sum_step [of "take len part"] by simp
  next
    case False
    with 1 have "len = 1" by simp
    with 1 show ?thesis by (cases part) (auto simp: tree_loop.simps)
  qed
qed

lemma fixed_tree_eq: "fixed_tree part = tree_sum part"
  using tree_loop_eq [of "length part" part] by (auto simp: fixed_tree_def)

subsection \<open>Chunks and dot products, as written\<close>

definition dot_step :: "f32 list \<Rightarrow> f32 list \<Rightarrow> nat \<Rightarrow> f32 list \<Rightarrow> nat \<Rightarrow> f32 list res" where
  "dot_step x w i lanes j = obind (oget x i) (\<lambda>a. obind (oget w i) (\<lambda>b.
     Ok (lanes[j := f32_add (lanes ! j) (f32_mul a b)])))"

definition canonical_chunk :: "f32 list \<Rightarrow> f32 list \<Rightarrow> f32 res" where
  "canonical_chunk x w =
     (let n = length x; full = n - n mod CANON_LANES in
      obind (oloop (\<lambda>lanes i. oloop (\<lambda>lanes j. dot_step x w (i + j) lanes j) [0..<CANON_LANES] lanes)
               (map (\<lambda>k. k * CANON_LANES) [0..<full div CANON_LANES]) (replicate CANON_LANES 0)) (\<lambda>lanes.
      obind (oloop (\<lambda>lanes i. dot_step x w i lanes (i mod CANON_LANES)) [full..<n] lanes) (\<lambda>lanes.
      Ok (fixed_tree lanes))))"

definition canonical_dot :: "f32 list \<Rightarrow> f32 list \<Rightarrow> nat \<Rightarrow> f32 res" where
  "canonical_dot x w n =
     (if n = 0 then Ok 0
      else if n \<le> CANON_CHUNK then
        obind (oslice x 0 n) (\<lambda>xs. obind (oslice w 0 n) (\<lambda>ws. canonical_chunk xs ws))
      else let nchunks = (n + CANON_CHUNK - 1) div CANON_CHUNK in
        omap fixed_tree
         (oloop (\<lambda>sums c. let s = c * CANON_CHUNK; e = min (s + CANON_CHUNK) n in
            obind (oslice x s e) (\<lambda>xs. obind (oslice w s e) (\<lambda>ws.
              omap (\<lambda>v. sums[c := v]) (canonical_chunk xs ws))))
           [0..<nchunks] (replicate nchunks 0)))"

definition canonical_combine :: "f32 list \<Rightarrow> f32" where
  "canonical_combine chunk_sums = fixed_tree chunk_sums"

definition sum_step :: "f32 list \<Rightarrow> nat \<Rightarrow> f32 list \<Rightarrow> nat \<Rightarrow> f32 list res" where
  "sum_step x i lanes j = obind (oget x i) (\<lambda>a. Ok (lanes[j := f32_add (lanes ! j) a]))"

definition canonical_chunk_sum :: "f32 list \<Rightarrow> f32 res" where
  "canonical_chunk_sum x =
     (let n = length x; full = n - n mod CANON_LANES in
      obind (oloop (\<lambda>lanes i. oloop (\<lambda>lanes j. sum_step x (i + j) lanes j) [0..<CANON_LANES] lanes)
               (map (\<lambda>k. k * CANON_LANES) [0..<full div CANON_LANES]) (replicate CANON_LANES 0)) (\<lambda>lanes.
      obind (oloop (\<lambda>lanes i. sum_step x i lanes (i mod CANON_LANES)) [full..<n] lanes) (\<lambda>lanes.
      Ok (fixed_tree lanes))))"

definition canonical_sum :: "f32 list \<Rightarrow> nat \<Rightarrow> f32 res" where
  "canonical_sum x n =
     (if n = 0 then Ok 0
      else if n \<le> CANON_CHUNK then obind (oslice x 0 n) canonical_chunk_sum
      else let nchunks = (n + CANON_CHUNK - 1) div CANON_CHUNK in
        omap fixed_tree
         (oloop (\<lambda>sums c. let s = c * CANON_CHUNK; e = min (s + CANON_CHUNK) n in
            obind (oslice x s e) (\<lambda>xs. omap (\<lambda>v. sums[c := v]) (canonical_chunk_sum xs)))
           [0..<nchunks] (replicate nchunks 0)))"

subsection \<open>The specification\<close>

text \<open>
  \<open>p i\<close> is the term contributed by element \<open>i\<close>: a rounded product for a dot, the element for a
  sum. \<open>lanes_over p is\<close> are the accumulators after the elements \<open>is\<close>.
\<close>

definition lane_add :: "(nat \<Rightarrow> f32) \<Rightarrow> f32 list \<Rightarrow> nat \<Rightarrow> f32 list" where
  "lane_add p lanes i = lanes[i mod CANON_LANES := f32_add (lanes ! (i mod CANON_LANES)) (p i)]"

definition lanes_over :: "(nat \<Rightarrow> f32) \<Rightarrow> nat list \<Rightarrow> f32 list" where
  "lanes_over p is = foldl (lane_add p) (replicate CANON_LANES 0) is"

definition lane_value :: "(nat \<Rightarrow> f32) \<Rightarrow> nat list \<Rightarrow> nat \<Rightarrow> f32" where
  "lane_value p is j = foldl f32_add 0 (map p (filter (\<lambda>i. i mod CANON_LANES = j) is))"

definition chunk_value :: "(nat \<Rightarrow> f32) \<Rightarrow> nat \<Rightarrow> nat \<Rightarrow> f32" where
  "chunk_value p a b = tree_sum (map (lane_value p [a..<b]) [0..<CANON_LANES])"

definition chunk_end :: "nat \<Rightarrow> nat \<Rightarrow> nat" where
  "chunk_end n c = min (c * CANON_CHUNK + CANON_CHUNK) n"

definition num_chunks :: "nat \<Rightarrow> nat" where
  "num_chunks n = (n + CANON_CHUNK - 1) div CANON_CHUNK"

definition dot_spec :: "(nat \<Rightarrow> f32) \<Rightarrow> nat \<Rightarrow> f32" where
  "dot_spec p n =
     tree_sum (map (\<lambda>c. chunk_value p (c * CANON_CHUNK) (chunk_end n c)) [0..<num_chunks n])"

definition dot_term :: "f32 list \<Rightarrow> f32 list \<Rightarrow> nat \<Rightarrow> f32" where
  "dot_term x w i = f32_mul (x ! i) (w ! i)"

subsection \<open>Lanes\<close>

lemma length_lane_add [simp]: "length (lane_add p l i) = length l"
  by (simp add: lane_add_def)

lemma length_foldl_lane_add [simp]: "length (foldl (lane_add p) l is) = length l"
  by (induction "is" arbitrary: l) auto

lemma length_lanes_over [simp]: "length (lanes_over p is) = CANON_LANES"
  by (simp add: lanes_over_def)

lemma foldl_lane_add_nth:
  assumes "j < CANON_LANES" and "length l = CANON_LANES"
  shows "foldl (lane_add p) l is ! j
         = foldl f32_add (l ! j) (map p (filter (\<lambda>i. i mod CANON_LANES = j) is))"
  using assms(2)
proof (induction "is" arbitrary: l)
  case Nil
  then show ?case by simp
next
  case (Cons i "is")
  have "foldl (lane_add p) (lane_add p l i) is ! j
        = foldl f32_add (lane_add p l i ! j) (map p (filter (\<lambda>i. i mod CANON_LANES = j) is))"
    using Cons by simp
  moreover have "lane_add p l i ! j = (if i mod CANON_LANES = j then f32_add (l ! j) (p i) else l ! j)"
    using assms(1) Cons.prems by (auto simp: lane_add_def)
  ultimately show ?case by simp
qed

lemma lanes_over_eq: "lanes_over p is = map (lane_value p is) [0..<CANON_LANES]"
  by (rule nth_equalityI) (simp_all add: lanes_over_def foldl_lane_add_nth lane_value_def)

lemma lane_add_cong: "p i = q i \<Longrightarrow> lane_add p l i = lane_add q l i"
  by (simp add: lane_add_def)

lemma foldl_lane_add_cong:
  "(\<And>i. i \<in> set is \<Longrightarrow> p i = q i) \<Longrightarrow> foldl (lane_add p) l is = foldl (lane_add q) l is"
  by (rule foldl_cong_set, rule lane_add_cong)

lemma lane_value_cong:
  "(\<And>i. i \<in> set is \<Longrightarrow> p i = q i) \<Longrightarrow> lane_value p is j = lane_value q is j"
  unfolding lane_value_def by (rule arg_cong [of _ _ "foldl f32_add 0"]) simp

lemma chunk_value_cong:
  assumes "\<And>i. a \<le> i \<Longrightarrow> i < b \<Longrightarrow> p i = q i"
  shows "chunk_value p a b = chunk_value q a b"
proof -
  have "lane_value p [a..<b] = lane_value q [a..<b]"
    using assms by (intro ext lane_value_cong) auto
  then show ?thesis by (simp add: chunk_value_def)
qed

lemma chunk_end_le [simp]: "chunk_end n c \<le> n"
  by (simp add: chunk_end_def)

lemma dot_spec_cong:
  assumes "\<And>i. i < n \<Longrightarrow> p i = q i"
  shows "dot_spec p n = dot_spec q n"
proof -
  have "chunk_value p (c * CANON_CHUNK) (chunk_end n c) = chunk_value q (c * CANON_CHUNK) (chunk_end n c)"
    for c
    by (rule chunk_value_cong) (meson chunk_end_le assms less_le_trans)
  then show ?thesis by (simp add: dot_spec_def)
qed

text \<open>The lane of an element is its index modulo eight, also relative to the start of a chunk.\<close>

lemma lane_value_shift:
  assumes "a mod CANON_LANES = 0"
  shows "lane_value (\<lambda>i. p (a + i)) [0..<n] j = lane_value p [a..<a + n] j"
proof -
  have "[a..<a + n] = map (\<lambda>i. a + i) [0..<n]" by (simp add: map_add_upt add.commute)
  moreover have "(a + i) mod CANON_LANES = i mod CANON_LANES" for i
    using assms mod_add_left_eq [of a CANON_LANES i] by simp
  ultimately show ?thesis by (simp add: lane_value_def filter_map comp_def)
qed

lemma chunk_value_shift:
  assumes "a mod CANON_LANES = 0" and "a \<le> b"
  shows "chunk_value (\<lambda>i. p (a + i)) 0 (b - a) = chunk_value p a b"
proof -
  have "lane_value (\<lambda>i. p (a + i)) [0..<b - a] = lane_value p [a..<b]"
    using assms by (intro ext) (simp add: lane_value_shift)
  then show ?thesis by (simp add: chunk_value_def)
qed

subsection \<open>The loops compute the specification\<close>

lemma chunk_loops:
  assumes step: "\<And>i l j. i < n \<Longrightarrow> step i l j = Ok (l[j := f32_add (l ! j) (p i)])"
  shows "(let full = n - n mod CANON_LANES in
      obind (oloop (\<lambda>l i. oloop (\<lambda>l j. step (i + j) l j) [0..<CANON_LANES] l)
               (map (\<lambda>k. k * CANON_LANES) [0..<full div CANON_LANES]) (replicate CANON_LANES 0)) (\<lambda>l.
      obind (oloop (\<lambda>l i. step i l (i mod CANON_LANES)) [full..<n] l) (\<lambda>l.
      Ok (fixed_tree l)))) = (Ok (chunk_value p 0 n) :: f32 res)"
proof -
  let ?m = "n div CANON_LANES"
  have full: "n - n mod CANON_LANES = ?m * CANON_LANES" by (simp add: minus_mod_eq_div_mult)
  have le: "?m * CANON_LANES \<le> n" by simp
  have pos: "0 < CANON_LANES" by (simp add: CANON_LANES_def)
  have inner: "oloop (\<lambda>l j. step (k * CANON_LANES + j) l j) [0..<CANON_LANES] l
      = Ok (foldl (lane_add p) l [k * CANON_LANES..<k * CANON_LANES + CANON_LANES])" if "k < ?m" for k l
  proof -
    have "Suc k * CANON_LANES \<le> ?m * CANON_LANES" using that by (intro mult_le_mono1) simp
    from order_trans [OF this le] have "k * CANON_LANES + CANON_LANES \<le> n" by (simp add: add.commute)
    then have "oloop (\<lambda>l j. step (k * CANON_LANES + j) l j) [0..<CANON_LANES] l
        = Ok (foldl (\<lambda>l j. lane_add p l (k * CANON_LANES + j)) l [0..<CANON_LANES])"
      by (intro oloop_Ok) (simp add: step lane_add_def)
    then show ?thesis by (simp only: foldl_shift)
  qed
  have hot: "oloop (\<lambda>l i. oloop (\<lambda>l j. step (i + j) l j) [0..<CANON_LANES] l)
      (map (\<lambda>k. k * CANON_LANES) [0..<?m]) l = Ok (foldl (lane_add p) l [0..<?m * CANON_LANES])" for l
  proof -
    have "oloop f (map g ks) s = oloop (\<lambda>s k. f s (g k)) ks s"
      for f :: "f32 list \<Rightarrow> nat \<Rightarrow> f32 list res" and g and ks :: "nat list" and s
      by (induction ks arbitrary: s) (auto intro: obind_cong)
    then have "oloop (\<lambda>l i. oloop (\<lambda>l j. step (i + j) l j) [0..<CANON_LANES] l)
        (map (\<lambda>k. k * CANON_LANES) [0..<?m]) l
      = oloop (\<lambda>l k. oloop (\<lambda>l j. step (k * CANON_LANES + j) l j) [0..<CANON_LANES] l) [0..<?m] l"
      by simp
    also have "\<dots> = Ok (foldl (\<lambda>l k. foldl (lane_add p) l [k * CANON_LANES..<k * CANON_LANES + CANON_LANES])
        l [0..<?m])"
      by (intro oloop_Ok inner) simp
    finally show ?thesis by (simp only: foldl_blocks)
  qed
  have tail: "oloop (\<lambda>l i. step i l (i mod CANON_LANES)) [?m * CANON_LANES..<n] l
      = Ok (foldl (lane_add p) l [?m * CANON_LANES..<n])" for l
    by (intro oloop_Ok) (simp add: step lane_add_def)
  have "foldl (lane_add p) (foldl (lane_add p) (replicate CANON_LANES 0) [0..<?m * CANON_LANES])
      [?m * CANON_LANES..<n] = lanes_over p [0..<n]"
    using upt_add_eq_append [of 0 "?m * CANON_LANES" "n - ?m * CANON_LANES"] le
    unfolding lanes_over_def foldl_append [symmetric] by simp
  moreover have "?m * CANON_LANES div CANON_LANES = ?m" using pos by simp
  ultimately show ?thesis
    unfolding Let_def full by (simp add: hot tail fixed_tree_eq lanes_over_eq chunk_value_def)
qed

lemma canonical_chunk_eq:
  "length x \<le> length w \<Longrightarrow> canonical_chunk x w = Ok (chunk_value (dot_term x w) 0 (length x))"
  using chunk_loops [of "length x" "dot_step x w" "dot_term x w"]
  by (simp add: canonical_chunk_def dot_step_def dot_term_def Let_def)

lemma canonical_chunk_sum_eq: "canonical_chunk_sum x = Ok (chunk_value (\<lambda>i. x ! i) 0 (length x))"
  using chunk_loops [of "length x" "sum_step x" "\<lambda>i. x ! i"]
  by (simp add: canonical_chunk_sum_def sum_step_def Let_def)

lemma chunk_aligned [simp]: "c * CANON_CHUNK mod CANON_LANES = 0"
  by (simp add: CANON_CHUNK_def CANON_LANES_def mod_mult_right_eq [symmetric])

lemma num_chunks_le:
  assumes "c < num_chunks n"
  shows "c * CANON_CHUNK < n"
proof -
  have "(c + 1) * CANON_CHUNK \<le> num_chunks n * CANON_CHUNK" using assms by (intro mult_le_mono1) simp
  also have "\<dots> \<le> n + CANON_CHUNK - 1" by (simp add: num_chunks_def)
  finally show ?thesis by (simp add: CANON_CHUNK_def)
qed

lemma chunk_end_ge: "c < num_chunks n \<Longrightarrow> c * CANON_CHUNK < chunk_end n c"
  using num_chunks_le [of c n] by (simp add: chunk_end_def CANON_CHUNK_def)

lemma num_chunks_small: "0 < n \<Longrightarrow> n \<le> CANON_CHUNK \<Longrightarrow> num_chunks n = 1"
  by (simp add: num_chunks_def CANON_CHUNK_def)

lemma num_chunks_0 [simp]: "num_chunks 0 = 0"
  by (simp add: num_chunks_def CANON_CHUNK_def)

text \<open>A chunk of a slice of two rows is the chunk of the rows.\<close>

lemma slice_chunk:
  assumes "a mod CANON_LANES = 0" and "a \<le> b" and "b \<le> length x" and "b \<le> length w"
  shows "canonical_chunk (slice x a b) (slice w a b) = Ok (chunk_value (dot_term x w) a b)"
proof -
  have "canonical_chunk (slice x a b) (slice w a b)
      = Ok (chunk_value (dot_term (slice x a b) (slice w a b)) 0 (b - a))"
    using assms by (simp add: canonical_chunk_eq)
  also have "chunk_value (dot_term (slice x a b) (slice w a b)) 0 (b - a)
      = chunk_value (\<lambda>i. dot_term x w (a + i)) 0 (b - a)"
    using assms by (intro chunk_value_cong) (simp add: dot_term_def)
  finally show ?thesis by (simp only: chunk_value_shift [OF assms(1,2)])
qed

lemma slice_chunk_sum:
  assumes "a mod CANON_LANES = 0" and "a \<le> b" and "b \<le> length x"
  shows "canonical_chunk_sum (slice x a b) = Ok (chunk_value (\<lambda>i. x ! i) a b)"
proof -
  have "chunk_value (\<lambda>i. slice x a b ! i) 0 (b - a) = chunk_value (\<lambda>i. x ! (a + i)) 0 (b - a)"
    using assms by (intro chunk_value_cong) simp
  then show ?thesis
    using assms by (simp only: canonical_chunk_sum_eq length_slice chunk_value_shift [OF assms(1,2)])
qed

theorem canonical_dot_eq:
  assumes "n \<le> length x" and "n \<le> length w"
  shows "canonical_dot x w n = Ok (dot_spec (dot_term x w) n)"
proof (cases "n \<le> CANON_CHUNK")
  case True
  show ?thesis
  proof (cases "n = 0")
    case False
    have "canonical_chunk (take n x) (take n w) = Ok (chunk_value (dot_term x w) 0 n)"
      using slice_chunk [of 0 n x w] assms by simp
    moreover have "num_chunks n = 1" using True False by (simp add: num_chunks_small)
    ultimately show ?thesis
      using True False assms by (simp add: canonical_dot_def dot_spec_def chunk_end_def)
  qed (simp add: canonical_dot_def dot_spec_def)
next
  case False
  have "oloop (\<lambda>sums c. let s = c * CANON_CHUNK; e = min (s + CANON_CHUNK) n in
            obind (oslice x s e) (\<lambda>xs. obind (oslice w s e) (\<lambda>ws.
              omap (\<lambda>v. sums[c := v]) (canonical_chunk xs ws))))
           [0..<num_chunks n] (replicate (num_chunks n) 0)
      = Ok (foldl (\<lambda>sums c. sums[c := chunk_value (dot_term x w) (c * CANON_CHUNK) (chunk_end n c)])
           (replicate (num_chunks n) 0) [0..<num_chunks n])"
  proof (rule oloop_Ok)
    fix sums c assume "c \<in> set [0..<num_chunks n]"
    then have lt: "c * CANON_CHUNK < chunk_end n c" by (simp add: chunk_end_ge)
    have le: "chunk_end n c \<le> length x" "chunk_end n c \<le> length w"
      using assms by (meson chunk_end_le le_trans)+
    show "(let s = c * CANON_CHUNK; e = min (s + CANON_CHUNK) n in
            obind (oslice x s e) (\<lambda>xs. obind (oslice w s e) (\<lambda>ws.
              omap (\<lambda>v. sums[c := v]) (canonical_chunk xs ws))))
      = Ok (sums[c := chunk_value (dot_term x w) (c * CANON_CHUNK) (chunk_end n c)])"
      using lt le by (simp add: Let_def chunk_end_def [symmetric] slice_chunk)
  qed
  then show ?thesis
    using False unfolding canonical_dot_def Let_def num_chunks_def [symmetric]
    by (cases "n = 0") (simp_all add: fixed_tree_eq dot_spec_def foldl_update_all)
qed

theorem canonical_sum_eq:
  assumes "n \<le> length x"
  shows "canonical_sum x n = Ok (dot_spec (\<lambda>i. x ! i) n)"
proof (cases "n \<le> CANON_CHUNK")
  case True
  show ?thesis
  proof (cases "n = 0")
    case False
    have "canonical_chunk_sum (take n x) = Ok (chunk_value (\<lambda>i. x ! i) 0 n)"
      using slice_chunk_sum [of 0 n x] assms by simp
    moreover have "num_chunks n = 1" using True False by (simp add: num_chunks_small)
    ultimately show ?thesis
      using True False assms by (simp add: canonical_sum_def dot_spec_def chunk_end_def)
  qed (simp add: canonical_sum_def dot_spec_def)
next
  case False
  have "oloop (\<lambda>sums c. let s = c * CANON_CHUNK; e = min (s + CANON_CHUNK) n in
            obind (oslice x s e) (\<lambda>xs. omap (\<lambda>v. sums[c := v]) (canonical_chunk_sum xs)))
           [0..<num_chunks n] (replicate (num_chunks n) 0)
      = Ok (foldl (\<lambda>sums c. sums[c := chunk_value (\<lambda>i. x ! i) (c * CANON_CHUNK) (chunk_end n c)])
           (replicate (num_chunks n) 0) [0..<num_chunks n])"
  proof (rule oloop_Ok)
    fix sums c assume "c \<in> set [0..<num_chunks n]"
    then have lt: "c * CANON_CHUNK < chunk_end n c" by (simp add: chunk_end_ge)
    have le: "chunk_end n c \<le> length x" using assms by (meson chunk_end_le le_trans)
    show "(let s = c * CANON_CHUNK; e = min (s + CANON_CHUNK) n in
            obind (oslice x s e) (\<lambda>xs. omap (\<lambda>v. sums[c := v]) (canonical_chunk_sum xs)))
      = Ok (sums[c := chunk_value (\<lambda>i. x ! i) (c * CANON_CHUNK) (chunk_end n c)])"
      using lt le by (simp add: Let_def chunk_end_def [symmetric] slice_chunk_sum)
  qed
  then show ?thesis
    using False unfolding canonical_sum_def Let_def num_chunks_def [symmetric]
    by (cases "n = 0") (simp_all add: fixed_tree_eq dot_spec_def foldl_update_all)
qed

text \<open>Multiplying every element by one, as \<open>canonical_dot\<close> with unit weights does, is exact.\<close>

lemma lane_add_mul_one: "lane_add (\<lambda>i. f32_mul (f i) f32_one) l i = lane_add f l i"
  by (simp add: lane_add_def f32_add_mul_one)

lemma chunk_value_mul_one: "chunk_value (\<lambda>i. f32_mul (f i) f32_one) a b = chunk_value f a b"
proof -
  have "lanes_over (\<lambda>i. f32_mul (f i) f32_one) [a..<b] = lanes_over f [a..<b]"
    unfolding lanes_over_def by (rule foldl_cong_set) (rule lane_add_mul_one)
  then show ?thesis by (simp only: chunk_value_def lanes_over_eq)
qed

lemma dot_spec_ones: "dot_spec (\<lambda>i. f32_mul (f i) f32_one) n = dot_spec f n"
  by (simp add: dot_spec_def chunk_value_mul_one)

text \<open>
  Any evaluation order of the chunks: a scheduler that fills in the chunk sums in some order,
  each exactly as \<open>canonical_chunk\<close> computes it, then combines them in index order.
\<close>

definition scheduled_dot :: "f32 list \<Rightarrow> f32 list \<Rightarrow> nat \<Rightarrow> nat list \<Rightarrow> f32 res" where
  "scheduled_dot x w n order = omap canonical_combine
     (oloop (\<lambda>sums c. obind (oslice x (c * CANON_CHUNK) (chunk_end n c)) (\<lambda>xs.
        obind (oslice w (c * CANON_CHUNK) (chunk_end n c)) (\<lambda>ws.
          omap (\<lambda>v. sums[c := v]) (canonical_chunk xs ws))))
      order (replicate (num_chunks n) 0))"

lemma scheduled_dot_eq:
  assumes "n \<le> length x" and "n \<le> length w" and "set order = {..<num_chunks n}"
  shows "scheduled_dot x w n order = Ok (dot_spec (dot_term x w) n)"
proof -
  have "oloop (\<lambda>sums c. obind (oslice x (c * CANON_CHUNK) (chunk_end n c)) (\<lambda>xs.
        obind (oslice w (c * CANON_CHUNK) (chunk_end n c)) (\<lambda>ws.
          omap (\<lambda>v. sums[c := v]) (canonical_chunk xs ws))))
      order (replicate (num_chunks n) 0)
    = Ok (foldl (\<lambda>sums c. sums[c := chunk_value (dot_term x w) (c * CANON_CHUNK) (chunk_end n c)])
        (replicate (num_chunks n) 0) order)"
  proof (rule oloop_Ok)
    fix sums c assume "c \<in> set order"
    then have lt: "c * CANON_CHUNK < chunk_end n c" using assms(3) by (simp add: chunk_end_ge)
    have "chunk_end n c \<le> length x" "chunk_end n c \<le> length w"
      using assms(1,2) by (meson chunk_end_le le_trans)+
    then show "obind (oslice x (c * CANON_CHUNK) (chunk_end n c)) (\<lambda>xs.
        obind (oslice w (c * CANON_CHUNK) (chunk_end n c)) (\<lambda>ws.
          omap (\<lambda>v. sums[c := v]) (canonical_chunk xs ws)))
      = Ok (sums[c := chunk_value (dot_term x w) (c * CANON_CHUNK) (chunk_end n c)])"
      using lt by (simp add: slice_chunk)
  qed
  then show ?thesis
    using assms(3)
    by (simp add: scheduled_dot_def foldl_update_any canonical_combine_def fixed_tree_eq dot_spec_def)
qed

lemma canonical_dot_Panic: "0 < n \<Longrightarrow> length x < n \<Longrightarrow> n \<le> CANON_CHUNK \<Longrightarrow> canonical_dot x w n = Panic"
  by (simp add: canonical_dot_def oslice_def)

subsection \<open>Properties\<close>

text \<open>
  C4: On rows that are long enough, \<open>canonical_dot\<close> returns the value of the published
  definition: per chunk of 8192 elements, lane \<open>j\<close> accumulates in increasing order the products of
  the elements whose index is \<open>j\<close> modulo 8, the lanes are combined by the pairwise tree, and so
  are the chunk sums.
\<close>

theorem canonical_dot_lane_tree:
  assumes "n \<le> length x" and "n \<le> length w"
  shows "canonical_dot x w n = Ok (tree_sum (map (\<lambda>c. tree_sum (map (\<lambda>j.
      foldl f32_add 0 (map (\<lambda>i. f32_mul (x ! i) (w ! i))
        (filter (\<lambda>i. i mod 8 = j) [c * 8192..<min (c * 8192 + 8192) n]))) [0..<8]))
    [0..<(n + 8191) div 8192]))"
  using canonical_dot_eq [OF assms]
  by (simp add: dot_spec_def chunk_value_def lane_value_def [abs_def] add.commute [of n] dot_term_def [abs_def] chunk_end_def num_chunks_def
      CANON_LANES_def CANON_CHUNK_def del: upt_rec_numeral)

theorem canonical_dot_lane_tree_witness:
  "canonical_dot [0x40000000, 0x3F800000] [0x40400000, 0x3F800000] 2 = Ok (tree_sum (map (\<lambda>c. tree_sum (map (\<lambda>j.
      foldl f32_add 0 (map (\<lambda>i. f32_mul ([0x40000000, 0x3F800000] ! i) ([0x40400000, 0x3F800000] ! i))
        (filter (\<lambda>i. i mod 8 = j) [c * 8192..<min (c * 8192 + 8192) 2]))) [0..<8]))
    [0..<(2 + 8191) div 8192]))"
  by (rule canonical_dot_lane_tree) simp_all

text \<open>
  The order in which the chunks are evaluated cannot change a bit of the result: any
  sequence of chunk numbers that mentions every chunk, each combined in index order afterwards
  (\<open>canonical_combine\<close>), gives \<open>canonical_dot\<close>.
\<close>

theorem chunk_order_irrelevant:
  assumes "n \<le> length x" and "n \<le> length w" and "set order = {..<num_chunks n}"
  shows "scheduled_dot x w n order = canonical_dot x w n"
  using assms by (simp add: scheduled_dot_eq canonical_dot_eq)

theorem chunk_order_irrelevant_witness:
  "scheduled_dot (replicate 16385 f32_one) (replicate 16385 f32_one) 16385 [2, 0, 1]
   = canonical_dot (replicate 16385 f32_one) (replicate 16385 f32_one) 16385"
proof (rule chunk_order_irrelevant)
  have "num_chunks 16385 = 3" by (simp add: num_chunks_def CANON_CHUNK_def)
  then show "set [2, 0, 1] = {..<num_chunks 16385}" by auto
qed simp_all

text \<open>
  \<open>canonical_sum\<close>, which softmax uses, is bit-identical to \<open>canonical_dot\<close> against a row
  of ones: multiplying by one is exact for every \<open>f32\<close>, infinities and NaNs included.
\<close>

theorem canonical_sum_is_unit_dot:
  assumes "n \<le> length x"
  shows "canonical_sum x n = canonical_dot x (replicate n f32_one) n"
proof -
  have "dot_spec (dot_term x (replicate n f32_one)) n = dot_spec (\<lambda>i. f32_mul (x ! i) f32_one) n"
    by (rule dot_spec_cong) (simp add: dot_term_def)
  then show ?thesis using assms by (simp add: canonical_sum_eq canonical_dot_eq dot_spec_ones)
qed

theorem canonical_sum_is_unit_dot_witness:
  "canonical_sum [f32_infinity, f32_nan, 0x3F800000] 3
   = canonical_dot [f32_infinity, f32_nan, 0x3F800000] (replicate 3 f32_one) 3"
  by (rule canonical_sum_is_unit_dot) simp

text \<open>
  The in-place reduction tree, which overwrites the buffer it reads from, computes the
  pairwise tree of the original buffer, for every length.
\<close>

theorem fixed_tree_in_place: "fixed_tree part = tree_sum part"
  by (rule fixed_tree_eq)

end
