(* ===== verification/Fused.thy ===== *)
theory Fused
  imports Quant Reduction
begin

text \<open>
  The fused dequantise-and-dot kernels of \<open>src/src/ops/quant.rs\<close> for one weight row
  (\<open>canonical_dot_q4k_fused\<close>, \<open>q6k_fused_f32_dot\<close>): they decode a super-block into a buffer,
  feed the lanes, and close a chunk every 32 super-blocks. They are proved equal to decoding the
  row and taking the canonical dot product.
\<close>

definition supers_per_chunk :: nat where
  "supers_per_chunk = CANON_CHUNK div Q4_K_BLOCK_NUMEL"

text \<open>The Q4_K decoding of the fused kernel: two zipped passes per group of 64.\<close>

definition fused_q4k_iter :: "bytes \<Rightarrow> nat \<Rightarrow> nat \<Rightarrow> f32 list" where
  "fused_q4k_iter w off it =
     (let d = f16_at w off; dmin = f16_at w (off + 2); scales = slice w (off + 4) (off + 16);
          qs = slice w (off + 16) (off + Q4_K_BLOCK_BYTES); is = 2 * it; q_off = 32 * it;
          (sc1, m1) = get_scale_min_k4 is scales;
          (sc2, m2) = get_scale_min_k4 (is + 1) scales;
          d1 = f32_mul d (f32_of_u8 sc1); m1f = f32_mul dmin (f32_of_u8 m1);
          d2 = f32_mul d (f32_of_u8 sc2); m2f = f32_mul dmin (f32_of_u8 m2);
          qsl = slice qs q_off (q_off + 32) in
      map (\<lambda>q. f32_sub (f32_mul d1 (f32_of_u8 (q AND 0x0F))) m1f) qsl
      @ map (\<lambda>q. f32_sub (f32_mul d2 (f32_of_u8 (drop_bit 4 q))) m2f) qsl)"

definition fused_q4k_buf :: "bytes \<Rightarrow> nat \<Rightarrow> f32 list" where
  "fused_q4k_buf w off = concat (map (fused_q4k_iter w off) [0..<4])"

text \<open>
  One super-block: the lanes take \<open>avail\<close> products, then the chunk is closed on its boundary or
  at the end of the row. The state is the lanes and the chunk sums so far.
\<close>

definition fused_lanes :: "f32 list \<Rightarrow> f32 list \<Rightarrow> nat \<Rightarrow> nat \<Rightarrow> f32 list \<Rightarrow> f32 list res" where
  "fused_lanes x buf base avail lanes =
     obind (oslice x base (base + avail)) (\<lambda>xs. let bs = take avail buf in
     obind (oloop (\<lambda>lanes k. oloop (\<lambda>lanes j. dot_step xs bs (k * CANON_LANES + j) lanes j)
              [0..<CANON_LANES] lanes) [0..<avail div CANON_LANES] lanes) (\<lambda>lanes.
     oloop (\<lambda>lanes t. obind (oget x (base + t)) (\<lambda>a. obind (oget buf t) (\<lambda>b.
        Ok (lanes[t mod CANON_LANES := f32_add (lanes ! (t mod CANON_LANES)) (f32_mul a b)]))))
       [avail - avail mod CANON_LANES..<avail] lanes))"

definition fused_block :: "f32 list \<Rightarrow> nat \<Rightarrow> (nat \<Rightarrow> f32 list) \<Rightarrow> f32 list \<times> f32 list \<Rightarrow> nat
    \<Rightarrow> (f32 list \<times> f32 list) res" where
  "fused_block x n buf_of st b =
     (let (lanes, chunk_sums) = st; base = b * 256; avail = min 256 (n - base) in
      obind (fused_lanes x (buf_of b) base avail lanes) (\<lambda>lanes.
        if (b + 1) mod supers_per_chunk = 0 \<or> n \<le> base + avail
        then Ok (replicate CANON_LANES 0, chunk_sums @ [fixed_tree lanes])
        else Ok (lanes, chunk_sums)))"

text \<open>\<open>for b in 0..n_super\<close>, left by \<open>break\<close> at the first block past the row.\<close>

definition fused_row :: "f32 list \<Rightarrow> nat \<Rightarrow> (nat \<Rightarrow> f32 list) \<Rightarrow> nat \<Rightarrow> f32 res" where
  "fused_row x n buf_of n_super =
     omap (\<lambda>(lanes, chunk_sums). fixed_tree chunk_sums)
       (oloop (fused_block x n buf_of) (takeWhile (\<lambda>b. b * 256 < n) [0..<n_super])
         (replicate CANON_LANES 0, []))"

definition canonical_dot_q4k_fused :: "f32 list \<Rightarrow> bytes \<Rightarrow> nat \<Rightarrow> f32 res" where
  "canonical_dot_q4k_fused x w n =
     (if length w mod Q4_K_BLOCK_BYTES \<noteq> 0 then internal ''Q4_K byte length not a multiple of 144''
      else if n = 0 then Ok 0
      else fused_row x n (\<lambda>b. fused_q4k_buf w (b * Q4_K_BLOCK_BYTES)) (length w div Q4_K_BLOCK_BYTES))"

definition q6k_fused_f32_dot :: "f32 list \<Rightarrow> bytes \<Rightarrow> nat \<Rightarrow> f32 res" where
  "q6k_fused_f32_dot x w n =
     (if length w mod Q6_K_BLOCK_BYTES \<noteq> 0 then internal ''Q6_K byte length not a multiple of 210''
      else if n = 0 then Ok 0
      else let n_super = length w div Q6_K_BLOCK_BYTES in
        if n_super * Q6_K_BLOCK_NUMEL < n then internal ''Q6_K row shorter than n''
        else fused_row x n (\<lambda>b. dq_block_q6_k (blk w Q6_K_BLOCK_BYTES b)) n_super)"

subsection \<open>The lanes of one super-block\<close>

lemma lanes_const [simp]: "CANON_LANES = 8" "supers_per_chunk = 32" "CANON_CHUNK = 8192"
  by (simp_all add: CANON_LANES_def supers_per_chunk_def CANON_CHUNK_def block_consts)

lemma fused_lanes_eq:
  assumes "base mod 8 = 0" and "base + avail \<le> length x" and "avail \<le> length buf"
    and p: "\<And>t. t < avail \<Longrightarrow> p (base + t) = f32_mul (x ! (base + t)) (buf ! t)"
  shows "fused_lanes x buf base avail lanes = Ok (foldl (lane_add p) lanes [base..<base + avail])"
proof -
  let ?xs = "slice x base (base + avail)" and ?bs = "take avail buf"
  let ?g = "\<lambda>l t. lane_add p l (base + t)"
  let ?m = "avail div 8"
  have lane: "(base + t) mod 8 = t mod 8" for t using assms(1) by (metis add_0 mod_add_left_eq)
  have m: "?m * 8 \<le> avail" by simp
  have hot: "oloop (\<lambda>lanes j. dot_step ?xs ?bs (k * 8 + j) lanes j) [0..<8] l
      = Ok (foldl ?g l [k * 8..<k * 8 + 8])" if k: "k < ?m" for k l
  proof -
    have "Suc k * 8 \<le> ?m * 8" using k by (intro mult_le_mono1) simp
    from order_trans [OF this m] have le: "k * 8 + 8 \<le> avail" by simp
    have "oloop (\<lambda>lanes j. dot_step ?xs ?bs (k * 8 + j) lanes j) [0..<8] l
        = Ok (foldl (\<lambda>l j. ?g l (k * 8 + j)) l [0..<8])"
    proof (rule oloop_Ok)
      fix l :: "f32 list" and j :: nat
      assume "j \<in> set [0..<8]"
      then have j: "j < 8" by simp
      have i: "k * 8 + j < avail" using j le by simp
      have "(base + (k * 8 + j)) mod 8 = j" using lane [of "k * 8 + j"] j by simp
      then show "dot_step ?xs ?bs (k * 8 + j) l j = Ok (?g l (k * 8 + j))"
        using i assms(2,3) p [of "k * 8 + j"] by (simp add: dot_step_def lane_add_def)
    qed
    then show ?thesis using foldl_shift [where f = ?g and a = "k * 8" and s = l and n = 8] by simp
  qed
  have blocks: "oloop (\<lambda>lanes k. oloop (\<lambda>lanes j. dot_step ?xs ?bs (k * 8 + j) lanes j) [0..<8] lanes)
      [0..<?m] lanes = Ok (foldl ?g lanes [0..<?m * 8])"
    unfolding foldl_blocks [symmetric] by (rule oloop_Ok) (simp add: hot)
  have tail: "oloop (\<lambda>lanes t. obind (oget x (base + t)) (\<lambda>a. obind (oget buf t) (\<lambda>b.
        Ok (lanes[t mod 8 := f32_add (lanes ! (t mod 8)) (f32_mul a b)])))) [?m * 8..<avail] l
      = Ok (foldl ?g l [?m * 8..<avail])" for l
    using assms(2,3) by (intro oloop_Ok) (simp add: lane_add_def lane p)
  have "foldl ?g (foldl ?g lanes [0..<?m * 8]) [?m * 8..<avail] = foldl ?g lanes [0..<avail]"
    using upt_add_eq_append [of 0 "?m * 8" "avail - ?m * 8"] unfolding foldl_append [symmetric] by simp
  also have "\<dots> = foldl (lane_add p) lanes [base..<base + avail]" by (rule foldl_shift)
  finally show ?thesis
    using assms(2) unfolding fused_lanes_def
    by (simp add: Let_def minus_mod_eq_div_mult blocks tail)
qed

subsection \<open>The whole row\<close>

text \<open>The state after the first \<open>k\<close> super-blocks.\<close>

definition row_state :: "(nat \<Rightarrow> f32) \<Rightarrow> nat \<Rightarrow> nat \<Rightarrow> f32 list \<times> f32 list" where
  "row_state p n k =
     (if n \<le> k * 256
      then (replicate 8 0, map (\<lambda>c. chunk_value p (c * 8192) (chunk_end n c)) [0..<num_chunks n])
      else (foldl (lane_add p) (replicate 8 0) [k div 32 * 8192..<k * 256],
            map (\<lambda>c. chunk_value p (c * 8192) (chunk_end n c)) [0..<k div 32]))"

lemma chunk_value_tree:
  "fixed_tree (foldl (lane_add p) (replicate 8 0) [a..<b]) = chunk_value p a b"
  using lanes_over_eq [of p "[a..<b]"]
  by (simp add: fixed_tree_eq chunk_value_def lanes_over_def)

lemma num_chunks_eqI: "c * 8192 < n \<Longrightarrow> n \<le> c * 8192 + 8192 \<Longrightarrow> num_chunks n = Suc c"
  unfolding num_chunks_def by (intro div_nat_eqI) simp_all

lemma fused_block_step:
  assumes k: "k * 256 < n" and x: "n \<le> length x" and buf: "length (buf_of k) = 256"
    and p: "\<And>t. t < 256 \<Longrightarrow> k * 256 + t < n \<Longrightarrow> p (k * 256 + t) = f32_mul (x ! (k * 256 + t)) (buf_of k ! t)"
  shows "fused_block x n buf_of (row_state p n k) k = Ok (row_state p n (Suc k))"
proof -
  let ?c = "k div 32" and ?e = "min (Suc k * 256) n"
  define avail where "avail = min 256 (n - k * 256)"
  have e: "k * 256 + avail = ?e" using k by (simp add: avail_def)
  have ck: "?c * 8192 \<le> k * 256" "k * 256 < ?c * 8192 + 8192"
    using div_mult_mod_eq [of k 32] by linarith+
  have lanes: "fused_lanes x (buf_of k) (k * 256) avail (foldl (lane_add p) (replicate 8 0) [?c * 8192..<k * 256])
      = Ok (foldl (lane_add p) (replicate 8 0) [?c * 8192..<?e])"
  proof -
    have "fused_lanes x (buf_of k) (k * 256) avail (foldl (lane_add p) (replicate 8 0) [?c * 8192..<k * 256])
       = Ok (foldl (lane_add p) (foldl (lane_add p) (replicate 8 0) [?c * 8192..<k * 256])
           [k * 256..<k * 256 + avail])"
    proof (rule fused_lanes_eq)
      show "k * 256 mod 8 = 0" by (simp add: mod_eq_0_iff_dvd)
      show "k * 256 + avail \<le> length x" using x e by (simp only: min.coboundedI2)
      show "avail \<le> length (buf_of k)" by (simp add: buf avail_def)
      show "p (k * 256 + t) = f32_mul (x ! (k * 256 + t)) (buf_of k ! t)" if "t < avail" for t
        using that e by (intro p) (simp_all add: avail_def less_diff_conv add.commute)
    qed
    moreover have "[?c * 8192..<k * 256] @ [k * 256..<?e] = [?c * 8192..<?e]"
      using ck(1) e upt_add_eq_append [of "?c * 8192" "k * 256" avail] by simp
    ultimately show ?thesis unfolding e foldl_append [symmetric] by (simp only:)
  qed
  have st: "row_state p n k = (foldl (lane_add p) (replicate 8 0) [?c * 8192..<k * 256],
      map (\<lambda>c. chunk_value p (c * 8192) (chunk_end n c)) [0..<?c])"
    using k by (simp add: row_state_def)
  have body: "fused_block x n buf_of (row_state p n k) k =
      (if Suc k mod 32 = 0 \<or> n \<le> ?e
       then Ok (replicate 8 0, map (\<lambda>c. chunk_value p (c * 8192) (chunk_end n c)) [0..<?c]
              @ [chunk_value p (?c * 8192) ?e])
       else Ok (foldl (lane_add p) (replicate 8 0) [?c * 8192..<?e],
              map (\<lambda>c. chunk_value p (c * 8192) (chunk_end n c)) [0..<?c]))"
    unfolding fused_block_def st Let_def prod.case avail_def [symmetric] e lanes
    by (simp add: chunk_value_tree)
  consider (last) "n \<le> Suc k * 256" | (closed) "Suc k * 256 < n" "Suc k mod 32 = 0"
    | (inside) "Suc k * 256 < n" "Suc k mod 32 \<noteq> 0" by linarith
  then show ?thesis
  proof cases
    case last
    then have "?e = n" by simp
    have "Suc k \<le> ?c * 32 + 32"
      using div_mult_mod_eq [of k 32] mod_less_divisor [of 32 k, OF zero_less_numeral] by linarith
    then have "Suc k * 256 \<le> ?c * 8192 + 8192" by simp
    then have "num_chunks n = Suc ?c" "chunk_end n ?c = n"
      using last ck k by (intro num_chunks_eqI, simp_all add: chunk_end_def)
    then show ?thesis unfolding body \<open>?e = n\<close> using last by (simp add: row_state_def)
  next
    case closed
    have sk: "Suc k = 32 * Suc ?c"
      using closed(2) by (metis Suc_div_eq_add3_div_numeral div_Suc mod_Suc mult_div_mod_eq add_0_right nat.distinct(1))
    then have d: "Suc k div 32 = Suc ?c" by simp
    have e': "?e = Suc ?c * 8192" using closed(1) sk by simp
    then have "chunk_end n ?c = ?e" using closed(1) by (simp add: chunk_end_def)
    moreover have "Suc k * 256 = Suc ?c * 8192" using sk by simp
    ultimately show ?thesis
      unfolding body using closed by (simp add: row_state_def d)
  next
    case inside
    have d: "Suc k div 32 = ?c" using inside(2) by (simp add: div_Suc)
    have "?e = Suc k * 256" using inside(1) by simp
    then show ?thesis unfolding body using inside by (simp add: row_state_def d)
  qed
qed

lemma takeWhile_snoc: "\<not> P y \<Longrightarrow> takeWhile P (xs @ [y]) = takeWhile P xs"
  by (induction xs) auto

lemma takeWhile_upt: "takeWhile (\<lambda>b. b * 256 < n) [0..<m] = [0..<min m ((n + 255) div 256)]"
proof (induction m)
  case 0
  then show ?case by simp
next
  case (Suc m)
  show ?case
  proof (cases "m * 256 < n")
    case True
    then have "m < (n + 255) div 256" using div_le_mono [of "Suc m * 256" "n + 255" 256] by simp
    moreover have "\<forall>b \<in> set [0..<m]. b * 256 < n" using True by auto
    ultimately show ?thesis using True by (simp add: takeWhile_append2 min_def)
  next
    case False
    then have "(n + 255) div 256 \<le> m" by linarith
    then have "min (Suc m) ((n + 255) div 256) = min m ((n + 255) div 256)" by simp
    moreover have "takeWhile (\<lambda>b. b * 256 < n) ([0..<m] @ [m]) = takeWhile (\<lambda>b. b * 256 < n) [0..<m]"
      using False by (intro takeWhile_snoc) simp
    ultimately show ?thesis using Suc by simp
  qed
qed

lemma fused_row_eq:
  assumes n: "0 < n" and x: "n \<le> length x" and cover: "n \<le> n_super * 256"
    and buf: "\<And>b. b < n_super \<Longrightarrow> length (buf_of b) = 256"
    and p: "\<And>i. i < n \<Longrightarrow> p i = f32_mul (x ! i) (buf_of (i div 256) ! (i mod 256))"
  shows "fused_row x n buf_of n_super = Ok (dot_spec p n)"
proof -
  define nb where "nb = (n + 255) div 256"
  have nb: "nb \<le> n_super" "n \<le> nb * 256" using cover by (simp_all add: nb_def)
  have tw: "takeWhile (\<lambda>b. b * 256 < n) [0..<n_super] = [0..<nb]"
    using nb(1) by (simp add: takeWhile_upt nb_def)
  have loop: "oloop (fused_block x n buf_of) [0..<k] (row_state p n 0) = Ok (row_state p n k)" if "k \<le> nb" for k
    using that
  proof (induction k)
    case 0
    then show ?case by simp
  next
    case (Suc k)
    then have "k * 256 < n" by (simp add: nb_def)
    moreover have "k < n_super" using Suc.prems nb(1) by simp
    ultimately have "fused_block x n buf_of (row_state p n k) k = Ok (row_state p n (Suc k))"
      using x buf by (intro fused_block_step) (simp_all add: p)
    then show ?case using Suc by (simp add: oloop_append)
  qed
  have "row_state p n 0 = (replicate 8 0, [])" using n by (simp add: row_state_def)
  with loop [of nb] have "oloop (fused_block x n buf_of) [0..<nb] (replicate 8 0, []) = Ok (row_state p n nb)"
    by simp
  then show ?thesis
    using nb(2) by (simp add: fused_row_def tw row_state_def fixed_tree_eq dot_spec_def)
qed

subsection \<open>The kernels\<close>

lemma fused_q4k_buf_eq:
  assumes "off + 144 \<le> length w"
  shows "fused_q4k_buf w off = dq_block_q4_k (slice w off (off + 144))"
proof -
  have "fused_q4k_iter w off it = dq_q4k_iter (slice w off (off + 144)) it" if "it < 4" for it
  proof -
    let ?q = "slice w off (off + 144)"
    have at: "f16_at w off = f16_at ?q 0" "f16_at w (off + 2) = f16_at ?q 2"
      using assms by (simp_all add: f16_at_def numeral_3_eq_3)
    have sc: "slice w (off + 4) (off + 16) = slice ?q 4 16" and qs: "slice w (off + 16) (off + 144) = slice ?q 16 144"
      using assms by (simp_all add: slice_slice)
    have it: "32 * it + 32 \<le> 128" using that by simp
    have "slice (slice ?q 16 144) (32 * it) (32 * it + 32) = map (\<lambda>l. slice ?q 16 144 ! (32 * it + l)) [0..<32]"
      using it assms by (subst slice_conv_nth) simp_all
    then show ?thesis
      unfolding fused_q4k_iter_def dq_q4k_iter_def Let_def at sc qs block_consts by (simp add: comp_def)
  qed
  then show ?thesis
    unfolding fused_q4k_buf_def dq_block_q4_k_def by (intro arg_cong [of _ _ concat] map_cong) auto
qed

lemma canonical_dot_q4k_fused_eq:
  assumes w: "length w = m * 144" and x: "n \<le> length x" and n: "n \<le> m * 256"
  shows "canonical_dot_q4k_fused x w n = Ok (dot_spec (dot_term x (q4_k.decoded w m)) n)"
proof (cases "n = 0")
  case True
  then show ?thesis using w by (simp add: canonical_dot_q4k_fused_def block_consts dot_spec_def)
next
  case False
  have "fused_q4k_buf w (b * 144) = dq_block_q4_k (blk w 144 b)" if "b < m" for b
  proof -
    have "Suc b * 144 \<le> m * 144" using that by (intro mult_le_mono1) simp
    then show ?thesis using w by (simp add: fused_q4k_buf_eq blk_def)
  qed
  then have "fused_row x n (\<lambda>b. fused_q4k_buf w (b * 144)) m = Ok (dot_spec (dot_term x (q4_k.decoded w m)) n)"
    using False x n by (intro fused_row_eq)
      (simp_all add: dot_term_def q4_k.nth_decoded_div less_mult_imp_div_less)
  then show ?thesis using False w by (simp add: canonical_dot_q4k_fused_def block_consts)
qed

lemma q6k_fused_f32_dot_eq:
  assumes w: "length w = m * 210" and x: "n \<le> length x" and n: "n \<le> m * 256"
  shows "q6k_fused_f32_dot x w n = Ok (dot_spec (dot_term x (q6_k.decoded w m)) n)"
proof (cases "n = 0")
  case True
  then show ?thesis using w by (simp add: q6k_fused_f32_dot_def block_consts dot_spec_def)
next
  case False
  have "fused_row x n (\<lambda>b. dq_block_q6_k (blk w 210 b)) m = Ok (dot_spec (dot_term x (q6_k.decoded w m)) n)"
    using False x n by (intro fused_row_eq)
      (simp_all add: dot_term_def q6_k.nth_decoded_div less_mult_imp_div_less)
  then show ?thesis using False w n by (simp add: q6k_fused_f32_dot_def block_consts Let_def)
qed

text \<open>A Q6_K row that is too short is refused; a short Q4_K row is not, and its weights are lost.\<close>

lemma q6k_short_row:
  "length w = m * 210 \<Longrightarrow> m * 256 < n \<Longrightarrow> q6k_fused_f32_dot x w n = Err (Internal ''Q6_K row shorter than n'')"
  by (simp add: q6k_fused_f32_dot_def block_consts internal_def Let_def)

lemma q4k_short_row:
  assumes w: "length w = m * 144" and m: "m < 32" and n: "m * 256 < n" and x: "n \<le> length x"
  shows "canonical_dot_q4k_fused x w n = Ok 0"
proof -
  let ?buf = "\<lambda>b. fused_q4k_buf w (b * 144)"
  have len: "length (?buf b) = 256" if "b < m" for b
  proof -
    have "Suc b * 144 \<le> m * 144" using that by (intro mult_le_mono1) simp
    then show ?thesis using w by (simp add: fused_q4k_buf_eq)
  qed
  define p where "p i = f32_mul (x ! i) (?buf (i div 256) ! (i mod 256))" for i
  have tw: "takeWhile (\<lambda>b. b * 256 < n) [0..<m] = [0..<m]"
    using n by (simp add: takeWhile_eq_all_conv less_trans [OF mult_less_mono1])
  have loop: "oloop (fused_block x n ?buf) [0..<k] (row_state p n 0) = Ok (row_state p n k)" if "k \<le> m" for k
    using that
  proof (induction k)
    case 0
    then show ?case by simp
  next
    case (Suc k)
    have "k * 256 < n" using n Suc.prems by simp
    then have "fused_block x n ?buf (row_state p n k) k = Ok (row_state p n (Suc k))"
      using x len Suc.prems by (intro fused_block_step) (simp_all add: p_def)
    then show ?case using Suc by (simp add: oloop_append)
  qed
  have "row_state p n 0 = (replicate 8 0, [])" using n by (simp add: row_state_def)
  with loop [of m] have "oloop (fused_block x n ?buf) [0..<m] (replicate 8 0, []) = Ok (row_state p n m)"
    by simp
  moreover have "snd (row_state p n m) = []" using n m by (simp add: row_state_def)
  ultimately have "fused_row x n ?buf m = Ok 0"
    by (cases "row_state p n m") (simp add: fused_row_def tw fixed_tree_eq)
  then show ?thesis using w n by (simp add: canonical_dot_q4k_fused_def block_consts)
qed

subsection \<open>Properties\<close>

text \<open>
  C1: The fused Q4_K kernel is bit-identical to decoding the row and taking the canonical dot
  product, for any row length the weights cover: also past one chunk (8192 elements) and for
  lengths that are not multiples of a super-block or of the lane count.
\<close>

theorem q4k_fused_is_dequant_dot:
  assumes "dequantize_q4_k w = Ok w_f32" and "n \<le> length w_f32" and "n \<le> length x"
  shows "canonical_dot_q4k_fused x w n = canonical_dot x w_f32 n"
proof -
  have "length w mod 144 = 0" using assms(1) by (auto simp: dequantize_q4_k_def internal_def block_consts split: if_splits)
  then obtain m where m: "length w = m * 144" by (metis dvd_div_mult_self mod_eq_0_iff_dvd)
  then have w: "w_f32 = q4_k.decoded w m" using assms(1) q4_k.dequant_decoded [OF m] by simp
  then have "n \<le> m * 256" using assms(2) by (simp add: q4_k.length_decoded)
  then show ?thesis
    using canonical_dot_q4k_fused_eq [OF m assms(3)] canonical_dot_eq [OF assms(3,2)] by (simp add: w)
qed

theorem q4k_fused_is_dequant_dot_witness:
  "canonical_dot_q4k_fused (replicate 300 f32_one) (replicate 288 0x55) 300
   = canonical_dot (replicate 300 f32_one) (q4_k.decoded (replicate 288 0x55) 2) 300"
proof (rule q4k_fused_is_dequant_dot)
  show "dequantize_q4_k (replicate 288 0x55) = Ok (q4_k.decoded (replicate 288 0x55) 2)"
    by (rule q4_k.dequant_decoded) simp
qed (simp_all add: q4_k.length_decoded)

text \<open>
  The fused Q6_K kernel is bit-identical to decode-then-dot where the weights cover the row,
  and refuses a row they do not cover.
\<close>

theorem q6k_fused_is_dequant_dot:
  assumes "dequantize_q6_k w = Ok w_f32" and "n \<le> length x"
  shows "q6k_fused_f32_dot x w n =
    (if n \<le> length w_f32 then canonical_dot x w_f32 n else Err (Internal ''Q6_K row shorter than n''))"
proof -
  have "length w mod 210 = 0" using assms(1) by (auto simp: dequantize_q6_k_def internal_def block_consts split: if_splits)
  then obtain m where m: "length w = m * 210" by (metis dvd_div_mult_self mod_eq_0_iff_dvd)
  then have w: "w_f32 = q6_k.decoded w m" using assms(1) q6_k.dequant_decoded [OF m] by simp
  show ?thesis
    using q6k_fused_f32_dot_eq [OF m assms(2)] canonical_dot_eq [OF assms(2), of w_f32] q6k_short_row [OF m, of n x]
    by (auto simp: w q6_k.length_decoded)
qed

theorem q6k_fused_is_dequant_dot_witness:
  "q6k_fused_f32_dot (replicate 256 f32_one) (replicate 210 0x55) 256 =
    (if 256 \<le> length (q6_k.decoded (replicate 210 0x55) 1)
     then canonical_dot (replicate 256 f32_one) (q6_k.decoded (replicate 210 0x55) 1) 256
     else Err (Internal ''Q6_K row shorter than n''))"
proof (rule q6k_fused_is_dequant_dot)
  show "dequantize_q6_k (replicate 210 0x55) = Ok (q6_k.decoded (replicate 210 0x55) 1)"
    by (rule q6_k.dequant_decoded) simp
qed simp

text \<open>
  C14: Unlike its Q6_K counterpart, the fused Q4_K kernel does not notice weights that stop short of
  the row: with fewer than 32 super-blocks the partial chunk is never closed and the result is
  \<open>Ok 0\<close>, whatever the weights and activations are.
\<close>

theorem q4k_fused_short_row:
  assumes "length w = m * 144" and "m < 32" and "m * 256 < n" and "n \<le> length x"
  shows "canonical_dot_q4k_fused x w n = Ok 0"
  using assms by (rule q4k_short_row)

theorem q4k_fused_short_row_witness:
  "canonical_dot_q4k_fused (replicate 512 f32_one) (replicate 144 0x55) 512 = Ok 0"
  by (rule q4k_fused_short_row [where m = 1]) simp_all

end
