(* ===== verification/IntDot.thy ===== *)
theory IntDot
  imports Quant Reduction
begin

text \<open>
  The integer kernels of \<open>src/src/ops/quant.rs\<close>: activations quantised to \<open>i8\<close> in blocks of
  256 (\<open>Q8Block\<close>), the 32-element dot pair in its scalar and NEON forms, and the Q4_K and Q6_K
  block dots. \<open>i32\<close> accumulators are 32-bit words whose additions wrap; the lemmas show that they
  never do, so that the sums are the exact integer sums, whatever the order.
\<close>

definition i32_of_u8 :: "u8 \<Rightarrow> i32" where "i32_of_u8 b = ucast b"
definition i32_of_i8 :: "i8 \<Rightarrow> i32" where "i32_of_i8 b = scast b"
definition f32_of_i32 :: "i32 \<Rightarrow> f32" where "f32_of_i32 w = f32_of_int (sint w)"

record Q8Block =
  q8_d :: f32
  q8_qs :: "i8 list"
  q8_bsums :: "i32 list"

subsection \<open>Quantising activations\<close>

definition q8_amax :: "f32 list \<Rightarrow> f32" where
  "q8_amax x = foldl (\<lambda>amax v. let a = (if f32_lt v 0 then f32_neg v else v) in
     if f32_lt amax a then a else amax) 0 x"

definition q8_code :: "f32 \<Rightarrow> f32 \<Rightarrow> int" where
  "q8_code iv v = (let scaled = f32_mul v iv; bias = (if f32_le 0 scaled then f32_half else f32_mhalf) in
     clamp (f32_to_i32 (f32_add scaled bias)) (-127) 127)"

definition q8_store :: "(nat \<Rightarrow> int) \<Rightarrow> i8 list \<times> i32 list \<Rightarrow> nat \<Rightarrow> (i8 list \<times> i32 list) res" where
  "q8_store q st i = (let (qs, bsums) = st in
     obind (oset qs i (word_of_int (q i))) (\<lambda>qs.
     obind (oget bsums (i div 32)) (\<lambda>s.
     obind (oset bsums (i div 32) (s + word_of_int (q i))) (\<lambda>bsums. Ok (qs, bsums)))))"

definition quantize_block_q8 :: "f32 list \<Rightarrow> Q8Block res" where
  "quantize_block_q8 x =
     (let d = f32_div (q8_amax x) f32_127; iv = inverse_scale d in
      omap (\<lambda>(qs, bsums). \<lparr>q8_d = d, q8_qs = qs, q8_bsums = bsums\<rparr>)
       (oloop (q8_store (\<lambda>i. q8_code iv (x ! i))) [0..<length x] (replicate 256 0, replicate 8 0)))"

subsection \<open>Dot pairs\<close>

definition dot32_pair_scalar :: "u8 list \<Rightarrow> i8 list \<Rightarrow> i8 list \<Rightarrow> i32 \<times> i32" where
  "dot32_pair_scalar qsl xlo xhi =
     foldl (\<lambda>(s_lo, s_hi) ((qb, xl), xh).
        (s_lo + i32_of_u8 (qb AND 0x0F) * i32_of_i8 xl,
         s_hi + i32_of_u8 (drop_bit 4 qb) * i32_of_i8 xh))
      (0, 0) (zip (zip qsl xlo) xhi)"

text \<open>
  The NEON lanes: a widening \<open>i8\<close> multiply into eight \<open>i16\<close> lanes, a pairwise add of those into
  four \<open>i32\<close> lanes, and the sum across lanes.
\<close>

definition vmull_s8 :: "i8 list \<Rightarrow> i8 list \<Rightarrow> u16 list" where
  "vmull_s8 a b = map (\<lambda>i. scast (a ! i) * scast (b ! i)) [0..<8]"

definition vpadalq_s16 :: "i32 list \<Rightarrow> u16 list \<Rightarrow> i32 list" where
  "vpadalq_s16 acc v = map (\<lambda>i. acc ! i + (scast (v ! (2 * i)) + scast (v ! (2 * i + 1)))) [0..<4]"

definition vaddvq_s32 :: "i32 list \<Rightarrow> i32" where
  "vaddvq_s32 acc = foldl (+) 0 acc"

definition neon_acc :: "i32 list \<Rightarrow> i8 list \<Rightarrow> i8 list \<Rightarrow> i32 list" where
  "neon_acc acc n x = vpadalq_s16 (vpadalq_s16 acc (vmull_s8 (take 8 n) (take 8 x)))
     (vmull_s8 (drop 8 n) (drop 8 x))"

definition dot32_pair_neon :: "u8 list \<Rightarrow> i8 list \<Rightarrow> i8 list \<Rightarrow> i32 \<times> i32" where
  "dot32_pair_neon qsl xlo xhi =
     (let (acc_lo, acc_hi) = foldl (\<lambda>(acc_lo, acc_hi) k.
        let q = slice qsl (k * 16) (k * 16 + 16);
            xl = slice xlo (k * 16) (k * 16 + 16); xh = slice xhi (k * 16) (k * 16 + 16) in
        (neon_acc acc_lo (map (\<lambda>b. b AND 0x0F) q) xl, neon_acc acc_hi (map (drop_bit 4) q) xh))
       (replicate 4 0, replicate 4 0) [0..<2] in
      (vaddvq_s32 acc_lo, vaddvq_s32 acc_hi))"

definition dot32_pair :: "bool \<Rightarrow> u8 list \<Rightarrow> i8 list \<Rightarrow> i8 list \<Rightarrow> i32 \<times> i32" where
  "dot32_pair aarch64 = (if aarch64 then dot32_pair_neon else dot32_pair_scalar)"

subsection \<open>Block dots\<close>

text \<open>\<open>pair\<close> is the dot pair of the target: scalar or NEON.\<close>

type_synonym dot_pair = "u8 list \<Rightarrow> i8 list \<Rightarrow> i8 list \<Rightarrow> i32 \<times> i32"

definition q4k_half_sums :: "dot_pair \<Rightarrow> bytes \<Rightarrow> Q8Block \<Rightarrow> nat \<Rightarrow> nat \<Rightarrow> i32 \<times> i32" where
  "q4k_half_sums pair qs xq n hf =
     (let q_off = hf * 32; base = hf * 64 in
      if base + 64 \<le> n then
        pair (slice qs q_off (q_off + 32)) (slice (q8_qs xq) base (base + 32))
          (slice (q8_qs xq) (base + 32) (base + 64))
      else foldl (\<lambda>(s_lo, s_hi) l.
        let idx_lo = base + l; idx_hi = base + 32 + l in
        (if idx_lo < n then s_lo + i32_of_u8 (qs ! (q_off + l) AND 0x0F) * i32_of_i8 (q8_qs xq ! idx_lo) else s_lo,
         if idx_hi < n then s_hi + i32_of_u8 (drop_bit 4 (qs ! (q_off + l))) * i32_of_i8 (q8_qs xq ! idx_hi) else s_hi))
       (0, 0) [0..<32])"

definition q4k_accs :: "dot_pair \<Rightarrow> bytes \<Rightarrow> Q8Block \<Rightarrow> nat \<Rightarrow> i32 \<times> i32" where
  "q4k_accs pair w xq n =
     (let scales = slice w 4 16; qs = slice w 16 Q4_K_BLOCK_BYTES in
      foldl (\<lambda>(acc, acc_m) hf.
        let (sc_lo, m_lo) = get_scale_min_k4 (hf * 2) scales;
            (sc_hi, m_hi) = get_scale_min_k4 (hf * 2 + 1) scales;
            (s_lo, s_hi) = q4k_half_sums pair qs xq n hf in
        (acc + (i32_of_u8 sc_lo * s_lo + i32_of_u8 sc_hi * s_hi),
         acc_m + (i32_of_u8 m_lo * q8_bsums xq ! (hf * 2) + i32_of_u8 m_hi * q8_bsums xq ! (hf * 2 + 1))))
       (0, 0) [0..<4])"

definition dot_q4k_q8_block :: "dot_pair \<Rightarrow> bytes \<Rightarrow> Q8Block \<Rightarrow> nat \<Rightarrow> f32" where
  "dot_q4k_q8_block pair w xq n =
     (let d = f16_at w 0; dmin = f16_at w 2; (acc, acc_m) = q4k_accs pair w xq n in
      f32_sub (f32_mul (f32_mul d (q8_d xq)) (f32_of_i32 acc))
              (f32_mul (f32_mul dmin (q8_d xq)) (f32_of_i32 acc_m)))"

subsection \<open>Words as integers\<close>

lemma i32_of_u8_int: "i32_of_u8 b = of_int (int (unat b))"
  unfolding i32_of_u8_def by (simp add: word_unat_eq_iff unat_ucast_le unat_of_nat unat_u8 less_trans [OF unat_u8])

lemma i32_of_i8_int: "i32_of_i8 b = of_int (sint b)"
  by (simp add: i32_of_i8_def)

lemma sint_of_int_i32: "\<bar>k\<bar> < 2 ^ 31 \<Longrightarrow> sint (of_int k :: i32) = k"
  unfolding sint_sbintrunc' by (rule signed_take_bit_int_eq_self) (simp_all add: abs_less_iff)

definition lo_dot :: "u8 list \<Rightarrow> i8 list \<Rightarrow> int" where
  "lo_dot qs x = sum_list (map2 (\<lambda>q x. int (unat q mod 16) * sint x) qs x)"

definition hi_dot :: "u8 list \<Rightarrow> i8 list \<Rightarrow> int" where
  "hi_dot qs x = sum_list (map2 (\<lambda>q x. int (unat q div 16) * sint x) qs x)"

lemma scalar_fold:
  assumes "length xlo = length qsl" and "length xhi = length qsl"
  shows "foldl (\<lambda>(s_lo, s_hi) ((qb, xl), xh).
        (s_lo + i32_of_u8 (qb AND 0x0F) * i32_of_i8 xl,
         s_hi + i32_of_u8 (drop_bit 4 qb) * i32_of_i8 xh)) (a, b) (zip (zip qsl xlo) xhi)
    = (a + of_int (lo_dot qsl xlo), b + of_int (hi_dot qsl xhi))"
  using assms
proof (induction qsl arbitrary: xlo xhi a b)
  case Nil
  then show ?case by (simp add: lo_dot_def hi_dot_def)
next
  case (Cons q qsl)
  obtain xl xlo' xh xhi' where "xlo = xl # xlo'" "xhi = xh # xhi'"
    using Cons.prems by (cases xlo; cases xhi) auto
  then show ?case
    using Cons by (simp add: lo_dot_def hi_dot_def i32_of_u8_int i32_of_i8_int unat_nibble add.assoc)
qed

lemma dot32_pair_scalar_eq:
  assumes "length xlo = length qsl" and "length xhi = length qsl"
  shows "dot32_pair_scalar qsl xlo xhi = (of_int (lo_dot qsl xlo), of_int (hi_dot qsl xhi))"
  using scalar_fold [OF assms, of 0 0] by (simp add: dot32_pair_scalar_def)

text \<open>A nibble times an \<open>i8\<close> fits a 16-bit lane, so the widened product is the product.\<close>

lemma nibble_product:
  fixes n x :: i8
  assumes "unat n < 16"
  shows "scast (scast n * scast x :: u16) = (of_int (int (unat n) * sint x) :: i32)"
proof -
  have n: "sint n = int (unat n)"
  proof -
    have "n = of_int (int (unat n))" by simp
    then have "sint n = sint (word_of_int (int (unat n)) :: i8)" by simp
    also have "\<dots> = int (unat n)" by (rule sint_small_i8) (use assms in linarith)+
    finally show ?thesis .
  qed
  have "\<bar>int (unat n) * sint x\<bar> \<le> 15 * 128"
    unfolding abs_mult by (rule mult_mono) (use assms sint_i8_abs [of x] in linarith)+
  then have "sint (of_int (int (unat n) * sint x) :: u16) = int (unat n) * sint x"
    unfolding sint_sbintrunc' by (intro signed_take_bit_int_eq_self) (simp_all add: abs_le_iff)
  moreover have "(scast n * scast x :: u16) = of_int (int (unat n) * sint x)"
    by (simp only: of_int_mult n [symmetric]) simp
  moreover have "scast w = (of_int (sint w) :: i32)" for w :: u16 by simp
  ultimately show ?thesis by (simp only:)
qed

lemma four: "length xs = 4 \<Longrightarrow> \<exists>a b c d. xs = [a, b, c, d]"
  by (auto simp: numeral_eq_Suc length_Suc_conv)

lemma vaddvq_vpadalq:
  assumes "length acc = 4"
  shows "vaddvq_s32 (vpadalq_s16 acc v) = vaddvq_s32 acc + (\<Sum>i<8. scast (v ! i))"
proof -
  obtain a b c d where acc: "acc = [a, b, c, d]" using four [OF assms] by blast
  have e: "{..<8 :: nat} = {0, 1, 2, 3, 4, 5, 6, 7}" by auto
  have l: "[0..<4] = [0, 1, 2, 3 :: nat]" by (simp add: upt_rec)
  show ?thesis unfolding acc vpadalq_s16_def vaddvq_s32_def l e
    by (simp add: algebra_simps eval_nat_numeral)
qed

lemma vaddvq_neon_acc:
  assumes "length acc = 4" and "length n = 16" and "length x = 16" and "\<And>i. i < 16 \<Longrightarrow> unat (n ! i) < 16"
  shows "vaddvq_s32 (neon_acc acc n x) = vaddvq_s32 acc + of_int (\<Sum>i<16. int (unat (n ! i)) * sint (x ! i))"
proof -
  let ?t = "\<lambda>i. int (unat (n ! i)) * sint (x ! i)"
  have lo: "(\<Sum>i<8. scast (vmull_s8 (take 8 n) (take 8 x) ! i)) = (of_int (\<Sum>i<8. ?t i) :: i32)"
    unfolding of_int_sum by (rule sum.cong) (simp_all add: vmull_s8_def nibble_product assms del: of_int_mult)
  have hi: "(\<Sum>i<8. scast (vmull_s8 (drop 8 n) (drop 8 x) ! i)) = (of_int (\<Sum>i<8. ?t (8 + i)) :: i32)"
    unfolding of_int_sum by (rule sum.cong) (simp_all add: vmull_s8_def nibble_product assms del: of_int_mult)
  have "(\<Sum>i<16. ?t i) = (\<Sum>i<8. ?t i) + (\<Sum>i<8. ?t (8 + i))"
    using sum.atLeastLessThan_concat [of 0 8 16 ?t] sum.shift_bounds_nat_ivl [of ?t 0 8 8]
    by (simp add: lessThan_atLeast0 add.commute)
  moreover have "length (vpadalq_s16 acc v) = 4" for v by (simp add: vpadalq_s16_def)
  ultimately show ?thesis
    unfolding neon_acc_def using assms(1) by (simp add: vaddvq_vpadalq lo hi)
qed

lemma neon_acc_length [simp]: "length (neon_acc acc n x) = 4"
  by (simp add: neon_acc_def vpadalq_s16_def)

lemma sum_list_map2_split:
  fixes f :: "'a \<Rightarrow> 'b \<Rightarrow> int"
  assumes "length q = 32" and "length x = 32"
  shows "sum_list (map2 f q x) = (\<Sum>i<16. f (q ! i) (x ! i)) + (\<Sum>i<16. f (q ! (16 + i)) (x ! (16 + i)))"
proof -
  have "sum_list (map2 f q x) = (\<Sum>i<32. f (q ! i) (x ! i))"
    using assms by (simp add: sum_list_sum_nth lessThan_atLeast0)
  also have "\<dots> = (\<Sum>i<16. f (q ! i) (x ! i)) + (\<Sum>i<16. f (q ! (16 + i)) (x ! (16 + i)))"
    using sum.atLeastLessThan_concat [of 0 16 32 "\<lambda>i. f (q ! i) (x ! i)"]
      sum.shift_bounds_nat_ivl [of "\<lambda>i. f (q ! i) (x ! i)" 0 16 16]
    by (simp add: lessThan_atLeast0 add.commute)
  finally show ?thesis .
qed

lemma dot32_pair_neon_eq:
  assumes "length qsl = 32" and "length xlo = 32" and "length xhi = 32"
  shows "dot32_pair_neon qsl xlo xhi = (of_int (lo_dot qsl xlo), of_int (hi_dot qsl xhi))"
proof -
  have two: "[0..<2] = [0, 1 :: nat]" by (simp add: upt_rec)
  have z: "vaddvq_s32 (replicate 4 0) = 0" by (simp add: vaddvq_s32_def eval_nat_numeral)
  show ?thesis
    unfolding dot32_pair_neon_def two Let_def lo_dot_def hi_dot_def
      sum_list_map2_split [OF assms(1,2)] sum_list_map2_split [OF assms(1,3)]
    using assms by (simp add: vaddvq_neon_acc z nibble_less nibble_less [unfolded unat_nibble] unat_nibble del: slice_0)
qed

subsection \<open>The Q4_K block dot is an exact integer sum\<close>

definition exact_pair :: "dot_pair \<Rightarrow> bool" where
  "exact_pair pair \<longleftrightarrow> (\<forall>qsl xlo xhi. length qsl = 32 \<longrightarrow> length xlo = 32 \<longrightarrow> length xhi = 32 \<longrightarrow>
     pair qsl xlo xhi = (of_int (lo_dot qsl xlo), of_int (hi_dot qsl xhi)))"

lemma exact_pair_scalar: "exact_pair dot32_pair_scalar"
  by (simp add: exact_pair_def dot32_pair_scalar_eq)

lemma exact_pair_neon: "exact_pair dot32_pair_neon"
  by (simp add: exact_pair_def dot32_pair_neon_eq)

text \<open>Sub-block \<open>j\<close> of 32, cut at the first \<open>n\<close> elements of the block.\<close>

definition sub_dot :: "bytes \<Rightarrow> i8 list \<Rightarrow> nat \<Rightarrow> nat \<Rightarrow> int" where
  "sub_dot w xs n j = (\<Sum>l<32. if j * 32 + l < n then int (q4k_nibble w j l) * sint (xs ! (j * 32 + l)) else 0)"

definition wf_q8 :: "Q8Block \<Rightarrow> bool" where
  "wf_q8 xq \<longleftrightarrow> length (q8_qs xq) = 256 \<and> length (q8_bsums xq) = 8 \<and>
     (\<forall>j<8. q8_bsums xq ! j = of_int (\<Sum>l<32. sint (q8_qs xq ! (j * 32 + l))))"

lemma guarded_fold:
  fixes f g :: "nat \<Rightarrow> i32"
  shows "foldl (\<lambda>(a, b) l. (if P l then a + f l else a, if Q l then b + g l else b)) (a, b) [0..<m]
    = (a + (\<Sum>l<m. if P l then f l else 0), b + (\<Sum>l<m. if Q l then g l else 0))"
  by (induction m) (auto simp: add.assoc)

lemma pair_fold:
  fixes f g :: "nat \<Rightarrow> i32"
  shows "foldl (\<lambda>(a, b) l. (a + f l, b + g l)) (a, b) [0..<m] = (a + (\<Sum>l<m. f l), b + (\<Sum>l<m. g l))"
  using guarded_fold [of "\<lambda>_. True" f "\<lambda>_. True" g a b m] by simp

lemma q4k_nibble_pair:
  assumes "length w = 144" and "hf < 4" and "l < 32"
  shows "unat (slice w 16 144 ! (hf * 32 + l)) mod 16 = q4k_nibble w (2 * hf) l"
    and "unat (slice w 16 144 ! (hf * 32 + l)) div 16 = q4k_nibble w (2 * hf + 1) l"
proof -
  have s: "slice w 16 144 ! (hf * 32 + l) = w ! (16 + 32 * hf + l)"
    using assms by (simp add: mult.commute add.assoc)
  have m: "(2 * hf + 1) mod 2 = 1" "(2 * hf + 1) div 2 = hf" by simp_all
  show "unat (slice w 16 144 ! (hf * 32 + l)) mod 16 = q4k_nibble w (2 * hf) l"
    unfolding s q4k_nibble_def Let_def by simp
  show "unat (slice w 16 144 ! (hf * 32 + l)) div 16 = q4k_nibble w (2 * hf + 1) l"
    unfolding s q4k_nibble_def Let_def m by simp
qed

lemma q4k_half_sums_eq:
  assumes pair: "exact_pair pair" and w: "length w = 144" and xq: "length (q8_qs xq) = 256" and hf: "hf < 4"
  shows "q4k_half_sums pair (slice w 16 144) xq n hf
       = (of_int (sub_dot w (q8_qs xq) n (2 * hf)), of_int (sub_dot w (q8_qs xq) n (2 * hf + 1)))"
proof -
  let ?q = "slice w 16 144" and ?x = "q8_qs xq"
  note nib = q4k_nibble_pair [OF w hf]
  have idx: "2 * hf * 32 + l = hf * 64 + l" "(2 * hf + 1) * 32 + l = hf * 64 + 32 + l" for l by simp_all
  show ?thesis
  proof (cases "hf * 64 + 64 \<le> n")
    case True
    let ?qs = "slice ?q (hf * 32) (hf * 32 + 32)"
    let ?xlo = "slice ?x (hf * 64) (hf * 64 + 32)" and ?xhi = "slice ?x (hf * 64 + 32) (hf * 64 + 64)"
    have b: "hf * 32 + 32 \<le> 128" "hf * 64 + 64 \<le> 256" using hf by simp_all
    have len: "length ?qs = 32" "length ?xlo = 32" "length ?xhi = 32" using w xq b by simp_all
    have el: "?qs ! l = ?q ! (hf * 32 + l)" "?xlo ! l = ?x ! (hf * 64 + l)" "?xhi ! l = ?x ! (hf * 64 + 32 + l)"
      if "l < 32" for l using that w xq b by simp_all
    have "lo_dot ?qs ?xlo = (\<Sum>l<32. int (unat (?qs ! l) mod 16) * sint (?xlo ! l))"
      unfolding lo_dot_def using len by (simp add: sum_list_sum_nth lessThan_atLeast0)
    also have "\<dots> = sub_dot w ?x n (2 * hf)"
      unfolding sub_dot_def idx using True by (intro sum.cong) (simp_all add: el nib del: of_nat_mod nth_slice)
    finally have lo: "lo_dot ?qs ?xlo = sub_dot w ?x n (2 * hf)" .
    have "hi_dot ?qs ?xhi = (\<Sum>l<32. int (unat (?qs ! l) div 16) * sint (?xhi ! l))"
      unfolding hi_dot_def using len by (simp add: sum_list_sum_nth lessThan_atLeast0)
    also have "\<dots> = sub_dot w ?x n (2 * hf + 1)"
      unfolding sub_dot_def idx using True by (intro sum.cong) (simp_all only: el nib lessThan_iff, simp)
    finally have hi: "hi_dot ?qs ?xhi = sub_dot w ?x n (2 * hf + 1)" .
    have "q4k_half_sums pair ?q xq n hf = pair ?qs ?xlo ?xhi"
      using True by (simp only: q4k_half_sums_def Let_def if_True)
    then show ?thesis using pair len by (simp only: exact_pair_def lo hi)
  next
    case False
    let ?lo = "\<lambda>l. i32_of_u8 (?q ! (hf * 32 + l) AND 0x0F) * i32_of_i8 (?x ! (hf * 64 + l))"
    let ?hi = "\<lambda>l. i32_of_u8 (drop_bit 4 (?q ! (hf * 32 + l))) * i32_of_i8 (?x ! (hf * 64 + 32 + l))"
    have "q4k_half_sums pair ?q xq n hf =
        ((\<Sum>l<32. if hf * 64 + l < n then ?lo l else 0), (\<Sum>l<32. if hf * 64 + 32 + l < n then ?hi l else 0))"
      using False guarded_fold [of "\<lambda>l. hf * 64 + l < n" ?lo "\<lambda>l. hf * 64 + 32 + l < n" ?hi 0 0 32]
      by (simp only: q4k_half_sums_def Let_def if_False add_0)
    moreover have "(\<Sum>l<32. if hf * 64 + l < n then ?lo l else 0) = of_int (sub_dot w ?x n (2 * hf))"
      unfolding sub_dot_def of_int_sum idx
      by (rule sum.cong) (simp_all only: i32_of_u8_int i32_of_i8_int unat_nibble nib lessThan_iff of_int_mult of_int_0 split: if_split, simp_all)
    moreover have "(\<Sum>l<32. if hf * 64 + 32 + l < n then ?hi l else 0) = of_int (sub_dot w ?x n (2 * hf + 1))"
      unfolding sub_dot_def of_int_sum idx
      by (rule sum.cong) (simp_all only: i32_of_u8_int i32_of_i8_int unat_nibble nib lessThan_iff of_int_mult of_int_0 split: if_split, simp_all)
    ultimately show ?thesis by simp
  qed
qed

definition q4k_int_sum :: "bytes \<Rightarrow> i8 list \<Rightarrow> nat \<Rightarrow> int" where
  "q4k_int_sum w xs n = (\<Sum>j<8. int (q4k_scale w j) * sub_dot w xs n j)"

definition q4k_int_min :: "bytes \<Rightarrow> i8 list \<Rightarrow> int" where
  "q4k_int_min w xs = (\<Sum>j<8. int (q4k_min w j) * (\<Sum>l<32. sint (xs ! (j * 32 + l))))"

lemma sum_pairs_8: "(\<Sum>hf<4. c (2 * hf) + c (2 * hf + 1)) = (\<Sum>j<8. c j)" for c :: "nat \<Rightarrow> 'a::comm_monoid_add"
proof -
  have "{..<4 :: nat} = {0, 1, 2, 3}" "{..<8 :: nat} = {0, 1, 2, 3, 4, 5, 6, 7}" by auto
  then show ?thesis by (simp add: ac_simps eval_nat_numeral)
qed

lemma q4k_accs_eq:
  assumes pair: "exact_pair pair" and w: "length w = 144" and xq: "wf_q8 xq"
  shows "q4k_accs pair w xq n = (of_int (q4k_int_sum w (q8_qs xq) n), of_int (q4k_int_min w (q8_qs xq)))"
proof -
  let ?sc = "\<lambda>j. fst (get_scale_min_k4 j (slice w 4 16))" and ?m = "\<lambda>j. snd (get_scale_min_k4 j (slice w 4 16))"
  let ?s = "\<lambda>j. of_int (sub_dot w (q8_qs xq) n j) :: i32"
  let ?F = "\<lambda>hf. i32_of_u8 (?sc (2 * hf)) * ?s (2 * hf) + i32_of_u8 (?sc (2 * hf + 1)) * ?s (2 * hf + 1)"
  let ?G = "\<lambda>hf. i32_of_u8 (?m (2 * hf)) * q8_bsums xq ! (2 * hf) + i32_of_u8 (?m (2 * hf + 1)) * q8_bsums xq ! (2 * hf + 1)"
  have len: "length (q8_qs xq) = 256" using xq by (simp add: wf_q8_def)
  have "q4k_accs pair w xq n = foldl (\<lambda>(a, b) hf. (a + ?F hf, b + ?G hf)) (0, 0) [0..<4]"
    unfolding q4k_accs_def Let_def block_consts
    by (rule foldl_cong_set)
       (auto simp: q4k_half_sums_eq [OF pair w len] mult.commute [of _ 2] split: prod.splits)
  also have "\<dots> = ((\<Sum>hf<4. ?F hf), (\<Sum>hf<4. ?G hf))" using pair_fold [of ?F ?G 0 0 4] by simp
  also have "(\<Sum>hf<4. ?F hf) = (\<Sum>j<8. i32_of_u8 (?sc j) * ?s j)" by (rule sum_pairs_8)
  also have "\<dots> = of_int (q4k_int_sum w (q8_qs xq) n)"
    by (simp add: q4k_int_sum_def i32_of_u8_int q4k_scale_def)
  also have "(\<Sum>hf<4. ?G hf) = (\<Sum>j<8. i32_of_u8 (?m j) * q8_bsums xq ! j)"
    by (rule sum_pairs_8 [of "\<lambda>j. i32_of_u8 (?m j) * q8_bsums xq ! j"])
  also have "\<dots> = of_int (q4k_int_min w (q8_qs xq))"
    unfolding q4k_int_min_def of_int_sum
    using xq by (intro sum.cong) (simp_all add: i32_of_u8_int q4k_min_def wf_q8_def)
  finally show ?thesis .
qed

text \<open>No accumulator leaves the range of an \<open>i32\<close>.\<close>

lemma abs_sum_le: "(\<And>i. i < m \<Longrightarrow> \<bar>f i\<bar> \<le> B) \<Longrightarrow> \<bar>\<Sum>i<m. f i\<bar> \<le> int m * B" for f :: "nat \<Rightarrow> int"
proof -
  assume b: "\<And>i. i < m \<Longrightarrow> \<bar>f i\<bar> \<le> B"
  have "\<bar>\<Sum>i<m. f i\<bar> \<le> (\<Sum>i<m. \<bar>f i\<bar>)" by (rule sum_abs)
  also have "\<dots> \<le> of_nat (card {..<m}) * B" using b by (intro sum_bounded_above) simp
  finally show ?thesis by simp
qed

lemma abs_mult_le: "\<bar>a\<bar> \<le> A \<Longrightarrow> \<bar>b\<bar> \<le> B \<Longrightarrow> \<bar>a * b\<bar> \<le> A * B" for a b :: int
  unfolding abs_mult by (rule mult_mono) auto

lemma sub_dot_bound: "\<bar>sub_dot w xs n j\<bar> \<le> 32 * (15 * 128)"
proof -
  have "\<bar>if j * 32 + l < n then int (q4k_nibble w j l) * sint (xs ! (j * 32 + l)) else 0\<bar> \<le> 15 * 128" for l
    using abs_mult_le [of "int (q4k_nibble w j l)" 15 "sint (xs ! (j * 32 + l))" 128]
      q4k_nibble_less [of w j l] sint_i8_abs [of "xs ! (j * 32 + l)"] by simp
  from abs_sum_le [where m = 32, OF this] show ?thesis by (simp add: sub_dot_def)
qed

lemma q4k_scale_min_le: "q4k_scale w j \<le> 63" "q4k_min w j \<le> 63"
  using scale_min_k4_less [of j "slice w 4 16"] by (simp_all add: q4k_scale_def q4k_min_def)

lemma q4k_int_sum_bound: "\<bar>q4k_int_sum w xs n\<bar> \<le> 30965760"
proof -
  have "\<bar>int (q4k_scale w j) * sub_dot w xs n j\<bar> \<le> 63 * (32 * (15 * 128))" for j
    using q4k_scale_min_le(1) [of w j] by (intro abs_mult_le sub_dot_bound) simp
  from abs_sum_le [where m = 8, OF this] show ?thesis by (simp add: q4k_int_sum_def)
qed

lemma q4k_int_min_bound: "\<bar>q4k_int_min w xs\<bar> \<le> 2064384"
proof -
  have "\<bar>\<Sum>l<32. sint (xs ! (j * 32 + l))\<bar> \<le> int 32 * 128" for j
    by (rule abs_sum_le) (rule sint_i8_abs)
  then have "\<bar>int (q4k_min w j) * (\<Sum>l<32. sint (xs ! (j * 32 + l)))\<bar> \<le> 63 * (32 * 128)" for j
    using q4k_scale_min_le(2) [of w j] by (intro abs_mult_le) simp_all
  from abs_sum_le [where m = 8, OF this] show ?thesis by (simp add: q4k_int_min_def)
qed

lemma dot_q4k_q8_block_eq:
  assumes "exact_pair pair" and "length w = 144" and "wf_q8 xq"
  shows "dot_q4k_q8_block pair w xq n =
     f32_sub (f32_mul (f32_mul (f16_at w 0) (q8_d xq)) (f32_of_int (q4k_int_sum w (q8_qs xq) n)))
             (f32_mul (f32_mul (f16_at w 2) (q8_d xq)) (f32_of_int (q4k_int_min w (q8_qs xq))))"
proof -
  have "sint (of_int (q4k_int_sum w (q8_qs xq) n) :: i32) = q4k_int_sum w (q8_qs xq) n"
    by (rule sint_of_int_i32) (use q4k_int_sum_bound [of w "q8_qs xq" n] in simp)
  moreover have "sint (of_int (q4k_int_min w (q8_qs xq)) :: i32) = q4k_int_min w (q8_qs xq)"
    by (rule sint_of_int_i32) (use q4k_int_min_bound [of w "q8_qs xq"] in simp)
  ultimately show ?thesis
    by (simp only: dot_q4k_q8_block_def Let_def q4k_accs_eq [OF assms] prod.case f32_of_i32_def)
qed

subsection \<open>Quantised blocks\<close>

lemma q8_code_range: "- 127 \<le> q8_code iv v" "q8_code iv v \<le> 127"
  unfolding q8_code_def Let_def by (rule clamp_range; simp)+

lemma abs_q8_code: "\<bar>q8_code iv v\<bar> \<le> 127"
  using q8_code_range [of iv v] by (simp add: abs_le_iff)

lemma sint_q8_code: "sint (of_int (q8_code iv v) :: i8) = q8_code iv v"
  using q8_code_range [of iv v] by (intro sint_small_i8) simp_all

definition q8_state :: "(nat \<Rightarrow> int) \<Rightarrow> nat \<Rightarrow> i8 list \<times> i32 list" where
  "q8_state q k = (map (\<lambda>i. if i < k then of_int (q i) else 0) [0..<256],
     map (\<lambda>g. of_int (\<Sum>l<32. if g * 32 + l < k then q (g * 32 + l) else 0)) [0..<8])"

lemma group_sum_step:
  fixes q :: "nat \<Rightarrow> int"
  shows "(\<Sum>l<32. if g * 32 + l < Suc k then q (g * 32 + l) else 0)
    = (\<Sum>l<32. if g * 32 + l < k then q (g * 32 + l) else 0) + (if k div 32 = g then q k else 0)"
proof -
  have "(\<Sum>l<32. if g * 32 + l < Suc k then q (g * 32 + l) else 0)
      = (\<Sum>l<32. (if g * 32 + l < k then q (g * 32 + l) else 0) + (if g * 32 + l = k then q k else 0))"
    by (rule sum.cong) (auto simp: less_Suc_eq)
  also have "\<dots> = (\<Sum>l<32. if g * 32 + l < k then q (g * 32 + l) else 0) + (\<Sum>l<32. if g * 32 + l = k then q k else 0)"
    by (rule sum.distrib)
  also have "(\<Sum>l<32. if g * 32 + l = k then q k else 0) = (if k div 32 = g then q k else 0)"
  proof (cases "k div 32 = g")
    case True
    have eq: "g * 32 + k mod 32 = k" unfolding True [symmetric] by (rule div_mult_mod_eq)
    have "g * 32 + l = k \<longleftrightarrow> l = k mod 32" for l using eq by linarith
    then have "(\<Sum>l<32. if g * 32 + l = k then q k else 0) = (\<Sum>l<32. if l = k mod 32 then q k else 0)"
      using True by (intro sum.cong if_cong) auto
    then show ?thesis using True by simp
  next
    case False
    then have "g * 32 + l \<noteq> k" if "l < 32" for l using that by auto
    then show ?thesis using False by simp
  qed
  finally show ?thesis .
qed

lemma q8_step:
  assumes "k < 256"
  shows "q8_store q (q8_state q k) k = Ok (q8_state q (Suc k))"
proof -
  have g: "k div 32 < 8" using assms by (simp add: less_mult_imp_div_less)
  have "(fst (q8_state q k))[k := of_int (q k)] = fst (q8_state q (Suc k))"
    using assms by (intro nth_equalityI) (auto simp: q8_state_def nth_list_update less_Suc_eq)
  moreover have "(snd (q8_state q k))[k div 32 := snd (q8_state q k) ! (k div 32) + of_int (q k)] = snd (q8_state q (Suc k))"
    unfolding q8_state_def group_sum_step using g
    by (intro nth_equalityI) (auto simp: nth_list_update)
  moreover have "length (fst (q8_state q k)) = 256" "length (snd (q8_state q k)) = 8"
    by (simp_all add: q8_state_def)
  ultimately show ?thesis using assms g by (cases "q8_state q k") (simp add: q8_store_def)
qed

lemma quantize_block_q8_eq:
  assumes "length x \<le> 256"
  shows "quantize_block_q8 x = Ok (let d = f32_div (q8_amax x) f32_127;
      st = q8_state (\<lambda>i. q8_code (inverse_scale d) (x ! i)) (length x) in
    \<lparr>q8_d = d, q8_qs = fst st, q8_bsums = snd st\<rparr>)"
proof -
  let ?q = "\<lambda>i. q8_code (inverse_scale (f32_div (q8_amax x) f32_127)) (x ! i)"
  have loop: "oloop (q8_store ?q) [0..<k] (q8_state ?q 0) = Ok (q8_state ?q k)" if "k \<le> 256" for k
    using that
  proof (induction k)
    case 0
    show ?case by simp
  next
    case (Suc k)
    then show ?case by (simp add: oloop_append q8_step)
  qed
  have "q8_state ?q 0 = (replicate 256 0, replicate 8 0)"
    by (simp add: q8_state_def map_replicate_const)
  then show ?thesis
    using loop [OF assms] unfolding quantize_block_q8_def Let_def by (simp add: prod.case_eq_if)
qed

lemma quantize_block_q8_wf:
  assumes "quantize_block_q8 x = Ok xq" and "length x \<le> 256"
  shows "wf_q8 xq" and "\<And>i. i < 256 \<Longrightarrow> \<bar>sint (q8_qs xq ! i)\<bar> \<le> 127"
proof -
  let ?q = "\<lambda>i. q8_code (inverse_scale (f32_div (q8_amax x) f32_127)) (x ! i)"
  have qs: "q8_qs xq = fst (q8_state ?q (length x))" and bs: "q8_bsums xq = snd (q8_state ?q (length x))"
    using assms by (auto simp: quantize_block_q8_eq Let_def)
  have s: "sint (q8_qs xq ! i) = (if i < length x then ?q i else 0)" if "i < 256" for i
    using that by (simp add: qs q8_state_def sint_q8_code)
  show "\<bar>sint (q8_qs xq ! i)\<bar> \<le> 127" if "i < 256" for i
    unfolding s [OF that] by (simp add: abs_q8_code)
  have "q8_bsums xq ! j = of_int (\<Sum>l<32. sint (q8_qs xq ! (j * 32 + l)))" if "j < 8" for j
  proof -
    have "(\<Sum>l<32. sint (q8_qs xq ! (j * 32 + l))) = (\<Sum>l<32. if j * 32 + l < length x then ?q (j * 32 + l) else 0)"
    proof (rule sum.cong)
      fix l assume "l \<in> {..<32 :: nat}"
      then have "j * 32 + l < 256" using that by simp
      then show "sint (q8_qs xq ! (j * 32 + l)) = (if j * 32 + l < length x then ?q (j * 32 + l) else 0)"
        by (rule s)
    qed simp
    then show ?thesis using that by (simp add: bs q8_state_def cong: if_cong)
  qed
  then show "wf_q8 xq" by (simp add: wf_q8_def qs bs q8_state_def)
qed

subsection \<open>The Q6_K block dot\<close>

text \<open>
  Quant \<open>g\<close> (of the four per byte pair) at offset \<open>l\<close> of half \<open>hf\<close>. A run is sixteen offsets
  sharing a scale: \<open>(sb, l0)\<close> is \<open>(0, 0)\<close> or \<open>(1, 16)\<close>.
\<close>

definition q6k_q :: "bytes \<Rightarrow> bytes \<Rightarrow> nat \<Rightarrow> nat \<Rightarrow> nat \<Rightarrow> i32" where
  "q6k_q ql qh hf g l =
     (let h = qh ! (hf * 32 + l);
          b = (if g mod 2 = 0 then ql ! (hf * 64 + l) else ql ! (hf * 64 + l + 32));
          nib = (if g < 2 then b AND 0x0F else drop_bit 4 b) in
      i32_of_u8 (nib OR push_bit 4 (drop_bit (2 * g) h AND 0x03)) - 32)"

definition q6k_run :: "bytes \<Rightarrow> bytes \<Rightarrow> i8 list \<Rightarrow> nat \<Rightarrow> nat \<Rightarrow> i32 list \<Rightarrow> nat \<times> nat \<Rightarrow> i32 list" where
  "q6k_run ql qh xs n hf sums run =
     (let (sb, l0) = run; sc_p = hf * 8; y = hf * 128; hi_idx = y + l0 + 15 + 96 in
      if hi_idx < n then
        let a = (\<lambda>g. foldl (\<lambda>a l. a + q6k_q ql qh hf g l * i32_of_i8 (xs ! (y + l + 32 * g))) 0 [l0..<l0 + 16]) in
        foldl (\<lambda>sums g. sums[sc_p + sb + 2 * g := sums ! (sc_p + sb + 2 * g) + a g]) sums [0..<4]
      else foldl (\<lambda>sums l. foldl (\<lambda>sums g. let i = y + l + 32 * g in
          if i < n then sums[sc_p + sb + 2 * g := sums ! (sc_p + sb + 2 * g) + q6k_q ql qh hf g l * i32_of_i8 (xs ! i)]
          else sums) sums [0..<4]) sums [l0..<l0 + 16])"

definition dot_q6k_q8_block :: "bytes \<Rightarrow> Q8Block \<Rightarrow> nat \<Rightarrow> f32" where
  "dot_q6k_q8_block w xq n =
     (let d = f16_at w 208; ql = slice w 0 128; qh = slice w 128 192; sc = slice w 192 208;
          sums = foldl (\<lambda>sums hf. foldl (q6k_run ql qh (q8_qs xq) n hf) sums [(0, 0), (1, 16)])
            (replicate 16 0) [0..<2];
          acc = foldl (\<lambda>acc j. acc + i32_of_i8 (sc ! j) * sums ! j) 0 [0..<16] in
      f32_mul (f32_mul d (q8_d xq)) (f32_of_i32 acc))"

definition q6k_int_sum :: "bytes \<Rightarrow> i8 list \<Rightarrow> nat \<Rightarrow> int" where
  "q6k_int_sum w xs n = (\<Sum>hf<2. \<Sum>l<32. \<Sum>g<4. if hf * 128 + l + 32 * g < n
     then sint (q6_scale w hf g l) * (q6_quant w hf g l * sint (xs ! (hf * 128 + l + 32 * g))) else 0)"

text \<open>The weighted total of the sixteen sums; an update adds its weighted increment.\<close>

definition wtotal :: "(nat \<Rightarrow> i32) \<Rightarrow> i32 list \<Rightarrow> i32" where
  "wtotal c S = (\<Sum>j<16. c j * S ! j)"

lemma wtotal_update:
  assumes "i < 16" and "length S = 16"
  shows "wtotal c (S[i := S ! i + v]) = wtotal c S + c i * v"
proof -
  have "wtotal c (S[i := S ! i + v]) = (\<Sum>j<16. c j * S ! j + (if j = i then c i * v else 0))"
    unfolding wtotal_def using assms by (intro sum.cong) (auto simp: nth_list_update algebra_simps)
  also have "\<dots> = wtotal c S + c i * v"
    using assms(1) by (simp add: sum.distrib wtotal_def)
  finally show ?thesis .
qed

lemma wtotal_fold:
  assumes "\<And>k. k \<in> set ks \<Longrightarrow> i k < 16" and "length S = 16"
  shows "wtotal c (foldl (\<lambda>S k. S[i k := S ! i k + v k]) S ks) = wtotal c S + (\<Sum>k\<leftarrow>ks. c (i k) * v k)"
  using assms by (induction ks arbitrary: S) (simp_all add: wtotal_update add.assoc)

lemma wtotal_fold2:
  assumes "\<And>g. g \<in> set gs \<Longrightarrow> i g < 16" and "length S = 16"
  shows "wtotal c (foldl (\<lambda>S l. foldl (\<lambda>S g. S[i g := S ! i g + v l g]) S gs) S ls)
    = wtotal c S + (\<Sum>l\<leftarrow>ls. \<Sum>g\<leftarrow>gs. c (i g) * v l g)"
  using assms
proof (induction ls arbitrary: S)
  case Nil
  then show ?case by simp
next
  case (Cons l ls)
  have "length (foldl (\<lambda>S g. S[i g := S ! i g + v l g]) S gs) = 16"
    using Cons.prems by simp
  then show ?case using Cons by (simp add: wtotal_fold add.assoc)
qed

lemma foldl_add_sum: "foldl (\<lambda>a l. a + f l) (s :: i32) ls = s + (\<Sum>l\<leftarrow>ls. f l)"
  by (induction ls arbitrary: s) (simp_all add: add.assoc)

text \<open>The increments of one run, guarded by the length of the row.\<close>

definition q6k_term :: "bytes \<Rightarrow> bytes \<Rightarrow> i8 list \<Rightarrow> nat \<Rightarrow> nat \<Rightarrow> nat \<Rightarrow> nat \<Rightarrow> i32" where
  "q6k_term ql qh xs n hf l g = (if hf * 128 + l + 32 * g < n
     then q6k_q ql qh hf g l * i32_of_i8 (xs ! (hf * 128 + l + 32 * g)) else 0)"

lemma length_foldl_inner [simp]:
  "length (foldl (\<lambda>S l. foldl (\<lambda>S g. S[i l g := f S l g]) S gs) S ls) = length S"
  by (induction ls arbitrary: S) simp_all

lemma q6k_run_guarded:
  "\<not> hf * 128 + l0 + 15 + 96 < n \<Longrightarrow> q6k_run ql qh xs n hf S (sb, l0)
   = foldl (\<lambda>S l. foldl (\<lambda>S g. S[hf * 8 + sb + 2 * g := S ! (hf * 8 + sb + 2 * g) + q6k_term ql qh xs n hf l g])
       S [0..<4]) S [l0..<l0 + 16]"
  unfolding q6k_run_def Let_def q6k_term_def by (auto intro!: foldl_cong_set)

lemma wtotal_run:
  assumes "hf < 2" and "sb < 2" and S: "length S = 16"
  shows "length (q6k_run ql qh xs n hf S (sb, l0)) = 16"
    and "wtotal c (q6k_run ql qh xs n hf S (sb, l0)) = wtotal c S +
      (\<Sum>l\<leftarrow>[l0..<l0 + 16]. \<Sum>g\<leftarrow>[0..<4]. c (hf * 8 + sb + 2 * g) * q6k_term ql qh xs n hf l g)"
proof -
  let ?i = "\<lambda>g. hf * 8 + sb + 2 * g" and ?t = "q6k_term ql qh xs n hf"
  have i: "?i g < 16" if "g \<in> set [0..<4]" for g using that assms by auto
  have "length (q6k_run ql qh xs n hf S (sb, l0)) = 16 \<and> wtotal c (q6k_run ql qh xs n hf S (sb, l0)) = wtotal c S +
      (\<Sum>l\<leftarrow>[l0..<l0 + 16]. \<Sum>g\<leftarrow>[0..<4]. c (?i g) * ?t l g)"
  proof (cases "hf * 128 + l0 + 15 + 96 < n")
    case True
    let ?a = "\<lambda>g. \<Sum>l\<leftarrow>[l0..<l0 + 16]. ?t l g"
    have inner: "foldl (\<lambda>a l. a + q6k_q ql qh hf g l * i32_of_i8 (xs ! (hf * 128 + l + 32 * g))) 0 [l0..<l0 + 16] = ?a g"
      if "g \<in> set [0..<4]" for g
    proof -
      have "foldl (\<lambda>a l. a + q6k_q ql qh hf g l * i32_of_i8 (xs ! (hf * 128 + l + 32 * g))) 0 [l0..<l0 + 16]
          = foldl (\<lambda>a l. a + ?t l g) 0 [l0..<l0 + 16]"
        using True that by (intro foldl_cong_set) (auto simp: q6k_term_def)
      then show ?thesis by (simp only: foldl_add_sum add_0)
    qed
    have run: "q6k_run ql qh xs n hf S (sb, l0) = foldl (\<lambda>S g. S[?i g := S ! ?i g + ?a g]) S [0..<4]"
      using True unfolding q6k_run_def Let_def prod.case
      by (simp only: if_True) (intro foldl_cong_set, simp only: inner)
    have swap: "(\<Sum>g\<leftarrow>[0..<4]. c (?i g) * ?a g) = (\<Sum>l\<leftarrow>[l0..<l0 + 16]. \<Sum>g\<leftarrow>[0..<4]. c (?i g) * ?t l g)"
      by (simp add: sum_list_distinct_conv_sum_set sum_distrib_left sum.swap [of _ "{0..<4}"])
    show ?thesis unfolding run swap [symmetric] using S wtotal_fold [where ks = "[0..<4]" and c = c and v = ?a, OF i S] by simp
  next
    case False
    show ?thesis
      unfolding q6k_run_guarded [OF False] using S wtotal_fold2 [where gs = "[0..<4]" and c = c and v = ?t, OF i S] by simp
  qed
  then show "length (q6k_run ql qh xs n hf S (sb, l0)) = 16"
    and "wtotal c (q6k_run ql qh xs n hf S (sb, l0)) = wtotal c S +
      (\<Sum>l\<leftarrow>[l0..<l0 + 16]. \<Sum>g\<leftarrow>[0..<4]. c (?i g) * ?t l g)" by simp_all
qed

lemma sum_lessThan_2: "(\<Sum>i<2. f i) = f 0 + f (1 :: nat)"
  by (simp add: numeral_2_eq_2)

lemma q6k_q_eq:
  assumes "length w = 210" and "hf < 2" and "l < 32"
  shows "q6k_q (slice w 0 128) (slice w 128 192) hf g l = of_int (q6_quant w hf g l)"
proof -
  have b: "(if g mod 2 = 0 then slice w 0 128 ! (hf * 64 + l) else slice w 0 128 ! (hf * 64 + l + 32))
      = w ! (64 * hf + l + (if g mod 2 = 0 then 0 else 32))"
  proof -
    have "hf * 64 + l + 32 < 128" using assms by simp
    then show ?thesis by (simp add: mult.commute)
  qed
  have h: "slice w 128 192 ! (hf * 32 + l) = w ! (128 + 32 * hf + l)"
    using assms by (simp add: mult.commute add.assoc)
  show ?thesis
    unfolding q6k_q_def q6_quant_def Let_def b h by (simp only: i32_of_u8_int of_int_diff of_int_numeral)
qed

lemma q6k_accs_eq:
  assumes w: "length w = 210"
  shows "foldl (\<lambda>acc j. acc + i32_of_i8 (slice w 192 208 ! j) *
      foldl (\<lambda>sums hf. foldl (q6k_run (slice w 0 128) (slice w 128 192) xs n hf) sums [(0, 0), (1, 16)])
        (replicate 16 0) [0..<2] ! j) 0 [0..<16] = of_int (q6k_int_sum w xs n)"
proof -
  let ?c = "\<lambda>j. i32_of_i8 (slice w 192 208 ! j)" and ?t = "q6k_term (slice w 0 128) (slice w 128 192) xs n"
  let ?run = "q6k_run (slice w 0 128) (slice w 128 192) xs n"
  let ?s = "\<lambda>hf sb l0. \<Sum>l\<leftarrow>[l0..<l0 + 16]. \<Sum>g\<leftarrow>[0..<4]. ?c (hf * 8 + sb + 2 * g) * ?t hf l g"
  have one_less_2: "1 < (2 :: nat)" by simp
  let ?S = "foldl (\<lambda>sums hf. foldl (?run hf) sums [(0, 0), (1, 16)]) (replicate 16 0) [0..<2]"
  have two: "[0..<2] = [0, 1 :: nat]" by (simp add: upt_rec)
  have z: "wtotal ?c (replicate 16 0) = 0" by (simp add: wtotal_def)
  have "wtotal ?c ?S = ?s 0 0 0 + ?s 0 1 16 + (?s 1 0 0 + ?s 1 1 16)"
    unfolding two by (simp add: wtotal_run z add.assoc del: upt_Suc upt_rec_numeral)
  moreover have half: "?s hf 0 0 + ?s hf 1 16 = of_int (\<Sum>l<32. \<Sum>g<4. if hf * 128 + l + 32 * g < n
     then sint (q6_scale w hf g l) * (q6_quant w hf g l * sint (xs ! (hf * 128 + l + 32 * g))) else 0)" if "hf < 2" for hf
  proof -
    let ?u = "\<lambda>l. \<Sum>g\<leftarrow>[0..<4]. ?c (hf * 8 + l div 16 + 2 * g) * ?t hf l g"
    have "?s hf 0 0 = (\<Sum>l\<leftarrow>[0..<16]. ?u l)" by (rule arg_cong [of _ _ sum_list]) (auto)
    moreover have "?s hf 1 16 = (\<Sum>l\<leftarrow>[16..<32]. ?u l)"
    proof -
      have "l div 16 = 1" if "l \<in> set [16..<32]" for l using that by (intro div_nat_eqI) auto
      then show ?thesis by (intro arg_cong [of _ _ sum_list] map_cong) auto
    qed
    moreover have "(\<Sum>l\<leftarrow>[0..<16]. ?u l) + (\<Sum>l\<leftarrow>[16..<32]. ?u l) = (\<Sum>l\<leftarrow>[0..<32]. ?u l)"
      using upt_add_eq_append [of 0 16 16] by (simp del: upt_rec_numeral flip: sum_list_append map_append)
    ultimately have "?s hf 0 0 + ?s hf 1 16 = (\<Sum>l<32. \<Sum>g<4. ?c (hf * 8 + l div 16 + 2 * g) * ?t hf l g)"
      by (simp add: sum_list_distinct_conv_sum_set lessThan_atLeast0 del: upt_rec_numeral)
    also have "\<dots> = of_int (\<Sum>l<32. \<Sum>g<4. if hf * 128 + l + 32 * g < n
     then sint (q6_scale w hf g l) * (q6_quant w hf g l * sint (xs ! (hf * 128 + l + 32 * g))) else 0)"
      unfolding of_int_sum
    proof (intro sum.cong refl)
      fix l g :: nat assume "l \<in> {..<32}" and "g \<in> {..<4}"
      then have l: "l < 32" and g: "g < 4" by simp_all
      have "l div 16 < 2" using l by (simp add: less_mult_imp_div_less)
      then have "hf * 8 + l div 16 + 2 * g < 16" using g that by simp
      then have "slice w 192 208 ! (hf * 8 + l div 16 + 2 * g) = q6_scale w hf g l"
        using w by (simp add: q6_scale_def ac_simps)
      then show "?c (hf * 8 + l div 16 + 2 * g) * ?t hf l g = of_int (if hf * 128 + l + 32 * g < n
         then sint (q6_scale w hf g l) * (q6_quant w hf g l * sint (xs ! (hf * 128 + l + 32 * g))) else 0)"
        by (simp only: q6k_term_def q6k_q_eq [OF w that l] i32_of_i8_int of_int_mult split: if_split) simp
    qed
    finally show ?thesis .
  qed
  ultimately have "wtotal ?c ?S = of_int (q6k_int_sum w xs n)"
    unfolding q6k_int_sum_def sum_lessThan_2 of_int_add
    by (simp only: half [OF zero_less_numeral] half [OF one_less_2])
  moreover have "foldl (\<lambda>acc j. acc + ?c j * ?S ! j) 0 [0..<16] = wtotal ?c ?S"
    unfolding foldl_add_sum wtotal_def by (simp add: sum_list_distinct_conv_sum_set lessThan_atLeast0 del: upt_rec_numeral)
  ultimately show ?thesis by simp
qed

lemma q6k_int_sum_bound: "\<bar>q6k_int_sum w xs n\<bar> \<le> 2 * (32 * (4 * (128 * (32 * 128))))"
proof -
  have t: "\<bar>if hf * 128 + l + 32 * g < n
     then sint (q6_scale w hf g l) * (q6_quant w hf g l * sint (xs ! (hf * 128 + l + 32 * g))) else 0\<bar>
     \<le> 128 * (32 * 128)" for hf l g
  proof -
    have "\<bar>q6_quant w hf g l\<bar> \<le> 32" using q6_quant_range [of w hf g l] by (simp add: abs_le_iff)
    then have "\<bar>sint (q6_scale w hf g l) * (q6_quant w hf g l * sint (xs ! (hf * 128 + l + 32 * g)))\<bar> \<le> 128 * (32 * 128)"
      by (intro abs_mult_le sint_i8_abs)
    then show ?thesis by simp
  qed
  have "\<bar>q6k_int_sum w xs n\<bar> \<le> int 2 * (int 32 * (int 4 * (128 * (32 * 128))))"
    unfolding q6k_int_sum_def by (intro abs_sum_le t)
  then show ?thesis by simp
qed

lemma dot_q6k_q8_block_eq:
  assumes "length w = 210"
  shows "dot_q6k_q8_block w xq n =
     f32_mul (f32_mul (f16_at w 208) (q8_d xq)) (f32_of_int (q6k_int_sum w (q8_qs xq) n))"
proof -
  have "sint (of_int (q6k_int_sum w (q8_qs xq) n) :: i32) = q6k_int_sum w (q8_qs xq) n"
    by (rule sint_of_int_i32) (use q6k_int_sum_bound [of w "q8_qs xq" n] in simp)
  then show ?thesis
    by (simp only: dot_q6k_q8_block_def Let_def q6k_accs_eq [OF assms] f32_of_i32_def)
qed

subsection \<open>One row in the integer domain\<close>

definition integer_dot_q4k :: "dot_pair \<Rightarrow> f32 list \<Rightarrow> bytes \<Rightarrow> nat \<Rightarrow> f32 res" where
  "integer_dot_q4k pair x w n =
     (if length w mod Q4_K_BLOCK_BYTES \<noteq> 0 then internal ''Q4_K byte length not a multiple of 144''
      else if n = 0 then Ok 0
      else omap fixed_tree (omapM (\<lambda>b. let base = b * Q4_K_BLOCK_NUMEL;
          avail = min Q4_K_BLOCK_NUMEL (n - base); off = b * Q4_K_BLOCK_BYTES in
        obind (oslice x base (base + avail)) (\<lambda>xs. obind (quantize_block_q8 xs) (\<lambda>xq.
        obind (oslice w off (off + Q4_K_BLOCK_BYTES)) (\<lambda>blk.
        Ok (dot_q4k_q8_block pair blk xq avail)))))
       (takeWhile (\<lambda>b. b * Q4_K_BLOCK_NUMEL < n) [0..<length w div Q4_K_BLOCK_BYTES])))"

text \<open>The dot pair of the target does not matter: scalar and NEON give the same row dot.\<close>

lemma quantize_block_q8_total: "length x \<le> 256 \<Longrightarrow> \<exists>xq. quantize_block_q8 x = Ok xq \<and> wf_q8 xq"
  using quantize_block_q8_wf(1) by (auto simp: quantize_block_q8_eq)

lemma integer_dot_q4k_pair:
  assumes "exact_pair pair" and "exact_pair pair'"
  shows "integer_dot_q4k pair x w n = integer_dot_q4k pair' x w n"
proof -
  have "obind (oslice x s e) (\<lambda>xs. obind (quantize_block_q8 xs) (\<lambda>xq.
          obind (oslice w a (a + 144)) (\<lambda>blk. Ok (dot_q4k_q8_block pair blk xq k))))
      = (obind (oslice x s e) (\<lambda>xs. obind (quantize_block_q8 xs) (\<lambda>xq.
          obind (oslice w a (a + 144)) (\<lambda>blk. Ok (dot_q4k_q8_block pair' blk xq k)))) :: f32 res)"
    if "e \<le> s + 256" for s e a k
  proof (intro obind_cong refl)
    fix xs xq blk
    assume "oslice x s e = (Ok xs :: f32 list res)" "quantize_block_q8 xs = Ok xq"
      and b: "oslice w a (a + 144) = (Ok blk :: bytes res)"
    then have "length xs \<le> 256" using that by (auto simp: oslice_eq_Ok)
    then have "wf_q8 xq" using \<open>quantize_block_q8 xs = Ok xq\<close> quantize_block_q8_wf(1) by blast
    moreover have "length blk = 144" using b by (auto simp: oslice_eq_Ok)
    ultimately show "(Ok (dot_q4k_q8_block pair blk xq k) :: f32 res) = Ok (dot_q4k_q8_block pair' blk xq k)"
      using assms by (simp add: dot_q4k_q8_block_eq)
  qed
  then show ?thesis unfolding integer_dot_q4k_def Let_def block_consts by simp
qed

subsection \<open>Properties\<close>

text \<open>
  C5: The Q4_K block dot computes its two accumulators exactly: no \<open>i32\<close> addition or product
  overflows, so they are the integer sums \<open>\<Sum> scale * nibble * quant\<close> and \<open>\<Sum> min * quant\<close> over the first \<open>n\<close>
  elements, independent of any order, for the scalar and the NEON dot pair alike.
\<close>

theorem q4k_block_dot_exact:
  assumes "pair = dot32_pair_scalar \<or> pair = dot32_pair_neon" and "length w = 144"
    and "quantize_block_q8 x = Ok xq" and "length x \<le> 256"
  shows "dot_q4k_q8_block pair w xq n =
     f32_sub (f32_mul (f32_mul (f16_at w 0) (q8_d xq)) (f32_of_int
               (\<Sum>j<8. int (q4k_scale w j) * (\<Sum>l<32. if j * 32 + l < n
                   then int (q4k_nibble w j l) * sint (q8_qs xq ! (j * 32 + l)) else 0))))
             (f32_mul (f32_mul (f16_at w 2) (q8_d xq)) (f32_of_int
               (\<Sum>j<8. int (q4k_min w j) * (\<Sum>l<32. sint (q8_qs xq ! (j * 32 + l))))))"
proof -
  have "exact_pair pair" using assms(1) exact_pair_scalar exact_pair_neon by auto
  from dot_q4k_q8_block_eq [OF this assms(2) quantize_block_q8_wf(1) [OF assms(3,4)]] show ?thesis
    by (simp only: q4k_int_sum_def q4k_int_min_def sub_dot_def)
qed

theorem q4k_block_dot_exact_witness:
  "\<exists>xq. quantize_block_q8 (replicate 256 f32_one) = Ok xq \<and>
    dot_q4k_q8_block dot32_pair_neon (replicate 144 0x35) xq 256 =
     f32_sub (f32_mul (f32_mul (f16_at (replicate 144 0x35) 0) (q8_d xq)) (f32_of_int
               (\<Sum>j<8. int (q4k_scale (replicate 144 0x35) j) * (\<Sum>l<32. if j * 32 + l < 256
                   then int (q4k_nibble (replicate 144 0x35) j l) * sint (q8_qs xq ! (j * 32 + l)) else 0))))
             (f32_mul (f32_mul (f16_at (replicate 144 0x35) 2) (q8_d xq)) (f32_of_int
               (\<Sum>j<8. int (q4k_min (replicate 144 0x35) j) * (\<Sum>l<32. sint (q8_qs xq ! (j * 32 + l))))))"
proof -
  have l: "length (replicate 256 f32_one) \<le> 256" "length (replicate 144 (0x35 :: u8)) = 144" by simp_all
  obtain xq where "quantize_block_q8 (replicate 256 f32_one) = Ok xq"
    using quantize_block_q8_total [OF l(1)] by auto
  with q4k_block_dot_exact [OF disjI2 [OF refl] l(2) this l(1), of 256] show ?thesis by blast
qed

text \<open>
  The Q6_K block dot likewise: whichever of its two loops handles a run of sixteen, the
  accumulator is the integer sum of \<open>scale * quant * activation\<close> over the elements below \<open>n\<close>.
\<close>

theorem q6k_block_dot_exact:
  assumes "length w = 210"
  shows "dot_q6k_q8_block w xq n = f32_mul (f32_mul (f16_at w 208) (q8_d xq)) (f32_of_int
    (\<Sum>hf<2. \<Sum>l<32. \<Sum>g<4. if hf * 128 + l + 32 * g < n
     then sint (q6_scale w hf g l) * (q6_quant w hf g l * sint (q8_qs xq ! (hf * 128 + l + 32 * g))) else 0))"
  using dot_q6k_q8_block_eq [OF assms] by (simp only: q6k_int_sum_def)

theorem q6k_block_dot_exact_witness:
  "dot_q6k_q8_block (replicate 210 0x35) \<lparr>q8_d = f32_one, q8_qs = replicate 256 5, q8_bsums = []\<rparr> 100 =
    f32_mul (f32_mul (f16_at (replicate 210 0x35) 208) (q8_d \<lparr>q8_d = f32_one, q8_qs = replicate 256 5, q8_bsums = []\<rparr>)) (f32_of_int
    (\<Sum>hf<2. \<Sum>l<32. \<Sum>g<4. if hf * 128 + l + 32 * g < 100
     then sint (q6_scale (replicate 210 0x35) hf g l) * (q6_quant (replicate 210 0x35) hf g l
        * sint (q8_qs \<lparr>q8_d = f32_one, q8_qs = replicate 256 5, q8_bsums = []\<rparr> ! (hf * 128 + l + 32 * g))) else 0))"
  by (rule q6k_block_dot_exact) simp

text \<open>
  The vector dot pair, with its 16-bit lanes, pairwise adds and horizontal sum, returns the
  same two \<open>i32\<close> values as the scalar loop.
\<close>

theorem neon_pair_is_scalar:
  assumes "length qsl = 32" and "length xlo = 32" and "length xhi = 32"
  shows "dot32_pair_neon qsl xlo xhi = dot32_pair_scalar qsl xlo xhi"
  using assms by (simp add: dot32_pair_neon_eq dot32_pair_scalar_eq)

theorem neon_pair_is_scalar_witness:
  "dot32_pair_neon (replicate 32 0xF7) (replicate 32 0x80) (replicate 32 0x7F)
   = dot32_pair_scalar (replicate 32 0xF7) (replicate 32 0x80) (replicate 32 0x7F)"
  by (rule neon_pair_is_scalar) simp_all

text \<open>
  C12: A block of at most 256 activations always quantises: 256 codes between -127 and 127, zero
  beyond the input, and eight group sums that are the exact sums of the codes of their groups.
\<close>

theorem quantized_block_wf:
  assumes "length x \<le> 256"
  shows "\<exists>xq. quantize_block_q8 x = Ok xq \<and> length (q8_qs xq) = 256 \<and> length (q8_bsums xq) = 8 \<and>
    (\<forall>i<256. \<bar>sint (q8_qs xq ! i)\<bar> \<le> 127) \<and> (\<forall>i<256. length x \<le> i \<longrightarrow> q8_qs xq ! i = 0) \<and>
    (\<forall>j<8. sint (q8_bsums xq ! j) = (\<Sum>l<32. sint (q8_qs xq ! (j * 32 + l))))"
proof -
  obtain xq where xq: "quantize_block_q8 x = Ok xq" using quantize_block_q8_total [OF assms] by auto
  note wf = quantize_block_q8_wf [OF xq assms]
  have z: "q8_qs xq ! i = 0" if "i < 256" "length x \<le> i" for i
    using xq that unfolding quantize_block_q8_eq [OF assms] Let_def by (auto simp: q8_state_def)
  have "sint (q8_bsums xq ! j) = (\<Sum>l<32. sint (q8_qs xq ! (j * 32 + l)))" if "j < 8" for j
  proof -
    have "\<bar>\<Sum>l<32. sint (q8_qs xq ! (j * 32 + l))\<bar> \<le> int 32 * 128"
      by (rule abs_sum_le) (rule sint_i8_abs)
    then have "sint (of_int (\<Sum>l<32. sint (q8_qs xq ! (j * 32 + l))) :: i32) = (\<Sum>l<32. sint (q8_qs xq ! (j * 32 + l)))"
      by (intro sint_of_int_i32) simp
    then show ?thesis using wf(1) that by (simp only: wf_q8_def)
  qed
  then show ?thesis using xq wf z by (auto simp: wf_q8_def)
qed

theorem quantized_block_wf_witness:
  "\<exists>xq. quantize_block_q8 [f32_one, f32_nan, f32_infinity] = Ok xq \<and> length (q8_qs xq) = 256 \<and> length (q8_bsums xq) = 8 \<and>
    (\<forall>i<256. \<bar>sint (q8_qs xq ! i)\<bar> \<le> 127) \<and>
    (\<forall>i<256. length [f32_one, f32_nan, f32_infinity] \<le> i \<longrightarrow> q8_qs xq ! i = 0) \<and>
    (\<forall>j<8. sint (q8_bsums xq ! j) = (\<Sum>l<32. sint (q8_qs xq ! (j * 32 + l))))"
  by (rule quantized_block_wf) simp

end
