(* ===== verification/Linear.thy ===== *)
theory Linear
  imports Fused IntDot Tensor
begin

text \<open>
  The linear layers of \<open>src/src/ops/quant.rs\<close> (\<open>linear_*\<close>): the reference versions that decode
  the whole weight first, the fused and integer versions that walk it row by row, and their
  row-parallel twins. The output buffer is the state of the loops. A parallel version runs its
  rows in an order the scheduler chooses: the order is a parameter, an enumeration of the
  (task, row of the task) pairs for every batch entry.
\<close>

subsection \<open>Row loops\<close>

definition serial_rows :: "f32 list \<Rightarrow> nat \<Rightarrow> nat \<Rightarrow> nat \<Rightarrow> (f32 list \<Rightarrow> 'q res) \<Rightarrow> ('q \<Rightarrow> nat \<Rightarrow> f32 res)
    \<Rightarrow> f32 list \<Rightarrow> f32 list res" where
  "serial_rows x batch in_feat out_feat prep row y =
     oloop (\<lambda>y b. obind (oslice x (b * in_feat) ((b + 1) * in_feat)) (\<lambda>x_row.
       obind (prep x_row) (\<lambda>q.
       oloop (\<lambda>y r. obind (row q r) (\<lambda>v. oset y (b * out_feat + r) v)) [0..<out_feat] y)))
     [0..<batch] y"

definition row_grain :: "nat \<Rightarrow> nat \<Rightarrow> nat" where
  "row_grain out_feat threads = max 1 ((out_feat + (threads * 4 - 1)) div (threads * 4))"

definition fair_schedule :: "nat \<Rightarrow> nat \<Rightarrow> (nat \<times> nat) list \<Rightarrow> bool" where
  "fair_schedule out_feat grain sched \<longleftrightarrow> set sched = {(t, i). i < grain \<and> t * grain + i < out_feat}"

definition parallel_rows :: "f32 list \<Rightarrow> nat \<Rightarrow> nat \<Rightarrow> nat \<Rightarrow> nat \<Rightarrow> (nat \<Rightarrow> (nat \<times> nat) list)
    \<Rightarrow> (f32 list \<Rightarrow> 'q res) \<Rightarrow> ('q \<Rightarrow> nat \<Rightarrow> f32 res) \<Rightarrow> f32 list \<Rightarrow> f32 list res" where
  "parallel_rows x batch in_feat out_feat grain sched prep row y =
     oloop (\<lambda>y b. obind (oslice x (b * in_feat) ((b + 1) * in_feat)) (\<lambda>x_row.
       obind (prep x_row) (\<lambda>q.
       obind (oslice y (b * out_feat) ((b + 1) * out_feat)) (\<lambda>slots.
       omap (\<lambda>slots. take (b * out_feat) y @ slots @ drop ((b + 1) * out_feat) y)
         (oloop (\<lambda>slots (t, i). obind (row q (t * grain + i)) (\<lambda>v. oset slots (t * grain + i) v)) (sched b) slots)))))
     [0..<batch] y"

text \<open>The buffer after \<open>n\<close> batch entries have been written.\<close>

definition rows_written :: "nat \<Rightarrow> (nat \<Rightarrow> nat \<Rightarrow> f32) \<Rightarrow> f32 list \<Rightarrow> nat \<Rightarrow> f32 list" where
  "rows_written out_feat v y n = concat (map (\<lambda>b. map (v b) [0..<out_feat]) [0..<n]) @ drop (n * out_feat) y"

lemma length_rows_written [simp]:
  "n * out_feat \<le> length y \<Longrightarrow> length (rows_written out_feat v y n) = length y"
  by (simp add: rows_written_def length_concat_rows)

lemma rows_written_0 [simp]: "rows_written out_feat v y 0 = y"
  by (simp add: rows_written_def)

lemma foldl_update_at:
  "a + n \<le> length ys \<Longrightarrow> foldl (\<lambda>ys r. ys[a + r := g r]) ys [0..<n] = take a ys @ map g [0..<n] @ drop (a + n) ys"
proof (induction n)
  case 0
  then show ?case by simp
next
  case (Suc n)
  have d: "drop (a + n) ys = ys ! (a + n) # drop (Suc (a + n)) ys"
    using Suc.prems by (simp add: Cons_nth_drop_Suc)
  have len: "length (take a ys @ map g [0..<n]) = a + n" using Suc.prems by simp
  have "foldl (\<lambda>ys r. ys[a + r := g r]) ys [0..<Suc n] = ((take a ys @ map g [0..<n]) @ drop (a + n) ys)[a + n := g n]"
    using Suc by simp
  also have "\<dots> = (take a ys @ map g [0..<n]) @ g n # drop (Suc (a + n)) ys"
    unfolding d using len by (metis list_update_length)
  finally show ?case by simp
qed

lemma rows_written_Suc:
  assumes "Suc n * out_feat \<le> length y"
  shows "take (n * out_feat) (rows_written out_feat v y n) @ map (v n) [0..<out_feat] @
      drop (n * out_feat + out_feat) (rows_written out_feat v y n) = rows_written out_feat v y (Suc n)"
  using assms by (simp add: rows_written_def length_concat_rows add.commute)

lemma serial_rows_Ok:
  assumes "\<And>b. b < batch \<Longrightarrow> \<exists>q. prep (slice x (b * in_feat) ((b + 1) * in_feat)) = Ok q \<and> (\<forall>r < out_feat. row q r = Ok (v b r))"
    and "batch * in_feat \<le> length x" and "batch * out_feat \<le> length y"
  shows "serial_rows x batch in_feat out_feat prep row y = Ok (rows_written out_feat v y batch)"
  using assms
proof (induction batch)
  case 0
  then show ?case by (simp add: serial_rows_def)
next
  case (Suc n)
  let ?y = "rows_written out_feat v y n"
  have IH: "serial_rows x n in_feat out_feat prep row y = Ok ?y"
    using Suc by simp
  obtain q where q: "prep (slice x (n * in_feat) ((n + 1) * in_feat)) = Ok q" "\<forall>r < out_feat. row q r = Ok (v n r)"
    using Suc.prems(1) [of n] by auto
  have len: "length ?y = length y" using Suc.prems(3) by simp
  have "oloop (\<lambda>y r. obind (row q r) (\<lambda>v. oset y (n * out_feat + r) v)) [0..<k] ?y
      = (Ok (foldl (\<lambda>y r. y[n * out_feat + r := v n r]) ?y [0..<k]) :: f32 list res)" if "k \<le> out_feat" for k
    using that
  proof (induction k)
    case 0
    then show ?case by simp
  next
    case (Suc k)
    then show ?case using q(2) len \<open>Suc n * out_feat \<le> length y\<close> by (simp add: oloop_append)
  qed
  moreover have "foldl (\<lambda>y r. y[n * out_feat + r := v n r]) ?y [0..<out_feat] = rows_written out_feat v y (Suc n)"
    using foldl_update_at [of "n * out_feat" out_feat ?y "v n"] rows_written_Suc [OF Suc.prems(3)] Suc.prems(3) len
    by (simp add: add.commute)
  ultimately have "oloop (\<lambda>y r. obind (row q r) (\<lambda>v. oset y (n * out_feat + r) v)) [0..<out_feat] ?y
      = (Ok (rows_written out_feat v y (Suc n)) :: f32 list res)"
    by simp
  moreover have "oslice x (n * in_feat) ((n + 1) * in_feat) = (Ok (slice x (n * in_feat) ((n + 1) * in_feat)) :: f32 list res)"
    using Suc.prems(2) by simp
  ultimately show ?case
    using IH q(1) by (simp add: serial_rows_def oloop_append)
qed

text \<open>Any fair schedule writes every row of a batch entry.\<close>

lemma fair_schedule_rows:
  assumes "fair_schedule out_feat grain sched" and "0 < grain"
  shows "set (map (\<lambda>(t, i). t * grain + i) sched) = {..<out_feat}"
proof
  show "set (map (\<lambda>(t, i). t * grain + i) sched) \<subseteq> {..<out_feat}"
    using assms(1) by (auto simp: fair_schedule_def)
  have "r \<in> (\<lambda>(t, i). t * grain + i) ` set sched" if "r < out_feat" for r
  proof -
    have "(r div grain, r mod grain) \<in> set sched"
      using assms that by (simp add: fair_schedule_def)
    then show ?thesis by (force simp: image_iff)
  qed
  then show "{..<out_feat} \<subseteq> set (map (\<lambda>(t, i). t * grain + i) sched)" by auto
qed

lemma foldl_pairs: "foldl (\<lambda>ys (t, i). ys[t * g + i := f (t * g + i)]) ys s
    = foldl (\<lambda>ys r. ys[r := f r]) ys (map (\<lambda>(t, i). t * g + i) s)"
  by (induction s arbitrary: ys) auto

lemma parallel_rows_Ok:
  assumes "\<And>b. b < batch \<Longrightarrow> \<exists>q. prep (slice x (b * in_feat) ((b + 1) * in_feat)) = Ok q \<and> (\<forall>r < out_feat. row q r = Ok (v b r))"
    and "batch * in_feat \<le> length x" and "batch * out_feat \<le> length y"
    and "0 < grain" and "\<And>b. fair_schedule out_feat grain (sched b)"
  shows "parallel_rows x batch in_feat out_feat grain sched prep row y = Ok (rows_written out_feat v y batch)"
  using assms(1-3)
proof (induction batch)
  case 0
  then show ?case by (simp add: parallel_rows_def)
next
  case (Suc n)
  let ?y = "rows_written out_feat v y n"
  have IH: "parallel_rows x n in_feat out_feat grain sched prep row y = Ok ?y"
    using Suc by simp
  obtain q where q: "prep (slice x (n * in_feat) ((n + 1) * in_feat)) = Ok q" "\<forall>r < out_feat. row q r = Ok (v n r)"
    using Suc.prems(1) [of n] by auto
  have len: "length ?y = length y" using Suc.prems(3) by simp
  let ?slot = "slice ?y (n * out_feat) ((n + 1) * out_feat)"
  have slot: "oslice ?y (n * out_feat) ((n + 1) * out_feat) = (Ok ?slot :: f32 list res)" "length ?slot = out_feat"
    using Suc.prems(3) len by simp_all
  have "oloop (\<lambda>slots (t, i). obind (row q (t * grain + i)) (\<lambda>v. oset slots (t * grain + i) v)) s ys
      = (Ok (foldl (\<lambda>ys (t, i). ys[t * grain + i := v n (t * grain + i)]) ys s) :: f32 list res)"
    if "set s \<subseteq> set (sched n)" "length ys = out_feat" for s ys
    using that
  proof (induction s arbitrary: ys)
    case Nil
    then show ?case by simp
  next
    case (Cons p s)
    obtain t i where p: "p = (t, i)" by (cases p)
    have "t * grain + i < out_feat"
      using Cons.prems(1) assms(5) [of n] by (auto simp: fair_schedule_def p)
    then show ?case using Cons q(2) by (simp add: p)
  qed
  moreover have "foldl (\<lambda>ys (t, i). ys[t * grain + i := v n (t * grain + i)]) ?slot (sched n) = map (v n) [0..<out_feat]"
    unfolding foldl_pairs by (rule foldl_update_any [OF fair_schedule_rows [OF assms(5,4)] slot(2)])
  ultimately have loop: "oloop (\<lambda>slots (t, i). obind (row q (t * grain + i)) (\<lambda>v. oset slots (t * grain + i) v)) (sched n) ?slot
      = (Ok (map (v n) [0..<out_feat]) :: f32 list res)"
    using slot(2) by (simp only: subset_refl)
  have tk: "take (n * out_feat) ?y @ map (v n) [0..<out_feat] @ drop ((n + 1) * out_feat) ?y = rows_written out_feat v y (Suc n)"
    using rows_written_Suc [OF Suc.prems(3), of v] by (simp add: add.commute)
  have xs: "oslice x (n * in_feat) ((n + 1) * in_feat) = (Ok (slice x (n * in_feat) ((n + 1) * in_feat)) :: f32 list res)"
    using Suc.prems(2) by simp
  show ?case
    using IH unfolding parallel_rows_def upt_Suc_append [OF le0] oloop_append
    by (simp only: obind.simps oloop.simps xs q(1) slot(1) loop tk omap.simps)
qed

lemma row_grain_pos: "0 < row_grain out_feat threads"
  by (simp add: row_grain_def)

subsection \<open>The reference layers\<close>

definition dense_rows :: "f32 list \<Rightarrow> f32 list \<Rightarrow> nat \<Rightarrow> nat \<Rightarrow> nat \<Rightarrow> f32 list \<Rightarrow> f32 list res" where
  "dense_rows x w_f32 batch in_feat out_feat y =
     oloop (\<lambda>y b. oloop (\<lambda>y r.
       obind (oslice w_f32 (r * in_feat) ((r + 1) * in_feat)) (\<lambda>w_row.
       obind (oslice x (b * in_feat) ((b + 1) * in_feat)) (\<lambda>x_row.
       obind (canonical_dot x_row w_row in_feat) (\<lambda>v. oset y (b * out_feat + r) v)))) [0..<out_feat] y)
     [0..<batch] y"

definition linear_q4_k_cpu :: "f32 list \<Rightarrow> bytes \<Rightarrow> f32 list \<Rightarrow> nat \<Rightarrow> nat \<Rightarrow> nat \<Rightarrow> f32 list res" where
  "linear_q4_k_cpu x w y batch in_feat out_feat =
     (if length x \<noteq> batch * in_feat then internal ''linear_q4_k_cpu: x shape mismatch''
      else if length y \<noteq> batch * out_feat then internal ''linear_q4_k_cpu: y shape mismatch''
      else obind (dequantize_q4_k w) (\<lambda>w_f32.
        if length w_f32 \<noteq> out_feat * in_feat then internal ''linear_q4_k_cpu: weight shape mismatch''
        else dense_rows x w_f32 batch in_feat out_feat y))"

definition linear_q6_k_cpu :: "f32 list \<Rightarrow> bytes \<Rightarrow> f32 list \<Rightarrow> nat \<Rightarrow> nat \<Rightarrow> nat \<Rightarrow> f32 list res" where
  "linear_q6_k_cpu x w y batch in_feat out_feat =
     (if length x \<noteq> batch * in_feat then internal ''linear_q6_k_cpu: x shape mismatch''
      else if length y \<noteq> batch * out_feat then internal ''linear_q6_k_cpu: y shape mismatch''
      else obind (dequantize_q6_k w) (\<lambda>w_f32.
        if length w_f32 \<noteq> out_feat * in_feat then internal ''linear_q6_k_cpu: weight shape mismatch''
        else dense_rows x w_f32 batch in_feat out_feat y))"

definition linear_q4_0_cpu :: "f32 list \<Rightarrow> bytes \<Rightarrow> f32 list \<Rightarrow> nat \<Rightarrow> nat \<Rightarrow> nat \<Rightarrow> f32 list res" where
  "linear_q4_0_cpu x w y batch in_feat out_feat =
     (if in_feat mod Q4_0_BLOCK_NUMEL \<noteq> 0 then internal ''linear_q4_0: in_feat must be multiple of 32''
      else if length w \<noteq> out_feat * (in_feat div Q4_0_BLOCK_NUMEL) * Q4_0_BLOCK_BYTES
        then internal ''linear_q4_0: weight blob length mismatch''
      else if length x \<noteq> batch * in_feat then internal ''linear_q4_0: x size mismatch''
      else if length y \<noteq> batch * out_feat then internal ''linear_q4_0: y_out size mismatch''
      else obind (dequantize_q4_0 w) (\<lambda>w_f32. dense_rows x w_f32 batch in_feat out_feat y))"

subsection \<open>Fused layers\<close>

definition q4k_row_bytes :: "nat \<Rightarrow> nat" where
  "q4k_row_bytes in_feat = in_feat div Q4_K_BLOCK_NUMEL * Q4_K_BLOCK_BYTES"

definition q6k_row_bytes :: "nat \<Rightarrow> nat" where
  "q6k_row_bytes in_feat = in_feat div Q6_K_BLOCK_NUMEL * Q6_K_BLOCK_BYTES"

definition weight_row :: "bytes \<Rightarrow> nat \<Rightarrow> nat \<Rightarrow> bytes res" where
  "weight_row w row_bytes r = oslice w (r * row_bytes) ((r + 1) * row_bytes)"

definition q4k_fused_row :: "bytes \<Rightarrow> nat \<Rightarrow> f32 list \<Rightarrow> nat \<Rightarrow> f32 res" where
  "q4k_fused_row w in_feat x_row r = obind (weight_row w (q4k_row_bytes in_feat) r) (\<lambda>w_row.
     canonical_dot_q4k_fused x_row w_row in_feat)"

definition q6k_fused_row :: "bytes \<Rightarrow> nat \<Rightarrow> f32 list \<Rightarrow> nat \<Rightarrow> f32 res" where
  "q6k_fused_row w in_feat x_row r = obind (weight_row w (q6k_row_bytes in_feat) r) (\<lambda>w_row.
     q6k_fused_f32_dot x_row w_row in_feat)"

fun unwrap_or_zero :: "f32 res \<Rightarrow> f32 res" where
  "unwrap_or_zero (Err e) = Ok 0"
| "unwrap_or_zero v = v"

definition linear_q4_k_fused :: "f32 list \<Rightarrow> bytes \<Rightarrow> f32 list \<Rightarrow> nat \<Rightarrow> nat \<Rightarrow> nat \<Rightarrow> f32 list res" where
  "linear_q4_k_fused x w y batch in_feat out_feat =
     (if in_feat mod Q4_K_BLOCK_NUMEL \<noteq> 0 then internal ''linear_q4_k_fused: in_feat not a multiple of 256''
      else serial_rows x batch in_feat out_feat Ok (q4k_fused_row w in_feat) y)"

definition linear_q4_k_fused_parallel :: "f32 list \<Rightarrow> bytes \<Rightarrow> f32 list \<Rightarrow> nat \<Rightarrow> nat \<Rightarrow> nat \<Rightarrow> nat
    \<Rightarrow> (nat \<Rightarrow> (nat \<times> nat) list) \<Rightarrow> f32 list res" where
  "linear_q4_k_fused_parallel x w y batch in_feat out_feat threads sched =
     (if in_feat mod Q4_K_BLOCK_NUMEL \<noteq> 0 then internal ''linear_q4_k_fused_parallel: in_feat not a multiple of 256''
      else if threads \<le> 1 then linear_q4_k_fused x w y batch in_feat out_feat
      else if length w < out_feat * q4k_row_bytes in_feat then internal ''linear_q4_k_fused_parallel: weight shape mismatch''
      else parallel_rows x batch in_feat out_feat (row_grain out_feat threads) sched Ok
        (\<lambda>x_row r. unwrap_or_zero (q4k_fused_row w in_feat x_row r)) y)"

definition linear_q6_k_fused :: "f32 list \<Rightarrow> bytes \<Rightarrow> f32 list \<Rightarrow> nat \<Rightarrow> nat \<Rightarrow> nat \<Rightarrow> f32 list res" where
  "linear_q6_k_fused x w y batch in_feat out_feat =
     (if in_feat mod Q6_K_BLOCK_NUMEL \<noteq> 0 then internal ''linear_q6_k_fused: in_feat not a multiple of 256''
      else if length w < out_feat * q6k_row_bytes in_feat then internal ''linear_q6_k_fused: weight shape mismatch''
      else serial_rows x batch in_feat out_feat Ok (q6k_fused_row w in_feat) y)"

definition linear_q6_k_fused_parallel :: "f32 list \<Rightarrow> bytes \<Rightarrow> f32 list \<Rightarrow> nat \<Rightarrow> nat \<Rightarrow> nat \<Rightarrow> nat
    \<Rightarrow> (nat \<Rightarrow> (nat \<times> nat) list) \<Rightarrow> f32 list res" where
  "linear_q6_k_fused_parallel x w y batch in_feat out_feat threads sched =
     (if in_feat mod Q6_K_BLOCK_NUMEL \<noteq> 0 then internal ''linear_q6_k_fused_parallel: in_feat not a multiple of 256''
      else if threads \<le> 1 then linear_q6_k_fused x w y batch in_feat out_feat
      else if length w < out_feat * q6k_row_bytes in_feat then internal ''linear_q6_k_fused_parallel: weight shape mismatch''
      else parallel_rows x batch in_feat out_feat (row_grain out_feat threads) sched Ok
        (\<lambda>x_row r. unwrap_or_zero (q6k_fused_row w in_feat x_row r)) y)"

subsection \<open>Integer layers\<close>

definition quantize_row :: "nat \<Rightarrow> f32 list \<Rightarrow> Q8Block list res" where
  "quantize_row in_feat x_row = omapM (\<lambda>s. obind (oslice x_row (s * 256) ((s + 1) * 256)) quantize_block_q8)
     [0..<in_feat div 256]"

definition q4k_int_parts :: "dot_pair \<Rightarrow> bytes \<Rightarrow> nat \<Rightarrow> Q8Block list \<Rightarrow> nat \<Rightarrow> f32 list res" where
  "q4k_int_parts pair w in_feat xq r = obind (weight_row w (q4k_row_bytes in_feat) r) (\<lambda>w_row.
     omapM (\<lambda>s. obind (oslice w_row (s * Q4_K_BLOCK_BYTES) (s * Q4_K_BLOCK_BYTES + Q4_K_BLOCK_BYTES)) (\<lambda>blk.
       obind (oget xq s) (\<lambda>q. Ok (dot_q4k_q8_block pair blk q Q4_K_BLOCK_NUMEL)))) [0..<in_feat div Q4_K_BLOCK_NUMEL])"

definition q6k_int_parts :: "bytes \<Rightarrow> nat \<Rightarrow> Q8Block list \<Rightarrow> nat \<Rightarrow> f32 list res" where
  "q6k_int_parts w in_feat xq r = obind (weight_row w (q6k_row_bytes in_feat) r) (\<lambda>w_row.
     omapM (\<lambda>s. obind (oslice w_row (s * Q6_K_BLOCK_BYTES) (s * Q6_K_BLOCK_BYTES + Q6_K_BLOCK_BYTES)) (\<lambda>blk.
       obind (oget xq s) (\<lambda>q. Ok (dot_q6k_q8_block blk q Q6_K_BLOCK_NUMEL)))) [0..<in_feat div Q6_K_BLOCK_NUMEL])"

text \<open>The combine across super-blocks: the fixed tree, or (\<open>_rs\<close>) a running sum.\<close>

definition running_sum :: "f32 list \<Rightarrow> f32" where
  "running_sum parts = foldl f32_add 0 parts"

definition linear_q4_k_integer :: "dot_pair \<Rightarrow> f32 list \<Rightarrow> bytes \<Rightarrow> f32 list \<Rightarrow> nat \<Rightarrow> nat \<Rightarrow> nat \<Rightarrow> f32 list res" where
  "linear_q4_k_integer pair x w y batch in_feat out_feat =
     (if in_feat mod Q4_K_BLOCK_NUMEL \<noteq> 0 then internal ''linear_q4_k_integer: in_feat not a multiple of 256''
      else if length w < out_feat * q4k_row_bytes in_feat then internal ''linear_q4_k_integer: weight shape mismatch''
      else serial_rows x batch in_feat out_feat (quantize_row in_feat)
        (\<lambda>xq r. omap fixed_tree (q4k_int_parts pair w in_feat xq r)) y)"

definition linear_q4_k_integer_rs :: "dot_pair \<Rightarrow> f32 list \<Rightarrow> bytes \<Rightarrow> f32 list \<Rightarrow> nat \<Rightarrow> nat \<Rightarrow> nat \<Rightarrow> f32 list res" where
  "linear_q4_k_integer_rs pair x w y batch in_feat out_feat =
     (if in_feat mod Q4_K_BLOCK_NUMEL \<noteq> 0 then internal ''linear_q4_k_integer_rs: in_feat not a multiple of 256''
      else if length w < out_feat * q4k_row_bytes in_feat then internal ''linear_q4_k_integer_rs: weight shape mismatch''
      else serial_rows x batch in_feat out_feat (quantize_row in_feat)
        (\<lambda>xq r. omap running_sum (q4k_int_parts pair w in_feat xq r)) y)"

definition linear_q4_k_integer_parallel :: "dot_pair \<Rightarrow> f32 list \<Rightarrow> bytes \<Rightarrow> f32 list \<Rightarrow> nat \<Rightarrow> nat \<Rightarrow> nat \<Rightarrow> nat
    \<Rightarrow> (nat \<Rightarrow> (nat \<times> nat) list) \<Rightarrow> f32 list res" where
  "linear_q4_k_integer_parallel pair x w y batch in_feat out_feat threads sched =
     (if in_feat mod Q4_K_BLOCK_NUMEL \<noteq> 0 then internal ''linear_q4_k_integer_parallel: in_feat % 256''
      else if threads \<le> 1 then linear_q4_k_integer pair x w y batch in_feat out_feat
      else if length w < out_feat * q4k_row_bytes in_feat then internal ''linear_q4_k_integer_parallel: weight shape''
      else parallel_rows x batch in_feat out_feat (row_grain out_feat threads) sched (quantize_row in_feat)
        (\<lambda>xq r. omap fixed_tree (q4k_int_parts pair w in_feat xq r)) y)"

definition linear_q6_k_integer :: "f32 list \<Rightarrow> bytes \<Rightarrow> f32 list \<Rightarrow> nat \<Rightarrow> nat \<Rightarrow> nat \<Rightarrow> f32 list res" where
  "linear_q6_k_integer x w y batch in_feat out_feat =
     (if in_feat mod Q6_K_BLOCK_NUMEL \<noteq> 0 then internal ''linear_q6_k_integer: in_feat not a multiple of 256''
      else if length w < out_feat * q6k_row_bytes in_feat then internal ''linear_q6_k_integer: weight shape mismatch''
      else serial_rows x batch in_feat out_feat (quantize_row in_feat)
        (\<lambda>xq r. omap fixed_tree (q6k_int_parts w in_feat xq r)) y)"

definition linear_q6_k_integer_rs :: "f32 list \<Rightarrow> bytes \<Rightarrow> f32 list \<Rightarrow> nat \<Rightarrow> nat \<Rightarrow> nat \<Rightarrow> f32 list res" where
  "linear_q6_k_integer_rs x w y batch in_feat out_feat =
     (if in_feat mod Q6_K_BLOCK_NUMEL \<noteq> 0 then internal ''linear_q6_k_integer_rs: in_feat not a multiple of 256''
      else if length w < out_feat * q6k_row_bytes in_feat then internal ''linear_q6_k_integer_rs: weight shape mismatch''
      else serial_rows x batch in_feat out_feat (quantize_row in_feat)
        (\<lambda>xq r. omap running_sum (q6k_int_parts w in_feat xq r)) y)"

definition linear_q6_k_integer_parallel :: "f32 list \<Rightarrow> bytes \<Rightarrow> f32 list \<Rightarrow> nat \<Rightarrow> nat \<Rightarrow> nat \<Rightarrow> nat
    \<Rightarrow> (nat \<Rightarrow> (nat \<times> nat) list) \<Rightarrow> f32 list res" where
  "linear_q6_k_integer_parallel x w y batch in_feat out_feat threads sched =
     (if in_feat mod Q6_K_BLOCK_NUMEL \<noteq> 0 then internal ''linear_q6_k_integer_parallel: in_feat % 256''
      else if threads \<le> 1 then linear_q6_k_integer x w y batch in_feat out_feat
      else if length w < out_feat * q6k_row_bytes in_feat then internal ''linear_q6_k_integer_parallel: weight shape''
      else parallel_rows x batch in_feat out_feat (row_grain out_feat threads) sched (quantize_row in_feat)
        (\<lambda>xq r. omap fixed_tree (q6k_int_parts w in_feat xq r)) y)"

subsection \<open>The interface of a row kernel\<close>

text \<open>
  What a layer needs of its kernel: on weights \<open>good\<close> for the shape, the preparation of an
  activation row succeeds and every weight row yields a value that depends only on the weights,
  the activation row and the row number. Serial and parallel loops then agree.
\<close>

locale row_kernel =
  fixes good :: "bytes \<Rightarrow> nat \<Rightarrow> nat \<Rightarrow> bool"
    and prep :: "nat \<Rightarrow> f32 list \<Rightarrow> 'q res"
    and row :: "bytes \<Rightarrow> nat \<Rightarrow> 'q \<Rightarrow> nat \<Rightarrow> f32 res"
    and val :: "bytes \<Rightarrow> nat \<Rightarrow> f32 list \<Rightarrow> nat \<Rightarrow> f32"
  assumes kernel: "good w in_feat out_feat \<Longrightarrow> length x_row = in_feat \<Longrightarrow>
    \<exists>q. prep in_feat x_row = Ok q \<and> (\<forall>r < out_feat. row w in_feat q r = Ok (val w in_feat x_row r))"
begin

definition outputs :: "f32 list \<Rightarrow> bytes \<Rightarrow> nat \<Rightarrow> nat \<Rightarrow> f32 list \<Rightarrow> nat \<Rightarrow> f32 list" where
  "outputs x w in_feat out_feat y batch =
     rows_written out_feat (\<lambda>b. val w in_feat (slice x (b * in_feat) ((b + 1) * in_feat))) y batch"

lemma rows_ok:
  assumes "good w in_feat out_feat" and "batch * in_feat \<le> length x" and "b < batch"
  shows "\<exists>q. prep in_feat (slice x (b * in_feat) ((b + 1) * in_feat)) = Ok q \<and>
    (\<forall>r < out_feat. row w in_feat q r = Ok (val w in_feat (slice x (b * in_feat) ((b + 1) * in_feat)) r))"
proof (rule kernel [OF assms(1)])
  have "(b + 1) * in_feat \<le> batch * in_feat" using assms(3) by (intro mult_le_mono1) simp
  then show "length (slice x (b * in_feat) ((b + 1) * in_feat)) = in_feat" using assms(2) by simp
qed

lemma serial_eq:
  assumes "good w in_feat out_feat" and "batch * in_feat \<le> length x" and "batch * out_feat \<le> length y"
  shows "serial_rows x batch in_feat out_feat (prep in_feat) (row w in_feat) y = Ok (outputs x w in_feat out_feat y batch)"
  unfolding outputs_def by (rule serial_rows_Ok) (erule rows_ok [OF assms(1,2)], rule assms, rule assms)

lemma parallel_eq:
  assumes "good w in_feat out_feat" and "batch * in_feat \<le> length x" and "batch * out_feat \<le> length y"
    and "0 < grain" and "\<And>b. fair_schedule out_feat grain (sched b)"
  shows "parallel_rows x batch in_feat out_feat grain sched (prep in_feat) (row w in_feat) y
    = Ok (outputs x w in_feat out_feat y batch)"
  unfolding outputs_def
  by (rule parallel_rows_Ok) (erule rows_ok [OF assms(1,2)], rule assms, rule assms, rule assms, rule assms)

end

subsection \<open>The kernels provide the interface\<close>

definition q4k_good :: "bytes \<Rightarrow> nat \<Rightarrow> nat \<Rightarrow> bool" where
  "q4k_good w in_feat out_feat \<longleftrightarrow> in_feat mod 256 = 0 \<and> out_feat * q4k_row_bytes in_feat \<le> length w"

definition q6k_good :: "bytes \<Rightarrow> nat \<Rightarrow> nat \<Rightarrow> bool" where
  "q6k_good w in_feat out_feat \<longleftrightarrow> in_feat mod 256 = 0 \<and> out_feat * q6k_row_bytes in_feat \<le> length w"

definition row_slice :: "bytes \<Rightarrow> nat \<Rightarrow> nat \<Rightarrow> bytes" where
  "row_slice w row_bytes r = slice w (r * row_bytes) ((r + 1) * row_bytes)"

lemma weight_row_Ok:
  assumes "out_feat * rb \<le> length w" and "r < out_feat"
  shows "weight_row w rb r = Ok (row_slice w rb r)" and "length (row_slice w rb r) = rb"
proof -
  have "(r + 1) * rb \<le> out_feat * rb" using assms(2) by (intro mult_le_mono1) simp
  then have "(r + 1) * rb \<le> length w" using assms(1) by simp
  then show "weight_row w rb r = Ok (row_slice w rb r)" "length (row_slice w rb r) = rb"
    by (simp_all add: weight_row_def row_slice_def)
qed

definition q4k_fused_val :: "bytes \<Rightarrow> nat \<Rightarrow> f32 list \<Rightarrow> nat \<Rightarrow> f32" where
  "q4k_fused_val w in_feat x_row r =
     dot_spec (dot_term x_row (q4_k.decoded (row_slice w (q4k_row_bytes in_feat) r) (in_feat div 256))) in_feat"

definition q6k_fused_val :: "bytes \<Rightarrow> nat \<Rightarrow> f32 list \<Rightarrow> nat \<Rightarrow> f32" where
  "q6k_fused_val w in_feat x_row r =
     dot_spec (dot_term x_row (q6_k.decoded (row_slice w (q6k_row_bytes in_feat) r) (in_feat div 256))) in_feat"

lemma q4k_fused_row_Ok:
  assumes "q4k_good w in_feat out_feat" and "length x_row = in_feat" and "r < out_feat"
  shows "q4k_fused_row w in_feat x_row r = Ok (q4k_fused_val w in_feat x_row r)"
proof -
  have g: "out_feat * q4k_row_bytes in_feat \<le> length w" and m: "in_feat = in_feat div 256 * 256"
    using assms(1) by (auto simp: q4k_good_def)
  note row = weight_row_Ok [OF g assms(3)]
  have "length (row_slice w (q4k_row_bytes in_feat) r) = in_feat div 256 * 144"
    using row(2) by (simp add: q4k_row_bytes_def block_consts)
  then show ?thesis
    using row(1) assms(2) m by (simp add: q4k_fused_row_def canonical_dot_q4k_fused_eq q4k_fused_val_def)
qed

lemma q6k_fused_row_Ok:
  assumes "q6k_good w in_feat out_feat" and "length x_row = in_feat" and "r < out_feat"
  shows "q6k_fused_row w in_feat x_row r = Ok (q6k_fused_val w in_feat x_row r)"
proof -
  have g: "out_feat * q6k_row_bytes in_feat \<le> length w" and m: "in_feat = in_feat div 256 * 256"
    using assms(1) by (auto simp: q6k_good_def)
  note row = weight_row_Ok [OF g assms(3)]
  have "length (row_slice w (q6k_row_bytes in_feat) r) = in_feat div 256 * 210"
    using row(2) by (simp add: q6k_row_bytes_def block_consts)
  then show ?thesis
    using row(1) assms(2) m by (simp add: q6k_fused_row_def q6k_fused_f32_dot_eq q6k_fused_val_def)
qed

interpretation q4f: row_kernel q4k_good "\<lambda>in_feat. Ok" q4k_fused_row q4k_fused_val
  by unfold_locales (simp add: q4k_fused_row_Ok)

interpretation q6f: row_kernel q6k_good "\<lambda>in_feat. Ok" q6k_fused_row q6k_fused_val
  by unfold_locales (simp add: q6k_fused_row_Ok)

text \<open>The integer kernels: every activation block is quantised, every block dot is defined.\<close>

definition q8_of :: "f32 list \<Rightarrow> Q8Block" where
  "q8_of x = (case quantize_block_q8 x of Ok q \<Rightarrow> q | _ \<Rightarrow> \<lparr>q8_d = 0, q8_qs = [], q8_bsums = []\<rparr>)"

lemma q8_of_Ok: "length x \<le> 256 \<Longrightarrow> quantize_block_q8 x = Ok (q8_of x) \<and> wf_q8 (q8_of x)"
  using quantize_block_q8_total [of x] by (auto simp: q8_of_def)

definition q8_row :: "nat \<Rightarrow> f32 list \<Rightarrow> Q8Block list" where
  "q8_row in_feat x_row = map (\<lambda>s. q8_of (slice x_row (s * 256) ((s + 1) * 256))) [0..<in_feat div 256]"

lemma block_le: "s < in_feat div 256 \<Longrightarrow> (s + 1) * 256 \<le> (in_feat :: nat)"
proof -
  assume "s < in_feat div 256"
  then have "(s + 1) * 256 \<le> in_feat div 256 * 256" by (intro mult_le_mono1) simp
  also have "\<dots> \<le> in_feat" by (rule div_times_less_eq_dividend)
  finally show ?thesis .
qed

lemma quantize_row_Ok:
  assumes "length x_row = in_feat"
  shows "quantize_row in_feat x_row = Ok (q8_row in_feat x_row)"
  unfolding quantize_row_def q8_row_def
proof (rule omapM_Ok)
  fix s assume "s \<in> set [0..<in_feat div 256]"
  then have le: "(s + 1) * 256 \<le> length x_row" using block_le assms by simp
  then have "length (slice x_row (s * 256) ((s + 1) * 256)) \<le> 256" by simp
  then show "obind (oslice x_row (s * 256) ((s + 1) * 256)) quantize_block_q8
      = Ok (q8_of (slice x_row (s * 256) ((s + 1) * 256)))"
    using le q8_of_Ok by simp
qed

lemma q8_row_wf: "length x_row = in_feat \<Longrightarrow> s < in_feat div 256 \<Longrightarrow> wf_q8 (q8_row in_feat x_row ! s)"
  using block_le [of s in_feat] q8_of_Ok by (simp add: q8_row_def)

definition q4k_int_vals :: "dot_pair \<Rightarrow> bytes \<Rightarrow> nat \<Rightarrow> f32 list \<Rightarrow> nat \<Rightarrow> f32 list" where
  "q4k_int_vals pair w in_feat x_row r = map (\<lambda>s. dot_q4k_q8_block pair
     (blk (row_slice w (q4k_row_bytes in_feat) r) 144 s) (q8_row in_feat x_row ! s) 256) [0..<in_feat div 256]"

definition q6k_int_vals :: "bytes \<Rightarrow> nat \<Rightarrow> f32 list \<Rightarrow> nat \<Rightarrow> f32 list" where
  "q6k_int_vals w in_feat x_row r = map (\<lambda>s. dot_q6k_q8_block
     (blk (row_slice w (q6k_row_bytes in_feat) r) 210 s) (q8_row in_feat x_row ! s) 256) [0..<in_feat div 256]"

lemma blk_slice_Ok:
  assumes "length w = m * sz" and "s < m"
  shows "oslice w (s * sz) (s * sz + sz) = Ok (blk w sz s)"
proof -
  have "(s + 1) * sz \<le> m * sz" using assms(2) by (intro mult_le_mono1) simp
  then show ?thesis using assms(1) by (simp add: blk_def add.commute)
qed

lemma q4k_int_parts_Ok:
  assumes "q4k_good w in_feat out_feat" and "r < out_feat"
  shows "q4k_int_parts pair w in_feat (q8_row in_feat x_row) r = Ok (q4k_int_vals pair w in_feat x_row r)"
proof -
  have g: "out_feat * q4k_row_bytes in_feat \<le> length w" using assms(1) by (simp add: q4k_good_def)
  note row = weight_row_Ok [OF g assms(2)]
  have len: "length (row_slice w (q4k_row_bytes in_feat) r) = in_feat div 256 * 144"
    using row(2) by (simp add: q4k_row_bytes_def block_consts)
  show ?thesis
    unfolding q4k_int_parts_def row(1) obind.simps q4k_int_vals_def block_consts
    by (rule omapM_Ok) (simp add: blk_slice_Ok [OF len] q8_row_def)
qed

lemma q6k_int_parts_Ok:
  assumes "q6k_good w in_feat out_feat" and "r < out_feat"
  shows "q6k_int_parts w in_feat (q8_row in_feat x_row) r = Ok (q6k_int_vals w in_feat x_row r)"
proof -
  have g: "out_feat * q6k_row_bytes in_feat \<le> length w" using assms(1) by (simp add: q6k_good_def)
  note row = weight_row_Ok [OF g assms(2)]
  have len: "length (row_slice w (q6k_row_bytes in_feat) r) = in_feat div 256 * 210"
    using row(2) by (simp add: q6k_row_bytes_def block_consts)
  show ?thesis
    unfolding q6k_int_parts_def row(1) obind.simps q6k_int_vals_def block_consts
    by (rule omapM_Ok) (simp add: blk_slice_Ok [OF len] q8_row_def)
qed

interpretation q4i: row_kernel q4k_good quantize_row
    "\<lambda>w in_feat xq r. omap combine (q4k_int_parts pair w in_feat xq r)"
    "\<lambda>w in_feat x_row r. combine (q4k_int_vals pair w in_feat x_row r)" for pair combine
  by unfold_locales (simp add: quantize_row_Ok q4k_int_parts_Ok)

interpretation q6i: row_kernel q6k_good quantize_row
    "\<lambda>w in_feat xq r. omap combine (q6k_int_parts w in_feat xq r)"
    "\<lambda>w in_feat x_row r. combine (q6k_int_vals w in_feat x_row r)" for combine
  by unfold_locales (simp add: quantize_row_Ok q6k_int_parts_Ok)

lemma q4k_int_vals_pair:
  assumes "exact_pair pair" and "exact_pair pair'" and "q4k_good w in_feat out_feat" and "r < out_feat"
    and "length x_row = in_feat"
  shows "q4k_int_vals pair w in_feat x_row r = q4k_int_vals pair' w in_feat x_row r"
proof -
  have g: "out_feat * q4k_row_bytes in_feat \<le> length w" using assms(3) by (simp add: q4k_good_def)
  have "length (row_slice w (q4k_row_bytes in_feat) r) = in_feat div 256 * 144"
    using weight_row_Ok(2) [OF g assms(4)] by (simp add: q4k_row_bytes_def block_consts)
  then show ?thesis
    using assms by (auto simp: q4k_int_vals_def dot_q4k_q8_block_eq q8_row_wf)
qed

subsection \<open>Layers\<close>

definition dense_row :: "f32 list \<Rightarrow> nat \<Rightarrow> f32 list \<Rightarrow> nat \<Rightarrow> f32 res" where
  "dense_row w_f32 in_feat x_row r = obind (oslice w_f32 (r * in_feat) ((r + 1) * in_feat)) (\<lambda>w_row.
     canonical_dot x_row w_row in_feat)"

lemma dense_rows_serial:
  assumes "batch * in_feat \<le> length x"
  shows "dense_rows x w_f32 batch in_feat out_feat y = serial_rows x batch in_feat out_feat Ok (dense_row w_f32 in_feat) y"
  unfolding dense_rows_def serial_rows_def
proof (rule oloop_cong [OF refl refl])
  fix b :: nat and y :: "f32 list" assume "b \<in> set [0..<batch]"
  then have "(b + 1) * in_feat \<le> batch * in_feat" by (intro mult_le_mono1) simp
  then have x: "oslice x (b * in_feat) ((b + 1) * in_feat) = (Ok (slice x (b * in_feat) ((b + 1) * in_feat)) :: f32 list res)"
    using assms by simp
  show "oloop (\<lambda>y r. obind (oslice w_f32 (r * in_feat) ((r + 1) * in_feat)) (\<lambda>w_row.
       obind (oslice x (b * in_feat) ((b + 1) * in_feat)) (\<lambda>x_row.
       obind (canonical_dot x_row w_row in_feat) (\<lambda>v. oset y (b * out_feat + r) v)))) [0..<out_feat] y
    = obind (oslice x (b * in_feat) ((b + 1) * in_feat)) (\<lambda>x_row. obind (Ok x_row) (\<lambda>q.
       oloop (\<lambda>y r. obind (dense_row w_f32 in_feat q r) (\<lambda>v. oset y (b * out_feat + r) v)) [0..<out_feat] y))"
    unfolding x obind.simps dense_row_def obind_assoc ..
qed

lemma dense_rows_Ok:
  assumes "batch * in_feat \<le> length x" and "batch * out_feat \<le> length y" and "out_feat * in_feat \<le> length w_f32"
  shows "dense_rows x w_f32 batch in_feat out_feat y = Ok (rows_written out_feat
    (\<lambda>b r. dot_spec (dot_term (slice x (b * in_feat) ((b + 1) * in_feat))
      (slice w_f32 (r * in_feat) ((r + 1) * in_feat))) in_feat) y batch)"
  unfolding dense_rows_serial [OF assms(1)]
proof (rule serial_rows_Ok [OF _ assms(1,2)])
  fix b assume "b < batch"
  then have "(b + 1) * in_feat \<le> batch * in_feat" by (intro mult_le_mono1) simp
  then have x: "length (slice x (b * in_feat) ((b + 1) * in_feat)) = in_feat" using assms(1) by simp
  have "dense_row w_f32 in_feat (slice x (b * in_feat) ((b + 1) * in_feat)) r
      = Ok (dot_spec (dot_term (slice x (b * in_feat) ((b + 1) * in_feat)) (slice w_f32 (r * in_feat) ((r + 1) * in_feat))) in_feat)"
    if "r < out_feat" for r
  proof -
    have "(r + 1) * in_feat \<le> out_feat * in_feat" using that by (intro mult_le_mono1) simp
    then have "(r + 1) * in_feat \<le> length w_f32" using assms(3) by simp
    then show ?thesis using x by (simp add: dense_row_def canonical_dot_eq)
  qed
  then show "\<exists>q. Ok (slice x (b * in_feat) ((b + 1) * in_feat)) = Ok q \<and> (\<forall>r<out_feat. dense_row w_f32 in_feat q r
      = Ok (dot_spec (dot_term (slice x (b * in_feat) ((b + 1) * in_feat)) (slice w_f32 (r * in_feat) ((r + 1) * in_feat))) in_feat))"
    by simp
qed

lemma rows_written_cong:
  "(\<And>b r. b < n \<Longrightarrow> r < out_feat \<Longrightarrow> v b r = v' b r) \<Longrightarrow> rows_written out_feat v y n = rows_written out_feat v' y n"
  unfolding rows_written_def by (intro arg_cong [of _ _ "\<lambda>z. z @ _"] arg_cong [of _ _ concat] map_cong) auto

lemma q4k_row_values:
  assumes "in_feat mod 256 = 0" and "length w = out_feat * q4k_row_bytes in_feat" and "r < out_feat"
  shows "q4_k.decoded (row_slice w (q4k_row_bytes in_feat) r) (in_feat div 256)
       = slice (q4_k.decoded w (out_feat * (in_feat div 256))) (r * in_feat) ((r + 1) * in_feat)"
proof -
  have m: "in_feat div 256 * 256 = in_feat" using assms(1) by auto
  have "length w = out_feat * (in_feat div 256 * 144)"
    using assms(2) by (simp add: q4k_row_bytes_def block_consts)
  from q4_k.decoded_row [OF this assms(3)] show ?thesis
    by (simp only: row_slice_def q4k_row_bytes_def block_consts m)
qed

lemma q6k_row_values:
  assumes "in_feat mod 256 = 0" and "length w = out_feat * q6k_row_bytes in_feat" and "r < out_feat"
  shows "q6_k.decoded (row_slice w (q6k_row_bytes in_feat) r) (in_feat div 256)
       = slice (q6_k.decoded w (out_feat * (in_feat div 256))) (r * in_feat) ((r + 1) * in_feat)"
proof -
  have m: "in_feat div 256 * 256 = in_feat" using assms(1) by auto
  have "length w = out_feat * (in_feat div 256 * 210)"
    using assms(2) by (simp add: q6k_row_bytes_def block_consts)
  from q6_k.decoded_row [OF this assms(3)] show ?thesis
    by (simp only: row_slice_def q6k_row_bytes_def block_consts m)
qed

lemma q4k_good_exact: "in_feat mod 256 = 0 \<Longrightarrow> length w = out_feat * q4k_row_bytes in_feat \<Longrightarrow> q4k_good w in_feat out_feat"
  by (simp add: q4k_good_def)

lemma q6k_good_exact: "in_feat mod 256 = 0 \<Longrightarrow> length w = out_feat * q6k_row_bytes in_feat \<Longrightarrow> q6k_good w in_feat out_feat"
  by (simp add: q6k_good_def)

text \<open>Decoding the whole weight first, or row by row: the same outputs.\<close>

lemma linear_q4_k_cpu_outputs:
  assumes "in_feat mod 256 = 0" and "length w = out_feat * q4k_row_bytes in_feat"
    and "length x = batch * in_feat" and "length y = batch * out_feat"
  shows "linear_q4_k_cpu x w y batch in_feat out_feat = Ok (q4f.outputs x w in_feat out_feat y batch)"
proof -
  let ?m = "in_feat div 256"
  have m: "?m * 256 = in_feat" using assms(1) by auto
  have "length w = (out_feat * ?m) * 144" using assms(2) by (simp add: q4k_row_bytes_def block_consts)
  then have dq: "dequantize_q4_k w = Ok (q4_k.decoded w (out_feat * ?m))" by (rule q4_k.dequant_decoded)
  have len: "length (q4_k.decoded w (out_feat * ?m)) = out_feat * in_feat"
    unfolding q4_k.length_decoded mult.assoc m ..
  show ?thesis
    unfolding linear_q4_k_cpu_def dq obind.simps len using assms(3,4)
    by (simp add: dense_rows_Ok len q4f.outputs_def q4k_fused_val_def q4k_row_values [OF assms(1,2)] cong: rows_written_cong)
qed

lemma linear_q6_k_cpu_outputs:
  assumes "in_feat mod 256 = 0" and "length w = out_feat * q6k_row_bytes in_feat"
    and "length x = batch * in_feat" and "length y = batch * out_feat"
  shows "linear_q6_k_cpu x w y batch in_feat out_feat = Ok (q6f.outputs x w in_feat out_feat y batch)"
proof -
  let ?m = "in_feat div 256"
  have m: "?m * 256 = in_feat" using assms(1) by auto
  have "length w = (out_feat * ?m) * 210" using assms(2) by (simp add: q6k_row_bytes_def block_consts)
  then have dq: "dequantize_q6_k w = Ok (q6_k.decoded w (out_feat * ?m))" by (rule q6_k.dequant_decoded)
  have len: "length (q6_k.decoded w (out_feat * ?m)) = out_feat * in_feat"
    unfolding q6_k.length_decoded mult.assoc m ..
  show ?thesis
    unfolding linear_q6_k_cpu_def dq obind.simps len using assms(3,4)
    by (simp add: dense_rows_Ok len q6f.outputs_def q6k_fused_val_def q6k_row_values [OF assms(1,2)] cong: rows_written_cong)
qed

text \<open>\<open>Tensor::linear_q4_0\<close> (\<open>src/src/tensor.rs\<close>).\<close>

definition tensor_linear_q4_0 :: "tensor \<Rightarrow> tensor \<Rightarrow> nat \<Rightarrow> tensor res" where
  "tensor_linear_q4_0 self w out_feat =
     (if t_dtype self \<noteq> F32 then internal ''linear_q4_0: input must be F32''
      else if t_dtype w \<noteq> Q4_0 then internal ''linear_q4_0: weight must be Q4_0''
      else if length (t_dims self) \<noteq> 2 then internal ''linear_q4_0: input must be 2D''
      else let batch = t_dims self ! 0; in_feat = t_dims self ! 1 in
        obind (storage_cpu_bytes self) (\<lambda>x_bytes. obind (storage_cpu_bytes w) (\<lambda>w_bytes.
        let x_f32 = map (\<lambda>i. le32 (slice x_bytes (4 * i) (4 * i + 4))) [0..<length x_bytes div 4] in
        obind (linear_q4_0_cpu x_f32 w_bytes (replicate (batch * out_feat) 0) batch in_feat out_feat) (\<lambda>y_f32.
        obind (shape_new [batch, out_feat]) (\<lambda>s. tensor_from_f32 y_f32 s)))))"

lemma linear_q4_0_cpu_outputs:
  assumes "in_feat mod 32 = 0" and "length w = out_feat * (in_feat div 32) * 18"
    and "length x = batch * in_feat" and "length y = batch * out_feat"
  shows "linear_q4_0_cpu x w y batch in_feat out_feat = Ok (rows_written out_feat
    (\<lambda>b r. dot_spec (dot_term (slice x (b * in_feat) ((b + 1) * in_feat))
      (slice (q4_0.decoded w (out_feat * (in_feat div 32))) (r * in_feat) ((r + 1) * in_feat))) in_feat) y batch)"
proof -
  have m: "in_feat div 32 * 32 = in_feat" using assms(1) by auto
  have dq: "dequantize_q4_0 w = Ok (q4_0.decoded w (out_feat * (in_feat div 32)))"
    using assms(2) by (rule q4_0.dequant_decoded)
  have len: "length (q4_0.decoded w (out_feat * (in_feat div 32))) = out_feat * in_feat"
    unfolding q4_0.length_decoded mult.assoc m ..
  show ?thesis
    unfolding linear_q4_0_cpu_def block_consts dq obind.simps
    using assms by (simp add: dense_rows_Ok len)
qed

lemma q4_k_parallel_eq:
  assumes "in_feat mod 256 = 0" and "batch * in_feat \<le> length x" and "batch * out_feat \<le> length y"
    and "\<And>b. fair_schedule out_feat (row_grain out_feat threads) (sched b)"
    and len: "out_feat * q4k_row_bytes in_feat \<le> length w"
  shows "linear_q4_k_fused_parallel x w y batch in_feat out_feat threads sched = linear_q4_k_fused x w y batch in_feat out_feat"
proof -
  have good: "q4k_good w in_feat out_feat" using assms(1) len by (simp add: q4k_good_def)
  have "parallel_rows x batch in_feat out_feat (row_grain out_feat threads) sched Ok
      (\<lambda>x_row r. unwrap_or_zero (q4k_fused_row w in_feat x_row r)) y = Ok (q4f.outputs x w in_feat out_feat y batch)"
    unfolding q4f.outputs_def
  proof (rule parallel_rows_Ok [OF _ assms(2,3) row_grain_pos assms(4)])
    show "\<exists>q. Ok (slice x (b * in_feat) ((b + 1) * in_feat)) = (Ok q :: f32 list res) \<and> (\<forall>r<out_feat.
        unwrap_or_zero (q4k_fused_row w in_feat q r) = Ok (q4k_fused_val w in_feat (slice x (b * in_feat) ((b + 1) * in_feat)) r))"
      if "b < batch" for b using q4f.rows_ok [OF good assms(2) that] by auto
  qed
  then show ?thesis
    using q4f.serial_eq [OF good assms(2,3)] assms(1) len
    by (simp add: linear_q4_k_fused_parallel_def linear_q4_k_fused_def block_consts not_less)
qed

lemma q6_k_parallel_eq:
  assumes "in_feat mod 256 = 0" and "batch * in_feat \<le> length x" and "batch * out_feat \<le> length y"
    and "\<And>b. fair_schedule out_feat (row_grain out_feat threads) (sched b)"
    and len: "out_feat * q6k_row_bytes in_feat \<le> length w"
  shows "linear_q6_k_fused_parallel x w y batch in_feat out_feat threads sched = linear_q6_k_fused x w y batch in_feat out_feat"
proof -
  have good: "q6k_good w in_feat out_feat" using assms(1) len by (simp add: q6k_good_def)
  have "parallel_rows x batch in_feat out_feat (row_grain out_feat threads) sched Ok
      (\<lambda>x_row r. unwrap_or_zero (q6k_fused_row w in_feat x_row r)) y = Ok (q6f.outputs x w in_feat out_feat y batch)"
    unfolding q6f.outputs_def
  proof (rule parallel_rows_Ok [OF _ assms(2,3) row_grain_pos assms(4)])
    show "\<exists>q. Ok (slice x (b * in_feat) ((b + 1) * in_feat)) = (Ok q :: f32 list res) \<and> (\<forall>r<out_feat.
        unwrap_or_zero (q6k_fused_row w in_feat q r) = Ok (q6k_fused_val w in_feat (slice x (b * in_feat) ((b + 1) * in_feat)) r))"
      if "b < batch" for b using q6f.rows_ok [OF good assms(2) that] by auto
  qed
  then show ?thesis
    using q6f.serial_eq [OF good assms(2,3)] assms(1) len
    by (simp add: linear_q6_k_fused_parallel_def linear_q6_k_fused_def block_consts not_less)
qed

lemma q4_k_integer_parallel_eq:
  assumes "in_feat mod 256 = 0" and "batch * in_feat \<le> length x" and "batch * out_feat \<le> length y"
    and "\<And>b. fair_schedule out_feat (row_grain out_feat threads) (sched b)"
    and len: "out_feat * q4k_row_bytes in_feat \<le> length w"
  shows "linear_q4_k_integer_parallel pair x w y batch in_feat out_feat threads sched = Ok (q4i.outputs fixed_tree pair x w in_feat out_feat y batch)"
    and "linear_q4_k_integer pair x w y batch in_feat out_feat = Ok (q4i.outputs fixed_tree pair x w in_feat out_feat y batch)"
proof -
  have good: "q4k_good w in_feat out_feat" using assms(1) len by (simp add: q4k_good_def)
  show ser: "linear_q4_k_integer pair x w y batch in_feat out_feat = Ok (q4i.outputs fixed_tree pair x w in_feat out_feat y batch)"
    using q4i.serial_eq [OF good assms(2,3)] assms(1) len by (simp add: linear_q4_k_integer_def block_consts not_less)
  show "linear_q4_k_integer_parallel pair x w y batch in_feat out_feat threads sched = Ok (q4i.outputs fixed_tree pair x w in_feat out_feat y batch)"
    using q4i.parallel_eq [OF good assms(2,3) row_grain_pos assms(4)] ser assms(1) len
    by (simp add: linear_q4_k_integer_parallel_def block_consts not_less)
qed

lemma q6_k_integer_parallel_eq:
  assumes "in_feat mod 256 = 0" and "batch * in_feat \<le> length x" and "batch * out_feat \<le> length y"
    and "\<And>b. fair_schedule out_feat (row_grain out_feat threads) (sched b)"
    and len: "out_feat * q6k_row_bytes in_feat \<le> length w"
  shows "linear_q6_k_integer_parallel x w y batch in_feat out_feat threads sched = Ok (q6i.outputs fixed_tree x w in_feat out_feat y batch)"
    and "linear_q6_k_integer x w y batch in_feat out_feat = Ok (q6i.outputs fixed_tree x w in_feat out_feat y batch)"
proof -
  have good: "q6k_good w in_feat out_feat" using assms(1) len by (simp add: q6k_good_def)
  show ser: "linear_q6_k_integer x w y batch in_feat out_feat = Ok (q6i.outputs fixed_tree x w in_feat out_feat y batch)"
    using q6i.serial_eq [OF good assms(2,3)] assms(1) len by (simp add: linear_q6_k_integer_def block_consts not_less)
  show "linear_q6_k_integer_parallel x w y batch in_feat out_feat threads sched = Ok (q6i.outputs fixed_tree x w in_feat out_feat y batch)"
    using q6i.parallel_eq [OF good assms(2,3) row_grain_pos assms(4)] ser assms(1) len
    by (simp add: linear_q6_k_integer_parallel_def block_consts not_less)
qed

subsection \<open>Properties\<close>

text \<open>
  The fused Q4_K layer returns, bit for bit, what decoding the whole matrix and taking
  \<open>canonical_dot\<close> per output returns, on buffers of the right shape.
\<close>

theorem linear_q4k_fused_is_cpu:
  assumes "in_feat mod 256 = 0" and "length w = out_feat * q4k_row_bytes in_feat"
    and "length x = batch * in_feat" and "length y = batch * out_feat"
  shows "linear_q4_k_fused x w y batch in_feat out_feat = linear_q4_k_cpu x w y batch in_feat out_feat"
  using assms q4f.serial_eq [OF q4k_good_exact [OF assms(1,2)], of batch x y]
  by (simp add: linear_q4_k_cpu_outputs linear_q4_k_fused_def block_consts)

theorem linear_q4k_fused_is_cpu_witness:
  "linear_q4_k_fused (replicate 512 f32_one) (replicate 432 7) (replicate 6 0) 2 256 3
   = linear_q4_k_cpu (replicate 512 f32_one) (replicate 432 7) (replicate 6 0) 2 256 3"
  by (rule linear_q4k_fused_is_cpu) (simp_all add: q4k_row_bytes_def block_consts)

text \<open>
  The same for Q6_K.
\<close>

theorem linear_q6k_fused_is_cpu:
  assumes "in_feat mod 256 = 0" and "length w = out_feat * q6k_row_bytes in_feat"
    and "length x = batch * in_feat" and "length y = batch * out_feat"
  shows "linear_q6_k_fused x w y batch in_feat out_feat = linear_q6_k_cpu x w y batch in_feat out_feat"
  using assms q6f.serial_eq [OF q6k_good_exact [OF assms(1,2)], of batch x y]
  by (simp add: linear_q6_k_cpu_outputs linear_q6_k_fused_def block_consts)

theorem linear_q6k_fused_is_cpu_witness:
  "linear_q6_k_fused (replicate 512 f32_one) (replicate 630 7) (replicate 6 0) 2 256 3
   = linear_q6_k_cpu (replicate 512 f32_one) (replicate 630 7) (replicate 6 0) 2 256 3"
  by (rule linear_q6k_fused_is_cpu) (simp_all add: q6k_row_bytes_def block_consts)

text \<open>
  C3: The row-parallel fused layers return exactly what the serial ones return, for every
  number of threads and every schedule of the rows; in particular the \<open>unwrap_or(0.0)\<close> of the
  parallel versions never replaces a value.
\<close>

theorem fused_parallel_is_serial:
  assumes "in_feat mod 256 = 0" and "batch * in_feat \<le> length x" and "batch * out_feat \<le> length y"
    and "\<And>b. fair_schedule out_feat (row_grain out_feat threads) (sched b)"
    and "out_feat * q4k_row_bytes in_feat \<le> length w" and "out_feat * q6k_row_bytes in_feat \<le> length v"
  shows "linear_q4_k_fused_parallel x w y batch in_feat out_feat threads sched = linear_q4_k_fused x w y batch in_feat out_feat \<and>
    linear_q6_k_fused_parallel x v y batch in_feat out_feat threads sched = linear_q6_k_fused x v y batch in_feat out_feat"
  using q4_k_parallel_eq [OF assms(1-5)] q6_k_parallel_eq [OF assms(1-4,6)] by simp

definition sample_schedule :: "nat \<Rightarrow> (nat \<times> nat) list" where
  "sample_schedule b = (if b = 0 then [(2, 0), (0, 0), (1, 0)] else [(1, 0), (2, 0), (0, 0)])"

lemma sample_schedule_fair: "fair_schedule 3 (row_grain 3 2) (sample_schedule b)"
proof -
  have "i < 1 \<and> t * 1 + i < 3 \<longleftrightarrow> i = 0 \<and> (t = 0 \<or> t = 1 \<or> t = 2)" for t i :: nat by auto
  then show ?thesis by (auto simp: fair_schedule_def row_grain_def sample_schedule_def)
qed

theorem fused_parallel_is_serial_witness:
  "linear_q4_k_fused_parallel (replicate 512 f32_one) (replicate 432 7) (replicate 6 0) 2 256 3 2 sample_schedule
    = linear_q4_k_fused (replicate 512 f32_one) (replicate 432 7) (replicate 6 0) 2 256 3 \<and>
   linear_q6_k_fused_parallel (replicate 512 f32_one) (replicate 630 7) (replicate 6 0) 2 256 3 2 sample_schedule
    = linear_q6_k_fused (replicate 512 f32_one) (replicate 630 7) (replicate 6 0) 2 256 3"
  by (rule fused_parallel_is_serial [OF _ _ _ sample_schedule_fair])
     (simp_all add: q4k_row_bytes_def q6k_row_bytes_def block_consts)

text \<open>
  C2: The integer Q4_K layer gives the same bits on every target and machine: scalar or NEON
  dot pair, serial or parallel, any thread count, any schedule.
\<close>

theorem integer_q4k_any_target:
  assumes "in_feat mod 256 = 0" and "batch * in_feat \<le> length x" and "batch * out_feat \<le> length y"
    and "\<And>b. fair_schedule out_feat (row_grain out_feat threads) (sched b)"
    and "out_feat * q4k_row_bytes in_feat \<le> length w"
  shows "linear_q4_k_integer_parallel dot32_pair_neon x w y batch in_feat out_feat threads sched
    = linear_q4_k_integer dot32_pair_scalar x w y batch in_feat out_feat"
proof -
  have good: "q4k_good w in_feat out_feat" using assms(1,5) by (simp add: q4k_good_def)
  have "q4i.outputs fixed_tree dot32_pair_neon x w in_feat out_feat y batch
      = q4i.outputs fixed_tree dot32_pair_scalar x w in_feat out_feat y batch"
    unfolding q4i.outputs_def
  proof (rule rows_written_cong)
    fix b r assume "b < batch" and r: "r < out_feat"
    then have "(b + 1) * in_feat \<le> batch * in_feat" by (intro mult_le_mono1) simp
    then have "length (slice x (b * in_feat) ((b + 1) * in_feat)) = in_feat" using assms(2) by simp
    from q4k_int_vals_pair [OF exact_pair_neon exact_pair_scalar good r this]
    show "fixed_tree (q4k_int_vals dot32_pair_neon w in_feat (slice x (b * in_feat) ((b + 1) * in_feat)) r)
      = fixed_tree (q4k_int_vals dot32_pair_scalar w in_feat (slice x (b * in_feat) ((b + 1) * in_feat)) r)" by simp
  qed
  then show ?thesis using q4_k_integer_parallel_eq [OF assms] by simp
qed

theorem integer_q4k_any_target_witness:
  "linear_q4_k_integer_parallel dot32_pair_neon (replicate 512 f32_one) (replicate 432 7) (replicate 6 0) 2 256 3 2 sample_schedule
   = linear_q4_k_integer dot32_pair_scalar (replicate 512 f32_one) (replicate 432 7) (replicate 6 0) 2 256 3"
  by (rule integer_q4k_any_target [OF _ _ _ sample_schedule_fair]) (simp_all add: q4k_row_bytes_def block_consts)

text \<open>
  The row-parallel integer Q6_K layer equals the serial one under every schedule.
\<close>

theorem integer_q6k_parallel_is_serial:
  assumes "in_feat mod 256 = 0" and "batch * in_feat \<le> length x" and "batch * out_feat \<le> length y"
    and "\<And>b. fair_schedule out_feat (row_grain out_feat threads) (sched b)"
    and "out_feat * q6k_row_bytes in_feat \<le> length w"
  shows "linear_q6_k_integer_parallel x w y batch in_feat out_feat threads sched
    = linear_q6_k_integer x w y batch in_feat out_feat"
  using q6_k_integer_parallel_eq [OF assms] by simp

theorem integer_q6k_parallel_is_serial_witness:
  "linear_q6_k_integer_parallel (replicate 512 f32_one) (replicate 630 7) (replicate 6 0) 2 256 3 2 sample_schedule
   = linear_q6_k_integer (replicate 512 f32_one) (replicate 630 7) (replicate 6 0) 2 256 3"
  by (rule integer_q6k_parallel_is_serial [OF _ _ _ sample_schedule_fair]) (simp_all add: q6k_row_bytes_def block_consts)

end
