(* ===== verification/Ops.thy ===== *)
theory Ops
  imports Tensor Reduction
begin

text \<open>
  The tensor operations of \<open>src/src/ops\<close>: element-wise maps, argmax, embedding lookup, softmax,
  RMS norm, rotary embedding and matrix product. The transcendental functions come from the
  \<open>libm\<close> crate, which is not part of the repository: they are the fields of a record that every
  operation takes.
\<close>

record libm =
  expf :: "f32 \<Rightarrow> f32"
  erff :: "f32 \<Rightarrow> f32"
  powf :: "f32 \<Rightarrow> f32 \<Rightarrow> f32"
  cosf :: "f32 \<Rightarrow> f32"
  sinf :: "f32 \<Rightarrow> f32"
  sqrtf :: "f32 \<Rightarrow> f32"

definition CONTIG :: string where "CONTIG = ''a contiguous layout is required''"

text \<open>The sign for ``at least'' of the error messages, in UTF-8.\<close>

definition GE_SIGN :: string where "GE_SIGN = [CHR 0xE2, CHR 0x89, CHR 0xA5]"

subsection \<open>Element-wise operations\<close>

definition unary_apply :: "tensor \<Rightarrow> string \<Rightarrow> (f32 \<Rightarrow> f32) \<Rightarrow> tensor res" where
  "unary_apply t op f =
     (if t_dtype t \<noteq> F32 then Err (NotImplemented op ''F32 only'')
      else if \<not> is_contiguous t then Err (NotImplemented op CONTIG)
      else case t_storage t of
        StGpu _ \<Rightarrow> Err (NotImplemented op ''CPU-only'')
      | StCpu s \<Rightarrow> tensor_from_f32 (map f (as_f32_slice s)) (t_shape t))"

definition f32_sqrt1_2 :: f32 where "f32_sqrt1_2 = 0x3F3504F3"
definition f32_0_5 :: f32 where "f32_0_5 = 0x3F000000"

definition silu :: "libm \<Rightarrow> tensor \<Rightarrow> tensor res" where
  "silu lm t = unary_apply t ''silu'' (\<lambda>x. f32_div x (f32_add f32_one (expf lm (f32_neg x))))"

definition gelu :: "libm \<Rightarrow> tensor \<Rightarrow> tensor res" where
  "gelu lm t = unary_apply t ''gelu'' (\<lambda>x. f32_mul (f32_mul f32_0_5 x)
     (f32_add f32_one (erff lm (f32_mul x f32_sqrt1_2))))"

definition recip :: "tensor \<Rightarrow> tensor res" where
  "recip t = unary_apply t ''recip'' (\<lambda>x. f32_div f32_one x)"

definition check_compatible :: "string \<Rightarrow> tensor \<Rightarrow> tensor \<Rightarrow> unit res" where
  "check_compatible op lhs rhs =
     (if \<not> same_device (t_device lhs) (t_device rhs) then Err (DeviceMismatch op)
      else if t_dtype lhs \<noteq> t_dtype rhs then Err (DTypeMismatch (dtype_str (t_dtype lhs)) (dtype_str (t_dtype rhs)))
      else if t_dims lhs \<noteq> t_dims rhs then Err (ShapeMismatch ''matching shape'' ''different shape'')
      else Ok ())"

definition binary_apply :: "tensor \<Rightarrow> tensor \<Rightarrow> (f32 \<Rightarrow> f32 \<Rightarrow> f32) \<Rightarrow> tensor res" where
  "binary_apply lhs rhs f =
     (if t_dtype lhs \<noteq> F32 then Err (NotImplemented ''binary'' ''F32 only'')
      else if \<not> is_contiguous lhs \<or> \<not> is_contiguous rhs then Err (NotImplemented ''binary'' CONTIG)
      else case (t_storage lhs, t_storage rhs) of
        (StCpu l, StCpu r) \<Rightarrow> tensor_from_f32 (map2 f (as_f32_slice l) (as_f32_slice r)) (t_shape lhs)
      | _ \<Rightarrow> Err (NotImplemented ''binary'' ''CPU-only''))"

definition binary_op :: "string \<Rightarrow> (f32 \<Rightarrow> f32 \<Rightarrow> f32) \<Rightarrow> tensor \<Rightarrow> tensor \<Rightarrow> tensor res" where
  "binary_op op f lhs rhs = obind (check_compatible op lhs rhs) (\<lambda>_. binary_apply lhs rhs f)"

definition tensor_add :: "tensor \<Rightarrow> tensor \<Rightarrow> tensor res" where "tensor_add = binary_op ''add'' f32_add"
definition tensor_sub :: "tensor \<Rightarrow> tensor \<Rightarrow> tensor res" where "tensor_sub = binary_op ''sub'' f32_sub"
definition tensor_mul :: "tensor \<Rightarrow> tensor \<Rightarrow> tensor res" where "tensor_mul = binary_op ''mul'' f32_mul"
definition tensor_div :: "tensor \<Rightarrow> tensor \<Rightarrow> tensor res" where "tensor_div = binary_op ''div'' f32_div"

subsection \<open>Argmax\<close>

definition argmax_row :: "f32 list \<Rightarrow> nat" where
  "argmax_row row = fst (foldl (\<lambda>(best_idx, best_val) i.
     if f32_lt best_val (row ! i) then (i, row ! i) else (best_idx, best_val)) (0, row ! 0) [1..<length row])"

text \<open>\<open>a / b\<close> on \<open>usize\<close>: panics on zero.\<close>

definition odiv :: "nat \<Rightarrow> nat \<Rightarrow> nat res" where
  "odiv a b = (if b = 0 then Panic else Ok (a div b))"

definition argmax_last_dim :: "tensor \<Rightarrow> tensor res" where
  "argmax_last_dim t =
     (if t_dtype t \<noteq> F32 then Err (DTypeMismatch ''f32'' (dtype_str (t_dtype t)))
      else if \<not> is_contiguous t then Err (NotImplemented ''argmax'' CONTIG)
      else case t_storage t of
        StGpu _ \<Rightarrow> Err (NotImplemented ''argmax'' ''CPU-only'')
      | StCpu s \<Rightarrow> let xs = as_f32_slice s; dims = t_dims t in
          if dims = [] then Err (InvalidShape (''argmax requires rank '' @ GE_SIGN @ '' 1''))
          else let w = last dims in
            obind (odiv (length xs) w) (\<lambda>rows.
            obind (omapM (\<lambda>r. omap (\<lambda>row. of_nat (argmax_row row)) (oslice xs (r * w) ((r + 1) * w))) [0..<rows]) (\<lambda>res.
            if rows = 1 then obind (shape_new [1]) (tensor_from_u32 res)
            else obind (shape_new (take (length dims - 1) dims)) (tensor_from_u32 res))))"

subsection \<open>Embedding\<close>

definition embedding :: "tensor \<Rightarrow> tensor \<Rightarrow> tensor res" where
  "embedding indices weight =
     (if t_dtype indices \<noteq> U32 then Err (DTypeMismatch ''u32'' (dtype_str (t_dtype indices)))
      else if t_dtype weight \<noteq> F32 then Err (DTypeMismatch ''f32'' (dtype_str (t_dtype weight)))
      else if sh_rank (t_shape weight) \<noteq> 2 then Err (InvalidShape ''embedding: weight must be rank-2'')
      else if sh_rank (t_shape indices) \<noteq> 1 then Err (NotImplemented ''embedding'' ''only rank-1 indices are supported'')
      else if \<not> is_contiguous indices \<or> \<not> is_contiguous weight then Err (NotImplemented ''embedding'' CONTIG)
      else let vocab = t_dims weight ! 0; dim = t_dims weight ! 1; seq = t_dims indices ! 0 in
        case (t_storage indices, t_storage weight) of
          (StCpu ix_s, StCpu w_s) \<Rightarrow>
            let ix_bytes = as_bytes ix_s; w = as_f32_slice w_s in
            obind (oloop (\<lambda>buf s. obind (oslice ix_bytes (s * 4) (s * 4 + 4)) (\<lambda>bs.
                let ix = unat (le32 bs) in
                if vocab \<le> ix then Err (InvalidShape ''embedding: index out of vocab range'')
                else omap (\<lambda>src. splice buf (s * dim) src) (oslice w (ix * dim) ((ix + 1) * dim))))
              [0..<seq] (replicate (seq * dim) 0)) (\<lambda>out_data.
            obind (shape_new [seq, dim]) (tensor_from_f32 out_data))
        | _ \<Rightarrow> Err (NotImplemented ''embedding'' ''CPU-only''))"

subsection \<open>Softmax and RMS norm\<close>

definition row_max :: "f32 list \<Rightarrow> f32" where
  "row_max row = foldl (\<lambda>mx v. if f32_lt mx v then v else mx) f32_neg_infinity row"

definition softmax_row :: "libm \<Rightarrow> f32 list \<Rightarrow> f32 list res" where
  "softmax_row lm row =
     (let mx = row_max row; out_row = map (\<lambda>v. expf lm (f32_sub v mx)) row in
      obind (canonical_sum out_row (length row)) (\<lambda>s. let iv = f32_div f32_one s in
      Ok (map (\<lambda>v. f32_mul v iv) out_row)))"

definition softmax_last_dim :: "libm \<Rightarrow> tensor \<Rightarrow> tensor res" where
  "softmax_last_dim lm t =
     (if t_dtype t \<noteq> F32 then Err (NotImplemented ''softmax'' ''F32 only'')
      else if \<not> is_contiguous t then Err (NotImplemented ''softmax'' CONTIG)
      else case t_storage t of
        StGpu _ \<Rightarrow> Err (NotImplemented ''softmax'' ''CPU-only'')
      | StCpu s \<Rightarrow> let xs = as_f32_slice s; dims = t_dims t in
          if dims = [] then Err (InvalidShape (''softmax requires rank '' @ GE_SIGN @ '' 1''))
          else let w = last dims in
            obind (odiv (length xs) w) (\<lambda>rows.
            obind (oloop (\<lambda>buf r. omap (\<lambda>v. splice buf (r * w) v)
                (obind (oslice xs (r * w) ((r + 1) * w)) (softmax_row lm))) [0..<rows] (replicate (length xs) 0)) (\<lambda>buf.
            tensor_from_f32 buf (t_shape t))))"

definition rms_row :: "libm \<Rightarrow> f32 list \<Rightarrow> f32 \<Rightarrow> f32 list \<Rightarrow> f32 list res" where
  "rms_row lm ws eps row =
     (let feat = length row in
      obind (canonical_dot row row feat) (\<lambda>sumsq.
      let mean = f32_div sumsq (f32_of_nat feat);
          scale = f32_div f32_one (sqrtf lm (f32_add mean eps)) in
      omapM (\<lambda>i. omap (\<lambda>wi. f32_mul (f32_mul (row ! i) scale) wi) (oget ws i)) [0..<feat]))"

definition rms_norm_slice :: "libm \<Rightarrow> tensor \<Rightarrow> f32 list \<Rightarrow> f32 \<Rightarrow> tensor res" where
  "rms_norm_slice lm x ws eps =
     (if t_dtype x \<noteq> F32 then Err (NotImplemented ''rms_norm'' ''F32 only'')
      else if \<not> is_contiguous x then Err (NotImplemented ''rms_norm'' CONTIG)
      else if t_dims x = [] then Err (InvalidShape (''rms_norm requires rank '' @ GE_SIGN @ '' 1''))
      else let feat = last (t_dims x) in
        if length ws \<noteq> feat then Err (ShapeMismatch ''weight length == last dim of x'' ''weight mismatch'')
        else case t_storage x of
          StGpu _ \<Rightarrow> Err (NotImplemented ''rms_norm'' ''CPU-only'')
        | StCpu s \<Rightarrow> let xs = as_f32_slice s in
            obind (odiv (length xs) feat) (\<lambda>rows.
            obind (oloop (\<lambda>buf r. omap (\<lambda>v. splice buf (r * feat) v)
                (obind (oslice xs (r * feat) ((r + 1) * feat)) (rms_row lm ws eps))) [0..<rows] (replicate (length xs) 0)) (\<lambda>buf.
            tensor_from_f32 buf (t_shape x))))"

definition rms_norm :: "libm \<Rightarrow> tensor \<Rightarrow> tensor \<Rightarrow> f32 \<Rightarrow> tensor res" where
  "rms_norm lm x weight eps =
     (if t_dtype x \<noteq> F32 \<or> t_dtype weight \<noteq> F32 then Err (NotImplemented ''rms_norm'' ''F32 only'')
      else if \<not> is_contiguous x \<or> \<not> is_contiguous weight then Err (NotImplemented ''rms_norm'' CONTIG)
      else if t_dims x = [] then Err (InvalidShape (''rms_norm requires rank '' @ GE_SIGN @ '' 1''))
      else let feat = last (t_dims x) in
        if sh_rank (t_shape weight) \<noteq> 1 \<or> t_dims weight ! 0 \<noteq> feat
        then Err (ShapeMismatch ''weight length == last dim of x'' ''weight mismatch'')
        else case t_storage weight of
          StGpu _ \<Rightarrow> Err (NotImplemented ''rms_norm'' ''CPU-only'')
        | StCpu ws \<Rightarrow> rms_norm_slice lm x (as_f32_slice ws) eps)"


subsection \<open>Rotary position embedding\<close>

definition rope_inv_freq :: "libm \<Rightarrow> f32 \<Rightarrow> nat \<Rightarrow> f32 list" where
  "rope_inv_freq lm theta head_dim =
     map (\<lambda>i. f32_div f32_one (powf lm theta (f32_div (f32_of_nat (2 * i)) (f32_of_nat head_dim))))
       [0..<head_dim div 2]"

definition rope_pair :: "f32 list \<Rightarrow> f32 list \<Rightarrow> f32 list \<Rightarrow> nat \<Rightarrow> f32 list \<Rightarrow> nat \<Rightarrow> f32 list res" where
  "rope_pair xs cos_cache sin_cache head_off buf i =
     obind (oget xs (head_off + 2 * i)) (\<lambda>a. obind (oget xs (head_off + 2 * i + 1)) (\<lambda>b.
     obind (oget cos_cache i) (\<lambda>c. obind (oget sin_cache i) (\<lambda>s.
     obind (oset buf (head_off + 2 * i) (f32_sub (f32_mul a c) (f32_mul b s))) (\<lambda>buf.
     oset buf (head_off + 2 * i + 1) (f32_add (f32_mul a s) (f32_mul b c)))))))"

definition rope_token :: "libm \<Rightarrow> f32 list \<Rightarrow> f32 list \<Rightarrow> nat \<Rightarrow> nat \<Rightarrow> nat \<Rightarrow> f32 list \<Rightarrow> nat \<Rightarrow> f32 list res" where
  "rope_token lm inv_freq xs position_offset n_heads head_dim buf s_idx =
     (let pos = f32_of_nat (position_offset + s_idx); half = head_dim div 2;
          cos_cache = map (\<lambda>i. cosf lm (f32_mul pos (inv_freq ! i))) [0..<half];
          sin_cache = map (\<lambda>i. sinf lm (f32_mul pos (inv_freq ! i))) [0..<half] in
      oloop (\<lambda>buf h_idx. oloop (rope_pair xs cos_cache sin_cache ((s_idx * n_heads + h_idx) * head_dim))
         [0..<half] buf) [0..<n_heads] buf)"

definition rope :: "libm \<Rightarrow> tensor \<Rightarrow> f32 \<Rightarrow> nat \<Rightarrow> tensor res" where
  "rope lm t theta position_offset =
     (if t_dtype t \<noteq> F32 then Err (NotImplemented ''rope'' ''F32 only'')
      else if \<not> is_contiguous t then Err (NotImplemented ''rope'' CONTIG)
      else if sh_rank (t_shape t) \<noteq> 3 then Err (ShapeMismatch ''[seq, n_heads, head_dim]'' ''non-rank-3 input'')
      else let sq = t_dims t ! 0; n_heads = t_dims t ! 1; head_dim = t_dims t ! 2 in
        if head_dim mod 2 \<noteq> 0 then Err (InvalidShape ''rope: head_dim must be even'')
        else case t_storage t of
          StGpu _ \<Rightarrow> Err (NotImplemented ''rope'' ''CPU-only'')
        | StCpu s \<Rightarrow> let xs = as_f32_slice s in
            obind (oloop (rope_token lm (rope_inv_freq lm theta head_dim) xs position_offset n_heads head_dim)
               [0..<sq] (replicate (length xs) 0)) (\<lambda>buf. tensor_from_f32 buf (t_shape t)))"

subsection \<open>Matrix product\<close>

definition CANON_BLOCK :: nat where "CANON_BLOCK = 8"

definition matmul_col :: "f32 list \<Rightarrow> nat \<Rightarrow> nat \<Rightarrow> nat \<Rightarrow> f32 list \<Rightarrow> f32 list res" where
  "matmul_col b k n j col =
     (if n = 1 then oslice b 0 k
      else oloop (\<lambda>col kk. obind (oget b (kk * n + j)) (oset col kk)) [0..<k] col)"

definition matmul_loop :: "f32 list \<Rightarrow> f32 list \<Rightarrow> nat \<Rightarrow> nat \<Rightarrow> nat \<Rightarrow> f32 list res" where
  "matmul_loop a b m k n = omap fst
     (oloop (\<lambda>(buf, col) j.
        if k = 0 then omap (\<lambda>buf. (buf, col)) (oloop (\<lambda>buf i. oset buf (i * n + j) 0) [0..<m] buf)
        else obind (matmul_col b k n j col) (\<lambda>col. omap (\<lambda>buf. (buf, col))
          (oloop (\<lambda>buf i. obind (oslice a (i * k) (i * k + k)) (\<lambda>row.
              obind (canonical_dot row col k) (oset buf (i * n + j)))) [0..<m] buf)))
      [0..<n] (replicate (m * n) 0, replicate k 0))"

definition matmul :: "tensor \<Rightarrow> tensor \<Rightarrow> tensor res" where
  "matmul lhs rhs =
     (if \<not> same_device (t_device lhs) (t_device rhs) then Err (DeviceMismatch ''matmul'')
      else if t_dtype lhs \<noteq> F32 \<or> t_dtype rhs \<noteq> F32 then Err (NotImplemented ''matmul'' ''F32 only'')
      else if sh_rank (t_shape lhs) \<noteq> 2 \<or> sh_rank (t_shape rhs) \<noteq> 2
      then Err (NotImplemented ''matmul'' ''rank-2 inputs only'')
      else if \<not> is_contiguous lhs \<or> \<not> is_contiguous rhs then Err (NotImplemented ''matmul'' CONTIG)
      else let m = t_dims lhs ! 0; k_l = t_dims lhs ! 1; k_r = t_dims rhs ! 0; n = t_dims rhs ! 1 in
        if k_l \<noteq> k_r then Err (ShapeMismatch ''lhs cols == rhs rows'' ''k mismatch'')
        else case t_storage lhs of
          StGpu _ \<Rightarrow> Err (NotImplemented ''matmul'' ''CPU-only'')
        | StCpu ls \<Rightarrow> (case t_storage rhs of
            StGpu _ \<Rightarrow> Err (NotImplemented ''matmul'' ''CPU-only'')
          | StCpu rs \<Rightarrow> obind (matmul_loop (as_f32_slice ls) (as_f32_slice rs) m k_l n) (\<lambda>buf.
              obind (shape_new [m, n]) (tensor_from_f32 buf))))"

datatype ExCertMode = Off | PerInference | PerOp

definition excert_default :: ExCertMode where "excert_default = Off"

subsection \<open>Argmax picks the first maximum\<close>

lemma argmax_loop:
  assumes "0 < n" and "n \<le> length row" and "\<forall>x\<in>set row. \<not> f32_is_nan x"
  defines "r \<equiv> foldl (\<lambda>(best_idx, best_val) i.
     if f32_lt best_val (row ! i) then (i, row ! i) else (best_idx, best_val)) (0, row ! 0) [1..<n]"
  shows "fst r < n \<and> snd r = row ! fst r \<and> (\<forall>j<n. \<not> f32_lt (row ! fst r) (row ! j)) \<and>
    (\<forall>j<fst r. f32_lt (row ! j) (row ! fst r))"
  using assms(1,2) unfolding r_def
proof (induction n rule: nat_induct_non_zero)
  case 1
  then show ?case by simp
next
  case (Suc n)
  define q where "q = foldl (\<lambda>(best_idx, best_val) i.
     if f32_lt best_val (row ! i) then (i, row ! i) else (best_idx, best_val)) (0, row ! 0) [1..<n]"
  have IH: "fst q < n" "snd q = row ! fst q" "\<forall>j<n. \<not> f32_lt (row ! fst q) (row ! j)"
    "\<forall>j<fst q. f32_lt (row ! j) (row ! fst q)"
    using Suc by (auto simp: q_def)
  have nn: "\<not> f32_is_nan (row ! j)" if "j < Suc n" for j using that Suc.prems assms(3) by simp
  have step: "foldl (\<lambda>(best_idx, best_val) i.
     if f32_lt best_val (row ! i) then (i, row ! i) else (best_idx, best_val)) (0, row ! 0) [1..<Suc n]
     = (if f32_lt (snd q) (row ! n) then (n, row ! n) else q)"
    using Suc.hyps by (cases q) (simp add: q_def [symmetric, unfolded One_nat_def])
  show ?case
  proof (cases "f32_lt (row ! fst q) (row ! n)")
    case True
    have lt_n: "f32_lt (row ! j) (row ! n)" if "j < n" for j
      using that True IH(3) nn by (auto simp: f32_lt_def)
    then have "\<not> f32_lt (row ! n) (row ! j)" if "j < Suc n" for j
      using that lt_n [of j] f32_lt_trans [of "row ! n" "row ! j" "row ! n"] by (cases "j = n") auto
    then show ?thesis
      unfolding step using True lt_n IH by simp
  next
    case False
    then show ?thesis unfolding step using IH by (auto simp: less_Suc_eq)
  qed
qed


lemma argmax_row_first_max:
  assumes "row \<noteq> []" and "\<forall>x\<in>set row. \<not> f32_is_nan x"
  shows "argmax_row row < length row" and "\<And>j. j < length row \<Longrightarrow> \<not> f32_lt (row ! argmax_row row) (row ! j)"
    and "\<And>j. j < argmax_row row \<Longrightarrow> f32_lt (row ! j) (row ! argmax_row row)"
  using argmax_loop [of "length row" row] assms by (auto simp: argmax_row_def)

subsection \<open>The matrix product, entry by entry\<close>

definition mat_row :: "f32 list \<Rightarrow> nat \<Rightarrow> nat \<Rightarrow> f32 list" where
  "mat_row a k i = slice a (i * k) (i * k + k)"

definition mat_col :: "f32 list \<Rightarrow> nat \<Rightarrow> nat \<Rightarrow> nat \<Rightarrow> f32 list" where
  "mat_col b k n j = map (\<lambda>t. b ! (t * n + j)) [0..<k]"

lemma row_bound: "i < (m::nat) \<Longrightarrow> j < n \<Longrightarrow> i * n + j < m * n"
  by (metis add_less_cancel_left less_le_trans mult_Suc mult_le_mono1 Suc_leI add.commute)

lemma row_bound_le: "i < (m::nat) \<Longrightarrow> i * k + k \<le> m * k"
  by (metis Suc_leI add.commute mult_Suc mult_le_mono1)

lemma row_col_inj: "i * n + j = i' * n + j' \<Longrightarrow> j < n \<Longrightarrow> j' < n \<Longrightarrow> i = i' \<and> j = (j' :: nat)"
  by (metis add.commute add_left_cancel div_mult_self3 div_less mult.commute add_0 not_less0)

lemma matmul_col_Ok:
  assumes "length b = k * n" and "j < n" and "length col = k"
  shows "matmul_col b k n j col = (Ok (mat_col b k n j) :: f32 list res)"
proof (cases "n = 1")
  case True
  then show ?thesis using assms
    by (auto simp: matmul_col_def mat_col_def oslice_def intro!: nth_equalityI)
next
  case False
  have "oloop (\<lambda>col kk. obind (oget b (kk * n + j)) (oset col kk)) [0..<k] col
      = (Ok (foldl (\<lambda>col kk. col[kk := b ! (kk * n + j)]) col [0..<k]) :: f32 list res)"
    by (rule oloop_Ok_inv [where P = "\<lambda>c. length c = k"]) (use assms row_bound in auto)
  then show ?thesis using False assms(3) by (simp add: matmul_col_def mat_col_def foldl_update_all)
qed

definition mat_entry :: "f32 list \<Rightarrow> f32 list \<Rightarrow> nat \<Rightarrow> nat \<Rightarrow> nat \<Rightarrow> nat \<Rightarrow> f32" where
  "mat_entry a b k n i j = dot_spec (dot_term (mat_row a k i) (mat_col b k n j)) k"

lemma mat_entry_dot:
  assumes "length a = m * k" and "i < m"
  shows "canonical_dot (mat_row a k i) (mat_col b k n j) k = Ok (mat_entry a b k n i j)"
  using canonical_dot_eq [of k "mat_row a k i" "mat_col b k n j"] assms row_bound_le [OF assms(2), of k]
  by (simp add: mat_row_def mat_col_def mat_entry_def)

lemma mat_entry_0: "mat_entry a b 0 n i j = 0"
  by (simp add: mat_entry_def dot_spec_def)

lemma matmul_col_loop:
  assumes "length a = m * k" and "j < n" and "length buf = m * n"
  shows "oloop (\<lambda>buf i. obind (oslice a (i * k) (i * k + k)) (\<lambda>row.
              obind (canonical_dot row (mat_col b k n j) k) (oset buf (i * n + j)))) [0..<m] buf
    = Ok (foldl (\<lambda>buf i. buf[i * n + j := mat_entry a b k n i j]) buf [0..<m])"
proof (rule oloop_Ok_inv [where P = "\<lambda>c. length c = m * n"])
  fix s :: "f32 list" and i assume "i \<in> set [0..<m]" and s: "length s = m * n"
  then have i: "i < m" by simp
  have "oslice a (i * k) (i * k + k) = (Ok (mat_row a k i) :: f32 list res)"
    using row_bound_le [OF i, of k] assms(1) by (simp add: mat_row_def)
  moreover have "i * n + j < length s" using row_bound [OF i assms(2)] s by simp
  ultimately show "obind (oslice a (i * k) (i * k + k)) (\<lambda>row.
        obind (canonical_dot row (mat_col b k n j) k) (oset s (i * n + j)))
      = Ok (s[i * n + j := mat_entry a b k n i j])"
    by (simp add: mat_entry_dot [OF assms(1) i])
qed (use assms in auto)


definition mat_entries :: "f32 list \<Rightarrow> f32 list \<Rightarrow> nat \<Rightarrow> nat \<Rightarrow> nat \<Rightarrow> f32 list" where
  "mat_entries a b m k n =
     foldl (\<lambda>buf p. buf[fst p * n + snd p := mat_entry a b k n (fst p) (snd p)]) (replicate (m * n) 0)
       (concat (map (\<lambda>j. map (\<lambda>i. (i, j)) [0..<m]) [0..<n]))"

lemma foldl_map_pair: "foldl (\<lambda>s p. f s (fst p) (snd p)) s (map (\<lambda>i. (i, j)) is) = foldl (\<lambda>s i. f s i j) s is"
  by (induction "is" arbitrary: s) auto

lemma matmul_loop_Ok:
  assumes "length a = m * k" and "length b = k * n"
  shows "matmul_loop a b m k n = Ok (mat_entries a b m k n)"
proof -
  let ?w = "\<lambda>buf j. foldl (\<lambda>buf i. buf[i * n + j := mat_entry a b k n i j]) buf [0..<m]"
  let ?g = "\<lambda>(buf, col) j. (?w buf j, if k = 0 then col else mat_col b k n j)"
  let ?body = "\<lambda>(buf, col) j.
        if k = 0 then omap (\<lambda>buf. (buf, col)) (oloop (\<lambda>buf i. oset buf (i * n + j) 0) [0..<m] buf)
        else obind (matmul_col b k n j col) (\<lambda>col. omap (\<lambda>buf. (buf, col))
          (oloop (\<lambda>buf i. obind (oslice a (i * k) (i * k + k)) (\<lambda>row.
              obind (canonical_dot row col k) (oset buf (i * n + j)))) [0..<m] buf))"
  have "oloop ?body [0..<n] (replicate (m * n) 0, replicate k 0)
      = (Ok (foldl ?g (replicate (m * n) 0, replicate k 0) [0..<n]) :: (f32 list \<times> f32 list) res)"
  proof (rule oloop_Ok_inv [where P = "\<lambda>(buf, col). length buf = m * n \<and> length col = k"])
    fix s :: "f32 list \<times> f32 list" and j assume "j \<in> set [0..<n]" and inv: "case s of (buf, col) \<Rightarrow> length buf = m * n \<and> length col = k"
    then have j: "j < n" by simp
    obtain buf col where s: "s = (buf, col)" by (cases s)
    have len: "length buf = m * n" "length col = k" using inv s by auto
    show "?body s j = (Ok (?g s j) :: (f32 list \<times> f32 list) res)"
    proof (cases "k = 0")
      case True
      have "oloop (\<lambda>buf i. oset buf (i * n + j) 0) [0..<m] buf = (Ok (?w buf j) :: f32 list res)"
        by (rule oloop_Ok_inv [where P = "\<lambda>c. length c = m * n"]) (use True j len row_bound in \<open>auto simp: mat_entry_0\<close>)
      then show ?thesis using True by (simp add: s)
    next
      case False
      then show ?thesis using matmul_col_Ok [OF assms(2) j len(2)] matmul_col_loop [OF assms(1) j len(1)]
        by (simp add: s)
    qed
    show "case ?g s j of (buf, col) \<Rightarrow> length buf = m * n \<and> length col = k"
      using len by (auto simp: s mat_col_def)
  qed simp
  moreover have "fst (foldl ?g s js) = foldl ?w (fst s) js" for s js
    by (induction js arbitrary: s) auto
  ultimately show ?thesis
    by (simp add: matmul_loop_def mat_entries_def foldl_concat_map
        foldl_map_pair [where f = "\<lambda>buf i j. buf[i * n + j := mat_entry a b k n i j]"])
qed

lemma mat_entries_nth:
  assumes "i < m" and "j < n"
  shows "mat_entries a b m k n ! (i * n + j) = mat_entry a b k n i j"
proof -
  let ?f = "\<lambda>p. fst p * n + snd p"
  let ?ps = "concat (map (\<lambda>j. map (\<lambda>i. (i, j)) [0..<m]) [0..<n])"
  have "inj_on ?f (set ?ps)" by (auto simp: inj_on_def dest: row_col_inj)
  moreover have "(i, j) \<in> set ?ps" using assms by (simp add: image_iff)
  moreover have "?f (i, j) < length (replicate (m * n) (0 :: f32))" using row_bound [OF assms] by simp
  ultimately show ?thesis
    using foldl_update_inj [of ?f ?ps "(i, j)" "replicate (m * n) 0" "\<lambda>p. mat_entry a b k n (fst p) (snd p)"]
    by (simp add: mat_entries_def)
qed

lemma length_mat_entries [simp]: "length (mat_entries a b m k n) = m * n"
  by (simp add: mat_entries_def)

lemma matmul_Ok:
  assumes "f32_tensor A a [m, k]" and "f32_tensor B b [k, n]"
    and "m * k \<le> usize_max" and "k * n \<le> usize_max" and "m * n \<le> usize_max"
  obtains t where "matmul A B = Ok t" and "f32_tensor t (mat_entries a b m k n) [m, n]"
proof -
  have len: "length a = m * k" "length b = k * n"
    using f32_tensor_numel [OF assms(1)] f32_tensor_numel [OF assms(2)] assms(3,4) by auto
  obtain s where s: "shape_new [m, n] = Ok s" by (simp add: shape_new_eq MAX_RANK_def)
  have "length (mat_entries a b m k n) = numel s"
    using assms(5) by (simp add: numel_eq shape_new_dims [OF s])
  then obtain t where t: "tensor_from_f32 (mat_entries a b m k n) s = Ok t"
    and ft: "f32_tensor t (mat_entries a b m k n) (shape_dims s)"
    using tensor_from_f32_Ok [OF shape_new_ok [OF s]] by blast
  have "matmul A B = Ok t"
    using f32_tensorD [OF assms(1)] f32_tensorD [OF assms(2)] matmul_loop_Ok [OF len] s t
    by (simp add: matmul_def)
  then show ?thesis using that ft shape_new_dims [OF s] by simp
qed


subsection \<open>The rotary embedding, pair by pair\<close>

definition rope_lo :: "libm \<Rightarrow> f32 list \<Rightarrow> f32 list \<Rightarrow> nat \<Rightarrow> nat \<Rightarrow> nat \<Rightarrow> nat \<Rightarrow> f32" where
  "rope_lo lm fr xs p H hf P =
     (let ang = f32_mul (f32_of_nat (p + P div hf div H)) (fr ! (P mod hf)) in
      f32_sub (f32_mul (xs ! (2 * P)) (cosf lm ang)) (f32_mul (xs ! (2 * P + 1)) (sinf lm ang)))"

definition rope_hi :: "libm \<Rightarrow> f32 list \<Rightarrow> f32 list \<Rightarrow> nat \<Rightarrow> nat \<Rightarrow> nat \<Rightarrow> nat \<Rightarrow> f32" where
  "rope_hi lm fr xs p H hf P =
     (let ang = f32_mul (f32_of_nat (p + P div hf div H)) (fr ! (P mod hf)) in
      f32_add (f32_mul (xs ! (2 * P)) (sinf lm ang)) (f32_mul (xs ! (2 * P + 1)) (cosf lm ang)))"

definition rope_spec :: "libm \<Rightarrow> f32 list \<Rightarrow> f32 list \<Rightarrow> nat \<Rightarrow> nat \<Rightarrow> nat \<Rightarrow> nat \<Rightarrow> f32 list" where
  "rope_spec lm fr xs p H hf N = concat (map (\<lambda>P. [rope_lo lm fr xs p H hf P, rope_hi lm fr xs p H hf P]) [0..<N])"

lemma length_rope_spec [simp]: "length (rope_spec lm fr xs p H hf N) = 2 * N"
  by (induction N) (simp_all add: rope_spec_def)

lemma length_foldl_write2 [simp]:
  "length (foldl (\<lambda>buf P. buf[2 * P := u P, 2 * P + 1 := v P]) buf is) = length buf"
  by (induction "is" arbitrary: buf) auto

lemma foldl_write2:
  "2 * N \<le> length buf \<Longrightarrow> foldl (\<lambda>buf P. buf[2 * P := u P, 2 * P + 1 := v P]) buf [0..<N]
    = concat (map (\<lambda>P. [u P, v P]) [0..<N]) @ drop (2 * N) buf"
proof (induction N)
  case 0
  then show ?case by simp
next
  case (Suc N)
  have len: "length (concat (map (\<lambda>P. [u P, v P]) [0..<N])) = 2 * N" by (induction N) simp_all
  have "drop (2 * N) buf = buf ! (2 * N) # buf ! (2 * N + 1) # drop (2 * Suc N) buf"
    using Suc.prems by (simp add: Cons_nth_drop_Suc)
  then show ?case using Suc len by (simp add: list_update_append)
qed

abbreviation rope_write :: "libm \<Rightarrow> f32 list \<Rightarrow> f32 list \<Rightarrow> nat \<Rightarrow> nat \<Rightarrow> nat \<Rightarrow> f32 list \<Rightarrow> nat \<Rightarrow> f32 list" where
  "rope_write lm fr xs p H hf buf P \<equiv>
     buf[2 * P := rope_lo lm fr xs p H hf P, 2 * P + 1 := rope_hi lm fr xs p H hf P]"

lemma rope_head_loop:
  assumes "h < H" and "s < S" and "length xs = S * H * (2 * hf)" and "length buf = length xs" and "length fr = hf"
  shows "oloop (rope_pair xs (map (\<lambda>i. cosf lm (f32_mul (f32_of_nat (p + s)) (fr ! i))) [0..<hf])
            (map (\<lambda>i. sinf lm (f32_mul (f32_of_nat (p + s)) (fr ! i))) [0..<hf]) ((s * H + h) * (2 * hf)))
         [0..<hf] buf
       = Ok (foldl (rope_write lm fr xs p H hf) buf [(s * H + h) * hf..<(s * H + h) * hf + hf])"
proof -
  let ?K = "s * H + h"
  have pos: "2 * (?K * hf + i) + 1 < length xs" if "i < hf" for i
  proof -
    have "?K * hf + i < (S * H) * hf" using row_bound [OF row_bound [OF assms(2,1)] that] .
    then have "2 * (?K * hf + i) + 2 \<le> 2 * (S * H * hf)" by simp
    then show ?thesis using assms(3) by (simp add: mult.left_commute)
  qed
  have tok: "(?K * hf + i) div hf div H = s" "(?K * hf + i) mod hf = i" if "i < hf" for i
    using that assms(1) by simp_all
  have "oloop (rope_pair xs (map (\<lambda>i. cosf lm (f32_mul (f32_of_nat (p + s)) (fr ! i))) [0..<hf])
            (map (\<lambda>i. sinf lm (f32_mul (f32_of_nat (p + s)) (fr ! i))) [0..<hf]) (?K * (2 * hf))) [0..<hf] buf
     = Ok (foldl (\<lambda>buf i. rope_write lm fr xs p H hf buf (?K * hf + i)) buf [0..<hf])"
  proof (rule oloop_Ok_inv [where P = "\<lambda>c. length c = length xs"])
    fix b :: "f32 list" and i assume "i \<in> set [0..<hf]" and b: "length b = length xs"
    then have i: "i < hf" by simp
    have off: "?K * (2 * hf) + 2 * i = 2 * (?K * hf + i)" by (simp add: algebra_simps)
    show "rope_pair xs (map (\<lambda>i. cosf lm (f32_mul (f32_of_nat (p + s)) (fr ! i))) [0..<hf])
            (map (\<lambda>i. sinf lm (f32_mul (f32_of_nat (p + s)) (fr ! i))) [0..<hf]) (?K * (2 * hf)) b i
        = Ok (rope_write lm fr xs p H hf b (?K * hf + i))"
      using pos [OF i] b i unfolding rope_pair_def off rope_lo_def rope_hi_def tok [OF i] Let_def
      by simp
  qed (use assms in auto)
  then show ?thesis by (simp only: foldl_shift [of "rope_write lm fr xs p H hf"])
qed


lemma rope_loops:
  assumes "length xs = S * H * (2 * hf)" and "length buf = length xs" and "length fr = hf"
  shows "oloop (rope_token lm fr xs p H (2 * hf)) [0..<S] buf = Ok (rope_spec lm fr xs p H hf (S * H * hf))"
proof -
  let ?w = "rope_write lm fr xs p H hf"
  have len: "length (foldl ?w b is) = length b" for b and "is" :: "nat list"
    by (induction "is" arbitrary: b) auto
  have tok: "rope_token lm fr xs p H (2 * hf) b s
      = Ok (foldl (\<lambda>b k. foldl ?w b [k * hf..<k * hf + hf]) b [s * H..<s * H + H])"
    if "s < S" and "length b = length xs" for b s
  proof -
    have "rope_token lm fr xs p H (2 * hf) b s
        = Ok (foldl (\<lambda>b h. foldl ?w b [(s * H + h) * hf..<(s * H + h) * hf + hf]) b [0..<H])"
      unfolding rope_token_def Let_def nonzero_mult_div_cancel_left [OF numeral_neq_zero [of "num.Bit0 num.One"]]
      by (rule oloop_Ok_inv [where P = "\<lambda>c. length c = length xs"])
        (use that len assms rope_head_loop [OF _ that(1) assms(1) _ assms(3)] in auto)
    then show ?thesis by (simp only: foldl_shift [of "\<lambda>b k. foldl ?w b [k * hf..<k * hf + hf]"])
  qed
  have len2: "length (foldl (\<lambda>b k. foldl ?w b [k * hf..<k * hf + hf]) b js) = length b" for b js
    by (induction js arbitrary: b) (auto simp: len [simplified])
  have "oloop (rope_token lm fr xs p H (2 * hf)) [0..<S] buf
      = Ok (foldl (\<lambda>b s. foldl (\<lambda>b k. foldl ?w b [k * hf..<k * hf + hf]) b [s * H..<s * H + H]) buf [0..<S])"
    by (rule oloop_Ok_inv [where P = "\<lambda>c. length c = length xs"]) (use assms len2 tok in auto)
  also have "\<dots> = Ok (foldl ?w buf [0..<S * H * hf])"
    by (simp only: foldl_blocks)
  also have "\<dots> = Ok (rope_spec lm fr xs p H hf (S * H * hf))"
    using foldl_write2 [of "S * H * hf" buf] assms by (simp add: rope_spec_def mult.left_commute)
  finally show ?thesis .
qed

lemma rope_Ok:
  assumes "f32_tensor T xs [S, H, 2 * hf]" and "S * (H * (2 * hf)) \<le> usize_max"
  obtains t where "rope lm T theta p = Ok t"
    and "f32_tensor t (rope_spec lm (rope_inv_freq lm theta (2 * hf)) xs p H hf (S * H * hf)) [S, H, 2 * hf]"
proof -
  have len: "length xs = S * H * (2 * hf)"
    using f32_tensor_numel [OF assms(1)] assms(2) by (simp add: mult.assoc)
  let ?zs = "rope_spec lm (rope_inv_freq lm theta (2 * hf)) xs p H hf (S * H * hf)"
  note T = f32_tensorD [OF assms(1)]
  have "length ?zs = numel (t_shape T)" using T(7) len by simp
  then obtain t where t: "tensor_from_f32 ?zs (t_shape T) = Ok t" "f32_tensor t ?zs [S, H, 2 * hf]"
    using tensor_from_f32_Ok [OF T(9)] T(3) by metis
  have "rope lm T theta p = Ok t"
    using T t(1) rope_loops [OF len, of "replicate (length xs) 0" "rope_inv_freq lm theta (2 * hf)" lm p]
    by (simp add: rope_def rope_inv_freq_def)
  then show ?thesis using that t(2) by blast
qed

lemma rope_spec_append:
  assumes "length xs = S1 * H * (2 * hf)"
  shows "rope_spec lm fr (xs @ ys) p H hf ((S1 + S2) * H * hf)
       = rope_spec lm fr xs p H hf (S1 * H * hf) @ rope_spec lm fr ys (p + S1) H hf (S2 * H * hf)"
proof -
  let ?N1 = "S1 * H * hf" and ?N2 = "S2 * H * hf"
  let ?f = "\<lambda>xs p P. [rope_lo lm fr xs p H hf P, rope_hi lm fr xs p H hf P]"
  have x: "length xs = 2 * ?N1" using assms by simp
  have lo: "?f (xs @ ys) p P = ?f xs p P" if "P < ?N1" for P
    using that x by (simp add: rope_lo_def rope_hi_def nth_append Let_def)
  have hi: "?f (xs @ ys) p (?N1 + P) = ?f ys (p + S1) P" if "P < ?N2" for P
  proof -
    have "0 < hf" "0 < H" using that by (auto intro!: gr0I)
    have "(?N1 + P) div hf div H = S1 + P div hf div H" "(?N1 + P) mod hf = P mod hf"
      using \<open>0 < hf\<close> \<open>0 < H\<close> by simp_all
    moreover have "(xs @ ys) ! (2 * (?N1 + P)) = ys ! (2 * P)" "(xs @ ys) ! (2 * (?N1 + P) + 1) = ys ! (2 * P + 1)"
      using x by (simp_all add: nth_append add_mult_distrib2)
    ultimately show ?thesis by (simp add: rope_lo_def rope_hi_def Let_def add.assoc)
  qed
  have "[0..<(S1 + S2) * H * hf] = [0..<?N1] @ map (\<lambda>i. i + ?N1) [0..<?N2]"
    using upt_add_eq_append [of 0 ?N1 ?N2] by (simp add: add_mult_distrib map_add_upt add.commute)
  then have "rope_spec lm fr (xs @ ys) p H hf ((S1 + S2) * H * hf)
      = concat (map (?f (xs @ ys) p) [0..<?N1]) @ concat (map (\<lambda>P. ?f (xs @ ys) p (?N1 + P)) [0..<?N2])"
    by (simp add: rope_spec_def comp_def add.commute [of _ ?N1] del: upt_conv_Cons)
  also have "map (?f (xs @ ys) p) [0..<?N1] = map (?f xs p) [0..<?N1]" using lo by (intro map_cong) auto
  also have "map (\<lambda>P. ?f (xs @ ys) p (?N1 + P)) [0..<?N2] = map (?f ys (p + S1)) [0..<?N2]"
    using hi by (intro map_cong) auto
  finally show ?thesis by (simp add: rope_spec_def)
qed


subsection \<open>Operations on the rows of the last dimension\<close>

lemma last_dim_rows:
  assumes "f32_tensor T xs ds" and "prod_list ds \<le> usize_max" and "ds \<noteq> []" and "0 < last ds"
  shows "length xs = length xs div last ds * last ds" "length xs div last ds = prod_list (butlast ds)"
proof -
  have "prod_list ds = prod_list (butlast ds) * last ds"
    using assms(3) by (metis append_butlast_last_id prod_list.append prod_list.Cons prod_list.Nil mult_1_right)
  then have "length xs = prod_list (butlast ds) * last ds" using f32_tensor_numel [OF assms(1,2)] by simp
  then show "length xs = length xs div last ds * last ds" "length xs div last ds = prod_list (butlast ds)"
    using assms(4) by simp_all
qed

lemma row_loop_Ok:
  assumes "length xs = n * w" and "\<And>row. length row = w \<Longrightarrow> f row = Ok (g row) \<and> length (g row) = w"
  shows "oloop (\<lambda>buf r. omap (\<lambda>v. splice buf (r * w) v) (obind (oslice xs (r * w) ((r + 1) * w)) f))
           [0..<n] (replicate (length xs) 0)
       = (Ok (concat (map (\<lambda>r. g (mat_row xs w r)) [0..<n])) :: f32 list res)"
proof -
  have row: "oslice xs (r * w) ((r + 1) * w) = (Ok (mat_row xs w r) :: f32 list res)" "length (mat_row xs w r) = w"
    if "r < n" for r
    using row_bound_le [OF that, of w] assms(1) by (auto simp: mat_row_def add.commute)
  have "oloop (\<lambda>buf r. omap (\<lambda>v. splice buf (r * w) v) (obind (oslice xs (r * w) ((r + 1) * w)) f))
           [0..<n] (replicate (length xs) 0)
       = Ok (concat (map (\<lambda>r. g (mat_row xs w r)) [0..<n]) @ drop (n * w) (replicate (length xs) 0))"
    by (rule splice_loop) (use row assms in auto)
  then show ?thesis using assms(1) by simp
qed

definition softmax_of :: "libm \<Rightarrow> f32 list \<Rightarrow> f32 list" where
  "softmax_of lm row =
     (let es = map (\<lambda>v. expf lm (f32_sub v (row_max row))) row;
          iv = f32_div f32_one (dot_spec (\<lambda>i. es ! i) (length row)) in map (\<lambda>e. f32_mul e iv) es)"

lemma softmax_row_Ok: "softmax_row lm row = Ok (softmax_of lm row) \<and> length (softmax_of lm row) = length row"
  using canonical_sum_eq [of "length row" "map (\<lambda>v. expf lm (f32_sub v (row_max row))) row"]
  by (simp add: softmax_row_def softmax_of_def Let_def)

definition rms_of :: "libm \<Rightarrow> f32 list \<Rightarrow> f32 \<Rightarrow> f32 list \<Rightarrow> f32 list" where
  "rms_of lm ws eps row =
     (let scale = f32_div f32_one (sqrtf lm (f32_add (f32_div (dot_spec (dot_term row row) (length row))
            (f32_of_nat (length row))) eps)) in
      map2 (\<lambda>x w. f32_mul (f32_mul x scale) w) row ws)"

lemma rms_row_Ok:
  assumes "length ws = length row"
  shows "rms_row lm ws eps row = Ok (rms_of lm ws eps row) \<and> length (rms_of lm ws eps row) = length row"
proof -
  let ?sc = "f32_div f32_one (sqrtf lm (f32_add (f32_div (dot_spec (dot_term row row) (length row))
            (f32_of_nat (length row))) eps))"
  have "omapM (\<lambda>i. omap (\<lambda>wi. f32_mul (f32_mul (row ! i) ?sc) wi) (oget ws i)) [0..<length row]
      = (Ok (map (\<lambda>i. f32_mul (f32_mul (row ! i) ?sc) (ws ! i)) [0..<length row]) :: f32 list res)"
    by (rule omapM_Ok) (use assms in auto)
  moreover have "map (\<lambda>i. f32_mul (f32_mul (row ! i) ?sc) (ws ! i)) [0..<length row] = rms_of lm ws eps row"
    using assms by (auto simp: rms_of_def Let_def intro!: nth_equalityI)
  ultimately show ?thesis
    using canonical_dot_eq [of "length row" row row] assms by (simp add: rms_row_def rms_of_def Let_def)
qed

lemma softmax_last_dim_Ok:
  assumes "f32_tensor T xs ds" and "prod_list ds \<le> usize_max" and "ds \<noteq> []" and "0 < last ds"
  obtains t where "softmax_last_dim lm T = Ok t"
    and "f32_tensor t (concat (map (\<lambda>r. softmax_of lm (mat_row xs (last ds) r)) [0..<prod_list (butlast ds)])) ds"
proof -
  let ?w = "last ds" and ?n = "prod_list (butlast ds)"
  let ?zs = "concat (map (\<lambda>r. softmax_of lm (mat_row xs ?w r)) [0..<?n])"
  note T = f32_tensorD [OF assms(1)]
  note R = last_dim_rows [OF assms]
  have xs: "length xs = ?n * ?w" using R by simp
  have loop: "oloop (\<lambda>buf r. omap (\<lambda>v. splice buf (r * ?w) v) (obind (oslice xs (r * ?w) ((r + 1) * ?w)) (softmax_row lm)))
           [0..<?n] (replicate (length xs) 0) = (Ok ?zs :: f32 list res)"
    by (rule row_loop_Ok [OF xs]) (use softmax_row_Ok in auto)
  have "length ?zs = ?n * ?w"
    by (rule length_concat_rows) (use softmax_row_Ok row_bound_le xs in \<open>auto simp: mat_row_def\<close>)
  then have "length ?zs = numel (t_shape T)" using T(7) xs by simp
  then obtain t where t: "tensor_from_f32 ?zs (t_shape T) = Ok t" "f32_tensor t ?zs ds"
    using tensor_from_f32_Ok [OF T(9)] T(3) by metis
  have "softmax_last_dim lm T = Ok t"
    using T t(1) loop R assms(3,4) by (simp add: softmax_last_dim_def odiv_def Let_def)
  then show ?thesis using that t(2) by blast
qed

lemma rms_norm_slice_Ok:
  assumes "f32_tensor T xs ds" and "prod_list ds \<le> usize_max" and "ds \<noteq> []" and "0 < last ds"
    and "length ws = last ds"
  obtains t where "rms_norm_slice lm T ws eps = Ok t"
    and "f32_tensor t (concat (map (\<lambda>r. rms_of lm ws eps (mat_row xs (last ds) r)) [0..<prod_list (butlast ds)])) ds"
proof -
  let ?w = "last ds" and ?n = "prod_list (butlast ds)"
  let ?zs = "concat (map (\<lambda>r. rms_of lm ws eps (mat_row xs ?w r)) [0..<?n])"
  note T = f32_tensorD [OF assms(1)]
  note R = last_dim_rows [OF assms(1-4)]
  have xs: "length xs = ?n * ?w" using R by simp
  have loop: "oloop (\<lambda>buf r. omap (\<lambda>v. splice buf (r * ?w) v) (obind (oslice xs (r * ?w) ((r + 1) * ?w)) (rms_row lm ws eps)))
           [0..<?n] (replicate (length xs) 0) = (Ok ?zs :: f32 list res)"
    by (rule row_loop_Ok [OF xs]) (use rms_row_Ok assms(5) in auto)
  have "length ?zs = ?n * ?w"
    by (rule length_concat_rows) (use rms_row_Ok assms(5) row_bound_le xs in \<open>auto simp: mat_row_def\<close>)
  then have "length ?zs = numel (t_shape T)" using T(7) xs by simp
  then obtain t where t: "tensor_from_f32 ?zs (t_shape T) = Ok t" "f32_tensor t ?zs ds"
    using tensor_from_f32_Ok [OF T(9)] T(3) by metis
  have "rms_norm_slice lm T ws eps = Ok t"
    using T t(1) loop R assms(3,4,5) by (simp add: rms_norm_slice_def odiv_def Let_def)
  then show ?thesis using that t(2) by blast
qed


lemma argmax_last_dim_Ok:
  assumes "f32_tensor T xs ds" and "prod_list ds \<le> usize_max" and "ds \<noteq> []" and "0 < last ds"
  defines "res \<equiv> map (\<lambda>r. of_nat (argmax_row (mat_row xs (last ds) r))) [0..<prod_list (butlast ds)]"
  obtains t where "argmax_last_dim T = Ok t" and "t_storage t = StCpu (storage_from_u32 res)"
    and "t_dims t = (if length res = 1 then [1] else butlast ds)"
proof -
  let ?w = "last ds" and ?n = "prod_list (butlast ds)"
  note T = f32_tensorD [OF assms(1)]
  note R = last_dim_rows [OF assms(1-4)]
  have xs: "length xs = ?n * ?w" using R by simp
  have loop: "omapM (\<lambda>r. omap (\<lambda>row. of_nat (argmax_row row)) (oslice xs (r * ?w) ((r + 1) * ?w))) [0..<?n]
      = (Ok res :: u32 list res)"
    unfolding res_def
  proof (rule omapM_Ok)
    fix r assume "r \<in> set [0..<?n]"
    then have "r * ?w + ?w \<le> length xs" using row_bound_le [of r ?n ?w] xs by simp
    then show "omap (\<lambda>row. of_nat (argmax_row row)) (oslice xs (r * ?w) ((r + 1) * ?w))
        = (Ok (of_nat (argmax_row (mat_row xs ?w r))) :: u32 res)"
      by (simp add: mat_row_def add.commute)
  qed
  let ?ds = "if length res = 1 then [1] else butlast ds"
  have "length ?ds \<le> MAX_RANK" using T(8,9) by (auto simp: shape_ok_def MAX_RANK_def)
  then obtain s where s: "shape_new ?ds = Ok s" by (auto simp: shape_new_eq simp del: One_nat_def)
  have "prod_list (butlast ds) \<le> usize_max"
  proof -
    have "?n * ?w \<le> usize_max"
      using f32_tensor_numel [OF assms(1,2)] xs assms(2) by simp
    moreover have "?n * 1 \<le> ?n * ?w" using assms(4) by (intro mult_le_mono2) simp
    ultimately show ?thesis by linarith
  qed
  then have "numel s = length res"
    using shape_new_dims [OF s] by (auto simp: numel_eq res_def min_def usize_max_def split: if_splits)
  then obtain t where t: "tensor_from_u32 res s = Ok t" by (simp add: tensor_from_u32_def)
  have "argmax_last_dim T = Ok t"
    using T t loop R assms(3,4) s
    by (simp add: argmax_last_dim_def odiv_def Let_def res_def butlast_conv_take split: if_splits)
  moreover have "t_storage t = StCpu (storage_from_u32 res)" "t_dims t = ?ds"
    using t shape_new_dims [OF s] by (auto simp: tensor_from_u32_def t_dims_def split: if_splits)
  ultimately show ?thesis using that by blast
qed

lemma last_dim_0_Panic:
  assumes "f32_tensor T xs ds" and "ds \<noteq> []" and "last ds = 0"
  shows "argmax_last_dim T = Panic" and "softmax_last_dim lm T = Panic" and "rms_norm_slice lm T [] eps = Panic"
  using f32_tensorD [OF assms(1)] assms(2,3)
  by (simp_all add: argmax_last_dim_def softmax_last_dim_def rms_norm_slice_def odiv_def Let_def)

text \<open>A stand-in for the elementary functions in concrete evaluations.\<close>

definition id_libm :: libm where
  "id_libm = \<lparr>expf = id, erff = id, powf = (\<lambda>x y. x), cosf = id, sinf = id, sqrtf = id\<rparr>"

text \<open>A dense tensor over given data.\<close>

definition dense :: "f32 list \<Rightarrow> nat list \<Rightarrow> tensor" where
  "dense xs ds =
     (let s = \<lparr>sh_dims = ds @ replicate (MAX_RANK - length ds) 0, sh_rank = length ds\<rparr> in
      \<lparr>t_storage = StCpu (storage_from_f32 xs), t_shape = s, t_strides = contiguous_strides s,
       t_offset = 0, t_dtype = F32, t_device = Cpu\<rparr>)"

lemma f32_tensor_dense:
  "length ds \<le> MAX_RANK \<Longrightarrow> length xs = prod_list ds \<Longrightarrow> prod_list ds \<le> usize_max \<Longrightarrow> f32_tensor (dense xs ds) xs ds"
  by (simp add: dense_def f32_tensor_def Let_def shape_ok_def t_dims_def shape_dims_def numel_eq)

lemma f32_tensor_dense_check [simp]:
  "f32_tensor (dense xs [a]) xs [a] \<longleftrightarrow> length xs = min a usize_max"
  "f32_tensor (dense xs [a, b]) xs [a, b] \<longleftrightarrow> length xs = min (a * b) usize_max"
  "f32_tensor (dense xs [a, b, c]) xs [a, b, c] \<longleftrightarrow> length xs = min (a * (b * c)) usize_max"
  by (simp_all add: dense_def f32_tensor_def Let_def shape_ok_def t_dims_def shape_dims_def numel_eq MAX_RANK_def)

subsection \<open>Properties\<close>

text \<open>
  On a well-formed \<open>f32\<close> tensor with a non-empty last dimension, no NaN
  and rows of at most \<open>2^32\<close> entries, \<open>argmax_last_dim\<close> succeeds with one \<open>u32\<close> per row, which is
  the index of the first maximum of that row: in range, no entry is larger, and every earlier
  entry is strictly smaller.
\<close>

theorem argmax_rows_first_max:
  assumes "f32_tensor T xs ds" and "prod_list ds \<le> usize_max" and "ds \<noteq> []" and "0 < last ds"
    and "last ds \<le> 2 ^ 32" and "\<forall>x\<in>set xs. \<not> f32_is_nan x"
  shows "\<exists>t res. argmax_last_dim T = Ok t \<and> t_storage t = StCpu (storage_from_u32 res) \<and>
     length res = prod_list (butlast ds) \<and>
     (\<forall>r<length res. let row = mat_row xs (last ds) r; i = unat (res ! r) in
        i < last ds \<and> (\<forall>j<last ds. \<not> f32_lt (row ! i) (row ! j)) \<and> (\<forall>j<i. f32_lt (row ! j) (row ! i)))"
proof -
  let ?w = "last ds" and ?n = "prod_list (butlast ds)"
  let ?res = "map (\<lambda>r. of_nat (argmax_row (mat_row xs ?w r))) [0..<?n] :: u32 list"
  have xs: "length xs = ?n * ?w" using last_dim_rows [OF assms(1-4)] by simp
  have row: "argmax_row (mat_row xs ?w r) < ?w \<and> unat (of_nat (argmax_row (mat_row xs ?w r)) :: u32) = argmax_row (mat_row xs ?w r)
      \<and> (\<forall>j<?w. \<not> f32_lt (mat_row xs ?w r ! argmax_row (mat_row xs ?w r)) (mat_row xs ?w r ! j))
      \<and> (\<forall>j<argmax_row (mat_row xs ?w r). f32_lt (mat_row xs ?w r ! j) (mat_row xs ?w r ! argmax_row (mat_row xs ?w r)))"
    if "r < ?n" for r
  proof -
    let ?row = "mat_row xs ?w r"
    have len: "length ?row = ?w" using row_bound_le [OF that, of ?w] xs by (simp add: mat_row_def)
    have "set ?row \<subseteq> set xs" by (simp add: mat_row_def set_slice)
    then have nan: "\<forall>x\<in>set ?row. \<not> f32_is_nan x" using assms(6) by blast
    have ne: "?row \<noteq> []" using len assms(4) by auto
    have "argmax_row ?row < ?w" using argmax_row_first_max(1) [OF ne nan] len by simp
    moreover then have "unat (of_nat (argmax_row ?row) :: u32) = argmax_row ?row"
      using assms(5) by (simp add: unat_of_nat)
    ultimately show ?thesis using argmax_row_first_max(2,3) [OF ne nan] len by simp
  qed
  obtain t where "argmax_last_dim T = Ok t" and "t_storage t = StCpu (storage_from_u32 ?res)"
    using argmax_last_dim_Ok [OF assms(1-4)] by blast
  then show ?thesis using row by (intro exI [of _ t] exI [of _ ?res]) (simp add: Let_def)
qed

theorem argmax_rows_first_max_witness:
  "\<exists>t res. argmax_last_dim (dense [f32_one, 0, 0, 0] [2, 2]) = Ok t \<and> t_storage t = StCpu (storage_from_u32 res) \<and>
     length res = 2"
  using argmax_rows_first_max [of "dense [f32_one, 0, 0, 0] [2, 2]" "[f32_one, 0, 0, 0]" "[2, 2]"]
  by (simp add: usize_max_def f32_one_val) blast



text \<open>
  Rotating a sequence in one call at position \<open>p\<close>, or its first \<open>S1\<close> tokens
  at \<open>p\<close> and the remaining ones in a second call at \<open>p + S1\<close> as a KV-cache continuation does,
  gives the same bits.
\<close>

theorem rope_continuation:
  assumes "f32_tensor T (xs @ ys) [S1 + S2, H, 2 * hf]" and "f32_tensor T1 xs [S1, H, 2 * hf]"
    and "f32_tensor T2 ys [S2, H, 2 * hf]" and "(S1 + S2) * (H * (2 * hf)) \<le> usize_max"
  shows "\<exists>t t1 t2 zs zs1 zs2. rope lm T theta p = Ok t \<and> rope lm T1 theta p = Ok t1 \<and>
     rope lm T2 theta (p + S1) = Ok t2 \<and> f32_tensor t zs [S1 + S2, H, 2 * hf] \<and>
     f32_tensor t1 zs1 [S1, H, 2 * hf] \<and> f32_tensor t2 zs2 [S2, H, 2 * hf] \<and> zs = zs1 @ zs2"
proof -
  have le: "S1 * (H * (2 * hf)) \<le> usize_max" "S2 * (H * (2 * hf)) \<le> usize_max"
    using assms(4) by (simp_all add: add_mult_distrib)
  have "length xs = S1 * H * (2 * hf)"
    using f32_tensor_numel [OF assms(2)] le(1) by (simp add: mult.assoc)
  then have "rope_spec lm fr (xs @ ys) p H hf ((S1 + S2) * H * hf)
       = rope_spec lm fr xs p H hf (S1 * H * hf) @ rope_spec lm fr ys (p + S1) H hf (S2 * H * hf)" for fr
    by (rule rope_spec_append)
  then show ?thesis
    using rope_Ok [OF assms(1,4), of lm theta p] rope_Ok [OF assms(2) le(1), of lm theta p]
      rope_Ok [OF assms(3) le(2), of lm theta "p + S1"] by metis
qed

theorem rope_continuation_witness:
  "\<exists>t t1 t2 zs zs1 zs2. rope id_libm (dense [1, 2, 3, 4] [1 + 1, 1, 2 * 1]) f32_one 5 = Ok t \<and>
     rope id_libm (dense [1, 2] [1, 1, 2 * 1]) f32_one 5 = Ok t1 \<and>
     rope id_libm (dense [3, 4] [1, 1, 2 * 1]) f32_one (5 + 1) = Ok t2 \<and> f32_tensor t zs [1 + 1, 1, 2 * 1] \<and>
     f32_tensor t1 zs1 [1, 1, 2 * 1] \<and> f32_tensor t2 zs2 [1, 1, 2 * 1] \<and> zs = zs1 @ zs2"
  by (rule rope_continuation [where xs = "[1, 2]" and ys = "[3, 4]"]) (simp_all add: usize_max_def)

text \<open>
  A well-formed tensor whose last dimension is zero makes \<open>argmax\<close>,
  \<open>softmax\<close> and \<open>rms_norm\<close> divide by zero: they panic instead of returning an error.
\<close>

theorem last_dim_zero_panics:
  assumes "f32_tensor T xs ds" and "ds \<noteq> []" and "last ds = 0"
  shows "argmax_last_dim T = Panic \<and> softmax_last_dim lm T = Panic \<and> rms_norm_slice lm T [] eps = Panic"
  using last_dim_0_Panic [OF assms] by simp

theorem last_dim_zero_panics_witness:
  "argmax_last_dim (dense [] [2, 0]) = Panic \<and> softmax_last_dim id_libm (dense [] [2, 0]) = Panic \<and>
   rms_norm_slice id_libm (dense [] [2, 0]) [] 0 = Panic"
  using last_dim_zero_panics [of "dense [] [2, 0]" "[]" "[2, 0]" id_libm 0] by simp

end
