(* ===== verification/Utf8.thy ===== *)
theory Utf8
  imports Prelude
begin

text \<open>
  UTF-8 as the language's standard library defines it: well-formed strings
  (\<open>core::str::from_utf8\<close>), their characters, and character boundaries, at which a string slice
  may be cut. A string is its list of bytes.
\<close>

definition is_cont :: "u8 \<Rightarrow> bool" where
  "is_cont b \<longleftrightarrow> 0x80 \<le> b \<and> b \<le> 0xBF"

text \<open>The number of bytes a lead byte announces, and the constraints on the bytes after it.\<close>

definition lead_width :: "u8 \<Rightarrow> nat" where
  "lead_width a =
     (if a \<le> 0x7F then 1 else if 0xC2 \<le> a \<and> a \<le> 0xDF then 2
      else if 0xE0 \<le> a \<and> a \<le> 0xEF then 3 else if 0xF0 \<le> a \<and> a \<le> 0xF4 then 4 else 0)"

definition follow_ok :: "u8 \<Rightarrow> bytes \<Rightarrow> bool" where
  "follow_ok a fs \<longleftrightarrow> list_all is_cont fs \<and>
     (a = 0xE0 \<longrightarrow> 0xA0 \<le> hd fs) \<and> (a = 0xED \<longrightarrow> hd fs \<le> 0x9F) \<and>
     (a = 0xF0 \<longrightarrow> 0x90 \<le> hd fs) \<and> (a = 0xF4 \<longrightarrow> hd fs \<le> 0x8F)"

text \<open>The width of the well-formed character at the head of a byte list, zero if there is none.\<close>

fun utf8_width :: "bytes \<Rightarrow> nat" where
  "utf8_width [] = 0"
| "utf8_width (a # bs) =
    (let w = lead_width a in
     if w \<le> Suc (length bs) \<and> follow_ok a (take (w - 1) bs) then w else 0)"

lemma lead_width_le_4: "lead_width a \<le> 4"
  by (simp add: lead_width_def)

lemma utf8_width_le_length: "utf8_width bs \<le> length bs"
  by (cases bs) (auto simp: Let_def)

lemma utf8_width_le_4: "utf8_width bs \<le> 4"
  by (cases bs) (auto simp: Let_def lead_width_le_4)

function utf8_chars :: "bytes \<Rightarrow> bytes list option" where
  "utf8_chars bs =
     (if bs = [] then Some []
      else let w = utf8_width bs in
        if w = 0 then None else map_option ((#) (take w bs)) (utf8_chars (drop w bs)))"
  by auto
termination by (relation "measure length") auto

declare utf8_chars.simps [simp del]

definition utf8_ok :: "bytes \<Rightarrow> bool" where
  "utf8_ok bs \<longleftrightarrow> utf8_chars bs \<noteq> None"

lemma utf8_chars_Nil [simp]: "utf8_chars [] = Some []"
  by (simp add: utf8_chars.simps)

lemma utf8_ok_Nil [simp]: "utf8_ok []"
  by (simp add: utf8_ok_def)

lemma utf8_chars_step:
  "utf8_width bs \<noteq> 0 \<Longrightarrow> utf8_chars bs = map_option ((#) (take (utf8_width bs) bs)) (utf8_chars (drop (utf8_width bs) bs))"
  by (subst utf8_chars.simps) (auto simp: Let_def)

lemma utf8_chars_None: "bs \<noteq> [] \<Longrightarrow> utf8_width bs = 0 \<Longrightarrow> utf8_chars bs = None"
  by (subst utf8_chars.simps) (auto simp: Let_def)

lemma utf8_width_append: "utf8_width bs \<noteq> 0 \<Longrightarrow> utf8_width (bs @ cs) = utf8_width bs"
  by (cases bs) (auto simp: Let_def split: if_splits)

lemma utf8_width_take: "utf8_width bs \<noteq> 0 \<Longrightarrow> utf8_width (take (utf8_width bs) bs) = utf8_width bs"
  by (cases bs) (auto simp: Let_def take_Cons' min_def split: if_splits)

text \<open>Induction over the characters of a well-formed string.\<close>

lemma utf8_chars_induct [consumes 1, case_names Nil Char]:
  assumes "utf8_chars bs = Some cs" and "P [] []"
    and "\<And>c bs cs. c \<noteq> [] \<Longrightarrow> utf8_width c = length c \<Longrightarrow> length c \<le> 4 \<Longrightarrow> utf8_chars bs = Some cs \<Longrightarrow>
           P bs cs \<Longrightarrow> P (c @ bs) (c # cs)"
  shows "P bs cs"
  using assms(1)
proof (induction bs arbitrary: cs rule: utf8_chars.induct)
  case (1 bs)
  show ?case
  proof (cases "bs = []")
    case True
    then show ?thesis using "1.prems" assms(2) by simp
  next
    case False
    then have w: "utf8_width bs \<noteq> 0" using "1.prems" utf8_chars_None by force
    let ?c = "take (utf8_width bs) bs" and ?r = "drop (utf8_width bs) bs"
    obtain ds where ds: "utf8_chars ?r = Some ds" "cs = ?c # ds"
      using "1.prems" w by (auto simp: utf8_chars_step)
    have len: "length ?c = utf8_width bs" using utf8_width_le_length [of bs] by simp
    have "P (?c @ ?r) (?c # ds)"
    proof (rule assms(3))
      show "?c \<noteq> []" using w False by auto
      show "utf8_width ?c = length ?c" using w len utf8_width_take by simp
      show "length ?c \<le> 4" using len utf8_width_le_4 by metis
      show "utf8_chars ?r = Some ds" by (rule ds(1))
      show "P ?r ds" using "1.IH" [OF False refl w ds(1)] .
    qed
    then show ?thesis using ds(2) by simp
  qed
qed

text \<open>The characters of a string concatenate to the string, none is empty.\<close>

lemma utf8_chars_concat: "utf8_chars bs = Some cs \<Longrightarrow> concat cs = bs"
  by (induction rule: utf8_chars_induct) auto

lemma utf8_chars_valid:
  "utf8_chars bs = Some cs \<Longrightarrow> c \<in> set cs \<Longrightarrow> c \<noteq> [] \<and> utf8_width c = length c \<and> length c \<le> 4"
  by (induction rule: utf8_chars_induct) auto

lemma utf8_chars_char: "c \<noteq> [] \<Longrightarrow> utf8_width c = length c \<Longrightarrow> utf8_chars (c @ bs) = map_option ((#) c) (utf8_chars bs)"
  using utf8_chars_step [of "c @ bs"] utf8_width_append [of c bs] by simp

lemma utf8_chars_append: "utf8_chars as = Some cs \<Longrightarrow> utf8_chars (as @ bs) = map_option ((@) cs) (utf8_chars bs)"
  by (induction rule: utf8_chars_induct) (auto simp: utf8_chars_char option.map_comp comp_def option.map_id0 [unfolded id_def])

lemma utf8_ok_append: "utf8_ok as \<Longrightarrow> utf8_ok bs \<Longrightarrow> utf8_ok (as @ bs)"
  by (auto simp: utf8_ok_def utf8_chars_append)

lemma utf8_ok_char: "c \<noteq> [] \<Longrightarrow> utf8_width c = length c \<Longrightarrow> utf8_ok c"
  by (simp add: utf8_ok_def utf8_chars_step)

lemma utf8_ok_concat: "(\<And>c. c \<in> set cs \<Longrightarrow> utf8_ok c) \<Longrightarrow> utf8_ok (concat cs)"
  by (induction cs) (auto intro: utf8_ok_append)

lemma utf8_width_ascii: "a \<le> 0x7F \<Longrightarrow> utf8_width (a # bs) = 1"
  by (auto simp: lead_width_def follow_ok_def)

lemma utf8_chars_ascii: "\<forall>b\<in>set bs. b \<le> 0x7F \<Longrightarrow> utf8_chars bs = Some (map (\<lambda>b. [b]) bs)"
  by (induction bs) (simp_all add: utf8_chars_step utf8_width_ascii del: utf8_width.simps)

lemma utf8_ok_ascii: "\<forall>b\<in>set bs. b \<le> 0x7F \<Longrightarrow> utf8_ok bs"
  by (simp add: utf8_ok_def utf8_chars_ascii)

lemma utf8_chars_Some_concat:
  "(\<And>c. c \<in> set cs \<Longrightarrow> c \<noteq> [] \<and> utf8_width c = length c) \<Longrightarrow> utf8_chars (concat cs) = Some cs"
proof (induction cs)
  case Nil
  then show ?case by simp
next
  case (Cons c cs)
  then have "utf8_chars c = Some [c]" by (simp add: utf8_chars_step)
  then show ?case using Cons by (simp add: utf8_chars_append)
qed

end
