(* ===== verification/Gguf.thy ===== *)
theory Gguf
  imports Shape Utf8
begin

text \<open>
  The GGUF reader, \<open>src/src/model/gguf.rs\<close>: the cursor and its readers, the metadata values, the
  parser and the accessors of a parsed file. A \<open>String\<close> is its UTF-8 bytes, a \<open>BTreeMap\<close> a partial
  function; \<open>usize\<close> has 64 bits, so \<open>as usize\<close> of a \<open>u64\<close> is its value.
\<close>

subsection \<open>Checked arithmetic\<close>

definition usize_add :: "nat \<Rightarrow> nat \<Rightarrow> nat option" where
  "usize_add a b = (if a + b \<le> usize_max then Some (a + b) else None)"

definition usize_mul :: "nat \<Rightarrow> nat \<Rightarrow> nat option" where
  "usize_mul a b = (if a * b \<le> usize_max then Some (a * b) else None)"

lemma usize_add_eq_Some [simp]: "usize_add a b = Some c \<longleftrightarrow> c = a + b \<and> a + b \<le> usize_max"
  by (auto simp: usize_add_def)

lemma usize_mul_eq_Some [simp]: "usize_mul a b = Some c \<longleftrightarrow> c = a * b \<and> a * b \<le> usize_max"
  by (auto simp: usize_mul_def)

subsection \<open>Type tags\<close>

definition GGUF_MAGIC :: bytes where "GGUF_MAGIC = str ''GGUF''"
definition SUPPORTED_VERSIONS :: "u32 list" where "SUPPORTED_VERSIONS = [2, 3]"
definition DEFAULT_ALIGNMENT :: nat where "DEFAULT_ALIGNMENT = 32"
definition MIN_TENSOR_INFO_BYTES :: nat where "MIN_TENSOR_INFO_BYTES = 24"

datatype GgufValueType = UINT8 | INT8 | UINT16 | INT16 | UINT32 | INT32 | FLOAT32 | BOOL
  | STRING | ARRAY | UINT64 | INT64 | FLOAT64

definition value_type_from_u32 :: "u32 \<Rightarrow> GgufValueType option" where
  "value_type_from_u32 v =
     (if v = 0 then Some UINT8 else if v = 1 then Some INT8 else if v = 2 then Some UINT16
      else if v = 3 then Some INT16 else if v = 4 then Some UINT32 else if v = 5 then Some INT32
      else if v = 6 then Some FLOAT32 else if v = 7 then Some BOOL else if v = 8 then Some STRING
      else if v = 9 then Some ARRAY else if v = 10 then Some UINT64 else if v = 11 then Some INT64
      else if v = 12 then Some FLOAT64 else None)"

datatype GgufTensorType = GT_F32 | GT_F16 | GT_Q4_0 | GT_Q8_0 | GT_Q5_0 | GT_Q4_K | GT_Q6_K | GT_Other u32

definition tensor_type_from_u32 :: "u32 \<Rightarrow> GgufTensorType" where
  "tensor_type_from_u32 v =
     (if v = 0 then GT_F32 else if v = 1 then GT_F16 else if v = 2 then GT_Q4_0
      else if v = 6 then GT_Q5_0 else if v = 8 then GT_Q8_0 else if v = 12 then GT_Q4_K
      else if v = 14 then GT_Q6_K else GT_Other v)"

definition gt_blocks :: "nat \<Rightarrow> nat \<Rightarrow> nat \<Rightarrow> string \<Rightarrow> string \<Rightarrow> nat res" where
  "gt_blocks count bn bb bad over =
     (if count mod bn \<noteq> 0 then Err (Malformed bad) else ok_or (usize_mul (count div bn) bb) (Overflow over))"

fun gt_bytes_for_numel :: "GgufTensorType \<Rightarrow> nat \<Rightarrow> nat res" where
  "gt_bytes_for_numel GT_F32 n = ok_or (usize_mul n 4) (Overflow ''gguf: F32 byte size overflow'')"
| "gt_bytes_for_numel GT_F16 n = ok_or (usize_mul n 2) (Overflow ''gguf: F16 byte size overflow'')"
| "gt_bytes_for_numel GT_Q4_0 n = gt_blocks n 32 18 ''gguf: Q4_0 tensor numel not a multiple of 32'' ''gguf: Q4_0 byte size overflow''"
| "gt_bytes_for_numel GT_Q8_0 n = gt_blocks n 32 34 ''gguf: Q8_0 tensor numel not a multiple of 32'' ''gguf: Q8_0 byte size overflow''"
| "gt_bytes_for_numel GT_Q5_0 n = gt_blocks n 32 22 ''gguf: Q5_0 tensor numel not a multiple of 32'' ''gguf: Q5_0 byte size overflow''"
| "gt_bytes_for_numel GT_Q4_K n = gt_blocks n 256 144 ''gguf: Q4_K tensor numel not a multiple of 256'' ''gguf: Q4_K byte size overflow''"
| "gt_bytes_for_numel GT_Q6_K n = gt_blocks n 256 210 ''gguf: Q6_K tensor numel not a multiple of 256'' ''gguf: Q6_K byte size overflow''"
| "gt_bytes_for_numel (GT_Other raw) n = Err (Malformed ''gguf: byte size unknown for unsupported ggml_type'')"

subsection \<open>Parsed structures\<close>

record GgufArray =
  ga_elem_type :: GgufValueType
  ga_len :: u64
  ga_data :: bytes

datatype GgufValue = GvU8 u8 | GvI8 i8 | GvU16 u16 | GvI16 u16 | GvU32 u32 | GvI32 u32 | GvF32 u32
  | GvBool bool | GvString bytes | GvU64 u64 | GvI64 u64 | GvF64 u64 | GvArray GgufArray

text \<open>A slice into the blob is a position as well as its bytes: \<open>gt_start\<close> and \<open>gt_bytes\<close> are one field.\<close>

record GgufTensor =
  gt_name :: bytes
  gt_shape :: "u64 list"
  gt_dtype :: GgufTensorType
  gt_start :: nat
  gt_bytes :: bytes

definition gt_numel :: "GgufTensor \<Rightarrow> nat" where
  "gt_numel t = foldl (\<lambda>acc d. sat_mul acc (unat d)) 1 (gt_shape t)"

record GgufFile =
  gf_version :: u32
  gf_metadata :: "bytes \<rightharpoonup> GgufValue"
  gf_tensors :: "GgufTensor list"
  gf_by_name :: "bytes \<rightharpoonup> nat"

subsection \<open>The cursor\<close>

record cursor =
  cur_buf :: bytes
  cur_pos :: nat

type_synonym 'a reader = "cursor \<Rightarrow> ('a \<times> cursor) res"

definition cursor_new :: "bytes \<Rightarrow> cursor" where
  "cursor_new b = \<lparr>cur_buf = b, cur_pos = 0\<rparr>"

definition read_n :: "nat \<Rightarrow> bytes reader" where
  "read_n n c = obind (ok_or (usize_add (cur_pos c) n) (Overflow ''gguf: read past end (overflow)'')) (\<lambda>e.
     if length (cur_buf c) < e then Err (Truncated ''gguf: read past end'')
     else obind (oslice (cur_buf c) (cur_pos c) e) (\<lambda>s. Ok (s, c\<lparr>cur_pos := e\<rparr>)))"

definition read_u32 :: "u32 reader" where
  "read_u32 c = obind (read_n 4 c) (\<lambda>(s, c). Ok (le32 s, c))"

definition read_u64 :: "u64 reader" where
  "read_u64 c = obind (read_n 8 c) (\<lambda>(s, c). Ok (le64 s, c))"

definition read_string :: "bytes reader" where
  "read_string c = obind (read_u64 c) (\<lambda>(n, c).
     if 2 ^ 20 < unat n then Err (Malformed ''gguf: string length > 1 MiB'')
     else obind (read_n (unat n) c) (\<lambda>(bs, c).
       if utf8_ok bs then Ok (bs, c) else Err (Malformed ''gguf: non-UTF8 string'')))"

text \<open>The loop \<open>for _ in 0..n\<close> over a reader.\<close>

fun read_times :: "nat \<Rightarrow> 'a reader \<Rightarrow> 'a list reader" where
  "read_times 0 r c = Ok ([], c)"
| "read_times (Suc n) r c = obind (r c) (\<lambda>(x, c). obind (read_times n r c) (\<lambda>(xs, c). Ok (x # xs, c)))"

definition skip_array_string :: "unit reader" where
  "skip_array_string c = obind (read_u64 c) (\<lambda>(n, c).
     obind (ok_or (usize_add (cur_pos c) (unat n)) (Overflow ''gguf: array string overflow'')) (\<lambda>p.
     if length (cur_buf c) < p then Err (Truncated ''gguf: array string past end'')
     else Ok ((), c\<lparr>cur_pos := p\<rparr>)))"

fun elem_size :: "GgufValueType \<Rightarrow> nat res" where
  "elem_size UINT8 = Ok 1" | "elem_size INT8 = Ok 1" | "elem_size BOOL = Ok 1"
| "elem_size UINT16 = Ok 2" | "elem_size INT16 = Ok 2"
| "elem_size UINT32 = Ok 4" | "elem_size INT32 = Ok 4" | "elem_size FLOAT32 = Ok 4"
| "elem_size UINT64 = Ok 8" | "elem_size INT64 = Ok 8" | "elem_size FLOAT64 = Ok 8"
| "elem_size STRING = Err (Malformed ''gguf: bad array elem type'')"
| "elem_size ARRAY = Err (Malformed ''gguf: bad array elem type'')"

definition skip_array_prims :: "GgufValueType \<Rightarrow> nat \<Rightarrow> unit reader" where
  "skip_array_prims ty len c = obind (elem_size ty) (\<lambda>sz.
     obind (ok_or (usize_mul len sz) (Overflow ''gguf: array byte total overflow'')) (\<lambda>total.
     obind (ok_or (usize_add (cur_pos c) total) (Overflow ''gguf: array end overflow'')) (\<lambda>e.
     if length (cur_buf c) < e then Err (Truncated ''gguf: array past end of buffer'')
     else Ok ((), c\<lparr>cur_pos := e\<rparr>))))"

definition skip_array :: "GgufValueType \<Rightarrow> nat \<Rightarrow> unit reader" where
  "skip_array ty n c = (if ty = STRING then obind (read_times n skip_array_string c) (\<lambda>(_, c). Ok ((), c))
     else skip_array_prims ty n c)"

definition read_array :: "GgufArray reader" where
  "read_array c = obind (read_u32 c) (\<lambda>(raw, c).
     obind (ok_or (value_type_from_u32 raw) (Malformed ''gguf: bad array elem type'')) (\<lambda>ty.
     if ty = ARRAY then Err (Malformed ''gguf: nested arrays not supported'')
     else obind (read_u64 c) (\<lambda>(len, c). let start = cur_pos c in
       obind (skip_array ty (unat len) c) (\<lambda>(_, c).
       obind (oslice (cur_buf c) start (cur_pos c)) (\<lambda>d.
       Ok (\<lparr>ga_elem_type = ty, ga_len = len, ga_data = d\<rparr>, c))))))"

fun read_value :: "GgufValueType \<Rightarrow> GgufValue reader" where
  "read_value UINT8 c = obind (read_n 1 c) (\<lambda>(s, c). obind (oget s 0) (\<lambda>b. Ok (GvU8 b, c)))"
| "read_value INT8 c = obind (read_n 1 c) (\<lambda>(s, c). obind (oget s 0) (\<lambda>b. Ok (GvI8 b, c)))"
| "read_value UINT16 c = obind (read_n 2 c) (\<lambda>(s, c). Ok (GvU16 (le16 s), c))"
| "read_value INT16 c = obind (read_n 2 c) (\<lambda>(s, c). Ok (GvI16 (le16 s), c))"
| "read_value UINT32 c = obind (read_u32 c) (\<lambda>(v, c). Ok (GvU32 v, c))"
| "read_value INT32 c = obind (read_u32 c) (\<lambda>(v, c). Ok (GvI32 v, c))"
| "read_value FLOAT32 c = obind (read_u32 c) (\<lambda>(v, c). Ok (GvF32 v, c))"
| "read_value BOOL c = obind (read_n 1 c) (\<lambda>(s, c). obind (oget s 0) (\<lambda>b. Ok (GvBool (b \<noteq> 0), c)))"
| "read_value STRING c = obind (read_string c) (\<lambda>(s, c). Ok (GvString s, c))"
| "read_value UINT64 c = obind (read_u64 c) (\<lambda>(v, c). Ok (GvU64 v, c))"
| "read_value INT64 c = obind (read_u64 c) (\<lambda>(v, c). Ok (GvI64 v, c))"
| "read_value FLOAT64 c = obind (read_u64 c) (\<lambda>(v, c). Ok (GvF64 v, c))"
| "read_value ARRAY c = obind (read_array c) (\<lambda>(a, c). Ok (GvArray a, c))"

subsection \<open>The parser\<close>

definition read_kv :: "(bytes \<times> GgufValue) reader" where
  "read_kv c = obind (read_string c) (\<lambda>(key, c). obind (read_u32 c) (\<lambda>(raw, c).
     obind (ok_or (value_type_from_u32 raw) (Malformed ''gguf: unknown value type'')) (\<lambda>ty.
     obind (read_value ty c) (\<lambda>(v, c). Ok ((key, v), c)))))"

type_synonym tensor_info = "bytes \<times> u64 list \<times> GgufTensorType \<times> u64"

definition read_tensor_info :: "tensor_info reader" where
  "read_tensor_info c = obind (read_string c) (\<lambda>(name, c). obind (read_u32 c) (\<lambda>(n_dims, c).
     if 8 < unat n_dims then Err (Malformed ''gguf: tensor rank > 8 (sanity bound)'')
     else obind (read_times (unat n_dims) read_u64 c) (\<lambda>(shape, c). obind (read_u32 c) (\<lambda>(raw, c).
     obind (read_u64 c) (\<lambda>(offset, c).
     Ok ((name, shape, tensor_type_from_u32 raw, offset), c))))))"

text \<open>The number of tensor records room is reserved for before they are read.\<close>

definition tensor_info_cap :: "u64 \<Rightarrow> cursor \<Rightarrow> nat" where
  "tensor_info_cap tensor_count c =
     min (unat tensor_count) ((length (cur_buf c) - cur_pos c) div MIN_TENSOR_INFO_BYTES + 1)"

definition checked_numel :: "u64 list \<Rightarrow> nat res" where
  "checked_numel shape = oloop (\<lambda>n d. ok_or (usize_mul n (unat d)) (Overflow ''gguf: shape product overflows u64'')) shape 1"

definition materialize :: "bytes \<Rightarrow> nat \<Rightarrow> GgufTensor list \<times> (bytes \<rightharpoonup> nat) \<Rightarrow> nat \<times> tensor_info
    \<Rightarrow> (GgufTensor list \<times> (bytes \<rightharpoonup> nat)) res" where
  "materialize blob base = (\<lambda>(tensors, by_name) (i, name, shape, dtype, offset).
     obind (checked_numel shape) (\<lambda>count. obind (gt_bytes_for_numel dtype count) (\<lambda>nbytes.
     obind (ok_or (usize_add base (unat offset)) (Overflow ''gguf: tensor offset overflow'')) (\<lambda>start.
     obind (ok_or (usize_add start nbytes) (Overflow ''gguf: tensor end overflow'')) (\<lambda>e.
     if length blob < e then Err (Truncated ''gguf: tensor extends past end of file'')
     else obind (oslice blob start e) (\<lambda>bs.
       Ok (tensors @ [\<lparr>gt_name = name, gt_shape = shape, gt_dtype = dtype, gt_start = start, gt_bytes = bs\<rparr>],
           by_name(name \<mapsto> i))))))))"

definition alignment_of :: "(bytes \<rightharpoonup> GgufValue) \<Rightarrow> nat" where
  "alignment_of metadata =
     (case metadata (str ''general.alignment'') of Some (GvU32 n) \<Rightarrow> unat n | _ \<Rightarrow> DEFAULT_ALIGNMENT)"

definition data_base :: "nat \<Rightarrow> nat \<Rightarrow> nat res" where
  "data_base alignment unaligned =
     (if alignment = 0 then Err (Malformed ''gguf: general.alignment is zero'')
      else ok_or (usize_mul ((unaligned + alignment - 1) div alignment) alignment)
             (Overflow ''gguf: alignment padding overflow''))"

definition insert_all :: "('k \<rightharpoonup> 'v) \<Rightarrow> ('k \<times> 'v) list \<Rightarrow> 'k \<rightharpoonup> 'v" where
  "insert_all m kvs = foldl (\<lambda>m (k, v). m(k \<mapsto> v)) m kvs"

definition gguf_parse :: "bytes \<Rightarrow> GgufFile res" where
  "gguf_parse blob =
     obind (read_n 4 (cursor_new blob)) (\<lambda>(magic, c).
     if magic \<noteq> GGUF_MAGIC then Err (Malformed ''gguf: bad magic (not 'GGUF')'')
     else obind (read_u32 c) (\<lambda>(version, c).
     if version \<notin> set SUPPORTED_VERSIONS then Err (Malformed ''gguf: unsupported version (only v2/v3 supported)'')
     else obind (read_u64 c) (\<lambda>(tensor_count, c). obind (read_u64 c) (\<lambda>(kv_count, c).
     obind (read_times (unat kv_count) read_kv c) (\<lambda>(kvs, c).
     let metadata = insert_all Map.empty kvs in
     obind (read_times (unat tensor_count) read_tensor_info c) (\<lambda>(infos, c).
     obind (data_base (alignment_of metadata) (cur_pos c)) (\<lambda>base.
     obind (oloop (materialize blob base) (enumerate 0 infos) ([], Map.empty)) (\<lambda>(tensors, by_name).
     Ok \<lparr>gf_version = version, gf_metadata = metadata, gf_tensors = tensors, gf_by_name = by_name\<rparr>))))))))"

subsection \<open>Accessors\<close>

definition gf_tensor :: "GgufFile \<Rightarrow> bytes \<Rightarrow> GgufTensor option res" where
  "gf_tensor g name = (case gf_by_name g name of None \<Rightarrow> Ok None | Some i \<Rightarrow> omap Some (oget (gf_tensors g) i))"

definition metadata_u32 :: "GgufFile \<Rightarrow> bytes \<Rightarrow> u32 res" where
  "metadata_u32 g key = (case gf_metadata g key of
     Some (GvU32 v) \<Rightarrow> Ok v
   | Some _ \<Rightarrow> Err (Malformed ''gguf: metadata is not U32'')
   | None \<Rightarrow> Err (Malformed ''gguf: metadata key missing''))"

definition metadata_u64 :: "GgufFile \<Rightarrow> bytes \<Rightarrow> u64 res" where
  "metadata_u64 g key = (case gf_metadata g key of
     Some (GvU64 v) \<Rightarrow> Ok v
   | Some (GvU32 v) \<Rightarrow> Ok (ucast v)
   | Some _ \<Rightarrow> Err (Malformed ''gguf: metadata is not U64'')
   | None \<Rightarrow> Err (Malformed ''gguf: metadata key missing''))"

definition metadata_str :: "GgufFile \<Rightarrow> bytes \<Rightarrow> bytes res" where
  "metadata_str g key = (case gf_metadata g key of
     Some (GvString s) \<Rightarrow> Ok s
   | Some _ \<Rightarrow> Err (Malformed ''gguf: metadata is not String'')
   | None \<Rightarrow> Err (Malformed ''gguf: metadata key missing''))"

definition metadata_value :: "GgufFile \<Rightarrow> bytes \<Rightarrow> GgufValue option" where
  "metadata_value g key = gf_metadata g key"


subsection \<open>The reader interface: in bounds, never a panic\<close>

definition cur_ok :: "cursor \<Rightarrow> bool" where
  "cur_ok c \<longleftrightarrow> cur_pos c \<le> length (cur_buf c)"

locale reader =
  fixes r :: "'a reader" and m :: nat
  assumes no_panic: "cur_ok c \<Longrightarrow> r c \<noteq> Panic"
    and advances: "cur_ok c \<Longrightarrow> r c = Ok (x, c') \<Longrightarrow>
      cur_buf c' = cur_buf c \<and> cur_pos c + m \<le> cur_pos c' \<and> cur_ok c'"
begin

lemma times_advances:
  "cur_ok c \<Longrightarrow> read_times n r c = Ok (xs, c') \<Longrightarrow>
   cur_buf c' = cur_buf c \<and> cur_pos c + n * m \<le> cur_pos c' \<and> cur_ok c' \<and> length xs = n"
proof (induction n arbitrary: c xs)
  case 0
  then show ?case by auto
next
  case (Suc n)
  then obtain x c1 ys where c1: "r c = Ok (x, c1)" "read_times n r c1 = Ok (ys, c')" "xs = x # ys"
    by (auto simp: outcome_simps)
  then show ?case using advances [OF Suc.prems(1) c1(1)] Suc.IH [OF _ c1(2)] by auto
qed

lemma times_no_panic: "cur_ok c \<Longrightarrow> read_times n r c \<noteq> Panic"
  by (induction n arbitrary: c) (auto simp: outcome_simps no_panic dest: advances)

lemma times_reader: "reader (read_times n r) (n * m)"
  by unfold_locales (auto simp: times_no_panic dest: times_advances)

lemma weaken: "m' \<le> m \<Longrightarrow> reader r m'"
  by unfold_locales (auto simp: no_panic dest: advances)

end

text \<open>The ways the readers are composed.\<close>

lemma reader_ret [intro]: "reader (\<lambda>c. Ok (x, c)) 0"
  by unfold_locales auto

lemma reader_err [intro]: "reader (\<lambda>c. Err e) m"
  by unfold_locales auto

lemma reader_bind:
  assumes "reader r m" and "\<And>x. reader (f x) k" and "n \<le> m + k"
  shows "reader (\<lambda>c. obind (r c) (\<lambda>(x, c). f x c)) n"
proof unfold_locales
  fix c :: cursor assume c: "cur_ok c"
  show "obind (r c) (\<lambda>(x, c). f x c) \<noteq> Panic"
  proof (cases "r c")
    case (Ok p)
    obtain x c1 where p: "p = (x, c1)" by (cases p)
    then have "cur_ok c1" using reader.advances [OF assms(1) c] Ok by simp
    then show ?thesis using reader.no_panic [OF assms(2)] Ok p by simp
  qed (use reader.no_panic [OF assms(1) c] in simp_all)
next
  fix c y c' assume c: "cur_ok c" and "obind (r c) (\<lambda>(x, c). f x c) = Ok (y, c')"
  then obtain x c1 where c1: "r c = Ok (x, c1)" "f x c1 = Ok (y, c')" by (auto simp: outcome_simps)
  show "cur_buf c' = cur_buf c \<and> cur_pos c + n \<le> cur_pos c' \<and> cur_ok c'"
    using reader.advances [OF assms(1) c c1(1)] reader.advances [OF assms(2) _ c1(2)] assms(3) by auto
qed

lemma reader_lift:
  assumes "v \<noteq> Panic" and "\<And>x. v = Ok x \<Longrightarrow> reader (f x) m"
  shows "reader (\<lambda>c. obind v (\<lambda>x. f x c)) m"
  using assms by (cases v) (auto simp: reader_err)

lemma reader_if:
  assumes "P \<Longrightarrow> reader f m" and "\<not> P \<Longrightarrow> reader g m"
  shows "reader (\<lambda>c. if P then f c else g c) m"
  using assms by (cases P) auto

lemma reader_n: "reader (read_n n) n"
  by unfold_locales
    (auto simp: read_n_def outcome_simps cur_ok_def usize_add_def split: if_splits)

interpretation rd_u32: reader read_u32 4
  unfolding read_u32_def [abs_def] by (rule reader_bind [OF reader_n reader_ret]) simp

interpretation rd_u64: reader read_u64 8
  unfolding read_u64_def [abs_def] by (rule reader_bind [OF reader_n reader_ret]) simp

interpretation rd_string: reader read_string 8
proof -
  have "reader (\<lambda>c. if utf8_ok bs then Ok (bs, c) else Err e) 0" for bs and e :: error
    by (intro reader_if reader_ret reader_err)
  then have "reader (\<lambda>c. obind (read_n n c) (\<lambda>(bs, c). if utf8_ok bs then Ok (bs, c) else Err e)) 0"
    for n and e :: error
    by (intro reader_bind [OF reader_n]) simp_all
  then have "reader (\<lambda>c. if 2 ^ 20 < unat n then Err e'
     else obind (read_n (unat n) c) (\<lambda>(bs, c). if utf8_ok bs then Ok (bs, c) else Err e)) 0"
    for n :: u64 and e e' :: error
    by (intro reader_if reader_err)
  then show "reader read_string 8"
    unfolding read_string_def [abs_def] by (intro reader_bind [OF rd_u64.reader_axioms]) simp_all
qed

interpretation rd_skip_string: reader skip_array_string 8
proof unfold_locales
  fix c assume "cur_ok c"
  then show "skip_array_string c \<noteq> Panic"
    using rd_u64.no_panic by (auto simp: skip_array_string_def outcome_simps split: if_splits)
next
  fix c x c' assume "cur_ok c" and "skip_array_string c = Ok (x, c')"
  then show "cur_buf c' = cur_buf c \<and> cur_pos c + 8 \<le> cur_pos c' \<and> cur_ok c'"
    by (auto simp: skip_array_string_def outcome_simps cur_ok_def split: if_splits dest!: rd_u64.advances [rotated])
qed

lemma elem_size_not_Panic [simp]: "elem_size ty \<noteq> Panic"
  by (cases ty) auto

interpretation rd_skip_prims: reader "skip_array_prims ty len" 0
  by unfold_locales (auto simp: skip_array_prims_def outcome_simps cur_ok_def split: if_splits)

text \<open>The bytes of an array are the ones the skipping loop passed over.\<close>

interpretation rd_skip: reader "skip_array ty n" 0
  unfolding skip_array_def [abs_def]
  by (intro reader_if rd_skip_prims.reader_axioms reader_bind [OF rd_skip_string.times_reader reader_ret]) simp

lemma array_data_reader:
  "reader (\<lambda>c. obind (skip_array ty n c) (\<lambda>(_, c'). obind (oslice (cur_buf c') (cur_pos c) (cur_pos c')) (\<lambda>d. Ok (f d, c')))) 0"
    (is "reader ?r 0")
proof unfold_locales
  fix c assume c: "cur_ok c"
  show "?r c \<noteq> Panic"
  proof (cases "skip_array ty n c")
    case (Ok p)
    obtain u c1 where "p = (u, c1)" by (cases p)
    then show ?thesis using rd_skip.advances [OF c, of ty n u c1] Ok by (auto simp: cur_ok_def outcome_simps)
  qed (use rd_skip.no_panic [OF c] in simp_all)
next
  fix c x c' assume c: "cur_ok c" and "?r c = Ok (x, c')"
  then show "cur_buf c' = cur_buf c \<and> cur_pos c + 0 \<le> cur_pos c' \<and> cur_ok c'"
    by (auto simp: outcome_simps dest!: rd_skip.advances [OF c])
qed

interpretation rd_array: reader read_array 12
proof -
  have data: "reader (\<lambda>c. let start = cur_pos c in obind (skip_array ty (unat len) c) (\<lambda>(_, c). obind (oslice (cur_buf c) start (cur_pos c))
      (\<lambda>d. Ok (\<lparr>ga_elem_type = ty, ga_len = len, ga_data = d\<rparr>, c)))) 0" for ty len
    unfolding Let_def by (rule array_data_reader)
  show "reader read_array 12"
    unfolding read_array_def [abs_def]
    by (intro reader_bind [OF rd_u32.reader_axioms, of _ 8] reader_lift reader_if reader_err
        reader_bind [OF rd_u64.reader_axioms data]) simp_all
qed

lemma reader_byte: "reader (\<lambda>c. obind (read_n 1 c) (\<lambda>(s, c). obind (oget s 0) (\<lambda>b. Ok (f b, c)))) 0"
proof -
  have "obind (read_n 1 c) (\<lambda>(s, c). obind (oget s 0) (\<lambda>b. Ok (f b, c)))
      = obind (read_n 1 c) (\<lambda>(s, c). Ok (f (s ! 0), c))" for c
    by (auto simp: read_n_def usize_add_def)
  then show ?thesis by (simp only:) (rule reader_bind [OF reader_n reader_ret], simp)
qed

interpretation rd_value: reader "read_value ty" 0
proof -
  have "reader (\<lambda>c. read_value ty c) 0"
    by (cases ty)
      (simp_all only: read_value.simps, auto intro!: reader_bind [OF reader_n reader_ret]
        reader_bind [OF rd_u32.reader_axioms reader_ret] reader_bind [OF rd_u64.reader_axioms reader_ret]
        reader_bind [OF rd_string.reader_axioms reader_ret] reader_bind [OF rd_array.reader_axioms reader_ret]
        reader_byte simp del: One_nat_def)
  then show "reader (read_value ty) 0" by simp
qed

interpretation rd_kv: reader read_kv 12
  unfolding read_kv_def [abs_def]
  by (intro reader_bind [OF rd_string.reader_axioms, of _ 4] reader_bind [OF rd_u32.reader_axioms, of _ 0] reader_lift
      reader_bind [OF rd_value.reader_axioms reader_ret]) simp_all

interpretation rd_info: reader read_tensor_info 24
proof -
  have "reader (\<lambda>c. obind (read_times n read_u64 c) (\<lambda>(shape, c). obind (read_u32 c) (\<lambda>(raw, c).
     obind (read_u64 c) (\<lambda>(offset, c). Ok ((name, shape, tensor_type_from_u32 raw, offset), c))))) 12" for n name
    by (rule reader_bind [OF rd_u64.times_reader reader_bind [OF rd_u32.reader_axioms, of _ 8 12]])
      (auto intro: reader_bind [OF rd_u64.reader_axioms reader_ret])
  then have "reader (\<lambda>c. if 8 < n then Err e else obind (read_times n read_u64 c) (\<lambda>(shape, c). obind (read_u32 c) (\<lambda>(raw, c).
     obind (read_u64 c) (\<lambda>(offset, c). Ok ((name, shape, tensor_type_from_u32 raw, offset), c))))) 12" for n name and e :: error
    by (intro reader_if reader_err)
  then show "reader read_tensor_info 24"
    unfolding read_tensor_info_def [abs_def]
    by (intro reader_bind [OF rd_string.reader_axioms, of _ 16] reader_bind [OF rd_u32.reader_axioms, of _ 12]) simp_all
qed


subsection \<open>What a parsed file satisfies\<close>

lemma gt_blocks_not_Panic [simp]: "gt_blocks n bn bb e f \<noteq> Panic"
  by (simp add: gt_blocks_def)

lemma gt_bytes_not_Panic [simp]: "gt_bytes_for_numel ty n \<noteq> Panic"
  by (cases ty) auto

lemma data_base_not_Panic [simp]: "data_base a n \<noteq> Panic"
  by (simp add: data_base_def)

lemma checked_numel_loop:
  "oloop (\<lambda>n d. ok_or (usize_mul n (unat d)) (Overflow ''gguf: shape product overflows u64'')) shape n = Ok k \<Longrightarrow>
   n \<le> usize_max \<Longrightarrow> k = n * prod_list (map unat shape) \<and> k \<le> usize_max"
proof (induction shape arbitrary: n)
  case Nil
  then show ?case by simp
next
  case (Cons d shape)
  then have "n * unat d \<le> usize_max" by (auto simp: outcome_simps)
  then show ?case using Cons.IH [of "n * unat d"] Cons.prems by (auto simp: outcome_simps mult.assoc)
qed

lemma checked_numel_Ok:
  "checked_numel shape = Ok k \<Longrightarrow> k = prod_list (map unat shape) \<and> k \<le> usize_max"
  unfolding checked_numel_def using checked_numel_loop [of shape 1 k] by (simp add: usize_max_def)

lemma checked_numel_not_Panic [simp]: "checked_numel shape \<noteq> Panic"
  unfolding checked_numel_def by (rule oloop_not_Panic [where P = "\<lambda>_. True"]) auto

lemma gt_numel_eq: "gt_numel t = min (prod_list (map unat (gt_shape t))) usize_max"
  unfolding gt_numel_def foldl_map [symmetric]
  using foldl_sat_mul [of 1 "map unat (gt_shape t)"] by (simp add: usize_max_def foldl_map)

lemma materialize_not_Panic: "materialize blob base s p \<noteq> Panic"
  by (cases s; cases p) (auto simp: materialize_def outcome_simps split: if_splits)

text \<open>
  A tensor is the window of the blob its record names, as long as its element count and its
  type demand; the name index lists every tensor.
\<close>

definition tensor_in :: "bytes \<Rightarrow> GgufTensor \<Rightarrow> bool" where
  "tensor_in blob t \<longleftrightarrow>
     gt_start t + length (gt_bytes t) \<le> length blob \<and>
     gt_bytes t = slice blob (gt_start t) (gt_start t + length (gt_bytes t)) \<and>
     gt_numel t = prod_list (map unat (gt_shape t)) \<and>
     gt_bytes_for_numel (gt_dtype t) (gt_numel t) = Ok (length (gt_bytes t))"

definition index_ok :: "GgufTensor list \<Rightarrow> (bytes \<rightharpoonup> nat) \<Rightarrow> bool" where
  "index_ok ts bn \<longleftrightarrow> (\<forall>name i. bn name = Some i \<longrightarrow> i < length ts \<and> gt_name (ts ! i) = name) \<and>
     dom bn = gt_name ` set ts"

definition gguf_wf :: "bytes \<Rightarrow> GgufFile \<Rightarrow> bool" where
  "gguf_wf blob g \<longleftrightarrow> (\<forall>t\<in>set (gf_tensors g). tensor_in blob t) \<and> index_ok (gf_tensors g) (gf_by_name g)"

lemma materialize_Ok:
  assumes "materialize blob base (ts, bn) (i, name, shape, dt, off) = Ok s'"
  shows "\<exists>t. s' = (ts @ [t], bn(name \<mapsto> i)) \<and> gt_name t = name \<and> gt_shape t = shape \<and> gt_dtype t = dt \<and> tensor_in blob t"
  using assms by (auto simp: materialize_def outcome_simps tensor_in_def gt_numel_eq split: if_splits
      dest!: checked_numel_Ok)

lemma materialize_loop:
  "oloop (materialize blob base) (enumerate (length ts) infos) (ts, bn) = Ok (ts', bn') \<Longrightarrow>
   \<forall>t\<in>set ts. tensor_in blob t \<Longrightarrow> index_ok ts bn \<Longrightarrow>
   (\<forall>t\<in>set ts'. tensor_in blob t) \<and> index_ok ts' bn' \<and>
     map (\<lambda>t. (gt_name t, gt_shape t, gt_dtype t)) ts' =
     map (\<lambda>t. (gt_name t, gt_shape t, gt_dtype t)) ts @ map (\<lambda>(n, s, d, _). (n, s, d)) infos"
proof (induction infos arbitrary: ts bn)
  case Nil
  then show ?case by simp
next
  case (Cons info infos)
  obtain name shape dt off where info: "info = (name, shape, dt, off)" by (cases info)
  from Cons.prems(1) obtain s where s: "materialize blob base (ts, bn) (length ts, name, shape, dt, off) = Ok s"
    "oloop (materialize blob base) (enumerate (Suc (length ts)) infos) s = Ok (ts', bn')"
    by (auto simp: info outcome_simps)
  obtain t where t: "s = (ts @ [t], bn(name \<mapsto> length ts))" "gt_name t = name" "gt_shape t = shape" "gt_dtype t = dt" "tensor_in blob t"
    using materialize_Ok [OF s(1)] by blast
  have "index_ok (ts @ [t]) (bn(name \<mapsto> length ts))"
    using Cons.prems(3) t(2) by (auto simp: index_ok_def nth_append less_Suc_eq split: if_splits)
  moreover have "oloop (materialize blob base) (enumerate (length (ts @ [t])) infos) (ts @ [t], bn(name \<mapsto> length ts)) = Ok (ts', bn')"
    using s(2) t(1) by simp
  moreover have "\<forall>u\<in>set (ts @ [t]). tensor_in blob u" using Cons.prems(2) t(5) by simp
  ultimately have "(\<forall>t\<in>set ts'. tensor_in blob t) \<and> index_ok ts' bn' \<and>
     map (\<lambda>t. (gt_name t, gt_shape t, gt_dtype t)) ts' =
     map (\<lambda>t. (gt_name t, gt_shape t, gt_dtype t)) (ts @ [t]) @ map (\<lambda>(n, s, d, _). (n, s, d)) infos"
    by (intro Cons.IH)
  then show ?case using t info by simp
qed

lemma gguf_parse_OkD:
  assumes "gguf_parse blob = Ok g"
  obtains kvs c1 infos c2 base and tc :: u64 where "unat tc = length infos" and
    "cur_buf c1 = blob" and "cur_ok c1" and "gf_metadata g = insert_all Map.empty kvs"
    "read_times (unat tc) read_tensor_info c1 = Ok (infos, c2)"
    "oloop (materialize blob base) (enumerate 0 infos) ([], Map.empty) = Ok (gf_tensors g, gf_by_name g)"
    "gf_version g \<in> set SUPPORTED_VERSIONS" "cur_pos c1 \<ge> 24"
proof -
  obtain magic c1 ver c2 tc c3 kc c4 kvs c5 infos c6 base ts bn where
    r: "read_n 4 (cursor_new blob) = Ok (magic, c1)" "read_u32 c1 = Ok (ver, c2)" "ver \<in> set SUPPORTED_VERSIONS"
      "read_u64 c2 = Ok (tc, c3)" "read_u64 c3 = Ok (kc, c4)" "read_times (unat kc) read_kv c4 = Ok (kvs, c5)"
      "read_times (unat tc) read_tensor_info c5 = Ok (infos, c6)"
      "oloop (materialize blob base) (enumerate 0 infos) ([], Map.empty) = Ok (ts, bn)"
      "g = \<lparr>gf_version = ver, gf_metadata = insert_all Map.empty kvs, gf_tensors = ts, gf_by_name = bn\<rparr>"
    using assms by (auto simp: gguf_parse_def outcome_simps Let_def split: if_splits)
  have "cur_ok (cursor_new blob)" by (simp add: cur_ok_def cursor_new_def)
  note a1 = reader.advances [OF reader_n this r(1)]
  note a2 = rd_u32.advances [OF a1 [THEN conjunct2, THEN conjunct2] r(2)]
  note a3 = rd_u64.advances [OF a2 [THEN conjunct2, THEN conjunct2] r(4)]
  note a4 = rd_u64.advances [OF a3 [THEN conjunct2, THEN conjunct2] r(5)]
  note a5 = rd_kv.times_advances [OF a4 [THEN conjunct2, THEN conjunct2] r(6)]
  note a6 = rd_info.times_advances [OF a5 [THEN conjunct2, THEN conjunct2, THEN conjunct1] r(7)]
  have "cur_pos c5 \<ge> 24" using a1 a2 a3 a4 a5 by simp
  moreover have "cur_buf c5 = blob" using a1 a2 a3 a4 a5 by (simp add: cursor_new_def)
  ultimately show ?thesis using that [of tc infos c5 kvs c6 base] a5 a6 r by simp
qed

lemma reader_bind_not_Panic:
  assumes "reader r m" and "cur_ok c" and "\<And>x c'. cur_ok c' \<Longrightarrow> f x c' \<noteq> Panic"
  shows "obind (r c) (\<lambda>(x, c). f x c) \<noteq> Panic"
  using assms by (cases "r c") (auto dest: reader.advances [OF assms(1,2)] simp: reader.no_panic [OF assms(1,2)])

lemma gguf_parse_not_Panic: "gguf_parse blob \<noteq> Panic"
proof -
  have ok: "cur_ok (cursor_new blob)" by (simp add: cur_ok_def cursor_new_def)
  have mat: "oloop (materialize blob base) xs s \<noteq> Panic" for base xs s
    by (rule oloop_not_Panic [where P = "\<lambda>_. True"]) (simp_all add: materialize_not_Panic)
  have rest: "obind (data_base a (cur_pos c)) (\<lambda>base.
     obind (oloop (materialize blob base) infos s) (\<lambda>(tensors, by_name). Ok (f tensors by_name))) \<noteq> Panic"
    for a c infos s and f :: "GgufTensor list \<Rightarrow> (bytes \<rightharpoonup> nat) \<Rightarrow> GgufFile"
    using mat by (auto simp: outcome_simps)
  have guard: "(if P then Err e else x) \<noteq> Panic" if "x \<noteq> Panic" for P and e :: error and x :: "GgufFile res"
    using that by simp
  show ?thesis
    unfolding gguf_parse_def Let_def
    by (intro reader_bind_not_Panic [OF reader_n ok] guard reader_bind_not_Panic [OF rd_u32.reader_axioms]
        reader_bind_not_Panic [OF rd_u64.reader_axioms] reader_bind_not_Panic [OF rd_kv.times_reader]
        reader_bind_not_Panic [OF rd_info.times_reader] rest)
qed


subsection \<open>The file format as an encoder\<close>

definition cur_at :: "bytes \<Rightarrow> bytes \<Rightarrow> cursor" where
  "cur_at pre rest = \<lparr>cur_buf = pre @ rest, cur_pos = length pre\<rparr>"

text \<open>A reader and an encoder agree: reading an encoded value gives it back and stops right after it.\<close>

locale codec =
  fixes r :: "'a reader" and enc :: "'a \<Rightarrow> bytes" and ok :: "'a \<Rightarrow> bool"
  assumes decode: "ok x \<Longrightarrow> length (pre @ enc x @ post) \<le> usize_max \<Longrightarrow>
    r (cur_at pre (enc x @ post)) = Ok (x, cur_at (pre @ enc x) post)"
begin

lemma times_decode:
  "list_all ok xs \<Longrightarrow> length (pre @ concat (map enc xs) @ post) \<le> usize_max \<Longrightarrow>
   read_times (length xs) r (cur_at pre (concat (map enc xs) @ post)) = Ok (xs, cur_at (pre @ concat (map enc xs)) post)"
proof (induction xs arbitrary: pre)
  case Nil
  then show ?case by simp
next
  case (Cons x xs)
  have "r (cur_at pre (enc x @ concat (map enc xs) @ post)) = Ok (x, cur_at (pre @ enc x) (concat (map enc xs) @ post))"
    using Cons.prems by (intro decode) simp_all
  then show ?case using Cons.IH [of "pre @ enc x"] Cons.prems by simp
qed

end

lemma read_n_at:
  "length (pre @ bs @ post) \<le> usize_max \<Longrightarrow> read_n (length bs) (cur_at pre (bs @ post)) = Ok (bs, cur_at (pre @ bs) post)"
  by (simp add: read_n_def cur_at_def usize_add_def slice_def)

lemma read_n_at':
  "length bs = n \<Longrightarrow> length (pre @ bs @ post) \<le> usize_max \<Longrightarrow> read_n n (cur_at pre (bs @ post)) = Ok (bs, cur_at (pre @ bs) post)"
  using read_n_at by blast

interpretation cd_u32: codec read_u32 to_le_bytes32 "\<lambda>_. True"
  by unfold_locales (simp add: read_u32_def read_n_at')

interpretation cd_u64: codec read_u64 to_le_bytes64 "\<lambda>_. True"
  by unfold_locales (simp add: read_u64_def read_n_at')

definition enc_string :: "bytes \<Rightarrow> bytes" where
  "enc_string s = to_le_bytes64 (of_nat (length s)) @ s"

definition string_ok :: "bytes \<Rightarrow> bool" where
  "string_ok s \<longleftrightarrow> utf8_ok s \<and> length s \<le> 2 ^ 20"

interpretation cd_string: codec read_string enc_string string_ok
proof unfold_locales
  fix s pre post assume s: "string_ok s" and len: "length (pre @ enc_string s @ post) \<le> usize_max"
  have "unat (of_nat (length s) :: u64) = length s" using s by (simp add: string_ok_def unat_of_nat)
  moreover have "read_u64 (cur_at pre (to_le_bytes64 (of_nat (length s)) @ s @ post))
      = Ok (of_nat (length s), cur_at (pre @ to_le_bytes64 (of_nat (length s))) (s @ post))"
    using len by (intro cd_u64.decode) (simp_all add: enc_string_def)
  ultimately show "read_string (cur_at pre (enc_string s @ post)) = Ok (s, cur_at (pre @ enc_string s) post)"
    using s len read_n_at [of "pre @ to_le_bytes64 (of_nat (length s))" s post]
    by (simp add: read_string_def enc_string_def string_ok_def)
qed

subsubsection \<open>Values\<close>

fun value_type_tag :: "GgufValueType \<Rightarrow> u32" where
  "value_type_tag UINT8 = 0" | "value_type_tag INT8 = 1" | "value_type_tag UINT16 = 2"
| "value_type_tag INT16 = 3" | "value_type_tag UINT32 = 4" | "value_type_tag INT32 = 5"
| "value_type_tag FLOAT32 = 6" | "value_type_tag BOOL = 7" | "value_type_tag STRING = 8"
| "value_type_tag ARRAY = 9" | "value_type_tag UINT64 = 10" | "value_type_tag INT64 = 11"
| "value_type_tag FLOAT64 = 12"

lemma value_type_from_tag [simp]: "value_type_from_u32 (value_type_tag ty) = Some ty"
  by (cases ty) (simp_all add: value_type_from_u32_def)

definition array_ok :: "GgufArray \<Rightarrow> bool" where
  "array_ok a \<longleftrightarrow> ga_elem_type a \<noteq> ARRAY \<and>
     (if ga_elem_type a = STRING
      then \<exists>ss. ga_data a = concat (map (\<lambda>s. to_le_bytes64 (of_nat (length s)) @ s) ss) \<and> length ss = unat (ga_len a) \<and>
             list_all (\<lambda>s. length s \<le> usize_max) ss
      else \<exists>sz. elem_size (ga_elem_type a) = (Ok sz :: nat res) \<and> length (ga_data a) = unat (ga_len a) * sz)"

definition enc_array :: "GgufArray \<Rightarrow> bytes" where
  "enc_array a = to_le_bytes32 (value_type_tag (ga_elem_type a)) @ to_le_bytes64 (ga_len a) @ ga_data a"

lemma skip_strings_at:
  "list_all (\<lambda>s. length s \<le> usize_max) ss \<Longrightarrow>
   length (pre @ concat (map (\<lambda>s. to_le_bytes64 (of_nat (length s)) @ s) ss) @ post) \<le> usize_max \<Longrightarrow>
   \<exists>us. read_times (length ss) skip_array_string (cur_at pre (concat (map (\<lambda>s. to_le_bytes64 (of_nat (length s)) @ s) ss) @ post))
     = Ok (us, cur_at (pre @ concat (map (\<lambda>s. to_le_bytes64 (of_nat (length s)) @ s) ss)) post)"
proof (induction ss arbitrary: pre)
  case Nil
  then show ?case by simp
next
  case (Cons s ss)
  let ?h = "to_le_bytes64 (of_nat (length s))" and ?t = "concat (map (\<lambda>s. to_le_bytes64 (of_nat (length s)) @ s) ss) @ post"
  have "unat (of_nat (length s) :: u64) = length s"
    using Cons.prems(1) by (simp add: unat_of_nat usize_max_def)
  moreover have "read_u64 (cur_at pre (?h @ s @ ?t)) = Ok (of_nat (length s), cur_at (pre @ ?h) (s @ ?t))"
    using Cons.prems(2) by (intro cd_u64.decode) simp_all
  ultimately have "skip_array_string (cur_at pre (?h @ s @ ?t)) = Ok ((), cur_at (pre @ ?h @ s) ?t)"
    using Cons.prems(2) by (simp add: skip_array_string_def cur_at_def usize_add_def)
  moreover obtain us where "read_times (length ss) skip_array_string (cur_at (pre @ ?h @ s) ?t)
      = Ok (us, cur_at ((pre @ ?h @ s) @ concat (map (\<lambda>s. to_le_bytes64 (of_nat (length s)) @ s) ss)) post)"
    using Cons.IH [of "pre @ ?h @ s"] Cons.prems by auto
  ultimately show ?case by simp
qed

lemma skip_array_at:
  assumes "array_ok a" and "length (pre @ ga_data a @ post) \<le> usize_max"
  shows "skip_array (ga_elem_type a) (unat (ga_len a)) (cur_at pre (ga_data a @ post)) = Ok ((), cur_at (pre @ ga_data a) post)"
proof (cases "ga_elem_type a = STRING")
  case True
  then obtain ss where ss: "ga_data a = concat (map (\<lambda>s. to_le_bytes64 (of_nat (length s)) @ s) ss)"
    "length ss = unat (ga_len a)" "list_all (\<lambda>s. length s \<le> usize_max) ss"
    using assms(1) by (auto simp: array_ok_def)
  then show ?thesis using skip_strings_at [OF ss(3), of pre post] assms(2) True by (auto simp: skip_array_def ss(2) [symmetric])
next
  case False
  then obtain sz where sz: "elem_size (ga_elem_type a) = (Ok sz :: nat res)" "length (ga_data a) = unat (ga_len a) * sz"
    using assms(1) by (auto simp: array_ok_def)
  then show ?thesis using False assms(2)
    by (simp add: skip_array_def skip_array_prims_def cur_at_def usize_add_def usize_mul_def)
qed

interpretation cd_array: codec read_array enc_array array_ok
proof unfold_locales
  fix a pre post assume a: "array_ok a" and len: "length (pre @ enc_array a @ post) \<le> usize_max"
  let ?t = "to_le_bytes32 (value_type_tag (ga_elem_type a))" and ?l = "to_le_bytes64 (ga_len a)"
  have "ga_elem_type a \<noteq> ARRAY" using a by (simp add: array_ok_def)
  moreover have "read_u32 (cur_at pre (?t @ ?l @ ga_data a @ post)) = Ok (value_type_tag (ga_elem_type a), cur_at (pre @ ?t) (?l @ ga_data a @ post))"
    using len by (intro cd_u32.decode) (simp_all add: enc_array_def)
  moreover have "read_u64 (cur_at (pre @ ?t) (?l @ ga_data a @ post)) = Ok (ga_len a, cur_at ((pre @ ?t) @ ?l) (ga_data a @ post))"
    using len by (intro cd_u64.decode) (simp_all add: enc_array_def)
  moreover have "skip_array (ga_elem_type a) (unat (ga_len a)) (cur_at ((pre @ ?t) @ ?l) (ga_data a @ post)) = Ok ((), cur_at (((pre @ ?t) @ ?l) @ ga_data a) post)"
    using len by (intro skip_array_at [OF a]) (simp add: enc_array_def)
  moreover have "oslice (cur_buf (cur_at (((pre @ ?t) @ ?l) @ ga_data a) post)) (cur_pos (cur_at ((pre @ ?t) @ ?l) (ga_data a @ post)))
      (cur_pos (cur_at (((pre @ ?t) @ ?l) @ ga_data a) post)) = (Ok (ga_data a) :: bytes res)"
    by (simp add: cur_at_def slice_def)
  ultimately show "read_array (cur_at pre (enc_array a @ post)) = Ok (a, cur_at (pre @ enc_array a) post)"
    by (simp add: read_array_def enc_array_def Let_def)
qed

fun value_type_of :: "GgufValue \<Rightarrow> GgufValueType" where
  "value_type_of (GvU8 _) = UINT8" | "value_type_of (GvI8 _) = INT8" | "value_type_of (GvU16 _) = UINT16"
| "value_type_of (GvI16 _) = INT16" | "value_type_of (GvU32 _) = UINT32" | "value_type_of (GvI32 _) = INT32"
| "value_type_of (GvF32 _) = FLOAT32" | "value_type_of (GvBool _) = BOOL" | "value_type_of (GvString _) = STRING"
| "value_type_of (GvU64 _) = UINT64" | "value_type_of (GvI64 _) = INT64" | "value_type_of (GvF64 _) = FLOAT64"
| "value_type_of (GvArray _) = ARRAY"

fun enc_value :: "GgufValue \<Rightarrow> bytes" where
  "enc_value (GvU8 b) = [b]" | "enc_value (GvI8 b) = [b]"
| "enc_value (GvU16 v) = to_le_bytes16 v" | "enc_value (GvI16 v) = to_le_bytes16 v"
| "enc_value (GvU32 v) = to_le_bytes32 v" | "enc_value (GvI32 v) = to_le_bytes32 v" | "enc_value (GvF32 v) = to_le_bytes32 v"
| "enc_value (GvBool b) = [if b then 1 else 0]" | "enc_value (GvString s) = enc_string s"
| "enc_value (GvU64 v) = to_le_bytes64 v" | "enc_value (GvI64 v) = to_le_bytes64 v" | "enc_value (GvF64 v) = to_le_bytes64 v"
| "enc_value (GvArray a) = enc_array a"

fun value_ok :: "GgufValue \<Rightarrow> bool" where
  "value_ok (GvString s) = string_ok s"
| "value_ok (GvArray a) = array_ok a"
| "value_ok _ = True"

lemma read_value_at:
  assumes "value_ok v" and "length (pre @ enc_value v @ post) \<le> usize_max"
  shows "read_value (value_type_of v) (cur_at pre (enc_value v @ post)) = Ok (v, cur_at (pre @ enc_value v) post)"
proof -
  have byte: "read_n (Suc 0) (cur_at pre (b # post)) = Ok ([b], cur_at (pre @ [b]) post)" if "Suc (length pre + length post) \<le> usize_max" for b
    using read_n_at [of pre "[b]" post] that by simp
  show ?thesis using assms
    by (cases v) (simp_all add: byte read_n_at' cd_u32.decode cd_u64.decode cd_string.decode cd_array.decode)
qed

subsubsection \<open>Records and files\<close>

definition enc_kv :: "bytes \<times> GgufValue \<Rightarrow> bytes" where
  "enc_kv p = enc_string (fst p) @ to_le_bytes32 (value_type_tag (value_type_of (snd p))) @ enc_value (snd p)"

interpretation cd_kv: codec read_kv enc_kv "\<lambda>(k, v). string_ok k \<and> value_ok v"
proof unfold_locales
  fix p :: "bytes \<times> GgufValue" and pre post
  assume ok: "case p of (k, v) \<Rightarrow> string_ok k \<and> value_ok v" and len: "length (pre @ enc_kv p @ post) \<le> usize_max"
  obtain k v where p: "p = (k, v)" by (cases p)
  let ?t = "to_le_bytes32 (value_type_tag (value_type_of v))"
  have "read_string (cur_at pre (enc_string k @ ?t @ enc_value v @ post)) = Ok (k, cur_at (pre @ enc_string k) (?t @ enc_value v @ post))"
    using ok len by (intro cd_string.decode) (simp_all add: p enc_kv_def)
  moreover have "read_u32 (cur_at (pre @ enc_string k) (?t @ enc_value v @ post))
      = Ok (value_type_tag (value_type_of v), cur_at ((pre @ enc_string k) @ ?t) (enc_value v @ post))"
    using len by (intro cd_u32.decode) (simp_all add: p enc_kv_def)
  moreover have "read_value (value_type_of v) (cur_at ((pre @ enc_string k) @ ?t) (enc_value v @ post))
      = Ok (v, cur_at (((pre @ enc_string k) @ ?t) @ enc_value v) post)"
    using ok len by (intro read_value_at) (simp_all add: p enc_kv_def)
  ultimately show "read_kv (cur_at pre (enc_kv p @ post)) = Ok (p, cur_at (pre @ enc_kv p) post)"
    by (simp add: read_kv_def enc_kv_def p)
qed

fun tensor_type_tag :: "GgufTensorType \<Rightarrow> u32" where
  "tensor_type_tag GT_F32 = 0" | "tensor_type_tag GT_F16 = 1" | "tensor_type_tag GT_Q4_0 = 2"
| "tensor_type_tag GT_Q5_0 = 6" | "tensor_type_tag GT_Q8_0 = 8" | "tensor_type_tag GT_Q4_K = 12"
| "tensor_type_tag GT_Q6_K = 14" | "tensor_type_tag (GT_Other v) = v"

fun enc_info :: "tensor_info \<Rightarrow> bytes" where
  "enc_info (name, shape, dt, off) = enc_string name @ to_le_bytes32 (of_nat (length shape)) @
     concat (map to_le_bytes64 shape) @ to_le_bytes32 (tensor_type_tag dt) @ to_le_bytes64 off"

fun info_ok :: "tensor_info \<Rightarrow> bool" where
  "info_ok (name, shape, dt, off) \<longleftrightarrow> string_ok name \<and> length shape \<le> 8 \<and> tensor_type_from_u32 (tensor_type_tag dt) = dt"

interpretation cd_info: codec read_tensor_info enc_info info_ok
proof unfold_locales
  fix p pre post
  assume ok: "info_ok p" and len: "length (pre @ enc_info p @ post) \<le> usize_max"
  obtain name shape dt off where p: "p = (name, shape, dt, off)" by (cases p)
  let ?n = "enc_string name" and ?d = "to_le_bytes32 (of_nat (length shape))" and ?s = "concat (map to_le_bytes64 shape)"
    and ?t = "to_le_bytes32 (tensor_type_tag dt)" and ?o = "to_le_bytes64 off"
  have "length shape \<le> 8" using ok p by simp
  then have nd: "unat (of_nat (length shape) :: u32) = length shape" by (simp add: unat_of_nat)
  have "read_string (cur_at pre (?n @ ?d @ ?s @ ?t @ ?o @ post)) = Ok (name, cur_at (pre @ ?n) (?d @ ?s @ ?t @ ?o @ post))"
    using ok len p by (intro cd_string.decode) simp_all
  moreover have "read_u32 (cur_at (pre @ ?n) (?d @ ?s @ ?t @ ?o @ post)) = Ok (of_nat (length shape), cur_at ((pre @ ?n) @ ?d) (?s @ ?t @ ?o @ post))"
    using len p by (intro cd_u32.decode) simp_all
  moreover have "read_times (length shape) read_u64 (cur_at ((pre @ ?n) @ ?d) (?s @ ?t @ ?o @ post))
      = Ok (shape, cur_at (((pre @ ?n) @ ?d) @ ?s) (?t @ ?o @ post))"
    using len p by (intro cd_u64.times_decode) (simp_all add: list_all_def)
  moreover have "read_u32 (cur_at (((pre @ ?n) @ ?d) @ ?s) (?t @ ?o @ post)) = Ok (tensor_type_tag dt, cur_at ((((pre @ ?n) @ ?d) @ ?s) @ ?t) (?o @ post))"
    using len p by (intro cd_u32.decode) simp_all
  moreover have "read_u64 (cur_at ((((pre @ ?n) @ ?d) @ ?s) @ ?t) (?o @ post)) = Ok (off, cur_at (((((pre @ ?n) @ ?d) @ ?s) @ ?t) @ ?o) post)"
    using len p by (intro cd_u64.decode) simp_all
  ultimately show "read_tensor_info (cur_at pre (enc_info p @ post)) = Ok (p, cur_at (pre @ enc_info p) post)"
    using nd ok p \<open>length shape \<le> 8\<close> by (simp add: read_tensor_info_def)
qed


definition gguf_head :: "u32 \<Rightarrow> (bytes \<times> GgufValue) list \<Rightarrow> tensor_info list \<Rightarrow> bytes" where
  "gguf_head version kvs infos = GGUF_MAGIC @ to_le_bytes32 version @ to_le_bytes64 (of_nat (length infos)) @
     to_le_bytes64 (of_nat (length kvs)) @ concat (map enc_kv kvs) @ concat (map enc_info infos)"

definition align_up :: "nat \<Rightarrow> nat \<Rightarrow> nat" where
  "align_up a n = (n + a - 1) div a * a"

definition gguf_encode :: "u32 \<Rightarrow> (bytes \<times> GgufValue) list \<Rightarrow> tensor_info list \<Rightarrow> bytes \<Rightarrow> bytes" where
  "gguf_encode version kvs infos dat =
     (let h = gguf_head version kvs infos; a = alignment_of (insert_all Map.empty kvs) in
      h @ replicate (align_up a (length h) - length h) 0 @ dat)"

definition gguf_base :: "u32 \<Rightarrow> (bytes \<times> GgufValue) list \<Rightarrow> tensor_info list \<Rightarrow> nat" where
  "gguf_base version kvs infos = align_up (alignment_of (insert_all Map.empty kvs)) (length (gguf_head version kvs infos))"

fun info_bytes :: "tensor_info \<Rightarrow> nat res" where
  "info_bytes (name, shape, dt, off) = obind (checked_numel shape) (gt_bytes_for_numel dt)"

fun info_tensor :: "nat \<Rightarrow> bytes \<Rightarrow> tensor_info \<Rightarrow> GgufTensor" where
  "info_tensor base dat (name, shape, dt, off) =
     \<lparr>gt_name = name, gt_shape = shape, gt_dtype = dt, gt_start = base + unat off,
      gt_bytes = (case info_bytes (name, shape, dt, off) of Ok nb \<Rightarrow> slice dat (unat off) (unat off + nb) | _ \<Rightarrow> [])\<rparr>"

fun info_fits :: "bytes \<Rightarrow> tensor_info \<Rightarrow> bool" where
  "info_fits dat (name, shape, dt, off) \<longleftrightarrow>
     (case info_bytes (name, shape, dt, off) of Ok nb \<Rightarrow> unat off + nb \<le> length dat | _ \<Rightarrow> False)"

lemma align_up_ge: "0 < a \<Longrightarrow> n \<le> align_up a n"
proof -
  assume "0 < a"
  have "n + a - 1 = (n + a - 1) div a * a + (n + a - 1) mod a" by simp
  moreover have "(n + a - 1) mod a \<le> a - 1" using \<open>0 < a\<close> using mod_less_divisor [of a "n + a - 1"] by linarith
  ultimately show ?thesis using \<open>0 < a\<close> unfolding align_up_def by linarith
qed

lemma materialize_at:
  assumes "info_fits dat p" and "length (pre @ dat) \<le> usize_max"
  shows "materialize (pre @ dat) (length pre) (ts, bn) (i, p) = Ok (ts @ [info_tensor (length pre) dat p], bn(fst p \<mapsto> i))"
proof -
  obtain name shape dt off where p: "p = (name, shape, dt, off)" by (cases p)
  obtain n nb where n: "checked_numel shape = Ok n" "gt_bytes_for_numel dt n = Ok nb" "unat off + nb \<le> length dat"
    using assms(1) by (cases "checked_numel shape"; cases "obind (checked_numel shape) (gt_bytes_for_numel dt)") (auto simp: p)
  have "slice (pre @ dat) (length pre + unat off) (length pre + unat off + nb) = slice dat (unat off) (unat off + nb)"
    by (simp add: slice_def)
  then show ?thesis using n assms(2) by (simp add: p materialize_def usize_add_def)
qed

lemma materialize_all:
  assumes "list_all (info_fits dat) infos" and "length (pre @ dat) \<le> usize_max"
  shows "oloop (materialize (pre @ dat) (length pre)) (enumerate k infos) (ts, bn)
    = Ok (ts @ map (info_tensor (length pre) dat) infos, insert_all bn (zip (map fst infos) [k..<k + length infos]))"
  using assms(1)
proof (induction infos arbitrary: k ts bn)
  case Nil
  then show ?case by (simp add: insert_all_def)
next
  case (Cons p infos)
  have "oloop (materialize (pre @ dat) (length pre)) (enumerate (Suc k) infos) (ts @ [info_tensor (length pre) dat p], bn(fst p \<mapsto> k))
    = Ok ((ts @ [info_tensor (length pre) dat p]) @ map (info_tensor (length pre) dat) infos,
          insert_all (bn(fst p \<mapsto> k)) (zip (map fst infos) [Suc k..<Suc k + length infos]))"
    using Cons.prems by (intro Cons.IH) simp
  moreover have "[k..<k + length (p # infos)] = k # [Suc k..<Suc k + length infos]"
    using upt_conv_Cons [of k "k + length (p # infos)"] by simp
  ultimately show ?case
    using materialize_at [OF _ assms(2), of p ts bn k] Cons.prems by (simp add: insert_all_def del: upt_Suc)
qed

lemma length_concat_ge: "(\<And>x. x \<in> set xs \<Longrightarrow> f x \<noteq> []) \<Longrightarrow> length xs \<le> length (concat (map f xs))"
proof (induction xs)
  case Nil
  then show ?case by simp
next
  case (Cons x xs)
  then have "f x \<noteq> []" "length xs \<le> length (concat (map f xs))" by auto
  then show ?case by (cases "f x") auto
qed

lemma enc_kv_not_Nil [simp]: "enc_kv p \<noteq> []"
  by (simp add: enc_kv_def enc_string_def)

lemma enc_info_not_Nil [simp]: "enc_info p \<noteq> []"
  by (cases p) (simp add: enc_string_def)

lemma gguf_parse_encode:
  assumes "version \<in> set SUPPORTED_VERSIONS" and "list_all (\<lambda>(k, v). string_ok k \<and> value_ok v) kvs"
    and "list_all info_ok infos" and "list_all (info_fits dat) infos"
    and "0 < alignment_of (insert_all Map.empty kvs)" and "length (gguf_encode version kvs infos dat) \<le> usize_max"
  shows "gguf_parse (gguf_encode version kvs infos dat) = Ok \<lparr>gf_version = version,
     gf_metadata = insert_all Map.empty kvs, gf_tensors = map (info_tensor (gguf_base version kvs infos) dat) infos,
     gf_by_name = insert_all Map.empty (zip (map fst infos) [0..<length infos])\<rparr>"
proof -
  define a where "a = alignment_of (insert_all Map.empty kvs)"
  define h where "h = gguf_head version kvs infos"
  define pad where "pad = replicate (align_up a (length h) - length h) (0 :: u8)"
  define post where "post = pad @ dat"
  have whole: "gguf_encode version kvs infos dat = h @ post"
    by (simp add: gguf_encode_def Let_def h_def a_def pad_def post_def)
  let ?v = "to_le_bytes32 version" and ?ti = "to_le_bytes64 (of_nat (length infos))" and ?ki = "to_le_bytes64 (of_nat (length kvs))"
    and ?K = "concat (map enc_kv kvs)" and ?I = "concat (map enc_info infos)"
  have h: "h = GGUF_MAGIC @ ?v @ ?ti @ ?ki @ ?K @ ?I" by (simp add: h_def gguf_head_def)
  have len: "length (h @ post) \<le> usize_max" using assms(6) whole by simp
  have "length infos \<le> length ?I" "length kvs \<le> length ?K" by (simp_all add: length_concat_ge)
  then have cnt: "unat (of_nat (length infos) :: u64) = length infos" "unat (of_nat (length kvs) :: u64) = length kvs"
    using len by (auto simp: h unat_of_nat usize_max_def)
  have base: "gguf_base version kvs infos = length (h @ pad)"
    using align_up_ge [of a "length h"] assms(5) by (simp add: gguf_base_def h_def a_def pad_def)
  have m4: "length GGUF_MAGIC = 4" by (simp add: GGUF_MAGIC_def str_def)
  have "read_n 4 (cur_at [] (GGUF_MAGIC @ ?v @ ?ti @ ?ki @ ?K @ ?I @ post)) = Ok (GGUF_MAGIC, cur_at ([] @ GGUF_MAGIC) (?v @ ?ti @ ?ki @ ?K @ ?I @ post))"
    using len m4 by (intro read_n_at') (simp_all add: h)
  moreover have "cursor_new (h @ post) = cur_at [] (GGUF_MAGIC @ ?v @ ?ti @ ?ki @ ?K @ ?I @ post)"
    by (simp add: cursor_new_def cur_at_def h)
  moreover have "read_u32 (cur_at GGUF_MAGIC (?v @ ?ti @ ?ki @ ?K @ ?I @ post)) = Ok (version, cur_at (GGUF_MAGIC @ ?v) (?ti @ ?ki @ ?K @ ?I @ post))"
    using len by (intro cd_u32.decode) (simp_all add: h)
  moreover have "read_u64 (cur_at (GGUF_MAGIC @ ?v) (?ti @ ?ki @ ?K @ ?I @ post)) = Ok (of_nat (length infos), cur_at ((GGUF_MAGIC @ ?v) @ ?ti) (?ki @ ?K @ ?I @ post))"
    using len by (intro cd_u64.decode) (simp_all add: h)
  moreover have "read_u64 (cur_at ((GGUF_MAGIC @ ?v) @ ?ti) (?ki @ ?K @ ?I @ post)) = Ok (of_nat (length kvs), cur_at (((GGUF_MAGIC @ ?v) @ ?ti) @ ?ki) (?K @ ?I @ post))"
    using len by (intro cd_u64.decode) (simp_all add: h)
  moreover have "read_times (length kvs) read_kv (cur_at (((GGUF_MAGIC @ ?v) @ ?ti) @ ?ki) (?K @ ?I @ post))
      = Ok (kvs, cur_at ((((GGUF_MAGIC @ ?v) @ ?ti) @ ?ki) @ ?K) (?I @ post))"
    using len assms(2) by (intro cd_kv.times_decode) (simp_all add: h)
  moreover have "read_times (length infos) read_tensor_info (cur_at ((((GGUF_MAGIC @ ?v) @ ?ti) @ ?ki) @ ?K) (?I @ post))
      = Ok (infos, cur_at (((((GGUF_MAGIC @ ?v) @ ?ti) @ ?ki) @ ?K) @ ?I) post)"
    using len assms(3) by (intro cd_info.times_decode) (simp_all add: h)
  moreover have "data_base a (length h) = Ok (length (h @ pad))"
  proof -
    have "align_up a (length h) = length (h @ pad)" using align_up_ge [of a "length h"] assms(5) by (simp add: a_def pad_def)
    then show ?thesis using len assms(5) by (simp add: data_base_def usize_mul_def a_def align_up_def post_def)
  qed
  moreover have "oloop (materialize ((h @ pad) @ dat) (length (h @ pad))) (enumerate 0 infos) ([], Map.empty)
      = Ok ([] @ map (info_tensor (length (h @ pad)) dat) infos, insert_all Map.empty (zip (map fst infos) [0..<0 + length infos]))"
    using len by (intro materialize_all [OF assms(4)]) (simp add: post_def)
  ultimately show ?thesis
    using cnt assms(1) unfolding whole gguf_parse_def
    by (simp add: cur_at_def a_def [symmetric] h [symmetric] post_def base)
qed


lemma gguf_parse_wf: "gguf_parse blob = Ok g \<Longrightarrow> gguf_wf blob g"
proof -
  assume "gguf_parse blob = Ok g"
  then obtain infos base where "oloop (materialize blob base) (enumerate 0 infos) ([], Map.empty) = Ok (gf_tensors g, gf_by_name g)"
    by (rule gguf_parse_OkD)
  then show ?thesis using materialize_loop [of blob base "[]" infos Map.empty "gf_tensors g" "gf_by_name g"]
    by (simp add: gguf_wf_def index_ok_def)
qed

lemma gf_tensor_wf:
  assumes "gguf_wf blob g"
  shows "gf_tensor g name = Ok None \<and> name \<notin> gt_name ` set (gf_tensors g) \<or>
    (\<exists>t\<in>set (gf_tensors g). gf_tensor g name = Ok (Some t) \<and> gt_name t = name)"
proof (cases "gf_by_name g name")
  case None
  then have "name \<notin> dom (gf_by_name g)" by auto
  then show ?thesis using assms None by (auto simp: gguf_wf_def index_ok_def gf_tensor_def)
next
  case (Some i)
  then have "i < length (gf_tensors g)" "gt_name (gf_tensors g ! i) = name"
    using assms by (auto simp: gguf_wf_def index_ok_def)
  then show ?thesis using Some by (auto simp: gf_tensor_def)
qed

text \<open>A small file for the concrete instances: one key, one \<open>f32\<close> tensor of two elements.\<close>

definition demo_kvs :: "(bytes \<times> GgufValue) list" where
  "demo_kvs = [(str ''general.architecture'', GvString (str ''llama''))]"

definition demo_infos :: "tensor_info list" where
  "demo_infos = [(str ''w'', [2], GT_F32, 0)]"

definition demo_data :: bytes where
  "demo_data = [0, 0, 128, 63, 0, 0, 0, 64]"

lemma string_ok_ascii: "\<forall>b\<in>set s. b \<le> 0x7F \<Longrightarrow> length s \<le> 2 ^ 20 \<Longrightarrow> string_ok s"
  by (simp add: string_ok_def utf8_ok_ascii)

lemma demo_ok:
  "list_all (\<lambda>(k, v). string_ok k \<and> value_ok v) demo_kvs" "list_all info_ok demo_infos"
  "list_all (info_fits demo_data) demo_infos" "alignment_of (insert_all Map.empty demo_kvs) = 32"
  by (simp_all add: demo_kvs_def demo_infos_def demo_data_def str_def string_ok_ascii tensor_type_from_u32_def
      checked_numel_def usize_mul_def usize_max_def alignment_of_def insert_all_def DEFAULT_ALIGNMENT_def)

lemma align_up_le: "0 < a \<Longrightarrow> align_up a n \<le> n + a"
  by (metis align_up_def diff_le_self div_times_less_eq_dividend le_trans)

lemma demo_length: "length (gguf_encode 3 demo_kvs demo_infos demo_data) \<le> usize_max"
proof -
  let ?h = "gguf_head 3 demo_kvs demo_infos"
  have "length ?h \<le> 200"
    by (simp add: gguf_head_def demo_kvs_def demo_infos_def enc_kv_def enc_string_def GGUF_MAGIC_def str_def)
  moreover have "align_up 32 (length ?h) \<le> length ?h + 32" by (rule align_up_le) simp
  ultimately show ?thesis
    by (simp add: gguf_encode_def Let_def demo_ok usize_max_def demo_data_def)
qed

lemma demo_parse: "gguf_parse (gguf_encode 3 demo_kvs demo_infos demo_data) = Ok \<lparr>gf_version = 3,
     gf_metadata = insert_all Map.empty demo_kvs, gf_tensors = map (info_tensor (gguf_base 3 demo_kvs demo_infos) demo_data) demo_infos,
     gf_by_name = insert_all Map.empty (zip (map fst demo_infos) [0..<length demo_infos])\<rparr>"
  by (rule gguf_parse_encode) (simp_all add: demo_ok demo_length SUPPORTED_VERSIONS_def)

subsection \<open>Properties\<close>

text \<open>
  C7: on any byte string at all, truncated, corrupt or hostile, the parser returns a
  file or an error and never panics: no slice is out of range, no addition overflows unchecked,
  no division by a zero alignment is reached.
\<close>

theorem gguf_parse_total: "\<exists>r. gguf_parse blob = Ok r \<or> (\<exists>e. gguf_parse blob = Err e)"
  using gguf_parse_not_Panic by (cases "gguf_parse blob") auto

text \<open>
  C8: in a parsed file every tensor is a window inside the blob, exactly as long as
  its type and its element count demand, and that count is the true product of the dimensions;
  looking a name up never panics and finds a tensor of that name exactly if the file has one.
\<close>

theorem gguf_parsed_wf:
  assumes "gguf_parse blob = Ok g"
  shows "(\<forall>t\<in>set (gf_tensors g).
       gt_start t + length (gt_bytes t) \<le> length blob \<and>
       gt_bytes t = slice blob (gt_start t) (gt_start t + length (gt_bytes t)) \<and>
       gt_numel t = prod_list (map unat (gt_shape t)) \<and>
       gt_bytes_for_numel (gt_dtype t) (gt_numel t) = Ok (length (gt_bytes t))) \<and>
    (\<forall>name. gf_tensor g name = Ok None \<and> name \<notin> gt_name ` set (gf_tensors g) \<or>
       (\<exists>t\<in>set (gf_tensors g). gf_tensor g name = Ok (Some t) \<and> gt_name t = name))"
  using gguf_parse_wf [OF assms] gf_tensor_wf [OF gguf_parse_wf [OF assms]]
  unfolding gguf_wf_def tensor_in_def by blast

theorem gguf_parsed_wf_witness:
  "\<exists>g. gguf_parse (gguf_encode 3 demo_kvs demo_infos demo_data) = Ok g \<and>
    (\<exists>t\<in>set (gf_tensors g). gf_tensor g (str ''w'') = Ok (Some t))"
  using gguf_parsed_wf [OF demo_parse, THEN conjunct2, THEN spec [of _ "str ''w''"]]
  by (auto simp: demo_parse) (simp_all add: demo_infos_def)

text \<open>
  C9: a file written by the format's layout (header, metadata of every value type,
  tensor records, padding, data) parses back to exactly what was written: the metadata map with
  later keys replacing earlier ones, the tensors in order with their bytes cut out of the data
  section, and the name index.
\<close>

theorem gguf_round_trip:
  assumes "version \<in> set SUPPORTED_VERSIONS" and "list_all (\<lambda>(k, v). string_ok k \<and> value_ok v) kvs"
    and "list_all info_ok infos" and "list_all (info_fits dat) infos"
    and "0 < alignment_of (insert_all Map.empty kvs)" and "length (gguf_encode version kvs infos dat) \<le> usize_max"
  shows "gguf_parse (gguf_encode version kvs infos dat) = Ok \<lparr>gf_version = version,
     gf_metadata = insert_all Map.empty kvs, gf_tensors = map (info_tensor (gguf_base version kvs infos) dat) infos,
     gf_by_name = insert_all Map.empty (zip (map fst infos) [0..<length infos])\<rparr>"
  by (rule gguf_parse_encode [OF assms])

theorem gguf_round_trip_witness:
  "gguf_parse (gguf_encode 3 demo_kvs demo_infos demo_data) = Ok \<lparr>gf_version = 3,
     gf_metadata = insert_all Map.empty demo_kvs, gf_tensors = map (info_tensor (gguf_base 3 demo_kvs demo_infos) demo_data) demo_infos,
     gf_by_name = insert_all Map.empty (zip (map fst demo_infos) [0..<length demo_infos])\<rparr>"
  by (rule gguf_round_trip) (simp_all add: demo_ok demo_length SUPPORTED_VERSIONS_def)

text \<open>
  Whatever tensor count the header claims, the room reserved before the records
  are read is at most one slot per 24 bytes of the file plus one, and it is enough for every
  record of a file that parses.
\<close>

theorem gguf_reservation:
  assumes "cur_ok c"
  shows "tensor_info_cap tc c \<le> length (cur_buf c) div 24 + 1 \<and>
    (\<forall>infos c'. read_times (unat tc) read_tensor_info c = Ok (infos, c') \<longrightarrow> length infos \<le> tensor_info_cap tc c)"
proof (intro conjI allI impI)
  show "tensor_info_cap tc c \<le> length (cur_buf c) div 24 + 1"
    unfolding tensor_info_cap_def MIN_TENSOR_INFO_BYTES_def by (simp add: min.coboundedI2 div_le_mono)
  fix infos c' assume "read_times (unat tc) read_tensor_info c = Ok (infos, c')"
  from rd_info.times_advances [OF assms this]
  have "cur_pos c + length infos * 24 \<le> length (cur_buf c)" and len: "length infos = unat tc"
    by (auto simp: cur_ok_def)
  then have "length infos * 24 div 24 \<le> (length (cur_buf c) - cur_pos c) div 24" by (intro div_le_mono) simp
  then show "length infos \<le> tensor_info_cap tc c"
    using len by (simp add: tensor_info_cap_def MIN_TENSOR_INFO_BYTES_def)
qed

theorem gguf_reservation_witness:
  "tensor_info_cap (2 ^ 64 - 1) (cursor_new demo_data) \<le> length demo_data div 24 + 1"
  using gguf_reservation [of "cursor_new demo_data" "2 ^ 64 - 1"] by (simp add: cur_ok_def cursor_new_def)

end
