(* ===== verification/Config.thy ===== *)
theory Config
  imports Tensor Ops Gguf
begin

text \<open>
  Model dimensions (\<open>src/src/model/config.rs\<close>), the checked byte view (\<open>f32_view\<close> in
  \<open>src/src/model/mod.rs\<close>) and the llama2.c weight views (\<open>src/src/model/weights.rs\<close>). Dimensions come
  from files, so the products of sizes keep the wrap-around of a release build, and an address
  is explicit where alignment is checked.
\<close>

definition wrap_add :: "nat \<Rightarrow> nat \<Rightarrow> nat" where
  "wrap_add a b = (a + b) mod 2 ^ 64"

lemma wrap_add_small [simp]: "a + b \<le> usize_max \<Longrightarrow> wrap_add a b = a + b"
  by (simp add: wrap_add_def usize_max_def)

lemma wrap_mul_small [simp]: "a * b \<le> usize_max \<Longrightarrow> wrap_mul a b = a * b"
  by (simp add: wrap_mul_def usize_max_def)

subsection \<open>Config\<close>

record Config =
  c_dim :: nat
  c_hidden_dim :: nat
  c_n_layers :: nat
  c_n_heads :: nat
  c_n_kv_heads :: nat
  c_vocab_size :: nat
  c_seq_len :: nat
  c_shared_weights :: bool

text \<open>\<open>i32 as usize\<close> sign-extends.\<close>

definition i32_as_usize :: "i32 \<Rightarrow> nat" where
  "i32_as_usize w = unat (scast w :: u64)"

definition header_word :: "bytes \<Rightarrow> nat \<Rightarrow> i32 res" where
  "header_word blob off = omap le32 (oslice blob off (off + 4))"

definition config_from_header :: "bytes \<Rightarrow> Config res" where
  "config_from_header blob =
     (if length blob < 28 then Err (InvalidShape ''config header < 28 bytes'')
      else obind (header_word blob 0) (\<lambda>d. obind (header_word blob 4) (\<lambda>h. obind (header_word blob 8) (\<lambda>l.
        obind (header_word blob 12) (\<lambda>nh. obind (header_word blob 16) (\<lambda>kv. obind (header_word blob 20) (\<lambda>v.
        obind (header_word blob 24) (\<lambda>s.
        Ok \<lparr>c_dim = i32_as_usize d, c_hidden_dim = i32_as_usize h, c_n_layers = i32_as_usize l,
            c_n_heads = i32_as_usize nh, c_n_kv_heads = i32_as_usize kv, c_vocab_size = nat \<bar>sint v\<bar>,
            c_seq_len = i32_as_usize s, c_shared_weights = (0 < sint v)\<rparr>))))))))"

definition head_size :: "Config \<Rightarrow> nat res" where
  "head_size c = odiv (c_dim c) (c_n_heads c)"

definition kv_dim :: "Config \<Rightarrow> nat res" where
  "kv_dim c = odiv (wrap_mul (c_dim c) (c_n_kv_heads c)) (c_n_heads c)"

definition kv_mul :: "Config \<Rightarrow> nat res" where
  "kv_mul c = odiv (c_n_heads c) (c_n_kv_heads c)"

definition stories15m :: Config where
  "stories15m = \<lparr>c_dim = 288, c_hidden_dim = 768, c_n_layers = 6, c_n_heads = 6, c_n_kv_heads = 6,
     c_vocab_size = 32000, c_seq_len = 256, c_shared_weights = True\<rparr>"

definition mistral_7b_v01 :: Config where
  "mistral_7b_v01 = \<lparr>c_dim = 4096, c_hidden_dim = 14336, c_n_layers = 32, c_n_heads = 32, c_n_kv_heads = 8,
     c_vocab_size = 32000, c_seq_len = 4096, c_shared_weights = False\<rparr>"

definition gemma_2b :: Config where
  "gemma_2b = \<lparr>c_dim = 2048, c_hidden_dim = 16384, c_n_layers = 18, c_n_heads = 8, c_n_kv_heads = 1,
     c_vocab_size = 256000, c_seq_len = 8192, c_shared_weights = True\<rparr>"

definition read_u32_loose :: "GgufFile \<Rightarrow> bytes \<Rightarrow> nat res" where
  "read_u32_loose g key =
     (case gf_metadata g key of
        Some (GvU32 v) \<Rightarrow> Ok (unat v)
      | Some (GvU64 v) \<Rightarrow> Ok (unat v)
      | Some (GvI32 v) \<Rightarrow> if 0 \<le> sint v then Ok (unat v)
          else Err (Internal ''gguf: numeric metadata missing or wrong type'')
      | Some (GvI64 v) \<Rightarrow> if 0 \<le> sint v then Ok (unat v)
          else Err (Internal ''gguf: numeric metadata missing or wrong type'')
      | _ \<Rightarrow> Err (Internal ''gguf: numeric metadata missing or wrong type''))"

definition arch_key :: "bytes \<Rightarrow> string \<Rightarrow> bytes" where
  "arch_key arch suffix = arch @ str ''.'' @ str suffix"

definition unwrap_or :: "'a res \<Rightarrow> 'a \<Rightarrow> 'a res" where
  "unwrap_or r d = (case r of Ok x \<Rightarrow> Ok x | Err _ \<Rightarrow> Ok d | Panic \<Rightarrow> Panic)"

definition config_from_gguf :: "GgufFile \<Rightarrow> Config res" where
  "config_from_gguf g =
     obind (omap_err (\<lambda>_. Internal ''gguf: missing 'general.architecture' metadata'')
              (metadata_str g (str ''general.architecture''))) (\<lambda>arch.
     obind (read_u32_loose g (arch_key arch ''embedding_length'')) (\<lambda>d.
     obind (read_u32_loose g (arch_key arch ''feed_forward_length'')) (\<lambda>h.
     obind (read_u32_loose g (arch_key arch ''block_count'')) (\<lambda>l.
     obind (read_u32_loose g (arch_key arch ''attention.head_count'')) (\<lambda>nh.
     obind (unwrap_or (read_u32_loose g (arch_key arch ''attention.head_count_kv'')) nh) (\<lambda>kv.
     obind (read_u32_loose g (arch_key arch ''context_length'')) (\<lambda>s.
     obind (case gf_metadata g (str ''tokenizer.ggml.tokens'') of
              Some (GvArray a) \<Rightarrow> Ok (unat (ga_len a))
            | _ \<Rightarrow> read_u32_loose g (arch_key arch ''vocab_size'')) (\<lambda>v.
     obind (gf_tensor g (str ''output.weight'')) (\<lambda>ow.
     Ok \<lparr>c_dim = d, c_hidden_dim = h, c_n_layers = l, c_n_heads = nh, c_n_kv_heads = kv,
         c_vocab_size = v, c_seq_len = s, c_shared_weights = (ow = None)\<rparr>)))))))))"

subsection \<open>Byte views\<close>

text \<open>The words of a byte region, and the view of a region that starts at an address.\<close>

definition words_of :: "bytes \<Rightarrow> u32 list" where
  "words_of bs = map (\<lambda>i. le32 (slice bs (4 * i) (4 * i + 4))) [0..<length bs div 4]"

definition f32_view :: "nat \<Rightarrow> bytes \<Rightarrow> f32 list res" where
  "f32_view addr bs =
     (if length bs mod 4 \<noteq> 0 then Err (InvalidShape ''f32 view: byte length not a multiple of 4'')
      else if addr mod 4 \<noteq> 0
      then Err (InvalidShape ''f32 view: tensor offset not 4-byte aligned (malformed file)'')
      else Ok (words_of bs))"

lemma words_of_word_bytes [simp]: "words_of (word_bytes ws) = ws"
proof -
  have "word_bytes (words_of (word_bytes ws)) = word_bytes ws"
    using word_bytes_pack [of "word_bytes ws" "length ws"] by (simp add: words_of_def mult.commute)
  then show ?thesis by (simp only: word_bytes_inj)
qed

lemma f32_view_word_bytes [simp]: "addr mod 4 = 0 \<Longrightarrow> f32_view addr (word_bytes ws) = Ok ws"
  by (simp add: f32_view_def)

lemma f32_view_not_Panic [simp]: "f32_view addr bs \<noteq> Panic"
  by (simp add: f32_view_def)

subsection \<open>Weights of a llama2.c blob\<close>

record Weights =
  w_token_embedding_table :: "f32 list"
  w_rms_att_weight :: "f32 list"
  w_wq :: "f32 list"
  w_wk :: "f32 list"
  w_wv :: "f32 list"
  w_wo :: "f32 list"
  w_rms_ffn_weight :: "f32 list"
  w_w1 :: "f32 list"
  w_w2 :: "f32 list"
  w_w3 :: "f32 list"
  w_rms_final_weight :: "f32 list"
  w_wcls :: "f32 list"

text \<open>\<open>take(src, &mut p, len)\<close>: the position is threaded.\<close>

definition take_floats :: "f32 list \<Rightarrow> nat \<Rightarrow> nat \<Rightarrow> (f32 list \<times> nat) res" where
  "take_floats src p len =
     (if length src < wrap_add p len then Err (InvalidShape ''weights blob truncated'')
      else obind (oslice src p (wrap_add p len)) (\<lambda>s. Ok (s, wrap_add p len)))"

definition weights_from_blob :: "nat \<Rightarrow> bytes \<Rightarrow> Config \<Rightarrow> Weights res" where
  "weights_from_blob addr blob cfg =
     (if length blob < 28 then Err (InvalidShape ''weights blob shorter than header'')
      else obind (f32_view (addr + 28) (drop 28 blob)) (\<lambda>src.
      obind (head_size cfg) (\<lambda>hs.
      let q = wrap_mul (c_n_heads cfg) hs; kv = wrap_mul (c_n_kv_heads cfg) hs;
          ld = wrap_mul (c_n_layers cfg) (c_dim cfg) in
      obind (take_floats src 0 (wrap_mul (c_vocab_size cfg) (c_dim cfg))) (\<lambda>(te, p).
      obind (take_floats src p ld) (\<lambda>(ra, p).
      obind (take_floats src p (wrap_mul ld q)) (\<lambda>(wq, p).
      obind (take_floats src p (wrap_mul ld kv)) (\<lambda>(wk, p).
      obind (take_floats src p (wrap_mul ld kv)) (\<lambda>(wv, p).
      obind (take_floats src p (wrap_mul (wrap_mul (c_n_layers cfg) q) (c_dim cfg))) (\<lambda>(wo, p).
      obind (take_floats src p ld) (\<lambda>(rf, p).
      obind (take_floats src p (wrap_mul (wrap_mul (c_n_layers cfg) (c_hidden_dim cfg)) (c_dim cfg))) (\<lambda>(w1, p).
      obind (take_floats src p (wrap_mul ld (c_hidden_dim cfg))) (\<lambda>(w2, p).
      obind (take_floats src p (wrap_mul (wrap_mul (c_n_layers cfg) (c_hidden_dim cfg)) (c_dim cfg))) (\<lambda>(w3, p).
      obind (take_floats src p (c_dim cfg)) (\<lambda>(rl, p).
      let fr = wrap_mul (c_seq_len cfg) hs div 2; p = wrap_add (wrap_add p fr) fr in
      obind (if c_shared_weights cfg then Ok (te, p)
             else take_floats src p (wrap_mul (c_vocab_size cfg) (c_dim cfg))) (\<lambda>(wcls, p).
      Ok \<lparr>w_token_embedding_table = te, w_rms_att_weight = ra, w_wq = wq, w_wk = wk, w_wv = wv, w_wo = wo,
          w_rms_ffn_weight = rf, w_w1 = w1, w_w2 = w2, w_w3 = w3, w_rms_final_weight = rl,
          w_wcls = wcls\<rparr>)))))))))))))))"


text \<open>A product that fits is computed exactly, also when it is built up by wrapping steps.\<close>

lemma wrap_mul_fits:
  assumes "n \<le> usize_max"
  shows "n = a * b \<Longrightarrow> wrap_mul a b = n"
    and "n = a * b * c \<Longrightarrow> wrap_mul (wrap_mul a b) c = n"
    and "n = a * b * (c * d) \<Longrightarrow> wrap_mul (wrap_mul a b) (wrap_mul c d) = n"
    and "n = a * (b * c) * d \<Longrightarrow> wrap_mul (wrap_mul a (wrap_mul b c)) d = n"
proof -
  have "n mod 2 ^ 64 = n" using assms by (simp add: usize_max_def)
  then show "n = a * b \<Longrightarrow> wrap_mul a b = n" "n = a * b * c \<Longrightarrow> wrap_mul (wrap_mul a b) c = n"
    "n = a * b * (c * d) \<Longrightarrow> wrap_mul (wrap_mul a b) (wrap_mul c d) = n"
    "n = a * (b * c) * d \<Longrightarrow> wrap_mul (wrap_mul a (wrap_mul b c)) d = n"
    unfolding wrap_mul_def by (metis mod_mult_left_eq mod_mult_right_eq)+
qed

lemma take_floats_at:
  "length (pre @ xs @ post) \<le> usize_max \<Longrightarrow> n = length xs \<Longrightarrow> p = length pre \<Longrightarrow>
   take_floats (pre @ xs @ post) p n = Ok (xs, length (pre @ xs))"
  by (simp add: take_floats_def slice_def)

lemma sint_of_int_32: "\<bar>k\<bar> < 2 ^ 31 \<Longrightarrow> sint (of_int k :: 32 word) = k"
  unfolding sint_sbintrunc' by (rule signed_take_bit_int_eq_self) (simp_all add: abs_less_iff)

lemma sint_of_nat_32: "n < 2 ^ 31 \<Longrightarrow> sint (of_nat n :: 32 word) = int n" "n < 2 ^ 31 \<Longrightarrow> sint (- of_nat n :: 32 word) = - int n"
  using sint_of_int_32 [of "int n"] sint_of_int_32 [of "- int n"] by simp_all

lemma i32_as_usize_of_nat: "n < 2 ^ 31 \<Longrightarrow> i32_as_usize (of_nat n) = n"
proof -
  assume n: "n < 2 ^ 31"
  have "(scast (of_nat n :: i32) :: u64) = of_int (sint (of_nat n :: i32))" by simp
  also have "\<dots> = of_nat n" using n by (simp add: sint_of_nat_32 del: of_int_sint)
  finally show ?thesis using n by (simp add: i32_as_usize_def unat_of_nat)
qed

lemma header_word_at:
  "i < length ws \<Longrightarrow> header_word (word_bytes ws @ rest) (4 * i) = Ok (ws ! i)"
proof -
  assume i: "i < length ws"
  have "slice (word_bytes ws @ rest) (4 * i) (4 * i + 4) = slice (word_bytes ws) (4 * i) (4 * i + 4)"
    using i by (simp add: slice_def)
  moreover have "le32 (slice (word_bytes ws) (4 * i) (4 * i + 4)) = words_of (word_bytes ws) ! i"
    using i by (simp only: words_of_def) simp
  ultimately show ?thesis using i by (simp add: header_word_def)
qed

lemma weights_from_blob_at:
  assumes "addr mod 4 = 0" and "length hdr = 28" and "0 < c_n_heads cfg" and "hs = c_dim cfg div c_n_heads cfg"
    and "length te = c_vocab_size cfg * c_dim cfg" and "length ra = c_n_layers cfg * c_dim cfg"
    and "length wq = c_n_layers cfg * c_dim cfg * (c_n_heads cfg * hs)"
    and "length wk = c_n_layers cfg * c_dim cfg * (c_n_kv_heads cfg * hs)" and "length wv = length wk"
    and "length wo = c_n_layers cfg * (c_n_heads cfg * hs) * c_dim cfg" and "length rf = length ra"
    and "length w1 = c_n_layers cfg * c_hidden_dim cfg * c_dim cfg"
    and "length w2 = c_n_layers cfg * c_dim cfg * c_hidden_dim cfg" and "length w3 = length w1"
    and "length rl = c_dim cfg" and "c_seq_len cfg * hs \<le> usize_max"
    and "length freq = 2 * (c_seq_len cfg * hs div 2)"
    and "length cls = (if c_shared_weights cfg then 0 else c_vocab_size cfg * c_dim cfg)"
    and "length (te @ ra @ wq @ wk @ wv @ wo @ rf @ w1 @ w2 @ w3 @ rl @ freq @ cls @ rest) \<le> usize_max"
  shows "weights_from_blob addr (hdr @ word_bytes (te @ ra @ wq @ wk @ wv @ wo @ rf @ w1 @ w2 @ w3 @ rl @ freq @ cls @ rest)) cfg
    = Ok \<lparr>w_token_embedding_table = te, w_rms_att_weight = ra, w_wq = wq, w_wk = wk, w_wv = wv, w_wo = wo,
          w_rms_ffn_weight = rf, w_w1 = w1, w_w2 = w2, w_w3 = w3, w_rms_final_weight = rl,
          w_wcls = if c_shared_weights cfg then te else cls\<rparr>"
proof -
  let ?all = "te @ ra @ wq @ wk @ wv @ wo @ rf @ w1 @ w2 @ w3 @ rl @ freq @ cls @ rest"
  note len = assms(19) [simplified]
  have sz: "wrap_mul (c_vocab_size cfg) (c_dim cfg) = length te" "wrap_mul (c_n_layers cfg) (c_dim cfg) = length ra"
    "wrap_mul (wrap_mul (c_n_layers cfg) (c_dim cfg)) (wrap_mul (c_n_heads cfg) hs) = length wq"
    "wrap_mul (wrap_mul (c_n_layers cfg) (c_dim cfg)) (wrap_mul (c_n_kv_heads cfg) hs) = length wk"
    "wrap_mul (wrap_mul (c_n_layers cfg) (wrap_mul (c_n_heads cfg) hs)) (c_dim cfg) = length wo"
    "wrap_mul (wrap_mul (c_n_layers cfg) (c_hidden_dim cfg)) (c_dim cfg) = length w1"
    "wrap_mul (wrap_mul (c_n_layers cfg) (c_dim cfg)) (c_hidden_dim cfg) = length w2"
    by (rule wrap_mul_fits; use len assms(5-13) in simp)+
  have fr: "wrap_mul (c_seq_len cfg) hs div 2 + wrap_mul (c_seq_len cfg) hs div 2 = length freq"
    using assms(16,17) by simp
  have t: "take_floats ?all p n = Ok (xs, p + n)"
    if "?all = pre @ xs @ post" "n = length xs" "p = length pre" for pre xs post n p
  proof -
    have "length (pre @ xs @ post) \<le> usize_max" using assms(19) unfolding that(1) .
    from take_floats_at [OF this that(2,3)] that(2,3) show ?thesis unfolding that(1) by simp
  qed
  have v: "f32_view (addr + 28) (word_bytes ?all) = Ok ?all"
    by (rule f32_view_word_bytes) (use assms(1) in presburger)
  have hsz: "head_size cfg = Ok hs" using assms(3,4) by (simp add: head_size_def odiv_def)
  have wa: "wrap_add a b = a + b" if "a + b \<le> length ?all" for a b
    using that assms(19) by (meson le_trans wrap_add_small)
  have s0: "take_floats ?all (0) (length te) = Ok (te, length te)"
    using t [of "[]" te "ra @ wq @ wk @ wv @ wo @ rf @ w1 @ w2 @ w3 @ rl @ freq @ cls @ rest" "length te" 0] by simp
  have s1: "take_floats ?all (length te) (length ra) = Ok (ra, length te + length ra)"
    by (rule t [of "te" _ "wq @ wk @ wv @ wo @ rf @ w1 @ w2 @ w3 @ rl @ freq @ cls @ rest"]) (use assms(9,11,14,15) in simp_all)
  have s2: "take_floats ?all (length te + length ra) (length wq) = Ok (wq, length te + length ra + length wq)"
    by (rule t [of "te @ ra" _ "wk @ wv @ wo @ rf @ w1 @ w2 @ w3 @ rl @ freq @ cls @ rest"]) (use assms(9,11,14,15) in simp_all)
  have s3: "take_floats ?all (length te + length ra + length wq) (length wk) = Ok (wk, length te + length ra + length wq + length wk)"
    by (rule t [of "te @ ra @ wq" _ "wv @ wo @ rf @ w1 @ w2 @ w3 @ rl @ freq @ cls @ rest"]) (use assms(9,11,14,15) in simp_all)
  have s4: "take_floats ?all (length te + length ra + length wq + length wk) (length wk) = Ok (wv, length te + length ra + length wq + length wk + length wk)"
    by (rule t [of "te @ ra @ wq @ wk" _ "wo @ rf @ w1 @ w2 @ w3 @ rl @ freq @ cls @ rest"]) (use assms(9,11,14,15) in simp_all)
  have s5: "take_floats ?all (length te + length ra + length wq + length wk + length wk) (length wo) = Ok (wo, length te + length ra + length wq + length wk + length wk + length wo)"
    by (rule t [of "te @ ra @ wq @ wk @ wv" _ "rf @ w1 @ w2 @ w3 @ rl @ freq @ cls @ rest"]) (use assms(9,11,14,15) in simp_all)
  have s6: "take_floats ?all (length te + length ra + length wq + length wk + length wk + length wo) (length ra) = Ok (rf, length te + length ra + length wq + length wk + length wk + length wo + length ra)"
    by (rule t [of "te @ ra @ wq @ wk @ wv @ wo" _ "w1 @ w2 @ w3 @ rl @ freq @ cls @ rest"]) (use assms(9,11,14,15) in simp_all)
  have s7: "take_floats ?all (length te + length ra + length wq + length wk + length wk + length wo + length ra) (length w1) = Ok (w1, length te + length ra + length wq + length wk + length wk + length wo + length ra + length w1)"
    by (rule t [of "te @ ra @ wq @ wk @ wv @ wo @ rf" _ "w2 @ w3 @ rl @ freq @ cls @ rest"]) (use assms(9,11,14,15) in simp_all)
  have s8: "take_floats ?all (length te + length ra + length wq + length wk + length wk + length wo + length ra + length w1) (length w2) = Ok (w2, length te + length ra + length wq + length wk + length wk + length wo + length ra + length w1 + length w2)"
    by (rule t [of "te @ ra @ wq @ wk @ wv @ wo @ rf @ w1" _ "w3 @ rl @ freq @ cls @ rest"]) (use assms(9,11,14,15) in simp_all)
  have s9: "take_floats ?all (length te + length ra + length wq + length wk + length wk + length wo + length ra + length w1 + length w2) (length w1) = Ok (w3, length te + length ra + length wq + length wk + length wk + length wo + length ra + length w1 + length w2 + length w1)"
    by (rule t [of "te @ ra @ wq @ wk @ wv @ wo @ rf @ w1 @ w2" _ "rl @ freq @ cls @ rest"]) (use assms(9,11,14,15) in simp_all)
  have s10: "take_floats ?all (length te + length ra + length wq + length wk + length wk + length wo + length ra + length w1 + length w2 + length w1) (c_dim cfg) = Ok (rl, length te + length ra + length wq + length wk + length wk + length wo + length ra + length w1 + length w2 + length w1 + c_dim cfg)"
    by (rule t [of "te @ ra @ wq @ wk @ wv @ wo @ rf @ w1 @ w2 @ w3" _ "freq @ cls @ rest"]) (use assms(9,11,14,15) in simp_all)
  have s12: "take_floats ?all (length te + length ra + length wq + length wk + length wk + length wo + length ra + length w1 + length w2 + length w1 + c_dim cfg + length freq) (length cls) = Ok (cls, length te + length ra + length wq + length wk + length wk + length wo + length ra + length w1 + length w2 + length w1 + c_dim cfg + length freq + length cls)"
    by (rule t [of "te @ ra @ wq @ wk @ wv @ wo @ rf @ w1 @ w2 @ w3 @ rl @ freq" _ "rest"]) (use assms(9,11,14,15) in simp_all)
  have skip: "wrap_add (wrap_add (length te + length ra + length wq + length wk + length wk + length wo + length ra + length w1 + length w2 + length w1 + c_dim cfg) (wrap_mul (c_seq_len cfg) hs div 2)) (wrap_mul (c_seq_len cfg) hs div 2)
      = length te + length ra + length wq + length wk + length wk + length wo + length ra + length w1 + length w2 + length w1 + c_dim cfg + length freq"
    using fr assms(9,11,14,15) by (simp add: wa)
  note sizes = sz(1,2) sz(3-7) [unfolded sz(2)]
  note steps = s0 s1 s2 s3 s4 s5 s6 s7 s8 s9 s10
  have 28: "drop 28 (hdr @ word_bytes ?all) = word_bytes ?all" "\<not> length (hdr @ word_bytes ?all) < 28"
    using assms(2) by simp_all
  show ?thesis
  proof (cases "c_shared_weights cfg")
    case True
    then show ?thesis
      unfolding weights_from_blob_def 28 v Let_def obind.simps hsz sizes steps prod.case skip using assms(2) by simp
  next
    case False
    then have "length cls = length te" using assms(5,18) by simp
    then have "take_floats ?all (length te + length ra + length wq + length wk + length wk + length wo + length ra + length w1 + length w2 + length w1 + c_dim cfg + length freq) (length te) = Ok (cls, length te + length ra + length wq + length wk + length wk + length wo + length ra + length w1 + length w2 + length w1 + c_dim cfg + length freq + length te)"
      using s12 by simp
    then show ?thesis using False
      unfolding weights_from_blob_def 28 v Let_def obind.simps hsz sizes steps prod.case skip using assms(2) by simp
  qed
qed

text \<open>A header is seven little-endian words.\<close>

definition enc_header :: "nat \<Rightarrow> nat \<Rightarrow> nat \<Rightarrow> nat \<Rightarrow> nat \<Rightarrow> i32 \<Rightarrow> nat \<Rightarrow> bytes" where
  "enc_header d h l nh kv v s = word_bytes [of_nat d, of_nat h, of_nat l, of_nat nh, of_nat kv, v, of_nat s]"

lemma config_from_header_at:
  assumes "d < 2 ^ 31" and "h < 2 ^ 31" and "l < 2 ^ 31" and "nh < 2 ^ 31" and "kv < 2 ^ 31" and "s < 2 ^ 31"
  shows "config_from_header (enc_header d h l nh kv v s @ rest) = Ok \<lparr>c_dim = d, c_hidden_dim = h, c_n_layers = l,
    c_n_heads = nh, c_n_kv_heads = kv, c_vocab_size = nat \<bar>sint v\<bar>, c_seq_len = s, c_shared_weights = (0 < sint v)\<rparr>"
proof -
  let ?ws = "[of_nat d, of_nat h, of_nat l, of_nat nh, of_nat kv, v, of_nat s] :: u32 list"
  have "header_word (word_bytes ?ws @ rest) (4 * i) = Ok (?ws ! i)" if "i < 7" for i
    using that by (intro header_word_at) simp
  from this [of 0] this [of 1] this [of 2] this [of 3] this [of 4] this [of 5] this [of 6]
  have "header_word (word_bytes ?ws @ rest) 0 = Ok (of_nat d)" "header_word (word_bytes ?ws @ rest) 4 = Ok (of_nat h)"
    "header_word (word_bytes ?ws @ rest) 8 = Ok (of_nat l)" "header_word (word_bytes ?ws @ rest) 12 = Ok (of_nat nh)"
    "header_word (word_bytes ?ws @ rest) 16 = Ok (of_nat kv)" "header_word (word_bytes ?ws @ rest) 20 = Ok v"
    "header_word (word_bytes ?ws @ rest) 24 = Ok (of_nat s)"
    by (simp_all del: word_bytes_Cons)
  moreover have "\<not> length (word_bytes ?ws @ rest) < 28" by (simp del: word_bytes_Cons)
  ultimately show ?thesis
    unfolding config_from_header_def enc_header_def using assms
    by (simp add: i32_as_usize_of_nat del: word_bytes_Cons)
qed

subsection \<open>Properties\<close>

text \<open>
  A llama2.c header with dimensions below \<open>2^31\<close> reads back exactly, and
  the sign of the vocabulary word alone decides whether the output matrix is shared.
\<close>

theorem config_header_round_trip:
  assumes "d < 2 ^ 31" and "h < 2 ^ 31" and "l < 2 ^ 31" and "nh < 2 ^ 31" and "kv < 2 ^ 31" and "s < 2 ^ 31"
    and "0 < v" and "v < 2 ^ 31"
  shows "config_from_header (enc_header d h l nh kv (if shared then of_nat v else - of_nat v) s @ rest) =
    Ok \<lparr>c_dim = d, c_hidden_dim = h, c_n_layers = l, c_n_heads = nh, c_n_kv_heads = kv, c_vocab_size = v,
        c_seq_len = s, c_shared_weights = shared\<rparr>"
  unfolding config_from_header_at [OF assms(1-6)] using assms(7,8) by (simp add: sint_of_nat_32)

theorem config_header_round_trip_witness:
  "config_from_header (enc_header 288 768 6 6 6 (if True then of_nat 32000 else - of_nat 32000) 256 @ []) = Ok stories15m"
  using config_header_round_trip [of 288 768 6 6 6 256 32000 True "[]"] by (simp only: stories15m_def) simp

text \<open>
  A blob that holds the tensors in llama2.c order after its 28-byte header, on an
  aligned address, is carved into exactly those tensors: every field is its own region, the two
  frequency tables are skipped, and the output matrix is the embedding table when it is shared
  and the region after the tables otherwise.
\<close>

theorem weights_layout:
  assumes "addr mod 4 = 0" and "length hdr = 28" and "0 < c_n_heads cfg" and "hs = c_dim cfg div c_n_heads cfg"
    and "length te = c_vocab_size cfg * c_dim cfg" and "length ra = c_n_layers cfg * c_dim cfg"
    and "length wq = c_n_layers cfg * c_dim cfg * (c_n_heads cfg * hs)"
    and "length wk = c_n_layers cfg * c_dim cfg * (c_n_kv_heads cfg * hs)" and "length wv = length wk"
    and "length wo = c_n_layers cfg * (c_n_heads cfg * hs) * c_dim cfg" and "length rf = length ra"
    and "length w1 = c_n_layers cfg * c_hidden_dim cfg * c_dim cfg"
    and "length w2 = c_n_layers cfg * c_dim cfg * c_hidden_dim cfg" and "length w3 = length w1"
    and "length rl = c_dim cfg" and "c_seq_len cfg * hs \<le> usize_max"
    and "length freq = 2 * (c_seq_len cfg * hs div 2)"
    and "length cls = (if c_shared_weights cfg then 0 else c_vocab_size cfg * c_dim cfg)"
    and "length (te @ ra @ wq @ wk @ wv @ wo @ rf @ w1 @ w2 @ w3 @ rl @ freq @ cls @ rest) \<le> usize_max"
  shows "weights_from_blob addr (hdr @ word_bytes (te @ ra @ wq @ wk @ wv @ wo @ rf @ w1 @ w2 @ w3 @ rl @ freq @ cls @ rest)) cfg
    = Ok \<lparr>w_token_embedding_table = te, w_rms_att_weight = ra, w_wq = wq, w_wk = wk, w_wv = wv, w_wo = wo,
          w_rms_ffn_weight = rf, w_w1 = w1, w_w2 = w2, w_w3 = w3, w_rms_final_weight = rl,
          w_wcls = if c_shared_weights cfg then te else cls\<rparr>"
  by (rule weights_from_blob_at [OF assms])

definition demo_config :: Config where
  "demo_config = \<lparr>c_dim = 1, c_hidden_dim = 1, c_n_layers = 1, c_n_heads = 1, c_n_kv_heads = 1, c_vocab_size = 1,
     c_seq_len = 2, c_shared_weights = False\<rparr>"

theorem weights_layout_witness:
  "weights_from_blob 0 (replicate 28 0 @ word_bytes ([1] @ [2] @ [3] @ [4] @ [5] @ [6] @ [7] @ [8] @ [9] @ [10] @ [11] @ [0, 0] @ [12] @ []))
     demo_config = Ok \<lparr>w_token_embedding_table = [1], w_rms_att_weight = [2], w_wq = [3], w_wk = [4], w_wv = [5], w_wo = [6],
          w_rms_ffn_weight = [7], w_w1 = [8], w_w2 = [9], w_w3 = [10], w_rms_final_weight = [11],
          w_wcls = if c_shared_weights demo_config then [1] else [12]\<rparr>"
  by (rule weights_layout [where hs = 1]) (simp_all add: demo_config_def usize_max_def)

text \<open>
  The head count of a header is not checked: with zero heads, carving the weights
  of any aligned blob divides by zero, a panic where the function promises an error.
\<close>

theorem zero_heads_panics:
  assumes "c_n_heads cfg = 0" and "28 \<le> length blob" and "length blob mod 4 = 0" and "addr mod 4 = 0"
  shows "weights_from_blob addr blob cfg = Panic"
proof -
  have "(addr + 28) mod 4 = 0" "(length blob - 28) mod 4 = 0" using assms(2-4) by presburger+
  then show ?thesis using assms(1,2) by (simp add: weights_from_blob_def f32_view_def head_size_def odiv_def)
qed

theorem zero_heads_panics_witness:
  "\<exists>cfg. config_from_header (enc_header 1 1 1 0 1 1 1 @ []) = Ok cfg \<and> weights_from_blob 0 (enc_header 1 1 1 0 1 1 1) cfg = Panic"
proof -
  obtain cfg where cfg: "config_from_header (enc_header 1 1 1 0 1 1 1 @ []) = Ok cfg" "c_n_heads cfg = 0"
    using config_from_header_at [of 1 1 1 0 1 1 1 "[]"] by simp
  have "length (enc_header 1 1 1 0 1 1 1) = 28" by (simp add: enc_header_def)
  then show ?thesis using cfg zero_heads_panics [of cfg "enc_header 1 1 1 0 1 1 1" 0] by auto
qed

end
