(* ===== verification/QuantWeights.thy ===== *)
theory QuantWeights
  imports Config
begin

text \<open>
  The quantised weight views of \<open>src/src/model/quant_weights.rs\<close>: each projection keeps its type and
  its bytes, norms and biases are \<open>f32\<close> views. \<open>base\<close> is the address of the file blob, which the
  alignment check of an \<open>f32\<close> view depends on.
\<close>

record QuantTensor =
  qt_shape :: "u64 list"
  qt_dtype :: GgufTensorType
  qt_start :: nat
  qt_bytes :: bytes

definition quant_tensor_from :: "GgufTensor \<Rightarrow> QuantTensor" where
  "quant_tensor_from t = \<lparr>qt_shape = gt_shape t, qt_dtype = gt_dtype t, qt_start = gt_start t, qt_bytes = gt_bytes t\<rparr>"

record QuantLayer =
  l_rms_att_weight :: "f32 list"
  l_wq :: QuantTensor
  l_wk :: QuantTensor
  l_wv :: QuantTensor
  l_wo :: QuantTensor
  l_rms_ffn_weight :: "f32 list"
  l_w1 :: QuantTensor
  l_w2 :: QuantTensor
  l_w3 :: QuantTensor
  l_bq :: "f32 list option"
  l_bk :: "f32 list option"
  l_bv :: "f32 list option"

record QuantizedWeights =
  q_token_embedding_table :: QuantTensor
  q_layers :: "QuantLayer list"
  q_rms_final_weight :: "f32 list"
  q_wcls :: "QuantTensor option"
  q_rope_theta :: f32
  q_rms_eps :: f32
  q_rope_neox :: bool

definition get_tensor :: "GgufFile \<Rightarrow> bytes \<Rightarrow> GgufTensor res" where
  "get_tensor g name = obind (gf_tensor g name) (\<lambda>t. ok_or t (Internal ''gguf: required Llama tensor not found''))"

definition read_f32_tensor :: "nat \<Rightarrow> GgufFile \<Rightarrow> bytes \<Rightarrow> f32 list res" where
  "read_f32_tensor base g name = obind (get_tensor g name) (\<lambda>t.
     if gt_dtype t \<noteq> GT_F32 then Err (Internal ''gguf: expected F32 norm-weight tensor, got something else'')
     else f32_view (base + gt_start t) (gt_bytes t))"

definition read_f32_tensor_opt :: "nat \<Rightarrow> GgufFile \<Rightarrow> bytes \<Rightarrow> f32 list option res" where
  "read_f32_tensor_opt base g name = obind (gf_tensor g name) (\<lambda>r. case r of
     None \<Rightarrow> Ok None
   | Some t \<Rightarrow> if gt_dtype t \<noteq> GT_F32 then Err (Internal ''gguf: expected F32 bias tensor'')
       else omap Some (f32_view (base + gt_start t) (gt_bytes t)))"

text \<open>\<open>format!("blk.{}.suffix", l)\<close>, the number in decimal.\<close>

fun dec_digits :: "nat \<Rightarrow> string" where
  "dec_digits n = (if n < 10 then [char_of (48 + n)] else dec_digits (n div 10) @ [char_of (48 + n mod 10)])"

declare dec_digits.simps [simp del]

definition blk_key :: "nat \<Rightarrow> string \<Rightarrow> bytes" where
  "blk_key l suffix = str (''blk.'' @ dec_digits l @ ''.'' @ suffix)"

definition read_f32_meta :: "GgufFile \<Rightarrow> bytes \<Rightarrow> f32 \<Rightarrow> f32" where
  "read_f32_meta g key d = (case metadata_value g key of Some (GvF32 v) \<Rightarrow> v | _ \<Rightarrow> d)"

definition f32_10000 :: f32 where "f32_10000 = 0x461C4000"
definition f32_1e_5 :: f32 where "f32_1e_5 = 0x3727C5AC"

definition load_layer :: "nat \<Rightarrow> GgufFile \<Rightarrow> nat \<Rightarrow> QuantLayer res" where
  "load_layer base g l =
     obind (read_f32_tensor base g (blk_key l ''attn_norm.weight'')) (\<lambda>att.
     obind (omap quant_tensor_from (get_tensor g (blk_key l ''attn_q.weight''))) (\<lambda>wq.
     obind (omap quant_tensor_from (get_tensor g (blk_key l ''attn_k.weight''))) (\<lambda>wk.
     obind (omap quant_tensor_from (get_tensor g (blk_key l ''attn_v.weight''))) (\<lambda>wv.
     obind (omap quant_tensor_from (get_tensor g (blk_key l ''attn_output.weight''))) (\<lambda>wo.
     obind (read_f32_tensor base g (blk_key l ''ffn_norm.weight'')) (\<lambda>ffn.
     obind (omap quant_tensor_from (get_tensor g (blk_key l ''ffn_gate.weight''))) (\<lambda>w1.
     obind (omap quant_tensor_from (get_tensor g (blk_key l ''ffn_down.weight''))) (\<lambda>w2.
     obind (omap quant_tensor_from (get_tensor g (blk_key l ''ffn_up.weight''))) (\<lambda>w3.
     obind (read_f32_tensor_opt base g (blk_key l ''attn_q.bias'')) (\<lambda>bq.
     obind (read_f32_tensor_opt base g (blk_key l ''attn_k.bias'')) (\<lambda>bk.
     obind (read_f32_tensor_opt base g (blk_key l ''attn_v.bias'')) (\<lambda>bv.
     Ok \<lparr>l_rms_att_weight = att, l_wq = wq, l_wk = wk, l_wv = wv, l_wo = wo, l_rms_ffn_weight = ffn,
         l_w1 = w1, l_w2 = w2, l_w3 = w3, l_bq = bq, l_bk = bk, l_bv = bv\<rparr>))))))))))))"

definition quantized_weights_from_gguf :: "nat \<Rightarrow> GgufFile \<Rightarrow> Config \<Rightarrow> QuantizedWeights res" where
  "quantized_weights_from_gguf base g cfg =
     obind (omap quant_tensor_from (get_tensor g (str ''token_embd.weight''))) (\<lambda>te.
     obind (read_f32_tensor base g (str ''output_norm.weight'')) (\<lambda>rf.
     obind (gf_tensor g (str ''output.weight'')) (\<lambda>ow. let wcls = map_option quant_tensor_from ow in
     if (wcls \<noteq> None) = c_shared_weights cfg
     then Err (Internal ''gguf: shared_weights inconsistent with output.weight presence'')
     else let arch = (case metadata_str g (str ''general.architecture'') of Ok a \<Rightarrow> a | _ \<Rightarrow> str ''llama'') in
     obind (omapM (load_layer base g) [0..<c_n_layers cfg]) (\<lambda>layers.
     Ok \<lparr>q_token_embedding_table = te, q_layers = layers, q_rms_final_weight = rf, q_wcls = wcls,
         q_rope_theta = read_f32_meta g (arch_key arch ''rope.freq_base'') f32_10000,
         q_rms_eps = read_f32_meta g (arch_key arch ''attention.layer_norm_rms_epsilon'') f32_1e_5,
         q_rope_neox = (arch = str ''qwen2'')\<rparr>))))"

text \<open>The byte counts are sums of lengths of live slices, far below \<open>2^64\<close>.\<close>

definition bump :: "QuantTensor \<Rightarrow> nat \<times> nat \<Rightarrow> nat \<times> nat" where
  "bump t = (\<lambda>(q, n). (if qt_dtype t \<in> {GT_Q4_0, GT_Q8_0, GT_Q4_K, GT_Q6_K} then q + length (qt_bytes t) else q,
     n + length (qt_bytes t)))"

definition quantization_ratio :: "QuantizedWeights \<Rightarrow> nat \<times> nat" where
  "quantization_ratio w =
     (let s = bump (q_token_embedding_table w) (0, 0);
          s = foldl (\<lambda>s l. bump (l_w3 l) (bump (l_w2 l) (bump (l_w1 l) (bump (l_wo l) (bump (l_wv l) (bump (l_wk l) (bump (l_wq l) s)))))))
                s (q_layers w);
          s = (case q_wcls w of Some t \<Rightarrow> bump t s | None \<Rightarrow> s);
          total = snd s + length (q_rms_final_weight w) * 4;
          total = foldl (\<lambda>n l. n + length (l_rms_att_weight l) * 4 + length (l_rms_ffn_weight l) * 4) total (q_layers w) in
      (fst s, total))"

subsection \<open>Loading a parsed file\<close>

lemma get_tensor_not_Panic: "gguf_wf blob g \<Longrightarrow> get_tensor g name \<noteq> Panic"
  using gf_tensor_wf [of blob g name] by (auto simp: get_tensor_def outcome_simps)

lemma gf_tensor_not_Panic: "gguf_wf blob g \<Longrightarrow> gf_tensor g name \<noteq> Panic"
  using gf_tensor_wf [of blob g name] by auto

lemma read_f32_not_Panic:
  "gguf_wf blob g \<Longrightarrow> read_f32_tensor base g name \<noteq> Panic"
  "gguf_wf blob g \<Longrightarrow> read_f32_tensor_opt base g name \<noteq> Panic"
  by (auto simp: read_f32_tensor_def read_f32_tensor_opt_def outcome_simps get_tensor_not_Panic gf_tensor_not_Panic
      split: option.splits if_splits)

lemma metadata_str_not_Panic [simp]: "metadata_str g key \<noteq> Panic"
  by (simp add: metadata_str_def split: option.split GgufValue.split)

lemma read_u32_loose_not_Panic [simp]: "read_u32_loose g key \<noteq> Panic"
  by (simp add: read_u32_loose_def split: option.split GgufValue.split)

lemma omap_err_eq_Panic [simp]: "omap_err f m = Panic \<longleftrightarrow> m = Panic"
  by (cases m) auto

lemma unwrap_or_not_Panic [simp]: "unwrap_or m d = Panic \<longleftrightarrow> m = Panic"
  by (cases m) (auto simp: unwrap_or_def)

lemma omapM_not_Panic: "(\<And>i. i \<in> set is \<Longrightarrow> f i \<noteq> Panic) \<Longrightarrow> omapM f is \<noteq> Panic"
  by (induction "is") (auto simp: outcome_simps)

lemma load_layer_not_Panic: "gguf_wf blob g \<Longrightarrow> load_layer base g l \<noteq> Panic"
  unfolding load_layer_def
  by (simp add: outcome_simps get_tensor_not_Panic read_f32_not_Panic)

lemma config_from_gguf_not_Panic: "gguf_wf blob g \<Longrightarrow> config_from_gguf g \<noteq> Panic"
  unfolding config_from_gguf_def
  by (auto simp: outcome_simps gf_tensor_not_Panic split: option.splits GgufValue.splits)

lemma quantized_weights_not_Panic: "gguf_wf blob g \<Longrightarrow> quantized_weights_from_gguf base g cfg \<noteq> Panic"
  unfolding quantized_weights_from_gguf_def
  by (auto simp: outcome_simps Let_def gf_tensor_not_Panic get_tensor_not_Panic read_f32_not_Panic
      split: if_splits intro!: omapM_not_Panic load_layer_not_Panic)


text \<open>What a loaded model holds.\<close>

lemma quantized_weights_OkD:
  assumes "quantized_weights_from_gguf base g cfg = Ok w"
  shows "length (q_layers w) = c_n_layers cfg" and "(q_wcls w = None) = c_shared_weights cfg"
    and "\<And>l. l < c_n_layers cfg \<Longrightarrow> load_layer base g l = Ok (q_layers w ! l)"
proof -
  obtain te rf ow layers where *: "gf_tensor g (str ''output.weight'') = Ok ow"
    "(map_option quant_tensor_from ow \<noteq> None) \<noteq> c_shared_weights cfg"
    "omapM (load_layer base g) [0..<c_n_layers cfg] = Ok layers" "q_layers w = layers"
    "q_wcls w = map_option quant_tensor_from ow"
    using assms unfolding quantized_weights_from_gguf_def outcome_simps Let_def
    by (auto simp: outcome_simps split: if_splits) fastforce+
  show "length (q_layers w) = c_n_layers cfg" using omapM_length [OF *(3)] *(4) by simp
  show "(q_wcls w = None) = c_shared_weights cfg" using *(2,5) by auto
  show "load_layer base g l = Ok (q_layers w ! l)" if "l < c_n_layers cfg" for l
    using omapM_nth [OF *(3), of l] that *(4) by simp
qed

subsection \<open>Properties\<close>



text \<open>
  A model whose matrices are all Q5_0, a type the loader and the
  kernels support, is reported to have no quantised bytes at all.
\<close>

theorem quantization_ratio_omits_q5_0:
  assumes "qt_dtype (q_token_embedding_table w) = GT_Q5_0" and "\<forall>t. q_wcls w = Some t \<longrightarrow> qt_dtype t = GT_Q5_0"
    and "\<forall>l\<in>set (q_layers w). \<forall>t\<in>{l_wq l, l_wk l, l_wv l, l_wo l, l_w1 l, l_w2 l, l_w3 l}. qt_dtype t = GT_Q5_0"
  shows "fst (quantization_ratio w) = 0"
proof -
  have bump: "fst (bump t s) = fst s" if "qt_dtype t = GT_Q5_0" for t s
    using that by (cases s) (simp add: bump_def)
  let ?f = "\<lambda>s l. bump (l_w3 l) (bump (l_w2 l) (bump (l_w1 l) (bump (l_wo l) (bump (l_wv l) (bump (l_wk l) (bump (l_wq l) s))))))"
  have "fst (foldl ?f s ls) = fst s" if "set ls \<subseteq> set (q_layers w)" for ls s
    using that assms(3) by (induction ls arbitrary: s) (auto simp: bump)
  then show ?thesis
    using assms(1,2) bump by (auto simp: quantization_ratio_def Let_def split: option.split)
qed

definition q5_tensor :: QuantTensor where
  "q5_tensor = \<lparr>qt_shape = [32], qt_dtype = GT_Q5_0, qt_start = 0, qt_bytes = replicate 22 0\<rparr>"

theorem quantization_ratio_omits_q5_0_witness:
  "fst (quantization_ratio \<lparr>q_token_embedding_table = q5_tensor, q_layers = [], q_rms_final_weight = [], q_wcls = None,
     q_rope_theta = f32_10000, q_rms_eps = f32_1e_5, q_rope_neox = False\<rparr>) = 0"
  by (rule quantization_ratio_omits_q5_0) (simp_all add: q5_tensor_def)

end
