(* ===== verification/Cert.thy ===== *)
theory Cert
  imports Prelude
begin

text \<open>
  Certificates, \<open>src/src/cert\<close>: the builder and its records, the binding digest of both format
  versions, and the runtime sink. BLAKE3 is a library outside the repository: a parameter
  \<open>H\<close> from byte strings to byte strings, of which nothing is assumed; feeding a hasher piece by
  piece is hashing the concatenation. A \<open>[u8; 32]\<close> is a byte list whose length the record
  predicates fix.
\<close>

subsection \<open>Records\<close>

record CertField =
  cf_name :: bytes
  cf_bytes :: bytes

record OpRecord =
  op_index :: u32
  op_name :: bytes
  op_layer :: u32
  op_input_hash :: bytes
  op_params_hash :: bytes
  op_output_hash :: bytes

record ActivationRecord =
  act_index :: u32
  act_token_index :: u32
  act_layer :: u32
  act_checkpoint :: bytes
  act_tensor_hash :: bytes

record InterventionRecord =
  intv_index :: u32
  intv_token_index :: u32
  intv_layer :: u32
  intv_checkpoint :: bytes
  intv_replacement_hash :: bytes

record Cert =
  cert_inputs :: "CertField list"
  cert_outputs :: "CertField list"
  cert_ops :: "OpRecord list"
  cert_activations :: "ActivationRecord list"
  cert_interventions :: "InterventionRecord list"
  cert_digest :: bytes

definition hex_nibble :: "u8 \<Rightarrow> u8" where
  "hex_nibble n = (if n \<le> 9 then 48 + n else if n \<le> 15 then 97 + (n - 10) else 63)"

definition digest_hex :: "Cert \<Rightarrow> bytes" where
  "digest_hex c = foldl (\<lambda>s b. s @ [hex_nibble (drop_bit 4 b)] @ [hex_nibble (b AND 0x0F)]) [] (cert_digest c)"

definition find_field :: "CertField list \<Rightarrow> bytes \<Rightarrow> bytes option" where
  "find_field fs name = map_option cf_bytes (find (\<lambda>f. cf_name f = name) fs)"

definition cert_input :: "Cert \<Rightarrow> bytes \<Rightarrow> bytes option" where
  "cert_input c name = find_field (cert_inputs c) name"

definition cert_output :: "Cert \<Rightarrow> bytes \<Rightarrow> bytes option" where
  "cert_output c name = find_field (cert_outputs c) name"

subsection \<open>The builder\<close>

record CertBuilder =
  cb_inputs :: "CertField list"
  cb_outputs :: "CertField list"
  cb_ops :: "OpRecord list"
  cb_next_op_index :: u32
  cb_activations :: "ActivationRecord list"
  cb_next_act_index :: u32
  cb_interventions :: "InterventionRecord list"
  cb_next_intv_index :: u32
  cb_sealed :: bool

definition builder_new :: CertBuilder where
  "builder_new = \<lparr>cb_inputs = [], cb_outputs = [], cb_ops = [], cb_next_op_index = 0, cb_activations = [],
     cb_next_act_index = 0, cb_interventions = [], cb_next_intv_index = 0, cb_sealed = False\<rparr>"

text \<open>The assertion that no output has been declared is a debug assertion: a release build has no check.\<close>

definition declare_input :: "bytes \<Rightarrow> bytes \<Rightarrow> CertBuilder \<Rightarrow> CertBuilder" where
  "declare_input name bs b = b\<lparr>cb_inputs := cb_inputs b @ [\<lparr>cf_name = name, cf_bytes = bs\<rparr>]\<rparr>"

definition declare_output :: "bytes \<Rightarrow> bytes \<Rightarrow> CertBuilder \<Rightarrow> CertBuilder" where
  "declare_output name bs b = b\<lparr>cb_sealed := True, cb_outputs := cb_outputs b @ [\<lparr>cf_name = name, cf_bytes = bs\<rparr>]\<rparr>"

definition declare_op :: "bytes \<Rightarrow> u32 \<Rightarrow> bytes \<Rightarrow> bytes \<Rightarrow> bytes \<Rightarrow> CertBuilder \<Rightarrow> CertBuilder" where
  "declare_op name layer ih ph oh b =
     (let ix = cb_next_op_index b in
      b\<lparr>cb_next_op_index := ix + 1, cb_ops := cb_ops b @ [\<lparr>op_index = ix, op_name = name, op_layer = layer,
         op_input_hash = ih, op_params_hash = ph, op_output_hash = oh\<rparr>]\<rparr>)"

definition declare_activation :: "u32 \<Rightarrow> u32 \<Rightarrow> bytes \<Rightarrow> bytes \<Rightarrow> CertBuilder \<Rightarrow> CertBuilder" where
  "declare_activation tok layer cp th b =
     (let ix = cb_next_act_index b in
      b\<lparr>cb_next_act_index := ix + 1, cb_activations := cb_activations b @ [\<lparr>act_index = ix, act_token_index = tok,
         act_layer = layer, act_checkpoint = cp, act_tensor_hash = th\<rparr>]\<rparr>)"

definition declare_intervention :: "u32 \<Rightarrow> u32 \<Rightarrow> bytes \<Rightarrow> bytes \<Rightarrow> CertBuilder \<Rightarrow> CertBuilder" where
  "declare_intervention tok layer cp rh b =
     (let ix = cb_next_intv_index b in
      b\<lparr>cb_next_intv_index := ix + 1, cb_interventions := cb_interventions b @ [\<lparr>intv_index = ix, intv_token_index = tok,
         intv_layer = layer, intv_checkpoint = cp, intv_replacement_hash = rh\<rparr>]\<rparr>)"

subsection \<open>The binding digest\<close>

definition REGIME :: bytes where "REGIME = str ''vitni-regime-2''"
definition DOMAIN_V1 :: bytes where "DOMAIN_V1 = str ''vitnify-receipt v1'' @ [0]"
definition DOMAIN_V2 :: bytes where "DOMAIN_V2 = str ''vitnify-receipt v2'' @ [0]"

function write_leb128 :: "u64 \<Rightarrow> bytes" where
  "write_leb128 v =
     (let byte = ucast (v AND 0x7F) :: u8; v' = drop_bit 7 v in
      if v' \<noteq> 0 then (byte OR 0x80) # write_leb128 v' else [byte])"
  by auto
termination
  by (relation "measure unat") (auto simp: unat_drop_bit unat_gt_0 intro!: div_less_dividend)

declare write_leb128.simps [simp del]

definition write_field :: "CertField \<Rightarrow> bytes" where
  "write_field f = write_leb128 (of_nat (length (cf_name f))) @ cf_name f @
     write_leb128 (of_nat (length (cf_bytes f))) @ cf_bytes f"

definition write_op :: "OpRecord \<Rightarrow> bytes" where
  "write_op r = write_leb128 (ucast (op_index r)) @ write_leb128 (of_nat (length (op_name r))) @ op_name r @
     write_leb128 (ucast (op_layer r)) @ op_input_hash r @ op_params_hash r @ op_output_hash r"

definition write_activation :: "ActivationRecord \<Rightarrow> bytes" where
  "write_activation r = write_leb128 (ucast (act_index r)) @ write_leb128 (ucast (act_token_index r)) @
     write_leb128 (ucast (act_layer r)) @ write_leb128 (of_nat (length (act_checkpoint r))) @ act_checkpoint r @
     act_tensor_hash r"

definition write_intervention :: "InterventionRecord \<Rightarrow> bytes" where
  "write_intervention r = write_leb128 (ucast (intv_index r)) @ write_leb128 (ucast (intv_token_index r)) @
     write_leb128 (ucast (intv_layer r)) @ write_leb128 (of_nat (length (intv_checkpoint r))) @ intv_checkpoint r @
     intv_replacement_hash r"

definition write_counted :: "('a \<Rightarrow> bytes) \<Rightarrow> 'a list \<Rightarrow> bytes" where
  "write_counted w xs = write_leb128 (of_nat (length xs)) @ concat (map w xs)"

record sections =
  s_inputs :: "CertField list"
  s_outputs :: "CertField list"
  s_ops :: "OpRecord list"
  s_activations :: "ActivationRecord list"
  s_interventions :: "InterventionRecord list"

definition write_sections :: "sections \<Rightarrow> bytes" where
  "write_sections s = write_counted write_field (s_inputs s) @ write_counted write_field (s_outputs s) @
     write_counted write_op (s_ops s) @ write_counted write_activation (s_activations s) @
     write_counted write_intervention (s_interventions s)"

definition preimage_v2 :: "bytes \<Rightarrow> sections \<Rightarrow> bytes" where
  "preimage_v2 regime s = DOMAIN_V2 @ write_leb128 (of_nat (length regime)) @ regime @ write_sections s"

definition preimage_v1 :: "sections \<Rightarrow> bytes" where
  "preimage_v1 s = DOMAIN_V1 @ write_sections s"

definition compute_digest :: "(bytes \<Rightarrow> bytes) \<Rightarrow> sections \<Rightarrow> bytes" where
  "compute_digest H s = H (preimage_v2 REGIME s)"

definition compute_digest_v1 :: "(bytes \<Rightarrow> bytes) \<Rightarrow> sections \<Rightarrow> bytes" where
  "compute_digest_v1 H s = H (preimage_v1 s)"

definition builder_sections :: "CertBuilder \<Rightarrow> sections" where
  "builder_sections b = \<lparr>s_inputs = cb_inputs b, s_outputs = cb_outputs b, s_ops = cb_ops b,
     s_activations = cb_activations b, s_interventions = cb_interventions b\<rparr>"

definition cert_finalize :: "(bytes \<Rightarrow> bytes) \<Rightarrow> CertBuilder \<Rightarrow> Cert" where
  "cert_finalize H b = \<lparr>cert_inputs = cb_inputs b, cert_outputs = cb_outputs b, cert_ops = cb_ops b,
     cert_activations = cb_activations b, cert_interventions = cb_interventions b,
     cert_digest = compute_digest H (builder_sections b)\<rparr>"

subsection \<open>Sinks\<close>

text \<open>The trait \<open>CertSink\<close>: a dictionary of operations on the sink's state.\<close>

record ('s, 'e) CertSink =
  on_request :: "u8 \<Rightarrow> 's \<Rightarrow> ('e, 's) outcome"
  on_input :: "bytes \<Rightarrow> bytes \<Rightarrow> 's \<Rightarrow> ('e, 's) outcome"
  on_op :: "OpRecord \<Rightarrow> 's \<Rightarrow> ('e, 's) outcome"
  on_activation :: "ActivationRecord \<Rightarrow> 's \<Rightarrow> ('e, 's) outcome"
  on_intervention :: "InterventionRecord \<Rightarrow> 's \<Rightarrow> ('e, 's) outcome"
  on_output :: "bytes \<Rightarrow> bytes \<Rightarrow> 's \<Rightarrow> ('e, 's) outcome"
  on_finalize :: "'s \<Rightarrow> ('e, u64 \<times> 's) outcome"

definition finalize_with_sink :: "(bytes \<Rightarrow> bytes) \<Rightarrow> ('s, 'e) CertSink \<Rightarrow> u8 \<Rightarrow> CertBuilder \<Rightarrow> 's
    \<Rightarrow> ('e, (Cert \<times> u64) \<times> 's) outcome" where
  "finalize_with_sink H S tier b st =
     obind (on_request S tier st) (\<lambda>st.
     obind (oloop (\<lambda>st f. on_input S (cf_name f) (cf_bytes f) st) (cb_inputs b) st) (\<lambda>st.
     obind (oloop (\<lambda>st r. on_op S r st) (cb_ops b) st) (\<lambda>st.
     obind (oloop (\<lambda>st r. on_activation S r st) (cb_activations b) st) (\<lambda>st.
     obind (oloop (\<lambda>st r. on_intervention S r st) (cb_interventions b) st) (\<lambda>st.
     obind (oloop (\<lambda>st f. on_output S (cf_name f) (cf_bytes f) st) (cb_outputs b) st) (\<lambda>st.
     obind (on_finalize S st) (\<lambda>(cert_id, st).
     Ok ((\<lparr>cert_inputs = cb_inputs b, cert_outputs = cb_outputs b, cert_ops = cb_ops b,
            cert_activations = cb_activations b, cert_interventions = cb_interventions b,
            cert_digest = compute_digest H (builder_sections b)\<rparr>, cert_id), st))))))))"

definition null_sink :: "(unit, 'e) CertSink" where
  "null_sink = \<lparr>on_request = (\<lambda>tier st. Ok st), on_input = (\<lambda>name bs st. Ok st), on_op = (\<lambda>r st. Ok st),
     on_activation = (\<lambda>r st. Ok st), on_intervention = (\<lambda>r st. Ok st), on_output = (\<lambda>name bs st. Ok st),
     on_finalize = (\<lambda>st. Ok (0, st))\<rparr>"

datatype SinkEvent = EvRequest u8 | EvInput bytes bytes | EvOp OpRecord | EvActivation ActivationRecord
  | EvIntervention InterventionRecord | EvOutput bytes bytes | EvFinalize

record RecordingSink =
  rs_events :: "SinkEvent list"
  rs_finalize_id :: u64

definition push_event :: "SinkEvent \<Rightarrow> RecordingSink \<Rightarrow> RecordingSink" where
  "push_event e st = st\<lparr>rs_events := rs_events st @ [e]\<rparr>"

definition recording_sink :: "(RecordingSink, 'e) CertSink" where
  "recording_sink = \<lparr>on_request = (\<lambda>tier st. Ok (push_event (EvRequest tier) st)),
     on_input = (\<lambda>name bs st. Ok (push_event (EvInput name bs) st)),
     on_op = (\<lambda>r st. Ok (push_event (EvOp r) st)),
     on_activation = (\<lambda>r st. Ok (push_event (EvActivation r) st)),
     on_intervention = (\<lambda>r st. Ok (push_event (EvIntervention r) st)),
     on_output = (\<lambda>name bs st. Ok (push_event (EvOutput name bs) st)),
     on_finalize = (\<lambda>st. Ok (rs_finalize_id st, push_event EvFinalize st))\<rparr>"


subsection \<open>Unique decoding\<close>

text \<open>
  A writer is uniquely decodable when its output tells where it ends and what was written, whatever
  follows: the property the length prefixes are there for.
\<close>

locale prefix_code =
  fixes w :: "'a \<Rightarrow> bytes" and ok :: "'a \<Rightarrow> bool"
  assumes unique: "ok x \<Longrightarrow> ok y \<Longrightarrow> w x @ r = w y @ s \<Longrightarrow> x = y \<and> r = s"
begin

lemma unique_list:
  "list_all ok xs \<Longrightarrow> list_all ok ys \<Longrightarrow> length xs = length ys \<Longrightarrow>
   concat (map w xs) @ r = concat (map w ys) @ s \<Longrightarrow> xs = ys \<and> r = s"
proof (induction xs arbitrary: ys)
  case Nil
  then show ?case by simp
next
  case (Cons x xs)
  then obtain y ys' where ys: "ys = y # ys'" by (cases ys) auto
  have "w x @ (concat (map w xs) @ r) = w y @ (concat (map w ys') @ s)" using Cons.prems(4) ys by simp
  from unique [OF _ _ this] Cons.prems ys
  have "x = y" "concat (map w xs) @ r = concat (map w ys') @ s" by auto
  then show ?case using Cons.IH [of ys'] Cons.prems ys by simp
qed

end

lemma unat_leb_byte: "unat (ucast (v AND 0x7F) :: u8) = unat (v :: u64) mod 128"
proof -
  have "(0x7F :: u64) = mask 7" by (simp add: mask_eq_exp_minus_1)
  then show ?thesis using unat_and_mask [of v 7] by (simp add: unat_ucast_mod)
qed

lemma unat_leb_more: "unat ((ucast (v AND 0x7F) :: u8) OR 0x80) = unat (v :: u64) mod 128 + 128"
proof -
  have "(0x80 :: u8) = push_bit 7 1" by simp
  then show ?thesis using unat_or_push [of "ucast (v AND 0x7F) :: u8" 7 1] by (simp add: unat_leb_byte or.commute)
qed

lemma unat_drop_7: "unat (drop_bit 7 (v :: u64)) = unat v div 128"
  by (simp add: unat_drop_bit)

lemma drop_7_eq_0: "drop_bit 7 (v :: u64) = 0 \<longleftrightarrow> unat v div 128 = 0"
  by (metis unat_drop_7 unat_eq_zero)

lemma write_leb128_step:
  "write_leb128 v = (if 128 \<le> unat v then (ucast (v AND 0x7F) OR 0x80) # write_leb128 (drop_bit 7 v)
    else [ucast (v AND 0x7F)])"
  by (subst write_leb128.simps) (simp add: Let_def drop_7_eq_0 div_eq_0_iff not_less)

lemma write_leb128_unique:
  "write_leb128 v @ r = write_leb128 w @ s \<Longrightarrow> v = w \<and> r = s"
proof (induction v arbitrary: w rule: write_leb128.induct)
  case (1 v)
  have more: "(128 \<le> unat v) = (128 \<le> unat w)"
  proof (rule ccontr)
    assume "(128 \<le> unat v) \<noteq> (128 \<le> unat w)"
    then have "unat (hd (write_leb128 v)) \<noteq> unat (hd (write_leb128 w))"
      by (subst (1 2) write_leb128_step) (auto simp: unat_leb_byte unat_leb_more)
    moreover have "write_leb128 v \<noteq> []" "write_leb128 w \<noteq> []" by (subst write_leb128_step, simp)+
    ultimately show False using 1(2) by (metis hd_append2)
  qed
  show ?case
  proof (cases "128 \<le> unat v")
    case True
    have "ucast (v AND 0x7F) OR 0x80 = (ucast (w AND 0x7F) OR 0x80 :: u8)"
      and tl: "write_leb128 (drop_bit 7 v) @ r = write_leb128 (drop_bit 7 w) @ s"
      using 1(2) True more by (simp_all add: write_leb128_step [of v] write_leb128_step [of w])
    then have lo: "unat v mod 128 = unat w mod 128" by (metis unat_leb_more add_right_cancel)
    have "drop_bit 7 v \<noteq> 0" using True by (simp add: drop_7_eq_0 div_eq_0_iff)
    then have "drop_bit 7 v = drop_bit 7 w" "r = s" using "1.IH" [OF refl refl _ tl] by auto
    then have "unat v div 128 = unat w div 128" by (metis unat_drop_7)
    then show ?thesis using lo \<open>r = s\<close> by (metis div_mult_mod_eq unsigned_word_eqI)
  next
    case False
    then have "(ucast (v AND 0x7F) :: u8) = ucast (w AND 0x7F)" "r = s"
      using 1(2) more by (simp_all add: write_leb128_step [of v] write_leb128_step [of w])
    then have "unat v mod 128 = unat w mod 128" by (metis unat_leb_byte)
    then show ?thesis using False more \<open>r = s\<close> by (metis mod_less not_le unsigned_word_eqI)
  qed
qed

interpretation pc_leb: prefix_code write_leb128 "\<lambda>_. True"
  by unfold_locales (rule write_leb128_unique)

text \<open>The ten-byte buffer of the loop is never exceeded.\<close>

lemma write_leb128_length: "unat v < 128 ^ k \<Longrightarrow> 0 < k \<Longrightarrow> length (write_leb128 v) \<le> k"
proof (induction k arbitrary: v)
  case 0
  then show ?case by simp
next
  case (Suc k)
  show ?case
  proof (cases "128 \<le> unat v")
    case True
    then have "0 < k" using Suc.prems by (cases k) auto
    moreover have "unat (drop_bit 7 v) < 128 ^ k" using Suc.prems(1) by (simp add: unat_drop_7 less_mult_imp_div_less mult.commute)
    ultimately show ?thesis using Suc.IH True by (simp add: write_leb128_step [of v])
  next
    case False
    then show ?thesis by (simp add: write_leb128_step [of v])
  qed
qed

lemma write_leb128_buffer: "length (write_leb128 v) \<le> 10"
proof -
  have "unat v < 2 ^ 64" by (rule order.strict_trans2 [OF unsigned_less]) simp
  then show ?thesis using write_leb128_length [of v 10] by simp
qed

subsubsection \<open>Well-formed records\<close>

text \<open>What the types say: lengths below \<open>2^64\<close>, hashes of 32 bytes.\<close>

definition len_ok :: "'a list \<Rightarrow> bool" where "len_ok xs \<longleftrightarrow> length xs < 2 ^ 64"

definition field_ok :: "CertField \<Rightarrow> bool" where
  "field_ok f \<longleftrightarrow> len_ok (cf_name f) \<and> len_ok (cf_bytes f)"

definition op_ok :: "OpRecord \<Rightarrow> bool" where
  "op_ok r \<longleftrightarrow> len_ok (op_name r) \<and> length (op_input_hash r) = 32 \<and> length (op_params_hash r) = 32 \<and>
     length (op_output_hash r) = 32"

definition act_ok :: "ActivationRecord \<Rightarrow> bool" where
  "act_ok r \<longleftrightarrow> len_ok (act_checkpoint r) \<and> length (act_tensor_hash r) = 32"

definition intv_ok :: "InterventionRecord \<Rightarrow> bool" where
  "intv_ok r \<longleftrightarrow> len_ok (intv_checkpoint r) \<and> length (intv_replacement_hash r) = 32"

definition sections_ok :: "sections \<Rightarrow> bool" where
  "sections_ok s \<longleftrightarrow> list_all field_ok (s_inputs s) \<and> list_all field_ok (s_outputs s) \<and> list_all op_ok (s_ops s) \<and>
     list_all act_ok (s_activations s) \<and> list_all intv_ok (s_interventions s) \<and>
     len_ok (s_inputs s) \<and> len_ok (s_outputs s) \<and> len_ok (s_ops s) \<and> len_ok (s_activations s) \<and> len_ok (s_interventions s)"

lemma of_nat_len_eq: "len_ok xs \<Longrightarrow> len_ok ys \<Longrightarrow> (of_nat (length xs) :: u64) = of_nat (length ys) \<Longrightarrow> length xs = length ys"
  by (simp add: len_ok_def word_of_nat_eq_iff take_bit_nat_eq_self)

lemma append_len_unique: "length xs = length ys \<Longrightarrow> xs @ r = ys @ s \<Longrightarrow> xs = ys \<and> r = s"
  by simp

lemma write_bytes_unique:
  assumes "len_ok xs" and "len_ok ys"
    and "write_leb128 (of_nat (length xs)) @ xs @ r = write_leb128 (of_nat (length ys)) @ ys @ s"
  shows "xs = ys \<and> r = s"
  using pc_leb.unique [OF _ _ assms(3)] of_nat_len_eq [OF assms(1,2)] by auto

interpretation pc_field: prefix_code write_field field_ok
proof unfold_locales
  fix x y r s assume ok: "field_ok x" "field_ok y" and eq: "write_field x @ r = write_field y @ s"
  have n: "cf_name x = cf_name y" and rest: "write_leb128 (of_nat (length (cf_bytes x))) @ cf_bytes x @ r
      = write_leb128 (of_nat (length (cf_bytes y))) @ cf_bytes y @ s"
    using write_bytes_unique [of "cf_name x" "cf_name y"] ok eq by (auto simp: field_ok_def write_field_def)
  have "cf_bytes x = cf_bytes y" "r = s" using write_bytes_unique [OF _ _ rest] ok by (auto simp: field_ok_def)
  then show "x = y \<and> r = s" using n by simp
qed

lemma ucast_u32_inj: "(ucast (a :: u32) :: u64) = ucast b \<longleftrightarrow> a = b"
proof
  assume "(ucast a :: u64) = ucast b"
  then have "unat (ucast a :: u64) = unat (ucast b :: u64)" by simp
  moreover have "unat (ucast w :: u64) = unat w" for w :: u32
    by (simp add: unat_ucast_mod) (rule mod_less, rule order.strict_trans2 [OF unsigned_less], simp)
  ultimately show "a = b" by (simp add: word_unat_eq_iff)
qed simp

lemma hashes_unique:
  "length a = 32 \<Longrightarrow> length b = 32 \<Longrightarrow> a @ r = b @ s \<Longrightarrow> a = b \<and> r = s"
  by simp

interpretation pc_op: prefix_code write_op op_ok
proof unfold_locales
  fix x y r s assume ok: "op_ok x" "op_ok y" and eq: "write_op x @ r = write_op y @ s"
  let ?t = "\<lambda>z r. write_leb128 (ucast (op_layer z)) @ op_input_hash z @ op_params_hash z @ op_output_hash z @ r"
  have i: "op_index x = op_index y" and e1: "write_leb128 (of_nat (length (op_name x))) @ op_name x @ ?t x r
      = write_leb128 (of_nat (length (op_name y))) @ op_name y @ ?t y s"
    using write_leb128_unique [of "ucast (op_index x)" _ "ucast (op_index y)"] eq by (auto simp: write_op_def ucast_u32_inj)
  have n: "op_name x = op_name y" and e2: "?t x r = ?t y s"
    using write_bytes_unique [OF _ _ e1] ok by (auto simp: op_ok_def)
  have "op_layer x = op_layer y" "op_input_hash x @ op_params_hash x @ op_output_hash x @ r = op_input_hash y @ op_params_hash y @ op_output_hash y @ s"
    using pc_leb.unique [OF _ _ e2] by (auto simp: ucast_u32_inj)
  then show "x = y \<and> r = s" using i n ok by (simp add: op_ok_def)
qed

interpretation pc_act: prefix_code write_activation act_ok
proof unfold_locales
  fix x y r s assume ok: "act_ok x" "act_ok y" and eq: "write_activation x @ r = write_activation y @ s"
  let ?n = "\<lambda>z r. write_leb128 (of_nat (length (act_checkpoint z))) @ act_checkpoint z @ act_tensor_hash z @ r"
  let ?l = "\<lambda>z r. write_leb128 (ucast (act_layer z)) @ ?n z r"
  have i: "act_index x = act_index y" and e1: "write_leb128 (ucast (act_token_index x)) @ ?l x r = write_leb128 (ucast (act_token_index y)) @ ?l y s"
    using write_leb128_unique [of "ucast (act_index x)" _ "ucast (act_index y)"] eq by (auto simp: write_activation_def ucast_u32_inj)
  have t: "act_token_index x = act_token_index y" and e2: "?l x r = ?l y s"
    using pc_leb.unique [OF _ _ e1] by (auto simp: ucast_u32_inj)
  have l: "act_layer x = act_layer y" and e3: "?n x r = ?n y s"
    using pc_leb.unique [OF _ _ e2] by (auto simp: ucast_u32_inj)
  have "act_checkpoint x = act_checkpoint y" "act_tensor_hash x @ r = act_tensor_hash y @ s"
    using write_bytes_unique [OF _ _ e3] ok by (auto simp: act_ok_def)
  then show "x = y \<and> r = s" using i t l ok by (simp add: act_ok_def)
qed

interpretation pc_intv: prefix_code write_intervention intv_ok
proof unfold_locales
  fix x y r s assume ok: "intv_ok x" "intv_ok y" and eq: "write_intervention x @ r = write_intervention y @ s"
  let ?n = "\<lambda>z r. write_leb128 (of_nat (length (intv_checkpoint z))) @ intv_checkpoint z @ intv_replacement_hash z @ r"
  let ?l = "\<lambda>z r. write_leb128 (ucast (intv_layer z)) @ ?n z r"
  have i: "intv_index x = intv_index y" and e1: "write_leb128 (ucast (intv_token_index x)) @ ?l x r = write_leb128 (ucast (intv_token_index y)) @ ?l y s"
    using write_leb128_unique [of "ucast (intv_index x)" _ "ucast (intv_index y)"] eq by (auto simp: write_intervention_def ucast_u32_inj)
  have t: "intv_token_index x = intv_token_index y" and e2: "?l x r = ?l y s"
    using pc_leb.unique [OF _ _ e1] by (auto simp: ucast_u32_inj)
  have l: "intv_layer x = intv_layer y" and e3: "?n x r = ?n y s"
    using pc_leb.unique [OF _ _ e2] by (auto simp: ucast_u32_inj)
  have "intv_checkpoint x = intv_checkpoint y" "intv_replacement_hash x @ r = intv_replacement_hash y @ s"
    using write_bytes_unique [OF _ _ e3] ok by (auto simp: intv_ok_def)
  then show "x = y \<and> r = s" using i t l ok by (simp add: intv_ok_def)
qed

text \<open>A counted list of uniquely decodable items is uniquely decodable.\<close>

lemma write_counted_unique:
  assumes "prefix_code w ok" and "list_all ok xs \<and> len_ok xs" and "list_all ok ys \<and> len_ok ys"
    and "write_counted w xs @ r = write_counted w ys @ s"
  shows "xs = ys \<and> r = s"
proof -
  have "write_leb128 (of_nat (length xs)) @ concat (map w xs) @ r = write_leb128 (of_nat (length ys)) @ concat (map w ys) @ s"
    using assms(4) by (simp add: write_counted_def)
  from pc_leb.unique [OF _ _ this] have "length xs = length ys" "concat (map w xs) @ r = concat (map w ys) @ s"
    using assms(2,3) of_nat_len_eq by auto
  then show ?thesis using prefix_code.unique_list [OF assms(1)] assms(2,3) by blast
qed

lemma write_sections_unique:
  assumes "sections_ok a" and "sections_ok b" and "write_sections a @ r = write_sections b @ s"
  shows "a = b \<and> r = s"
proof -
  let ?e = "\<lambda>z r. write_counted write_intervention (s_interventions z) @ r"
  let ?d = "\<lambda>z r. write_counted write_activation (s_activations z) @ ?e z r"
  let ?c = "\<lambda>z r. write_counted write_op (s_ops z) @ ?d z r"
  let ?b = "\<lambda>z r. write_counted write_field (s_outputs z) @ ?c z r"
  have e0: "write_counted write_field (s_inputs a) @ ?b a r = write_counted write_field (s_inputs b) @ ?b b s"
    using assms(3) by (simp add: write_sections_def)
  note ok = assms(1,2) [unfolded sections_ok_def]
  have e1: "s_inputs a = s_inputs b" "?b a r = ?b b s"
    using write_counted_unique [OF pc_field.prefix_code_axioms _ _ e0] ok by auto
  have e2: "s_outputs a = s_outputs b" "?c a r = ?c b s"
    using write_counted_unique [OF pc_field.prefix_code_axioms _ _ e1(2)] ok by auto
  have e3: "s_ops a = s_ops b" "?d a r = ?d b s"
    using write_counted_unique [OF pc_op.prefix_code_axioms _ _ e2(2)] ok by auto
  have e4: "s_activations a = s_activations b" "?e a r = ?e b s"
    using write_counted_unique [OF pc_act.prefix_code_axioms _ _ e3(2)] ok by auto
  have e5: "s_interventions a = s_interventions b" "r = s"
    using write_counted_unique [OF pc_intv.prefix_code_axioms _ _ e4(2)] ok by auto
  show ?thesis using e1(1) e2(1) e3(1) e4(1) e5 by simp
qed

lemma preimage_v2_inj:
  assumes "sections_ok a" and "sections_ok b" and "len_ok g" and "len_ok h" and "preimage_v2 g a = preimage_v2 h b"
  shows "g = h \<and> a = b"
proof -
  have "write_leb128 (of_nat (length g)) @ g @ write_sections a @ [] = write_leb128 (of_nat (length h)) @ h @ write_sections b @ []"
    using assms(5) by (simp add: preimage_v2_def)
  from write_bytes_unique [OF assms(3,4) this] have "g = h" "write_sections a @ [] = write_sections b @ []" by auto
  then show ?thesis using write_sections_unique [OF assms(1,2)] by blast
qed

lemma preimage_v1_inj: "sections_ok a \<Longrightarrow> sections_ok b \<Longrightarrow> preimage_v1 a = preimage_v1 b \<Longrightarrow> a = b"
  using write_sections_unique [of a b "[]" "[]"] by (simp add: preimage_v1_def)

lemma preimage_versions: "preimage_v1 a \<noteq> preimage_v2 g b"
  by (simp add: preimage_v1_def preimage_v2_def DOMAIN_V1_def DOMAIN_V2_def str_def)


subsection \<open>Builder states\<close>

inductive builder_step :: "CertBuilder \<Rightarrow> CertBuilder \<Rightarrow> bool" where
  step_input: "builder_step b (declare_input name bs b)"
| step_output: "builder_step b (declare_output name bs b)"
| step_op: "builder_step b (declare_op name layer ih ph oh b)"
| step_activation: "builder_step b (declare_activation tok layer cp th b)"
| step_intervention: "builder_step b (declare_intervention tok layer cp rh b)"

inductive builder_reachable :: "CertBuilder \<Rightarrow> bool" where
  reach_new: "builder_reachable builder_new"
| reach_step: "builder_reachable b \<Longrightarrow> builder_step b b' \<Longrightarrow> builder_reachable b'"

definition indices_ok :: "('a \<Rightarrow> u32) \<Rightarrow> 'a list \<Rightarrow> u32 \<Rightarrow> bool" where
  "indices_ok ix xs next_ix \<longleftrightarrow> map ix xs = map of_nat [0..<length xs] \<and> next_ix = of_nat (length xs)"

lemma indices_ok_snoc: "indices_ok ix xs n \<Longrightarrow> ix x = n \<Longrightarrow> indices_ok ix (xs @ [x]) (n + 1)"
  by (simp add: indices_ok_def add.commute)

definition builder_inv :: "CertBuilder \<Rightarrow> bool" where
  "builder_inv b \<longleftrightarrow> indices_ok op_index (cb_ops b) (cb_next_op_index b) \<and>
     indices_ok act_index (cb_activations b) (cb_next_act_index b) \<and>
     indices_ok intv_index (cb_interventions b) (cb_next_intv_index b) \<and>
     (cb_outputs b \<noteq> [] \<longleftrightarrow> cb_sealed b)"

lemma builder_inv_step: "builder_step b b' \<Longrightarrow> builder_inv b \<Longrightarrow> builder_inv b'"
  by (induction rule: builder_step.induct)
    (auto simp: builder_inv_def declare_input_def declare_output_def declare_op_def declare_activation_def
      declare_intervention_def Let_def intro!: indices_ok_snoc)

lemma builder_reachable_inv: "builder_reachable b \<Longrightarrow> builder_inv b"
  by (induction rule: builder_reachable.induct)
    (auto simp: builder_inv_def builder_new_def indices_ok_def dest: builder_inv_step [unfolded builder_inv_def indices_ok_def])

subsection \<open>Replaying a builder into a sink\<close>

fun sink_call :: "('s, 'e) CertSink \<Rightarrow> 's \<Rightarrow> SinkEvent \<Rightarrow> ('e, 's) outcome" where
  "sink_call S st (EvRequest tier) = on_request S tier st"
| "sink_call S st (EvInput name bs) = on_input S name bs st"
| "sink_call S st (EvOp r) = on_op S r st"
| "sink_call S st (EvActivation r) = on_activation S r st"
| "sink_call S st (EvIntervention r) = on_intervention S r st"
| "sink_call S st (EvOutput name bs) = on_output S name bs st"
| "sink_call S st EvFinalize = omap snd (on_finalize S st)"

definition declared_events :: "u8 \<Rightarrow> CertBuilder \<Rightarrow> SinkEvent list" where
  "declared_events tier b = EvRequest tier # map (\<lambda>f. EvInput (cf_name f) (cf_bytes f)) (cb_inputs b) @
     map EvOp (cb_ops b) @ map EvActivation (cb_activations b) @ map EvIntervention (cb_interventions b) @
     map (\<lambda>f. EvOutput (cf_name f) (cf_bytes f)) (cb_outputs b)"

lemma oloop_map: "oloop f (map g xs) s = oloop (\<lambda>s x. f s (g x)) xs s"
  by (induction xs arbitrary: s) (auto intro: obind_cong)

lemma finalize_with_sink_replay:
  "finalize_with_sink H S tier b st = obind (oloop (sink_call S) (declared_events tier b) st) (\<lambda>st.
     obind (on_finalize S st) (\<lambda>(cert_id, st). Ok ((cert_finalize H b, cert_id), st)))"
  by (simp add: finalize_with_sink_def declared_events_def oloop_append oloop_map obind_assoc cert_finalize_def
      del: sink_call.simps) (simp add: oloop_map)

lemma recording_call: "sink_call recording_sink st e = Ok (push_event e st)"
  by (cases e) (simp_all add: recording_sink_def)

lemma recording_finalize: "on_finalize recording_sink st = Ok (rs_finalize_id st, push_event EvFinalize st)"
  by (simp add: recording_sink_def)

lemma push_events: "foldl (\<lambda>st e. push_event e st) st es = st\<lparr>rs_events := rs_events st @ es\<rparr>"
  by (induction es arbitrary: st) (simp_all add: push_event_def)

lemma recording_run: "oloop (sink_call recording_sink) es r = Ok (r\<lparr>rs_events := rs_events r @ es\<rparr>)"
  using oloop_Ok [of es "sink_call recording_sink" "\<lambda>st e. push_event e st" r] by (simp add: recording_call push_events)

subsection \<open>Hexadecimal digests\<close>

lemma digest_hex_eq: "digest_hex c = concat (map (\<lambda>b. [hex_nibble (drop_bit 4 b), hex_nibble (b AND 0x0F)]) (cert_digest c))"
proof -
  have "foldl (\<lambda>s b. s @ [hex_nibble (drop_bit 4 b)] @ [hex_nibble (b AND 0x0F)]) s ds
      = s @ concat (map (\<lambda>b. [hex_nibble (drop_bit 4 b), hex_nibble (b AND 0x0F)]) ds)" for s ds
    by (induction ds arbitrary: s) auto
  then show ?thesis by (simp add: digest_hex_def)
qed

lemma unat_hex_nibble: "unat n < 16 \<Longrightarrow> unat (hex_nibble n) = (if unat n \<le> 9 then 48 + unat n else 87 + unat n)"
proof -
  assume n: "unat n < 16"
  define k where "k = unat n"
  then have k: "n = of_nat k" "k < 16" using n by simp_all
  then have "k = 0 \<or> k = 1 \<or> k = 2 \<or> k = 3 \<or> k = 4 \<or> k = 5 \<or> k = 6 \<or> k = 7 \<or> k = 8 \<or> k = 9 \<or> k = 10 \<or> k = 11 \<or> k = 12 \<or> k = 13 \<or> k = 14 \<or> k = 15"
    by arith
  then show ?thesis unfolding k(1) by (elim disjE) (simp_all add: hex_nibble_def)
qed

lemma hex_nibble_inj: "unat m < 16 \<Longrightarrow> unat n < 16 \<Longrightarrow> hex_nibble m = hex_nibble n \<Longrightarrow> m = n"
  using unat_hex_nibble [of m] unat_hex_nibble [of n] by (simp split: if_splits add: word_unat_eq_iff)

lemma nibbles: "unat (drop_bit 4 (b :: u8)) < 16" "unat (b AND 0x0F) < 16"
  "drop_bit 4 a = drop_bit 4 b \<Longrightarrow> a AND 0x0F = b AND 0x0F \<Longrightarrow> a = (b :: u8)"
proof -
  have hi: "unat (drop_bit 4 (w :: u8)) = unat w div 16" for w by (simp add: unat_drop_bit)
  have lo: "unat ((w :: u8) AND 0x0F) = unat w mod 16" for w
    using unat_and_mask [of w 4] by (simp add: mask_eq_exp_minus_1)
  have "unat b < 256" using unsigned_less [of b] by simp
  then show "unat (drop_bit 4 b) < 16" by (simp add: hi)
  show "unat (b AND 0x0F) < 16" by (simp add: lo)
  show "a = b" if "drop_bit 4 a = drop_bit 4 b" "a AND 0x0F = b AND 0x0F"
    using that hi lo by (metis div_mult_mod_eq word_unat_eq_iff)
qed

lemma digest_hex_inj: "digest_hex c = digest_hex d \<Longrightarrow> cert_digest c = cert_digest d"
proof -
  have "xs = ys" if "concat (map (\<lambda>b. [hex_nibble (drop_bit 4 b), hex_nibble (b AND 0x0F)]) xs)
      = concat (map (\<lambda>b. [hex_nibble (drop_bit 4 b), hex_nibble (b AND 0x0F)]) ys)" for xs ys
    using that
  proof (induction xs arbitrary: ys)
    case Nil
    then show ?case by (cases ys) auto
  next
    case (Cons x xs)
    then obtain y ys' where "ys = y # ys'" by (cases ys) auto
    with Cons show ?case by (auto dest!: hex_nibble_inj [OF nibbles(1) nibbles(1)] hex_nibble_inj [OF nibbles(2) nibbles(2)] intro: nibbles(3))
  qed
  then show "digest_hex c = digest_hex d \<Longrightarrow> cert_digest c = cert_digest d" by (simp add: digest_hex_eq)
qed

lemma length_digest_hex: "length (digest_hex c) = 2 * length (cert_digest c)"
proof -
  have "length (concat (map (\<lambda>b. [hex_nibble (drop_bit 4 b), hex_nibble (b AND 0x0F)]) ds)) = 2 * length ds" for ds
    by (induction ds) auto
  then show ?thesis by (simp add: digest_hex_eq)
qed


subsection \<open>Properties\<close>

text \<open>
  C6: the shipped digest binds everything a certificate declares: if two
  well-formed certificates have the same digest, then either all their inputs, outputs, op
  records, activations and interventions agree, in order, or the two serialisations are a
  collision of the hash function. The same holds of the frozen v1 format.
\<close>

theorem digest_binds_sections:
  assumes "sections_ok a" and "sections_ok b"
  shows "(compute_digest H a = compute_digest H b \<longrightarrow> a = b \<or>
      (preimage_v2 REGIME a \<noteq> preimage_v2 REGIME b \<and> H (preimage_v2 REGIME a) = H (preimage_v2 REGIME b))) \<and>
    (compute_digest_v1 H a = compute_digest_v1 H b \<longrightarrow> a = b \<or>
      (preimage_v1 a \<noteq> preimage_v1 b \<and> H (preimage_v1 a) = H (preimage_v1 b)))"
proof -
  have "len_ok REGIME" by (simp add: len_ok_def REGIME_def str_def)
  then show ?thesis
    using preimage_v2_inj [OF assms] preimage_v1_inj [OF assms] by (auto simp: compute_digest_def compute_digest_v1_def)
qed

definition demo_sections :: "bytes \<Rightarrow> sections" where
  "demo_sections out = \<lparr>s_inputs = [\<lparr>cf_name = str ''prompt'', cf_bytes = [1, 2]\<rparr>],
     s_outputs = [\<lparr>cf_name = str ''output_tokens'', cf_bytes = out\<rparr>], s_ops = [], s_activations = [], s_interventions = []\<rparr>"

theorem digest_binds_sections_witness:
  "compute_digest id (demo_sections [7]) \<noteq> compute_digest id (demo_sections [8])"
proof -
  have ok: "sections_ok (demo_sections [n])" for n
    by (simp add: sections_ok_def demo_sections_def field_ok_def len_ok_def str_def)
  have "demo_sections [7] \<noteq> demo_sections [8]" by (simp add: demo_sections_def)
  then show ?thesis using digest_binds_sections [OF ok [of 7] ok [of 8], of id] by (auto simp: compute_digest_def)
qed

text \<open>
  No v1 preimage is a v2 preimage, and v2 preimages under different
  regimes differ, whatever the certificates contain: a receipt of another format or regime can
  share a digest with a shipped one only through a collision of the hash function.
\<close>

theorem digest_separates_versions:
  assumes "sections_ok a" and "sections_ok b" and "len_ok g" and "g \<noteq> REGIME"
  shows "preimage_v1 a \<noteq> preimage_v2 REGIME b \<and> preimage_v2 g a \<noteq> preimage_v2 REGIME b \<and>
    (compute_digest_v1 H a = compute_digest H b \<longrightarrow> H (preimage_v1 a) = H (preimage_v2 REGIME b))"
proof -
  have "len_ok REGIME" by (simp add: len_ok_def REGIME_def str_def)
  then show ?thesis
    using preimage_v2_inj [OF assms(1,2,3), of REGIME] preimage_versions assms(4)
    by (auto simp: compute_digest_def compute_digest_v1_def)
qed

theorem digest_separates_versions_witness:
  "preimage_v2 (str ''vitni-regime-1'') (demo_sections []) \<noteq> preimage_v2 REGIME (demo_sections [])"
proof -
  have "sections_ok (demo_sections [])"
    by (simp add: sections_ok_def demo_sections_def field_ok_def len_ok_def str_def)
  then show ?thesis
    using digest_separates_versions [of "demo_sections []" "demo_sections []" "str ''vitni-regime-1''" id]
    by (simp add: len_ok_def REGIME_def str_def)
qed

text \<open>
  Finalising into any sink calls it exactly for the declared events, in the
  order request, inputs, op records, activations, interventions, outputs, and finalises it last;
  the first failing call ends the run with its error; the returned certificate is the one
  \<open>finalize\<close> returns, and the recording sink holds the events in that order.
\<close>

theorem sink_sees_canonical_order:
  "finalize_with_sink H S tier b st = obind (oloop (sink_call S) (declared_events tier b) st) (\<lambda>st.
     obind (on_finalize S st) (\<lambda>(cert_id, st). Ok ((cert_finalize H b, cert_id), st))) \<and>
   finalize_with_sink H recording_sink tier b r = Ok ((cert_finalize H b, rs_finalize_id r),
     r\<lparr>rs_events := rs_events r @ declared_events tier b @ [EvFinalize]\<rparr>)"
  by (simp add: finalize_with_sink_replay recording_run recording_finalize) (simp add: push_event_def)

text \<open>
  In every state a builder can reach through its declarations, the records of each
  kind are numbered consecutively from zero in declaration order, the next index is their number
  (modulo \<open>2^32\<close>), and the builder is sealed exactly if an output has been declared.
\<close>

theorem builder_indices:
  assumes "builder_reachable b"
  shows "map op_index (cb_ops b) = map of_nat [0..<length (cb_ops b)] \<and>
    map act_index (cb_activations b) = map of_nat [0..<length (cb_activations b)] \<and>
    map intv_index (cb_interventions b) = map of_nat [0..<length (cb_interventions b)] \<and>
    cb_next_op_index b = of_nat (length (cb_ops b)) \<and> (cb_sealed b \<longleftrightarrow> cb_outputs b \<noteq> [])"
  using builder_reachable_inv [OF assms] by (auto simp: builder_inv_def indices_ok_def)

theorem builder_indices_witness:
  "map op_index (cb_ops (declare_op [] 0 [] [] [] (declare_op [] 0 [] [] [] builder_new))) = [0, 1]"
proof -
  have "builder_reachable (declare_op [] 0 [] [] [] (declare_op [] 0 [] [] [] builder_new))"
    by (rule reach_step, rule reach_step, rule reach_new) (rule step_op)+
  from builder_indices [OF this] show ?thesis by (simp add: declare_op_def builder_new_def Let_def)
qed

end
