(* ===== verification/Accel.thy ===== *)
theory Accel
  imports Config
begin

text \<open>
  The accelerator interface of \<open>src/src/accel/mod.rs\<close> and its two implementations. An accelerator
  is a dictionary of operations on its own state with its own error type, into which the crate's
  errors convert. Code that runs on an accelerator threads its state: \<open>acc_bind\<close> is the sequencing
  and \<open>acc_lift\<close> the \<open>?\<close> on a result of the crate.
\<close>

type_synonym ('s, 'e, 'x) accm = "'s \<Rightarrow> ('e, 'x \<times> 's) outcome"

record ('s, 'e) Accelerator =
  acc_matmul :: "tensor \<Rightarrow> tensor \<Rightarrow> ('s, 'e, tensor) accm"
  acc_softmax :: "tensor \<Rightarrow> ('s, 'e, tensor) accm"
  acc_rms_norm :: "tensor \<Rightarrow> tensor \<Rightarrow> f32 \<Rightarrow> ('s, 'e, tensor) accm"
  acc_silu :: "tensor \<Rightarrow> ('s, 'e, tensor) accm"
  acc_from :: "error \<Rightarrow> 'e"

definition acc_bind :: "('s, 'e, 'x) accm \<Rightarrow> ('x \<Rightarrow> ('s, 'e, 'y) accm) \<Rightarrow> ('s, 'e, 'y) accm" where
  "acc_bind m f = (\<lambda>s. obind (m s) (\<lambda>(x, s). f x s))"

definition acc_lift :: "('s, 'e) Accelerator \<Rightarrow> 'x res \<Rightarrow> ('s, 'e, 'x) accm" where
  "acc_lift A r = (\<lambda>s. omap (\<lambda>x. (x, s)) (omap_err (acc_from A) r))"

fun acc_loop :: "('x \<Rightarrow> 'i \<Rightarrow> ('s, 'e, 'x) accm) \<Rightarrow> 'i list \<Rightarrow> 'x \<Rightarrow> ('s, 'e, 'x) accm" where
  "acc_loop f [] x = (\<lambda>s. Ok (x, s))"
| "acc_loop f (i # is) x = acc_bind (f x i) (acc_loop f is)"

subsection \<open>The CPU accelerator\<close>

definition cpu_accelerator :: "libm \<Rightarrow> (unit, error) Accelerator" where
  "cpu_accelerator lm = \<lparr>acc_matmul = (\<lambda>l r s. omap (\<lambda>t. (t, s)) (matmul l r)),
     acc_softmax = (\<lambda>t s. omap (\<lambda>t. (t, s)) (softmax_last_dim lm t)),
     acc_rms_norm = (\<lambda>x w eps s. omap (\<lambda>t. (t, s)) (rms_norm lm x w eps)),
     acc_silu = (\<lambda>t s. omap (\<lambda>t. (t, s)) (silu lm t)), acc_from = (\<lambda>e. e)\<rparr>"

subsection \<open>The recording accelerator\<close>

record RecordingAccelerator =
  matmul_count :: nat
  softmax_count :: nat
  rms_norm_count :: nat
  silu_count :: nat
  max_matmul :: "(nat \<times> nat \<times> nat) option"

definition recording_default :: RecordingAccelerator where
  "recording_default = \<lparr>matmul_count = 0, softmax_count = 0, rms_norm_count = 0, silu_count = 0, max_matmul = None\<rparr>"

definition recording_total :: "RecordingAccelerator \<Rightarrow> nat" where
  "recording_total r = matmul_count r + softmax_count r + rms_norm_count r + silu_count r"

definition record_matmul :: "tensor \<Rightarrow> tensor \<Rightarrow> RecordingAccelerator \<Rightarrow> RecordingAccelerator" where
  "record_matmul l r s =
     (let s = s\<lparr>matmul_count := matmul_count s + 1\<rparr> in
      if sh_rank (t_shape l) = 2 \<and> sh_rank (t_shape r) = 2 then
        let m = t_dims l ! 0; k = t_dims l ! 1; n = t_dims r ! 1 in
        s\<lparr>max_matmul := Some (case max_matmul s of None \<Rightarrow> (m, n, k)
          | Some (om, on, ok) \<Rightarrow>
              if wrap_mul (wrap_mul om on) ok < wrap_mul (wrap_mul m n) k then (m, n, k) else (om, on, ok))\<rparr>
      else s)"

definition recording_accelerator :: "libm \<Rightarrow> (RecordingAccelerator, error) Accelerator" where
  "recording_accelerator lm = \<lparr>acc_matmul = (\<lambda>l r s. let s = record_matmul l r s in omap (\<lambda>t. (t, s)) (matmul l r)),
     acc_softmax = (\<lambda>t s. let s = s\<lparr>softmax_count := softmax_count s + 1\<rparr> in omap (\<lambda>t. (t, s)) (softmax_last_dim lm t)),
     acc_rms_norm = (\<lambda>x w eps s. let s = s\<lparr>rms_norm_count := rms_norm_count s + 1\<rparr> in omap (\<lambda>t. (t, s)) (rms_norm lm x w eps)),
     acc_silu = (\<lambda>t s. let s = s\<lparr>silu_count := silu_count s + 1\<rparr> in omap (\<lambda>t. (t, s)) (silu lm t)),
     acc_from = (\<lambda>e. e)\<rparr>"

subsection \<open>The determinism contract\<close>

text \<open>
  Two computations agree on their values when they end alike: the same value, the same error after
  conversion, or a panic, whatever happens to the accelerator's state.
\<close>

definition agrees :: "(error \<Rightarrow> 'e) \<Rightarrow> ('s, 'e, 'x) accm \<Rightarrow> (unit, error, 'x) accm \<Rightarrow> bool" where
  "agrees h m n \<longleftrightarrow> (\<forall>s. omap fst (m s) = omap_err h (omap fst (n ())))"

text \<open>
  The contract the source asks of an implementation: every operation gives the bits of the CPU
  reduction.
\<close>

locale conforming =
  fixes lm :: libm and A :: "('s, 'e) Accelerator"
  assumes matmul: "agrees (acc_from A) (acc_matmul A l r) (acc_matmul (cpu_accelerator lm) l r)"
    and softmax: "agrees (acc_from A) (acc_softmax A t) (acc_softmax (cpu_accelerator lm) t)"
    and rms_norm: "agrees (acc_from A) (acc_rms_norm A t w eps) (acc_rms_norm (cpu_accelerator lm) t w eps)"
    and silu: "agrees (acc_from A) (acc_silu A t) (acc_silu (cpu_accelerator lm) t)"
begin

lemma lift: "agrees (acc_from A) (acc_lift A r) (acc_lift (cpu_accelerator lm) r)"
  by (cases r) (simp_all add: agrees_def acc_lift_def cpu_accelerator_def)

lemma bind:
  assumes "agrees (acc_from A) m n" and "\<And>x. agrees (acc_from A) (f x) (g x)"
  shows "agrees (acc_from A) (acc_bind m f) (acc_bind n g)"
  unfolding agrees_def
proof
  fix s
  have m: "omap fst (m s) = omap_err (acc_from A) (omap fst (n ()))" using assms(1) by (simp add: agrees_def)
  show "omap fst (acc_bind m f s) = omap_err (acc_from A) (omap fst (acc_bind n g ()))"
  proof (cases "n ()")
    case (Ok p)
    then obtain s' where "m s = Ok (fst p, s')" using m by (cases "m s") auto
    then show ?thesis using Ok assms(2) by (cases p) (simp add: acc_bind_def agrees_def)
  qed (use m in \<open>cases "m s"; simp add: acc_bind_def\<close>)+
qed

lemma ret: "agrees (acc_from A) (\<lambda>s. Ok (x, s)) (\<lambda>s. Ok (x, s))"
  by (simp add: agrees_def)

lemma loop:
  assumes "\<And>x i. agrees (acc_from A) (f x i) (g x i)"
  shows "agrees (acc_from A) (acc_loop f is x) (acc_loop g is x)"
proof (induction "is" arbitrary: x)
  case Nil
  show ?case by (simp add: agrees_def)
next
  case (Cons i "is")
  show ?case unfolding acc_loop.simps by (intro bind assms Cons.IH)
qed

end

lemma omap_err_id [simp]: "omap_err (\<lambda>e. e) m = m"
  by (cases m) simp_all

lemma omap_fst_pair [simp]: "omap fst (omap (\<lambda>t. (t, s)) m) = m"
  by (cases m) simp_all

interpretation cpu: conforming lm "cpu_accelerator lm"
  by unfold_locales (simp_all add: agrees_def cpu_accelerator_def)

interpretation recording: conforming lm "recording_accelerator lm"
  by unfold_locales (simp_all add: agrees_def cpu_accelerator_def recording_accelerator_def Let_def)

end
