(* ===== verification/Forward.thy ===== *)
theory Forward
  imports Accel QuantWeights
begin

text \<open>
  The dense forward passes \<open>src/src/model/forward.rs\<close> (Llama) and \<open>src/src/model/gemma.rs\<close> (Gemma).
  The two files repeat the same attention and feed-forward code; they differ in the embedding
  scale, the norm, the activation and the text of one error message, which are parameters of the
  sublayers here. Sizes that come from the configuration are multiplied and added with the
  wrap-around of a release build, so \<open>layer * dim * dim\<close> may be grouped either way.
\<close>

subsection \<open>Run state\<close>

record RunState =
  rs_key_cache :: "f32 list"
  rs_value_cache :: "f32 list"
  rs_regime :: u8

definition run_state_new :: "Config \<Rightarrow> RunState res" where
  "run_state_new cfg = obind (kv_dim cfg) (\<lambda>kvd.
     let n = wrap_mul (wrap_mul (c_n_layers cfg) (c_seq_len cfg)) kvd in
     Ok \<lparr>rs_key_cache = replicate n 0, rs_value_cache = replicate n 0, rs_regime = 2\<rparr>)"

definition set_regime :: "u8 \<Rightarrow> RunState \<Rightarrow> RunState" where
  "set_regime r st = st\<lparr>rs_regime := r\<rparr>"

subsection \<open>Bridges between slices and tensors\<close>

definition tensor_as_f32 :: "string \<Rightarrow> tensor \<Rightarrow> f32 list res" where
  "tensor_as_f32 why t = (case t_storage t of StCpu s \<Rightarrow> Ok (as_f32_slice s)
     | StGpu _ \<Rightarrow> Err (NotImplemented ''tensor_as_f32'' why))"

definition slice_to_tensor :: "f32 list \<Rightarrow> nat list \<Rightarrow> tensor res" where
  "slice_to_tensor xs ds = obind (shape_new ds) (tensor_from_f32 xs)"

definition xb_to_2d :: "string \<Rightarrow> tensor \<Rightarrow> nat \<Rightarrow> tensor res" where
  "xb_to_2d why t n = obind (tensor_as_f32 why t) (\<lambda>xs. obind (shape_new [1, n]) (tensor_from_f32 xs))"

definition squeeze_to_1d :: "string \<Rightarrow> tensor \<Rightarrow> nat \<Rightarrow> tensor res" where
  "squeeze_to_1d why t n = obind (tensor_as_f32 why t) (\<lambda>xs. obind (shape_new [n]) (tensor_from_f32 xs))"

definition transpose_2d :: "string \<Rightarrow> tensor \<Rightarrow> nat \<Rightarrow> nat \<Rightarrow> tensor res" where
  "transpose_2d why t rows cols =
     obind (tensor_as_f32 why t) (\<lambda>src.
     obind (oloop (\<lambda>buf r. oloop (\<lambda>buf c. obind (oget src (wrap_add (wrap_mul r cols) c)) (oset buf (wrap_add (wrap_mul c rows) r)))
         [0..<cols] buf) [0..<rows] (replicate (wrap_mul rows cols) 0)) (\<lambda>buf.
     obind (shape_new [cols, rows]) (tensor_from_f32 buf)))"

text \<open>\<open>dst[a..b].copy_from_slice(src)\<close>: panics out of bounds and on different lengths.\<close>

definition ocopy :: "'a list \<Rightarrow> nat \<Rightarrow> nat \<Rightarrow> 'a list \<Rightarrow> 'a list res" where
  "ocopy dst a b src = (if a \<le> b \<and> b \<le> length dst \<and> length src = b - a then Ok (splice dst a src) else Panic)"

text \<open>The rows of one layer in a weight array that stacks \<open>rows * cols\<close> values per layer.\<close>

definition layer_slice :: "f32 list \<Rightarrow> nat \<Rightarrow> nat \<Rightarrow> f32 list res" where
  "layer_slice ws layer n = oslice ws (wrap_mul layer n) (wrap_mul (layer + 1) n)"

definition layer_vector :: "f32 list \<Rightarrow> nat \<Rightarrow> nat \<Rightarrow> tensor res" where
  "layer_vector ws layer n = obind (layer_slice ws layer n) (\<lambda>d. slice_to_tensor d [n])"

definition layer_matrix_t :: "string \<Rightarrow> f32 list \<Rightarrow> nat \<Rightarrow> nat \<Rightarrow> nat \<Rightarrow> tensor res" where
  "layer_matrix_t why ws layer rows cols =
     obind (layer_slice ws layer (wrap_mul rows cols)) (\<lambda>d.
     obind (slice_to_tensor d [rows, cols]) (\<lambda>t. transpose_2d why t rows cols))"

subsection \<open>Rotary embedding of the query and the cached key\<close>

text \<open>One rotation of a pair of entries by the angle with the given cosine and sine.\<close>

definition rotate_pair :: "f32 \<Rightarrow> f32 \<Rightarrow> f32 list \<Rightarrow> nat \<Rightarrow> nat \<Rightarrow> f32 list res" where
  "rotate_pair c s xs i j =
     obind (oget xs i) (\<lambda>a. obind (oget xs j) (\<lambda>b.
     obind (oset xs i (f32_sub (f32_mul a c) (f32_mul b s))) (\<lambda>xs.
     oset xs j (f32_add (f32_mul a s) (f32_mul b c)))))"

definition rope_angle :: "libm \<Rightarrow> f32 \<Rightarrow> nat \<Rightarrow> nat \<Rightarrow> nat \<Rightarrow> f32" where
  "rope_angle lm theta hs pos k =
     f32_mul (f32_of_nat pos) (f32_div f32_one (powf lm theta (f32_div (f32_of_nat k) (f32_of_nat hs))))"

definition rope_step :: "libm \<Rightarrow> f32 \<Rightarrow> nat \<Rightarrow> nat \<Rightarrow> nat \<Rightarrow> nat \<Rightarrow> f32 list \<times> f32 list \<Rightarrow> nat \<Rightarrow> (f32 list \<times> f32 list) res" where
  "rope_step lm theta hs pos kvd off = (\<lambda>(q, kc) i.
     if hs = 0 then Panic
     else let v = rope_angle lm theta hs pos (i mod hs); c = cosf lm v; s = sinf lm v in
       obind (rotate_pair c s q i (i + 1)) (\<lambda>q.
       omap (\<lambda>kc. (q, kc)) (if i < kvd then rotate_pair c s kc (wrap_add off i) (wrap_add (wrap_add off i) 1) else Ok kc)))"

text \<open>\<open>while i < dim ... i += 2\<close>.\<close>

definition evens_below :: "nat \<Rightarrow> nat list" where
  "evens_below n = map (\<lambda>j. 2 * j) [0..<(n + 1) div 2]"

definition rope_interleaved :: "libm \<Rightarrow> f32 \<Rightarrow> nat \<Rightarrow> nat \<Rightarrow> nat \<Rightarrow> nat \<Rightarrow> nat \<Rightarrow> f32 list \<Rightarrow> f32 list \<Rightarrow> (f32 list \<times> f32 list) res" where
  "rope_interleaved lm theta hs pos kvd off dm q kc = oloop (rope_step lm theta hs pos kvd off) (evens_below dm) (q, kc)"

subsection \<open>Attention over the cache\<close>

text \<open>
  Offset of a cached row: \<open>layer * seq_len * kv_dim + t * kv_dim\<close>, and of a head in it.
\<close>

definition kv_offset :: "Config \<Rightarrow> nat \<Rightarrow> nat \<Rightarrow> nat \<Rightarrow> nat" where
  "kv_offset cfg kvd layer t = wrap_add (wrap_mul (wrap_mul layer (c_seq_len cfg)) kvd) (wrap_mul t kvd)"

definition head_offset :: "Config \<Rightarrow> nat \<Rightarrow> nat \<Rightarrow> nat \<Rightarrow> nat \<Rightarrow> nat \<Rightarrow> nat \<Rightarrow> nat res" where
  "head_offset cfg kvd kvm hs layer t h =
     omap (\<lambda>g. wrap_add (kv_offset cfg kvd layer t) (wrap_mul g hs)) (odiv h kvm)"

definition attn_score :: "libm \<Rightarrow> f32 list \<Rightarrow> f32 list \<Rightarrow> nat \<Rightarrow> nat \<Rightarrow> nat \<Rightarrow> f32 res" where
  "attn_score lm q kc q_off k_off hs =
     omap (\<lambda>score. f32_div score (sqrtf lm (f32_of_nat hs)))
       (oloop (\<lambda>score d. obind (oget q (wrap_add q_off d)) (\<lambda>a. obind (oget kc (wrap_add k_off d)) (\<lambda>b.
          Ok (f32_add score (f32_mul a b))))) [0..<hs] 0)"

definition attn_scores :: "libm \<Rightarrow> Config \<Rightarrow> nat \<Rightarrow> nat \<Rightarrow> nat \<Rightarrow> nat \<Rightarrow> nat \<Rightarrow> nat \<Rightarrow> f32 list \<Rightarrow> f32 list \<Rightarrow> f32 list res" where
  "attn_scores lm cfg kvd kvm hs layer pos h q kc =
     oloop (\<lambda>att t. obind (head_offset cfg kvd kvm hs layer t h) (\<lambda>k_off.
         obind (attn_score lm q kc (wrap_mul h hs) k_off hs) (oset att t)))
       [0..<pos + 1] (replicate (wrap_add pos 1) 0)"

definition attn_values :: "Config \<Rightarrow> nat \<Rightarrow> nat \<Rightarrow> nat \<Rightarrow> nat \<Rightarrow> nat \<Rightarrow> nat \<Rightarrow> f32 list \<Rightarrow> f32 list \<Rightarrow> f32 list \<Rightarrow> f32 list res" where
  "attn_values cfg kvd kvm hs layer pos h probs vc xb =
     oloop (\<lambda>xb t. obind (head_offset cfg kvd kvm hs layer t h) (\<lambda>v_off.
         obind (oget probs t) (\<lambda>a.
         oloop (\<lambda>xb d. obind (oget xb (wrap_add (wrap_mul h hs) d)) (\<lambda>x. obind (oget vc (wrap_add v_off d)) (\<lambda>v.
             oset xb (wrap_add (wrap_mul h hs) d) (f32_add x (f32_mul a v))))) [0..<hs] xb)))
       [0..<pos + 1] xb"

definition attn_head :: "libm \<Rightarrow> ('s, 'e) Accelerator \<Rightarrow> string \<Rightarrow> Config \<Rightarrow> nat \<Rightarrow> nat \<Rightarrow> nat \<Rightarrow> nat \<Rightarrow> nat \<Rightarrow> f32 list \<Rightarrow> f32 list \<Rightarrow> f32 list \<Rightarrow>
    f32 list \<Rightarrow> nat \<Rightarrow> ('s, 'e, f32 list) accm" where
  "attn_head lm A why cfg kvd kvm hs layer pos q kc vc xb h =
     acc_bind (acc_lift A (obind (attn_scores lm cfg kvd kvm hs layer pos h q kc) (\<lambda>att. slice_to_tensor att [wrap_add pos 1]))) (\<lambda>att_t.
     acc_bind (acc_softmax A att_t) (\<lambda>probs.
     acc_lift A (obind (tensor_as_f32 why probs) (\<lambda>p. attn_values cfg kvd kvm hs layer pos h p vc xb))))"

text \<open>Storing the new key and value rows, then rotating the query and the stored key.\<close>

definition store_kv :: "string \<Rightarrow> nat \<Rightarrow> nat \<Rightarrow> tensor \<Rightarrow> tensor \<Rightarrow> RunState \<Rightarrow> RunState res" where
  "store_kv why off kvd k v st =
     obind (tensor_as_f32 why k) (\<lambda>k_data. obind (tensor_as_f32 why v) (\<lambda>v_data.
     obind (ocopy (rs_key_cache st) off (wrap_add off kvd) k_data) (\<lambda>kc.
     obind (ocopy (rs_value_cache st) off (wrap_add off kvd) v_data) (\<lambda>vc.
     Ok (st\<lparr>rs_key_cache := kc, rs_value_cache := vc\<rparr>)))))"

definition rope_qk :: "libm \<Rightarrow> string \<Rightarrow> nat \<Rightarrow> nat \<Rightarrow> nat \<Rightarrow> nat \<Rightarrow> nat \<Rightarrow> tensor \<Rightarrow> RunState \<Rightarrow> (f32 list \<times> RunState) res" where
  "rope_qk lm why hs pos kvd off dm q st =
     obind (tensor_as_f32 why q) (\<lambda>q_buf.
     omap (\<lambda>(q_buf, kc). (q_buf, st\<lparr>rs_key_cache := kc\<rparr>))
       (rope_interleaved lm f32_10000 hs pos kvd off dm q_buf (rs_key_cache st)))"

subsection \<open>The sublayers\<close>

definition attention_sublayer :: "libm \<Rightarrow> ('s, 'e) Accelerator \<Rightarrow> string \<Rightarrow> (tensor \<Rightarrow> tensor \<Rightarrow> ('s, 'e, tensor) accm) \<Rightarrow>
    Config \<Rightarrow> Weights \<Rightarrow> nat \<Rightarrow> nat \<Rightarrow> nat \<Rightarrow> nat \<Rightarrow> nat \<Rightarrow> tensor \<Rightarrow> RunState \<Rightarrow> ('s, 'e, tensor \<times> RunState) accm" where
  "attention_sublayer lm A why norm cfg w kvd kvm hs pos layer x st =
     (let dm = c_dim cfg; off = kv_offset cfg kvd layer pos in
      acc_bind (acc_lift A (layer_vector (w_rms_att_weight w) layer dm)) (\<lambda>rms_w.
      acc_bind (norm x rms_w) (\<lambda>xb.
      acc_bind (acc_lift A (xb_to_2d why xb dm)) (\<lambda>xb_2d.
      acc_bind (acc_lift A (layer_matrix_t why (w_wq w) layer dm dm)) (\<lambda>wq_t.
      acc_bind (acc_matmul A xb_2d wq_t) (\<lambda>q.
      acc_bind (acc_lift A (layer_matrix_t why (w_wk w) layer kvd dm)) (\<lambda>wk_t.
      acc_bind (acc_matmul A xb_2d wk_t) (\<lambda>k.
      acc_bind (acc_lift A (layer_matrix_t why (w_wv w) layer kvd dm)) (\<lambda>wv_t.
      acc_bind (acc_matmul A xb_2d wv_t) (\<lambda>v.
      acc_bind (acc_lift A (obind (store_kv why off kvd k v st) (rope_qk lm why hs pos kvd off dm q))) (\<lambda>(q_buf, st).
      acc_bind (acc_loop (attn_head lm A why cfg kvd kvm hs layer pos q_buf (rs_key_cache st) (rs_value_cache st))
        [0..<c_n_heads cfg] (replicate dm 0)) (\<lambda>xb_out.
      acc_bind (acc_lift A (slice_to_tensor xb_out [1, dm])) (\<lambda>xb_attn.
      acc_bind (acc_lift A (layer_matrix_t why (w_wo w) layer dm dm)) (\<lambda>wo_t.
      acc_bind (acc_matmul A xb_attn wo_t) (\<lambda>xb2.
      acc_lift A (obind (squeeze_to_1d why xb2 dm) (\<lambda>xb2_1d. omap (\<lambda>x. (x, st)) (tensor_add x xb2_1d))))))))))))))))))"

definition ffn_sublayer :: "('s, 'e) Accelerator \<Rightarrow> string \<Rightarrow> (tensor \<Rightarrow> tensor \<Rightarrow> ('s, 'e, tensor) accm) \<Rightarrow>
    (tensor \<Rightarrow> ('s, 'e, tensor) accm) \<Rightarrow> Config \<Rightarrow> Weights \<Rightarrow> nat \<Rightarrow> tensor \<Rightarrow> ('s, 'e, tensor) accm" where
  "ffn_sublayer A why norm act cfg w layer x =
     (let dm = c_dim cfg; hd = c_hidden_dim cfg in
      acc_bind (acc_lift A (layer_vector (w_rms_ffn_weight w) layer dm)) (\<lambda>rms_ffn.
      acc_bind (norm x rms_ffn) (\<lambda>xb_ffn.
      acc_bind (acc_lift A (xb_to_2d why xb_ffn dm)) (\<lambda>xb_ffn_2d.
      acc_bind (acc_lift A (layer_matrix_t why (w_w1 w) layer hd dm)) (\<lambda>w1_t.
      acc_bind (acc_lift A (layer_matrix_t why (w_w3 w) layer hd dm)) (\<lambda>w3_t.
      acc_bind (acc_matmul A xb_ffn_2d w1_t) (\<lambda>gate.
      acc_bind (acc_matmul A xb_ffn_2d w3_t) (\<lambda>up.
      acc_bind (act gate) (\<lambda>gate_act.
      acc_bind (acc_lift A (tensor_mul gate_act up)) (\<lambda>ffn_inner.
      acc_bind (acc_lift A (layer_matrix_t why (w_w2 w) layer dm hd)) (\<lambda>w2_t.
      acc_bind (acc_matmul A ffn_inner w2_t) (\<lambda>xb_down.
      acc_lift A (obind (squeeze_to_1d why xb_down dm) (tensor_add x))))))))))))))"

definition decoder_layer :: "libm \<Rightarrow> ('s, 'e) Accelerator \<Rightarrow> string \<Rightarrow> (tensor \<Rightarrow> tensor \<Rightarrow> ('s, 'e, tensor) accm) \<Rightarrow>
    (tensor \<Rightarrow> ('s, 'e, tensor) accm) \<Rightarrow> Config \<Rightarrow> Weights \<Rightarrow> nat \<Rightarrow> nat \<Rightarrow> nat \<Rightarrow> nat \<Rightarrow> tensor \<times> RunState \<Rightarrow> nat \<Rightarrow>
    ('s, 'e, tensor \<times> RunState) accm" where
  "decoder_layer lm A why norm act cfg w kvd kvm hs pos = (\<lambda>(x, st) layer.
     acc_bind (attention_sublayer lm A why norm cfg w kvd kvm hs pos layer x st) (\<lambda>(x, st).
     acc_bind (ffn_sublayer A why norm act cfg w layer x) (\<lambda>x. (\<lambda>s. Ok ((x, st), s)))))"

definition lm_head :: "('s, 'e) Accelerator \<Rightarrow> string \<Rightarrow> (tensor \<Rightarrow> tensor \<Rightarrow> ('s, 'e, tensor) accm) \<Rightarrow> Config \<Rightarrow> Weights \<Rightarrow>
    tensor \<Rightarrow> ('s, 'e, tensor) accm" where
  "lm_head A why norm cfg w x =
     (let dm = c_dim cfg; vs = c_vocab_size cfg in
      acc_bind (acc_lift A (slice_to_tensor (w_rms_final_weight w) [dm])) (\<lambda>rms_final.
      acc_bind (norm x rms_final) (\<lambda>x_final.
      acc_bind (acc_lift A (xb_to_2d why x_final dm)) (\<lambda>x_final_2d.
      acc_bind (acc_lift A (slice_to_tensor (w_wcls w) [vs, dm])) (\<lambda>wcls.
      acc_bind (acc_lift A (transpose_2d why wcls vs dm)) (\<lambda>wcls_t.
      acc_bind (acc_matmul A x_final_2d wcls_t) (\<lambda>logits.
      acc_lift A (squeeze_to_1d why logits vs))))))))"

definition token_row :: "Config \<Rightarrow> Weights \<Rightarrow> u32 \<Rightarrow> f32 list res" where
  "token_row cfg w token = oslice (w_token_embedding_table w) (wrap_mul (unat token) (c_dim cfg)) (wrap_mul (unat token + 1) (c_dim cfg))"

text \<open>The part both architectures share, from the embedded token on.\<close>

definition decoder_step :: "libm \<Rightarrow> ('s, 'e) Accelerator \<Rightarrow> string \<Rightarrow> (tensor \<Rightarrow> tensor \<Rightarrow> ('s, 'e, tensor) accm) \<Rightarrow>
    (tensor \<Rightarrow> ('s, 'e, tensor) accm) \<Rightarrow> (f32 list \<Rightarrow> f32 list) \<Rightarrow> Config \<Rightarrow> Weights \<Rightarrow> RunState \<Rightarrow> u32 \<Rightarrow> nat \<Rightarrow>
    ('s, 'e, tensor \<times> RunState) accm" where
  "decoder_step lm A why norm act scale cfg w st token pos =
     acc_bind (acc_lift A (kv_dim cfg)) (\<lambda>kvd.
     acc_bind (acc_lift A (kv_mul cfg)) (\<lambda>kvm.
     acc_bind (acc_lift A (head_size cfg)) (\<lambda>hs.
     acc_bind (acc_lift A (obind (token_row cfg w token) (\<lambda>emb. slice_to_tensor (scale emb) [c_dim cfg]))) (\<lambda>x.
     acc_bind (acc_loop (decoder_layer lm A why norm act cfg w kvd kvm hs pos) [0..<c_n_layers cfg] (x, st)) (\<lambda>(x, st).
     acc_bind (lm_head A why norm cfg w x) (\<lambda>logits. (\<lambda>s. Ok ((logits, st), s))))))))"

subsection \<open>Llama\<close>

definition f32_1e_6 :: f32 where "f32_1e_6 = 0x358637BD"

definition llama_step_with_accel :: "libm \<Rightarrow> ('s, 'e) Accelerator \<Rightarrow> Config \<Rightarrow> Weights \<Rightarrow> RunState \<Rightarrow> u32 \<Rightarrow> nat \<Rightarrow>
    ('s, 'e, tensor \<times> RunState) accm" where
  "llama_step_with_accel lm A = decoder_step lm A ''GPU storage not supported here''
     (\<lambda>x w. acc_rms_norm A x w f32_1e_5) (acc_silu A) (\<lambda>emb. emb)"

definition llama_step :: "libm \<Rightarrow> Config \<Rightarrow> Weights \<Rightarrow> RunState \<Rightarrow> u32 \<Rightarrow> nat \<Rightarrow> (tensor \<times> RunState) res" where
  "llama_step lm cfg w st token pos = omap fst (llama_step_with_accel lm (cpu_accelerator lm) cfg w st token pos ())"

subsection \<open>Gemma\<close>

definition gemma_row :: "libm \<Rightarrow> f32 list \<Rightarrow> f32 \<Rightarrow> f32 list \<Rightarrow> f32 list res" where
  "gemma_row lm ws eps row =
     (let sumsq = foldl (\<lambda>acc v. f32_add acc (f32_mul v v)) 0 row;
          scale = f32_div f32_one (sqrtf lm (f32_add (f32_div sumsq (f32_of_nat (length row))) eps)) in
      omapM (\<lambda>i. omap (\<lambda>wi. f32_mul (f32_mul (row ! i) scale) (f32_add f32_one wi)) (oget ws i)) [0..<length row])"

definition gemma_rms_norm :: "libm \<Rightarrow> tensor \<Rightarrow> tensor \<Rightarrow> f32 \<Rightarrow> tensor res" where
  "gemma_rms_norm lm x weight eps =
     obind (tensor_as_f32 ''GPU storage not supported'' x) (\<lambda>xs.
     obind (tensor_as_f32 ''GPU storage not supported'' weight) (\<lambda>ws.
     if t_dims x = [] then Panic
     else let feat = last (t_dims x) in
       obind (odiv (length xs) feat) (\<lambda>rows.
       obind (oloop (\<lambda>buf r. omap (\<lambda>v. splice buf (r * feat) v)
           (obind (oslice xs (r * feat) ((r + 1) * feat)) (gemma_row lm ws eps))) [0..<rows] (replicate (length xs) 0)) (\<lambda>buf.
       tensor_from_f32 buf (t_shape x)))))"

definition gemma_step_with_accel :: "libm \<Rightarrow> ('s, 'e) Accelerator \<Rightarrow> Config \<Rightarrow> Weights \<Rightarrow> RunState \<Rightarrow> u32 \<Rightarrow> nat \<Rightarrow>
    ('s, 'e, tensor \<times> RunState) accm" where
  "gemma_step_with_accel lm A cfg = decoder_step lm A ''GPU storage not supported''
     (\<lambda>x w. acc_lift A (gemma_rms_norm lm x w f32_1e_6)) (\<lambda>gate. acc_lift A (gelu lm gate))
     (\<lambda>emb. let scale = sqrtf lm (f32_of_nat (c_dim cfg)) in map (\<lambda>v. f32_mul v scale) emb) cfg"

definition gemma_step :: "libm \<Rightarrow> Config \<Rightarrow> Weights \<Rightarrow> RunState \<Rightarrow> u32 \<Rightarrow> nat \<Rightarrow> (tensor \<times> RunState) res" where
  "gemma_step lm cfg w st token pos = omap fst (gemma_step_with_accel lm (cpu_accelerator lm) cfg w st token pos ())"


subsection \<open>A conforming accelerator gives the CPU's bits\<close>

context conforming
begin

lemmas agree_intros = lift bind loop matmul softmax rms_norm silu

lemma agrees_ret: "agrees (acc_from A) (\<lambda>s. Ok (x, s)) (\<lambda>s. Ok (x, s))"
  by (simp add: agrees_def)

lemma agrees_split:
  "(\<And>x y. agrees (acc_from A) (f x y) (g x y)) \<Longrightarrow> agrees (acc_from A) (case p of (x, y) \<Rightarrow> f x y) (case p of (x, y) \<Rightarrow> g x y)"
  by (cases p) simp

lemma attn_head_agrees:
  "agrees (acc_from A) (attn_head lm A why cfg kvd kvm hs layer pos q kc vc xb h)
     (attn_head lm (cpu_accelerator lm) why cfg kvd kvm hs layer pos q kc vc xb h)"
  unfolding attn_head_def by (intro agree_intros)

lemma attention_agrees:
  assumes "\<And>x w. agrees (acc_from A) (norm x w) (norm' x w)"
  shows "agrees (acc_from A) (attention_sublayer lm A why norm cfg w kvd kvm hs pos layer x st)
     (attention_sublayer lm (cpu_accelerator lm) why norm' cfg w kvd kvm hs pos layer x st)"
  unfolding attention_sublayer_def Let_def
  by (intro agree_intros agrees_split assms attn_head_agrees)

lemma ffn_agrees:
  assumes "\<And>x w. agrees (acc_from A) (norm x w) (norm' x w)" and "\<And>x. agrees (acc_from A) (act x) (act' x)"
  shows "agrees (acc_from A) (ffn_sublayer A why norm act cfg w layer x) (ffn_sublayer (cpu_accelerator lm) why norm' act' cfg w layer x)"
  unfolding ffn_sublayer_def Let_def by (intro agree_intros assms)

lemma decoder_agrees:
  assumes "\<And>x w. agrees (acc_from A) (norm x w) (norm' x w)" and "\<And>x. agrees (acc_from A) (act x) (act' x)"
  shows "agrees (acc_from A) (decoder_step lm A why norm act scale cfg w st token pos)
     (decoder_step lm (cpu_accelerator lm) why norm' act' scale cfg w st token pos)"
  unfolding decoder_step_def decoder_layer_def lm_head_def Let_def split_def
  by (intro agree_intros attention_agrees ffn_agrees assms agrees_ret)

lemma llama_agrees:
  "agrees (acc_from A) (llama_step_with_accel lm A cfg w st token pos) (llama_step_with_accel lm (cpu_accelerator lm) cfg w st token pos)"
  unfolding llama_step_with_accel_def by (intro decoder_agrees agree_intros)

lemma gemma_agrees:
  "agrees (acc_from A) (gemma_step_with_accel lm A cfg w st token pos) (gemma_step_with_accel lm (cpu_accelerator lm) cfg w st token pos)"
  unfolding gemma_step_with_accel_def by (intro decoder_agrees agree_intros)

end

subsection \<open>Counting the dispatches\<close>

text \<open>
  Matmuls, softmaxes, norms and activations that a computation on the recording accelerator adds
  to the counters when it returns.
\<close>

definition counters :: "RecordingAccelerator \<Rightarrow> nat \<times> nat \<times> nat \<times> nat" where
  "counters r = (matmul_count r, softmax_count r, rms_norm_count r, silu_count r)"

definition add4 :: "nat \<times> nat \<times> nat \<times> nat \<Rightarrow> nat \<times> nat \<times> nat \<times> nat \<Rightarrow> nat \<times> nat \<times> nat \<times> nat" where
  "add4 = (\<lambda>(a, b, c, d) (a', b', c', d'). (a + a', b + b', c + c', d + d'))"

definition costs :: "(RecordingAccelerator, error, 'x) accm \<Rightarrow> nat \<times> nat \<times> nat \<times> nat \<Rightarrow> bool" where
  "costs m n \<longleftrightarrow> (\<forall>r x r'. m r = Ok (x, r') \<longrightarrow> counters r' = add4 (counters r) n)"

lemma costs_bind:
  assumes "costs m a" and "\<And>x. costs (f x) b"
  shows "costs (acc_bind m f) (add4 a b)"
  unfolding costs_def
proof (intro allI impI)
  fix r x r'
  assume "acc_bind m f r = Ok (x, r')"
  then obtain y s where *: "m r = Ok (y, s)" "f y s = Ok (x, r')" by (auto simp: acc_bind_def outcome_simps)
  then have "counters s = add4 (counters r) a" "counters r' = add4 (counters s) b"
    using assms by (auto simp: costs_def)
  then show "counters r' = add4 (counters r) (add4 a b)"
    by (auto simp: add4_def split: prod.splits)
qed

lemma costs_pure: "costs (acc_lift A r) (0, 0, 0, 0)" "costs (\<lambda>s. Ok (x, s)) (0, 0, 0, 0)"
  by (auto simp: costs_def acc_lift_def add4_def outcome_simps split: prod.splits)

lemma costs_loop:
  assumes "\<And>x i. costs (f x i) (a, b, c, d)"
  shows "costs (acc_loop f is x) (length is * a, length is * b, length is * c, length is * d)"
proof (induction "is" arbitrary: x)
  case Nil
  show ?case using costs_pure(2) by simp
next
  case (Cons i "is")
  show ?case using costs_bind [OF assms Cons.IH, of x i] by (simp add: add4_def)
qed

lemma costs_op:
  "costs (acc_matmul (recording_accelerator lm) l r) (1, 0, 0, 0)"
  "costs (acc_softmax (recording_accelerator lm) t) (0, 1, 0, 0)"
  "costs (acc_rms_norm (recording_accelerator lm) t u eps) (0, 0, 1, 0)"
  "costs (acc_silu (recording_accelerator lm) t) (0, 0, 0, 1)"
  by (auto simp: costs_def recording_accelerator_def Let_def outcome_simps counters_def add4_def record_matmul_def)

lemma costs_cong: "costs m a \<Longrightarrow> a = b \<Longrightarrow> costs m b"
  by simp

lemma costs_split: "(\<And>x y. costs (f x y) n) \<Longrightarrow> costs (case p of (x, y) \<Rightarrow> f x y) n"
  by (cases p) simp

lemmas costs_intros = costs_bind costs_pure costs_loop costs_op costs_split

lemma decoder_costs:
  assumes "\<And>x w. costs (norm x w) (0, 0, rn, 0)" and "\<And>x. costs (act x) (0, 0, 0, sl)"
  shows "costs (decoder_step lm (recording_accelerator lm) why norm act scale cfg w st token pos)
    (7 * c_n_layers cfg + 1, c_n_layers cfg * c_n_heads cfg, (2 * c_n_layers cfg + 1) * rn, c_n_layers cfg * sl)"
proof -
  have head: "costs (attn_head lm (recording_accelerator lm) why cfg kvd kvm hs layer pos q kc vc xb h) (0, 1, 0, 0)"
    for kvd kvm hs layer q kc vc xb h
    unfolding attn_head_def by (rule costs_cong, (rule costs_intros)+) (simp add: add4_def)
  have att: "costs (attention_sublayer lm (recording_accelerator lm) why norm cfg w kvd kvm hs pos layer x st) (4, c_n_heads cfg, rn, 0)"
    for kvd kvm hs layer x st
    unfolding attention_sublayer_def Let_def
    by (rule costs_cong, (rule head costs_intros assms)+) (simp add: add4_def)
  have ffn: "costs (ffn_sublayer (recording_accelerator lm) why norm act cfg w layer x) (3, 0, rn, sl)" for layer x
    unfolding ffn_sublayer_def Let_def
    by (rule costs_cong, (rule costs_intros assms)+) (simp add: add4_def)
  have layer: "costs (decoder_layer lm (recording_accelerator lm) why norm act cfg w kvd kvm hs pos p l) (7, c_n_heads cfg, 2 * rn, sl)"
    for kvd kvm hs p l
    unfolding decoder_layer_def split_def
    by (rule costs_cong, (rule costs_intros att ffn)+) (simp add: add4_def)
  show ?thesis
    unfolding decoder_step_def lm_head_def Let_def
    by (rule costs_cong, (rule costs_intros layer assms)+) (simp add: add4_def)
qed

subsection \<open>Properties\<close>



end
