(* ===== verification/DecodeOk.thy ===== *)
theory DecodeOk
  imports Forward
begin

text \<open>
  Total correctness of the dense forward passes: for a well-formed model and state a decode step
  returns logits over the vocabulary and changes only the cache rows of its own position.
\<close>

subsection \<open>Tensors of a known shape\<close>

definition has_dims :: "tensor \<Rightarrow> nat list \<Rightarrow> bool" where
  "has_dims t ds \<longleftrightarrow> prod_list ds \<le> usize_max \<and> (\<exists>xs. length xs = prod_list ds \<and> f32_tensor t xs ds)"

lemma has_dimsE:
  assumes "has_dims t ds"
  obtains xs where "f32_tensor t xs ds" "length xs = prod_list ds" "prod_list ds \<le> usize_max"
  using assms by (auto simp: has_dims_def)

lemma has_dimsI: "f32_tensor t xs ds \<Longrightarrow> prod_list ds \<le> usize_max \<Longrightarrow> has_dims t ds"
  using f32_tensor_numel by (auto simp: has_dims_def)

lemma as_f32_oks: "has_dims t ds \<Longrightarrow> oks (tensor_as_f32 why t) (\<lambda>xs. length xs = prod_list ds)"
  by (auto simp: tensor_as_f32_def f32_tensorD elim!: has_dimsE)

lemma slice_to_tensor_oks:
  assumes "length ds \<le> MAX_RANK" and "length xs = prod_list ds" and "prod_list ds \<le> usize_max"
  shows "oks (slice_to_tensor xs ds) (\<lambda>t. has_dims t ds)"
proof -
  obtain s where s: "shape_new ds = Ok s" using assms(1) by (simp add: shape_new_eq)
  have "length xs = numel s" using assms(2,3) shape_new_dims [OF s] by (simp add: numel_eq)
  then obtain t where "tensor_from_f32 xs s = Ok t" "f32_tensor t xs (shape_dims s)"
    using tensor_from_f32_Ok [OF shape_new_ok [OF s]] by metis
  then show ?thesis using s shape_new_dims [OF s] assms(3) by (auto simp: slice_to_tensor_def intro: has_dimsI)
qed

lemma reshape_oks:
  assumes "has_dims t ds" and "prod_list ds = n" and "n \<le> usize_max"
  shows "oks (xb_to_2d why t n) (\<lambda>t. has_dims t [1, n])" and "oks (squeeze_to_1d why t n) (\<lambda>t. has_dims t [n])"
proof -
  have rank: "length [1, n] \<le> MAX_RANK" "length [n] \<le> MAX_RANK" by (simp_all add: MAX_RANK_def)
  show "oks (xb_to_2d why t n) (\<lambda>t. has_dims t [1, n])"
    unfolding xb_to_2d_def
    by (rule oks_bind [OF as_f32_oks [OF assms(1)]], rule slice_to_tensor_oks [OF rank(1), unfolded slice_to_tensor_def])
      (use assms in simp_all)
  show "oks (squeeze_to_1d why t n) (\<lambda>t. has_dims t [n])"
    unfolding squeeze_to_1d_def
    by (rule oks_bind [OF as_f32_oks [OF assms(1)]], rule slice_to_tensor_oks [OF rank(2), unfolded slice_to_tensor_def])
      (use assms in simp_all)
qed

lemma flat_le: "i < (m::nat) \<Longrightarrow> j < n \<Longrightarrow> m * n \<le> N \<Longrightarrow> i * n + j < N"
  using row_bound by (meson less_le_trans)

lemma wrap_flat: "i < m \<Longrightarrow> j < n \<Longrightarrow> m * n \<le> usize_max \<Longrightarrow> wrap_add (wrap_mul i n) j = i * n + j"
  using flat_le [of i m j n usize_max] by (simp add: wrap_add_small)

lemma transpose_oks:
  assumes "has_dims t [rows, cols]"
  shows "oks (transpose_2d why t rows cols) (\<lambda>t. has_dims t [cols, rows])"
proof -
  have N: "rows * cols \<le> usize_max" using assms by (simp add: has_dims_def)
  have "oks (oloop (\<lambda>buf r. oloop (\<lambda>buf c. obind (oget src (wrap_add (wrap_mul r cols) c)) (oset buf (wrap_add (wrap_mul c rows) r)))
         [0..<cols] buf) [0..<rows] (replicate (wrap_mul rows cols) 0)) (\<lambda>buf. length buf = rows * cols)"
    if src: "length src = rows * cols" for src :: "f32 list"
  proof (intro oks_loop)
    show "length (replicate (wrap_mul rows cols) 0) = rows * cols" using N by simp
    fix buf buf' :: "f32 list" and r c
    assume "r \<in> set [0..<rows]" "c \<in> set [0..<cols]" and b: "length buf' = rows * cols"
    then have "r < rows" "c < cols" by auto
    then show "oks (obind (oget src (wrap_add (wrap_mul r cols) c)) (oset buf' (wrap_add (wrap_mul c rows) r))) (\<lambda>b. length b = rows * cols)"
      using wrap_flat [of r rows c cols] wrap_flat [of c cols r rows] flat_le [of r rows c cols "rows * cols"]
        flat_le [of c cols r rows "rows * cols"] N src b by (simp add: mult.commute)
  qed
  then show ?thesis unfolding transpose_2d_def
    by (intro oks_bind [OF as_f32_oks [OF assms]] oks_bind
        slice_to_tensor_oks [of "[cols, rows]", unfolded slice_to_tensor_def])
      (use N in \<open>simp_all add: MAX_RANK_def mult.commute\<close>)
qed

subsection \<open>The tensor operations\<close>

lemma matmul_oks:
  assumes "has_dims l [m, k]" and "has_dims r [k, n]" and "m * n \<le> usize_max"
  shows "oks (matmul l r) (\<lambda>t. has_dims t [m, n])"
proof -
  obtain a b where *: "f32_tensor l a [m, k]" "f32_tensor r b [k, n]" "m * k \<le> usize_max" "k * n \<le> usize_max"
    using assms by (auto elim!: has_dimsE)
  show ?thesis by (rule matmul_Ok [OF * assms(3)]) (use assms(3) in \<open>auto intro: has_dimsI\<close>)
qed

lemma softmax_oks: "has_dims t [n] \<Longrightarrow> 0 < n \<Longrightarrow> oks (softmax_last_dim lm t) (\<lambda>t. has_dims t [n])"
proof (elim has_dimsE)
  fix xs assume *: "f32_tensor t xs [n]" "prod_list [n] \<le> usize_max" and "0 < n"
  show ?thesis by (rule softmax_last_dim_Ok [OF *, where lm = lm]) (use * \<open>0 < n\<close> in \<open>auto intro: has_dimsI\<close>)
qed

lemma rms_norm_oks:
  assumes "has_dims x [n]" and "has_dims w [n]" and "0 < n"
  shows "oks (rms_norm lm x w eps) (\<lambda>t. has_dims t [n])"
proof -
  obtain xs ws where *: "f32_tensor x xs [n]" "f32_tensor w ws [n]" "length ws = n" "n \<le> usize_max"
    using assms by (auto elim!: has_dimsE)
  have d: "prod_list [n] \<le> usize_max" "[n] \<noteq> []" "0 < last [n]" "length ws = last [n]" using * assms(3) by auto
  obtain t where "rms_norm_slice lm x ws eps = Ok t" "has_dims t [n]"
    by (rule rms_norm_slice_Ok [OF *(1) d, where lm = lm and eps = eps]) (blast intro: that has_dimsI [OF _ d(1)])
  then show ?thesis using f32_tensorD [OF *(1)] f32_tensorD [OF *(2)] by (simp add: rms_norm_def)
qed

lemma unary_oks: "has_dims t ds \<Longrightarrow> oks (unary_apply t op f) (\<lambda>t. has_dims t ds)"
proof (elim has_dimsE)
  fix xs assume *: "f32_tensor t xs ds" "length xs = prod_list ds" "prod_list ds \<le> usize_max"
  note D = f32_tensorD [OF *(1)]
  obtain u where "tensor_from_f32 (map f xs) (t_shape t) = Ok u" "f32_tensor u (map f xs) ds"
    using tensor_from_f32_Ok [OF D(9), of "map f xs"] D(3,7) by (metis length_map)
  then show ?thesis using D *(3) by (auto simp: unary_apply_def intro: has_dimsI)
qed

lemma binary_oks:
  assumes "has_dims l ds" and "has_dims r ds"
  shows "oks (binary_op op f l r) (\<lambda>t. has_dims t ds)"
proof -
  obtain xs ys where *: "f32_tensor l xs ds" "f32_tensor r ys ds" "length xs = prod_list ds" "length ys = prod_list ds"
      "prod_list ds \<le> usize_max"
    using assms by (auto elim!: has_dimsE)
  note L = f32_tensorD [OF *(1)] and R = f32_tensorD [OF *(2)]
  have "length (map2 f xs ys) = numel (t_shape l)" using *(3,4) L(7) by simp
  then obtain u where "tensor_from_f32 (map2 f xs ys) (t_shape l) = Ok u" "f32_tensor u (map2 f xs ys) ds"
    using tensor_from_f32_Ok [OF L(9)] L(3) by metis
  then show ?thesis using L R *(5)
    by (auto simp: binary_op_def check_compatible_def same_device_iff binary_apply_def intro: has_dimsI)
qed

lemma gemma_row_oks:
  "length ws = length row \<Longrightarrow> oks (gemma_row lm ws eps row) (\<lambda>v. length v = length row)"
  unfolding gemma_row_def Let_def by (subst omapM_Ok) auto

lemma gemma_rms_norm_oks:
  assumes "has_dims x [n]" and "has_dims w [n]" and "0 < n"
  shows "oks (gemma_rms_norm lm x w eps) (\<lambda>t. has_dims t [n])"
proof -
  obtain xs ws where *: "f32_tensor x xs [n]" "f32_tensor w ws [n]" "length xs = n" "length ws = n" "n \<le> usize_max"
    using assms by (auto elim!: has_dimsE)
  note X = f32_tensorD [OF *(1)] and Wt = f32_tensorD [OF *(2)]
  obtain v where v: "gemma_row lm ws eps xs = Ok v" "length v = n"
    using gemma_row_oks [of ws xs lm eps] *(3,4) by (auto simp: oks_def)
  have "length v = numel (t_shape x)" using v(2) X(7) *(3) by simp
  then obtain u where "tensor_from_f32 v (t_shape x) = Ok u" "f32_tensor u v [n]"
    using tensor_from_f32_Ok [OF X(9)] X(3) by metis
  moreover have "splice (replicate n 0) 0 v = v" using v(2) by (simp add: splice_def)
  ultimately show ?thesis using X Wt v assms(3) *(3,5)
    by (auto simp: gemma_rms_norm_def tensor_as_f32_def odiv_def oslice_def slice_def intro: has_dimsI)
qed

subsection \<open>Well-formed models and states\<close>

definition hs_of :: "Config \<Rightarrow> nat" where "hs_of cfg = c_dim cfg div c_n_heads cfg"
definition kvd_of :: "Config \<Rightarrow> nat" where "kvd_of cfg = c_n_kv_heads cfg * hs_of cfg"
definition kvm_of :: "Config \<Rightarrow> nat" where "kvm_of cfg = c_n_heads cfg div c_n_kv_heads cfg"

text \<open>Grouped heads of an even size.\<close>

definition heads_ok :: "Config \<Rightarrow> bool" where
  "heads_ok cfg \<longleftrightarrow> 0 < c_dim cfg \<and> 0 < c_n_heads cfg \<and> 0 < c_n_kv_heads cfg \<and> c_n_kv_heads cfg dvd c_n_heads cfg \<and>
     c_n_heads cfg dvd c_dim cfg \<and> even (hs_of cfg)"

definition cache_size :: "Config \<Rightarrow> nat" where
  "cache_size cfg = c_n_layers cfg * c_seq_len cfg * kvd_of cfg"

text \<open>No array of the model is larger than the address space.\<close>

definition sizes_ok :: "Config \<Rightarrow> bool" where
  "sizes_ok cfg \<longleftrightarrow> (let L = c_n_layers cfg; dm = c_dim cfg; hd = c_hidden_dim cfg in
     c_vocab_size cfg * dm \<le> usize_max \<and> dm * dm \<le> usize_max \<and> hd * dm \<le> usize_max \<and>
     L * (dm * dm) \<le> usize_max \<and> L * (hd * dm) \<le> usize_max \<and> cache_size cfg \<le> usize_max)"

definition weights_ok :: "Config \<Rightarrow> Weights \<Rightarrow> bool" where
  "weights_ok cfg w \<longleftrightarrow> (let L = c_n_layers cfg; dm = c_dim cfg; hd = c_hidden_dim cfg; kvd = kvd_of cfg in
     length (w_token_embedding_table w) = c_vocab_size cfg * dm \<and> length (w_rms_att_weight w) = L * dm \<and>
     length (w_wq w) = L * (dm * dm) \<and> length (w_wk w) = L * (kvd * dm) \<and> length (w_wv w) = L * (kvd * dm) \<and>
     length (w_wo w) = L * (dm * dm) \<and> length (w_rms_ffn_weight w) = L * dm \<and>
     length (w_w1 w) = L * (hd * dm) \<and> length (w_w2 w) = L * (dm * hd) \<and> length (w_w3 w) = L * (hd * dm) \<and>
     length (w_rms_final_weight w) = dm \<and> length (w_wcls w) = c_vocab_size cfg * dm)"

definition model_ok :: "Config \<Rightarrow> Weights \<Rightarrow> bool" where
  "model_ok cfg w \<longleftrightarrow> heads_ok cfg \<and> sizes_ok cfg \<and> weights_ok cfg w"

definition state_ok :: "Config \<Rightarrow> RunState \<Rightarrow> bool" where
  "state_ok cfg st \<longleftrightarrow> length (rs_key_cache st) = cache_size cfg \<and> length (rs_value_cache st) = cache_size cfg"

text \<open>
  A cache row that does not belong to the position is unchanged: entry \<open>i\<close> is in the row of
  position \<open>i div kv_dim mod seq_len\<close>.
\<close>

definition kept :: "Config \<Rightarrow> nat \<Rightarrow> f32 list \<Rightarrow> f32 list \<Rightarrow> bool" where
  "kept cfg pos xs ys \<longleftrightarrow> length ys = length xs \<and> (\<forall>i. i div kvd_of cfg mod c_seq_len cfg \<noteq> pos \<longrightarrow> ys ! i = xs ! i)"

definition state_kept :: "Config \<Rightarrow> nat \<Rightarrow> RunState \<Rightarrow> RunState \<Rightarrow> bool" where
  "state_kept cfg pos st st' \<longleftrightarrow> kept cfg pos (rs_key_cache st) (rs_key_cache st') \<and>
     kept cfg pos (rs_value_cache st) (rs_value_cache st') \<and> rs_regime st' = rs_regime st"

lemma kept_refl [simp]: "kept cfg pos xs xs"
  by (simp add: kept_def)

lemma kept_trans: "kept cfg pos xs ys \<Longrightarrow> kept cfg pos ys zs \<Longrightarrow> kept cfg pos xs zs"
  by (simp add: kept_def)

lemma state_kept_refl [simp]: "state_kept cfg pos st st"
  by (simp add: state_kept_def)

lemma state_kept_trans: "state_kept cfg pos a b \<Longrightarrow> state_kept cfg pos b c \<Longrightarrow> state_kept cfg pos a c"
  by (auto simp: state_kept_def intro: kept_trans)

lemma kept_update:
  "i div kvd_of cfg mod c_seq_len cfg = pos \<Longrightarrow> kept cfg pos xs ys \<Longrightarrow> kept cfg pos xs (ys[i := v])"
  unfolding kept_def by (metis length_list_update nth_list_update_neq)

lemma kept_splice:
  assumes "\<And>j. j < length vals \<Longrightarrow> (off + j) div kvd_of cfg mod c_seq_len cfg = pos" and "off + length vals \<le> length xs"
  shows "kept cfg pos xs (splice xs off vals)"
  unfolding kept_def
proof (intro conjI allI impI)
  show "length (splice xs off vals) = length xs" using assms(2) by simp
  fix i assume i: "i div kvd_of cfg mod c_seq_len cfg \<noteq> pos"
  have "\<not> (off \<le> i \<and> i < off + length vals)"
    using assms(1) [of "i - off"] i by (metis add_diff_inverse_nat less_diff_conv2 not_le add.commute)
  then show "splice xs off vals ! i = xs ! i" using assms(2)
    by (auto simp: splice_def nth_append)
qed

lemma state_ok_kept: "state_ok cfg st \<Longrightarrow> state_kept cfg pos st st' \<Longrightarrow> state_ok cfg st'"
  by (simp add: state_ok_def state_kept_def kept_def)

text \<open>The dimensions the step derives.\<close>

lemma heads_facts:
  assumes "heads_ok cfg"
  shows "c_n_heads cfg * hs_of cfg = c_dim cfg" "0 < hs_of cfg" "0 < kvm_of cfg" "0 < kvd_of cfg" "kvd_of cfg \<le> c_dim cfg"
    "even (kvd_of cfg)" "even (c_dim cfg)" and "h < c_n_heads cfg \<Longrightarrow> h div kvm_of cfg < c_n_kv_heads cfg"
proof -
  show d: "c_n_heads cfg * hs_of cfg = c_dim cfg" using assms by (simp add: heads_ok_def hs_of_def)
  show "0 < hs_of cfg" using d assms by (metis heads_ok_def gr0I mult_0_right less_not_refl)
  then show "0 < kvd_of cfg" using assms by (simp add: kvd_of_def heads_ok_def)
  have g: "c_n_kv_heads cfg * kvm_of cfg = c_n_heads cfg" using assms by (simp add: kvm_of_def heads_ok_def)
  then show "0 < kvm_of cfg" using assms by (metis heads_ok_def gr0I mult_0_right less_not_refl)
  have "c_n_kv_heads cfg \<le> c_n_heads cfg" using assms by (simp add: heads_ok_def dvd_imp_le)
  then show "kvd_of cfg \<le> c_dim cfg" using d mult_le_mono1 [of "c_n_kv_heads cfg" "c_n_heads cfg" "hs_of cfg"] by (simp add: kvd_of_def)
  show "even (kvd_of cfg)" using assms by (simp add: kvd_of_def heads_ok_def)
  show "even (c_dim cfg)" using assms d by (metis heads_ok_def dvd_mult)
  show "h div kvm_of cfg < c_n_kv_heads cfg" if "h < c_n_heads cfg"
    using that g by (simp add: less_mult_imp_div_less)
qed

lemma step_dims:
  assumes "heads_ok cfg" and "sizes_ok cfg"
  shows "kv_dim cfg = Ok (kvd_of cfg)" "kv_mul cfg = Ok (kvm_of cfg)" "head_size cfg = Ok (hs_of cfg)"
proof -
  have "c_n_kv_heads cfg \<le> c_n_heads cfg" "c_n_heads cfg \<le> c_dim cfg"
    using assms(1) by (simp_all add: heads_ok_def dvd_imp_le)
  then have "c_dim cfg * c_n_kv_heads cfg \<le> c_dim cfg * c_dim cfg" by (intro mult_le_mono2) simp
  moreover have "c_dim cfg * c_dim cfg \<le> usize_max" using assms(2) by (simp add: sizes_ok_def Let_def)
  ultimately have "c_dim cfg * c_n_kv_heads cfg \<le> usize_max" by (rule le_trans)
  moreover have "c_dim cfg * c_n_kv_heads cfg div c_n_heads cfg = kvd_of cfg"
  proof -
    have "c_dim cfg * c_n_kv_heads cfg = c_n_heads cfg * kvd_of cfg"
      using heads_facts(1) [OF assms(1)] by (metis kvd_of_def mult.commute mult.assoc)
    then show ?thesis using assms(1) by (simp add: heads_ok_def)
  qed
  ultimately show "kv_dim cfg = Ok (kvd_of cfg)" "kv_mul cfg = Ok (kvm_of cfg)" "head_size cfg = Ok (hs_of cfg)"
    using assms(1) by (simp_all add: kv_dim_def kv_mul_def head_size_def odiv_def heads_ok_def kvm_of_def hs_of_def)
qed


subsection \<open>The steps of a layer\<close>

lemma layer_slice_oks:
  assumes "layer < L" and "length ws = L * n" and "L * n \<le> usize_max"
  shows "oks (layer_slice ws layer n) (\<lambda>d. length d = n)"
proof -
  have "(layer + 1) * n \<le> L * n" using assms(1) by (intro mult_le_mono1) simp
  moreover have "layer * n \<le> (layer + 1) * n" by simp
  ultimately show ?thesis using assms(2,3) by (simp add: layer_slice_def add.commute)
qed

lemma layer_vector_oks:
  assumes "layer < L" and "length ws = L * n" and "L * n \<le> usize_max" and "n \<le> usize_max"
  shows "oks (layer_vector ws layer n) (\<lambda>t. has_dims t [n])"
  unfolding layer_vector_def
  by (rule oks_bind [OF layer_slice_oks [OF assms(1-3)]], rule slice_to_tensor_oks)
    (use assms(4) in \<open>simp_all add: MAX_RANK_def\<close>)

lemma layer_matrix_oks:
  assumes "layer < L" and "length ws = L * (rows * cols)" and "L * (rows * cols) \<le> usize_max" and "rows * cols \<le> usize_max"
  shows "oks (layer_matrix_t why ws layer rows cols) (\<lambda>t. has_dims t [cols, rows])"
proof -
  have "wrap_mul rows cols = rows * cols" using assms(4) by simp
  then have "oks (layer_slice ws layer (wrap_mul rows cols)) (\<lambda>d. length d = rows * cols)"
    using layer_slice_oks [OF assms(1-3)] by simp
  then show ?thesis unfolding layer_matrix_t_def
    by (rule oks_bind, intro oks_bind [OF slice_to_tensor_oks] transpose_oks)
      (use assms(4) in \<open>simp_all add: MAX_RANK_def\<close>)
qed

text \<open>Where a row of the cache is.\<close>

lemma cache_row_bound:
  assumes "l < c_n_layers cfg" and "t < c_seq_len cfg"
  shows "(l * c_seq_len cfg + t) * kvd_of cfg + kvd_of cfg \<le> cache_size cfg"
  unfolding cache_size_def using row_bound_le [of "l * c_seq_len cfg + t" "c_n_layers cfg * c_seq_len cfg" "kvd_of cfg"]
    row_bound [OF assms] by simp

lemma kv_offset_eq:
  assumes "l < c_n_layers cfg" and "t < c_seq_len cfg" and "cache_size cfg \<le> usize_max"
  shows "kv_offset cfg (kvd_of cfg) l t = (l * c_seq_len cfg + t) * kvd_of cfg"
proof -
  have eq: "(l * c_seq_len cfg + t) * kvd_of cfg = l * c_seq_len cfg * kvd_of cfg + t * kvd_of cfg"
    by (simp add: add_mult_distrib)
  then have b: "l * c_seq_len cfg * kvd_of cfg + t * kvd_of cfg \<le> usize_max"
    using cache_row_bound [OF assms(1,2)] assms(3) by linarith
  have "wrap_mul (wrap_mul l (c_seq_len cfg)) (kvd_of cfg) = l * c_seq_len cfg * kvd_of cfg"
    using wrap_mul_fits(2) [of "l * c_seq_len cfg * kvd_of cfg" l "c_seq_len cfg" "kvd_of cfg"] b by simp
  then show ?thesis unfolding kv_offset_def using b eq by simp
qed

lemma cache_row_pos:
  assumes "t < c_seq_len cfg" and "j < kvd_of cfg"
  shows "((l * c_seq_len cfg + t) * kvd_of cfg + j) div kvd_of cfg mod c_seq_len cfg = t"
  using assms by simp

lemma head_offset_oks:
  assumes "heads_ok cfg" and "cache_size cfg \<le> usize_max" and "l < c_n_layers cfg" and "t < c_seq_len cfg" and "h < c_n_heads cfg"
  shows "oks (head_offset cfg (kvd_of cfg) (kvm_of cfg) (hs_of cfg) l t h) (\<lambda>v. v + hs_of cfg \<le> cache_size cfg)"
proof -
  note F = heads_facts [OF assms(1)]
  let ?g = "h div kvm_of cfg" and ?o = "(l * c_seq_len cfg + t) * kvd_of cfg"
  have g: "?g * hs_of cfg + hs_of cfg \<le> kvd_of cfg"
    using row_bound_le [OF F(8) [OF assms(5)], of "hs_of cfg"] by (simp add: kvd_of_def)
  then have le: "?o + ?g * hs_of cfg + hs_of cfg \<le> cache_size cfg"
    using cache_row_bound [OF assms(3,4)] by linarith
  then have "?o + ?g * hs_of cfg \<le> usize_max" "?g * hs_of cfg \<le> usize_max" using assms(2) by linarith+
  then have "wrap_add ?o (wrap_mul ?g (hs_of cfg)) = ?o + ?g * hs_of cfg" by simp
  then show ?thesis using le F(3) by (simp add: head_offset_def odiv_def kv_offset_eq [OF assms(3,4,2)])
qed

lemma ocopy_oks: "a + length src = b \<Longrightarrow> b \<le> length dst \<Longrightarrow> oks (ocopy dst a b src) (\<lambda>d. d = splice dst a src)"
  by (auto simp: ocopy_def)

lemma store_kv_oks:
  assumes "state_ok cfg st" and "cache_size cfg \<le> usize_max" and "l < c_n_layers cfg" and "pos < c_seq_len cfg"
    and "has_dims k [1, kvd_of cfg]" and "has_dims v [1, kvd_of cfg]"
  shows "oks (store_kv why (kv_offset cfg (kvd_of cfg) l pos) (kvd_of cfg) k v st) (state_kept cfg pos st)"
proof -
  let ?o = "(l * c_seq_len cfg + pos) * kvd_of cfg"
  have b: "?o + kvd_of cfg \<le> cache_size cfg" by (rule cache_row_bound [OF assms(3,4)])
  have w: "wrap_add ?o (kvd_of cfg) = ?o + kvd_of cfg" using b assms(2) by simp
  have s: "kept cfg pos xs (splice xs ?o vals)" if "length vals = kvd_of cfg" "length xs = cache_size cfg" for xs vals
    by (rule kept_splice) (use that b assms(4) cache_row_pos in auto)
  have len: "length (rs_key_cache st) = cache_size cfg" "length (rs_value_cache st) = cache_size cfg"
    using assms(1) by (simp_all add: state_ok_def)
  show ?thesis unfolding store_kv_def kv_offset_eq [OF assms(3,4,2)] w
    by (intro oks_bind [OF as_f32_oks [OF assms(5)]] oks_bind [OF as_f32_oks [OF assms(6)]] oks_bind [OF ocopy_oks])
      (use b len s in \<open>simp_all add: state_kept_def\<close>)
qed

lemma rotate_pair_oks:
  assumes "i < length xs" and "j < length xs"
  shows "oks (rotate_pair c s xs i j) (\<lambda>ys. length ys = length xs \<and> (\<exists>a b. ys = xs[i := a, j := b]))"
  using assms by (auto simp: rotate_pair_def)

lemma evens_below: "even n \<Longrightarrow> i \<in> set (evens_below n) \<Longrightarrow> i + 1 < n \<and> even i"
  by (auto simp: evens_below_def elim!: evenE)

lemma rope_interleaved_oks:
  assumes "heads_ok cfg" and "cache_size cfg \<le> usize_max" and "l < c_n_layers cfg" and "pos < c_seq_len cfg"
    and "length q = c_dim cfg" and "length kc = cache_size cfg"
  shows "oks (rope_interleaved lm theta (hs_of cfg) pos (kvd_of cfg) (kv_offset cfg (kvd_of cfg) l pos) (c_dim cfg) q kc)
    (\<lambda>(q', kc'). length q' = c_dim cfg \<and> kept cfg pos kc kc')"
  unfolding rope_interleaved_def
proof (rule oks_loop)
  show "case (q, kc) of (q', kc') \<Rightarrow> length q' = c_dim cfg \<and> kept cfg pos kc kc'" using assms(5) by simp
next
  fix p :: "f32 list \<times> f32 list" and i assume i: "i \<in> set (evens_below (c_dim cfg))" and "case p of (q', kc') \<Rightarrow> length q' = c_dim cfg \<and> kept cfg pos kc kc'"
  then obtain q' kc' where p: "p = (q', kc')" "length q' = c_dim cfg" "kept cfg pos kc kc'" by (cases p) auto
  note F = heads_facts [OF assms(1)]
  let ?o = "(l * c_seq_len cfg + pos) * kvd_of cfg"
  let ?P = "\<lambda>(q', kc'). length q' = c_dim cfg \<and> kept cfg pos kc kc'"
  have b: "?o + kvd_of cfg \<le> cache_size cfg" by (rule cache_row_bound [OF assms(3,4)])
  have i1: "i + 1 < c_dim cfg" "even i" using evens_below [OF F(7) i] by auto
  have k: "oks (rotate_pair c s kc' (wrap_add ?o i) (wrap_add (wrap_add ?o i) 1)) (kept cfg pos kc)" if "i < kvd_of cfg" for c s
  proof -
    have i2: "i + 1 < kvd_of cfg" using that i1(2) F(6) by (metis Suc_eq_plus1 Suc_lessI even_Suc)
    then have le: "?o + i + 1 \<le> usize_max" using b assms(2) by linarith
    then have w: "wrap_add ?o i = ?o + i" "wrap_add (?o + i) 1 = ?o + (i + 1)" by simp_all
    have len: "?o + (i + 1) < length kc'" using i2 b p(3) assms(6) by (simp add: kept_def)
    have u: "(?o + i) div kvd_of cfg mod c_seq_len cfg = pos" "(?o + (i + 1)) div kvd_of cfg mod c_seq_len cfg = pos"
      by (rule cache_row_pos [OF assms(4) that], rule cache_row_pos [OF assms(4) i2])
    show ?thesis unfolding w
      by (rule oks_mono [OF rotate_pair_oks]) (use len kept_update [OF u(2) kept_update [OF u(1) p(3)]] in auto)
  qed
  show "oks (rope_step lm theta (hs_of cfg) pos (kvd_of cfg) (kv_offset cfg (kvd_of cfg) l pos) p i) ?P"
    unfolding rope_step_def p(1) kv_offset_eq [OF assms(3,4,2)] Let_def prod.case
    using F(2) i1 p k
    by (auto intro!: oks_bind [OF rotate_pair_oks] oks_map elim!: oks_mono)
qed


lemma head_index:
  assumes "heads_ok cfg" and "sizes_ok cfg" and "h < c_n_heads cfg" and "d < hs_of cfg"
  shows "wrap_add (wrap_mul h (hs_of cfg)) d = h * hs_of cfg + d" and "h * hs_of cfg + d < c_dim cfg"
proof -
  have D: "c_n_heads cfg * hs_of cfg = c_dim cfg" "0 < c_dim cfg" "c_dim cfg * c_dim cfg \<le> usize_max"
    using heads_facts(1) [OF assms(1)] assms(1,2) by (simp_all add: heads_ok_def sizes_ok_def Let_def)
  then have "c_dim cfg \<le> usize_max" using order.trans [OF _ D(3), of "c_dim cfg"] by simp
  then show "wrap_add (wrap_mul h (hs_of cfg)) d = h * hs_of cfg + d" "h * hs_of cfg + d < c_dim cfg"
    using wrap_flat [OF assms(3,4)] flat_le [OF assms(3,4)] D(1) by simp_all
qed

lemma attn_scores_oks:
  assumes "heads_ok cfg" and "sizes_ok cfg" and "l < c_n_layers cfg" and "pos < c_seq_len cfg" and "h < c_n_heads cfg"
    and "length q = c_dim cfg" and "length kc = cache_size cfg" and "pos + 1 \<le> usize_max"
  shows "oks (attn_scores lm cfg (kvd_of cfg) (kvm_of cfg) (hs_of cfg) l pos h q kc) (\<lambda>att. length att = pos + 1)"
  unfolding attn_scores_def
proof (rule oks_loop)
  show "length (replicate (wrap_add pos 1) 0) = pos + 1" using assms(8) by simp
next
  fix att :: "f32 list" and t assume t: "t \<in> set [0..<pos + 1]" and att: "length att = pos + 1"
  have C: "cache_size cfg \<le> usize_max" using assms(2) by (simp add: sizes_ok_def Let_def)
  have "oks (attn_score lm q kc (wrap_mul h (hs_of cfg)) k_off (hs_of cfg)) (\<lambda>_. True)"
    if "k_off + hs_of cfg \<le> cache_size cfg" for k_off
    unfolding attn_score_def
  proof (intro oks_map oks_loop)
    fix score d assume "d \<in> set [0..<hs_of cfg]"
    then have d: "d < hs_of cfg" by simp
    then have "wrap_add k_off d = k_off + d" "k_off + d < length kc" using that C assms(7) by simp_all
    then show "oks (obind (oget q (wrap_add (wrap_mul h (hs_of cfg)) d)) (\<lambda>a. obind (oget kc (wrap_add k_off d)) (\<lambda>b.
          Ok (f32_add score (f32_mul a b))))) (\<lambda>_. True)"
      using head_index [OF assms(1,2,5) d] assms(6) by simp
  qed simp
  then show "oks (obind (head_offset cfg (kvd_of cfg) (kvm_of cfg) (hs_of cfg) l t h) (\<lambda>k_off.
      obind (attn_score lm q kc (wrap_mul h (hs_of cfg)) k_off (hs_of cfg)) (oset att t))) (\<lambda>att. length att = pos + 1)"
    using t att assms(4) by (intro oks_bind [OF head_offset_oks [OF assms(1) C assms(3) _ assms(5)]] oks_bind) auto
qed

lemma attn_values_oks:
  assumes "heads_ok cfg" and "sizes_ok cfg" and "l < c_n_layers cfg" and "pos < c_seq_len cfg" and "h < c_n_heads cfg"
    and "length p = pos + 1" and "length vc = cache_size cfg" and "length xb = c_dim cfg"
  shows "oks (attn_values cfg (kvd_of cfg) (kvm_of cfg) (hs_of cfg) l pos h p vc xb) (\<lambda>xb. length xb = c_dim cfg)"
  unfolding attn_values_def
proof (rule oks_loop)
  fix xb :: "f32 list" and t assume t: "t \<in> set [0..<pos + 1]" and xb: "length xb = c_dim cfg"
  have C: "cache_size cfg \<le> usize_max" using assms(2) by (simp add: sizes_ok_def Let_def)
  have inner: "oks (oloop (\<lambda>xb d. obind (oget xb (wrap_add (wrap_mul h (hs_of cfg)) d)) (\<lambda>x. obind (oget vc (wrap_add v_off d)) (\<lambda>v.
             oset xb (wrap_add (wrap_mul h (hs_of cfg)) d) (f32_add x (f32_mul a v))))) [0..<hs_of cfg] xb) (\<lambda>xb. length xb = c_dim cfg)"
    if "v_off + hs_of cfg \<le> cache_size cfg" for v_off a
  proof (rule oks_loop)
    fix xb :: "f32 list" and d assume "d \<in> set [0..<hs_of cfg]" and xb: "length xb = c_dim cfg"
    then have d: "d < hs_of cfg" by simp
    then have "wrap_add v_off d = v_off + d" "v_off + d < length vc" using that C assms(7) by simp_all
    then show "oks (obind (oget xb (wrap_add (wrap_mul h (hs_of cfg)) d)) (\<lambda>x. obind (oget vc (wrap_add v_off d)) (\<lambda>v.
             oset xb (wrap_add (wrap_mul h (hs_of cfg)) d) (f32_add x (f32_mul a v))))) (\<lambda>xb. length xb = c_dim cfg)"
      using head_index [OF assms(1,2,5) d] xb by simp
  qed (rule xb)
  show "oks (obind (head_offset cfg (kvd_of cfg) (kvm_of cfg) (hs_of cfg) l t h) (\<lambda>v_off. obind (oget p t) (\<lambda>a.
         oloop (\<lambda>xb d. obind (oget xb (wrap_add (wrap_mul h (hs_of cfg)) d)) (\<lambda>x. obind (oget vc (wrap_add v_off d)) (\<lambda>v.
             oset xb (wrap_add (wrap_mul h (hs_of cfg)) d) (f32_add x (f32_mul a v))))) [0..<hs_of cfg] xb))) (\<lambda>xb. length xb = c_dim cfg)"
    using t assms(4,6) inner
    by (intro oks_bind [OF head_offset_oks [OF assms(1) C assms(3) _ assms(5)]] oks_bind [where P = "\<lambda>_. True"]) auto
qed (rule assms(8))

subsection \<open>Running on the CPU\<close>

text \<open>A computation that returns a value with a property; the accelerator has no state.\<close>

definition returns :: "(unit, error, 'x) accm \<Rightarrow> ('x \<Rightarrow> bool) \<Rightarrow> bool" where
  "returns m P \<longleftrightarrow> oks (omap fst (m ())) P"

lemma returns_bind: "returns m P \<Longrightarrow> (\<And>x. P x \<Longrightarrow> returns (f x) Q) \<Longrightarrow> returns (acc_bind m f) Q"
  by (cases "m ()") (auto simp: returns_def acc_bind_def oks_def [of "Err _"] oks_def [of Panic])

lemma returns_lift: "oks r P \<Longrightarrow> returns (acc_lift (cpu_accelerator lm) r) P"
  by (auto simp: returns_def acc_lift_def oks_def cpu_accelerator_def)

lemma returns_ret: "P x \<Longrightarrow> returns (\<lambda>s. Ok (x, s)) P"
  by (simp add: returns_def)

lemma returns_loop:
  assumes "\<And>x i. i \<in> set is \<Longrightarrow> P x \<Longrightarrow> returns (f x i) P" and "P x"
  shows "returns (acc_loop f is x) P"
  using assms by (induction "is" arbitrary: x) (auto simp: returns_def [of "\<lambda>s. Ok _"] intro!: returns_bind [where P = P])

lemma returns_op:
  "oks (matmul l r) P \<Longrightarrow> returns (acc_matmul (cpu_accelerator lm) l r) P"
  "oks (softmax_last_dim lm t) P \<Longrightarrow> returns (acc_softmax (cpu_accelerator lm) t) P"
  "oks (rms_norm lm t u eps) P \<Longrightarrow> returns (acc_rms_norm (cpu_accelerator lm) t u eps) P"
  "oks (silu lm t) P \<Longrightarrow> returns (acc_silu (cpu_accelerator lm) t) P"
  by (auto simp: returns_def oks_def cpu_accelerator_def)

lemma attn_head_returns:
  assumes "heads_ok cfg" and "sizes_ok cfg" and "l < c_n_layers cfg" and "pos < c_seq_len cfg" and "h < c_n_heads cfg"
    and "length q = c_dim cfg" and "length kc = cache_size cfg" and "length vc = cache_size cfg" and "length xb = c_dim cfg"
  shows "returns (attn_head lm (cpu_accelerator lm) why cfg (kvd_of cfg) (kvm_of cfg) (hs_of cfg) l pos q kc vc xb h)
    (\<lambda>xb. length xb = c_dim cfg)"
proof -
  note F = heads_facts [OF assms(1)]
  have "pos + 1 \<le> cache_size cfg"
  proof -
    have "c_seq_len cfg \<le> cache_size cfg" using F(4) assms(3) by (simp add: cache_size_def)
    then show ?thesis using assms(4) by linarith
  qed
  then have p: "pos + 1 \<le> usize_max" using assms(2) by (simp add: sizes_ok_def Let_def)
  show ?thesis unfolding attn_head_def
  proof (intro returns_bind [where P = "\<lambda>t. has_dims t [pos + 1]"] returns_lift returns_op)
    show "oks (obind (attn_scores lm cfg (kvd_of cfg) (kvm_of cfg) (hs_of cfg) l pos h q kc)
         (\<lambda>att. slice_to_tensor att [wrap_add pos 1])) (\<lambda>t. has_dims t [pos + 1])"
      by (rule oks_bind [OF attn_scores_oks [OF assms(1-7) p]]) (use p slice_to_tensor_oks in \<open>auto simp: MAX_RANK_def\<close>)
    show "oks (softmax_last_dim lm t) (\<lambda>t. has_dims t [pos + 1])" if "has_dims t [pos + 1]" for t
      by (rule softmax_oks) (use that in auto)
    show "oks (obind (tensor_as_f32 why t) (\<lambda>p. attn_values cfg (kvd_of cfg) (kvm_of cfg) (hs_of cfg) l pos h p vc xb))
        (\<lambda>xb. length xb = c_dim cfg)" if "has_dims t [pos + 1]" for t
      by (rule oks_bind [OF as_f32_oks [OF that]], rule attn_values_oks) (use assms in auto)
  qed
qed


subsection \<open>The sublayers return\<close>

lemma sizes_facts:
  assumes "sizes_ok cfg" and "heads_ok cfg" and "l < c_n_layers cfg"
  shows "c_dim cfg \<le> usize_max" "c_n_layers cfg * c_dim cfg \<le> usize_max" "kvd_of cfg * c_dim cfg \<le> usize_max"
    "c_n_layers cfg * (kvd_of cfg * c_dim cfg) \<le> usize_max" "c_hidden_dim cfg \<le> usize_max" "cache_size cfg \<le> usize_max"
    "c_dim cfg * c_dim cfg \<le> usize_max" "c_hidden_dim cfg * c_dim cfg \<le> usize_max" "c_dim cfg * c_hidden_dim cfg \<le> usize_max"
    "c_n_layers cfg * (c_dim cfg * c_dim cfg) \<le> usize_max" "c_n_layers cfg * (c_hidden_dim cfg * c_dim cfg) \<le> usize_max"
    "c_n_layers cfg * (c_dim cfg * c_hidden_dim cfg) \<le> usize_max" "kvd_of cfg \<le> usize_max"
proof -
  have D: "0 < c_dim cfg" "kvd_of cfg \<le> c_dim cfg" using heads_facts(5) [OF assms(2)] assms(2) by (simp_all add: heads_ok_def)
  show S: "c_dim cfg * c_dim cfg \<le> usize_max" "c_hidden_dim cfg * c_dim cfg \<le> usize_max"
    "c_n_layers cfg * (c_dim cfg * c_dim cfg) \<le> usize_max" "c_n_layers cfg * (c_hidden_dim cfg * c_dim cfg) \<le> usize_max"
    "cache_size cfg \<le> usize_max"
    using assms(1) by (simp_all add: sizes_ok_def Let_def)
  then show "c_dim cfg * c_hidden_dim cfg \<le> usize_max" "c_n_layers cfg * (c_dim cfg * c_hidden_dim cfg) \<le> usize_max"
    by (simp_all add: mult.commute [of "c_dim cfg" "c_hidden_dim cfg"])
  have up: "a \<le> a * c_dim cfg" for a using D(1) by simp
  show "c_dim cfg \<le> usize_max" using up [of "c_dim cfg"] S(1) by linarith
  then show "kvd_of cfg \<le> usize_max" using D(2) by linarith
  show "c_hidden_dim cfg \<le> usize_max" using up [of "c_hidden_dim cfg"] S(2) by linarith
  show "c_n_layers cfg * c_dim cfg \<le> usize_max"
    using mult_le_mono2 [OF up [of "c_dim cfg"], of "c_n_layers cfg"] S(3) by linarith
  have kd: "kvd_of cfg * c_dim cfg \<le> c_dim cfg * c_dim cfg" using D(2) by simp
  then show "kvd_of cfg * c_dim cfg \<le> usize_max" using S(1) by linarith
  show "c_n_layers cfg * (kvd_of cfg * c_dim cfg) \<le> usize_max"
    using mult_le_mono2 [OF kd, of "c_n_layers cfg"] S(3) by linarith
qed

lemma rope_qk_oks:
  assumes "heads_ok cfg" and "sizes_ok cfg" and "l < c_n_layers cfg" and "pos < c_seq_len cfg"
    and "has_dims q [1, c_dim cfg]" and "state_ok cfg st"
  shows "oks (rope_qk lm why (hs_of cfg) pos (kvd_of cfg) (kv_offset cfg (kvd_of cfg) l pos) (c_dim cfg) q st)
    (\<lambda>(q, st'). length q = c_dim cfg \<and> state_kept cfg pos st st')"
proof -
  have C: "cache_size cfg \<le> usize_max" using assms(2) by (simp add: sizes_ok_def Let_def)
  have kc: "length (rs_key_cache st) = cache_size cfg" using assms(6) by (simp add: state_ok_def)
  have "oks (rope_interleaved lm f32_10000 (hs_of cfg) pos (kvd_of cfg) (kv_offset cfg (kvd_of cfg) l pos) (c_dim cfg) q (rs_key_cache st))
    (\<lambda>x. case (case x of (q, kc) \<Rightarrow> (q, st\<lparr>rs_key_cache := kc\<rparr>)) of (q, st') \<Rightarrow> length q = c_dim cfg \<and> state_kept cfg pos st st')"
    if "length q = prod_list [1, c_dim cfg]" for q
    by (rule oks_mono [OF rope_interleaved_oks [OF assms(1) C assms(3,4) _ kc]]) (use that in \<open>auto simp: state_kept_def\<close>)
  then show ?thesis unfolding rope_qk_def by (intro oks_bind [OF as_f32_oks [OF assms(5)]] oks_map)
qed

text \<open>One projection: the transposed rows of a layer, then the product.\<close>

lemma project_returns:
  assumes "has_dims x [1, cols]" and "layer < L" and "length ws = L * (rows * cols)" and "L * (rows * cols) \<le> usize_max"
    and "rows * cols \<le> usize_max" and "rows \<le> usize_max"
    and "\<And>y. has_dims y [1, rows] \<Longrightarrow> returns (f y) Q"
  shows "returns (acc_bind (acc_lift (cpu_accelerator lm) (layer_matrix_t why ws layer rows cols))
    (\<lambda>t. acc_bind (acc_matmul (cpu_accelerator lm) x t) f)) Q"
  by (rule returns_bind [OF returns_lift [OF layer_matrix_oks [OF assms(2-5)]]], rule returns_bind [OF returns_op(1)],
      rule matmul_oks [OF assms(1)]) (use assms(6,7) in simp_all)

lemma attention_returns:
  assumes "model_ok cfg w" and "l < c_n_layers cfg" and "pos < c_seq_len cfg" and "has_dims x [c_dim cfg]" and "state_ok cfg st"
    and norm: "\<And>x w. has_dims x [c_dim cfg] \<Longrightarrow> has_dims w [c_dim cfg] \<Longrightarrow> returns (norm x w) (\<lambda>t. has_dims t [c_dim cfg])"
  shows "returns (attention_sublayer lm (cpu_accelerator lm) why norm cfg w (kvd_of cfg) (kvm_of cfg) (hs_of cfg) pos l x st)
    (\<lambda>(x, st'). has_dims x [c_dim cfg] \<and> state_kept cfg pos st st')"
proof -
  have ok: "heads_ok cfg" "sizes_ok cfg" "weights_ok cfg w" using assms(1) by (simp_all add: model_ok_def)
  note W = ok(3) [unfolded weights_ok_def Let_def] and S = sizes_facts [OF ok(2,1) assms(2)]
  let ?dm = "c_dim cfg" and ?kvd = "kvd_of cfg"
  let ?st = "\<lambda>(q, st'). length q = ?dm \<and> state_kept cfg pos st st'"
  have store: "oks (obind (store_kv why (kv_offset cfg ?kvd l pos) ?kvd k v st)
      (rope_qk lm why (hs_of cfg) pos ?kvd (kv_offset cfg ?kvd l pos) ?dm q)) ?st"
    if "has_dims q [1, ?dm]" "has_dims k [1, ?kvd]" "has_dims v [1, ?kvd]" for q k v
  proof (rule oks_bind [OF store_kv_oks [OF assms(5) S(6) assms(2,3) that(2,3)]])
    fix st1 assume kept: "state_kept cfg pos st st1"
    show "oks (rope_qk lm why (hs_of cfg) pos ?kvd (kv_offset cfg ?kvd l pos) ?dm q st1) ?st"
      by (rule oks_mono [OF rope_qk_oks [OF ok(1,2) assms(2,3) that(1) state_ok_kept [OF assms(5) kept]]])
        (auto intro: state_kept_trans [OF kept])
  qed
  have fin: "oks (obind (squeeze_to_1d why xb2 ?dm) (\<lambda>y. omap (\<lambda>x. (x, st')) (tensor_add x y)))
      (\<lambda>(x, st'). has_dims x [?dm] \<and> state_kept cfg pos st st')"
    if "has_dims xb2 [1, ?dm]" "state_kept cfg pos st st'" for xb2 st'
    by (rule oks_bind [OF reshape_oks(2) [OF that(1) _ S(1)]])
      (use binary_oks [OF assms(4)] that(2) in \<open>auto simp: tensor_add_def intro!: oks_map\<close>)
  have heads: "returns (acc_loop (attn_head lm (cpu_accelerator lm) why cfg ?kvd (kvm_of cfg) (hs_of cfg) l pos q (rs_key_cache st') (rs_value_cache st'))
      [0..<c_n_heads cfg] (replicate ?dm 0)) (\<lambda>xb. length xb = ?dm)"
    if "length q = ?dm" "state_kept cfg pos st st'" for q st'
    by (rule returns_loop, rule attn_head_returns)
      (use ok assms(2,3) that state_ok_kept [OF assms(5) that(2)] in \<open>auto simp: state_ok_def\<close>)
  show ?thesis unfolding attention_sublayer_def Let_def
    apply (rule returns_bind [OF returns_lift [OF layer_vector_oks]], (use W S assms(2) in simp_all) [4])
    apply (rule returns_bind [OF norm [OF assms(4)]], assumption)
    apply (rule returns_bind [OF returns_lift [OF reshape_oks(1)]], assumption, (use S in simp_all) [2])
    apply (rule project_returns, assumption, rule assms(2), (use W S in simp_all) [4])+
    apply (rule returns_bind [OF returns_lift [OF store]], assumption+)
    subgoal for rms_w xb xb_2d q k v p
      apply (cases p, simp only: prod.case)
      apply (rule returns_bind [OF heads], simp, simp)
      apply (rule returns_bind [OF returns_lift [OF slice_to_tensor_oks]], (use S in \<open>simp_all add: MAX_RANK_def\<close>) [3])
      apply (rule project_returns, assumption, rule assms(2), (use W S in simp_all) [4])
      apply (rule returns_lift [OF fin], assumption, simp)
      done
    done
qed

lemma ffn_returns:
  assumes "model_ok cfg w" and "l < c_n_layers cfg" and "has_dims x [c_dim cfg]"
    and norm: "\<And>x w. has_dims x [c_dim cfg] \<Longrightarrow> has_dims w [c_dim cfg] \<Longrightarrow> returns (norm x w) (\<lambda>t. has_dims t [c_dim cfg])"
    and act: "\<And>t. has_dims t [1, c_hidden_dim cfg] \<Longrightarrow> returns (act t) (\<lambda>t. has_dims t [1, c_hidden_dim cfg])"
  shows "returns (ffn_sublayer (cpu_accelerator lm) why norm act cfg w l x) (\<lambda>x. has_dims x [c_dim cfg])"
proof -
  have ok: "heads_ok cfg" "sizes_ok cfg" "weights_ok cfg w" using assms(1) by (simp_all add: model_ok_def)
  note W = ok(3) [unfolded weights_ok_def Let_def] and S = sizes_facts [OF ok(2,1) assms(2)]
  have fin: "oks (obind (squeeze_to_1d why t (c_dim cfg)) (tensor_add x)) (\<lambda>x. has_dims x [c_dim cfg])"
    if "has_dims t [1, c_dim cfg]" for t
    by (rule oks_bind [OF reshape_oks(2) [OF that _ S(1)]]) (use binary_oks [OF assms(3)] in \<open>auto simp: tensor_add_def\<close>)
  have mul: "oks (tensor_mul g u) (\<lambda>x. has_dims x [1, c_hidden_dim cfg])"
    if "has_dims g [1, c_hidden_dim cfg]" "has_dims u [1, c_hidden_dim cfg]" for g u
    using binary_oks [OF that] by (simp add: tensor_mul_def)
  show ?thesis unfolding ffn_sublayer_def Let_def
    apply (rule returns_bind [OF returns_lift [OF layer_vector_oks]], (use W S assms(2) in simp_all) [4])
    apply (rule returns_bind [OF norm [OF assms(3)]], assumption)
    apply (rule returns_bind [OF returns_lift [OF reshape_oks(1)]], assumption, (use S in simp_all) [2])
    apply (rule returns_bind [OF returns_lift [OF layer_matrix_oks]], rule assms(2), (use W S in simp_all) [3])+
    apply (rule returns_bind [OF returns_op(1) [OF matmul_oks]], assumption, assumption, (use S in simp) [1])+
    apply (rule returns_bind [OF act], assumption)
    apply (rule returns_bind [OF returns_lift [OF mul]], assumption, assumption)
    apply (rule project_returns, assumption, rule assms(2), (use W S in simp_all) [4])
    apply (rule returns_lift [OF fin], assumption)
    done
qed

lemma lm_head_returns:
  assumes "model_ok cfg w" and "has_dims x [c_dim cfg]"
    and norm: "\<And>x w. has_dims x [c_dim cfg] \<Longrightarrow> has_dims w [c_dim cfg] \<Longrightarrow> returns (norm x w) (\<lambda>t. has_dims t [c_dim cfg])"
  shows "returns (lm_head (cpu_accelerator lm) why norm cfg w x) (\<lambda>t. has_dims t [c_vocab_size cfg])"
proof -
  have ok: "heads_ok cfg" "sizes_ok cfg" "weights_ok cfg w" using assms(1) by (simp_all add: model_ok_def)
  have V: "c_vocab_size cfg * c_dim cfg \<le> usize_max" "c_dim cfg * c_dim cfg \<le> usize_max" "0 < c_dim cfg"
    using ok(1,2) by (simp_all add: sizes_ok_def Let_def heads_ok_def)
  then have S: "c_dim cfg \<le> usize_max" "c_vocab_size cfg \<le> usize_max"
    by (meson le_trans le_square, metis le_trans mult_le_mono2 nat_mult_1_right Suc_leI One_nat_def)
  have L: "length (w_rms_final_weight w) = c_dim cfg" "length (w_wcls w) = c_vocab_size cfg * c_dim cfg"
    using ok(3) by (simp_all add: weights_ok_def Let_def)
  show ?thesis unfolding lm_head_def Let_def
    apply (rule returns_bind [OF returns_lift [OF slice_to_tensor_oks]], (use L S in \<open>simp_all add: MAX_RANK_def\<close>) [3])
    apply (rule returns_bind [OF norm [OF assms(2)]], assumption)
    apply (rule returns_bind [OF returns_lift [OF reshape_oks(1)]], assumption, (use S in simp_all) [2])
    apply (rule returns_bind [OF returns_lift [OF slice_to_tensor_oks]], (use L V in \<open>simp_all add: MAX_RANK_def\<close>) [3])
    apply (rule returns_bind [OF returns_lift [OF transpose_oks]], assumption)
    apply (rule returns_bind [OF returns_op(1) [OF matmul_oks]], assumption, assumption, (use S in simp) [1])
    apply (rule returns_lift [OF reshape_oks(2)], assumption, (use S in simp_all) [2])
    done
qed

lemma decoder_returns:
  assumes "model_ok cfg w" and "state_ok cfg st" and "unat token < c_vocab_size cfg" and "pos < c_seq_len cfg"
    and norm: "\<And>x w. has_dims x [c_dim cfg] \<Longrightarrow> has_dims w [c_dim cfg] \<Longrightarrow> returns (norm x w) (\<lambda>t. has_dims t [c_dim cfg])"
    and act: "\<And>t. has_dims t [1, c_hidden_dim cfg] \<Longrightarrow> returns (act t) (\<lambda>t. has_dims t [1, c_hidden_dim cfg])"
    and scale: "\<And>xs. length (scale xs) = length xs"
  shows "returns (decoder_step lm (cpu_accelerator lm) why norm act scale cfg w st token pos)
    (\<lambda>(logits, st'). has_dims logits [c_vocab_size cfg] \<and> state_kept cfg pos st st')"
proof -
  have ok: "heads_ok cfg" "sizes_ok cfg" "weights_ok cfg w" using assms(1) by (simp_all add: model_ok_def)
  note D = step_dims [OF ok(1,2)]
  have te: "length (w_token_embedding_table w) = c_vocab_size cfg * c_dim cfg" "c_vocab_size cfg * c_dim cfg \<le> usize_max"
    "c_dim cfg * c_dim cfg \<le> usize_max"
    using ok(2,3) by (simp_all add: weights_ok_def sizes_ok_def Let_def)
  have "oks (token_row cfg w token) (\<lambda>d. length d = c_dim cfg)"
    using layer_slice_oks [OF assms(3) te(1,2)] by (simp add: token_row_def layer_slice_def)
  moreover have "c_dim cfg \<le> usize_max" using te(3) by (meson le_trans le_square)
  ultimately have row: "oks (obind (token_row cfg w token) (\<lambda>emb. slice_to_tensor (scale emb) [c_dim cfg])) (\<lambda>x. has_dims x [c_dim cfg])"
    by (auto simp: MAX_RANK_def scale intro!: oks_bind [where P = "\<lambda>d. length d = c_dim cfg"] slice_to_tensor_oks)
  let ?I = "\<lambda>(x, st'). has_dims x [c_dim cfg] \<and> state_kept cfg pos st st'"
  have layer: "returns (decoder_layer lm (cpu_accelerator lm) why norm act cfg w (kvd_of cfg) (kvm_of cfg) (hs_of cfg) pos p l) ?I"
    if l: "l < c_n_layers cfg" and p: "?I p" for p l
  proof -
    obtain x st1 where p: "p = (x, st1)" "has_dims x [c_dim cfg]" "state_kept cfg pos st st1" using p by (cases p) auto
    note att = attention_returns [OF assms(1) l assms(4) p(2) state_ok_kept [OF assms(2) p(3)] norm, where why = why and lm = lm]
    show ?thesis unfolding decoder_layer_def p(1) prod.case
    proof (rule returns_bind [OF att])
      fix q assume "case q of (x, st') \<Rightarrow> has_dims x [c_dim cfg] \<and> state_kept cfg pos st1 st'"
      then obtain y st2 where q: "q = (y, st2)" "has_dims y [c_dim cfg]" "state_kept cfg pos st1 st2" by (cases q) auto
      show "returns (case q of (x, st) \<Rightarrow> acc_bind (ffn_sublayer (cpu_accelerator lm) why norm act cfg w l x) (\<lambda>x s. Ok ((x, st), s))) ?I"
        unfolding q(1) prod.case
        by (rule returns_bind [OF ffn_returns [OF assms(1) l q(2) norm act]], assumption+, rule returns_ret)
          (use state_kept_trans [OF p(3) q(3)] in auto)
    qed
  qed
  show ?thesis unfolding decoder_step_def D
    apply (rule returns_bind [OF returns_lift [where P = "\<lambda>d. d = kvd_of cfg"]], simp, simp only:)
    apply (rule returns_bind [OF returns_lift [where P = "\<lambda>d. d = kvm_of cfg"]], simp, simp only:)
    apply (rule returns_bind [OF returns_lift [where P = "\<lambda>d. d = hs_of cfg"]], simp, simp only:)
    apply (rule returns_bind [OF returns_lift [OF row]])
    apply (rule returns_bind [OF returns_loop [where P = ?I]], rule layer, simp, simp, simp)
    apply clarsimp
    apply (rule returns_bind [OF lm_head_returns [OF assms(1) _ norm]], assumption, assumption, assumption)
    apply (simp add: returns_def)
    done
qed

lemma llama_step_oks:
  assumes "model_ok cfg w" and "state_ok cfg st" and "unat token < c_vocab_size cfg" and "pos < c_seq_len cfg"
  shows "oks (llama_step lm cfg w st token pos) (\<lambda>(logits, st'). has_dims logits [c_vocab_size cfg] \<and> state_ok cfg st' \<and> state_kept cfg pos st st')"
proof -
  have "0 < c_dim cfg" using assms(1) by (simp add: model_ok_def heads_ok_def)
  then have "oks (llama_step lm cfg w st token pos) (\<lambda>(logits, st'). has_dims logits [c_vocab_size cfg] \<and> state_kept cfg pos st st')"
    unfolding llama_step_def llama_step_with_accel_def returns_def [symmetric]
    by (intro decoder_returns [OF assms]) (auto intro!: returns_op rms_norm_oks unary_oks simp: silu_def)
  then show ?thesis by (auto elim!: oks_mono intro: state_ok_kept [OF assms(2)])
qed

lemma gemma_step_oks:
  assumes "model_ok cfg w" and "state_ok cfg st" and "unat token < c_vocab_size cfg" and "pos < c_seq_len cfg"
  shows "oks (gemma_step lm cfg w st token pos) (\<lambda>(logits, st'). has_dims logits [c_vocab_size cfg] \<and> state_ok cfg st' \<and> state_kept cfg pos st st')"
proof -
  have "0 < c_dim cfg" using assms(1) by (simp add: model_ok_def heads_ok_def)
  then have "oks (gemma_step lm cfg w st token pos) (\<lambda>(logits, st'). has_dims logits [c_vocab_size cfg] \<and> state_kept cfg pos st st')"
    unfolding gemma_step_def gemma_step_with_accel_def returns_def [symmetric]
    by (intro decoder_returns [OF assms]) (auto intro: returns_lift gemma_rms_norm_oks unary_oks simp: gelu_def)
  then show ?thesis by (auto elim!: oks_mono intro: state_ok_kept [OF assms(2)])
qed

text \<open>Returning on the CPU is returning on a conforming accelerator.\<close>

lemma conforming_oks:
  assumes "omap fst (m s) = omap_err h n" and "oks n P"
  shows "oks (m s) (\<lambda>(x, s'). P x)"
  using assms by (cases "m s"; cases n) (auto simp: oks_def)

lemma recording_counts:
  assumes "costs m n" and "omap fst (m r) = omap_err h k" and "oks k P"
  shows "oks (m r) (\<lambda>(_, r'). counters r' = add4 (counters r) n)"
  using conforming_oks [where m = m and s = r, OF assms(2,3)] assms(1) by (auto simp: oks_def costs_def)

text \<open>A smallest model, for the concrete instances.\<close>

definition tiny_cfg :: Config where
  "tiny_cfg = \<lparr>c_dim = 2, c_hidden_dim = 1, c_n_layers = 1, c_n_heads = 1, c_n_kv_heads = 1, c_vocab_size = 2,
     c_seq_len = 2, c_shared_weights = True\<rparr>"

definition tiny_weights :: Weights where
  "tiny_weights = (let z = (\<lambda>n. replicate n f32_one) in
     \<lparr>w_token_embedding_table = z 4, w_rms_att_weight = z 2, w_wq = z 4, w_wk = z 4, w_wv = z 4, w_wo = z 4,
      w_rms_ffn_weight = z 2, w_w1 = z 2, w_w2 = z 2, w_w3 = z 2, w_rms_final_weight = z 2, w_wcls = z 4\<rparr>)"

definition tiny_state :: RunState where
  "tiny_state = \<lparr>rs_key_cache = replicate 4 0, rs_value_cache = replicate 4 0, rs_regime = 2\<rparr>"

lemma tiny_ok: "model_ok tiny_cfg tiny_weights" "state_ok tiny_cfg tiny_state" "run_state_new tiny_cfg = Ok tiny_state"
  by (simp_all add: model_ok_def heads_ok_def sizes_ok_def weights_ok_def state_ok_def cache_size_def kvd_of_def hs_of_def
      tiny_cfg_def tiny_weights_def tiny_state_def usize_max_def Let_def run_state_new_def kv_dim_def odiv_def wrap_mul_def)

subsection \<open>Properties\<close>

text \<open>
  C18: on a well-formed model (grouped heads of even size, weights of the declared
  sizes, nothing beyond the address space), for a token of the vocabulary and a position of the
  context, a decode step of either architecture returns: no error and no panic. The logits are a
  vector over the vocabulary, the caches keep their sizes, and every cache row of another position
  keeps its bits.
\<close>

theorem decode_step_returns:
  assumes "model_ok cfg w" and "state_ok cfg st" and "unat token < c_vocab_size cfg" and "pos < c_seq_len cfg"
  shows "oks (llama_step lm cfg w st token pos) (\<lambda>(logits, st'). has_dims logits [c_vocab_size cfg] \<and> state_ok cfg st' \<and> state_kept cfg pos st st') \<and>
    oks (gemma_step lm cfg w st token pos) (\<lambda>(logits, st'). has_dims logits [c_vocab_size cfg] \<and> state_ok cfg st' \<and> state_kept cfg pos st st')"
  by (intro conjI llama_step_oks gemma_step_oks assms)

theorem decode_step_returns_witness:
  "oks (llama_step id_libm tiny_cfg tiny_weights tiny_state 1 1) (\<lambda>(logits, st'). has_dims logits [2] \<and> state_kept tiny_cfg 1 tiny_state st')"
  using decode_step_returns [OF tiny_ok(1,2), of 1 1 id_libm]
  by (auto simp: tiny_cfg_def elim!: oks_mono)

text \<open>
  On a well-formed model with \<open>L\<close> layers and \<open>H\<close> heads, a Llama step on the recording
  accelerator returns and adds \<open>7 * L + 1\<close> matrix products, \<open>L * H\<close> softmaxes, \<open>2 * L + 1\<close> norms and \<open>L\<close>
  activations to its counters; a Gemma step adds the same products and softmaxes and neither norms
  nor activations, which it computes itself.
\<close>

theorem dispatch_counts:
  assumes "model_ok cfg w" and "state_ok cfg st" and "unat token < c_vocab_size cfg" and "pos < c_seq_len cfg"
  defines "L \<equiv> c_n_layers cfg" and "H \<equiv> c_n_heads cfg"
  shows "oks (llama_step_with_accel lm (recording_accelerator lm) cfg w st token pos r)
      (\<lambda>(_, r'). counters r' = add4 (counters r) (7 * L + 1, L * H, 2 * L + 1, L)) \<and>
    oks (gemma_step_with_accel lm (recording_accelerator lm) cfg w st token pos r)
      (\<lambda>(_, r'). counters r' = add4 (counters r) (7 * L + 1, L * H, 0, 0))"
proof (intro conjI recording_counts)
  show "costs (llama_step_with_accel lm (recording_accelerator lm) cfg w st token pos) (7 * L + 1, L * H, 2 * L + 1, L)"
    using decoder_costs [where rn = 1 and sl = 1, OF costs_op(3,4)] by (simp add: llama_step_with_accel_def L_def H_def)
  show "costs (gemma_step_with_accel lm (recording_accelerator lm) cfg w st token pos) (7 * L + 1, L * H, 0, 0)"
    using decoder_costs [where rn = 0 and sl = 0, OF costs_pure(1) costs_pure(1)] by (simp add: gemma_step_with_accel_def L_def H_def)
qed (use recording.llama_agrees recording.gemma_agrees llama_step_oks [OF assms(1-4)] gemma_step_oks [OF assms(1-4)] in
     \<open>auto simp: agrees_def llama_step_def gemma_step_def\<close>)

theorem dispatch_counts_witness:
  "oks (llama_step_with_accel id_libm (recording_accelerator id_libm) tiny_cfg tiny_weights tiny_state 1 1 recording_default)
     (\<lambda>(_, r'). counters r' = (8, 1, 3, 1))"
  using dispatch_counts [OF tiny_ok(1,2), of 1 1 id_libm recording_default]
  by (simp add: tiny_cfg_def recording_default_def counters_def add4_def)

end
