(* ===== verification/ForwardQ.thy ===== *)
theory ForwardQ
  imports Forward QuantWeights Linear Cert
begin

text \<open>
  The quantised forward pass \<open>src/src/model/forward_quantized.rs\<close>: the projections dispatch on the
  type of the weight, and a step can be observed (per-op records, activation records, lens capture)
  and steered (intervention plan). The observers are threaded as state; BLAKE3 is the parameter
  \<open>H\<close>. What the build decides (dot pair of the target, row parallelism and its schedule) is the
  record \<open>Target\<close>.
\<close>

definition U32_MAX :: u32 where "U32_MAX = 0xFFFFFFFF"

definition WHY_Q :: string where "WHY_Q = ''GPU storage not supported in forward_quantized helpers''"

subsection \<open>Observers\<close>

definition hash_f32_slice :: "(bytes \<Rightarrow> bytes) \<Rightarrow> f32 list \<Rightarrow> bytes" where
  "hash_f32_slice H xs = H (word_bytes xs)"

record PerOpRecorder =
  por_builder :: CertBuilder
  por_params :: "bytes \<rightharpoonup> bytes"

definition param_key :: "string \<Rightarrow> nat \<Rightarrow> bytes" where
  "param_key name l = str (name @ ''/'' @ dec_digits l)"

definition layer_params :: "(bytes \<Rightarrow> bytes) \<Rightarrow> nat \<times> QuantLayer \<Rightarrow> (bytes \<times> bytes) list" where
  "layer_params H = (\<lambda>(l, lay).
     [(param_key ''rms_att'' l, hash_f32_slice H (l_rms_att_weight lay)),
      (param_key ''wq'' l, H (qt_bytes (l_wq lay))), (param_key ''wk'' l, H (qt_bytes (l_wk lay))),
      (param_key ''wv'' l, H (qt_bytes (l_wv lay))), (param_key ''wo'' l, H (qt_bytes (l_wo lay))),
      (param_key ''rms_ffn'' l, hash_f32_slice H (l_rms_ffn_weight lay)),
      (param_key ''w1'' l, H (qt_bytes (l_w1 lay))), (param_key ''w2'' l, H (qt_bytes (l_w2 lay))),
      (param_key ''w3'' l, H (qt_bytes (l_w3 lay)))])"

definition per_op_recorder_new :: "(bytes \<Rightarrow> bytes) \<Rightarrow> CertBuilder \<Rightarrow> QuantizedWeights \<Rightarrow> PerOpRecorder" where
  "per_op_recorder_new H b w =
     (let whole = [(str ''token_embd'', H (qt_bytes (q_token_embedding_table w))),
                   (str ''rms_final'', hash_f32_slice H (q_rms_final_weight w))] @
                  (case q_wcls w of Some t \<Rightarrow> [(str ''wcls'', H (qt_bytes t))] | None \<Rightarrow> []) in
      \<lparr>por_builder = b, por_params = foldl (\<lambda>m (k, v). m(k \<mapsto> v)) Map.empty
         (whole @ concat (map (layer_params H) (zip [0..<length (q_layers w)] (q_layers w))))\<rparr>)"

definition ZERO_HASH :: bytes where "ZERO_HASH = replicate 32 0"

definition per_op_record :: "(bytes \<Rightarrow> bytes) \<Rightarrow> bytes \<Rightarrow> u32 \<Rightarrow> bytes \<Rightarrow> f32 list \<Rightarrow> f32 list \<Rightarrow> PerOpRecorder \<Rightarrow> PerOpRecorder" where
  "per_op_record H name layer key xin xout r =
     (let params_hash = (if key = [] then ZERO_HASH else case por_params r key of Some h \<Rightarrow> h | None \<Rightarrow> ZERO_HASH) in
      r\<lparr>por_builder := declare_op name layer (hash_f32_slice H xin) params_hash (hash_f32_slice H xout) (por_builder r)\<rparr>)"

record InterventionEntry =
  ie_token_index :: u32
  ie_layer :: u32
  ie_checkpoint :: bytes
  ie_replacement :: "f32 list"

type_synonym InterventionPlan = "InterventionEntry list"

definition plan_add :: "u32 \<Rightarrow> u32 \<Rightarrow> bytes \<Rightarrow> f32 list \<Rightarrow> InterventionPlan \<Rightarrow> InterventionPlan" where
  "plan_add tok layer cp xs p = p @ [\<lparr>ie_token_index = tok, ie_layer = layer, ie_checkpoint = cp, ie_replacement = xs\<rparr>]"

definition plan_lookup :: "InterventionPlan \<Rightarrow> u32 \<Rightarrow> u32 \<Rightarrow> bytes \<Rightarrow> f32 list option" where
  "plan_lookup p tok layer cp = map_option ie_replacement
     (find (\<lambda>e. ie_token_index e = tok \<and> ie_layer e = layer \<and> ie_checkpoint e = cp) (rev p))"

record LensEntry =
  le_token_index :: u32
  le_layer :: u32
  le_checkpoint :: bytes
  le_residual :: "f32 list"

type_synonym LensCapture = "LensEntry list"

definition lens_push :: "u32 \<Rightarrow> u32 \<Rightarrow> bytes \<Rightarrow> f32 list \<Rightarrow> LensCapture \<Rightarrow> LensCapture" where
  "lens_push tok layer cp xs es = es @ [\<lparr>le_token_index = tok, le_layer = layer, le_checkpoint = cp, le_residual = xs\<rparr>]"

text \<open>The activation recorder is the builder it writes to.\<close>

definition per_activation_record :: "(bytes \<Rightarrow> bytes) \<Rightarrow> u32 \<Rightarrow> u32 \<Rightarrow> bytes \<Rightarrow> f32 list \<Rightarrow> CertBuilder \<Rightarrow> CertBuilder" where
  "per_activation_record H tok layer cp xs b = declare_activation tok layer cp (hash_f32_slice H xs) b"

record Observers =
  ob_ops :: "PerOpRecorder option"
  ob_acts :: "CertBuilder option"
  ob_lens :: "LensCapture option"

definition no_observers :: Observers where
  "no_observers = \<lparr>ob_ops = None, ob_acts = None, ob_lens = None\<rparr>"

text \<open>The \<open>if let Some\<close> around each use of an observer.\<close>

definition see_op :: "(bytes \<Rightarrow> bytes) \<Rightarrow> string \<Rightarrow> u32 \<Rightarrow> bytes \<Rightarrow> f32 list \<Rightarrow> f32 list \<Rightarrow> Observers \<Rightarrow> Observers" where
  "see_op H name layer key xin xout ob = ob\<lparr>ob_ops := map_option (per_op_record H (str name) layer key xin xout) (ob_ops ob)\<rparr>"

definition see_act :: "(bytes \<Rightarrow> bytes) \<Rightarrow> u32 \<Rightarrow> u32 \<Rightarrow> string \<Rightarrow> f32 list \<Rightarrow> Observers \<Rightarrow> Observers" where
  "see_act H tok layer cp xs ob = ob\<lparr>ob_acts := map_option (per_activation_record H tok layer (str cp) xs) (ob_acts ob)\<rparr>"

definition see_lens :: "u32 \<Rightarrow> u32 \<Rightarrow> string \<Rightarrow> f32 list \<Rightarrow> Observers \<Rightarrow> Observers" where
  "see_lens tok layer cp xs ob = ob\<lparr>ob_lens := map_option (lens_push tok layer (str cp) xs) (ob_lens ob)\<rparr>"

text \<open>The observed tensor is read only when somebody observes.\<close>

definition when_seen :: "bool \<Rightarrow> tensor \<Rightarrow> (f32 list \<Rightarrow> Observers \<Rightarrow> Observers) \<Rightarrow> Observers \<Rightarrow> Observers res" where
  "when_seen c t f ob = (if c then omap (\<lambda>xs. f xs ob) (tensor_as_f32 WHY_Q t) else Ok ob)"

text \<open>A residual checkpoint: the intervention, then the activation record, then the lens.\<close>

definition plan_override :: "InterventionPlan option \<Rightarrow> u32 \<Rightarrow> u32 \<Rightarrow> string \<Rightarrow> nat \<Rightarrow> f32 list option" where
  "plan_override plan tok layer cp n = (case plan of None \<Rightarrow> None | Some p \<Rightarrow>
     (case plan_lookup p tok layer (str cp) of None \<Rightarrow> None | Some r \<Rightarrow> if length r = n then Some r else None))"

definition residual_checkpoint :: "(bytes \<Rightarrow> bytes) \<Rightarrow> InterventionPlan option \<Rightarrow> u32 \<Rightarrow> u32 \<Rightarrow> string \<Rightarrow> nat \<Rightarrow> tensor \<Rightarrow> Observers \<Rightarrow>
    (tensor \<times> Observers) res" where
  "residual_checkpoint H plan tok layer cp n x ob =
     obind (case plan_override plan tok layer cp n of Some r \<Rightarrow> slice_to_tensor r [n] | None \<Rightarrow> Ok x) (\<lambda>x.
     obind (when_seen (ob_acts ob \<noteq> None) x (see_act H tok layer cp) ob) (\<lambda>ob.
     obind (when_seen (ob_lens ob \<noteq> None) x (see_lens tok layer cp) ob) (\<lambda>ob. Ok (x, ob))))"

subsection \<open>Linear dispatch\<close>

text \<open>
  \<open>tg_threads\<close> is \<open>None\<close> in a build without \<open>std-parallel\<close>, else the parallelism the machine
  reports; \<open>tg_sched\<close> is the order in which the pool runs the rows of a call.
\<close>

record Target =
  tg_pair :: dot_pair
  tg_threads :: "nat option"
  tg_sched :: "f32 list \<Rightarrow> bytes \<Rightarrow> nat \<Rightarrow> nat \<Rightarrow> (nat \<times> nat) list"

definition PAR_MIN_ROWS :: nat where "PAR_MIN_ROWS = 512"

definition q8_0_row_bytes :: "nat \<Rightarrow> nat res" where
  "q8_0_row_bytes in_feat = (if in_feat mod 32 \<noteq> 0 then Err (Internal ''Q8_0: in_feat must be a multiple of 32'')
     else Ok (wrap_mul (in_feat div 32) 34))"

definition q5_0_row_bytes :: "nat \<Rightarrow> nat res" where
  "q5_0_row_bytes in_feat = (if in_feat mod 32 \<noteq> 0 then Err (Internal ''Q5_0: in_feat must be a multiple of 32'')
     else Ok (wrap_mul (in_feat div 32) 22))"

definition dispatch_f32 :: "nat \<Rightarrow> f32 list \<Rightarrow> QuantTensor \<Rightarrow> nat \<Rightarrow> nat \<Rightarrow> f32 list \<Rightarrow> f32 list res" where
  "dispatch_f32 base x w in_feat out_feat y =
     (if length (qt_bytes w) \<noteq> wrap_mul (wrap_mul out_feat in_feat) 4
      then Err (Internal ''linear_dispatch F32: weight size mismatch'')
      else obind (f32_view (base + qt_start w) (qt_bytes w)) (\<lambda>ws.
        oloop (\<lambda>y r. obind (oslice ws (wrap_mul r in_feat) (wrap_mul (r + 1) in_feat)) (\<lambda>row.
          obind (canonical_dot x row in_feat) (oset y r))) [0..<out_feat] y))"

text \<open>The Q8_0 and Q5_0 arms decode one row at a time.\<close>

definition dispatch_rows :: "string \<Rightarrow> (bytes \<Rightarrow> f32 list res) \<Rightarrow> nat res \<Rightarrow> f32 list \<Rightarrow> QuantTensor \<Rightarrow> nat \<Rightarrow> nat \<Rightarrow> f32 list \<Rightarrow> f32 list res" where
  "dispatch_rows small decode rb x w in_feat out_feat y =
     obind rb (\<lambda>row_bytes.
       if length (qt_bytes w) < wrap_mul out_feat row_bytes then Err (Internal small)
       else oloop (\<lambda>y r. obind (oslice (qt_bytes w) (wrap_mul r row_bytes) (wrap_mul (r + 1) row_bytes)) (\<lambda>bs.
          obind (decode bs) (\<lambda>row. obind (canonical_dot x row in_feat) (oset y r)))) [0..<out_feat] y)"

definition linear_dispatch :: "Target \<Rightarrow> nat \<Rightarrow> f32 list \<Rightarrow> QuantTensor \<Rightarrow> nat \<Rightarrow> nat \<Rightarrow> u8 \<Rightarrow> f32 list res" where
  "linear_dispatch tg base x w in_feat out_feat regime =
     (let y = replicate out_feat 0; bs = qt_bytes w in
      if regime = 3 \<and> qt_dtype w = GT_Q4_K then linear_q4_k_integer_rs (tg_pair tg) x bs y 1 in_feat out_feat
      else if regime = 3 \<and> qt_dtype w = GT_Q6_K then linear_q6_k_integer_rs x bs y 1 in_feat out_feat
      else case qt_dtype w of
        GT_Q4_0 \<Rightarrow> linear_q4_0_cpu x bs y 1 in_feat out_feat
      | GT_F32 \<Rightarrow> dispatch_f32 base x w in_feat out_feat y
      | GT_Q4_K \<Rightarrow> (case tg_threads tg of
          None \<Rightarrow> linear_q4_k_fused x bs y 1 in_feat out_feat
        | Some t \<Rightarrow> if PAR_MIN_ROWS \<le> out_feat then linear_q4_k_fused_parallel x bs y 1 in_feat out_feat t (tg_sched tg x bs out_feat)
            else linear_q4_k_fused x bs y 1 in_feat out_feat)
      | GT_Q6_K \<Rightarrow> (case tg_threads tg of
          None \<Rightarrow> linear_q6_k_integer x bs y 1 in_feat out_feat
        | Some t \<Rightarrow> if PAR_MIN_ROWS \<le> out_feat then linear_q6_k_integer_parallel x bs y 1 in_feat out_feat t (tg_sched tg x bs out_feat)
            else linear_q6_k_integer x bs y 1 in_feat out_feat)
      | GT_Q8_0 \<Rightarrow> dispatch_rows ''linear_dispatch Q8_0: weight blob too small'' dequantize_q8_0 (q8_0_row_bytes in_feat) x w in_feat out_feat y
      | GT_Q5_0 \<Rightarrow> dispatch_rows ''linear_dispatch Q5_0: weight blob too small'' dequantize_q5_0 (q5_0_row_bytes in_feat) x w in_feat out_feat y
      | _ \<Rightarrow> Err (NotImplemented ''forward_quantized::linear_dispatch'' ''weight dtype not Q4_0 / Q4_K / Q5_0 / Q6_K / Q8_0 / F32''))"

definition add_bias :: "f32 list \<Rightarrow> f32 list option \<Rightarrow> f32 list" where
  "add_bias v b = (case b of None \<Rightarrow> v | Some b \<Rightarrow> map2 f32_add v b @ drop (length b) v)"

text \<open>One row of a block-quantised table: the blocks of the row are decoded.\<close>

definition table_row :: "string \<Rightarrow> string \<Rightarrow> (bytes \<Rightarrow> f32 list res) \<Rightarrow> nat \<Rightarrow> nat \<Rightarrow> bytes \<Rightarrow> nat \<Rightarrow> nat \<Rightarrow> f32 list res" where
  "table_row bad past decode block nbytes bs row dm =
     (if dm mod block \<noteq> 0 then Err (Internal bad)
      else let blocks = dm div block; a = wrap_mul (wrap_mul row blocks) nbytes; b = wrap_add a (wrap_mul blocks nbytes) in
        if length bs < b then Err (Internal past) else obind (oslice bs a b) decode)"

definition embedding_row :: "nat \<Rightarrow> QuantTensor \<Rightarrow> nat \<Rightarrow> nat \<Rightarrow> f32 list res" where
  "embedding_row base table row dm =
     (let bs = qt_bytes table in case qt_dtype table of
        GT_F32 \<Rightarrow>
          if length bs < wrap_mul (wrap_mul (row + 1) dm) 4 then Err (Internal ''embedding_row F32: table too small for token id'')
          else obind (f32_view (base + qt_start table) bs) (\<lambda>ws. oslice ws (wrap_mul row dm) (wrap_mul (row + 1) dm))
      | GT_Q4_0 \<Rightarrow> table_row ''embedding_row Q4_0: dim must be a multiple of 32'' ''embedding_row Q4_0: row past end of table''
          dequantize_q4_0 32 18 bs row dm
      | GT_Q4_K \<Rightarrow> table_row ''embedding_row Q4_K: dim must be a multiple of 256'' ''embedding_row Q4_K: row past end of table''
          dequantize_q4_k 256 144 bs row dm
      | GT_Q6_K \<Rightarrow> table_row ''embedding_row Q6_K: dim must be a multiple of 256'' ''embedding_row Q6_K: row past end of table''
          dequantize_q6_k 256 210 bs row dm
      | GT_Q5_0 \<Rightarrow> table_row ''embedding_row Q5_0: dim must be a multiple of 32'' ''embedding_row Q5_0: row past end of table''
          dequantize_q5_0 32 22 bs row dm
      | GT_Q8_0 \<Rightarrow> table_row ''embedding_row Q8_0: dim must be a multiple of 32'' ''embedding_row Q8_0: row past end of table''
          dequantize_q8_0 32 34 bs row dm
      | _ \<Rightarrow> Err (NotImplemented ''embedding_row'' ''non-Q4_0 / Q4_K / Q6_K / Q8_0 / F32 embedding dtype''))"

definition softmax_inplace :: "libm \<Rightarrow> f32 list \<Rightarrow> f32 list res" where
  "softmax_inplace lm x =
     (let x' = map (\<lambda>v. expf lm (f32_sub v (row_max x))) x in
      obind (canonical_sum x' (length x')) (\<lambda>s. Ok (map (\<lambda>v. f32_mul v (f32_div f32_one s)) x')))"

subsection \<open>Rotation and attention\<close>

text \<open>NeoX layout: entry \<open>j\<close> of a head pairs with entry \<open>j + half\<close>.\<close>

definition rope_neox :: "libm \<Rightarrow> f32 \<Rightarrow> nat \<Rightarrow> nat \<Rightarrow> nat \<Rightarrow> nat \<Rightarrow> f32 list \<Rightarrow> f32 list res" where
  "rope_neox lm theta hs pos heads off xs =
     (let half = hs div 2 in
      oloop (\<lambda>xs h. let b = wrap_add off (wrap_mul h hs) in
        oloop (\<lambda>xs j. let v = rope_angle lm theta hs pos (2 * j) in
          rotate_pair (cosf lm v) (sinf lm v) xs (wrap_add b j) (wrap_add (wrap_add b j) half)) [0..<half] xs) [0..<heads] xs)"

definition rope_q :: "libm \<Rightarrow> f32 \<Rightarrow> bool \<Rightarrow> Config \<Rightarrow> nat \<Rightarrow> nat \<Rightarrow> nat \<Rightarrow> nat \<Rightarrow> f32 list \<Rightarrow> f32 list \<Rightarrow> (f32 list \<times> f32 list) res" where
  "rope_q lm theta neox cfg hs pos kvd off q kc =
     (if neox then obind (rope_neox lm theta hs pos (c_n_heads cfg) 0 q) (\<lambda>q.
          obind (odiv kvd hs) (\<lambda>n_kv. omap (\<lambda>kc. (q, kc)) (rope_neox lm theta hs pos n_kv off kc)))
      else rope_interleaved lm theta hs pos kvd off (c_dim cfg) q kc)"

definition q_attn_scores :: "Config \<Rightarrow> nat \<Rightarrow> nat \<Rightarrow> nat \<Rightarrow> nat \<Rightarrow> nat \<Rightarrow> f32 \<Rightarrow> nat \<Rightarrow> f32 list \<Rightarrow> f32 list \<Rightarrow> f32 list res" where
  "q_attn_scores cfg kvd kvm hs layer tlen sqrt_hd h q kc =
     oloop (\<lambda>att t. obind (head_offset cfg kvd kvm hs layer t h) (\<lambda>k_off.
         obind (oslice kc k_off (wrap_add k_off hs)) (\<lambda>ks.
         obind (oslice q (wrap_mul h hs) (wrap_add (wrap_mul h hs) hs)) (\<lambda>qs.
         obind (canonical_dot qs ks hs) (\<lambda>score. oset att t (f32_div score sqrt_hd))))))
       [0..<tlen] (replicate tlen 0)"

definition q_attn_values :: "Config \<Rightarrow> nat \<Rightarrow> nat \<Rightarrow> nat \<Rightarrow> nat \<Rightarrow> nat \<Rightarrow> nat \<Rightarrow> f32 list \<Rightarrow> f32 list \<Rightarrow> f32 list \<Rightarrow> f32 list res" where
  "q_attn_values cfg kvd kvm hs layer tlen h att vc xb =
     omap fst (oloop (\<lambda>(xb, vcol) d.
         obind (oloop (\<lambda>vcol t. obind (head_offset cfg kvd kvm hs layer t h) (\<lambda>v_off.
             obind (oget vc (wrap_add v_off d)) (oset vcol t))) [0..<tlen] vcol) (\<lambda>vcol.
         obind (canonical_dot att vcol tlen) (\<lambda>r.
         omap (\<lambda>xb. (xb, vcol)) (oset xb (wrap_add (wrap_mul h hs) d) r))))
       [0..<hs] (xb, replicate tlen 0))"

definition q_attn_head :: "libm \<Rightarrow> Config \<Rightarrow> nat \<Rightarrow> nat \<Rightarrow> nat \<Rightarrow> nat \<Rightarrow> nat \<Rightarrow> f32 list \<Rightarrow> f32 list \<Rightarrow> f32 list \<Rightarrow> f32 list \<Rightarrow> nat \<Rightarrow> f32 list res" where
  "q_attn_head lm cfg kvd kvm hs layer pos q kc vc xb h =
     (let tlen = wrap_add pos 1 in
      obind (q_attn_scores cfg kvd kvm hs layer tlen (sqrtf lm (f32_of_nat hs)) h q kc) (\<lambda>att.
      obind (softmax_inplace lm att) (\<lambda>att.
      q_attn_values cfg kvd kvm hs layer tlen h att vc xb)))"


subsection \<open>One decode step\<close>

text \<open>
  \<open>q_env\<close> gathers the inputs of a step that do not change while it runs, and the values the step
  derives from them at the start.
\<close>

record q_env =
  qe_lm :: libm
  qe_hash :: "bytes \<Rightarrow> bytes"
  qe_target :: Target
  qe_base :: nat
  qe_cfg :: Config
  qe_weights :: QuantizedWeights
  qe_plan :: "InterventionPlan option"
  qe_pos :: nat
  qe_kvd :: nat
  qe_kvm :: nat
  qe_hs :: nat
  qe_regime :: u8

definition qe_tok :: "q_env \<Rightarrow> u32" where "qe_tok e = of_nat (qe_pos e)"

definition qe_linear :: "q_env \<Rightarrow> f32 list \<Rightarrow> QuantTensor \<Rightarrow> nat \<Rightarrow> nat \<Rightarrow> f32 list res" where
  "qe_linear e x w in_feat out_feat = linear_dispatch (qe_target e) (qe_base e) x w in_feat out_feat (qe_regime e)"

text \<open>A projection and its record; a norm and its record.\<close>

definition q_project :: "q_env \<Rightarrow> u32 \<Rightarrow> bytes \<Rightarrow> f32 list \<Rightarrow> QuantTensor \<Rightarrow> nat \<Rightarrow> nat \<Rightarrow> Observers \<Rightarrow> (f32 list \<times> Observers) res" where
  "q_project e layer key x w in_feat out_feat ob = obind (qe_linear e x w in_feat out_feat) (\<lambda>y.
     Ok (y, see_op (qe_hash e) ''linear_q4_0'' layer key x y ob))"

definition q_norm :: "q_env \<Rightarrow> u32 \<Rightarrow> bytes \<Rightarrow> tensor \<Rightarrow> f32 list \<Rightarrow> Observers \<Rightarrow> (f32 list \<times> Observers) res" where
  "q_norm e layer key x ws ob =
     obind (rms_norm_slice (qe_lm e) x ws (q_rms_eps (qe_weights e))) (\<lambda>xb.
     obind (tensor_as_f32 WHY_Q xb) (\<lambda>xb_vec.
     omap (\<lambda>ob. (xb_vec, ob))
       (when_seen (ob_ops ob \<noteq> None) x (\<lambda>xs. see_op (qe_hash e) ''rms_norm'' layer key xs xb_vec) ob)))"

definition attn_q_out_dim :: "Config \<Rightarrow> nat res" where
  "attn_q_out_dim cfg = omap (wrap_mul (c_n_heads cfg)) (head_size cfg)"

definition q_qkv :: "q_env \<Rightarrow> nat \<Rightarrow> QuantLayer \<Rightarrow> f32 list \<Rightarrow> Observers \<Rightarrow> ((f32 list \<times> f32 list \<times> f32 list) \<times> Observers) res" where
  "q_qkv e layer lay xb ob =
     (let l = of_nat layer; dm = c_dim (qe_cfg e); kvd = qe_kvd e in
      obind (attn_q_out_dim (qe_cfg e)) (\<lambda>q_out.
      obind (q_project e l (param_key ''wq'' layer) xb (l_wq lay) dm q_out ob) (\<lambda>(q, ob).
      obind (q_project e l (param_key ''wk'' layer) xb (l_wk lay) dm kvd ob) (\<lambda>(k, ob).
      obind (q_project e l (param_key ''wv'' layer) xb (l_wv lay) dm kvd ob) (\<lambda>(v, ob).
      Ok ((add_bias q (l_bq lay), add_bias k (l_bk lay), add_bias v (l_bv lay)), ob))))))"

definition q_store_rope :: "q_env \<Rightarrow> nat \<Rightarrow> f32 list \<Rightarrow> f32 list \<Rightarrow> f32 list \<Rightarrow> RunState \<Rightarrow> (f32 list \<times> RunState) res" where
  "q_store_rope e layer q k v st =
     (let off = kv_offset (qe_cfg e) (qe_kvd e) layer (qe_pos e); w = qe_weights e in
      obind (ocopy (rs_key_cache st) off (wrap_add off (qe_kvd e)) k) (\<lambda>kc.
      obind (ocopy (rs_value_cache st) off (wrap_add off (qe_kvd e)) v) (\<lambda>vc.
      omap (\<lambda>(q, kc). (q, st\<lparr>rs_key_cache := kc, rs_value_cache := vc\<rparr>))
        (rope_q (qe_lm e) (q_rope_theta w) (q_rope_neox w) (qe_cfg e) (qe_hs e) (qe_pos e) (qe_kvd e) off q kc))))"

definition q_residual :: "nat \<Rightarrow> tensor \<Rightarrow> f32 list \<Rightarrow> tensor res" where
  "q_residual n x y = obind (slice_to_tensor y [n]) (tensor_add x)"

definition q_attention :: "q_env \<Rightarrow> nat \<Rightarrow> QuantLayer \<Rightarrow> tensor \<times> RunState \<times> Observers \<Rightarrow> (tensor \<times> RunState \<times> Observers) res" where
  "q_attention e layer lay = (\<lambda>(x, st, ob).
     (let l = of_nat layer; dm = c_dim (qe_cfg e) in
      obind (q_norm e l (param_key ''rms_att'' layer) x (l_rms_att_weight lay) ob) (\<lambda>(xb, ob).
      obind (q_qkv e layer lay xb ob) (\<lambda>((q, k, v), ob).
      obind (q_store_rope e layer q k v st) (\<lambda>(q_buf, st).
      obind (oloop (q_attn_head (qe_lm e) (qe_cfg e) (qe_kvd e) (qe_kvm e) (qe_hs e) layer (qe_pos e) q_buf (rs_key_cache st) (rs_value_cache st))
        [0..<c_n_heads (qe_cfg e)] (replicate dm 0)) (\<lambda>xb_out.
      let ob = see_lens (qe_tok e) l ''pre_wo'' xb_out ob in
      obind (q_project e l (param_key ''wo'' layer) xb_out (l_wo lay) dm dm ob) (\<lambda>(xb2, ob).
      obind (q_residual dm x xb2) (\<lambda>x.
      omap (\<lambda>(x, ob). (x, st, ob))
        (residual_checkpoint (qe_hash e) (qe_plan e) (qe_tok e) l ''post_attn'' dm x ob)))))))))"

definition q_swiglu :: "libm \<Rightarrow> nat \<Rightarrow> f32 list \<Rightarrow> f32 list \<Rightarrow> f32 list res" where
  "q_swiglu lm n gate up = omapM (\<lambda>i. obind (oget gate i) (\<lambda>g. obind (oget up i) (\<lambda>u.
     Ok (f32_mul (f32_div g (f32_add f32_one (expf lm (f32_neg g)))) u)))) [0..<n]"

definition q_ffn :: "q_env \<Rightarrow> nat \<Rightarrow> QuantLayer \<Rightarrow> tensor \<times> RunState \<times> Observers \<Rightarrow> (tensor \<times> RunState \<times> Observers) res" where
  "q_ffn e layer lay = (\<lambda>(x, st, ob).
     (let l = of_nat layer; dm = c_dim (qe_cfg e); hd = c_hidden_dim (qe_cfg e) in
      obind (q_norm e l (param_key ''rms_ffn'' layer) x (l_rms_ffn_weight lay) ob) (\<lambda>(xb, ob).
      obind (q_project e l (param_key ''w1'' layer) xb (l_w1 lay) dm hd ob) (\<lambda>(gate, ob).
      obind (q_project e l (param_key ''w3'' layer) xb (l_w3 lay) dm hd ob) (\<lambda>(up, ob).
      obind (q_swiglu (qe_lm e) hd gate up) (\<lambda>inner.
      obind (q_project e l (param_key ''w2'' layer) inner (l_w2 lay) hd dm ob) (\<lambda>(down, ob).
      obind (q_residual dm x down) (\<lambda>x.
      omap (\<lambda>(x, ob). (x, st, ob))
        (residual_checkpoint (qe_hash e) (qe_plan e) (qe_tok e) l ''post_ffn'' dm x ob)))))))))"

definition q_layer :: "q_env \<Rightarrow> tensor \<times> RunState \<times> Observers \<Rightarrow> nat \<Rightarrow> (tensor \<times> RunState \<times> Observers) res" where
  "q_layer e s layer = obind (oget (q_layers (qe_weights e)) layer) (\<lambda>lay.
     obind (q_attention e layer lay s) (q_ffn e layer lay))"

text \<open>Replacing a plain vector.\<close>

definition override_vec :: "q_env \<Rightarrow> string \<Rightarrow> nat \<Rightarrow> f32 list \<Rightarrow> f32 list" where
  "override_vec e cp n xs = (case plan_override (qe_plan e) (qe_tok e) U32_MAX cp n of Some r \<Rightarrow> r | None \<Rightarrow> xs)"

definition q_lm_head :: "q_env \<Rightarrow> tensor \<Rightarrow> Observers \<Rightarrow> (tensor \<times> Observers) res" where
  "q_lm_head e x ob =
     (let w = qe_weights e; dm = c_dim (qe_cfg e); vs = c_vocab_size (qe_cfg e) in
      obind (q_norm e U32_MAX (str ''rms_final'') x (q_rms_final_weight w) ob) (\<lambda>(x_final, ob).
      let x_final = override_vec e ''pre_lm_head'' dm x_final;
          ob = see_lens (qe_tok e) U32_MAX ''pre_lm_head'' x_final (see_act (qe_hash e) (qe_tok e) U32_MAX ''pre_lm_head'' x_final ob) in
      obind (case q_wcls w of Some t \<Rightarrow> q_project e U32_MAX (str ''wcls'') x_final t dm vs ob
             | None \<Rightarrow> q_project e U32_MAX (str ''token_embd'') x_final (q_token_embedding_table w) dm vs ob) (\<lambda>(logits, ob).
      let logits = override_vec e ''post_lm_head'' vs logits;
          ob = see_act (qe_hash e) (qe_tok e) U32_MAX ''post_lm_head'' logits ob in
      omap (\<lambda>t. (t, ob)) (slice_to_tensor logits [vs]))))"

definition step_with_recorders :: "libm \<Rightarrow> (bytes \<Rightarrow> bytes) \<Rightarrow> Target \<Rightarrow> nat \<Rightarrow> Config \<Rightarrow> QuantizedWeights \<Rightarrow> RunState \<Rightarrow> u32 \<Rightarrow> nat \<Rightarrow>
    Observers \<Rightarrow> InterventionPlan option \<Rightarrow> (tensor \<times> RunState \<times> Observers) res" where
  "step_with_recorders lm H tg base cfg w st token pos ob plan =
     obind (kv_dim cfg) (\<lambda>kvd. obind (kv_mul cfg) (\<lambda>kvm. obind (head_size cfg) (\<lambda>hs.
     let e = \<lparr>qe_lm = lm, qe_hash = H, qe_target = tg, qe_base = base, qe_cfg = cfg, qe_weights = w, qe_plan = plan, qe_pos = pos,
              qe_kvd = kvd, qe_kvm = kvm, qe_hs = hs, qe_regime = rs_regime st\<rparr> in
     obind (embedding_row base (q_token_embedding_table w) (unat token) (c_dim cfg)) (\<lambda>emb.
     obind (slice_to_tensor emb [c_dim cfg]) (\<lambda>x.
     obind (residual_checkpoint H plan (qe_tok e) U32_MAX ''post_embed'' (c_dim cfg) x ob) (\<lambda>(x, ob).
     obind (oloop (q_layer e) [0..<c_n_layers cfg] (x, st, ob)) (\<lambda>(x, st, ob).
     omap (\<lambda>(logits, ob). (logits, st, ob)) (q_lm_head e x ob))))))))"

definition step_with_recorder :: "libm \<Rightarrow> (bytes \<Rightarrow> bytes) \<Rightarrow> Target \<Rightarrow> nat \<Rightarrow> Config \<Rightarrow> QuantizedWeights \<Rightarrow> RunState \<Rightarrow> u32 \<Rightarrow> nat \<Rightarrow>
    PerOpRecorder option \<Rightarrow> (tensor \<times> RunState \<times> PerOpRecorder option) res" where
  "step_with_recorder lm H tg base cfg w st token pos rec =
     omap (\<lambda>(t, st, ob). (t, st, ob_ops ob)) (step_with_recorders lm H tg base cfg w st token pos (no_observers\<lparr>ob_ops := rec\<rparr>) None)"

definition q_step :: "libm \<Rightarrow> (bytes \<Rightarrow> bytes) \<Rightarrow> Target \<Rightarrow> nat \<Rightarrow> Config \<Rightarrow> QuantizedWeights \<Rightarrow> RunState \<Rightarrow> u32 \<Rightarrow> nat \<Rightarrow> (tensor \<times> RunState) res" where
  "q_step lm H tg base cfg w st token pos =
     omap (\<lambda>(t, st, _). (t, st)) (step_with_recorder lm H tg base cfg w st token pos None)"


end
