(* ===== verification/ForwardQOk.thy ===== *)
theory ForwardQOk
  imports ForwardQ DecodeOk
begin

text \<open>
  Properties of the quantised forward pass: the projections return on weights of the right size,
  they do not depend on the build, a step returns on a well-formed model, and observing a step does
  not change it.
\<close>

subsection \<open>Projections\<close>

text \<open>A weight of the right size for its type.\<close>

definition linear_ok :: "nat \<Rightarrow> QuantTensor \<Rightarrow> nat \<Rightarrow> nat \<Rightarrow> bool" where
  "linear_ok base w in_feat out_feat \<longleftrightarrow> (let n = length (qt_bytes w) in n \<le> usize_max \<and> (case qt_dtype w of
      GT_Q4_0 \<Rightarrow> in_feat mod 32 = 0 \<and> n = out_feat * (in_feat div 32) * 18
    | GT_F32 \<Rightarrow> n = out_feat * in_feat * 4 \<and> (base + qt_start w) mod 4 = 0
    | GT_Q4_K \<Rightarrow> q4k_good (qt_bytes w) in_feat out_feat
    | GT_Q6_K \<Rightarrow> q6k_good (qt_bytes w) in_feat out_feat
    | GT_Q8_0 \<Rightarrow> in_feat mod 32 = 0 \<and> out_feat * (in_feat div 32 * 34) \<le> n \<and> in_feat div 32 * 34 \<le> usize_max
    | GT_Q5_0 \<Rightarrow> in_feat mod 32 = 0 \<and> out_feat * (in_feat div 32 * 22) \<le> n \<and> in_feat div 32 * 22 \<le> usize_max
    | _ \<Rightarrow> False))"

text \<open>A pool that runs every row, and one of the two dot pairs.\<close>

definition target_ok :: "Target \<Rightarrow> bool" where
  "target_ok tg \<longleftrightarrow> exact_pair (tg_pair tg) \<and> (\<forall>t x w out_feat b. tg_threads tg = Some t \<longrightarrow>
     fair_schedule out_feat (row_grain out_feat t) (tg_sched tg x w out_feat b))"

lemma rows_loop_oks:
  assumes "\<And>r. r < n \<Longrightarrow> oks (f r) (\<lambda>_. True)" and "length y = n"
  shows "oks (oloop (\<lambda>y r. obind (f r) (oset y r)) [0..<n] y) (\<lambda>y. length y = n)"
  by (rule oks_loop) (use assms in \<open>auto intro!: oks_bind [where P = "\<lambda>_. True"]\<close>)

lemma row_slice_oks:
  assumes "r < n" and "n * m \<le> length xs" and "length xs \<le> usize_max" and "m \<le> usize_max"
  shows "oks (oslice xs (wrap_mul r m) (wrap_mul (r + 1) m)) (\<lambda>s. length s = m)"
proof -
  have le: "r * m + m \<le> length xs" using row_bound_le [OF assms(1), of m] assms(2) by linarith
  then have "wrap_mul (r + 1) m = r * m + m" "wrap_mul r m = r * m" using assms(3) by (simp_all add: add.commute)
  then show ?thesis using le by simp
qed

lemma dispatch_rows_oks:
  assumes "rb = Ok m" and "\<And>bs. length bs = m \<Longrightarrow> oks (decode bs) (\<lambda>xs. length xs = length x)"
    and "out_feat * m \<le> length (qt_bytes w)" and "length (qt_bytes w) \<le> usize_max" and "m \<le> usize_max" and "length y = out_feat"
  shows "oks (dispatch_rows msg decode rb x w (length x) out_feat y) (\<lambda>y. length y = out_feat)"
proof -
  have "wrap_mul out_feat m \<le> length (qt_bytes w)" using assms(3,4) by simp
  moreover have "oks (oloop (\<lambda>y r. obind (oslice (qt_bytes w) (wrap_mul r m) (wrap_mul (r + 1) m)) (\<lambda>bs.
      obind (decode bs) (\<lambda>row. obind (canonical_dot x row (length x)) (oset y r)))) [0..<out_feat] y) (\<lambda>y. length y = out_feat)"
    unfolding obind_assoc [symmetric]
  proof (rule rows_loop_oks)
    fix r assume r: "r < out_feat"
    have *: "oks (obind (oslice (qt_bytes w) (wrap_mul r m) (wrap_mul (r + 1) m)) decode) (\<lambda>xs. length xs = length x)"
      by (rule oks_bind [OF row_slice_oks [OF r assms(3-5)] assms(2)])
    show "oks (obind (obind (oslice (qt_bytes w) (wrap_mul r m) (wrap_mul (r + 1) m)) decode) (\<lambda>row. canonical_dot x row (length x))) (\<lambda>_. True)"
      by (rule oks_bind [OF *]) (simp add: canonical_dot_eq)
  qed (rule assms(6))
  ultimately show ?thesis unfolding dispatch_rows_def assms(1) by simp
qed

lemma dispatch_f32_oks:
  assumes "length (qt_bytes w) = out_feat * length x * 4" and "length (qt_bytes w) \<le> usize_max"
    and "(base + qt_start w) mod 4 = 0" and "length y = out_feat" and "length x \<le> usize_max"
  shows "oks (dispatch_f32 base x w (length x) out_feat y) (\<lambda>y. length y = out_feat)"
proof -
  let ?ws = "words_of (qt_bytes w)"
  have ws: "length ?ws = out_feat * length x" "out_feat * length x \<le> usize_max" using assms(1,2) by (simp_all add: words_of_def)
  have view: "f32_view (base + qt_start w) (qt_bytes w) = Ok ?ws" using assms(1,3) by (simp add: f32_view_def)
  have "oks (oloop (\<lambda>y r. obind (oslice ?ws (wrap_mul r (length x)) (wrap_mul (r + 1) (length x))) (\<lambda>row.
          obind (canonical_dot x row (length x)) (oset y r))) [0..<out_feat] y) (\<lambda>y. length y = out_feat)"
    unfolding obind_assoc [symmetric]
  proof (rule rows_loop_oks)
    fix r assume r: "r < out_feat"
    show "oks (obind (oslice ?ws (wrap_mul r (length x)) (wrap_mul (r + 1) (length x))) (\<lambda>row. canonical_dot x row (length x))) (\<lambda>_. True)"
      by (rule oks_bind [OF row_slice_oks [OF r]]) (use ws assms(5) in \<open>auto simp: canonical_dot_eq\<close>)
  qed (rule assms(4))
  moreover have "wrap_mul (wrap_mul out_feat (length x)) 4 = length (qt_bytes w)" using assms(1,2) ws(2) by simp
  ultimately show ?thesis by (simp add: dispatch_f32_def view)
qed

text \<open>The k-quant layers as functions of the row values.\<close>

lemma q4k_fused_eq:
  assumes "q4k_good w in_feat out_feat" and "in_feat \<le> length x" and "out_feat \<le> length y"
  shows "linear_q4_k_fused x w y 1 in_feat out_feat = Ok (q4f.outputs x w in_feat out_feat y 1)"
  using q4f.serial_eq [OF assms(1), of 1 x y] assms by (simp add: linear_q4_k_fused_def block_consts q4k_good_def)

lemma q4k_rs_eq:
  assumes "q4k_good w in_feat out_feat" and "in_feat \<le> length x" and "out_feat \<le> length y"
  shows "linear_q4_k_integer_rs pair x w y 1 in_feat out_feat = Ok (q4i.outputs running_sum pair x w in_feat out_feat y 1)"
  using q4i.serial_eq [OF assms(1), of 1 x y] assms by (simp add: linear_q4_k_integer_rs_def block_consts q4k_good_def not_less)

lemma q6k_rs_eq:
  assumes "q6k_good w in_feat out_feat" and "in_feat \<le> length x" and "out_feat \<le> length y"
  shows "linear_q6_k_integer_rs x w y 1 in_feat out_feat = Ok (q6i.outputs running_sum x w in_feat out_feat y 1)"
  using q6i.serial_eq [OF assms(1), of 1 x y] assms by (simp add: linear_q6_k_integer_rs_def block_consts q6k_good_def not_less)

lemma outputs_pair:
  assumes "q4k_good w in_feat out_feat" and "in_feat \<le> length x" and "exact_pair p" and "exact_pair p'"
  shows "q4i.outputs c p x w in_feat out_feat y 1 = q4i.outputs c p' x w in_feat out_feat y 1"
  unfolding q4i.outputs_def
  by (rule rows_written_cong) (use q4k_int_vals_pair [OF assms(3,4,1)] assms(2) in simp)

lemma length_outputs:
  assumes "length y = out_feat"
  shows "length (q4f.outputs x w in_feat out_feat y 1) = out_feat" "length (q4i.outputs c p x w in_feat out_feat y 1) = out_feat"
    "length (q6i.outputs c x w in_feat out_feat y 1) = out_feat"
  using assms by (simp_all add: q4f.outputs_def q4i.outputs_def q6i.outputs_def)

lemma dispatch_q4k:
  assumes "qt_dtype w = GT_Q4_K" and "target_ok tg" and "q4k_good (qt_bytes w) in_feat out_feat" and "in_feat \<le> length x"
  shows "linear_dispatch tg base x w in_feat out_feat regime = Ok (if regime = 3
    then q4i.outputs running_sum dot32_pair_scalar x (qt_bytes w) in_feat out_feat (replicate out_feat 0) 1
    else q4f.outputs x (qt_bytes w) in_feat out_feat (replicate out_feat 0) 1)"
proof -
  let ?y = "replicate out_feat 0 :: f32 list" and ?b = "qt_bytes w"
  have rs: "linear_q4_k_integer_rs (tg_pair tg) x ?b ?y 1 in_feat out_feat
      = Ok (q4i.outputs running_sum dot32_pair_scalar x ?b in_feat out_feat ?y 1)"
    using q4k_rs_eq [OF assms(3,4), of ?y] outputs_pair [OF assms(3,4) _ exact_pair_scalar] assms(2) by (simp add: target_ok_def)
  have ser: "linear_q4_k_fused x ?b ?y 1 in_feat out_feat = Ok (q4f.outputs x ?b in_feat out_feat ?y 1)"
    using q4k_fused_eq [OF assms(3,4), of ?y] by simp
  have par: "linear_q4_k_fused_parallel x ?b ?y 1 in_feat out_feat t (tg_sched tg x ?b out_feat) = Ok (q4f.outputs x ?b in_feat out_feat ?y 1)"
    if "tg_threads tg = Some t" for t
    using q4_k_parallel_eq [of in_feat 1 x out_feat ?y t "tg_sched tg x ?b out_feat" ?b] ser assms that by (simp add: q4k_good_def target_ok_def)
  show ?thesis unfolding linear_dispatch_def Let_def assms(1) using rs ser par by (cases "tg_threads tg") simp_all
qed

lemma dispatch_q6k:
  assumes "qt_dtype w = GT_Q6_K" and "target_ok tg" and "q6k_good (qt_bytes w) in_feat out_feat" and "in_feat \<le> length x"
  shows "linear_dispatch tg base x w in_feat out_feat regime = Ok (q6i.outputs (if regime = 3 then running_sum else fixed_tree) x (qt_bytes w)
    in_feat out_feat (replicate out_feat 0) 1)"
proof -
  let ?y = "replicate out_feat 0 :: f32 list" and ?b = "qt_bytes w"
  have rs: "linear_q6_k_integer_rs x ?b ?y 1 in_feat out_feat = Ok (q6i.outputs running_sum x ?b in_feat out_feat ?y 1)"
    using q6k_rs_eq [OF assms(3,4), of ?y] by simp
  have ser: "linear_q6_k_integer x ?b ?y 1 in_feat out_feat = Ok (q6i.outputs fixed_tree x ?b in_feat out_feat ?y 1)"
    using q6i.serial_eq [OF assms(3), of 1 x ?y] assms(3,4) by (simp add: linear_q6_k_integer_def block_consts q6k_good_def not_less)
  have par: "linear_q6_k_integer_parallel x ?b ?y 1 in_feat out_feat t (tg_sched tg x ?b out_feat)
      = Ok (q6i.outputs fixed_tree x ?b in_feat out_feat ?y 1)" if "tg_threads tg = Some t" for t
    using q6_k_integer_parallel_eq(1) [of in_feat 1 x out_feat ?y t "tg_sched tg x ?b out_feat" ?b] assms that by (simp add: q6k_good_def target_ok_def)
  show ?thesis unfolding linear_dispatch_def Let_def assms(1) using rs ser par by (cases "tg_threads tg") simp_all
qed

lemma linear_dispatch_oks:
  assumes "linear_ok base w (length x) out_feat" and "target_ok tg" and "length x \<le> usize_max"
  shows "oks (linear_dispatch tg base x w (length x) out_feat regime) (\<lambda>y. length y = out_feat)"
proof -
  let ?y = "replicate out_feat 0 :: f32 list"
  have n: "length (qt_bytes w) \<le> usize_max" using assms(1) by (simp add: linear_ok_def Let_def)
  note L = assms(1) [unfolded linear_ok_def Let_def]
  show ?thesis
  proof (cases "qt_dtype w")
    case GT_Q4_0
    then show ?thesis using L by (auto simp: linear_dispatch_def linear_q4_0_cpu_outputs)
  next
    case GT_F32
    then show ?thesis using L dispatch_f32_oks [of w out_feat x base ?y] assms(3) by (simp add: linear_dispatch_def)
  next
    case GT_Q4_K
    then show ?thesis using L assms(2) by (simp add: dispatch_q4k length_outputs del: One_nat_def)
  next
    case GT_Q6_K
    then show ?thesis using L assms(2) by (simp add: dispatch_q6k length_outputs del: One_nat_def)
  next
    case GT_Q8_0
    then have *: "length x mod 32 = 0" "out_feat * (length x div 32 * 34) \<le> length (qt_bytes w)" "length x div 32 * 34 \<le> usize_max"
      using L by auto
    have "length x div 32 * 32 = length x" using *(1) by auto
    then have "oks (dequantize_q8_0 bs) (\<lambda>xs. length xs = length x)" if "length bs = length x div 32 * 34" for bs
      using q8_0.dequant_decoded [OF that] q8_0.length_decoded by simp
    then show ?thesis using GT_Q8_0 * n
      by (auto simp: linear_dispatch_def q8_0_row_bytes_def intro!: dispatch_rows_oks [where m = "length x div 32 * 34"])
  next
    case GT_Q5_0
    then have *: "length x mod 32 = 0" "out_feat * (length x div 32 * 22) \<le> length (qt_bytes w)" "length x div 32 * 22 \<le> usize_max"
      using L by auto
    have "length x div 32 * 32 = length x" using *(1) by auto
    then have "oks (dequantize_q5_0 bs) (\<lambda>xs. length xs = length x)" if "length bs = length x div 32 * 22" for bs
      using q5_0.dequant_decoded [OF that] q5_0.length_decoded by simp
    then show ?thesis using GT_Q5_0 * n
      by (auto simp: linear_dispatch_def q5_0_row_bytes_def intro!: dispatch_rows_oks [where m = "length x div 32 * 22"])
  qed (use L in auto)
qed

text \<open>On short activations every layer panics, so the build never matters.\<close>

lemma rows_short:
  assumes "length x < in_feat"
  shows "serial_rows x 1 in_feat out_feat prep row y = Panic" "parallel_rows x 1 in_feat out_feat g sched prep row y = Panic"
  using assms by (simp_all add: serial_rows_def parallel_rows_def oslice_def)

lemma linear_dispatch_target:
  assumes "linear_ok base w in_feat out_feat" and "linear_ok base' w in_feat out_feat" and "target_ok tg" and "target_ok tg'"
  shows "linear_dispatch tg base x w in_feat out_feat regime = linear_dispatch tg' base' x w in_feat out_feat regime"
proof (cases "in_feat \<le> length x \<and> (qt_dtype w = GT_Q4_K \<or> qt_dtype w = GT_Q6_K)")
  case True
  then show ?thesis using assms by (auto simp: dispatch_q4k dispatch_q6k linear_ok_def Let_def)
next
  case False
  then consider "qt_dtype w \<noteq> GT_Q4_K" "qt_dtype w \<noteq> GT_Q6_K" | "length x < in_feat" "qt_dtype w = GT_Q4_K" | "length x < in_feat" "qt_dtype w = GT_Q6_K"
    by fastforce
  then show ?thesis
  proof cases
    case 1
    then show ?thesis using assms(1,2) by (cases "qt_dtype w") (simp_all add: linear_dispatch_def dispatch_f32_def f32_view_def linear_ok_def Let_def)
  next
    case 2
    then have g: "in_feat mod 256 = 0" "\<not> length (qt_bytes w) < out_feat * q4k_row_bytes in_feat"
      using assms(1) by (auto simp: linear_ok_def Let_def q4k_good_def)
    have "linear_dispatch t b x w in_feat out_feat regime = Panic" for t b
      using 2(1) g unfolding linear_dispatch_def Let_def 2(2)
      by (cases "tg_threads t") (simp_all add: linear_q4_k_integer_rs_def linear_q4_k_fused_def linear_q4_k_fused_parallel_def block_consts rows_short del: One_nat_def)
    then show ?thesis by simp
  next
    case 3
    then have g: "in_feat mod 256 = 0" "\<not> length (qt_bytes w) < out_feat * q6k_row_bytes in_feat"
      using assms(1) by (auto simp: linear_ok_def Let_def q6k_good_def)
    have "linear_dispatch t b x w in_feat out_feat regime = Panic" for t b
      using 3(1) g unfolding linear_dispatch_def Let_def 3(2)
      by (cases "tg_threads t") (simp_all add: linear_q6_k_integer_rs_def linear_q6_k_integer_def linear_q6_k_integer_parallel_def block_consts rows_short del: One_nat_def)
    then show ?thesis by simp
  qed
qed

subsection \<open>Well-formed quantised models\<close>

definition layer_ok :: "nat \<Rightarrow> Config \<Rightarrow> QuantLayer \<Rightarrow> bool" where
  "layer_ok base cfg lay \<longleftrightarrow> (let dm = c_dim cfg; hd = c_hidden_dim cfg; kvd = kvd_of cfg in
     length (l_rms_att_weight lay) = dm \<and> length (l_rms_ffn_weight lay) = dm \<and>
     linear_ok base (l_wq lay) dm dm \<and> linear_ok base (l_wk lay) dm kvd \<and> linear_ok base (l_wv lay) dm kvd \<and>
     linear_ok base (l_wo lay) dm dm \<and> linear_ok base (l_w1 lay) dm hd \<and> linear_ok base (l_w3 lay) dm hd \<and>
     linear_ok base (l_w2 lay) hd dm)"

definition q_model_ok :: "nat \<Rightarrow> Config \<Rightarrow> QuantizedWeights \<Rightarrow> bool" where
  "q_model_ok base cfg w \<longleftrightarrow> heads_ok cfg \<and> sizes_ok cfg \<and> length (q_layers w) = c_n_layers cfg \<and>
     (\<forall>lay\<in>set (q_layers w). layer_ok base cfg lay) \<and> length (q_rms_final_weight w) = c_dim cfg \<and>
     linear_ok base (q_token_embedding_table w) (c_dim cfg) (c_vocab_size cfg) \<and>
     (case q_wcls w of Some t \<Rightarrow> linear_ok base t (c_dim cfg) (c_vocab_size cfg) | None \<Rightarrow> True)"

lemma table_row_oks:
  assumes "dm mod block = 0" and "row < n" and "n * (dm div block) * nb \<le> length bs" and "length bs \<le> usize_max"
    and "\<And>s. length s = dm div block * nb \<Longrightarrow> oks (decode s) (\<lambda>xs. length xs = dm)"
  shows "oks (table_row bad past decode block nb bs row dm) (\<lambda>xs. length xs = dm)"
proof -
  let ?k = "dm div block"
  have le: "row * ?k * nb + ?k * nb \<le> length bs"
    using row_bound_le [OF assms(2), of "?k * nb"] assms(3) by (simp add: mult.assoc)
  have a: "wrap_mul (wrap_mul row ?k) nb = row * ?k * nb"
    using le assms(4) by (intro wrap_mul_fits(2)) auto
  have b: "wrap_add (row * ?k * nb) (wrap_mul ?k nb) = row * ?k * nb + ?k * nb" using le assms(4) by simp
  show ?thesis unfolding table_row_def Let_def a b using le assms(1,5) by (simp add: not_less)
qed

lemma embedding_row_oks:
  assumes "linear_ok base te dm n" and "row < n" and "dm \<le> usize_max"
  shows "oks (embedding_row base te row dm) (\<lambda>xs. length xs = dm)"
proof -
  note L = assms(1) [unfolded linear_ok_def Let_def]
  have dec: "dm mod 32 = 0 \<Longrightarrow> length s = dm div 32 * 18 \<Longrightarrow> oks (dequantize_q4_0 s) (\<lambda>xs. length xs = dm)"
    "dm mod 32 = 0 \<Longrightarrow> length s = dm div 32 * 22 \<Longrightarrow> oks (dequantize_q5_0 s) (\<lambda>xs. length xs = dm)"
    "dm mod 32 = 0 \<Longrightarrow> length s = dm div 32 * 34 \<Longrightarrow> oks (dequantize_q8_0 s) (\<lambda>xs. length xs = dm)"
    "dm mod 256 = 0 \<Longrightarrow> length s = dm div 256 * 144 \<Longrightarrow> oks (dequantize_q4_k s) (\<lambda>xs. length xs = dm)"
    "dm mod 256 = 0 \<Longrightarrow> length s = dm div 256 * 210 \<Longrightarrow> oks (dequantize_q6_k s) (\<lambda>xs. length xs = dm)" for s
    using q4_0.dequant_decoded q5_0.dequant_decoded q8_0.dequant_decoded q4_k.dequant_decoded q6_k.dequant_decoded
    by (auto simp: q4_0.length_decoded q5_0.length_decoded q8_0.length_decoded q4_k.length_decoded q6_k.length_decoded)
  show ?thesis
  proof (cases "qt_dtype te")
    case GT_F32
    then have *: "length (qt_bytes te) = n * dm * 4" "(base + qt_start te) mod 4 = 0" "length (qt_bytes te) \<le> usize_max" using L by auto
    have r: "(row + 1) * dm * 4 \<le> n * dm * 4" using assms(2) by (intro mult_le_mono1) simp
    then have w: "wrap_mul (wrap_mul (row + 1) dm) 4 = (row + 1) * dm * 4"
      using * by (intro wrap_mul_fits(2)) auto
    have "oks (oslice (words_of (qt_bytes te)) (wrap_mul row dm) (wrap_mul (row + 1) dm)) (\<lambda>xs. length xs = dm)"
      by (rule row_slice_oks [OF assms(2)]) (use * assms(3) in \<open>auto simp: words_of_def\<close>)
    then show ?thesis using GT_F32 * r unfolding embedding_row_def Let_def
      by (simp only: w GgufTensorType.case) (simp add: f32_view_def not_less)
  qed (use L assms(2) dec in \<open>auto simp: embedding_row_def q4k_good_def q6k_good_def q4k_row_bytes_def q6k_row_bytes_def block_consts mult.assoc
        intro!: table_row_oks\<close>)
qed

lemma length_add_bias [simp]: "length (add_bias v b) = length v"
  by (auto simp: add_bias_def split: option.split)

lemma softmax_inplace_oks: "oks (softmax_inplace lm x) (\<lambda>y. length y = length x)"
  using softmax_row_Ok [of lm x] by (auto simp: softmax_inplace_def softmax_row_def Let_def oks_def outcome_simps)

lemma q_swiglu_oks: "length g = n \<Longrightarrow> length u = n \<Longrightarrow> oks (q_swiglu lm n g u) (\<lambda>y. length y = n)"
  unfolding q_swiglu_def by (subst omapM_Ok) auto


subsection \<open>A step returns\<close>

text \<open>The environment of a step on a well-formed model, at a position of the context.\<close>

definition env_ok :: "q_env \<Rightarrow> bool" where
  "env_ok e \<longleftrightarrow> q_model_ok (qe_base e) (qe_cfg e) (qe_weights e) \<and> target_ok (qe_target e) \<and> qe_pos e < c_seq_len (qe_cfg e) \<and>
     qe_kvd e = kvd_of (qe_cfg e) \<and> qe_kvm e = kvm_of (qe_cfg e) \<and> qe_hs e = hs_of (qe_cfg e)"

lemma env_facts:
  assumes "env_ok e"
  shows "heads_ok (qe_cfg e)" "sizes_ok (qe_cfg e)" "qe_pos e < c_seq_len (qe_cfg e)" "target_ok (qe_target e)"
    "qe_kvd e = kvd_of (qe_cfg e)" "qe_kvm e = kvm_of (qe_cfg e)" "qe_hs e = hs_of (qe_cfg e)"
    "length (q_layers (qe_weights e)) = c_n_layers (qe_cfg e)" "0 < c_dim (qe_cfg e)"
    "lay \<in> set (q_layers (qe_weights e)) \<Longrightarrow> layer_ok (qe_base e) (qe_cfg e) lay"
  using assms by (auto simp: env_ok_def q_model_ok_def heads_ok_def)

lemma q_project_oks:
  assumes "env_ok e" and "linear_ok (qe_base e) w n m" and "length x = n" and "n \<le> usize_max"
  shows "oks (q_project e l key x w n m ob) (\<lambda>(y, ob). length y = m)"
proof -
  have "oks (linear_dispatch (qe_target e) (qe_base e) x w n m (qe_regime e)) (\<lambda>y. length y = m)"
    using linear_dispatch_oks [of "qe_base e" w x m "qe_target e"] assms env_facts(4) by auto
  then show ?thesis unfolding q_project_def qe_linear_def by (rule oks_bind) simp
qed

lemma when_seen_oks: "has_dims t ds \<Longrightarrow> oks (when_seen c t f ob) (\<lambda>_. True)"
  using as_f32_oks [of t ds WHY_Q] by (auto simp: when_seen_def oks_def)

lemma q_norm_oks:
  assumes "has_dims x [n]" and "length ws = n" and "0 < n"
  shows "oks (q_norm e l key x ws ob) (\<lambda>(y, ob). length y = n)"
proof -
  obtain xs where x: "f32_tensor x xs [n]" "n \<le> usize_max" using assms(1) by (auto elim!: has_dimsE)
  have d: "prod_list [n] \<le> usize_max" "[n] \<noteq> []" "0 < last [n]" "length ws = last [n]" using x assms by auto
  have "oks (rms_norm_slice (qe_lm e) x ws (q_rms_eps (qe_weights e))) (\<lambda>t. has_dims t [n])"
    by (rule rms_norm_slice_Ok [OF x(1) d, where lm = "qe_lm e" and eps = "q_rms_eps (qe_weights e)"])
      (simp add: has_dimsI [OF _ d(1)])
  then show ?thesis unfolding q_norm_def
    by (rule oks_bind, intro oks_bind [OF as_f32_oks] oks_map) (auto intro: oks_mono [OF when_seen_oks [OF assms(1)]])
qed

lemma q_qkv_oks:
  assumes "env_ok e" and "lay \<in> set (q_layers (qe_weights e))" and "length xb = c_dim (qe_cfg e)" and "c_dim (qe_cfg e) \<le> usize_max"
  shows "oks (q_qkv e layer lay xb ob) (\<lambda>((q, k, v), ob). length q = c_dim (qe_cfg e) \<and> length k = kvd_of (qe_cfg e) \<and> length v = kvd_of (qe_cfg e))"
proof -
  note E = env_facts [OF assms(1)]
  note L = E(10) [OF assms(2), unfolded layer_ok_def Let_def]
  have out: "attn_q_out_dim (qe_cfg e) = Ok (c_dim (qe_cfg e))"
    using step_dims(3) [OF E(1,2)] heads_facts(1) [OF E(1)] assms(4) by (simp add: attn_q_out_dim_def)
  show ?thesis unfolding q_qkv_def Let_def out obind.simps E(5)
    using q_project_oks [OF assms(1) _ assms(3,4)] L
    by (auto intro!: oks_bind [OF q_project_oks [OF assms(1) _ assms(3,4)]])
qed

lemma rope_neox_oks:
  assumes "length xs = N" and "off + heads * hs \<le> N" and "N \<le> usize_max"
    and "\<And>i. off \<le> i \<Longrightarrow> i < off + heads * hs \<Longrightarrow> P i"
  shows "oks (rope_neox lm theta hs pos heads off xs) (\<lambda>ys. length ys = N \<and> (\<forall>i. \<not> P i \<longrightarrow> ys ! i = xs ! i))"
  unfolding rope_neox_def Let_def
proof (intro oks_loop)
  fix ys h zs j
  assume "h \<in> set [0..<heads]" "j \<in> set [0..<hs div 2]" and z: "length zs = N \<and> (\<forall>i. \<not> P i \<longrightarrow> zs ! i = xs ! i)"
  then have h: "h < heads" and j: "j + hs div 2 < hs" by auto
  have le: "h * hs + hs \<le> heads * hs" by (rule row_bound_le [OF h])
  then have fits: "off + h * hs + j + hs div 2 < off + heads * hs" "h * hs \<le> usize_max" using j assms(2,3) by linarith+
  then have w: "wrap_add (wrap_add off (wrap_mul h hs)) j = off + h * hs + j"
    "wrap_add (off + h * hs + j) (hs div 2) = off + h * hs + j + hs div 2" using assms(2,3) by simp_all
  have p: "P (off + h * hs + j)" "P (off + h * hs + j + hs div 2)" using fits(1) by (auto intro!: assms(4))
  show "oks (rotate_pair (cosf lm (rope_angle lm theta hs pos (2 * j))) (sinf lm (rope_angle lm theta hs pos (2 * j))) zs
      (wrap_add (wrap_add off (wrap_mul h hs)) j) (wrap_add (wrap_add (wrap_add off (wrap_mul h hs)) j) (hs div 2)))
      (\<lambda>ys. length ys = N \<and> (\<forall>i. \<not> P i \<longrightarrow> ys ! i = xs ! i))"
    unfolding w
  proof (rule oks_mono [OF rotate_pair_oks])
    show "off + h * hs + j < length zs" "off + h * hs + j + hs div 2 < length zs" using fits(1) z assms(2) by linarith+
    fix ys assume ys: "length ys = length zs \<and> (\<exists>a b. ys = zs[off + h * hs + j := a, off + h * hs + j + hs div 2 := b])"
    have "k \<noteq> off + h * hs + j \<and> k \<noteq> off + h * hs + j + hs div 2" if "\<not> P k" for k using p that by metis
    then have "ys ! k = zs ! k" if "\<not> P k" for k using ys that by (metis nth_list_update_neq)
    then show "length ys = N \<and> (\<forall>i. \<not> P i \<longrightarrow> ys ! i = xs ! i)" using ys z by metis
  qed
qed (use assms(1) in simp_all)

lemma rope_q_oks:
  assumes "heads_ok cfg" and "sizes_ok cfg" and "l < c_n_layers cfg" and "pos < c_seq_len cfg"
    and "length q = c_dim cfg" and "length kc = cache_size cfg" and "c_dim cfg \<le> usize_max"
  shows "oks (rope_q lm theta neox cfg (hs_of cfg) pos (kvd_of cfg) (kv_offset cfg (kvd_of cfg) l pos) q kc)
    (\<lambda>(q', kc'). length q' = c_dim cfg \<and> kept cfg pos kc kc')"
proof (cases neox)
  case True
  have C: "cache_size cfg \<le> usize_max" using assms(2) by (simp add: sizes_ok_def Let_def)
  note F = heads_facts [OF assms(1)]
  let ?o = "(l * c_seq_len cfg + pos) * kvd_of cfg" and ?n = "c_n_kv_heads cfg"
  have n: "odiv (kvd_of cfg) (hs_of cfg) = Ok ?n" using F(2) by (simp add: odiv_def kvd_of_def)
  have b: "?o + ?n * hs_of cfg \<le> cache_size cfg" using cache_row_bound [OF assms(3,4)] by (simp add: kvd_of_def)
  have pos: "i div kvd_of cfg mod c_seq_len cfg = pos" if "?o \<le> i" "i < ?o + ?n * hs_of cfg" for i
  proof -
    have "i - ?o < kvd_of cfg" "?o + (i - ?o) = i" using that by (simp_all add: kvd_of_def)
    then show ?thesis using cache_row_pos [OF assms(4), of "i - ?o" l] by metis
  qed
  have q: "oks (rope_neox lm theta (hs_of cfg) pos (c_n_heads cfg) 0 q) (\<lambda>q. length q = c_dim cfg)"
    by (rule oks_mono [OF rope_neox_oks [OF assms(5), where P = "\<lambda>_. True"]]) (use F(1) assms(7) in auto)
  have "oks (rope_neox lm theta (hs_of cfg) pos ?n ?o kc) (kept cfg pos kc)"
    by (rule oks_mono [OF rope_neox_oks [OF assms(6) b C, where P = "\<lambda>i. i div kvd_of cfg mod c_seq_len cfg = pos"]])
      (use pos assms(6) in \<open>auto simp: kept_def\<close>)
  then show ?thesis using True unfolding rope_q_def kv_offset_eq [OF assms(3,4) C] n
    by (auto intro!: oks_bind [OF q] oks_map elim!: oks_mono)
next
  case False
  have C: "cache_size cfg \<le> usize_max" using assms(2) by (simp add: sizes_ok_def Let_def)
  show ?thesis using rope_interleaved_oks [OF assms(1) C assms(3-6)] False by (simp add: rope_q_def)
qed

lemma q_store_rope_oks:
  assumes "env_ok e" and "layer < c_n_layers (qe_cfg e)" and "state_ok (qe_cfg e) st" and "length q = c_dim (qe_cfg e)"
    and "length k = kvd_of (qe_cfg e)" and "length v = kvd_of (qe_cfg e)" and "c_dim (qe_cfg e) \<le> usize_max"
  shows "oks (q_store_rope e layer q k v st) (\<lambda>(q, st'). length q = c_dim (qe_cfg e) \<and> state_kept (qe_cfg e) (qe_pos e) st st')"
proof -
  let ?cfg = "qe_cfg e" and ?o = "(layer * c_seq_len (qe_cfg e) + qe_pos e) * kvd_of (qe_cfg e)"
  note E = env_facts [OF assms(1)]
  have C: "cache_size ?cfg \<le> usize_max" using E(2) by (simp add: sizes_ok_def Let_def)
  have b: "?o + kvd_of ?cfg \<le> cache_size ?cfg" by (rule cache_row_bound [OF assms(2) E(3)])
  have w: "wrap_add ?o (kvd_of ?cfg) = ?o + kvd_of ?cfg" using b C by simp
  have s: "kept ?cfg (qe_pos e) xs (splice xs ?o vals)" if "length vals = kvd_of ?cfg" "length xs = cache_size ?cfg" for xs vals
    by (rule kept_splice) (use that b E(3) cache_row_pos in auto)
  have len: "length (rs_key_cache st) = cache_size ?cfg" "length (rs_value_cache st) = cache_size ?cfg"
    using assms(3) by (simp_all add: state_ok_def)
  have r: "oks (rope_q lm theta neox ?cfg (hs_of ?cfg) (qe_pos e) (kvd_of ?cfg) ?o q (splice (rs_key_cache st) ?o k))
      (\<lambda>(q', kc'). length q' = c_dim ?cfg \<and> kept ?cfg (qe_pos e) (rs_key_cache st) kc')" for lm theta neox
    unfolding kv_offset_eq [OF assms(2) E(3) C, symmetric]
  proof (rule oks_mono [OF rope_q_oks [OF E(1,2) assms(2) E(3) assms(4) _ assms(7)]])
    let ?kc = "splice (rs_key_cache st) (kv_offset ?cfg (kvd_of ?cfg) layer (qe_pos e)) k"
    note kc = s [OF assms(5) len(1), folded kv_offset_eq [OF assms(2) E(3) C]]
    show "length ?kc = cache_size ?cfg" using kc len(1) by (simp add: kept_def)
    fix p assume "case p of (q', kc') \<Rightarrow> length q' = c_dim ?cfg \<and> kept ?cfg (qe_pos e) ?kc kc'"
    then show "case p of (q', kc') \<Rightarrow> length q' = c_dim ?cfg \<and> kept ?cfg (qe_pos e) (rs_key_cache st) kc'"
      using kept_trans [OF kc] by (cases p) simp
  qed
  have copy: "ocopy xs ?o (?o + kvd_of ?cfg) vals = Ok (splice xs ?o vals)" if "length vals = kvd_of ?cfg" "length xs = cache_size ?cfg" for xs vals
    using that b by (simp add: ocopy_def)
  show ?thesis unfolding q_store_rope_def Let_def E(5,7) kv_offset_eq [OF assms(2) E(3) C] w
      copy [OF assms(5) len(1)] copy [OF assms(6) len(2)] obind.simps
    by (rule oks_map, rule oks_mono [OF r]) (use s [OF assms(6) len(2)] in \<open>simp add: state_kept_def split: prod.splits\<close>)
qed


lemma q_attn_scores_oks:
  assumes "heads_ok cfg" and "sizes_ok cfg" and "l < c_n_layers cfg" and "tlen \<le> c_seq_len cfg" and "h < c_n_heads cfg"
    and "length q = c_dim cfg" and "length kc = cache_size cfg"
  shows "oks (q_attn_scores cfg (kvd_of cfg) (kvm_of cfg) (hs_of cfg) l tlen sq h q kc) (\<lambda>att. length att = tlen)"
  unfolding q_attn_scores_def
proof (rule oks_loop)
  fix att :: "f32 list" and t assume t: "t \<in> set [0..<tlen]" and att: "length att = tlen"
  have C: "cache_size cfg \<le> usize_max" using assms(2) by (simp add: sizes_ok_def Let_def)
  have "oks (obind (oslice kc k_off (wrap_add k_off (hs_of cfg))) (\<lambda>ks.
         obind (oslice q (wrap_mul h (hs_of cfg)) (wrap_add (wrap_mul h (hs_of cfg)) (hs_of cfg))) (\<lambda>qs.
         obind (canonical_dot qs ks (hs_of cfg)) (\<lambda>score. oset att t (f32_div score sq))))) (\<lambda>att. length att = tlen)"
    if "k_off + hs_of cfg \<le> cache_size cfg" for k_off
  proof -
    have k: "wrap_add k_off (hs_of cfg) = k_off + hs_of cfg" using that C by simp
    have h: "h * hs_of cfg + hs_of cfg \<le> c_dim cfg" using row_bound_le [OF assms(5), of "hs_of cfg"] heads_facts(1) [OF assms(1)] by simp
    have "c_dim cfg \<le> usize_max" by (rule sizes_facts(1) [OF assms(2,1,3)])
    then have "wrap_add (wrap_mul h (hs_of cfg)) (hs_of cfg) = h * hs_of cfg + hs_of cfg" "wrap_mul h (hs_of cfg) = h * hs_of cfg"
      using h by simp_all
    then show ?thesis using k h that assms(6,7) att t by (simp add: canonical_dot_eq)
  qed
  then show "oks (obind (head_offset cfg (kvd_of cfg) (kvm_of cfg) (hs_of cfg) l t h) (\<lambda>k_off.
         obind (oslice kc k_off (wrap_add k_off (hs_of cfg))) (\<lambda>ks.
         obind (oslice q (wrap_mul h (hs_of cfg)) (wrap_add (wrap_mul h (hs_of cfg)) (hs_of cfg))) (\<lambda>qs.
         obind (canonical_dot qs ks (hs_of cfg)) (\<lambda>score. oset att t (f32_div score sq)))))) (\<lambda>att. length att = tlen)"
    using t assms(4) by (intro oks_bind [OF head_offset_oks [OF assms(1) C assms(3) _ assms(5)]]) auto
qed simp

lemma q_attn_values_oks:
  assumes "heads_ok cfg" and "sizes_ok cfg" and "l < c_n_layers cfg" and "tlen \<le> c_seq_len cfg" and "h < c_n_heads cfg"
    and "length att = tlen" and "length vc = cache_size cfg" and "length xb = c_dim cfg"
  shows "oks (q_attn_values cfg (kvd_of cfg) (kvm_of cfg) (hs_of cfg) l tlen h att vc xb) (\<lambda>xb. length xb = c_dim cfg)"
  unfolding q_attn_values_def
proof (rule oks_map, rule oks_mono [OF oks_loop [where P = "\<lambda>(xb, vcol). length xb = c_dim cfg \<and> length vcol = tlen"]])
  fix p :: "f32 list \<times> f32 list" and d assume "d \<in> set [0..<hs_of cfg]"
    and "case p of (xb, vcol) \<Rightarrow> length xb = c_dim cfg \<and> length vcol = tlen"
  then obtain xb vcol where p: "p = (xb, vcol)" "length xb = c_dim cfg" "length vcol = tlen" and d: "d < hs_of cfg" by (cases p) auto
  have C: "cache_size cfg \<le> usize_max" using assms(2) by (simp add: sizes_ok_def Let_def)
  note H = head_index [OF assms(1,2,5) d]
  have col: "oks (oloop (\<lambda>vcol t. obind (head_offset cfg (kvd_of cfg) (kvm_of cfg) (hs_of cfg) l t h) (\<lambda>v_off.
             obind (oget vc (wrap_add v_off d)) (oset vcol t))) [0..<tlen] vcol) (\<lambda>vcol. length vcol = tlen)"
  proof (rule oks_loop)
    fix vcol :: "f32 list" and t assume t: "t \<in> set [0..<tlen]" and v: "length vcol = tlen"
    have "oks (obind (oget vc (wrap_add v_off d)) (oset vcol t)) (\<lambda>vcol. length vcol = tlen)"
      if "v_off + hs_of cfg \<le> cache_size cfg" for v_off
      using that C d assms(7) t v by simp
    then show "oks (obind (head_offset cfg (kvd_of cfg) (kvm_of cfg) (hs_of cfg) l t h) (\<lambda>v_off.
             obind (oget vc (wrap_add v_off d)) (oset vcol t))) (\<lambda>vcol. length vcol = tlen)"
      using t assms(4) by (intro oks_bind [OF head_offset_oks [OF assms(1) C assms(3) _ assms(5)]]) auto
  qed (rule p(3))
  show "oks ((\<lambda>(xb, vcol) d. obind (oloop (\<lambda>vcol t. obind (head_offset cfg (kvd_of cfg) (kvm_of cfg) (hs_of cfg) l t h) (\<lambda>v_off.
             obind (oget vc (wrap_add v_off d)) (oset vcol t))) [0..<tlen] vcol) (\<lambda>vcol.
         obind (canonical_dot att vcol tlen) (\<lambda>r. omap (\<lambda>xb. (xb, vcol)) (oset xb (wrap_add (wrap_mul h (hs_of cfg)) d) r)))) p d)
      (\<lambda>(xb, vcol). length xb = c_dim cfg \<and> length vcol = tlen)"
    unfolding p(1) prod.case by (rule oks_bind [OF col]) (use H p(2) assms(6) in \<open>simp add: canonical_dot_eq\<close>)
qed (use assms(8) in auto)

lemma q_attn_head_oks:
  assumes "heads_ok cfg" and "sizes_ok cfg" and "l < c_n_layers cfg" and "pos < c_seq_len cfg" and "h < c_n_heads cfg"
    and "length q = c_dim cfg" and "length kc = cache_size cfg" and "length vc = cache_size cfg" and "length xb = c_dim cfg"
  shows "oks (q_attn_head lm cfg (kvd_of cfg) (kvm_of cfg) (hs_of cfg) l pos q kc vc xb h) (\<lambda>xb. length xb = c_dim cfg)"
proof -
  have "c_seq_len cfg \<le> cache_size cfg" using heads_facts(4) [OF assms(1)] assms(3) by (simp add: cache_size_def)
  then have t: "wrap_add pos 1 = pos + 1" "pos + 1 \<le> c_seq_len cfg" using assms(2,4) by (simp_all add: sizes_ok_def Let_def)
  show ?thesis unfolding q_attn_head_def Let_def t(1)
    by (intro oks_bind [OF q_attn_scores_oks [OF assms(1-3) t(2) assms(5-7)]] oks_bind [OF softmax_inplace_oks]
        q_attn_values_oks [OF assms(1-3) t(2) assms(5) _ assms(8,9)]) simp
qed

lemma residual_checkpoint_oks:
  assumes "has_dims x [n]" and "n \<le> usize_max"
  shows "oks (residual_checkpoint H plan tok l cp n x ob) (\<lambda>(x, ob). has_dims x [n])"
proof -
  have "length r = n" if "plan_override plan tok l cp n = Some r" for r
    using that by (auto simp: plan_override_def split: option.splits if_splits)
  then have "oks (case plan_override plan tok l cp n of Some r \<Rightarrow> slice_to_tensor r [n] | None \<Rightarrow> Ok x) (\<lambda>x. has_dims x [n])"
    using assms slice_to_tensor_oks [of "[n]"] by (auto simp: MAX_RANK_def split: option.split)
  then show ?thesis unfolding residual_checkpoint_def
    by (rule oks_bind, intro oks_bind [OF when_seen_oks]) auto
qed

lemma q_residual_oks: "has_dims x [n] \<Longrightarrow> length y = n \<Longrightarrow> n \<le> usize_max \<Longrightarrow> oks (q_residual n x y) (\<lambda>x. has_dims x [n])"
  unfolding q_residual_def tensor_add_def
  by (rule oks_bind [OF slice_to_tensor_oks [of "[n]"]]) (auto simp: MAX_RANK_def intro: binary_oks)

text \<open>What holds of the running state between sublayers.\<close>

definition q_running :: "q_env \<Rightarrow> RunState \<Rightarrow> tensor \<times> RunState \<times> Observers \<Rightarrow> bool" where
  "q_running e st0 = (\<lambda>(x, st, ob). has_dims x [c_dim (qe_cfg e)] \<and> state_kept (qe_cfg e) (qe_pos e) st0 st)"

lemma q_attention_oks:
  assumes "env_ok e" and "layer < c_n_layers (qe_cfg e)" and "lay \<in> set (q_layers (qe_weights e))" and "state_ok (qe_cfg e) st0"
    and "q_running e st0 s"
  shows "oks (q_attention e layer lay s) (q_running e st0)"
proof -
  obtain x st ob where s: "s = (x, st, ob)" by (cases s) auto
  let ?dm = "c_dim (qe_cfg e)"
  note E = env_facts [OF assms(1)]
  note L = E(10) [OF assms(3), unfolded layer_ok_def Let_def] and S = sizes_facts [OF E(2,1) assms(2)]
  have x: "has_dims x [?dm]" and st: "state_kept (qe_cfg e) (qe_pos e) st0 st" using assms(5) by (simp_all add: q_running_def s)
  have heads: "oks (oloop (q_attn_head (qe_lm e) (qe_cfg e) (qe_kvd e) (qe_kvm e) (qe_hs e) layer (qe_pos e) q (rs_key_cache st1) (rs_value_cache st1))
      [0..<c_n_heads (qe_cfg e)] (replicate ?dm 0)) (\<lambda>xb. length xb = ?dm)"
    if "length q = ?dm" "state_kept (qe_cfg e) (qe_pos e) st st1" for q st1
    unfolding E(5-7)
    by (rule oks_loop, rule q_attn_head_oks)
      (use E assms(2) that state_ok_kept [OF assms(4) state_kept_trans [OF st that(2)]] in \<open>auto simp: state_ok_def\<close>)
  show ?thesis unfolding q_attention_def s prod.case Let_def
    apply (rule oks_bind [OF q_norm_oks [OF x _ E(9)]], use L in simp, clarify)
    apply (rule oks_bind [OF q_qkv_oks [OF assms(1,3) _ S(1)]], assumption, clarify)
    apply (rule oks_bind [OF q_store_rope_oks [OF assms(1,2) state_ok_kept [OF assms(4) st] _ _ _ S(1)]], assumption+, clarify)
    apply (rule oks_bind [OF heads], assumption+)
    apply (rule oks_bind [OF q_project_oks [OF assms(1) _ _ S(1)]], use L in simp, assumption, clarify)
    apply (rule oks_bind [OF q_residual_oks [OF x _ S(1)]], assumption)
    apply (rule oks_map, rule oks_mono [OF residual_checkpoint_oks [OF _ S(1)]], assumption)
    apply (use state_kept_trans [OF st] in \<open>auto simp: q_running_def\<close>)
    done
qed

lemma q_ffn_oks:
  assumes "env_ok e" and "layer < c_n_layers (qe_cfg e)" and "lay \<in> set (q_layers (qe_weights e))" and "q_running e st0 s"
  shows "oks (q_ffn e layer lay s) (q_running e st0)"
proof -
  obtain x st ob where s: "s = (x, st, ob)" by (cases s) auto
  note E = env_facts [OF assms(1)]
  note L = E(10) [OF assms(3), unfolded layer_ok_def Let_def] and S = sizes_facts [OF E(2,1) assms(2)]
  have x: "has_dims x [c_dim (qe_cfg e)]" and st: "state_kept (qe_cfg e) (qe_pos e) st0 st" using assms(4) by (simp_all add: q_running_def s)
  show ?thesis unfolding q_ffn_def s prod.case Let_def
    apply (rule oks_bind [OF q_norm_oks [OF x _ E(9)]], use L in simp, clarify)
    apply (rule oks_bind [OF q_project_oks [OF assms(1) _ _ S(1)]], use L in simp, assumption, clarify)+
    apply (rule oks_bind [OF q_swiglu_oks], assumption, assumption)
    apply (rule oks_bind [OF q_project_oks [OF assms(1) _ _ S(5)]], use L in simp, assumption, clarify)
    apply (rule oks_bind [OF q_residual_oks [OF x _ S(1)]], assumption)
    apply (rule oks_map, rule oks_mono [OF residual_checkpoint_oks [OF _ S(1)]], assumption)
    apply (use st in \<open>auto simp: q_running_def\<close>)
    done
qed


lemma q_layer_oks:
  assumes "env_ok e" and "layer < c_n_layers (qe_cfg e)" and "state_ok (qe_cfg e) st0" and "q_running e st0 s"
  shows "oks (q_layer e s layer) (q_running e st0)"
proof -
  have l: "layer < length (q_layers (qe_weights e))" using env_facts(8) [OF assms(1)] assms(2) by simp
  then have "q_layers (qe_weights e) ! layer \<in> set (q_layers (qe_weights e))" by simp
  then show ?thesis using l unfolding q_layer_def
    by (simp add: oks_bind [OF q_attention_oks [OF assms(1,2) _ assms(3,4)] q_ffn_oks [OF assms(1,2)]])
qed

lemma length_override_vec: "length xs = n \<Longrightarrow> length (override_vec e cp n xs) = n"
  by (auto simp: override_vec_def plan_override_def split: option.splits if_splits)

lemma q_lm_head_oks:
  assumes "env_ok e" and "has_dims x [c_dim (qe_cfg e)]"
  shows "oks (q_lm_head e x ob) (\<lambda>(t, ob). has_dims t [c_vocab_size (qe_cfg e)])"
proof -
  let ?dm = "c_dim (qe_cfg e)" and ?vs = "c_vocab_size (qe_cfg e)" and ?w = "qe_weights e"
  note E = env_facts [OF assms(1)]
  have W: "length (q_rms_final_weight ?w) = ?dm" "linear_ok (qe_base e) (q_token_embedding_table ?w) ?dm ?vs"
    "\<And>t. q_wcls ?w = Some t \<Longrightarrow> linear_ok (qe_base e) t ?dm ?vs"
    using assms(1) by (auto simp: env_ok_def q_model_ok_def)
  have V: "?vs * ?dm \<le> usize_max" "?dm * ?dm \<le> usize_max" using E(2) by (simp_all add: sizes_ok_def Let_def)
  then have S: "?dm \<le> usize_max" "?vs \<le> usize_max"
    using E(9) by (meson le_trans le_square, metis le_trans mult_le_mono2 nat_mult_1_right Suc_leI One_nat_def)
  have fin: "oks (omap (\<lambda>t. (t, ob)) (slice_to_tensor (override_vec e cp ?vs y) [?vs])) (\<lambda>(t, ob). has_dims t [?vs])"
    if "length y = ?vs" for y ob cp
    using slice_to_tensor_oks [of "[?vs]"] length_override_vec [OF that] S(2) by (auto simp: MAX_RANK_def intro!: oks_map)
  have proj: "oks (case q_wcls ?w of Some t \<Rightarrow> q_project e U32_MAX k y t ?dm ?vs ob
             | None \<Rightarrow> q_project e U32_MAX k' y (q_token_embedding_table ?w) ?dm ?vs ob) (\<lambda>(y, ob). length y = ?vs)"
    if "length y = ?dm" for y ob k k'
    using W that by (auto split: option.split intro: q_project_oks [OF assms(1) _ _ S(1)])
  show ?thesis unfolding q_lm_head_def Let_def
    apply (rule oks_bind [OF q_norm_oks [OF assms(2) W(1) E(9)]], clarify)
    apply (rule oks_bind [OF proj], simp add: length_override_vec, clarify)
    apply (rule fin, assumption)
    done
qed

lemma step_with_recorders_oks:
  assumes "q_model_ok base cfg w" and "target_ok tg" and "state_ok cfg st" and "unat token < c_vocab_size cfg" and "pos < c_seq_len cfg"
  shows "oks (step_with_recorders lm H tg base cfg w st token pos ob plan)
    (\<lambda>(logits, st', ob'). has_dims logits [c_vocab_size cfg] \<and> state_ok cfg st' \<and> state_kept cfg pos st st')"
proof -
  let ?e = "\<lparr>qe_lm = lm, qe_hash = H, qe_target = tg, qe_base = base, qe_cfg = cfg, qe_weights = w, qe_plan = plan, qe_pos = pos,
     qe_kvd = kvd_of cfg, qe_kvm = kvm_of cfg, qe_hs = hs_of cfg, qe_regime = rs_regime st\<rparr>"
  have e: "env_ok ?e" using assms(1,2,5) by (simp add: env_ok_def)
  have M: "heads_ok cfg" "sizes_ok cfg" "linear_ok base (q_token_embedding_table w) (c_dim cfg) (c_vocab_size cfg)"
    using assms(1) by (simp_all add: q_model_ok_def)
  have "c_dim cfg * c_dim cfg \<le> usize_max" using M(2) by (simp add: sizes_ok_def Let_def)
  then have S: "c_dim cfg \<le> usize_max" by (meson le_trans le_square)
  show ?thesis unfolding step_with_recorders_def step_dims [OF M(1,2)] obind.simps Let_def
    apply (rule oks_bind [OF embedding_row_oks [OF M(3) assms(4) S]])
    apply (rule oks_bind [OF slice_to_tensor_oks], simp add: MAX_RANK_def, simp, simp add: S)
    apply (rule oks_bind [OF residual_checkpoint_oks [OF _ S]], assumption, clarify)
    apply (rule oks_bind [OF oks_loop [where P = "q_running ?e st"]])
      apply (rule q_layer_oks [OF e], simp, simp add: assms(3), assumption)
     apply (simp add: q_running_def)
    apply (clarsimp simp: q_running_def)
    apply (rule oks_map, rule oks_mono [OF q_lm_head_oks [OF e]], simp)
    apply (use state_ok_kept [OF assms(3)] in auto)
    done
qed

subsection \<open>What a step does not depend on\<close>

text \<open>Two runs that end alike: related values, the same error, or both a panic.\<close>

definition osim :: "('a \<Rightarrow> 'b \<Rightarrow> bool) \<Rightarrow> 'a res \<Rightarrow> 'b res \<Rightarrow> bool" where
  "osim = rel_outcome (=)"

lemma osim_simps [simp]:
  "osim R (Ok x) (Ok y) \<longleftrightarrow> R x y" "osim R (Err e) (Err e') \<longleftrightarrow> e = e'" "osim R Panic Panic"
  by (simp_all add: osim_def)

lemma osim_bind:
  assumes "osim R m m'" and "\<And>x y. R x y \<Longrightarrow> osim S (f x) (g y)"
  shows "osim S (obind m f) (obind m' g)"
  using assms by (cases m; cases m') (auto simp: osim_def)

lemma osim_bind_eq: "(\<And>x. m = Ok x \<Longrightarrow> osim S (f x) (g x)) \<Longrightarrow> osim S (obind m f) (obind m g)"
  by (cases m) (auto simp: osim_def)

lemma osim_map: "osim (\<lambda>x y. S (f x) (g y)) m m' \<Longrightarrow> osim S (omap f m) (omap g m')"
  by (cases m; cases m') (auto simp: osim_def)

lemma osim_mono: "osim R m m' \<Longrightarrow> (\<And>x y. R x y \<Longrightarrow> S x y) \<Longrightarrow> osim S m m'"
  by (cases m; cases m') (auto simp: osim_def)

lemma osim_refl: "(\<And>x. m = Ok x \<Longrightarrow> R x x) \<Longrightarrow> osim R m m"
  by (cases m) auto

lemma osim_loop:
  assumes "\<And>s t i. i \<in> set is \<Longrightarrow> R s t \<Longrightarrow> osim R (f s i) (g t i)" and "R s t"
  shows "osim R (oloop f is s) (oloop g is t)"
  using assms by (induction "is" arbitrary: s t) (auto intro!: osim_bind [where R = R])

text \<open>Same first components; for a tensor, on the CPU.\<close>

definition same1 :: "'a \<times> 'b \<Rightarrow> 'a \<times> 'c \<Rightarrow> bool" where "same1 p q \<longleftrightarrow> fst p = fst q"

definition on_cpu :: "tensor \<Rightarrow> bool" where "on_cpu t \<longleftrightarrow> (\<exists>s. t_storage t = StCpu s)"

definition same_x :: "tensor \<times> 'b \<Rightarrow> tensor \<times> 'c \<Rightarrow> bool" where "same_x p q \<longleftrightarrow> fst p = fst q \<and> on_cpu (fst p)"

definition same_run :: "tensor \<times> RunState \<times> Observers \<Rightarrow> tensor \<times> RunState \<times> Observers \<Rightarrow> bool" where
  "same_run p q \<longleftrightarrow> fst p = fst q \<and> on_cpu (fst p) \<and> fst (snd p) = fst (snd q)"

lemma slice_to_tensor_cpu: "slice_to_tensor xs ds = Ok t \<Longrightarrow> on_cpu t"
  by (auto simp: slice_to_tensor_def outcome_simps tensor_from_f32_def on_cpu_def split: if_splits)

lemma when_seen_sim: "on_cpu x \<Longrightarrow> osim (\<lambda>_ _. True) (when_seen c x f ob) (when_seen c' x f' ob')"
  by (auto simp: when_seen_def tensor_as_f32_def on_cpu_def)

lemma tensor_add_cpu: "tensor_add x y = Ok z \<Longrightarrow> on_cpu z"
  by (auto simp: tensor_add_def binary_op_def outcome_simps binary_apply_def tensor_from_f32_def on_cpu_def split: if_splits storage.splits)

text \<open>
  Two environments agree when they share the model and the position, their plans replace the same
  vectors at this position, and their projections are the same functions.
\<close>

definition env_agree :: "q_env \<Rightarrow> q_env \<Rightarrow> bool" where
  "env_agree e f \<longleftrightarrow> qe_lm f = qe_lm e \<and> qe_cfg f = qe_cfg e \<and> qe_weights f = qe_weights e \<and> qe_pos f = qe_pos e \<and>
     qe_kvd f = qe_kvd e \<and> qe_kvm f = qe_kvm e \<and> qe_hs f = qe_hs e \<and> qe_regime f = qe_regime e \<and>
     (\<forall>l cp n. plan_override (qe_plan f) (qe_tok e) l cp n = plan_override (qe_plan e) (qe_tok e) l cp n)"

definition linear_agree :: "q_env \<Rightarrow> q_env \<Rightarrow> QuantTensor \<Rightarrow> nat \<Rightarrow> nat \<Rightarrow> bool" where
  "linear_agree e f w n m \<longleftrightarrow> (\<forall>x. qe_linear f x w n m = qe_linear e x w n m)"

lemma env_agreeD:
  assumes "env_agree e f"
  shows "qe_lm f = qe_lm e" "qe_cfg f = qe_cfg e" "qe_weights f = qe_weights e" "qe_pos f = qe_pos e" "qe_tok f = qe_tok e"
    "qe_kvd f = qe_kvd e" "qe_kvm f = qe_kvm e" "qe_hs f = qe_hs e"
    "plan_override (qe_plan f) (qe_tok e) l cp n = plan_override (qe_plan e) (qe_tok e) l cp n"
  using assms by (auto simp: env_agree_def qe_tok_def)

lemma q_project_sim:
  "linear_agree e f w n m \<Longrightarrow> osim same1 (q_project e l k x w n m ob) (q_project f l' k' x w n m ob')"
  unfolding q_project_def linear_agree_def by (auto intro!: osim_bind [where R = "(=)"] osim_refl simp: same1_def)

lemma q_norm_sim:
  assumes "env_agree e f" and "on_cpu x"
  shows "osim same1 (q_norm e l k x ws ob) (q_norm f l k x ws ob')"
  unfolding q_norm_def env_agreeD [OF assms(1)]
  by (rule osim_bind_eq, rule osim_bind_eq, rule osim_map, rule osim_mono [OF when_seen_sim [OF assms(2)]], simp add: same1_def)

lemma residual_checkpoint_sim:
  assumes "\<And>l cp n. plan_override plan' tok l cp n = plan_override plan tok l cp n" and "on_cpu x"
  shows "osim same_x (residual_checkpoint H plan tok l cp n x ob) (residual_checkpoint H' plan' tok l cp n x ob')"
  unfolding residual_checkpoint_def assms(1)
proof (rule osim_bind [where R = "\<lambda>x y. y = x \<and> on_cpu x"])
  show "osim (\<lambda>x y. y = x \<and> on_cpu x) (case plan_override plan tok l cp n of Some r \<Rightarrow> slice_to_tensor r [n] | None \<Rightarrow> Ok x)
      (case plan_override plan tok l cp n of Some r \<Rightarrow> slice_to_tensor r [n] | None \<Rightarrow> Ok x)"
    by (rule osim_refl) (use assms(2) slice_to_tensor_cpu in \<open>auto split: option.splits\<close>)
  fix x y assume xy: "y = x \<and> on_cpu x"
  show "osim same_x (obind (when_seen (ob_acts ob \<noteq> None) x (see_act H tok l cp) ob) (\<lambda>ob.
      obind (when_seen (ob_lens ob \<noteq> None) x (see_lens tok l cp) ob) (\<lambda>ob. Ok (x, ob))))
     (obind (when_seen (ob_acts ob' \<noteq> None) y (see_act H' tok l cp) ob') (\<lambda>ob.
      obind (when_seen (ob_lens ob \<noteq> None) y (see_lens tok l cp) ob) (\<lambda>ob. Ok (y, ob))))"
    using xy by (clarify, intro osim_bind [OF when_seen_sim]) (simp_all add: same_x_def)
qed


definition layer_agree :: "q_env \<Rightarrow> q_env \<Rightarrow> QuantLayer \<Rightarrow> bool" where
  "layer_agree e f lay \<longleftrightarrow> (let dm = c_dim (qe_cfg e); hd = c_hidden_dim (qe_cfg e); kvd = qe_kvd e in
     (\<forall>n. attn_q_out_dim (qe_cfg e) = Ok n \<longrightarrow> linear_agree e f (l_wq lay) dm n) \<and>
     linear_agree e f (l_wk lay) dm kvd \<and> linear_agree e f (l_wv lay) dm kvd \<and> linear_agree e f (l_wo lay) dm dm \<and>
     linear_agree e f (l_w1 lay) dm hd \<and> linear_agree e f (l_w3 lay) dm hd \<and> linear_agree e f (l_w2 lay) hd dm)"

lemma osim_bind_same1:
  "osim same1 m m' \<Longrightarrow> (\<And>x ob ob'. osim S (f (x, ob)) (g (x, ob'))) \<Longrightarrow> osim S (obind m f) (obind m' g)"
  by (rule osim_bind [where R = same1]) (auto simp: same1_def)

lemma osim_bind_same1_3:
  "osim same1 m m' \<Longrightarrow> (\<And>a b c ob ob'. osim S (f ((a, b, c), ob)) (g ((a, b, c), ob'))) \<Longrightarrow> osim S (obind m f) (obind m' g)"
  by (rule osim_bind [where R = same1]) (auto simp: same1_def)

lemma osim_bind_eq2: "(\<And>a b. m = Ok (a, b) \<Longrightarrow> osim S (f (a, b)) (g (a, b))) \<Longrightarrow> osim S (obind m f) (obind m g)"
  by (rule osim_bind_eq) auto

lemma q_qkv_sim:
  assumes "env_agree e f" and "layer_agree e f lay"
  shows "osim same1 (q_qkv e layer lay xb ob) (q_qkv f layer lay xb ob')"
proof -
  note L = assms(2) [unfolded layer_agree_def Let_def]
  show ?thesis unfolding q_qkv_def Let_def env_agreeD [OF assms(1)]
    apply (rule osim_bind_eq)
    apply (rule osim_bind_same1, rule q_project_sim, use L in blast, simp only: prod.case)+
    apply (simp add: same1_def)
    done
qed

lemma q_attention_sim:
  assumes "env_agree e f" and "layer_agree e f lay" and "same_run s t"
  shows "osim same_run (q_attention e layer lay s) (q_attention f layer lay t)"
proof -
  obtain x st ob ob' where s: "s = (x, st, ob)" "t = (x, st, ob')" and x: "on_cpu x"
    using assms(3) by (cases s; cases t) (auto simp: same_run_def)
  note A = env_agreeD [OF assms(1)] and L = assms(2) [unfolded layer_agree_def Let_def]
  have store: "q_store_rope f layer q k v st = q_store_rope e layer q k v st" for q k v by (simp add: q_store_rope_def A)
  show ?thesis unfolding q_attention_def s prod.case Let_def A store
    apply (rule osim_bind_same1, rule q_norm_sim [OF assms(1) x], simp only: prod.case)
    apply (rule osim_bind_same1_3, rule q_qkv_sim [OF assms(1,2)], simp only: prod.case)
    apply (rule osim_bind_eq2, simp only: prod.case)
    apply (rule osim_bind_eq)
    apply (rule osim_bind_same1, rule q_project_sim, use L in blast, simp only: prod.case)
    apply (rule osim_bind_eq, rule osim_map)
    apply (rule osim_mono, rule residual_checkpoint_sim [OF A(9)])
    apply (use tensor_add_cpu in \<open>auto simp: q_residual_def outcome_simps same_x_def same_run_def\<close>)
    done
qed

lemma q_ffn_sim:
  assumes "env_agree e f" and "layer_agree e f lay" and "same_run s t"
  shows "osim same_run (q_ffn e layer lay s) (q_ffn f layer lay t)"
proof -
  obtain x st ob ob' where s: "s = (x, st, ob)" "t = (x, st, ob')" and x: "on_cpu x"
    using assms(3) by (cases s; cases t) (auto simp: same_run_def)
  note A = env_agreeD [OF assms(1)] and L = assms(2) [unfolded layer_agree_def Let_def]
  show ?thesis unfolding q_ffn_def s prod.case Let_def A
    apply (rule osim_bind_same1, rule q_norm_sim [OF assms(1) x], simp only: prod.case)
    apply (rule osim_bind_same1, rule q_project_sim, use L in blast, simp only: prod.case)+
    apply (rule osim_bind_eq)
    apply (rule osim_bind_same1, rule q_project_sim, use L in blast, simp only: prod.case)
    apply (rule osim_bind_eq, rule osim_map)
    apply (rule osim_mono, rule residual_checkpoint_sim [OF A(9)])
    apply (use tensor_add_cpu in \<open>auto simp: q_residual_def outcome_simps same_x_def same_run_def\<close>)
    done
qed

lemma q_layer_sim:
  assumes "env_agree e f" and "\<And>lay. lay \<in> set (q_layers (qe_weights e)) \<Longrightarrow> layer_agree e f lay" and "same_run s t"
  shows "osim same_run (q_layer e s layer) (q_layer f t layer)"
  unfolding q_layer_def env_agreeD [OF assms(1)]
proof (rule osim_bind_eq)
  fix lay assume "oget (q_layers (qe_weights e)) layer = Ok lay"
  then have "layer_agree e f lay" using assms(2) by (simp add: outcome_simps)
  then show "osim same_run (obind (q_attention e layer lay s) (q_ffn e layer lay)) (obind (q_attention f layer lay t) (q_ffn f layer lay))"
    by (intro osim_bind [OF q_attention_sim [OF assms(1) _ assms(3)]] q_ffn_sim [OF assms(1)])
qed

lemma q_lm_head_sim:
  assumes "env_agree e f" and "on_cpu x"
    and "\<And>t. q_wcls (qe_weights e) = Some t \<Longrightarrow> linear_agree e f t (c_dim (qe_cfg e)) (c_vocab_size (qe_cfg e))"
    and "linear_agree e f (q_token_embedding_table (qe_weights e)) (c_dim (qe_cfg e)) (c_vocab_size (qe_cfg e))"
  shows "osim same1 (q_lm_head e x ob) (q_lm_head f x ob')"
proof -
  note A = env_agreeD [OF assms(1)]
  have o: "override_vec f cp n xs = override_vec e cp n xs" for cp n xs by (simp add: override_vec_def A)
  show ?thesis unfolding q_lm_head_def Let_def A o
    apply (rule osim_bind_same1, rule q_norm_sim [OF assms(1,2)], simp only: prod.case)
    apply (rule osim_bind_same1)
     apply (simp split: option.split, intro conjI impI allI q_project_sim assms(3,4), assumption)
    apply (simp only: prod.case, rule osim_map, rule osim_refl, simp add: same1_def)
    done
qed

text \<open>The outcome without the observers.\<close>

definition unobserved :: "(tensor \<times> RunState \<times> Observers) res \<Rightarrow> (tensor \<times> RunState) res" where
  "unobserved = omap (\<lambda>(t, st, _). (t, st))"

lemma step_with_recorders_sim:
  assumes plan: "\<And>l cp n. plan_override plan' (of_nat pos) l cp n = plan_override plan (of_nat pos) l cp n"
    and lin: "\<And>t n m x. (t, n, m) \<in> T \<Longrightarrow> linear_dispatch tg' base' x t n m (rs_regime st) = linear_dispatch tg base x t n m (rs_regime st)"
    and T: "\<And>lay q kvd. lay \<in> set (q_layers w) \<Longrightarrow> attn_q_out_dim cfg = Ok q \<Longrightarrow> kv_dim cfg = Ok kvd \<Longrightarrow>
       {(l_wq lay, c_dim cfg, q), (l_wk lay, c_dim cfg, kvd), (l_wv lay, c_dim cfg, kvd), (l_wo lay, c_dim cfg, c_dim cfg),
        (l_w1 lay, c_dim cfg, c_hidden_dim cfg), (l_w3 lay, c_dim cfg, c_hidden_dim cfg), (l_w2 lay, c_hidden_dim cfg, c_dim cfg)} \<subseteq> T"
    and "\<And>t. q_wcls w = Some t \<Longrightarrow> (t, c_dim cfg, c_vocab_size cfg) \<in> T" and "(q_token_embedding_table w, c_dim cfg, c_vocab_size cfg) \<in> T"
    and emb: "embedding_row base' (q_token_embedding_table w) (unat token) (c_dim cfg) = embedding_row base (q_token_embedding_table w) (unat token) (c_dim cfg)"
  shows "unobserved (step_with_recorders lm H tg base cfg w st token pos ob plan)
    = unobserved (step_with_recorders lm H' tg' base' cfg w st token pos ob' plan')"
proof -
  let ?R = "\<lambda>(t, st, _) (t', st', _). t = t' \<and> st = st'"
  have "osim ?R (step_with_recorders lm H tg base cfg w st token pos ob plan) (step_with_recorders lm H' tg' base' cfg w st token pos ob' plan')"
    unfolding step_with_recorders_def Let_def emb
  proof (intro osim_bind_eq)
    fix kvd kvm hs emb x
    assume k: "kv_dim cfg = Ok kvd" and hs: "head_size cfg = Ok hs" and x: "slice_to_tensor emb [c_dim cfg] = Ok x"
    let ?e = "\<lparr>qe_lm = lm, qe_hash = H, qe_target = tg, qe_base = base, qe_cfg = cfg, qe_weights = w, qe_plan = plan, qe_pos = pos,
       qe_kvd = kvd, qe_kvm = kvm, qe_hs = hs, qe_regime = rs_regime st\<rparr>"
    let ?f = "\<lparr>qe_lm = lm, qe_hash = H', qe_target = tg', qe_base = base', qe_cfg = cfg, qe_weights = w, qe_plan = plan', qe_pos = pos,
       qe_kvd = kvd, qe_kvm = kvm, qe_hs = hs, qe_regime = rs_regime st\<rparr>"
    have tok: "qe_tok ?e = of_nat pos" "qe_tok ?f = of_nat pos" by (simp_all add: qe_tok_def)
    have A: "env_agree ?e ?f" using plan by (simp add: env_agree_def tok)
    have la: "linear_agree ?e ?f t n m" if "(t, n, m) \<in> T" for t n m using lin [OF that] by (simp add: linear_agree_def qe_linear_def)
    have lay: "layer_agree ?e ?f lay" if "lay \<in> set (q_layers (qe_weights ?e))" for lay
    proof -
      have "attn_q_out_dim cfg = Ok (wrap_mul (c_n_heads cfg) hs)" by (simp add: attn_q_out_dim_def hs)
      then show ?thesis using T [OF _ _ k, of lay] that la unfolding layer_agree_def Let_def by auto
    qed
    show "osim ?R
      (obind (residual_checkpoint H plan (qe_tok ?e) U32_MAX ''post_embed'' (c_dim cfg) x ob) (\<lambda>(x, ob).
       obind (oloop (q_layer ?e) [0..<c_n_layers cfg] (x, st, ob)) (\<lambda>(x, st, ob). omap (\<lambda>(logits, ob). (logits, st, ob)) (q_lm_head ?e x ob))))
      (obind (residual_checkpoint H' plan' (qe_tok ?f) U32_MAX ''post_embed'' (c_dim cfg) x ob') (\<lambda>(x, ob).
       obind (oloop (q_layer ?f) [0..<c_n_layers cfg] (x, st, ob)) (\<lambda>(x, st, ob). omap (\<lambda>(logits, ob). (logits, st, ob)) (q_lm_head ?f x ob))))"
      unfolding tok
    proof (rule osim_bind [OF residual_checkpoint_sim [OF plan slice_to_tensor_cpu [OF x]]])
      fix p q :: "tensor \<times> Observers" assume "same_x p q"
      then obtain y o1 o2 where pq: "p = (y, o1)" "q = (y, o2)" "on_cpu y" by (cases p; cases q) (auto simp: same_x_def)
      show "osim ?R (case p of (x, ob) \<Rightarrow> obind (oloop (q_layer ?e) [0..<c_n_layers cfg] (x, st, ob)) (\<lambda>(x, st, ob). omap (\<lambda>(logits, ob). (logits, st, ob)) (q_lm_head ?e x ob)))
        (case q of (x, ob) \<Rightarrow> obind (oloop (q_layer ?f) [0..<c_n_layers cfg] (x, st, ob)) (\<lambda>(x, st, ob). omap (\<lambda>(logits, ob). (logits, st, ob)) (q_lm_head ?f x ob)))"
        unfolding pq(1,2) prod.case
      proof (rule osim_bind [OF osim_loop [where R = same_run]])
        show "osim same_run (q_layer ?e s i) (q_layer ?f t i)" if "same_run s t" for s t i by (rule q_layer_sim [OF A lay that])
        show "same_run (y, st, o1) (y, st, o2)" using pq(3) by (simp add: same_run_def)
        fix s t assume "same_run s t"
        then obtain z st' o3 o4 where st: "s = (z, st', o3)" "t = (z, st', o4)" "on_cpu z" by (cases s; cases t) (auto simp: same_run_def)
        show "osim ?R (case s of (x, st, ob) \<Rightarrow> omap (\<lambda>(logits, ob). (logits, st, ob)) (q_lm_head ?e x ob))
          (case t of (x, st, ob) \<Rightarrow> omap (\<lambda>(logits, ob). (logits, st, ob)) (q_lm_head ?f x ob))"
          unfolding st(1,2) prod.case
          by (rule osim_map, rule osim_mono [OF q_lm_head_sim [OF A st(3)]]) (use assms(4,5) la in \<open>auto simp: same1_def\<close>)
      qed
    qed
  qed
  then show ?thesis unfolding unobserved_def
    by (cases "step_with_recorders lm H tg base cfg w st token pos ob plan"; cases "step_with_recorders lm H' tg' base' cfg w st token pos ob' plan'")
      (auto simp: osim_def)
qed


subsection \<open>How much is recorded\<close>

lemma obind_OkE: "obind m f = Ok y \<Longrightarrow> (\<And>x. m = Ok x \<Longrightarrow> f x = Ok y \<Longrightarrow> P) \<Longrightarrow> P"
  by (auto simp: outcome_simps)

lemma omap_OkE: "omap f m = Ok y \<Longrightarrow> (\<And>x. m = Ok x \<Longrightarrow> y = f x \<Longrightarrow> P) \<Longrightarrow> P"
  by (auto simp: outcome_simps)

text \<open>Sizes of the three records, where they are kept.\<close>

definition seen :: "Observers \<Rightarrow> nat option \<times> nat option \<times> nat option" where
  "seen ob = (map_option (\<lambda>r. length (cb_ops (por_builder r))) (ob_ops ob), map_option (\<lambda>b. length (cb_activations b)) (ob_acts ob),
     map_option length (ob_lens ob))"

definition more :: "nat \<Rightarrow> nat \<Rightarrow> nat \<Rightarrow> nat option \<times> nat option \<times> nat option \<Rightarrow> nat option \<times> nat option \<times> nat option" where
  "more a b c = (\<lambda>(x, y, z). (map_option (\<lambda>n. n + a) x, map_option (\<lambda>n. n + b) y, map_option (\<lambda>n. n + c) z))"

lemma more_more [simp]: "more a b c (more a' b' c' s) = more (a + a') (b + b') (c + c') s"
  by (cases s) (simp add: more_def option.map_comp comp_def ac_simps)

lemma more_0 [simp]: "more 0 0 0 s = s"
  by (cases s) (simp add: more_def option.map_ident)

lemma seen_see [simp]:
  "seen (see_op H nm l k x y ob) = more 1 0 0 (seen ob)"
  "seen (see_act H tok l cp xs ob) = more 0 1 0 (seen ob)"
  "seen (see_lens tok l cp xs ob) = more 0 0 1 (seen ob)"
  by (simp_all add: seen_def more_def see_op_def see_act_def see_lens_def option.map_comp comp_def per_op_record_def declare_op_def
      per_activation_record_def declare_activation_def lens_push_def Let_def option.map_ident)

lemma more_unseen:
  "ob_ops ob = None \<Longrightarrow> more a 0 0 (seen ob) = seen ob" "ob_acts ob = None \<Longrightarrow> more 0 a 0 (seen ob) = seen ob"
  "ob_lens ob = None \<Longrightarrow> more 0 0 a (seen ob) = seen ob"
  by (simp_all add: more_def seen_def option.map_ident)

lemma when_seen_op: "when_seen (ob_ops ob \<noteq> None) t (\<lambda>xs. see_op H nm l k xs y) ob = Ok ob' \<Longrightarrow> seen ob' = more 1 0 0 (seen ob)"
  by (cases "ob_ops ob") (auto simp: when_seen_def outcome_simps more_unseen)

lemma when_seen_act: "when_seen (ob_acts ob \<noteq> None) t (see_act H tok l cp) ob = Ok ob' \<Longrightarrow> seen ob' = more 0 1 0 (seen ob)"
  by (cases "ob_acts ob") (auto simp: when_seen_def outcome_simps more_unseen)

lemma when_seen_lens: "when_seen (ob_lens ob \<noteq> None) t (see_lens tok l cp) ob = Ok ob' \<Longrightarrow> seen ob' = more 0 0 1 (seen ob)"
  by (cases "ob_lens ob") (auto simp: when_seen_def outcome_simps more_unseen)

lemma q_project_seen: "q_project e l k x w n m ob = Ok (y, ob') \<Longrightarrow> seen ob' = more 1 0 0 (seen ob)"
  by (auto simp: q_project_def outcome_simps)

lemma q_norm_seen: "q_norm e l k x ws ob = Ok (y, ob') \<Longrightarrow> seen ob' = more 1 0 0 (seen ob)"
  by (auto simp: q_norm_def outcome_simps simp del: not_None_eq dest: when_seen_op)

lemma residual_checkpoint_seen: "residual_checkpoint H plan tok l cp n x ob = Ok (y, ob') \<Longrightarrow> seen ob' = more 0 1 1 (seen ob)"
  by (auto simp: residual_checkpoint_def outcome_simps simp del: not_None_eq dest!: when_seen_act when_seen_lens)

lemma q_qkv_seen: "q_qkv e layer lay xb ob = Ok (v, ob') \<Longrightarrow> seen ob' = more 3 0 0 (seen ob)"
  by (auto simp: q_qkv_def outcome_simps Let_def eval_nat_numeral dest!: q_project_seen)

lemma q_attention_seen: "q_attention e layer lay (x, st, ob) = Ok (x', st', ob') \<Longrightarrow> seen ob' = more 5 1 2 (seen ob)"
  by (auto simp: q_attention_def outcome_simps Let_def eval_nat_numeral dest!: q_project_seen q_norm_seen q_qkv_seen residual_checkpoint_seen)

lemma q_ffn_seen: "q_ffn e layer lay (x, st, ob) = Ok (x', st', ob') \<Longrightarrow> seen ob' = more 4 1 1 (seen ob)"
  by (auto simp: q_ffn_def outcome_simps Let_def eval_nat_numeral dest!: q_project_seen q_norm_seen residual_checkpoint_seen)

lemma q_layer_seen: "q_layer e (x, st, ob) layer = Ok (x', st', ob') \<Longrightarrow> seen ob' = more 9 2 3 (seen ob)"
  by (auto simp: q_layer_def outcome_simps eval_nat_numeral dest!: q_attention_seen q_ffn_seen)

lemma q_layers_seen: "oloop (q_layer e) ls (x, st, ob) = Ok (x', st', ob') \<Longrightarrow>
    seen ob' = more (9 * length ls) (2 * length ls) (3 * length ls) (seen ob)"
proof (induction ls arbitrary: x st ob)
  case Nil
  then show ?case by simp
next
  case (Cons l ls)
  then obtain y st1 ob1 where "q_layer e (x, st, ob) l = Ok (y, st1, ob1)" "oloop (q_layer e) ls (y, st1, ob1) = Ok (x', st', ob')"
    by (auto simp: outcome_simps)
  then have "seen ob1 = more 9 2 3 (seen ob)" "seen ob' = more (9 * length ls) (2 * length ls) (3 * length ls) (seen ob1)"
    using q_layer_seen Cons.IH by blast+
  then show ?case by (simp only: more_more) (simp add: ac_simps)
qed

lemma q_head_parts:
  assumes "q_lm_head e x ob = Ok (t, ob')"
  obtains p r :: "f32 list \<times> Observers" where "seen (snd p) = more 1 0 0 (seen ob)" and "seen (snd r) = more 1 1 1 (seen (snd p))"
    and "seen ob' = more 0 1 0 (seen (snd r))"
    and "slice_to_tensor (override_vec e ''post_lm_head'' (c_vocab_size (qe_cfg e)) (fst r)) [c_vocab_size (qe_cfg e)] = Ok t"
  using assms unfolding q_lm_head_def Let_def split_beta
proof (elim obind_OkE omap_OkE)
  fix p r :: "f32 list \<times> Observers" and t'
  let ?v = "override_vec e ''pre_lm_head'' (c_dim (qe_cfg e)) (fst p)"
  let ?ob = "see_lens (qe_tok e) U32_MAX ''pre_lm_head'' ?v (see_act (qe_hash e) (qe_tok e) U32_MAX ''pre_lm_head'' ?v (snd p))"
  assume n: "q_norm e U32_MAX (str ''rms_final'') x (q_rms_final_weight (qe_weights e)) ob = Ok p"
    and r: "(case q_wcls (qe_weights e) of
       Some t \<Rightarrow> q_project e U32_MAX (str ''wcls'') ?v t (c_dim (qe_cfg e)) (c_vocab_size (qe_cfg e)) ?ob
     | None \<Rightarrow> q_project e U32_MAX (str ''token_embd'') ?v (q_token_embedding_table (qe_weights e)) (c_dim (qe_cfg e)) (c_vocab_size (qe_cfg e)) ?ob) = Ok r"
    and t: "slice_to_tensor (override_vec e ''post_lm_head'' (c_vocab_size (qe_cfg e)) (fst r)) [c_vocab_size (qe_cfg e)] = Ok t'"
      "(t, ob') = (t', see_act (qe_hash e) (qe_tok e) U32_MAX ''post_lm_head'' (override_vec e ''post_lm_head'' (c_vocab_size (qe_cfg e)) (fst r)) (snd r))"
  show thesis
  proof (rule that [of p r])
    show "seen (snd p) = more 1 0 0 (seen ob)" using n q_norm_seen by (cases p) simp
    have "seen (snd r) = more 1 0 0 (seen ?ob)" using r q_project_seen by (cases r) (simp split: option.splits)
    then show "seen (snd r) = more 1 1 1 (seen (snd p))" by simp
  qed (use t in simp_all)
qed

lemma q_lm_head_seen:
  assumes "q_lm_head e x ob = Ok (t, ob')"
  shows "seen ob' = more 2 2 1 (seen ob)"
proof (rule q_head_parts [OF assms])
  fix p r :: "f32 list \<times> Observers"
  assume 1: "seen (snd p) = more 1 0 0 (seen ob)" and 2: "seen (snd r) = more 1 1 1 (seen (snd p))" and 3: "seen ob' = more 0 1 0 (seen (snd r))"
  show ?thesis unfolding 3 2 1 more_more by (simp add: eval_nat_numeral)
qed

lemma step_parts:
  assumes "step_with_recorders lm H tg base cfg w st token pos ob plan = Ok (t, st', ob')"
  obtains e x p s r where "residual_checkpoint H plan (qe_tok e) U32_MAX ''post_embed'' (c_dim cfg) x ob = Ok p"
    and "oloop (q_layer e) [0..<c_n_layers cfg] (fst p, st, snd p) = Ok s" and "q_lm_head e (fst s) (snd (snd s)) = Ok r"
    and "t = fst r" "ob' = snd r" "qe_plan e = plan" "qe_tok e = of_nat pos" "qe_cfg e = cfg"
  using assms unfolding step_with_recorders_def Let_def split_beta
proof (elim obind_OkE omap_OkE)
  fix kvd kvm hs emb x p s r
  let ?e = "\<lparr>qe_lm = lm, qe_hash = H, qe_target = tg, qe_base = base, qe_cfg = cfg, qe_weights = w, qe_plan = plan, qe_pos = pos,
     qe_kvd = kvd, qe_kvm = kvm, qe_hs = hs, qe_regime = rs_regime st\<rparr>"
  assume "residual_checkpoint H plan (qe_tok ?e) U32_MAX ''post_embed'' (c_dim cfg) x ob = Ok p"
    "oloop (q_layer ?e) [0..<c_n_layers cfg] (fst p, st, snd p) = Ok s"
    "q_lm_head ?e (fst s) (snd (snd s)) = Ok r" "(t, st', ob') = (fst r, fst (snd s), snd r)"
  then show thesis by (intro that [of ?e x p s r]) (simp_all add: qe_tok_def)
qed

lemma step_seen:
  assumes "step_with_recorders lm H tg base cfg w st token pos ob plan = Ok (t, st', ob')"
  shows "seen ob' = more (9 * c_n_layers cfg + 2) (2 * c_n_layers cfg + 3) (3 * c_n_layers cfg + 2) (seen ob)"
proof (rule step_parts [OF assms])
  fix e x and p :: "tensor \<times> Observers" and s and r :: "tensor \<times> Observers"
  assume p: "residual_checkpoint H plan (qe_tok e) U32_MAX ''post_embed'' (c_dim cfg) x ob = Ok p"
    and s: "oloop (q_layer e) [0..<c_n_layers cfg] (fst p, st, snd p) = Ok s" and r: "q_lm_head e (fst s) (snd (snd s)) = Ok r" "ob' = snd r"
  have "seen (snd p) = more 0 1 1 (seen ob)" using p residual_checkpoint_seen by (cases p) simp
  moreover have "seen (snd (snd s)) = more (9 * c_n_layers cfg) (2 * c_n_layers cfg) (3 * c_n_layers cfg) (seen (snd p))"
    using s q_layers_seen by (cases s) fastforce
  moreover have "seen ob' = more 2 2 1 (seen (snd (snd s)))" using r q_lm_head_seen by (cases r) simp
  ultimately show ?thesis by (simp only: more_more) (simp add: ac_simps eval_nat_numeral)
qed

text \<open>The override of the logits decides the result.\<close>

lemma step_post_lm_head:
  assumes "step_with_recorders lm H tg base cfg w st token pos ob (Some p) = Ok (t, st', ob')"
    and "plan_lookup p (of_nat pos) U32_MAX (str ''post_lm_head'') = Some r" and "length r = c_vocab_size cfg"
  shows "slice_to_tensor r [c_vocab_size cfg] = Ok t"
proof (rule step_parts [OF assms(1)])
  fix e s and q :: "tensor \<times> Observers"
  assume e: "qe_plan e = Some p" "qe_tok e = of_nat pos" "qe_cfg e = cfg" and q: "q_lm_head e (fst s) (snd (snd s)) = Ok q" "t = fst q"
  have "override_vec e ''post_lm_head'' (c_vocab_size cfg) xs = r" for xs
    using assms(2,3) by (simp add: override_vec_def plan_override_def e)
  then show ?thesis using q by (cases q) (auto simp: e elim: q_head_parts)
qed

lemma plan_lookup_add: "plan_lookup (plan_add tok l cp r p) tok l cp = Some r"
  by (simp add: plan_lookup_def plan_add_def)

lemma plan_override_inert: "\<forall>e\<in>set p. ie_token_index e \<noteq> tok \<Longrightarrow> plan_override (Some p) tok l cp n = None"
proof -
  assume "\<forall>e\<in>set p. ie_token_index e \<noteq> tok"
  then have "find (\<lambda>e. ie_token_index e = tok \<and> ie_layer e = l \<and> ie_checkpoint e = str cp) (rev p) = None"
    by (auto simp: find_None_iff)
  then show ?thesis by (simp add: plan_override_def plan_lookup_def)
qed

text \<open>A smallest quantised model: all matrices \<open>f32\<close>, tied embedding.\<close>

definition tiny_tensor :: "nat \<Rightarrow> QuantTensor" where
  "tiny_tensor n = \<lparr>qt_shape = [], qt_dtype = GT_F32, qt_start = 0, qt_bytes = replicate (4 * n) 1\<rparr>"

definition tiny_q :: QuantizedWeights where
  "tiny_q = \<lparr>q_token_embedding_table = tiny_tensor 4, q_layers = [\<lparr>l_rms_att_weight = [1, 1], l_wq = tiny_tensor 4, l_wk = tiny_tensor 4,
     l_wv = tiny_tensor 4, l_wo = tiny_tensor 4, l_rms_ffn_weight = [1, 1], l_w1 = tiny_tensor 2, l_w2 = tiny_tensor 2,
     l_w3 = tiny_tensor 2, l_bq = None, l_bk = None, l_bv = None\<rparr>], q_rms_final_weight = [1, 1], q_wcls = None,
     q_rope_theta = f32_10000, q_rms_eps = f32_1e_5, q_rope_neox = False\<rparr>"

definition serial_target :: Target where
  "serial_target = \<lparr>tg_pair = dot32_pair_scalar, tg_threads = None, tg_sched = (\<lambda>_ _ _ _. [])\<rparr>"

definition pool_target :: Target where
  "pool_target = \<lparr>tg_pair = dot32_pair_neon, tg_threads = Some 1, tg_sched = (\<lambda>_ _ n _. map (\<lambda>r. (r div row_grain n 1, r mod row_grain n 1)) [0..<n])\<rparr>"

lemma pool_schedule: "0 < g \<Longrightarrow> fair_schedule n g (map (\<lambda>r. (r div g, r mod g)) [0..<n])"
  unfolding fair_schedule_def
proof (intro set_eqI iffI)
  fix p assume g: "0 < g" and "p \<in> {(t, i). i < g \<and> t * g + i < n}"
  then obtain t i where p: "p = (t, i)" "i < g" "t * g + i < n" by auto
  then have "p = ((t * g + i) div g, (t * g + i) mod g)" by simp
  then show "p \<in> set (map (\<lambda>r. (r div g, r mod g)) [0..<n])" using p(3) by auto
qed auto

lemma tiny_targets: "target_ok serial_target" "target_ok pool_target"
  by (simp_all add: target_ok_def serial_target_def pool_target_def exact_pair_scalar exact_pair_neon pool_schedule row_grain_pos)

lemma tiny_q_ok: "q_model_ok 0 tiny_cfg tiny_q"
  by (simp add: q_model_ok_def heads_ok_def sizes_ok_def layer_ok_def linear_ok_def cache_size_def kvd_of_def hs_of_def
      tiny_cfg_def tiny_q_def tiny_tensor_def usize_max_def Let_def)


subsection \<open>The plain step\<close>

text \<open>A step ends the same on every build and machine.\<close>

lemma q_step_target:
  assumes "q_model_ok base cfg w" and "q_model_ok base' cfg w" and "target_ok tg" and "target_ok tg'"
  shows "q_step lm H tg base cfg w st token pos = q_step lm H' tg' base' cfg w st token pos"
proof -
  have M: "heads_ok cfg" "sizes_ok cfg" and L: "\<And>lay. lay \<in> set (q_layers w) \<Longrightarrow> layer_ok base cfg lay \<and> layer_ok base' cfg lay"
    and W: "linear_ok base (q_token_embedding_table w) (c_dim cfg) (c_vocab_size cfg)" "linear_ok base' (q_token_embedding_table w) (c_dim cfg) (c_vocab_size cfg)"
      "\<And>t. q_wcls w = Some t \<Longrightarrow> linear_ok base t (c_dim cfg) (c_vocab_size cfg) \<and> linear_ok base' t (c_dim cfg) (c_vocab_size cfg)"
    using assms(1,2) by (auto simp: q_model_ok_def)
  have "c_dim cfg * c_dim cfg \<le> usize_max" using M(2) by (simp add: sizes_ok_def Let_def)
  then have S: "c_dim cfg \<le> usize_max" by (meson le_trans le_square)
  have out: "attn_q_out_dim cfg = Ok (c_dim cfg)"
    using step_dims(3) [OF M] heads_facts(1) [OF M(1)] S by (simp add: attn_q_out_dim_def)
  have "unobserved (step_with_recorders lm H tg base cfg w st token pos (no_observers\<lparr>ob_ops := None\<rparr>) None)
      = unobserved (step_with_recorders lm H' tg' base' cfg w st token pos (no_observers\<lparr>ob_ops := None\<rparr>) None)"
  proof (rule step_with_recorders_sim [where T = "{(t, n, m). linear_ok base t n m \<and> linear_ok base' t n m}"])
    show "linear_dispatch tg' base' x t n m (rs_regime st) = linear_dispatch tg base x t n m (rs_regime st)"
      if "(t, n, m) \<in> {(t, n, m). linear_ok base t n m \<and> linear_ok base' t n m}" for t n m x
      using linear_dispatch_target [OF _ _ assms(4,3)] that by auto
    fix lay q kvd assume "lay \<in> set (q_layers w)" "attn_q_out_dim cfg = Ok q" "kv_dim cfg = Ok kvd"
    then show "{(l_wq lay, c_dim cfg, q), (l_wk lay, c_dim cfg, kvd), (l_wv lay, c_dim cfg, kvd), (l_wo lay, c_dim cfg, c_dim cfg),
        (l_w1 lay, c_dim cfg, c_hidden_dim cfg), (l_w3 lay, c_dim cfg, c_hidden_dim cfg), (l_w2 lay, c_hidden_dim cfg, c_dim cfg)}
        \<subseteq> {(t, n, m). linear_ok base t n m \<and> linear_ok base' t n m}"
      using L step_dims(1) [OF M] out by (auto simp: layer_ok_def Let_def)
  next
    show "embedding_row base' (q_token_embedding_table w) (unat token) (c_dim cfg) = embedding_row base (q_token_embedding_table w) (unat token) (c_dim cfg)"
      using W(1,2) by (cases "qt_dtype (q_token_embedding_table w)") (simp_all add: embedding_row_def f32_view_def linear_ok_def Let_def)
  qed (use W in auto)
  then show ?thesis
    by (cases "step_with_recorders lm H tg base cfg w st token pos (no_observers\<lparr>ob_ops := None\<rparr>) None";
        cases "step_with_recorders lm H' tg' base' cfg w st token pos (no_observers\<lparr>ob_ops := None\<rparr>) None")
      (auto simp: q_step_def step_with_recorder_def unobserved_def)
qed

lemma q_step_oks:
  assumes "q_model_ok base cfg w" and "target_ok tg" and "state_ok cfg st" and "unat token < c_vocab_size cfg" and "pos < c_seq_len cfg"
  shows "oks (q_step lm H tg base cfg w st token pos) (\<lambda>(logits, st'). has_dims logits [c_vocab_size cfg] \<and> state_ok cfg st' \<and> state_kept cfg pos st st')"
  using step_with_recorders_oks [OF assms, of lm H "no_observers\<lparr>ob_ops := None\<rparr>" None]
  by (auto simp: q_step_def step_with_recorder_def oks_def)

subsection \<open>Properties\<close>



text \<open>
  C16: per-op records, activation records and lens capture are independent of
  the computation: with any observers attached, any hash function, and any intervention plan that
  names only other positions, a step ends as the plain step does, with the same logits and state, the
  same error, or a panic.
\<close>

theorem observing_changes_nothing:
  assumes "\<forall>i\<in>set plan. ie_token_index i \<noteq> of_nat pos"
  shows "unobserved (step_with_recorders lm H tg base cfg w st token pos ob (Some plan)) = q_step lm H' tg base cfg w st token pos"
proof -
  have "unobserved (step_with_recorders lm H tg base cfg w st token pos ob (Some plan))
      = unobserved (step_with_recorders lm H' tg base cfg w st token pos (no_observers\<lparr>ob_ops := None\<rparr>) None)"
    by (rule step_with_recorders_sim [where T = UNIV])
      (simp_all add: plan_override_inert [OF assms], simp add: plan_override_def)
  then show ?thesis
    by (cases "step_with_recorders lm H' tg base cfg w st token pos (no_observers\<lparr>ob_ops := None\<rparr>) None")
      (auto simp: q_step_def step_with_recorder_def unobserved_def)
qed

theorem observing_changes_nothing_witness:
  "unobserved (step_with_recorders id_libm id serial_target 0 tiny_cfg tiny_q tiny_state 1 1
      \<lparr>ob_ops = Some (per_op_recorder_new id builder_new tiny_q), ob_acts = Some builder_new, ob_lens = Some []\<rparr>
      (Some (plan_add 0 U32_MAX (str ''post_embed'') [7, 7] [])))
    = q_step id_libm rev serial_target 0 tiny_cfg tiny_q tiny_state 1 1"
  by (rule observing_changes_nothing) (simp add: plan_add_def)

text \<open>
  C17: replacing the logits has the last word: when the last entry added to a plan
  names the checkpoint after the output head at this position and has one value per token, the step
  returns exactly that vector as its logits, whatever earlier entries say.
\<close>

theorem last_override_decides:
  assumes "q_model_ok base cfg w" and "target_ok tg" and "state_ok cfg st" and "unat token < c_vocab_size cfg" and "pos < c_seq_len cfg"
    and "length r = c_vocab_size cfg"
  shows "oks (step_with_recorders lm H tg base cfg w st token pos ob (Some (plan_add (of_nat pos) U32_MAX (str ''post_lm_head'') r plan)))
    (\<lambda>(logits, _, _). f32_tensor logits r [c_vocab_size cfg])"
proof (rule oks_mono [OF oks_bind [where f = Ok, unfolded obind_Ok_right]])
  let ?p = "plan_add (of_nat pos) U32_MAX (str ''post_lm_head'') r plan"
  show "oks (step_with_recorders lm H tg base cfg w st token pos ob (Some ?p))
      (\<lambda>(t, _, _). slice_to_tensor r [c_vocab_size cfg] = Ok t)"
    using step_with_recorders_oks [OF assms(1-5), of lm H ob "Some ?p"]
      step_post_lm_head [OF _ plan_lookup_add assms(6), of lm H tg base w st token pos ob plan]
    by (auto simp: oks_def)
qed (auto simp: slice_to_tensor_def outcome_simps shape_new_dims shape_new_ok dest!: f32_tensor_from_f32)

theorem last_override_decides_witness:
  "oks (step_with_recorders id_libm id serial_target 0 tiny_cfg tiny_q tiny_state 1 1 no_observers
     (Some (plan_add 1 U32_MAX (str ''post_lm_head'') [5, 6] (plan_add 1 U32_MAX (str ''post_lm_head'') [3, 4] []))))
    (\<lambda>(logits, _, _). f32_tensor logits [5, 6] [2])"
  using last_override_decides [OF tiny_q_ok tiny_targets(1) tiny_ok(2), of 1 1 "[5, 6]" id_libm id no_observers
      "plan_add 1 U32_MAX (str ''post_lm_head'') [3, 4] []"]
  by (simp add: tiny_cfg_def)


end
