(* ===== verification/Inference.thy ===== *)
theory Inference
  imports ForwardQOk
begin

text \<open>
  The inference driver \<open>src/src/model/inference.rs\<close>: a prompt is fed token by token through a forward
  pass, new tokens are picked by argmax, and a certificate binds inputs and generated tokens. The
  forward pass of the generic drivers is a closure that owns its state: here a function from token,
  position and state to logits and new state. BLAKE3 is the parameter \<open>H\<close>. Both drivers over a sink
  stop at the first error of the sink, which keeps its own type.
\<close>

subsection \<open>Requests and outcomes\<close>

record Request =
  rq_model_id :: bytes
  rq_prompt_tokens :: "u32 list"
  rq_n_new_tokens :: nat

record Outcome =
  oc_generated_tokens :: "u32 list"
  oc_cert :: Cert

datatype 'e RunError = Inference error | Sink 'e

definition arch_text :: "Config \<Rightarrow> string" where
  "arch_text cfg = ''llama2c:dim='' @ dec_digits (c_dim cfg) @ '',hidden='' @ dec_digits (c_hidden_dim cfg) @
     '',layers='' @ dec_digits (c_n_layers cfg) @ '',heads='' @ dec_digits (c_n_heads cfg) @
     '',kv_heads='' @ dec_digits (c_n_kv_heads cfg) @ '',vocab='' @ dec_digits (c_vocab_size cfg) @
     '',seq='' @ dec_digits (c_seq_len cfg) @ '',shared='' @ (if c_shared_weights cfg then ''true'' else ''false'')"

definition arch_string :: "Config \<Rightarrow> bytes" where
  "arch_string cfg = str (arch_text cfg)"

definition u32_slice_to_le_bytes :: "u32 list \<Rightarrow> bytes" where
  "u32_slice_to_le_bytes ts = foldl (\<lambda>buf t. buf @ to_le_bytes32 t) [] ts"

text \<open>The first four bytes of a CPU tensor; panics on other storage and on fewer bytes.\<close>

definition argmax_u32 :: "tensor \<Rightarrow> u32 res" where
  "argmax_u32 t = (case t_storage t of StCpu s \<Rightarrow> omap le32 (oslice (as_bytes s) 0 4) | StGpu _ \<Rightarrow> Panic)"

text \<open>
  \<open>Vec::<u32>::with_capacity\<close> panics when the buffer would be larger than \<open>isize::MAX\<close> bytes.
\<close>

definition with_capacity_u32 :: "nat \<Rightarrow> unit res" where
  "with_capacity_u32 n = (if n * 4 < 2 ^ 63 then Ok () else Panic)"

subsection \<open>Certificates of a run\<close>

definition bind_request :: "(bytes \<Rightarrow> bytes) \<Rightarrow> Config \<Rightarrow> bytes \<Rightarrow> Request \<Rightarrow> CertBuilder" where
  "bind_request H cfg weights_hash req =
     declare_input (str ''n_new_tokens'') (to_le_bytes32 (of_nat (rq_n_new_tokens req)))
     (declare_input (str ''prompt_tokens'') (u32_slice_to_le_bytes (rq_prompt_tokens req))
     (declare_input (str ''arch_hash'') (H (arch_string cfg))
     (declare_input (str ''weights_hash'') weights_hash
     (declare_input (str ''model_id'') (rq_model_id req) builder_new))))"

definition bind_outputs :: "(bytes \<Rightarrow> bytes) \<Rightarrow> u32 list \<Rightarrow> CertBuilder \<Rightarrow> CertBuilder" where
  "bind_outputs H generated b =
     (let output_bytes = u32_slice_to_le_bytes generated in
      declare_output (str ''output_tokens_hash'') (H output_bytes) (declare_output (str ''output_tokens'') output_bytes b))"

definition certify :: "(bytes \<Rightarrow> bytes) \<Rightarrow> Config \<Rightarrow> bytes \<Rightarrow> Request \<Rightarrow> ('s, 'e) CertSink \<Rightarrow> u8 \<Rightarrow> u32 list \<Rightarrow> 's \<Rightarrow>
    ('e RunError, (Outcome \<times> u64) \<times> 's) outcome" where
  "certify H cfg weights_hash req S tier generated st =
     obind (omap_err Sink (finalize_with_sink H S tier (bind_outputs H generated (bind_request H cfg weights_hash req)) st))
       (\<lambda>((cert, cert_id), st). Ok ((\<lparr>oc_generated_tokens = generated, oc_cert = cert\<rparr>, cert_id), st))"

subsection \<open>The decode loop\<close>

definition check_request :: "Config \<Rightarrow> Request \<Rightarrow> nat res" where
  "check_request cfg req =
     (if rq_prompt_tokens req = [] then Err (InvalidShape ''prompt_tokens must not be empty'')
      else let total = wrap_add (length (rq_prompt_tokens req)) (rq_n_new_tokens req) in
        if c_seq_len cfg < total then Err (InvalidShape ''prompt + n_new_tokens exceeds seq_len'') else Ok total)"

definition pick :: "tensor \<Rightarrow> u32 res" where
  "pick logits = obind (argmax_last_dim logits) argmax_u32"

definition decode_pos :: "(u32 \<Rightarrow> nat \<Rightarrow> 'k \<Rightarrow> (tensor \<times> 'k) res) \<Rightarrow> u32 list \<Rightarrow> 'k \<times> u32 \<times> u32 list \<Rightarrow> nat \<Rightarrow> ('k \<times> u32 \<times> u32 list) res" where
  "decode_pos forward prompt = (\<lambda>(k, cur, generated) pos.
     obind (forward cur pos k) (\<lambda>(logits, k).
     obind (pick logits) (\<lambda>picked.
     obind (if pos + 1 < length prompt then oget prompt (pos + 1) else Ok picked) (\<lambda>next.
     Ok (k, next, if length prompt \<le> pos then generated @ [next] else generated)))))"

definition generate :: "(u32 \<Rightarrow> nat \<Rightarrow> 'k \<Rightarrow> (tensor \<times> 'k) res) \<Rightarrow> Config \<Rightarrow> Request \<Rightarrow> 'k \<Rightarrow> u32 list res" where
  "generate forward cfg req k =
     obind (with_capacity_u32 (rq_n_new_tokens req)) (\<lambda>_.
     obind (check_request cfg req) (\<lambda>total.
     obind (oget (rq_prompt_tokens req) 0) (\<lambda>cur.
     omap (\<lambda>(_, _, generated). generated)
       (oloop (decode_pos forward (rq_prompt_tokens req)) [0..<total] (k, cur, [])))))"

subsection \<open>Drivers\<close>

definition run_quantized_with_forward :: "(bytes \<Rightarrow> bytes) \<Rightarrow> Config \<Rightarrow> bytes \<Rightarrow> Request \<Rightarrow> ('s, 'e) CertSink \<Rightarrow> u8 \<Rightarrow>
    (u32 \<Rightarrow> nat \<Rightarrow> 'k \<Rightarrow> (tensor \<times> 'k) res) \<Rightarrow> 'k \<Rightarrow> 's \<Rightarrow> ('e RunError, (Outcome \<times> u64) \<times> 's) outcome" where
  "run_quantized_with_forward H cfg weights_hash req S tier forward k st =
     obind (omap_err Inference (generate forward cfg req k)) (\<lambda>generated. certify H cfg weights_hash req S tier generated st)"

definition run_with_sink :: "libm \<Rightarrow> (bytes \<Rightarrow> bytes) \<Rightarrow> Config \<Rightarrow> Weights \<Rightarrow> bytes \<Rightarrow> Request \<Rightarrow> ('s, 'e) CertSink \<Rightarrow> u8 \<Rightarrow> 's \<Rightarrow>
    ('e RunError, (Outcome \<times> u64) \<times> 's) outcome" where
  "run_with_sink lm H cfg w weights_hash req S tier st =
     obind (omap_err Inference (run_state_new cfg)) (\<lambda>rs.
     obind (omap_err Inference (generate (\<lambda>token pos rs. llama_step lm cfg w rs token pos) cfg req rs)) (\<lambda>generated.
     certify H cfg weights_hash req S tier generated st))"

text \<open>The null sink does not fail: its error type is empty in the code, and its error arm panics.\<close>

fun no_sink :: "(unit RunError, (Outcome \<times> u64) \<times> unit) outcome \<Rightarrow> Outcome res" where
  "no_sink (Ok ((oc, _), _)) = Ok oc"
| "no_sink (Err (Inference e)) = Err e"
| "no_sink (Err (Sink _)) = Panic"
| "no_sink Panic = Panic"

definition run :: "libm \<Rightarrow> (bytes \<Rightarrow> bytes) \<Rightarrow> Config \<Rightarrow> Weights \<Rightarrow> bytes \<Rightarrow> Request \<Rightarrow> Outcome res" where
  "run lm H cfg w weights_hash req = no_sink (run_with_sink lm H cfg w weights_hash req null_sink 0 ())"

definition run_quantized_with_sink :: "libm \<Rightarrow> (bytes \<Rightarrow> bytes) \<Rightarrow> Target \<Rightarrow> nat \<Rightarrow> Config \<Rightarrow> QuantizedWeights \<Rightarrow> bytes \<Rightarrow> Request \<Rightarrow>
    ('s, 'e) CertSink \<Rightarrow> u8 \<Rightarrow> 's \<Rightarrow> ('e RunError, (Outcome \<times> u64) \<times> 's) outcome" where
  "run_quantized_with_sink lm H tg base cfg w weights_hash req S tier st =
     obind (omap_err Inference (run_state_new cfg)) (\<lambda>rs.
     run_quantized_with_forward H cfg weights_hash req S tier (\<lambda>cur pos rs. q_step lm H tg base cfg w rs cur pos) rs st)"

definition run_quantized :: "libm \<Rightarrow> (bytes \<Rightarrow> bytes) \<Rightarrow> Target \<Rightarrow> nat \<Rightarrow> Config \<Rightarrow> QuantizedWeights \<Rightarrow> bytes \<Rightarrow> Request \<Rightarrow> Outcome res" where
  "run_quantized lm H tg base cfg w weights_hash req =
     no_sink (run_quantized_with_sink lm H tg base cfg w weights_hash req null_sink 0 ())"

definition run_quantized_regime3 :: "libm \<Rightarrow> (bytes \<Rightarrow> bytes) \<Rightarrow> Target \<Rightarrow> nat \<Rightarrow> Config \<Rightarrow> QuantizedWeights \<Rightarrow> bytes \<Rightarrow> Request \<Rightarrow> Outcome res" where
  "run_quantized_regime3 lm H tg base cfg w weights_hash req =
     no_sink (obind (omap_err Inference (run_state_new cfg)) (\<lambda>rs.
       run_quantized_with_forward H cfg weights_hash req null_sink 0 (\<lambda>cur pos rs. q_step lm H tg base cfg w rs cur pos)
         (set_regime 3 rs) ()))"

text \<open>With a batched prefill, the prompt is one call and the capacity is reserved after the checks.\<close>

definition decode_new :: "(u32 \<Rightarrow> nat \<Rightarrow> 'k \<Rightarrow> (tensor \<times> 'k) res) \<Rightarrow> nat \<Rightarrow> 'k \<times> u32 \<times> u32 list \<Rightarrow> nat \<Rightarrow> ('k \<times> u32 \<times> u32 list) res" where
  "decode_new dec prompt_len = (\<lambda>(k, cur, generated) i.
     obind (dec cur (prompt_len + i) k) (\<lambda>(logits, k).
     obind (pick logits) (\<lambda>picked. Ok (k, picked, generated @ [picked]))))"

definition generate_prefilled :: "(u32 list \<Rightarrow> 'k \<Rightarrow> (tensor \<times> 'k) res) \<Rightarrow> (u32 \<Rightarrow> nat \<Rightarrow> 'k \<Rightarrow> (tensor \<times> 'k) res) \<Rightarrow>
    Config \<Rightarrow> Request \<Rightarrow> 'k \<Rightarrow> u32 list res" where
  "generate_prefilled prefill dec cfg req k =
     obind (check_request cfg req) (\<lambda>_.
     obind (prefill (rq_prompt_tokens req) k) (\<lambda>(last_prompt, k).
     obind (pick last_prompt) (\<lambda>cur.
     obind (with_capacity_u32 (rq_n_new_tokens req)) (\<lambda>_.
     omap (\<lambda>(_, _, generated). generated)
       (oloop (decode_new dec (length (rq_prompt_tokens req))) [0..<rq_n_new_tokens req] (k, cur, []))))))"

definition run_quantized_with_prefill :: "(bytes \<Rightarrow> bytes) \<Rightarrow> Config \<Rightarrow> bytes \<Rightarrow> Request \<Rightarrow> ('s, 'e) CertSink \<Rightarrow> u8 \<Rightarrow>
    (u32 list \<Rightarrow> 'k \<Rightarrow> (tensor \<times> 'k) res) \<Rightarrow> (u32 \<Rightarrow> nat \<Rightarrow> 'k \<Rightarrow> (tensor \<times> 'k) res) \<Rightarrow> 'k \<Rightarrow> 's \<Rightarrow>
    ('e RunError, (Outcome \<times> u64) \<times> 's) outcome" where
  "run_quantized_with_prefill H cfg weights_hash req S tier prefill dec k st =
     obind (omap_err Inference (generate_prefilled prefill dec cfg req k)) (\<lambda>generated.
     certify H cfg weights_hash req S tier generated st)"

subsection \<open>Certificates of a run, unfolded\<close>

lemma u32_bytes_eq: "u32_slice_to_le_bytes ts = word_bytes ts"
proof -
  have "foldl (\<lambda>buf t. buf @ to_le_bytes32 t) b ts = b @ word_bytes ts" for b
    by (induction ts arbitrary: b) simp_all
  then show ?thesis by (simp add: u32_slice_to_le_bytes_def)
qed

text \<open>The outcome the drivers return for the generated tokens.\<close>

definition run_outcome :: "(bytes \<Rightarrow> bytes) \<Rightarrow> Config \<Rightarrow> bytes \<Rightarrow> Request \<Rightarrow> u32 list \<Rightarrow> Outcome" where
  "run_outcome H cfg weights_hash req generated = \<lparr>oc_generated_tokens = generated,
     oc_cert = cert_finalize H (bind_outputs H generated (bind_request H cfg weights_hash req))\<rparr>"

text \<open>The events of a certificate that has no op, activation and intervention records.\<close>

definition field_events :: "u8 \<Rightarrow> Cert \<Rightarrow> SinkEvent list" where
  "field_events tier c = EvRequest tier # map (\<lambda>f. EvInput (cf_name f) (cf_bytes f)) (cert_inputs c) @
     map (\<lambda>f. EvOutput (cf_name f) (cf_bytes f)) (cert_outputs c)"

lemma bound_sections:
  "cb_ops (bind_outputs H g (bind_request H cfg wh req)) = []" "cb_activations (bind_outputs H g (bind_request H cfg wh req)) = []"
  "cb_interventions (bind_outputs H g (bind_request H cfg wh req)) = []"
  "map cf_name (cb_inputs (bind_outputs H g (bind_request H cfg wh req)))
     = [str ''model_id'', str ''weights_hash'', str ''arch_hash'', str ''prompt_tokens'', str ''n_new_tokens'']"
  "map cf_bytes (cb_inputs (bind_outputs H g (bind_request H cfg wh req)))
     = [rq_model_id req, wh, H (arch_string cfg), word_bytes (rq_prompt_tokens req), to_le_bytes32 (of_nat (rq_n_new_tokens req))]"
  "map cf_name (cb_outputs (bind_outputs H g (bind_request H cfg wh req))) = [str ''output_tokens'', str ''output_tokens_hash'']"
  "map cf_bytes (cb_outputs (bind_outputs H g (bind_request H cfg wh req))) = [word_bytes g, H (word_bytes g)]"
  by (simp_all add: bind_outputs_def bind_request_def builder_new_def declare_input_def declare_output_def u32_bytes_eq Let_def)

lemma certify_eq:
  "certify H cfg wh req S tier g st =
     obind (omap_err Sink (obind (oloop (sink_call S) (field_events tier (oc_cert (run_outcome H cfg wh req g))) st) (on_finalize S)))
       (\<lambda>(cert_id, st). Ok ((run_outcome H cfg wh req g, cert_id), st))"
proof -
  have "declared_events tier (bind_outputs H g (bind_request H cfg wh req)) = field_events tier (oc_cert (run_outcome H cfg wh req g))"
    by (simp add: declared_events_def field_events_def run_outcome_def cert_finalize_def bound_sections)
  then show ?thesis
    by (simp add: certify_def finalize_with_sink_replay omap_err_obind obind_assoc run_outcome_def split_def)
qed

subsection \<open>The architecture string determines the configuration\<close>

definition digit :: "char \<Rightarrow> bool" where
  "digit c \<longleftrightarrow> (of_char c :: nat) \<in> {48..57}"

definition dec_value :: "string \<Rightarrow> nat" where
  "dec_value s = foldl (\<lambda>a c. 10 * a + (of_char c - 48)) 0 s"

lemma of_char_digit: "d < 10 \<Longrightarrow> (of_char (char_of (48 + d :: nat)) :: nat) = 48 + d"
  by simp

lemma digit_char: "d < 10 \<Longrightarrow> digit (char_of (48 + d :: nat))"
  using of_char_digit [of d] by (simp add: digit_def)

lemma dec_digits_value: "dec_value (dec_digits n) = n \<and> list_all digit (dec_digits n)"
proof (induction n rule: dec_digits.induct)
  case (1 n)
  then show ?case
    using of_char_digit [of "n mod 10"] of_char_digit [of n] digit_char [of "n mod 10"] digit_char [of n]
    by (subst (1 2) dec_digits.simps) (auto simp: dec_value_def)
qed

lemma dec_digits_small: "n < 10 \<Longrightarrow> dec_digits n = [char_of (48 + n)]"
  by (subst dec_digits.simps) simp

lemma digits_unique:
  assumes "list_all digit xs" and "list_all digit ys" and "xs @ x = ys @ y"
    and "x = [] \<or> \<not> digit (hd x)" and "y = [] \<or> \<not> digit (hd y)"
  shows "xs = ys \<and> x = y"
proof -
  have "takeWhile digit (zs @ z) = zs" if "list_all digit zs" "z = [] \<or> \<not> digit (hd z)" for zs z
    using that by (cases z) (auto simp: takeWhile_append list_all_iff)
  then have "xs = ys" using assms by metis
  then show ?thesis using assms(3) by simp
qed

lemma dec_unique:
  assumes "dec_digits m @ x = dec_digits n @ y" and "\<not> digit (hd x)" and "\<not> digit (hd y)"
  shows "m = n \<and> x = y"
  using digits_unique [OF _ _ assms(1)] assms(2,3) dec_digits_value by metis

lemma length_arch_string: "length (arch_string cfg) = length (dec_digits (c_dim cfg)) + length (dec_digits (c_hidden_dim cfg)) +
    length (dec_digits (c_n_layers cfg)) + length (dec_digits (c_n_heads cfg)) + length (dec_digits (c_n_kv_heads cfg)) +
    length (dec_digits (c_vocab_size cfg)) + length (dec_digits (c_seq_len cfg)) + (if c_shared_weights cfg then 69 else 70)"
  by (simp add: arch_string_def arch_text_def str_def)

lemma arch_text_inj:
  assumes "arch_text a = arch_text b"
  shows "a = b"
proof -
  let ?sh = "\<lambda>c. '',shared='' @ (if c_shared_weights c then ''true'' else ''false'')"
  let ?s = "\<lambda>c. '',seq='' @ dec_digits (c_seq_len c) @ ?sh c"
  let ?v = "\<lambda>c. '',vocab='' @ dec_digits (c_vocab_size c) @ ?s c"
  let ?k = "\<lambda>c. '',kv_heads='' @ dec_digits (c_n_kv_heads c) @ ?v c"
  let ?h = "\<lambda>c. '',heads='' @ dec_digits (c_n_heads c) @ ?k c"
  let ?l = "\<lambda>c. '',layers='' @ dec_digits (c_n_layers c) @ ?h c"
  let ?d = "\<lambda>c. '',hidden='' @ dec_digits (c_hidden_dim c) @ ?l c"
  have comma: "\<not> digit (hd (CHR '','' # s))" for s by (simp add: digit_def)
  have "dec_digits (c_dim a) @ ?d a = dec_digits (c_dim b) @ ?d b" using assms by (simp add: arch_text_def)
  from dec_unique [OF this] comma have 1: "c_dim a = c_dim b" "dec_digits (c_hidden_dim a) @ ?l a = dec_digits (c_hidden_dim b) @ ?l b" by auto
  from dec_unique [OF 1(2)] comma have 2: "c_hidden_dim a = c_hidden_dim b" "dec_digits (c_n_layers a) @ ?h a = dec_digits (c_n_layers b) @ ?h b" by auto
  from dec_unique [OF 2(2)] comma have 3: "c_n_layers a = c_n_layers b" "dec_digits (c_n_heads a) @ ?k a = dec_digits (c_n_heads b) @ ?k b" by auto
  from dec_unique [OF 3(2)] comma have 4: "c_n_heads a = c_n_heads b" "dec_digits (c_n_kv_heads a) @ ?v a = dec_digits (c_n_kv_heads b) @ ?v b" by auto
  from dec_unique [OF 4(2)] comma have 5: "c_n_kv_heads a = c_n_kv_heads b" "dec_digits (c_vocab_size a) @ ?s a = dec_digits (c_vocab_size b) @ ?s b" by auto
  from dec_unique [OF 5(2)] comma have 6: "c_vocab_size a = c_vocab_size b" "dec_digits (c_seq_len a) @ ?sh a = dec_digits (c_seq_len b) @ ?sh b" by auto
  from dec_unique [OF 6(2)] comma have 7: "c_seq_len a = c_seq_len b" "c_shared_weights a = c_shared_weights b" by (auto split: if_splits)
  show ?thesis using 1(1) 2(1) 3(1) 4(1) 5(1) 6(1) 7 by (cases a; cases b) simp
qed

lemma str_inj: "str s = str t \<longleftrightarrow> s = t"
proof
  have "inj (of_char :: char \<Rightarrow> u8)"
  proof (rule injI)
    have w: "unat (of_char c :: u8) = (of_char c :: nat)" for c
    proof -
      have "(of_char c :: nat) < 256" using of_char_of [of "of_char c :: nat"] by (metis char_of_char mod_less_divisor zero_less_numeral)
      then show ?thesis using unat_of_nat_u8 [of "of_char c"] by (simp add: of_nat_of_char)
    qed
    fix c d assume "(of_char c :: u8) = of_char d"
    then have "(of_char c :: nat) = of_char d" by (metis w)
    then show "c = d" by simp
  qed
  then show "str s = str t \<Longrightarrow> s = t" by (simp add: str_def inj_map_eq_map)
qed simp

lemma arch_string_inj: "arch_string a = arch_string b \<longleftrightarrow> a = b"
  using arch_text_inj by (auto simp: arch_string_def str_inj)

subsection \<open>Picking a token\<close>

lemma argmax_row_less:
  assumes "row \<noteq> []"
  shows "argmax_row row < length row"
proof -
  let ?f = "\<lambda>(best_idx, best_val) i. if f32_lt best_val (row ! i) then (i, row ! i) else (best_idx, best_val)"
  have bound: "fst (foldl ?f s ks) < length row" if "set ks \<subseteq> {..<length row}" "fst s < length row" for s ks
    using that by (induction ks arbitrary: s) (auto split: prod.splits)
  have "fst (foldl ?f (0, row ! 0) [1..<length row]) < length row" by (rule bound) (use assms in auto)
  then show ?thesis by (simp add: argmax_row_def)
qed

definition vocab_ok :: "Config \<Rightarrow> bool" where
  "vocab_ok cfg \<longleftrightarrow> 0 < c_vocab_size cfg \<and> c_vocab_size cfg \<le> 2 ^ 32"

lemma pick_oks:
  assumes "has_dims logits [n]" and "0 < n" and "n \<le> 2 ^ 32"
  shows "oks (pick logits) (\<lambda>t. unat t < n)"
proof -
  obtain xs where X: "f32_tensor logits xs [n]" "length xs = n" "n \<le> usize_max"
    using assms(1) by (auto elim!: has_dimsE)
  let ?i = "argmax_row (mat_row xs n 0)"
  obtain t where t: "argmax_last_dim logits = Ok t" "t_storage t = StCpu (storage_from_u32 [of_nat ?i])"
    using argmax_last_dim_Ok [OF X(1)] X(3) assms(2) by (auto simp: upt_rec)
  have "?i < n" using argmax_row_less [of "mat_row xs n 0"] X(2) assms(2) by (cases xs) (auto simp: mat_row_def slice_def)
  then have "unat (of_nat ?i :: u32) < n" using assms(3) by (simp add: unat_of_nat)
  then show ?thesis using t by (simp add: pick_def argmax_u32_def oslice_def slice_def as_bytes_from_u32)
qed

subsection \<open>What the decode loop asks of a forward pass\<close>

text \<open>
  In a good state a forward pass on a token of the vocabulary at a position of the context returns
  logits over the vocabulary and a good state.
\<close>

locale forward_pass =
  fixes forward :: "u32 \<Rightarrow> nat \<Rightarrow> 'k \<Rightarrow> (tensor \<times> 'k) res" and cfg :: Config and good :: "'k \<Rightarrow> bool"
  assumes good_vocab: "good k \<Longrightarrow> vocab_ok cfg"
    and returns: "good k \<Longrightarrow> unat token < c_vocab_size cfg \<Longrightarrow> pos < c_seq_len cfg \<Longrightarrow>
      oks (forward token pos k) (\<lambda>(logits, k'). has_dims logits [c_vocab_size cfg] \<and> good k')"
begin

lemma forward_pick:
  assumes "good k" and "unat token < c_vocab_size cfg" and "pos < c_seq_len cfg"
  shows "oks (forward token pos k) (\<lambda>(logits, k'). oks (pick logits) (\<lambda>t. unat t < c_vocab_size cfg) \<and> good k')"
  by (rule oks_mono [OF returns [OF assms]])
    (use good_vocab [OF assms(1)] in \<open>auto simp: vocab_ok_def intro: pick_oks\<close>)

lemma decode_pos_oks:
  assumes "good k" and "unat cur < c_vocab_size cfg" and "pos < c_seq_len cfg" and "\<forall>t\<in>set prompt. unat t < c_vocab_size cfg"
    and "\<forall>t\<in>set g. unat t < c_vocab_size cfg"
  shows "oks (decode_pos forward prompt (k, cur, g) pos) (\<lambda>(k, cur, g'). good k \<and> unat cur < c_vocab_size cfg \<and>
     (\<forall>t\<in>set g'. unat t < c_vocab_size cfg) \<and> length g' = length g + (if length prompt \<le> pos then 1 else 0))"
proof -
  have "oks (if pos + 1 < length prompt then oget prompt (pos + 1) else Ok picked) (\<lambda>t. unat t < c_vocab_size cfg)"
    if "unat picked < c_vocab_size cfg" for picked
    using that assms(4) by (simp add: oget_ok del: One_nat_def)
  then show ?thesis unfolding decode_pos_def
    by (auto intro!: oks_bind [OF forward_pick [OF assms(1-3)]] elim!: oks_bind simp: assms(5))
qed

lemma generate_oks:
  assumes "good k" and "rq_prompt_tokens req \<noteq> []" and "\<forall>t\<in>set (rq_prompt_tokens req). unat t < c_vocab_size cfg"
    and "length (rq_prompt_tokens req) + rq_n_new_tokens req \<le> c_seq_len cfg" and "c_seq_len cfg \<le> usize_max"
    and "rq_n_new_tokens req * 4 < 2 ^ 63"
  shows "oks (generate forward cfg req k) (\<lambda>g. length g = rq_n_new_tokens req \<and> (\<forall>t\<in>set g. unat t < c_vocab_size cfg))"
proof -
  let ?p = "rq_prompt_tokens req" and ?n = "rq_n_new_tokens req" and ?V = "c_vocab_size cfg"
  let ?Q = "\<lambda>m (k, cur :: u32, g :: u32 list). good k \<and> unat cur < ?V \<and> (\<forall>t\<in>set g. unat t < ?V) \<and> length g = m - length ?p"
  have loop: "oks (oloop (decode_pos forward ?p) [0..<length ?p + ?n] (k, ?p ! 0, [])) (?Q (length ?p + ?n))"
  proof (rule oks_loop_upt [where P = ?Q])
    fix m s assume "m < length ?p + ?n" and s: "?Q m s"
    obtain k :: 'k and cur :: u32 and g :: "u32 list" where [simp]: "s = (k, cur, g)" by (cases s)
    have "oks (decode_pos forward ?p (k, cur, g) m) (\<lambda>(k, cur, g'). good k \<and> unat cur < ?V \<and>
        (\<forall>t\<in>set g'. unat t < ?V) \<and> length g' = length g + (if length ?p \<le> m then 1 else 0))"
      using s \<open>m < length ?p + ?n\<close> assms(4) by (intro decode_pos_oks assms(3)) auto
    then show "oks (decode_pos forward ?p s m) (?Q (Suc m))" using s by (auto elim!: oks_mono)
  qed (use assms(1-3) in simp_all)
  have "check_request cfg req = Ok (length ?p + ?n)" using assms(2,4,5) by (simp add: check_request_def)
  moreover have "with_capacity_u32 ?n = Ok ()" using assms(6) by (simp add: with_capacity_u32_def)
  ultimately have "generate forward cfg req k = omap (\<lambda>(_, _, g). g) (oloop (decode_pos forward ?p) [0..<length ?p + ?n] (k, ?p ! 0, []))"
    using assms(2) by (simp add: generate_def oget_ok)
  then show ?thesis using loop by (auto intro!: oks_map elim!: oks_mono)
qed

end

lemma run_state_new_oks:
  assumes "heads_ok cfg" and "sizes_ok cfg"
  shows "oks (run_state_new cfg) (\<lambda>rs. state_ok cfg rs \<and> rs_regime rs = 2)"
proof -
  have "c_n_layers cfg * c_seq_len cfg \<le> cache_size cfg" using heads_facts(4) [OF assms(1)] by (simp add: cache_size_def)
  moreover have C: "cache_size cfg \<le> usize_max" using assms(2) by (simp add: sizes_ok_def Let_def)
  ultimately have "c_n_layers cfg * c_seq_len cfg \<le> usize_max" by simp
  then show ?thesis using step_dims(1) [OF assms] C
    by (simp add: run_state_new_def state_ok_def Let_def cache_size_def)
qed

interpretation llama: forward_pass "\<lambda>token pos rs. llama_step lm cfg w rs token pos" cfg
    "\<lambda>rs. vocab_ok cfg \<and> model_ok cfg w \<and> state_ok cfg rs" for lm cfg w
  by unfold_locales (auto elim!: oks_mono [OF llama_step_oks])

interpretation quantized: forward_pass "\<lambda>cur pos rs. q_step lm H tg base cfg w rs cur pos" cfg
    "\<lambda>rs. vocab_ok cfg \<and> q_model_ok base cfg w \<and> target_ok tg \<and> state_ok cfg rs" for lm H tg base cfg w
  by unfold_locales (auto elim!: oks_mono [OF q_step_oks])

subsection \<open>Drivers without a sink\<close>

lemma null_run: "oloop (sink_call null_sink) es st = Ok st"
proof (induction es)
  case (Cons e es)
  then show ?case by (cases e) (simp_all add: null_sink_def)
qed simp

lemma certify_null: "certify H cfg wh req null_sink tier g st = Ok ((run_outcome H cfg wh req g, 0), st)"
  by (simp add: certify_eq null_run) (simp add: null_sink_def)

lemma no_sink_certify: "obind m (\<lambda>g. no_sink (certify H cfg wh req null_sink 0 g ())) = omap (run_outcome H cfg wh req) m"
  by (cases m) (simp_all add: certify_null)

lemma no_sink_obind: "no_sink (obind (omap_err Inference m) f) = obind m (\<lambda>x. no_sink (f x))"
  by (cases m) simp_all

lemma run_eq: "run lm H cfg w wh req = obind (run_state_new cfg) (\<lambda>rs.
    omap (run_outcome H cfg wh req) (generate (\<lambda>token pos rs. llama_step lm cfg w rs token pos) cfg req rs))"
  by (simp add: run_def run_with_sink_def no_sink_obind no_sink_certify)

lemma run_quantized_eq: "run_quantized lm H tg base cfg w wh req = obind (run_state_new cfg) (\<lambda>rs.
    omap (run_outcome H cfg wh req) (generate (\<lambda>cur pos rs. q_step lm H tg base cfg w rs cur pos) cfg req rs))"
  by (simp add: run_quantized_def run_quantized_with_sink_def run_quantized_with_forward_def no_sink_obind no_sink_certify)

lemma run_quantized_regime3_eq: "run_quantized_regime3 lm H tg base cfg w wh req = obind (run_state_new cfg) (\<lambda>rs.
    omap (run_outcome H cfg wh req) (generate (\<lambda>cur pos rs. q_step lm H tg base cfg w rs cur pos) cfg req (set_regime 3 rs)))"
  by (simp add: run_quantized_regime3_def run_quantized_with_forward_def no_sink_obind no_sink_certify)

text \<open>A request that fits the model.\<close>

definition request_ok :: "Config \<Rightarrow> Request \<Rightarrow> bool" where
  "request_ok cfg req \<longleftrightarrow> rq_prompt_tokens req \<noteq> [] \<and> (\<forall>t\<in>set (rq_prompt_tokens req). unat t < c_vocab_size cfg) \<and>
     length (rq_prompt_tokens req) + rq_n_new_tokens req \<le> c_seq_len cfg \<and> c_seq_len cfg \<le> usize_max \<and>
     rq_n_new_tokens req * 4 < 2 ^ 63"

definition outcome_ok :: "(bytes \<Rightarrow> bytes) \<Rightarrow> Config \<Rightarrow> bytes \<Rightarrow> Request \<Rightarrow> Outcome \<Rightarrow> bool" where
  "outcome_ok H cfg wh req oc \<longleftrightarrow> length (oc_generated_tokens oc) = rq_n_new_tokens req \<and>
     (\<forall>t\<in>set (oc_generated_tokens oc). unat t < c_vocab_size cfg) \<and>
     cert_input (oc_cert oc) (str ''model_id'') = Some (rq_model_id req) \<and>
     cert_input (oc_cert oc) (str ''weights_hash'') = Some wh \<and>
     cert_input (oc_cert oc) (str ''arch_hash'') = Some (H (arch_string cfg)) \<and>
     cert_input (oc_cert oc) (str ''prompt_tokens'') = Some (u32_slice_to_le_bytes (rq_prompt_tokens req)) \<and>
     cert_input (oc_cert oc) (str ''n_new_tokens'') = Some (to_le_bytes32 (of_nat (rq_n_new_tokens req))) \<and>
     cert_output (oc_cert oc) (str ''output_tokens'') = Some (u32_slice_to_le_bytes (oc_generated_tokens oc)) \<and>
     cert_output (oc_cert oc) (str ''output_tokens_hash'') = Some (H (u32_slice_to_le_bytes (oc_generated_tokens oc)))"

lemma run_outcome_ok:
  "length g = rq_n_new_tokens req \<Longrightarrow> \<forall>t\<in>set g. unat t < c_vocab_size cfg \<Longrightarrow> outcome_ok H cfg wh req (run_outcome H cfg wh req g)"
  by (simp add: outcome_ok_def run_outcome_def cert_finalize_def cert_input_def cert_output_def find_field_def
      bind_outputs_def bind_request_def builder_new_def declare_input_def declare_output_def Let_def str_def)

context forward_pass
begin

lemma run_oks: "good k \<Longrightarrow> request_ok cfg req \<Longrightarrow> oks (omap (run_outcome H cfg wh req) (generate forward cfg req k)) (outcome_ok H cfg wh req)"
  by (intro oks_map oks_mono [OF generate_oks]) (auto simp: request_ok_def run_outcome_ok)

end

subsection \<open>Batched prefill\<close>

text \<open>What a prefill has to compute: the forward pass on every prompt token in turn, for the logits of the last.\<close>

fun feed_prompt :: "('a \<Rightarrow> nat \<Rightarrow> 'k \<Rightarrow> (tensor \<times> 'k) res) \<Rightarrow> nat \<Rightarrow> 'a list \<Rightarrow> 'k \<Rightarrow> (tensor \<times> 'k) res" where
  "feed_prompt forward pos [] k = Panic"
| "feed_prompt forward pos [t] k = forward t pos k"
| "feed_prompt forward pos (t # u # ts) k = obind (forward t pos k) (\<lambda>(_, k). feed_prompt forward (Suc pos) (u # ts) k)"

lemma prompt_phase:
  assumes "\<And>t p k l k'. forward t p k = Ok (l, k') \<Longrightarrow> \<exists>u. pick l = Ok u" and "i < length prompt"
  shows "oloop (decode_pos forward prompt) [i..<length prompt] (k, prompt ! i, g)
    = obind (feed_prompt forward i (drop i prompt) k) (\<lambda>(l, k). omap (\<lambda>u. (k, u, g)) (pick l))"
  using assms(2)
proof (induction "length prompt - i" arbitrary: i k)
  case (Suc n)
  have upt: "[i..<length prompt] = i # [Suc i..<length prompt]" using Suc.prems by (simp add: upt_rec)
  show ?case
  proof (cases "Suc i < length prompt")
    case True
    have drop: "drop i prompt = prompt ! i # prompt ! Suc i # drop (Suc (Suc i)) prompt" "drop (Suc i) prompt = prompt ! Suc i # drop (Suc (Suc i)) prompt"
      using True by (simp_all add: Cons_nth_drop_Suc)
    have IH: "oloop (decode_pos forward prompt) [Suc i..<length prompt] (k, prompt ! Suc i, g)
      = obind (feed_prompt forward (Suc i) (drop (Suc i) prompt) k) (\<lambda>(l, k). omap (\<lambda>u. (k, u, g)) (pick l))" for k
      using Suc True by simp
    show ?thesis
    proof (cases "forward (prompt ! i) i k")
      case (Ok lk)
      obtain l k' where lk: "lk = (l, k')" by (cases lk)
      then obtain u where "pick l = Ok u" using assms(1) Ok by blast
      then have "decode_pos forward prompt (k, prompt ! i, g) i = Ok (k', prompt ! Suc i, g)"
        using Ok lk True by (simp add: decode_pos_def oget_ok)
      then show ?thesis using Ok lk drop IH by (simp add: upt)
    qed (use drop in \<open>simp_all add: upt decode_pos_def\<close>)
  next
    case False
    then have "Suc i = length prompt" using Suc.prems by simp
    moreover from this have "drop i prompt = [prompt ! i]" using Suc.prems by (metis Cons_nth_drop_Suc drop_all order_refl)
    ultimately show ?thesis
      by (cases "forward (prompt ! i) i k") (auto simp: upt decode_pos_def obind_assoc obind_Ok_map oloop_Nil_fun omap_id split: prod.splits)
  qed
qed simp

lemma new_phase:
  assumes "m \<le> n"
  shows "oloop (decode_pos forward prompt) [length prompt + m..<length prompt + n] s = oloop (decode_new forward (length prompt)) [m..<n] s"
proof -
  have "[length prompt + m..<length prompt + n] = map (\<lambda>i. length prompt + i) [m..<n]"
    using assms by (intro nth_equalityI) simp_all
  moreover have "decode_pos forward prompt s (length prompt + i) = decode_new forward (length prompt) s i" for s i
    by (cases s) (simp add: decode_pos_def decode_new_def)
  ultimately show ?thesis by (simp add: oloop_map)
qed

lemma generate_prefilled_eq:
  assumes "\<And>t p k l k'. forward t p k = Ok (l, k') \<Longrightarrow> \<exists>u. pick l = Ok u"
    and "prefill (rq_prompt_tokens req) k = feed_prompt forward 0 (rq_prompt_tokens req) k"
    and "rq_n_new_tokens req * 4 < 2 ^ 63" and "length (rq_prompt_tokens req) * 4 < 2 ^ 63"
  shows "generate_prefilled prefill forward cfg req k = generate forward cfg req k"
proof (cases "rq_prompt_tokens req")
  case Nil
  then show ?thesis using assms(3) by (simp add: generate_prefilled_def generate_def check_request_def with_capacity_u32_def)
next
  case (Cons t ts)
  let ?p = "rq_prompt_tokens req" and ?n = "rq_n_new_tokens req"
  have "length ?p + ?n \<le> usize_max" using assms(3,4) by (simp add: usize_max_def)
  then have total: "check_request cfg req = Ok total \<Longrightarrow> total = length ?p + ?n" for total
    by (auto simp: check_request_def Let_def split: if_splits)
  have ph: "oloop (decode_pos forward ?p) [0..<length ?p] (k, ?p ! 0, [])
      = obind (feed_prompt forward 0 (drop 0 ?p) k) (\<lambda>(l, k). omap (\<lambda>u. (k, u, [])) (pick l))"
    by (rule prompt_phase [OF assms(1)]) (use Cons in simp_all)
  have "[0..<length ?p + ?n] = [0..<length ?p] @ [length ?p + 0..<length ?p + ?n]"
    using upt_add_eq_append [of 0 "length ?p" ?n] by simp
  then have loop: "oloop (decode_pos forward ?p) [0..<length ?p + ?n] (k, ?p ! 0, [])
      = obind (obind (feed_prompt forward 0 ?p k) (\<lambda>(l, k). omap (\<lambda>u. (k, u, [])) (pick l))) (oloop (decode_new forward (length ?p)) [0..<?n])"
    using ext [of "oloop (decode_pos forward ?p) [length ?p + 0..<length ?p + ?n]", OF new_phase [OF le0]]
    by (simp only: oloop_append ph drop_0)
  have "oget ?p 0 = (Ok (?p ! 0) :: u32 res)" using Cons by (simp add: oget_ok)
  moreover have "with_capacity_u32 ?n = Ok ()" using assms(3) by (simp add: with_capacity_u32_def)
  ultimately have gen: "generate forward cfg req k = obind (check_request cfg req) (\<lambda>total.
      omap (\<lambda>(_, _, g). g) (oloop (decode_pos forward ?p) [0..<total] (k, ?p ! 0, [])))"
    and pre: "generate_prefilled prefill forward cfg req k = obind (check_request cfg req) (\<lambda>_.
      obind (feed_prompt forward 0 ?p k) (\<lambda>(l, k). obind (pick l) (\<lambda>cur.
      omap (\<lambda>(_, _, g). g) (oloop (decode_new forward (length ?p)) [0..<?n] (k, cur, [])))))"
    by (simp_all add: generate_def generate_prefilled_def assms(2))
  have "omap (\<lambda>(_, _, g). g) (oloop (decode_pos forward ?p) [0..<length ?p + ?n] (k, ?p ! 0, []))
      = obind (feed_prompt forward 0 ?p k) (\<lambda>(l, k). obind (pick l) (\<lambda>cur.
      omap (\<lambda>(_, _, g). g) (oloop (decode_new forward (length ?p)) [0..<?n] (k, cur, []))))"
    unfolding loop by (cases "feed_prompt forward 0 ?p k"; simp add: split_def) (rename_tac s, case_tac "pick (fst s)"; simp)
  then show ?thesis unfolding gen pre by (cases "check_request cfg req") (auto dest: total)
qed

subsection \<open>What a certificate binds\<close>

lemma generate_length:
  assumes "generate forward cfg req k = Ok g" and "length (rq_prompt_tokens req) * 4 < 2 ^ 63"
  shows "length g = rq_n_new_tokens req \<and> rq_n_new_tokens req * 4 < 2 ^ 63"
proof -
  let ?p = "rq_prompt_tokens req" and ?n = "rq_n_new_tokens req"
  have n: "?n * 4 < 2 ^ 63" using assms(1) by (auto simp: generate_def with_capacity_u32_def split: if_splits)
  then have small: "length ?p + ?n \<le> usize_max" using assms(2) by (simp add: usize_max_def)
  obtain cur s where "oloop (decode_pos forward ?p) [0..<length ?p + ?n] (k, cur, []) = Ok s" "g = snd (snd s)"
    using assms(1) small by (auto simp: generate_def check_request_def outcome_simps Let_def split: if_splits prod.splits)
  from this(1) have "length (snd (snd s)) = length ?p + ?n - length ?p"
  proof (rule oloop_upt_inv [where P = "\<lambda>m s. length (snd (snd s)) = m - length ?p"])
    fix m t u assume "length (snd (snd t)) = m - length ?p" "decode_pos forward ?p t m = Ok u"
    then show "length (snd (snd u)) = Suc m - length ?p"
      by (cases t) (auto simp: decode_pos_def outcome_simps Suc_diff_le split: prod.splits)
  qed simp_all
  then show ?thesis using \<open>g = snd (snd s)\<close> n by simp
qed

definition bound_fields_ok :: "(bytes \<Rightarrow> bytes) \<Rightarrow> Config \<Rightarrow> bytes \<Rightarrow> Request \<Rightarrow> u32 list \<Rightarrow> bool" where
  "bound_fields_ok H cfg wh req g \<longleftrightarrow> len_ok (rq_model_id req) \<and> len_ok wh \<and> len_ok (H (arch_string cfg)) \<and>
     length (rq_prompt_tokens req) * 4 < 2 ^ 63 \<and> len_ok (H (u32_slice_to_le_bytes g))"

definition run_sections :: "(bytes \<Rightarrow> bytes) \<Rightarrow> Config \<Rightarrow> bytes \<Rightarrow> Request \<Rightarrow> u32 list \<Rightarrow> sections" where
  "run_sections H cfg wh req g = builder_sections (bind_outputs H g (bind_request H cfg wh req))"

lemma run_sections_ok:
  assumes "bound_fields_ok H cfg wh req g" and "length g * 4 < 2 ^ 63"
  shows "sections_ok (run_sections H cfg wh req g)"
  using assms
  by (simp add: run_sections_def sections_ok_def builder_sections_def bind_outputs_def bind_request_def builder_new_def
      declare_input_def declare_output_def Let_def field_ok_def len_ok_def bound_fields_ok_def u32_bytes_eq str_def)

lemma run_sections_inj:
  assumes "run_sections H cfg wh req g = run_sections H cfg' wh' req' g'"
  shows "rq_model_id req = rq_model_id req' \<and> wh = wh' \<and> H (arch_string cfg) = H (arch_string cfg') \<and>
    rq_prompt_tokens req = rq_prompt_tokens req' \<and> g = g'"
proof -
  let ?b = "bind_outputs H g (bind_request H cfg wh req)" and ?b' = "bind_outputs H g' (bind_request H cfg' wh' req')"
  have "cb_inputs ?b = cb_inputs ?b'" "cb_outputs ?b = cb_outputs ?b'"
    using assms by (simp_all add: run_sections_def builder_sections_def)
  then have "map cf_bytes (cb_inputs ?b) = map cf_bytes (cb_inputs ?b')" "map cf_bytes (cb_outputs ?b) = map cf_bytes (cb_outputs ?b')"
    by simp_all
  then show ?thesis unfolding bound_sections by (simp add: word_bytes_inj)
qed

lemma run_outcome_simps:
  "oc_generated_tokens (run_outcome H cfg wh req g) = g"
  "cert_digest (oc_cert (run_outcome H cfg wh req g)) = H (preimage_v2 REGIME (run_sections H cfg wh req g))"
  by (simp_all add: run_outcome_def cert_finalize_def compute_digest_def run_sections_def)

lemma forward_run_OkD:
  assumes "run_quantized_with_forward H cfg wh req S tier forward k st = Ok ((oc, cert_id), st')"
  obtains g where "generate forward cfg req k = Ok g" and "oc = run_outcome H cfg wh req g"
  using assms by (auto simp: run_quantized_with_forward_def certify_eq outcome_simps omap_err_eq_Ok split: prod.splits)

text \<open>The digest of a run determines the run, as far as the hash separates the strings it is given.\<close>

lemma run_outcome_binds:
  assumes "generate forward cfg req k = Ok g" and "generate forward' cfg' req' k' = Ok g'"
    and "bound_fields_ok H cfg wh req g" and "bound_fields_ok H cfg' wh' req' g'"
    and "inj_on H {arch_string cfg, arch_string cfg', preimage_v2 REGIME (run_sections H cfg wh req g),
      preimage_v2 REGIME (run_sections H cfg' wh' req' g')}"
    and "cert_digest (oc_cert (run_outcome H cfg wh req g)) = cert_digest (oc_cert (run_outcome H cfg' wh' req' g'))"
  shows "cfg = cfg' \<and> wh = wh' \<and> req = req' \<and> run_outcome H cfg wh req g = run_outcome H cfg' wh' req' g'"
proof -
  note g = assms(1) and g' = assms(2) and ok = assms(3,4) and inj = assms(5)
  have n: "length g = rq_n_new_tokens req" "length g * 4 < 2 ^ 63" and n': "length g' = rq_n_new_tokens req'" "length g' * 4 < 2 ^ 63"
    using generate_length [OF g] generate_length [OF g'] ok by (auto simp: bound_fields_ok_def)
  have "preimage_v2 REGIME (run_sections H cfg wh req g) = preimage_v2 REGIME (run_sections H cfg' wh' req' g')"
    by (rule inj_onD [OF inj]) (use assms(6) in \<open>simp_all add: run_outcome_simps\<close>)
  moreover have "len_ok REGIME" by (simp add: len_ok_def REGIME_def str_def)
  ultimately have "run_sections H cfg wh req g = run_sections H cfg' wh' req' g'"
    using preimage_v2_inj run_sections_ok [OF ok(1) n(2)] run_sections_ok [OF ok(2) n'(2)] by blast
  from run_sections_inj [OF this] have eq: "rq_model_id req = rq_model_id req'" "wh = wh'" "H (arch_string cfg) = H (arch_string cfg')"
    "rq_prompt_tokens req = rq_prompt_tokens req'" "g = g'" by blast+
  have "arch_string cfg = arch_string cfg'" by (rule inj_onD [OF inj eq(3)]) simp_all
  then have "cfg = cfg'" by (simp add: arch_string_inj)
  moreover have "req = req'" using eq n(1) n'(1) by (cases req; cases req') simp
  ultimately show ?thesis using eq by simp
qed

subsection \<open>A small forward pass and request\<close>

text \<open>Logits that always prefer the second of two tokens.\<close>

definition demo_forward :: "u32 \<Rightarrow> nat \<Rightarrow> unit \<Rightarrow> (tensor \<times> unit) res" where
  "demo_forward token pos k = omap (\<lambda>t. (t, k)) (slice_to_tensor [0, f32_one] [2])"

definition demo_request :: "bytes \<Rightarrow> Request" where
  "demo_request name = \<lparr>rq_model_id = name, rq_prompt_tokens = [1, 0], rq_n_new_tokens = 0\<rparr>"

lemma demo_forward_oks: "oks (demo_forward token pos k) (\<lambda>(l, k'). has_dims l [2])"
  unfolding demo_forward_def
  by (intro oks_map) (use slice_to_tensor_oks [of "[2]" "[0, f32_one]"] in \<open>simp add: usize_max_def shape_new_def MAX_RANK_def\<close>)

lemma demo_pick: "demo_forward t p k = Ok (l, k') \<Longrightarrow> \<exists>u. pick l = Ok u"
  using demo_forward_oks [of t p k] pick_oks [of l 2] by (auto simp: oks_def)

lemma demo_generate: "generate demo_forward tiny_cfg (demo_request name) () = Ok []"
proof -
  have step: "\<exists>u. decode_pos demo_forward [1, 0] (k, cur, []) p = Ok (k, u, [])" if "p < 2" for k cur p
  proof -
    obtain l where f: "demo_forward cur p k = Ok (l, k)" using demo_forward_oks [of cur p k] by (auto simp: oks_def)
    then obtain u where "pick l = Ok u" using demo_pick by blast
    then show ?thesis using f that by (simp add: decode_pos_def oget_ok)
  qed
  obtain u v where "decode_pos demo_forward [1, 0] ((), 1, []) 0 = Ok ((), u, [])" "decode_pos demo_forward [1, 0] ((), u, []) (Suc 0) = Ok ((), v, [])"
    using step [of 0] step [of 1] by fastforce
  moreover have "[0..<2] = [0, Suc 0]" by (simp add: upt_rec)
  ultimately show ?thesis
    by (simp add: generate_def with_capacity_u32_def check_request_def demo_request_def tiny_cfg_def usize_max_def oget_ok oloop_Nil_fun)
qed

lemma demo_run: "run_quantized_with_forward H tiny_cfg wh (demo_request name) null_sink 0 demo_forward () ()
    = Ok ((run_outcome H tiny_cfg wh (demo_request name) [], 0), ())"
  by (simp add: run_quantized_with_forward_def demo_generate certify_null)

subsection \<open>Properties\<close>



text \<open>
  C22: the certificate binds the whole run. When two runs, with any forward passes,
  sinks and tiers, end in certificates with the same digest, then the two configurations, weight
  hashes and requests are the same and so are the outcomes, unless the hash function collides on
  two of the four strings the digests are computed from.
\<close>

theorem certificate_binds_run:
  assumes "run_quantized_with_forward H cfg wh req S tier forward k st = Ok ((oc, cert_id), st1)"
    and "run_quantized_with_forward H cfg' wh' req' S' tier' forward' k' st' = Ok ((oc', cert_id'), st1')"
    and "bound_fields_ok H cfg wh req (oc_generated_tokens oc)" and "bound_fields_ok H cfg' wh' req' (oc_generated_tokens oc')"
    and "inj_on H {arch_string cfg, arch_string cfg', preimage_v2 REGIME (run_sections H cfg wh req (oc_generated_tokens oc)),
      preimage_v2 REGIME (run_sections H cfg' wh' req' (oc_generated_tokens oc'))}"
    and "cert_digest (oc_cert oc) = cert_digest (oc_cert oc')"
  shows "cfg = cfg' \<and> wh = wh' \<and> req = req' \<and> oc = oc'"
proof -
  obtain g where g: "generate forward cfg req k = Ok g" and oc: "oc = run_outcome H cfg wh req g"
    using assms(1) by (rule forward_run_OkD)
  obtain g' where g': "generate forward' cfg' req' k' = Ok g'" and oc': "oc' = run_outcome H cfg' wh' req' g'"
    using assms(2) by (rule forward_run_OkD)
  show ?thesis unfolding oc oc' by (rule run_outcome_binds [OF g g' assms(3-6) [unfolded oc oc' run_outcome_simps(1)]])
qed

theorem certificate_binds_run_witness:
  "cert_digest (oc_cert (run_outcome id tiny_cfg [9] (demo_request [7]) [])) \<noteq> cert_digest (oc_cert (run_outcome id tiny_cfg [9] (demo_request [8]) []))"
proof
  have ok: "bound_fields_ok id tiny_cfg [9] (demo_request [n]) []" for n
    by (simp add: bound_fields_ok_def demo_request_def len_ok_def u32_bytes_eq length_arch_string dec_digits_small tiny_cfg_def)
  assume "cert_digest (oc_cert (run_outcome id tiny_cfg [9] (demo_request [7]) [])) = cert_digest (oc_cert (run_outcome id tiny_cfg [9] (demo_request [8]) []))"
  from certificate_binds_run [OF demo_run demo_run _ _ inj_on_id this] ok show False
    by (simp add: run_outcome_simps demo_request_def)
qed

text \<open>
  C23: when the prefill call leaves the state and returns the logits that feeding the
  prompt token by token does, and the logits of the forward pass can be picked from, the batched
  driver ends exactly as the per-token driver, with the same outcome and certificate, the same error
  or a panic, whatever the sink does. In both, the token picked after the prompt is fed to the next
  step and is not among the generated tokens.
\<close>

theorem prefill_same_certificate:
  assumes "\<And>t p k l k'. forward t p k = Ok (l, k') \<Longrightarrow> \<exists>u. pick l = Ok u"
    and "prefill (rq_prompt_tokens req) k = feed_prompt forward 0 (rq_prompt_tokens req) k"
    and "rq_n_new_tokens req * 4 < 2 ^ 63" and "length (rq_prompt_tokens req) * 4 < 2 ^ 63"
  shows "run_quantized_with_prefill H cfg wh req S tier prefill forward k st = run_quantized_with_forward H cfg wh req S tier forward k st"
proof -
  have "generate_prefilled prefill forward cfg req k = generate forward cfg req k"
  proof (rule generate_prefilled_eq)
    fix t p k l k' assume "forward t p k = Ok (l, k')"
    then show "\<exists>u. pick l = Ok u" by (rule assms(1))
  qed (fact assms)+
  then show ?thesis by (simp add: run_quantized_with_prefill_def run_quantized_with_forward_def)
qed

theorem prefill_same_certificate_witness:
  "run_quantized_with_prefill id tiny_cfg [9] (demo_request [7]) (null_sink :: (unit, unit) CertSink) 0 (\<lambda>_. demo_forward 0 1) demo_forward () ()
    = run_quantized_with_forward id tiny_cfg [9] (demo_request [7]) (null_sink :: (unit, unit) CertSink) 0 demo_forward () ()"
  by (rule prefill_same_certificate [OF demo_pick])
    (simp_all add: demo_request_def demo_forward_def slice_to_tensor_def shape_new_def MAX_RANK_def tensor_from_f32_def numel_def)

text \<open>
  C24: a sink never influences inference. The drivers with a sink run the inference to its
  end first; on success they replay the request, every input and every output of the certificate to
  the sink, in order, and finalise it, and the outcome is that of the driver without a sink; an
  inference error is reported and the sink sees nothing.
\<close>

theorem sink_follows_run:
  "run_with_sink lm H cfg w wh req S tier st = obind (omap_err Inference (run lm H cfg w wh req)) (\<lambda>oc.
     obind (omap_err Sink (obind (oloop (sink_call S) (field_events tier (oc_cert oc)) st) (on_finalize S)))
       (\<lambda>(cert_id, st). Ok ((oc, cert_id), st))) \<and>
   run_quantized_with_sink lm H tg base cfg qw wh req S tier st = obind (omap_err Inference (run_quantized lm H tg base cfg qw wh req)) (\<lambda>oc.
     obind (omap_err Sink (obind (oloop (sink_call S) (field_events tier (oc_cert oc)) st) (on_finalize S)))
       (\<lambda>(cert_id, st). Ok ((oc, cert_id), st)))"
  by (simp add: run_with_sink_def run_quantized_with_sink_def run_quantized_with_forward_def run_eq run_quantized_eq certify_eq
      omap_err_obind omap_err_omap obind_assoc obind_omap)

text \<open>
  On quantised weights of the right sizes, inference ends the same on every build and
  machine (scalar or NEON dot pairs, serial or row-parallel, any thread count and schedule), in
  either regime: the same tokens, the same certificate, the same error or panic.
\<close>

theorem certificate_any_build:
  assumes "q_model_ok base cfg w" and "q_model_ok base' cfg w" and "target_ok tg" and "target_ok tg'"
  shows "run_quantized lm H tg base cfg w wh req = run_quantized lm H tg' base' cfg w wh req \<and>
    run_quantized_regime3 lm H tg base cfg w wh req = run_quantized_regime3 lm H tg' base' cfg w wh req"
proof -
  have "(\<lambda>cur pos rs. q_step lm H tg base cfg w rs cur pos) = (\<lambda>cur pos rs. q_step lm H tg' base' cfg w rs cur pos)"
    by (intro ext q_step_target [OF assms])
  then show ?thesis by (simp add: run_quantized_eq run_quantized_regime3_eq)
qed

theorem certificate_any_build_witness:
  "run_quantized id_libm id serial_target 0 tiny_cfg tiny_q [9] (demo_request [7]) = run_quantized id_libm id pool_target 0 tiny_cfg tiny_q [9] (demo_request [7])"
  using certificate_any_build [OF tiny_q_ok tiny_q_ok tiny_targets] by simp

text \<open>
  C25: a request is checked before the forward pass and the sink are called, whatever they
  are: an empty prompt and a request longer than the context are invalid-shape errors in both drivers.
  The per-token driver first reserves room for the new tokens, so that a count of \<open>2^61\<close> or more
  panics there where the prefill driver reports the error.
\<close>

theorem request_errors:
  fixes e1 e2 :: "'e RunError"
  defines "e1 \<equiv> Inference (InvalidShape ''prompt_tokens must not be empty'')"
    and "e2 \<equiv> Inference (InvalidShape ''prompt + n_new_tokens exceeds seq_len'')"
  assumes "rq_prompt_tokens req = [] \<and> e = e1 \<or> rq_prompt_tokens req \<noteq> [] \<and>
     c_seq_len cfg < wrap_add (length (rq_prompt_tokens req)) (rq_n_new_tokens req) \<and> e = e2"
  shows "run_quantized_with_prefill H cfg wh req S tier prefill dec k st = Err e \<and>
    run_quantized_with_forward H cfg wh req S tier forward k st = (if rq_n_new_tokens req < 2 ^ 61 then Err e else Panic)"
  using assms(3)
  by (auto simp: run_quantized_with_prefill_def run_quantized_with_forward_def generate_def generate_prefilled_def check_request_def
      with_capacity_u32_def e1_def e2_def Let_def)

theorem request_errors_witness:
  "run_quantized_with_prefill id tiny_cfg [9] \<lparr>rq_model_id = [], rq_prompt_tokens = [1], rq_n_new_tokens = 2 ^ 61\<rparr> (null_sink :: (unit, unit) CertSink) 0 (\<lambda>_. demo_forward 0 1) demo_forward () ()
     = Err (Inference (InvalidShape ''prompt + n_new_tokens exceeds seq_len'')) \<and>
   run_quantized_with_forward id tiny_cfg [9] \<lparr>rq_model_id = [], rq_prompt_tokens = [1], rq_n_new_tokens = 2 ^ 61\<rparr> (null_sink :: (unit, unit) CertSink) 0 demo_forward () () = Panic"
proof -
  let ?r = "\<lparr>rq_model_id = [], rq_prompt_tokens = [1], rq_n_new_tokens = 2 ^ 61\<rparr>"
  let ?e = "Inference (InvalidShape ''prompt + n_new_tokens exceeds seq_len'') :: unit RunError"
  have "rq_prompt_tokens ?r = [] \<and> ?e = Inference (InvalidShape ''prompt_tokens must not be empty'') \<or> rq_prompt_tokens ?r \<noteq> [] \<and>
     c_seq_len tiny_cfg < wrap_add (length (rq_prompt_tokens ?r)) (rq_n_new_tokens ?r) \<and> ?e = ?e"
    by (simp add: tiny_cfg_def wrap_add_def)
  from request_errors [OF this, of id "[9]" null_sink 0 "\<lambda>_. demo_forward 0 1" demo_forward "()" "()" demo_forward]
  show ?thesis by simp
qed

end
