(* ===== verification/TokenBase.thy ===== *)
theory TokenBase
  imports Utf8 Gguf Config "HOL-Library.Sublist"
begin

text \<open>
  What the tokenizers of \<open>src/src/tokenizer\<close> share: cutting bytes into well-formed and malformed
  chunks, the reverse index of a vocabulary, the greedy merge loop, and the string and float arrays
  of a GGUF file. The merge loop is an interface: a tokenizer provides the choice of the next merge
  and an invariant that every chosen merge keeps.
\<close>

subsection \<open>Chunks of a byte string\<close>

text \<open>
  \<open>Utf8Error::valid_up_to\<close>, and the length of the malformed sequence at the head of a byte string
  (\<open>error_len\<close>, or all that remains when the string ends inside a character).
\<close>

function valid_up_to :: "bytes \<Rightarrow> nat" where
  "valid_up_to bs = (let w = utf8_width bs in if w = 0 then 0 else w + valid_up_to (drop w bs))"
  by auto
termination
proof (relation "measure length")
  fix bs w assume "w = utf8_width bs" "w \<noteq> 0"
  then show "(drop w bs, bs) \<in> measure length" using utf8_width_le_length [of bs] by auto
qed simp

declare valid_up_to.simps [simp del]

fun bad_len :: "bytes \<Rightarrow> nat" where
  "bad_len [] = 0"
| "bad_len [a] = 1"
| "bad_len (a # b # bs) = (if lead_width a \<noteq> 0 \<and> follow_ok a [b] then 2 + length (takeWhile is_cont (take (lead_width a - 2) bs)) else 1)"

function utf8_chunks :: "bytes \<Rightarrow> (bytes \<times> bytes) list" where
  "utf8_chunks bs =
     (if bs = [] then [] else if utf8_ok bs then [(bs, [])]
      else let v = valid_up_to bs; n = bad_len (drop v bs) in
        (take v bs, take n (drop v bs)) # utf8_chunks (if v + n = 0 then [] else drop (v + n) bs))"
  by auto
termination by (relation "measure length") auto

declare utf8_chunks.simps [simp del]

text \<open>Every malformed chunk is replaced.\<close>

definition utf8_lossy :: "bytes \<Rightarrow> bytes \<Rightarrow> bytes" where
  "utf8_lossy repl bs = concat (map (\<lambda>(v, i). v @ (if i \<noteq> [] then repl else [])) (utf8_chunks bs))"

lemma utf8_lossy_ok: "utf8_ok bs \<Longrightarrow> utf8_lossy repl bs = bs"
  by (simp add: utf8_lossy_def utf8_chunks.simps)

lemma utf8_lossy_Nil [simp]: "utf8_lossy repl [] = []"
  by (simp add: utf8_lossy_ok)

text \<open>A malformed string does not end at its first malformed byte, so the chunk loop advances.\<close>

lemma valid_up_to_short: "\<not> utf8_ok bs \<Longrightarrow> valid_up_to bs < length bs"
proof (induction bs rule: valid_up_to.induct)
  case (1 bs)
  have ne: "bs \<noteq> []" using 1(2) by auto
  show ?case
  proof (cases "utf8_width bs = 0")
    case True
    then show ?thesis using ne by (simp add: valid_up_to.simps)
  next
    case False
    then have "\<not> utf8_ok (drop (utf8_width bs) bs)" using 1(2) by (simp add: utf8_ok_def utf8_chars_step)
    from 1(1) [OF refl False this] show ?thesis
      using utf8_width_le_length [of bs] False by (subst valid_up_to.simps) (simp add: Let_def)
  qed
qed

lemma bad_len_pos: "bs \<noteq> [] \<Longrightarrow> 0 < bad_len bs \<and> bad_len bs \<le> length bs"
proof (induction bs rule: bad_len.induct)
  case (3 a b bs)
  have "length (takeWhile is_cont (take k bs)) \<le> length bs" for k
    by (rule order_trans [OF length_takeWhile_le]) simp
  then show ?case by auto
qed simp_all

subsection \<open>Vocabulary index\<close>

text \<open>\<open>entry(k).or_insert(v)\<close>: the first insertion of a key stays.\<close>

definition or_insert :: "'k \<Rightarrow> 'v \<Rightarrow> ('k \<rightharpoonup> 'v) \<Rightarrow> 'k \<rightharpoonup> 'v" where
  "or_insert k v m = (case m k of None \<Rightarrow> m(k \<mapsto> v) | Some _ \<Rightarrow> m)"

definition vocab_index :: "bytes list \<Rightarrow> bytes \<rightharpoonup> u32" where
  "vocab_index vocab = foldl (\<lambda>m (i, t). or_insert t (of_nat i) m) Map.empty (enumerate 0 vocab)"

lemma or_insert_eq: "or_insert k v m x = (if x = k \<and> m k = None then Some v else m x)"
  by (auto simp: or_insert_def split: option.splits)

lemma vocab_index_snoc: "vocab_index (vocab @ [t]) = or_insert t (of_nat (length vocab)) (vocab_index vocab)"
  by (simp add: vocab_index_def enumerate_append_eq)

text \<open>The index finds exactly the entries of the vocabulary, each at its first position.\<close>

lemma vocab_index_Some:
  "vocab_index vocab t = Some ix \<Longrightarrow> length vocab \<le> 2 ^ 32 \<Longrightarrow> unat ix < length vocab \<and> vocab ! unat ix = t"
proof (induction vocab rule: rev_induct)
  case Nil
  then show ?case by (simp add: vocab_index_def)
next
  case (snoc s vocab)
  have "unat (of_nat (length vocab) :: u32) = length vocab" using snoc.prems(2) by (simp add: unat_of_nat)
  then show ?case using snoc by (auto simp: vocab_index_snoc or_insert_eq nth_append split: if_splits)
qed

lemma vocab_index_None: "vocab_index vocab t = None \<longleftrightarrow> t \<notin> set vocab"
  by (induction vocab rule: rev_induct) (auto simp: vocab_index_snoc or_insert_eq, simp_all add: vocab_index_def)

subsection \<open>The greedy merge loop\<close>

text \<open>\<open>xs[i] = x; xs.remove(i + 1)\<close>.\<close>

definition merge_at :: "nat \<Rightarrow> 'a \<Rightarrow> 'a list \<Rightarrow> 'a list" where
  "merge_at i x xs = take i xs @ x # drop (i + 2) xs"

function merge_loop :: "('a list \<Rightarrow> (nat \<times> 'a) option res) \<Rightarrow> 'a list \<Rightarrow> 'a list res" where
  "merge_loop best xs =
     (case best xs of Panic \<Rightarrow> Panic | Err e \<Rightarrow> Err e | Ok None \<Rightarrow> Ok xs
      | Ok (Some (i, x)) \<Rightarrow> if Suc i < length xs then merge_loop best (merge_at i x xs) else Panic)"
  by auto
termination by (relation "measure (\<lambda>(_, xs). length xs)") (auto simp: merge_at_def)

declare merge_loop.simps [simp del]

lemma merge_loop_length: "merge_loop best xs = Ok ys \<Longrightarrow> length ys \<le> length xs \<and> (xs \<noteq> [] \<longrightarrow> ys \<noteq> [])"
proof (induction best xs rule: merge_loop.induct)
  case (1 best xs)
  show ?case
  proof (cases "best xs")
    case (Ok r)
    show ?thesis
    proof (cases r)
      case (Some p)
      obtain i x where p: "p = (i, x)" by (cases p)
      then have i: "Suc i < length xs" "merge_loop best (merge_at i x xs) = Ok ys"
        using 1(2) Ok Some by (subst (asm) merge_loop.simps, simp split: if_splits)+
      from 1(1) [OF Ok Some p [symmetric] i] i(1) show ?thesis by (auto simp: merge_at_def)
    qed (use 1(2) Ok in \<open>simp add: merge_loop.simps\<close>)
  qed (use 1(2) in \<open>simp_all add: merge_loop.simps\<close>)
qed

locale merger =
  fixes best :: "'a list \<Rightarrow> (nat \<times> 'a) option res" and holds :: "'a list \<Rightarrow> bool"
  assumes law: "holds xs \<Longrightarrow> oks (best xs) (\<lambda>r. \<forall>i x. r = Some (i, x) \<longrightarrow> Suc i < length xs \<and> holds (merge_at i x xs))"
begin

lemma merge_loop_oks: "holds xs \<Longrightarrow> oks (merge_loop best xs) (\<lambda>ys. holds ys \<and> best ys = Ok None)"
proof (induction "length xs" arbitrary: xs rule: less_induct)
  case less
  obtain r where r: "best xs = Ok r" "\<forall>i x. r = Some (i, x) \<longrightarrow> Suc i < length xs \<and> holds (merge_at i x xs)"
    using law [OF less(2)] by (auto simp: oks_def)
  show ?case
  proof (cases r)
    case None
    then show ?thesis using r less(2) by (simp add: merge_loop.simps)
  next
    case (Some p)
    obtain i x where p: "p = (i, x)" by (cases p)
    then have "oks (merge_loop best (merge_at i x xs)) (\<lambda>ys. holds ys \<and> best ys = Ok None)"
      using r(2) Some by (intro less(1)) (auto simp: merge_at_def)
    then show ?thesis using r Some p by (subst merge_loop.simps) simp
  qed
qed

end

subsection \<open>The best-scored pair\<close>

text \<open>
  One round of the SentencePiece-style loop: the leftmost pair, from position \<open>start\<close> on, whose
  concatenation is a token of the highest score, when that exceeds minus infinity.
\<close>

definition pair_step :: "bytes list \<Rightarrow> f32 list \<Rightarrow> (bytes \<rightharpoonup> u32) \<Rightarrow> u32 list \<Rightarrow> f32 \<times> (nat \<times> u32) option \<Rightarrow> nat \<Rightarrow> (f32 \<times> (nat \<times> u32) option) res" where
  "pair_step vocab scores by_bytes tokens = (\<lambda>(best_score, best) i.
     obind (oget tokens i) (\<lambda>s. obind (oget vocab (unat s)) (\<lambda>a.
     obind (oget tokens (i + 1)) (\<lambda>t. obind (oget vocab (unat t)) (\<lambda>b.
     case by_bytes (a @ b) of None \<Rightarrow> Ok (best_score, best)
     | Some merged \<Rightarrow> obind (oget scores (unat merged)) (\<lambda>sc.
         Ok (if f32_lt best_score sc then (sc, Some (i, merged)) else (best_score, best))))))))"

definition best_pair :: "bytes list \<Rightarrow> f32 list \<Rightarrow> (bytes \<rightharpoonup> u32) \<Rightarrow> nat \<Rightarrow> u32 list \<Rightarrow> (nat \<times> u32) option res" where
  "best_pair vocab scores by_bytes start tokens =
     omap snd (oloop (pair_step vocab scores by_bytes tokens) [start..<length tokens - 1] (f32_neg_infinity, None))"

text \<open>A pair that a round could choose.\<close>

definition mergeable :: "bytes list \<Rightarrow> f32 list \<Rightarrow> (bytes \<rightharpoonup> u32) \<Rightarrow> u32 list \<Rightarrow> nat \<Rightarrow> bool" where
  "mergeable vocab scores by_bytes tokens i \<longleftrightarrow>
     (\<exists>m. by_bytes (vocab ! unat (tokens ! i) @ vocab ! unat (tokens ! Suc i)) = Some m \<and> f32_lt f32_neg_infinity (scores ! unat m))"

text \<open>A vocabulary with its scores and reverse index.\<close>

definition scored_ok :: "bytes list \<Rightarrow> f32 list \<Rightarrow> (bytes \<rightharpoonup> u32) \<Rightarrow> bool" where
  "scored_ok vocab scores by_bytes \<longleftrightarrow> by_bytes = vocab_index vocab \<and> length scores = length vocab \<and> length vocab \<le> 2 ^ 32"

lemma scored_okD: "scored_ok vocab scores by_bytes \<Longrightarrow> by_bytes t = Some m \<Longrightarrow> unat m < length vocab \<and> unat m < length scores \<and> vocab ! unat m = t"
  using vocab_index_Some by (auto simp: scored_ok_def)

definition ids_ok :: "bytes list \<Rightarrow> u32 list \<Rightarrow> bool" where
  "ids_ok vocab tokens \<longleftrightarrow> (\<forall>t\<in>set tokens. unat t < length vocab)"

lemma best_pair_oks:
  assumes "scored_ok vocab scores by_bytes" and "ids_ok vocab (drop start tokens)"
  shows "oks (best_pair vocab scores by_bytes start tokens) (\<lambda>r. case r of
     None \<Rightarrow> \<forall>i. start \<le> i \<and> Suc i < length tokens \<longrightarrow> \<not> mergeable vocab scores by_bytes tokens i
   | Some (i, m) \<Rightarrow> start \<le> i \<and> Suc i < length tokens \<and> unat m < length vocab \<and>
       vocab ! unat m = vocab ! unat (tokens ! i) @ vocab ! unat (tokens ! Suc i))"
proof -
  let ?v = "\<lambda>i. vocab ! unat (tokens ! i)"
  define P where "P k s \<longleftrightarrow> (case snd s of
     None \<Rightarrow> fst s = f32_neg_infinity \<and> (\<forall>i. start \<le> i \<and> i < k \<longrightarrow> \<not> mergeable vocab scores by_bytes tokens i)
   | Some (i, m) \<Rightarrow> start \<le> i \<and> i < k \<and> unat m < length vocab \<and> vocab ! unat m = ?v i @ ?v (Suc i))"
    for k and s :: "f32 \<times> (nat \<times> u32) option"
  have ids: "unat (tokens ! i) < length vocab" if "start \<le> i" "i < length tokens" for i
    using assms(2) that nth_mem [of "i - start" "drop start tokens"] by (auto simp: ids_ok_def)
  show ?thesis
  proof (cases "start \<le> length tokens - 1")
    case True
    show ?thesis unfolding best_pair_def
    proof (intro oks_map oks_mono [OF oks_loop_upt [where P = P]])
      fix k s assume k: "start \<le> k" "k < length tokens - 1" and s: "P k s"
      obtain bs b where [simp]: "s = (bs, b)" by (cases s)
      have step: "pair_step vocab scores by_bytes tokens s k = (case by_bytes (?v k @ ?v (Suc k)) of None \<Rightarrow> Ok (bs, b)
        | Some m \<Rightarrow> obind (oget scores (unat m)) (\<lambda>sc. Ok (if f32_lt bs sc then (sc, Some (k, m)) else (bs, b))))"
        using k ids [of k] ids [of "Suc k"] by (simp add: pair_step_def oget_ok)
      show "oks (pair_step vocab scores by_bytes tokens s k) (P (Suc k))"
      proof (cases "by_bytes (?v k @ ?v (Suc k))")
        case None
        then have "pair_step vocab scores by_bytes tokens s k = Ok (bs, b)" by (simp only: step) simp
        then show ?thesis using s None by (auto simp: P_def less_Suc_eq mergeable_def split: option.splits)
      next
        case (Some m)
        note m = scored_okD [OF assms(1) Some]
        have "pair_step vocab scores by_bytes tokens s k
            = Ok (if f32_lt bs (scores ! unat m) then (scores ! unat m, Some (k, m)) else (bs, b))"
          using m Some by (simp only: step) (simp add: oget_ok)
        then show ?thesis using s k Some m
          by (auto simp: P_def less_Suc_eq mergeable_def split: option.splits)
      qed
    qed (use True in \<open>auto simp: P_def split: option.splits\<close>)
  next
    case False
    then show ?thesis by (auto simp: best_pair_def)
  qed
qed

lemma best_pair_None:
  assumes "scored_ok vocab scores by_bytes" and "best_pair vocab scores by_bytes start tokens = Ok None" and "ids_ok vocab (drop start tokens)"
  shows "\<forall>i. start \<le> i \<and> Suc i < length tokens \<longrightarrow> \<not> mergeable vocab scores by_bytes tokens i"
  using best_pair_oks [OF assms(1,3)] assms(2) by simp

text \<open>
  The loops of the two scored tokenizers keep the tokens before \<open>start\<close> and the bytes the others
  spell, each token the bytes that \<open>f\<close> gives it.
\<close>

definition spells :: "(u32 \<Rightarrow> bytes) \<Rightarrow> bytes list \<Rightarrow> nat \<Rightarrow> u32 list \<Rightarrow> bytes \<Rightarrow> u32 list \<Rightarrow> bool" where
  "spells f vocab start hd_part spelt tokens \<longleftrightarrow> start \<le> length tokens \<and> take start tokens = hd_part \<and>
     ids_ok vocab (drop start tokens) \<and> concat (map f (drop start tokens)) = spelt"

lemma merge_at_drop: "start \<le> i \<Longrightarrow> Suc i < length xs \<Longrightarrow> drop start (merge_at i x xs) = merge_at (i - start) x (drop start xs)"
  by (simp add: merge_at_def drop_take add.commute)

lemma split_pair: "Suc i < length xs \<Longrightarrow> xs = take i xs @ xs ! i # xs ! Suc i # drop (i + 2) xs"
  by (simp add: Cons_nth_drop_Suc)

lemma spells_merge:
  assumes "spells f vocab start hd_part spelt tokens" and "start \<le> i" and "Suc i < length tokens" and "unat m < length vocab"
    and "f m = f (tokens ! i) @ f (tokens ! Suc i)"
  shows "spells f vocab start hd_part spelt (merge_at i m tokens)"
proof -
  let ?d = "drop start tokens" and ?j = "i - start"
  have j: "Suc ?j < length ?d" "?d ! ?j = tokens ! i" "?d ! Suc ?j = tokens ! Suc i" using assms(2,3) by auto
  have d: "?d = take ?j ?d @ tokens ! i # tokens ! Suc i # drop (?j + 2) ?d" using split_pair [OF j(1)] j(2,3) by simp
  have m: "drop start (merge_at i m tokens) = take ?j ?d @ m # drop (?j + 2) ?d"
    using merge_at_drop [OF assms(2,3)] by (simp add: merge_at_def)
  have "set (take ?j ?d) \<subseteq> set ?d" "set (drop (?j + 2) ?d) \<subseteq> set ?d" by (rule set_take_subset, rule set_drop_subset)
  then have "ids_ok vocab (drop start (merge_at i m tokens))" using assms(1,4) unfolding m by (auto simp: ids_ok_def spells_def)
  moreover have "concat (map f (drop start (merge_at i m tokens))) = concat (map f (take ?j ?d @ tokens ! i # tokens ! Suc i # drop (?j + 2) ?d))"
    unfolding m by (simp add: assms(5))
  moreover have "take start (merge_at i m tokens) = take start tokens" using assms(2,3) by (simp add: merge_at_def min_def)
  moreover have "start \<le> length (merge_at i m tokens)" using assms(2,3) by (simp add: merge_at_def)
  ultimately show ?thesis using assms(1) unfolding spells_def d [symmetric] by blast
qed

interpretation scored: merger "best_pair vocab scores by_bytes start"
    "\<lambda>tokens. scored_ok vocab scores by_bytes \<and> spells (\<lambda>t. vocab ! unat t) vocab start hd_part spelt tokens" for vocab scores by_bytes start hd_part spelt
proof unfold_locales
  fix xs assume xs: "scored_ok vocab scores by_bytes \<and> spells (\<lambda>t. vocab ! unat t) vocab start hd_part spelt xs"
  then have "ids_ok vocab (drop start xs)" by (simp add: spells_def)
  with xs show "oks (best_pair vocab scores by_bytes start xs) (\<lambda>r. \<forall>i x. r = Some (i, x) \<longrightarrow>
      Suc i < length xs \<and> scored_ok vocab scores by_bytes \<and> spells (\<lambda>t. vocab ! unat t) vocab start hd_part spelt (merge_at i x xs))"
    by (intro oks_mono [OF best_pair_oks]) (auto intro: spells_merge)
qed

subsection \<open>Arrays of a GGUF file\<close>

text \<open>
  \<open>read_str_array\<close> of both GGUF tokenizers, which differ in the message for a missing key: every
  element is a length and that many bytes. Sums of offsets wrap around, and \<open>with_capacity\<close> panics on
  more than \<open>isize::MAX\<close> bytes (a vector of bytes takes 24).
\<close>

definition with_capacity :: "nat \<Rightarrow> nat \<Rightarrow> unit res" where
  "with_capacity elem n = (if n * elem < 2 ^ 63 then Ok () else Panic)"

definition str_element :: "bytes \<Rightarrow> nat \<times> bytes list \<Rightarrow> nat \<Rightarrow> (nat \<times> bytes list) res" where
  "str_element d = (\<lambda>(p, ss) _.
     if length d < wrap_add p 8 then Err (InvalidShape ''gguf str array truncated'')
     else obind (oslice d p (wrap_add p 8)) (\<lambda>h. let n = unat (le64 h); p = wrap_add p 8 in
       if length d < wrap_add p n then Err (InvalidShape ''gguf str element past end'')
       else obind (oslice d p (wrap_add p n)) (\<lambda>s. Ok (wrap_add p n, ss @ [s]))))"

definition read_str_array :: "string \<Rightarrow> GgufFile \<Rightarrow> bytes \<Rightarrow> bytes list res" where
  "read_str_array missing g key = (case metadata_value g key of
     Some (GvArray a) \<Rightarrow> if ga_elem_type a = STRING
       then obind (with_capacity 24 (unat (ga_len a))) (\<lambda>_.
         omap snd (oloop (str_element (ga_data a)) [0..<unat (ga_len a)] (0, [])))
       else Err (InvalidShape missing)
   | _ \<Rightarrow> Err (InvalidShape missing))"

definition read_f32_array :: "GgufFile \<Rightarrow> bytes \<Rightarrow> f32 list res" where
  "read_f32_array g key = (case metadata_value g key of
     Some (GvArray a) \<Rightarrow> if ga_elem_type a = FLOAT32
       then obind (with_capacity 4 (unat (ga_len a))) (\<lambda>_.
         oloop (\<lambda>xs i. if length (ga_data a) < wrap_add (wrap_mul i 4) 4 then Err (InvalidShape ''gguf f32 array truncated'')
           else omap (\<lambda>h. xs @ [le32 h]) (oslice (ga_data a) (wrap_mul i 4) (wrap_add (wrap_mul i 4) 4)))
           [0..<unat (ga_len a)] [])
       else Err (InvalidShape ''gguf: tokenizer.ggml.scores missing or not an f32 array'')
   | _ \<Rightarrow> Err (InvalidShape ''gguf: tokenizer.ggml.scores missing or not an f32 array''))"

text \<open>The bytes of a string array, and what a parsed array guarantees.\<close>

definition enc_strs :: "bytes list \<Rightarrow> bytes" where
  "enc_strs ss = concat (map (\<lambda>s. to_le_bytes64 (of_nat (length s)) @ s) ss)"

lemma str_element_at:
  assumes "length d \<le> usize_max" and "d = pre @ to_le_bytes64 (of_nat (length s)) @ s @ post"
  shows "str_element d (length pre, ss) i = Ok (length pre + 8 + length s, ss @ [s])"
proof -
  let ?h = "to_le_bytes64 (of_nat (length s))"
  have len: "length pre + 8 + length s \<le> length d" using assms(2) by simp
  then have w: "wrap_add (length pre) 8 = length pre + 8" "wrap_add (length pre + 8) (length s) = length pre + 8 + length s"
    using assms(1) by simp_all
  have n: "unat (of_nat (length s) :: u64) = length s" using len assms(1) by (simp add: unat_of_nat usize_max_def)
  have "slice d (length pre) (length pre + 8) = ?h" "slice d (length pre + 8) (length pre + 8 + length s) = s"
    by (simp_all add: assms(2) slice_def)
  then show ?thesis using len w n by (simp add: str_element_def oslice_def)
qed

lemma str_elements:
  assumes "length (enc_strs ss @ post) \<le> usize_max" and "k \<le> length ss"
  shows "oloop (str_element (enc_strs ss @ post)) [0..<k] (0, []) = Ok (length (enc_strs (take k ss)), take k ss)"
  using assms(2)
proof (induction k)
  case 0
  then show ?case by (simp add: enc_strs_def)
next
  case (Suc k)
  let ?s = "ss ! k"
  have "ss = take k ss @ ?s # drop (Suc k) ss" using Suc.prems by (simp add: id_take_nth_drop)
  then have "enc_strs ss = enc_strs (take k ss @ ?s # drop (Suc k) ss)" by simp
  then have "enc_strs ss @ post = enc_strs (take k ss) @ to_le_bytes64 (of_nat (length ?s)) @ ?s @ enc_strs (drop (Suc k) ss) @ post"
    by (simp add: enc_strs_def)
  from str_element_at [OF assms(1) this, of "take k ss" k] show ?case
    using Suc by (simp add: oloop_append oloop_Nil_fun take_Suc_conv_app_nth enc_strs_def)
qed

lemma length_enc_strs: "8 * length ss \<le> length (enc_strs ss)"
  by (induction ss) (auto simp: enc_strs_def)

lemma read_str_array_at:
  assumes "gf_metadata g key = Some (GvArray a)" and "ga_elem_type a = STRING" and "array_ok a" and "length (ga_data a) < 2 ^ 61"
  shows "\<exists>ss. read_str_array missing g key = Ok ss \<and> ga_data a = enc_strs ss \<and> length ss = unat (ga_len a)"
proof -
  obtain ss where ss: "ga_data a = enc_strs ss" "length ss = unat (ga_len a)"
    using assms(2,3) by (auto simp: array_ok_def enc_strs_def)
  have "8 * length ss < 2 ^ 61" using length_enc_strs [of ss] ss assms(4) by simp
  then have "with_capacity 24 (unat (ga_len a)) = Ok ()" by (simp add: with_capacity_def ss(2) [symmetric])
  moreover have "oloop (str_element (ga_data a)) [0..<unat (ga_len a)] (0, []) = Ok (length (enc_strs ss), ss)"
    using str_elements [of ss "[]" "length ss"] assms(4) ss by (simp add: usize_max_def)
  ultimately show ?thesis using assms(1,2) ss by (simp add: read_str_array_def metadata_value_def)
qed

text \<open>The arrays of a parsed file are well formed.\<close>

lemma skip_string_shape:
  assumes "cur_ok c" and "skip_array_string c = Ok (u, c')"
  shows "\<exists>s. slice (cur_buf c) (cur_pos c) (cur_pos c') = to_le_bytes64 (of_nat (length s)) @ s \<and> length s \<le> usize_max"
proof -
  obtain n c1 where r: "read_u64 c = Ok (n, c1)" "c' = c1\<lparr>cur_pos := cur_pos c1 + unat n\<rparr>"
    "cur_pos c1 + unat n \<le> length (cur_buf c1)" "cur_pos c1 + unat n \<le> usize_max"
    using assms(2) by (auto simp: skip_array_string_def outcome_simps split: if_splits)
  let ?h = "slice (cur_buf c) (cur_pos c) (cur_pos c + 8)" and ?s = "slice (cur_buf c) (cur_pos c + 8) (cur_pos c')"
  have c1: "n = le64 ?h" "c1 = c\<lparr>cur_pos := cur_pos c + 8\<rparr>" "cur_pos c + 8 \<le> length (cur_buf c)"
    using r(1) by (auto simp: read_u64_def read_n_def outcome_simps oslice_def split: if_splits)
  then have "length ?s = unat n" "length ?h = 8" using r by (auto simp: slice_def)
  then have "?h = to_le_bytes64 (of_nat (length ?s))" using c1(1) by (simp add: to_le_bytes_le)
  moreover have "slice (cur_buf c) (cur_pos c) (cur_pos c') = ?h @ ?s" using c1 r by (simp add: slice_append_slice)
  ultimately show ?thesis using \<open>length ?s = unat n\<close> r(4) by auto
qed

lemma skip_strings_shape:
  assumes "cur_ok c" and "read_times n skip_array_string c = Ok (us, c')"
  shows "\<exists>ss. slice (cur_buf c) (cur_pos c) (cur_pos c') = enc_strs ss \<and> length ss = n \<and> list_all (\<lambda>s. length s \<le> usize_max) ss"
  using assms
proof (induction n arbitrary: c us)
  case 0
  then show ?case by (auto simp: enc_strs_def)
next
  case (Suc n)
  then obtain u c1 ys where c1: "skip_array_string c = Ok (u, c1)" "read_times n skip_array_string c1 = Ok (ys, c')"
    by (auto simp: outcome_simps)
  note a = rd_skip_string.advances [OF Suc.prems(1) c1(1)]
  obtain s where s: "slice (cur_buf c) (cur_pos c) (cur_pos c1) = to_le_bytes64 (of_nat (length s)) @ s" "length s \<le> usize_max"
    using skip_string_shape [OF Suc.prems(1) c1(1)] by blast
  obtain ss where ss: "slice (cur_buf c) (cur_pos c1) (cur_pos c') = enc_strs ss" "length ss = n" "list_all (\<lambda>s. length s \<le> usize_max) ss"
    using Suc.IH [OF _ c1(2)] a by auto
  have "cur_pos c1 \<le> cur_pos c'" "cur_pos c' \<le> length (cur_buf c)"
    using rd_skip_string.times_advances [OF _ c1(2)] a by (auto simp: cur_ok_def)
  then have "slice (cur_buf c) (cur_pos c) (cur_pos c') = enc_strs (s # ss)"
    using slice_append_slice [of "cur_pos c" "cur_pos c1" "cur_pos c'" "cur_buf c"] a s(1) ss(1) by (simp add: enc_strs_def)
  then show ?case using s(2) ss(2,3) by (intro exI [of _ "s # ss"]) simp
qed

lemma read_array_shape:
  assumes "cur_ok c" and "read_array c = Ok (a, c')"
  shows "array_ok a \<and> length (ga_data a) \<le> length (cur_buf c)"
proof -
  obtain raw c1 ty len c2 u where r: "read_u32 c = Ok (raw, c1)" "value_type_from_u32 raw = Some ty" "ty \<noteq> ARRAY" "read_u64 c1 = Ok (len, c2)"
    "skip_array ty (unat len) c2 = Ok (u, c')" "cur_pos c2 \<le> cur_pos c'" "cur_pos c' \<le> length (cur_buf c')"
    "a = \<lparr>ga_elem_type = ty, ga_len = len, ga_data = slice (cur_buf c') (cur_pos c2) (cur_pos c')\<rparr>"
    using assms(2) by (auto simp: read_array_def outcome_simps Let_def oslice_def split: if_splits)
  note a1 = rd_u32.advances [OF assms(1) r(1)]
  note a2 = rd_u64.advances [OF a1 [THEN conjunct2, THEN conjunct2] r(4)]
  note a3 = rd_skip.advances [OF a2 [THEN conjunct2, THEN conjunct2] r(5)]
  have buf: "cur_buf c' = cur_buf c" "cur_buf c2 = cur_buf c" "cur_ok c2" using a1 a2 a3 by auto
  have len: "length (ga_data a) \<le> length (cur_buf c)" using r(8) buf by (simp add: slice_def)
  show ?thesis
  proof (cases "ty = STRING")
    case True
    then obtain us where "read_times (unat len) skip_array_string c2 = Ok (us, c')"
      using r(5) by (auto simp: skip_array_def outcome_simps)
    from skip_strings_shape [OF buf(3) this] show ?thesis using True r(8) buf len by (auto simp: array_ok_def enc_strs_def)
  next
    case False
    then show ?thesis using r(3,5,8) buf len
      by (auto simp: array_ok_def skip_array_def skip_array_prims_def outcome_simps slice_def split: if_splits)
  qed
qed

lemma read_value_array: "read_value ty c = Ok (GvArray a, c') \<Longrightarrow> read_array c = Ok (a, c')"
  by (cases ty) (auto simp: outcome_simps)

lemma read_kvs_arrays:
  assumes "cur_ok c" and "read_times n read_kv c = Ok (kvs, c')" and "(k, GvArray a) \<in> set kvs"
  shows "array_ok a \<and> length (ga_data a) \<le> length (cur_buf c)"
  using assms
proof (induction n arbitrary: c kvs)
  case (Suc n)
  then obtain p c1 ps where c1: "read_kv c = Ok (p, c1)" "read_times n read_kv c1 = Ok (ps, c')" "kvs = p # ps"
    by (auto simp: outcome_simps)
  note a = rd_kv.advances [OF Suc.prems(1) c1(1)]
  show ?case
  proof (cases "p = (k, GvArray a)")
    case True
    then obtain key c2 raw c3 ty where r: "read_string c = Ok (key, c2)" "read_u32 c2 = Ok (raw, c3)" "read_value ty c3 = Ok (GvArray a, c1)"
      using c1(1) by (auto simp: read_kv_def outcome_simps)
    note a1 = rd_string.advances [OF Suc.prems(1) r(1)]
    note a2 = rd_u32.advances [OF a1 [THEN conjunct2, THEN conjunct2] r(2)]
    show ?thesis using read_array_shape [OF _ read_value_array [OF r(3)]] a1 a2 by simp
  next
    case False
    then show ?thesis using Suc.IH [OF _ c1(2)] Suc.prems(3) c1(3) a by auto
  qed
qed simp

lemma insert_all_Some: "insert_all m kvs k = Some v \<Longrightarrow> m k = Some v \<or> (k, v) \<in> set kvs"
proof (induction kvs arbitrary: m)
  case (Cons p kvs)
  obtain x y where p: "p = (x, y)" by (cases p)
  have "insert_all (m(x \<mapsto> y)) kvs k = Some v" using Cons.prems p by (simp add: insert_all_def)
  from Cons.IH [OF this] show ?case using p by (auto split: if_splits)
qed (simp add: insert_all_def)

lemma gguf_parse_arrays:
  assumes "gguf_parse blob = Ok g" and "gf_metadata g key = Some (GvArray a)"
  shows "array_ok a \<and> length (ga_data a) \<le> length blob"
proof -
  obtain magic c1 ver c2 tc c3 kc c4 kvs c5 where
    r: "read_n 4 (cursor_new blob) = Ok (magic, c1)" "read_u32 c1 = Ok (ver, c2)"
      "read_u64 c2 = Ok (tc, c3)" "read_u64 c3 = Ok (kc, c4)" "read_times (unat kc) read_kv c4 = Ok (kvs, c5)"
      "gf_metadata g = insert_all Map.empty kvs"
    using assms(1) by (auto simp: gguf_parse_def outcome_simps Let_def split: if_splits)
  have "cur_ok (cursor_new blob)" by (simp add: cur_ok_def cursor_new_def)
  note a1 = reader.advances [OF reader_n this r(1)]
  note a2 = rd_u32.advances [OF a1 [THEN conjunct2, THEN conjunct2] r(2)]
  note a3 = rd_u64.advances [OF a2 [THEN conjunct2, THEN conjunct2] r(3)]
  note a4 = rd_u64.advances [OF a3 [THEN conjunct2, THEN conjunct2] r(4)]
  have "(key, GvArray a) \<in> set kvs" using insert_all_Some [of Map.empty kvs key] assms(2) r(6) by auto
  moreover have "cur_buf c4 = blob" using a1 a2 a3 a4 by (simp add: cursor_new_def)
  ultimately show ?thesis using read_kvs_arrays [OF a4 [THEN conjunct2, THEN conjunct2] r(5)] by simp
qed

lemma read_f32_array_at:
  assumes "gf_metadata g key = Some (GvArray a)" and "ga_elem_type a = FLOAT32" and "array_ok a" and "length (ga_data a) < 2 ^ 61"
  shows "oks (read_f32_array g key) (\<lambda>xs. length xs = unat (ga_len a))"
proof -
  let ?d = "ga_data a" and ?n = "unat (ga_len a)"
  have len: "length ?d = ?n * 4" using assms(2,3) by (simp add: array_ok_def)
  have "oks (oloop (\<lambda>xs i. if length ?d < wrap_add (wrap_mul i 4) 4 then Err (InvalidShape ''gguf f32 array truncated'')
      else omap (\<lambda>h. xs @ [le32 h]) (oslice ?d (wrap_mul i 4) (wrap_add (wrap_mul i 4) 4))) [0..<?n] []) (\<lambda>xs. length xs = ?n)"
  proof (rule oks_loop_upt [where P = "\<lambda>m xs. length xs = m"])
    fix m :: nat and s :: "u32 list" assume m: "m < ?n" "length s = m"
    then have "m * 4 + 4 \<le> length ?d" using len by simp
    moreover from this have "wrap_mul m 4 = m * 4" "wrap_add (m * 4) 4 = m * 4 + 4" using assms(4) by (simp_all add: usize_max_def)
    ultimately show "oks (if length ?d < wrap_add (wrap_mul m 4) 4 then Err (InvalidShape ''gguf f32 array truncated'')
      else omap (\<lambda>h. s @ [le32 h]) (oslice ?d (wrap_mul m 4) (wrap_add (wrap_mul m 4) 4))) (\<lambda>xs. length xs = Suc m)"
      using m(2) by (simp add: oslice_def)
  qed simp_all
  moreover have "with_capacity 4 ?n = Ok ()" using len assms(4) by (simp add: with_capacity_def)
  ultimately show ?thesis using assms(1,2) by (simp add: read_f32_array_def metadata_value_def)
qed

lemma enc_strs_entry: "s \<in> set ss \<Longrightarrow> length s \<le> length (enc_strs ss)"
  by (induction ss) (auto simp: enc_strs_def)

text \<open>The strings read are those of the array.\<close>

lemma read_str_array_data:
  assumes "gguf_parse blob = Ok g" and "length blob < 2 ^ 61" and "read_str_array missing g key = Ok ss"
  shows "\<exists>a. gf_metadata g key = Some (GvArray a) \<and> ga_data a = enc_strs ss \<and> (\<forall>s\<in>set ss. length s < 2 ^ 61)"
proof -
  obtain a where a: "gf_metadata g key = Some (GvArray a)" "ga_elem_type a = STRING"
    using assms(3) by (auto simp: read_str_array_def metadata_value_def split: option.splits GgufValue.splits if_splits)
  note ok = gguf_parse_arrays [OF assms(1) a(1)]
  then have "ga_data a = enc_strs ss" using read_str_array_at [OF a, of missing] assms(2,3) by auto
  then show ?thesis using a(1) ok assms(2) enc_strs_entry [of _ ss] by fastforce
qed

text \<open>So reading an array of a parsed file ends with the array or with an error.\<close>

lemma read_arrays_parsed:
  assumes "gguf_parse blob = Ok g" and "length blob < 2 ^ 61"
  shows "read_str_array missing g key \<noteq> Panic" and "read_f32_array g key \<noteq> Panic"
proof -
  have arr: "array_ok a \<and> length (ga_data a) < 2 ^ 61" if "gf_metadata g key = Some (GvArray a)" for a
    using gguf_parse_arrays [OF assms(1) that] assms(2) by simp
  show "read_str_array missing g key \<noteq> Panic"
  proof (cases "\<exists>a. gf_metadata g key = Some (GvArray a) \<and> ga_elem_type a = STRING")
    case True
    then show ?thesis using read_str_array_at arr by (metis outcome.distinct(3))
  next
    case False
    then show ?thesis by (auto simp: read_str_array_def metadata_value_def split: option.splits GgufValue.splits)
  qed
  show "read_f32_array g key \<noteq> Panic"
  proof (cases "\<exists>a. gf_metadata g key = Some (GvArray a) \<and> ga_elem_type a = FLOAT32")
    case True
    then show ?thesis using read_f32_array_at arr by (fastforce simp: oks_def)
  next
    case False
    then show ?thesis by (auto simp: read_f32_array_def metadata_value_def split: option.splits GgufValue.splits)
  qed
qed

end
