(* ===== verification/Llama2c.thy ===== *)
theory Llama2c
  imports TokenBase
begin

text \<open>
  The llama2.c tokenizer, \<open>src/src/tokenizer/llama2c.rs\<close>: the binary vocabulary, greedy merging by
  score, and decoding with its two quirks (the space after the begin token, and raw-byte tokens).
\<close>

subsection \<open>Parsing\<close>

record Llama2cTokenizer =
  l2_vocab :: "bytes list"
  l2_scores :: "f32 list"
  l2_max_token_length :: nat
  l2_by_bytes :: "bytes \<rightharpoonup> u32"

definition blob_u32 :: "bytes \<Rightarrow> nat \<Rightarrow> u32 res" where
  "blob_u32 blob off = omap le32 (oslice blob off (off + 4))"

text \<open>One entry: a score, a length and the bytes of the token.\<close>

definition l2_entry :: "bytes \<Rightarrow> nat \<times> bytes list \<times> f32 list \<times> (bytes \<rightharpoonup> u32) \<Rightarrow> nat \<Rightarrow>
    (nat \<times> bytes list \<times> f32 list \<times> (bytes \<rightharpoonup> u32)) res" where
  "l2_entry blob = (\<lambda>(p, vocab, scores, by_bytes) i.
     if length blob < p + 8 then Err (InvalidShape ''tokenizer blob truncated mid-entry header'')
     else obind (blob_u32 blob p) (\<lambda>score. obind (blob_u32 blob (p + 4)) (\<lambda>len.
       let p = p + 8; n = unat len in
       if length blob < p + n then Err (InvalidShape ''tokenizer blob truncated mid-token'')
       else obind (oslice blob p (p + n)) (\<lambda>bs.
         Ok (p + n, vocab @ [bs], scores @ [score], or_insert bs (of_nat i) by_bytes)))))"

definition l2_from_blob :: "bytes \<Rightarrow> nat \<Rightarrow> Llama2cTokenizer res" where
  "l2_from_blob blob vocab_size =
     (if length blob < 4 then Err (InvalidShape ''tokenizer blob < 4 bytes'')
      else obind (blob_u32 blob 0) (\<lambda>max_len.
        obind (with_capacity 24 vocab_size) (\<lambda>_. obind (with_capacity 4 vocab_size) (\<lambda>_.
        omap (\<lambda>(_, vocab, scores, by_bytes). \<lparr>l2_vocab = vocab, l2_scores = scores, l2_max_token_length = unat max_len, l2_by_bytes = by_bytes\<rparr>)
          (oloop (l2_entry blob) [0..<vocab_size] (4, [], [], Map.empty))))))"

subsection \<open>Encoding\<close>

definition l2_bytes :: "Llama2cTokenizer \<Rightarrow> bytes \<Rightarrow> u32 list" where
  "l2_bytes T inp = foldl (\<lambda>ts ch. case l2_by_bytes T [ch] of Some ix \<Rightarrow> ts @ [ix] | None \<Rightarrow> ts) [] inp"

definition l2_encode :: "Llama2cTokenizer \<Rightarrow> bytes \<Rightarrow> bool \<Rightarrow> u32 list res" where
  "l2_encode T inp bos =
     obind (with_capacity 1 (wrap_mul (l2_max_token_length T) 2)) (\<lambda>_.
     merge_loop (best_pair (l2_vocab T) (l2_scores T) (l2_by_bytes T) 0) ((if bos then [1] else []) @ l2_bytes T inp))"

subsection \<open>Decoding\<close>

text \<open>\<open>u8::from_str_radix(s, 16)\<close>: an optional plus sign, then hexadecimal digits of a value below 256.\<close>

definition hex_digit :: "u8 \<Rightarrow> nat option" where
  "hex_digit c = (if 0x30 \<le> c \<and> c \<le> 0x39 then Some (unat c - 0x30) else if 0x61 \<le> c \<and> c \<le> 0x66 then Some (unat c - 0x57)
     else if 0x41 \<le> c \<and> c \<le> 0x46 then Some (unat c - 0x37) else None)"

fun radix_digits :: "nat \<Rightarrow> bytes \<Rightarrow> nat option" where
  "radix_digits acc [] = Some acc"
| "radix_digits acc (c # cs) = (case hex_digit c of None \<Rightarrow> None
     | Some d \<Rightarrow> if 16 * acc + d < 256 then radix_digits (16 * acc + d) cs else None)"

definition u8_from_hex :: "bytes \<Rightarrow> u8 option" where
  "u8_from_hex s = (let ds = (if s \<noteq> [] \<and> hd s = 0x2B then tl s else s) in
     if ds = [] then None else map_option of_nat (radix_digits 0 ds))"

definition raw_byte :: "bytes \<Rightarrow> u8 option" where
  "raw_byte piece = (if 6 \<le> length piece \<and> take 3 piece = str ''<0x'' \<and> last piece = 0x3E
     then let s = slice piece 3 (length piece - 1) in if utf8_ok s then u8_from_hex s else None
     else None)"

definition l2_decode :: "Llama2cTokenizer \<Rightarrow> u32 \<Rightarrow> u32 \<Rightarrow> bytes res" where
  "l2_decode T prev token = obind (oget (l2_vocab T) (unat token)) (\<lambda>piece.
     let piece = (if prev = 1 \<and> piece \<noteq> [] \<and> hd piece = 0x20 then tl piece else piece) in
     Ok (case raw_byte piece of Some b \<Rightarrow> [b] | None \<Rightarrow> piece))"

fun l2_decode_bytes :: "Llama2cTokenizer \<Rightarrow> u32 \<Rightarrow> u32 list \<Rightarrow> bytes res" where
  "l2_decode_bytes T prev [] = Ok []"
| "l2_decode_bytes T prev (t # ts) = obind (l2_decode T prev t) (\<lambda>piece. omap ((@) piece) (l2_decode_bytes T t ts))"

definition l2_decode_string :: "Llama2cTokenizer \<Rightarrow> u32 \<Rightarrow> u32 list \<Rightarrow> bytes res" where
  "l2_decode_string T prev ts = omap (utf8_lossy [0x3F]) (l2_decode_bytes T prev ts)"

subsection \<open>Well-formed tokenizers\<close>

definition l2_ok :: "Llama2cTokenizer \<Rightarrow> bool" where
  "l2_ok T \<longleftrightarrow> scored_ok (l2_vocab T) (l2_scores T) (l2_by_bytes T) \<and> l2_max_token_length T < 2 ^ 32"

text \<open>The entries of a blob, for the round trip.\<close>

definition l2_enc_entry :: "f32 \<times> bytes \<Rightarrow> bytes" where
  "l2_enc_entry = (\<lambda>(score, bs). to_le_bytes32 score @ to_le_bytes32 (of_nat (length bs)) @ bs)"

definition l2_enc :: "u32 \<Rightarrow> (f32 \<times> bytes) list \<Rightarrow> bytes" where
  "l2_enc max_len es = to_le_bytes32 max_len @ concat (map l2_enc_entry es)"

lemma blob_u32_at: "blob = pre @ to_le_bytes32 w @ post \<Longrightarrow> off = length pre \<Longrightarrow> blob_u32 blob off = Ok w"
  by (simp add: blob_u32_def oslice_def slice_def)

lemma l2_entry_at:
  assumes "blob = pre @ l2_enc_entry (score, bs) @ post" and "length bs < 2 ^ 32"
  shows "l2_entry blob (length pre, v, s, m) i
    = Ok (length (pre @ l2_enc_entry (score, bs)), v @ [bs], s @ [score], or_insert bs (of_nat i) m)"
proof -
  have "blob_u32 blob (length pre) = Ok score"
    by (rule blob_u32_at [of _ pre _ "to_le_bytes32 (of_nat (length bs)) @ bs @ post"]) (simp_all add: assms(1) l2_enc_entry_def)
  moreover have "blob_u32 blob (length pre + 4) = Ok (of_nat (length bs))"
    by (rule blob_u32_at [of _ "pre @ to_le_bytes32 score" _ "bs @ post"]) (simp_all add: assms(1) l2_enc_entry_def)
  moreover have "slice blob (length pre + 8) (length pre + 8 + length bs) = bs"
    by (simp add: assms(1) l2_enc_entry_def slice_def)
  moreover have "unat (of_nat (length bs) :: u32) = length bs" using assms(2) by (simp add: unat_of_nat)
  moreover have "length pre + 8 + length bs \<le> length blob" by (simp add: assms(1) l2_enc_entry_def)
  ultimately show ?thesis
    by (simp add: l2_entry_def oslice_def l2_enc_entry_def)
qed

lemma l2_entries_at:
  assumes "blob = pre @ concat (map l2_enc_entry es) @ post" and "\<forall>e\<in>set es. length (snd e) < 2 ^ 32" and "k \<le> length es"
  shows "oloop (l2_entry blob) [0..<k] (length pre, [], [], Map.empty)
    = Ok (length (pre @ concat (map l2_enc_entry (take k es))), map snd (take k es), map fst (take k es), vocab_index (map snd (take k es)))"
  using assms(3)
proof (induction k)
  case 0
  then show ?case by (simp add: vocab_index_def)
next
  case (Suc k)
  obtain sc bs where e: "es ! k = (sc, bs)" by (cases "es ! k")
  have "es = take k es @ (sc, bs) # drop (Suc k) es" using Suc.prems e by (metis Suc_le_eq id_take_nth_drop)
  then have "concat (map l2_enc_entry es) = concat (map l2_enc_entry (take k es @ (sc, bs) # drop (Suc k) es))" by simp
  then have b: "blob = (pre @ concat (map l2_enc_entry (take k es))) @ l2_enc_entry (sc, bs) @ concat (map l2_enc_entry (drop (Suc k) es)) @ post"
    using assms(1) by simp
  have "length bs < 2 ^ 32" using assms(2) Suc.prems e by (metis Suc_le_eq nth_mem snd_conv)
  from l2_entry_at [OF b this, of "map snd (take k es)" "map fst (take k es)" "vocab_index (map snd (take k es))" k] show ?case
    using Suc e by (simp add: oloop_append oloop_Nil_fun take_Suc_conv_app_nth vocab_index_snoc min_def)
qed

text \<open>Whatever the blob, a parsed tokenizer is well formed.\<close>

lemma l2_entry_cases:
  assumes "p \<le> length blob"
  shows "l2_entry blob (p, v, s, m) i \<noteq> Panic" and
    "l2_entry blob (p, v, s, m) i = Ok r \<Longrightarrow> \<exists>q bs sc. r = (q, v @ [bs], s @ [sc], or_insert bs (of_nat i) m) \<and> q \<le> length blob"
  by (auto simp: l2_entry_def blob_u32_def outcome_simps oslice_def Let_def split: if_splits)

lemma l2_loop:
  assumes "oloop (l2_entry blob) [0..<n] (4, [], [], Map.empty) = Ok (p, v, s, m)" and "4 \<le> length blob"
  shows "p \<le> length blob \<and> length v = n \<and> length s = n \<and> m = vocab_index v"
proof -
  let ?P = "\<lambda>k (p, v, s, m). p \<le> length blob \<and> length v = k \<and> length s = k \<and> m = vocab_index v"
  have "?P n (p, v, s, m)"
    by (rule oloop_upt_inv [OF assms(1)])
      (use assms(2) in \<open>auto simp: vocab_index_def [of "[]"] vocab_index_snoc dest!: l2_entry_cases(2) [rotated]\<close>)
  then show ?thesis by simp
qed

lemma l2_loop_not_Panic:
  assumes "4 \<le> length blob"
  shows "oloop (l2_entry blob) [0..<n] (4, [], [], Map.empty) \<noteq> Panic"
proof (induction n)
  case (Suc n)
  show ?case
  proof (cases "oloop (l2_entry blob) [0..<n] (4, [], [], Map.empty)")
    case (Ok r)
    obtain p v s m where r: "r = (p, v, s, m)" by (cases r)
    then have "p \<le> length blob" using l2_loop [OF _ assms] Ok by simp
    then show ?thesis using Ok r l2_entry_cases(1) by (simp add: oloop_append oloop_Nil_fun)
  qed (use Suc in \<open>simp_all add: oloop_append\<close>)
qed simp

lemma l2_from_blob_OkD:
  assumes "l2_from_blob blob n = Ok T"
  shows "length (l2_vocab T) = n \<and> (n \<le> 2 ^ 32 \<longrightarrow> l2_ok T)"
proof -
  have "unat (w :: u32) < 2 ^ 32" for w using unsigned_less [of w] by simp
  then show ?thesis using assms
    by (auto simp: l2_from_blob_def outcome_simps l2_ok_def scored_ok_def split: if_splits dest!: l2_loop)
qed

lemma l2_bytes_eq: "l2_bytes T inp = map (\<lambda>b. the (l2_by_bytes T [b])) (filter (\<lambda>b. l2_by_bytes T [b] \<noteq> None) inp)"
proof -
  have "foldl (\<lambda>ts ch. case l2_by_bytes T [ch] of Some ix \<Rightarrow> ts @ [ix] | None \<Rightarrow> ts) us inp
      = us @ map (\<lambda>b. the (l2_by_bytes T [b])) (filter (\<lambda>b. l2_by_bytes T [b] \<noteq> None) inp)" for us
    by (induction inp arbitrary: us) (auto split: option.splits)
  then show ?thesis by (simp add: l2_bytes_def)
qed

lemma l2_start_spells:
  assumes "l2_ok T" and "bos \<longrightarrow> 1 < length (l2_vocab T)"
  shows "spells (\<lambda>t. l2_vocab T ! unat t) (l2_vocab T) 0 [] ((if bos then l2_vocab T ! 1 else []) @ filter (\<lambda>b. [b] \<in> set (l2_vocab T)) inp)
    ((if bos then [1] else []) @ l2_bytes T inp)"
proof -
  let ?V = "l2_vocab T"
  have S: "scored_ok ?V (l2_scores T) (l2_by_bytes T)" using assms(1) by (simp add: l2_ok_def)
  have known: "l2_by_bytes T [b] \<noteq> None \<longleftrightarrow> [b] \<in> set ?V" for b using S vocab_index_None by (auto simp: scored_ok_def)
  have ids: "unat (the (l2_by_bytes T [b])) < length ?V \<and> ?V ! unat (the (l2_by_bytes T [b])) = [b]" if "[b] \<in> set ?V" for b
    using known [of b] that scored_okD [OF S, of "[b]"] by auto
  have "concat (map (\<lambda>t. ?V ! unat t) (l2_bytes T inp)) = filter (\<lambda>b. [b] \<in> set ?V) inp"
    unfolding l2_bytes_eq known by (induction inp) (auto simp: ids)
  moreover have "ids_ok ?V (l2_bytes T inp)" unfolding l2_bytes_eq known by (auto simp: ids_ok_def ids)
  ultimately show ?thesis using assms(2) by (auto simp: spells_def ids_ok_def)
qed

lemma l2_capacity: "l2_ok T \<Longrightarrow> with_capacity 1 (wrap_mul (l2_max_token_length T) 2) = Ok ()"
  by (simp add: l2_ok_def with_capacity_def usize_max_def)

lemma l2_encode_oks:
  assumes "l2_ok T" and "bos \<longrightarrow> 1 < length (l2_vocab T)"
  shows "oks (l2_encode T inp bos) (\<lambda>ts. ids_ok (l2_vocab T) ts \<and>
    concat (map (\<lambda>t. l2_vocab T ! unat t) ts) = (if bos then l2_vocab T ! 1 else []) @ filter (\<lambda>b. [b] \<in> set (l2_vocab T)) inp \<and>
    (\<forall>i. Suc i < length ts \<longrightarrow> \<not> mergeable (l2_vocab T) (l2_scores T) (l2_by_bytes T) ts i))"
proof -
  have S: "scored_ok (l2_vocab T) (l2_scores T) (l2_by_bytes T)" using assms(1) by (simp add: l2_ok_def)
  have "oks (merge_loop (best_pair (l2_vocab T) (l2_scores T) (l2_by_bytes T) 0) ((if bos then [1] else []) @ l2_bytes T inp))
      (\<lambda>ts. (scored_ok (l2_vocab T) (l2_scores T) (l2_by_bytes T) \<and> spells (\<lambda>t. l2_vocab T ! unat t) (l2_vocab T) 0 []
        ((if bos then l2_vocab T ! 1 else []) @ filter (\<lambda>b. [b] \<in> set (l2_vocab T)) inp) ts) \<and>
        best_pair (l2_vocab T) (l2_scores T) (l2_by_bytes T) 0 ts = Ok None)"
    by (intro scored.merge_loop_oks conjI S l2_start_spells [OF assms])
  then show ?thesis unfolding l2_encode_def l2_capacity [OF assms(1)]
    by (simp add: spells_def) (auto elim!: oks_mono dest!: best_pair_None [OF S] split: if_splits)
qed

subsection \<open>Decoding what was encoded\<close>

lemma raw_byte_prefix: "raw_byte piece = Some b \<Longrightarrow> take 3 piece = str ''<0x''"
  by (auto simp: raw_byte_def split: if_splits)

lemma l2_decode_bytes_oks: "ids_ok (l2_vocab T) ts \<Longrightarrow> oks (l2_decode_bytes T prev ts) (\<lambda>_. True)"
proof (induction ts arbitrary: prev)
  case (Cons t ts)
  then have "oks (l2_decode_bytes T t ts) (\<lambda>_. True)" "unat t < length (l2_vocab T)" by (simp_all add: ids_ok_def)
  then show ?case by (auto simp: l2_decode_def oget_ok oks_def Let_def)
qed simp

lemma l2_encode_length:
  assumes "l2_encode T inp bos = Ok ts"
  shows "length ts \<le> (if bos then 1 else 0) + length inp \<and> (bos \<or> l2_bytes T inp \<noteq> [] \<longrightarrow> ts \<noteq> [])"
proof -
  have "length (l2_bytes T inp) \<le> length inp" unfolding l2_bytes_eq by simp
  moreover have "merge_loop (best_pair (l2_vocab T) (l2_scores T) (l2_by_bytes T) 0) ((if bos then [1] else []) @ l2_bytes T inp) = Ok ts"
    using assms by (auto simp: l2_encode_def outcome_simps)
  ultimately show ?thesis using merge_loop_length by fastforce
qed

lemma decode_bytes_plain:
  assumes "ids_ok (l2_vocab T) ts" and "prev \<noteq> 1" and "1 \<notin> set ts" and "\<not> sublist (str ''<0x'') (concat (map (\<lambda>t. l2_vocab T ! unat t) ts))"
  shows "l2_decode_bytes T prev ts = Ok (concat (map (\<lambda>t. l2_vocab T ! unat t) ts))"
  using assms
proof (induction ts arbitrary: prev)
  case (Cons t ts)
  let ?v = "l2_vocab T ! unat t" and ?r = "concat (map (\<lambda>t. l2_vocab T ! unat t) ts)"
  have "\<not> sublist (str ''<0x'') ?v" using Cons.prems(4) sublist_appendI [of "[]" ?v ?r] by (auto intro: sublist_order.order.trans)
  moreover have "sublist (take 3 ?v) ?v" using sublist_appendI [of "[]" "take 3 ?v" "drop 3 ?v"] by simp
  ultimately have "raw_byte ?v = None" using raw_byte_prefix [of ?v] by (cases "raw_byte ?v") auto
  moreover have "\<not> sublist (str ''<0x'') ?r" using Cons.prems(4) sublist_appendI [of ?v ?r "[]"] by (auto intro: sublist_order.order.trans)
  ultimately show ?case using Cons.IH [of t] Cons.prems by (auto simp: l2_decode_def ids_ok_def oget_ok)
qed simp

subsection \<open>A small vocabulary\<close>

text \<open>Unknown, begin and end tokens, two letters and their merge.\<close>

definition l2_demo_entries :: "(f32 \<times> bytes) list" where
  "l2_demo_entries = [(0, str ''<unk>''), (0, str ''<s>''), (0, str ''</s>''), (0, str ''a''), (0, str ''b''), (f32_one, str ''ab'')]"

definition l2_demo :: Llama2cTokenizer where
  "l2_demo = \<lparr>l2_vocab = map snd l2_demo_entries, l2_scores = map fst l2_demo_entries, l2_max_token_length = 5,
     l2_by_bytes = vocab_index (map snd l2_demo_entries)\<rparr>"

lemma l2_demo_ok: "l2_ok l2_demo"
  by (simp add: l2_ok_def scored_ok_def l2_demo_def l2_demo_entries_def)

lemma l2_demo_bytes: "l2_vocab l2_demo = [[0x3C, 0x75, 0x6E, 0x6B, 0x3E], [0x3C, 0x73, 0x3E], [0x3C, 0x2F, 0x73, 0x3E], [0x61], [0x62], [0x61, 0x62]]"
  by (simp add: l2_demo_def l2_demo_entries_def str_def)

subsection \<open>Properties\<close>

text \<open>
  C26: parsing the encoding of a vocabulary, followed by anything, gives its tokens, scores
  and the index of first occurrences; and any blob parses to a tokenizer of the requested size or is
  refused with an error, without a panic, as long as the requested size can be reserved.
\<close>

theorem llama2c_parse:
  assumes "\<forall>e\<in>set es. length (snd e) < 2 ^ 32" and "n * 24 < 2 ^ 63" and "n = length es"
  shows "l2_from_blob (l2_enc max_len es @ rest) n = Ok \<lparr>l2_vocab = map snd es, l2_scores = map fst es,
      l2_max_token_length = unat max_len, l2_by_bytes = vocab_index (map snd es)\<rparr> \<and>
    l2_from_blob blob n \<noteq> Panic \<and> (l2_from_blob blob n = Ok T \<longrightarrow> length (l2_vocab T) = n \<and> length (l2_scores T) = n \<and> l2_by_bytes T = vocab_index (l2_vocab T))"
proof (intro conjI impI)
  let ?b = "l2_enc max_len es @ rest"
  have "blob_u32 ?b 0 = Ok max_len" by (rule blob_u32_at [where pre = "[]"]) (simp_all add: l2_enc_def)
  moreover have "oloop (l2_entry ?b) [0..<length es] (4, [], [], Map.empty)
      = Ok (length (to_le_bytes32 max_len @ concat (map l2_enc_entry es)), map snd es, map fst es, vocab_index (map snd es))"
    using l2_entries_at [OF _ assms(1) order_refl, of ?b "to_le_bytes32 max_len" rest] by (simp add: l2_enc_def)
  ultimately show "l2_from_blob ?b n = Ok \<lparr>l2_vocab = map snd es, l2_scores = map fst es,
      l2_max_token_length = unat max_len, l2_by_bytes = vocab_index (map snd es)\<rparr>"
    using assms(2,3) by (simp add: l2_from_blob_def with_capacity_def l2_enc_def)
  show "l2_from_blob blob n \<noteq> Panic"
    using l2_loop_not_Panic [of blob n] assms(2)
    by (auto simp: l2_from_blob_def with_capacity_def blob_u32_def oslice_def outcome_simps)
next
  assume "l2_from_blob blob n = Ok T"
  then obtain p where "oloop (l2_entry blob) [0..<n] (4, [], [], Map.empty) = Ok (p, l2_vocab T, l2_scores T, l2_by_bytes T)" "4 \<le> length blob"
    by (auto simp: l2_from_blob_def outcome_simps split: if_splits)
  from l2_loop [OF this] show "length (l2_vocab T) = n" "length (l2_scores T) = n" "l2_by_bytes T = vocab_index (l2_vocab T)" by auto
qed

theorem llama2c_parse_witness:
  "l2_from_blob (l2_enc 5 l2_demo_entries @ [1, 2, 3]) 6 = Ok l2_demo"
  using llama2c_parse [of l2_demo_entries 6 5 "[1, 2, 3]" "[]"]
  by (simp add: l2_demo_def l2_demo_entries_def str_def)

text \<open>
  C27: encoding ends, on any text, with tokens of the vocabulary that spell the bytes of
  the text the vocabulary knows (after the begin token, when asked for), and no adjacent pair is left
  that could still be merged. Decoding the tokens gives the text back, as bytes and, for well-formed
  UTF-8, as a string, when every byte is known, the text contains no raw-byte marker and the begin
  token is not among the tokens.
\<close>

theorem llama2c_encode_decode:
  assumes "l2_ok T" and "bos \<longrightarrow> 1 < length (l2_vocab T)"
  shows "oks (l2_encode T inp bos) (\<lambda>ts. ids_ok (l2_vocab T) ts \<and>
    concat (map (\<lambda>t. l2_vocab T ! unat t) ts) = (if bos then l2_vocab T ! 1 else []) @ filter (\<lambda>b. [b] \<in> set (l2_vocab T)) inp \<and>
    (\<forall>i. Suc i < length ts \<longrightarrow> \<not> mergeable (l2_vocab T) (l2_scores T) (l2_by_bytes T) ts i) \<and>
    (\<not> bos \<and> (\<forall>b\<in>set inp. [b] \<in> set (l2_vocab T)) \<and> \<not> sublist (str ''<0x'') inp \<and> 1 \<notin> set ts \<longrightarrow>
       l2_decode_bytes T 0 ts = Ok inp \<and> (utf8_ok inp \<longrightarrow> l2_decode_string T 0 ts = Ok inp)))"
proof (rule oks_mono [OF l2_encode_oks [OF assms]])
  fix ts assume ts: "ids_ok (l2_vocab T) ts \<and>
    concat (map (\<lambda>t. l2_vocab T ! unat t) ts) = (if bos then l2_vocab T ! 1 else []) @ filter (\<lambda>b. [b] \<in> set (l2_vocab T)) inp \<and>
    (\<forall>i. Suc i < length ts \<longrightarrow> \<not> mergeable (l2_vocab T) (l2_scores T) (l2_by_bytes T) ts i)"
  have "l2_decode_bytes T 0 ts = Ok inp \<and> (utf8_ok inp \<longrightarrow> l2_decode_string T 0 ts = Ok inp)"
    if c: "\<not> bos" "\<forall>b\<in>set inp. [b] \<in> set (l2_vocab T)" "\<not> sublist (str ''<0x'') inp" "1 \<notin> set ts"
  proof -
    have "concat (map (\<lambda>t. l2_vocab T ! unat t) ts) = inp" using ts c(1,2) by (simp add: filter_id_conv)
    then have "l2_decode_bytes T 0 ts = Ok inp" using decode_bytes_plain [of T ts 0] ts c(3,4) by simp
    then show ?thesis by (simp add: l2_decode_string_def utf8_lossy_ok)
  qed
  with ts show "ids_ok (l2_vocab T) ts \<and>
    concat (map (\<lambda>t. l2_vocab T ! unat t) ts) = (if bos then l2_vocab T ! 1 else []) @ filter (\<lambda>b. [b] \<in> set (l2_vocab T)) inp \<and>
    (\<forall>i. Suc i < length ts \<longrightarrow> \<not> mergeable (l2_vocab T) (l2_scores T) (l2_by_bytes T) ts i) \<and>
    (\<not> bos \<and> (\<forall>b\<in>set inp. [b] \<in> set (l2_vocab T)) \<and> \<not> sublist (str ''<0x'') inp \<and> 1 \<notin> set ts \<longrightarrow>
       l2_decode_bytes T 0 ts = Ok inp \<and> (utf8_ok inp \<longrightarrow> l2_decode_string T 0 ts = Ok inp))" by blast
qed

theorem llama2c_encode_decode_witness:
  "oks (l2_encode l2_demo [0x61, 0x62, 0x7A, 0x61] True) (\<lambda>ts. concat (map (\<lambda>t. l2_vocab l2_demo ! unat t) ts) = str ''<s>aba'')"
  using llama2c_encode_decode [OF l2_demo_ok, of True "[0x61, 0x62, 0x7A, 0x61]"]
  by (auto simp: l2_demo_bytes str_def elim!: oks_mono)

end
