(* ===== verification/GgufSpm.thy ===== *)
theory GgufSpm
  imports TokenBase
begin

text \<open>
  The SentencePiece tokenizer of a GGUF file, \<open>src/src/tokenizer/gguf_spm.rs\<close>: spaces become the marker
  character, unknown characters fall back to byte tokens, and pairs merge greedily by score. The
  text argument is a string slice, well-formed UTF-8 by its type: its characters are those of
  \<open>utf8_chars\<close>.
\<close>

subsection \<open>Loading\<close>

definition MARK :: bytes where "MARK = [0xE2, 0x96, 0x81]"

record GgufSpmTokenizer =
  sp_vocab :: "bytes list"
  sp_scores :: "f32 list"
  sp_by_bytes :: "bytes \<rightharpoonup> u32"
  sp_byte_fallback :: "u8 \<rightharpoonup> u32"
  sp_max_len :: nat

definition hex_val :: "u8 \<Rightarrow> u8 option" where
  "hex_val c = (if 0x30 \<le> c \<and> c \<le> 0x39 then Some (c - 0x30) else if 0x61 \<le> c \<and> c \<le> 0x66 then Some (c - 0x61 + 10)
     else if 0x41 \<le> c \<and> c \<le> 0x46 then Some (c - 0x41 + 10) else None)"

definition hex2 :: "u8 \<Rightarrow> u8 \<Rightarrow> u8 option" where
  "hex2 a b = (case hex_val a of None \<Rightarrow> None | Some x \<Rightarrow> (case hex_val b of None \<Rightarrow> None | Some y \<Rightarrow> Some (push_bit 4 x OR y)))"

text \<open>The value of a byte token \<open><0xHH>\<close>.\<close>

definition byte_value :: "bytes \<Rightarrow> u8 option" where
  "byte_value t = (if length t = 6 \<and> t ! 0 = 0x3C \<and> t ! 1 = 0x30 \<and> t ! 2 = 0x78 \<and> t ! 5 = 0x3E
     then hex2 (t ! 3) (t ! 4) else None)"

definition sp_fallback :: "bytes list \<Rightarrow> u8 \<rightharpoonup> u32" where
  "sp_fallback vocab = foldl (\<lambda>m (i, t). case byte_value t of Some b \<Rightarrow> m(b \<mapsto> of_nat i) | None \<Rightarrow> m) Map.empty (enumerate 0 vocab)"

definition sp_from_gguf :: "GgufFile \<Rightarrow> GgufSpmTokenizer res" where
  "sp_from_gguf g =
     obind (read_str_array ''gguf: tokenizer.ggml.tokens missing or not a string array'' g (str ''tokenizer.ggml.tokens'')) (\<lambda>vocab.
     obind (read_f32_array g (str ''tokenizer.ggml.scores'')) (\<lambda>scores.
     if length vocab \<noteq> length scores then Err (InvalidShape ''gguf tokenizer: tokens/scores length mismatch'')
     else Ok \<lparr>sp_vocab = vocab, sp_scores = scores, sp_by_bytes = vocab_index vocab, sp_byte_fallback = sp_fallback vocab,
       sp_max_len = foldl (\<lambda>m t. if m < length t then length t else m) 0 vocab\<rparr>))"

subsection \<open>Encoding\<close>

definition str_chars :: "bytes \<Rightarrow> bytes list" where
  "str_chars s = (case utf8_chars s of Some cs \<Rightarrow> cs | None \<Rightarrow> [])"

definition sp_norm :: "bytes \<Rightarrow> bytes" where
  "sp_norm inp = foldl (\<lambda>buf ch. buf @ (if ch = [0x20] then MARK else ch)) MARK (str_chars inp)"

definition sp_char :: "GgufSpmTokenizer \<Rightarrow> u32 list \<Rightarrow> bytes \<Rightarrow> u32 list" where
  "sp_char T ts cb = (case sp_by_bytes T cb of Some ix \<Rightarrow> ts @ [ix]
     | None \<Rightarrow> foldl (\<lambda>ts b. case sp_byte_fallback T b of Some ix \<Rightarrow> ts @ [ix] | None \<Rightarrow> ts) ts cb)"

definition sp_encode :: "GgufSpmTokenizer \<Rightarrow> bytes \<Rightarrow> bool \<Rightarrow> u32 list res" where
  "sp_encode T inp bos =
     (let norm = sp_norm inp; s = (if utf8_ok norm then norm else []); ts = (if bos then [1] else []) in
      obind (with_capacity 1 (wrap_mul (sp_max_len T) 2)) (\<lambda>_.
      merge_loop (best_pair (sp_vocab T) (sp_scores T) (sp_by_bytes T) (length ts)) (foldl (sp_char T) ts (str_chars s))))"

subsection \<open>Decoding\<close>

text \<open>The bytes a token stands for.\<close>

definition sp_text :: "bytes list \<Rightarrow> u32 \<Rightarrow> bytes" where
  "sp_text vocab t = (case byte_value (vocab ! unat t) of Some b \<Rightarrow> [b] | None \<Rightarrow> vocab ! unat t)"

definition sp_decode :: "GgufSpmTokenizer \<Rightarrow> u32 list \<Rightarrow> bytes res" where
  "sp_decode T tokens =
     obind (oloop (\<lambda>buf t. obind (oget (sp_vocab T) (unat t)) (\<lambda>v.
       Ok (buf @ (case byte_value v of Some b \<Rightarrow> [b] | None \<Rightarrow> v)))) tokens []) (\<lambda>buf.
     let s = concat (map (\<lambda>c. if c = MARK then [0x20] else c) (str_chars (utf8_lossy [0xEF, 0xBF, 0xBD] buf))) in
     Ok (if s \<noteq> [] \<and> hd s = 0x20 then tl s else s))"

subsection \<open>Well-formed tokenizers\<close>

definition sp_ok :: "GgufSpmTokenizer \<Rightarrow> bool" where
  "sp_ok T \<longleftrightarrow> scored_ok (sp_vocab T) (sp_scores T) (sp_by_bytes T) \<and> sp_byte_fallback T = sp_fallback (sp_vocab T) \<and>
     wrap_mul (sp_max_len T) 2 < 2 ^ 63"

lemma byte_value_simps:
  "byte_value t = Some b \<Longrightarrow> length t = 6 \<and> take 3 t = str ''<0x''"
  by (auto simp: byte_value_def str_def numeral_eq_Suc take_Suc_conv_app_nth split: if_splits)

lemma sp_fallback_Some:
  "sp_fallback vocab b = Some ix \<Longrightarrow> length vocab \<le> 2 ^ 32 \<Longrightarrow> unat ix < length vocab \<and> byte_value (vocab ! unat ix) = Some b"
proof (induction vocab rule: rev_induct)
  case Nil
  then show ?case by (simp add: sp_fallback_def)
next
  case (snoc t vocab)
  have n: "unat (of_nat (length vocab) :: u32) = length vocab" using snoc.prems(2) by (simp add: unat_of_nat)
  have "sp_fallback (vocab @ [t]) = (case byte_value t of Some b \<Rightarrow> (sp_fallback vocab)(b \<mapsto> of_nat (length vocab)) | None \<Rightarrow> sp_fallback vocab)"
    by (cases "byte_value t") (simp_all add: sp_fallback_def enumerate_append_eq)
  then show ?case using snoc n by (auto simp: nth_append split: option.splits if_splits)
qed

lemma sp_from_gguf_ok:
  assumes "sp_from_gguf g = Ok T" and "length (sp_vocab T) \<le> 2 ^ 32" and "\<forall>v\<in>set (sp_vocab T). length v < 2 ^ 62"
  shows "sp_ok T"
proof -
  have "foldl (\<lambda>m t. if m < length t then length t else m) k vs < 2 ^ 62" if "k < 2 ^ 62" "\<forall>v\<in>set vs. length v < 2 ^ 62"
    for k and vs :: "bytes list" using that by (induction vs arbitrary: k) auto
  then have len: "foldl (\<lambda>m t. if m < length t then length t else m) 0 (sp_vocab T) < 2 ^ 62" using assms(3) by simp
  have T: "sp_max_len T = foldl (\<lambda>m t. if m < length t then length t else m) 0 (sp_vocab T)"
    "sp_by_bytes T = vocab_index (sp_vocab T)" "sp_byte_fallback T = sp_fallback (sp_vocab T)" "length (sp_scores T) = length (sp_vocab T)"
    using assms(1) by (auto simp: sp_from_gguf_def outcome_simps split: if_splits)
  have "sp_max_len T < 2 ^ 62" using len T(1) by simp
  then have "wrap_mul (sp_max_len T) 2 < 2 ^ 63" by (simp add: usize_max_def)
  then show ?thesis using T assms(2) by (simp add: sp_ok_def scored_ok_def)
qed

text \<open>Replacing malformed chunks leaves well-formed text, so decoding always sees its characters.\<close>

lemma valid_prefix_ok: "utf8_ok (take (valid_up_to bs) bs)"
proof (induction bs rule: valid_up_to.induct)
  case (1 bs)
  show ?case
  proof (cases "utf8_width bs = 0")
    case True
    then show ?thesis by (simp add: valid_up_to.simps)
  next
    case False
    let ?w = "utf8_width bs"
    have "take (valid_up_to bs) bs = take ?w bs @ take (valid_up_to (drop ?w bs)) (drop ?w bs)"
      using False by (subst valid_up_to.simps) (simp add: Let_def take_add)
    moreover have "utf8_ok (take ?w bs)"
      using False utf8_width_take [OF False] utf8_width_le_length [of bs] by (intro utf8_ok_char) auto
    ultimately show ?thesis using 1 [OF refl False] by (simp add: utf8_ok_append)
  qed
qed

lemma utf8_lossy_valid: "utf8_ok repl \<Longrightarrow> utf8_ok (utf8_lossy repl bs)"
proof (induction bs rule: utf8_chunks.induct)
  case (1 bs)
  consider "bs = []" | "bs \<noteq> []" "utf8_ok bs" | "bs \<noteq> []" "\<not> utf8_ok bs" by blast
  then show ?case
  proof cases
    case 3
    let ?v = "valid_up_to bs" and ?n = "bad_len (drop (valid_up_to bs) bs)"
    have "utf8_lossy repl bs = (take ?v bs @ (if take ?n (drop ?v bs) \<noteq> [] then repl else [])) @ utf8_lossy repl (if ?v + ?n = 0 then [] else drop (?v + ?n) bs)"
      unfolding utf8_lossy_def by (subst utf8_chunks.simps) (simp add: 3 Let_def)
    moreover have "utf8_ok (utf8_lossy repl (if ?v + ?n = 0 then [] else drop (?v + ?n) bs))"
      using 1(1) [OF 3 refl refl 1(2)] .
    moreover have "utf8_ok (take ?v bs @ (if take ?n (drop ?v bs) \<noteq> [] then repl else []))"
      by (intro utf8_ok_append valid_prefix_ok) (simp add: 1(2))
    ultimately show ?thesis by (simp only: utf8_ok_append)
  qed (simp_all add: utf8_lossy_ok)
qed

subsection \<open>The first tokens\<close>

text \<open>The tokens of one character: its own entry, or the byte tokens there are for its bytes.\<close>

definition sp_tokens :: "GgufSpmTokenizer \<Rightarrow> bytes \<Rightarrow> u32 list" where
  "sp_tokens T c = (case sp_by_bytes T c of Some ix \<Rightarrow> [ix] | None \<Rightarrow> List.map_filter (sp_byte_fallback T) c)"

lemma sp_chars_tokens: "foldl (sp_char T) ts cs = ts @ concat (map (sp_tokens T) cs)"
proof -
  have "foldl (\<lambda>ts b. case f b of Some ix \<Rightarrow> ts @ [ix] | None \<Rightarrow> ts) ts c = ts @ List.map_filter f c"
    for f :: "u8 \<rightharpoonup> u32" and ts c by (induction c arbitrary: ts) (auto simp: map_filter_simps split: option.splits)
  then have "sp_char T ts c = ts @ sp_tokens T c" for ts c by (auto simp: sp_char_def sp_tokens_def split: option.splits)
  then show ?thesis by (induction cs arbitrary: ts) auto
qed

lemma sp_tokens_ids: "sp_ok T \<Longrightarrow> ids_ok (sp_vocab T) (sp_tokens T c)"
  using scored_okD [of "sp_vocab T" "sp_scores T" "sp_by_bytes T"] sp_fallback_Some [of "sp_vocab T"]
  by (fastforce simp: ids_ok_def sp_tokens_def sp_ok_def scored_ok_def map_filter_def split: option.splits)

definition sp_covers :: "GgufSpmTokenizer \<Rightarrow> bytes \<Rightarrow> bool" where
  "sp_covers T c \<longleftrightarrow> sp_by_bytes T c \<noteq> None \<or> list_all (\<lambda>b. sp_byte_fallback T b \<noteq> None) c"

lemma sp_tokens_spell:
  assumes "sp_ok T" and "sp_covers T c" and "c \<noteq> []" and "length c \<le> 4"
  shows "concat (map (sp_text (sp_vocab T)) (sp_tokens T c)) = c \<and> (\<forall>t\<in>set (sp_tokens T c). sp_vocab T ! unat t \<noteq> [])"
proof (cases "sp_by_bytes T c")
  case (Some ix)
  then have "sp_vocab T ! unat ix = c" using scored_okD [of "sp_vocab T" "sp_scores T" "sp_by_bytes T" c ix] Some assms(1) by (auto simp: sp_ok_def)
  moreover have "byte_value c = None" using byte_value_simps [of c] assms(4) by (cases "byte_value c") auto
  ultimately show ?thesis using Some assms(3) by (simp add: sp_tokens_def sp_text_def)
next
  case None
  let ?fb = "sp_byte_fallback T"
  have fb: "byte_value (sp_vocab T ! unat ix) = Some b" if "?fb b = Some ix" for b ix
    using sp_fallback_Some [of "sp_vocab T" b ix] that assms(1) by (auto simp: sp_ok_def scored_ok_def)
  then have ne: "sp_vocab T ! unat ix \<noteq> []" if "?fb b = Some ix" for b ix
    using byte_value_simps [OF fb [OF that]] by auto
  have "concat (map (sp_text (sp_vocab T)) (List.map_filter ?fb c)) = c"
    using assms(2) unfolding sp_covers_def None by (induction c) (auto simp: map_filter_simps sp_text_def fb)
  then show ?thesis using None by (auto simp: sp_tokens_def map_filter_def ne)
qed

lemma sp_tokens_spell_all:
  assumes "sp_ok T" and "\<forall>c\<in>set cs. sp_covers T c" and "\<forall>c\<in>set cs. c \<noteq> [] \<and> length c \<le> 4"
  shows "concat (map (sp_text (sp_vocab T)) (concat (map (sp_tokens T) cs))) = concat cs \<and>
    (\<forall>t\<in>set (concat (map (sp_tokens T) cs)). sp_vocab T ! unat t \<noteq> [])"
  using assms(2,3)
proof (induction cs)
  case (Cons c cs)
  then show ?case using sp_tokens_spell [OF assms(1), of c] by auto
qed simp

subsection \<open>Normalised text\<close>

definition sp_mark :: "bytes \<Rightarrow> bytes" where
  "sp_mark c = (if c = [0x20] then MARK else c)"

lemma MARK_width: "MARK \<noteq> [] \<and> utf8_width MARK = length MARK \<and> length MARK \<le> 4"
  by (simp add: MARK_def lead_width_def follow_ok_def is_cont_def)

lemma sp_norm_chars:
  assumes "utf8_chars inp = Some cs"
  shows "sp_norm inp = concat (MARK # map sp_mark cs)" and "utf8_chars (sp_norm inp) = Some (MARK # map sp_mark cs)"
    and "\<forall>c\<in>set (MARK # map sp_mark cs). c \<noteq> [] \<and> length c \<le> 4"
proof -
  have "foldl (\<lambda>buf ch. buf @ (if ch = [0x20] then MARK else ch)) b cs = b @ concat (map sp_mark cs)" for b
    by (induction cs arbitrary: b) (auto simp: sp_mark_def)
  then show norm: "sp_norm inp = concat (MARK # map sp_mark cs)" using assms by (simp add: sp_norm_def str_chars_def)
  have "\<forall>c\<in>set (MARK # map sp_mark cs). c \<noteq> [] \<and> utf8_width c = length c \<and> length c \<le> 4"
    using MARK_width utf8_chars_valid [OF assms] by (auto simp: sp_mark_def)
  then show "utf8_chars (sp_norm inp) = Some (MARK # map sp_mark cs)" "\<forall>c\<in>set (MARK # map sp_mark cs). c \<noteq> [] \<and> length c \<le> 4"
    unfolding norm using utf8_chars_Some_concat [of "MARK # map sp_mark cs"] by blast+
qed

lemma sp_encode_eq:
  assumes "sp_ok T" and "utf8_chars inp = Some cs"
  shows "sp_encode T inp bos = merge_loop (best_pair (sp_vocab T) (sp_scores T) (sp_by_bytes T) (length (if bos then [1::u32] else [])))
    ((if bos then [1] else []) @ concat (map (sp_tokens T) (MARK # map sp_mark cs)))"
  using assms(1) sp_norm_chars(2) [OF assms(2)]
  by (simp add: sp_encode_def Let_def utf8_ok_def str_chars_def sp_chars_tokens with_capacity_def sp_ok_def)

subsection \<open>Merging keeps the text\<close>

text \<open>
  No entry longer than a byte token contains the start of one, so that merging never builds on a
  byte token.
\<close>

definition sp_clean :: "bytes list \<Rightarrow> bool" where
  "sp_clean vocab \<longleftrightarrow> list_all (\<lambda>v. length v \<le> 6 \<or> \<not> sublist (str ''<0x'') v) vocab"

lemma sp_text_merge:
  assumes "sp_clean vocab" and "a @ b \<in> set vocab" and "vocab ! unat s = a" and "vocab ! unat t = b" and "vocab ! unat m = a @ b"
    and "a \<noteq> []" and "b \<noteq> []" and "\<not> sublist (str ''<0x'') (sp_text vocab s @ sp_text vocab t)"
  shows "sp_text vocab m = sp_text vocab s @ sp_text vocab t"
proof -
  have starts: "sublist (str ''<0x'') v \<and> length v = 6" if "byte_value v = Some x" for v x
    using byte_value_simps [OF that] sublist_take [of 3 v] by simp
  have clean: "length (a @ b) \<le> 6 \<or> \<not> sublist (str ''<0x'') (a @ b)" using assms(1,2) by (auto simp: sp_clean_def list_all_iff)
  have "byte_value a = None"
    using starts [of a] clean assms(7) sublist_appendI [of "[]" a b]
    by (cases "byte_value a") (auto intro: sublist_order.order.trans)
  moreover have "byte_value b = None"
    using starts [of b] clean assms(6) sublist_appendI [of a b "[]"]
    by (cases "byte_value b") (auto intro: sublist_order.order.trans)
  ultimately have "sp_text vocab s @ sp_text vocab t = a @ b" using assms(3,4) by (simp add: sp_text_def)
  moreover from this have "byte_value (a @ b) = None" using starts [of "a @ b"] assms(8) by (cases "byte_value (a @ b)") auto
  ultimately show ?thesis using assms(5) by (simp add: sp_text_def)
qed

definition sp_inv :: "bytes list \<Rightarrow> nat \<Rightarrow> u32 list \<Rightarrow> bytes \<Rightarrow> u32 list \<Rightarrow> bool" where
  "sp_inv vocab start hd_part norm tokens \<longleftrightarrow> sp_clean vocab \<and> \<not> sublist (str ''<0x'') norm \<and>
     spells (sp_text vocab) vocab start hd_part norm tokens \<and> (\<forall>t\<in>set (drop start tokens). vocab ! unat t \<noteq> [])"

lemma sp_inv_merge:
  assumes "sp_inv vocab start hd_part norm tokens" and "start \<le> i" and "Suc i < length tokens" and "unat m < length vocab"
    and "vocab ! unat m = vocab ! unat (tokens ! i) @ vocab ! unat (tokens ! Suc i)"
  shows "sp_inv vocab start hd_part norm (merge_at i m tokens)"
proof -
  let ?d = "drop start tokens" and ?j = "i - start" and ?f = "sp_text vocab"
  have j: "Suc ?j < length ?d" "?d ! ?j = tokens ! i" "?d ! Suc ?j = tokens ! Suc i" using assms(2,3) by auto
  have d: "?d = take ?j ?d @ tokens ! i # tokens ! Suc i # drop (?j + 2) ?d" using split_pair [OF j(1)] j(2,3) by simp
  have "tokens ! i \<in> set ?d" "tokens ! Suc i \<in> set ?d" by (subst d, simp)+
  then have ne: "vocab ! unat (tokens ! i) \<noteq> []" "vocab ! unat (tokens ! Suc i) \<noteq> []" using assms(1) by (simp_all add: sp_inv_def)
  have "norm = concat (map ?f (take ?j ?d @ tokens ! i # tokens ! Suc i # drop (?j + 2) ?d))"
    using assms(1) unfolding d [symmetric] by (simp add: sp_inv_def spells_def)
  then have "sublist (?f (tokens ! i) @ ?f (tokens ! Suc i)) norm"
    unfolding sublist_def by (intro exI [of _ "concat (map ?f (take ?j ?d))"] exI [of _ "concat (map ?f (drop (?j + 2) ?d))"]) simp
  then have "\<not> sublist (str ''<0x'') (?f (tokens ! i) @ ?f (tokens ! Suc i))"
    using assms(1) by (auto simp: sp_inv_def intro: sublist_order.order.trans)
  then have "?f m = ?f (tokens ! i) @ ?f (tokens ! Suc i)"
    using sp_text_merge [OF _ _ refl refl assms(5) ne] assms(1,4,5) nth_mem [OF assms(4)] by (simp add: sp_inv_def)
  moreover have "drop start (merge_at i m tokens) = take ?j ?d @ m # drop (?j + 2) ?d"
    using merge_at_drop [OF assms(2,3)] by (simp add: merge_at_def)
  moreover have "set (take ?j ?d) \<subseteq> set ?d" "set (drop (?j + 2) ?d) \<subseteq> set ?d" by (rule set_take_subset, rule set_drop_subset)
  ultimately show ?thesis using assms(1,5) ne spells_merge [OF _ assms(2-4)] by (auto simp: sp_inv_def)
qed

interpretation fallback: merger "best_pair vocab scores by_bytes start"
    "\<lambda>tokens. scored_ok vocab scores by_bytes \<and> sp_inv vocab start hd_part norm tokens" for vocab scores by_bytes start hd_part norm
proof unfold_locales
  fix xs assume xs: "scored_ok vocab scores by_bytes \<and> sp_inv vocab start hd_part norm xs"
  then have "ids_ok vocab (drop start xs)" by (simp add: sp_inv_def spells_def)
  with xs show "oks (best_pair vocab scores by_bytes start xs) (\<lambda>r. \<forall>i x. r = Some (i, x) \<longrightarrow>
      Suc i < length xs \<and> scored_ok vocab scores by_bytes \<and> sp_inv vocab start hd_part norm (merge_at i x xs))"
    by (intro oks_mono [OF best_pair_oks]) (auto intro: sp_inv_merge)
qed

subsection \<open>Decoding a spelt text\<close>

lemma sp_decode_norm:
  assumes "utf8_chars inp = Some cs" and "MARK \<notin> set cs" and "ids_ok (sp_vocab T) ts" and "concat (map (sp_text (sp_vocab T)) ts) = sp_norm inp"
  shows "sp_decode T ts = Ok inp"
proof -
  have "oloop (\<lambda>buf t. obind (oget (sp_vocab T) (unat t)) (\<lambda>v. Ok (buf @ (case byte_value v of Some b \<Rightarrow> [b] | None \<Rightarrow> v)))) ts buf
      = (Ok (buf @ concat (map (sp_text (sp_vocab T)) ts)) :: bytes res)" for buf
    using assms(3) by (induction ts arbitrary: buf) (auto simp: ids_ok_def sp_text_def)
  then have "oloop (\<lambda>buf t. obind (oget (sp_vocab T) (unat t)) (\<lambda>v. Ok (buf @ (case byte_value v of Some b \<Rightarrow> [b] | None \<Rightarrow> v)))) ts []
      = (Ok (sp_norm inp) :: bytes res)" by (simp add: assms(4))
  moreover have "utf8_lossy [0xEF, 0xBF, 0xBD] (sp_norm inp) = sp_norm inp"
    using sp_norm_chars(2) [OF assms(1)] by (simp add: utf8_lossy_ok utf8_ok_def)
  moreover have "map (\<lambda>c. if c = MARK then [0x20] else c) (map sp_mark cs) = cs"
    using assms(2) by (induction cs) (auto simp: sp_mark_def)
  then have "concat (map (\<lambda>c. if c = MARK then [0x20] else c) (str_chars (sp_norm inp))) = 0x20 # inp"
    using sp_norm_chars(2) [OF assms(1)] utf8_chars_concat [OF assms(1)] by (simp add: str_chars_def)
  ultimately show ?thesis unfolding sp_decode_def by (simp only: obind.simps Let_def) simp
qed

subsection \<open>A small vocabulary\<close>

text \<open>Unknown, begin and end tokens, the marker, two letters, two merges and one byte token.\<close>

definition sp_demo_vocab :: "bytes list" where
  "sp_demo_vocab = [str ''<unk>'', str ''<s>'', str ''</s>'', MARK, str ''a'', str ''b'', str ''ab'', MARK @ str ''ab'', str ''<0x7A>'']"

definition sp_demo :: GgufSpmTokenizer where
  "sp_demo = \<lparr>sp_vocab = sp_demo_vocab, sp_scores = replicate 9 f32_one, sp_by_bytes = vocab_index sp_demo_vocab,
     sp_byte_fallback = sp_fallback sp_demo_vocab, sp_max_len = 6\<rparr>"

lemma sp_demo_ok: "sp_ok sp_demo" and sp_demo_clean: "sp_clean (sp_vocab sp_demo)"
  by (simp_all add: sp_ok_def scored_ok_def sp_demo_def sp_demo_vocab_def usize_max_def sp_clean_def MARK_def str_def)

lemma sp_demo_chars: "utf8_chars [0x61, 0x62, 0x20, 0x7A] = Some [[0x61], [0x62], [0x20], [0x7A]]"
  by (simp add: utf8_chars_ascii)

lemma sp_demo_covers: "\<forall>c\<in>{MARK, [0x61], [0x62], [0x7A]}. sp_covers sp_demo c"
  by (simp add: sp_covers_def sp_demo_def sp_demo_vocab_def vocab_index_def sp_fallback_def or_insert_eq MARK_def str_def
    byte_value_def hex2_def hex_val_def)

subsection \<open>Properties\<close>

text \<open>
  C28: on any text, with or without the begin token, encoding ends with tokens of the
  vocabulary, the begin token in front, among which no adjacent pair can still be merged. When every
  character of the normalised text is covered (by an entry or by byte tokens), no longer entry
  contains the start of a byte token, and the text contains neither that nor the marker character,
  decoding the tokens after the begin token gives the text back.
\<close>

theorem spm_round_trip:
  assumes "sp_ok T" and "utf8_chars inp = Some cs"
  shows "oks (sp_encode T inp bos) (\<lambda>ts. let n = (if bos then 1 else 0) in
    take n ts = (if bos then [1] else []) \<and> ids_ok (sp_vocab T) (drop n ts) \<and>
    (\<forall>i. n \<le> i \<and> Suc i < length ts \<longrightarrow> \<not> mergeable (sp_vocab T) (sp_scores T) (sp_by_bytes T) ts i) \<and>
    (sp_clean (sp_vocab T) \<and> (\<forall>c\<in>set (MARK # map sp_mark cs). sp_covers T c) \<and> MARK \<notin> set cs \<and> \<not> sublist (str ''<0x'') (sp_norm inp) \<longrightarrow>
       sp_decode T (drop n ts) = Ok inp))"
proof -
  let ?V = "sp_vocab T" and ?n = "if bos then 1 else 0 :: nat" and ?h = "if bos then [1] else [] :: u32 list"
  let ?us = "concat (map (sp_tokens T) (MARK # map sp_mark cs))"
  let ?best = "best_pair ?V (sp_scores T) (sp_by_bytes T) ?n"
  define good where "good \<longleftrightarrow> sp_clean ?V \<and> (\<forall>c\<in>set (MARK # map sp_mark cs). sp_covers T c) \<and> MARK \<notin> set cs \<and> \<not> sublist (str ''<0x'') (sp_norm inp)"
  have S: "scored_ok ?V (sp_scores T) (sp_by_bytes T)" using assms(1) by (simp add: sp_ok_def)
  have ids: "ids_ok ?V ?us" using sp_tokens_ids [OF assms(1)] by (auto simp: ids_ok_def)
  have start: "spells f ?V ?n ?h (concat (map f ?us)) (?h @ ?us)" for f using ids by (simp add: spells_def)
  have enc: "sp_encode T inp bos = merge_loop ?best (?h @ ?us)" using sp_encode_eq [OF assms, of bos] by (cases bos) simp_all
  have any: "oks (merge_loop ?best (?h @ ?us)) (\<lambda>ts. (scored_ok ?V (sp_scores T) (sp_by_bytes T) \<and>
      spells (\<lambda>t. ?V ! unat t) ?V ?n ?h (concat (map (\<lambda>t. ?V ! unat t) ?us)) ts) \<and> ?best ts = Ok None)"
    by (intro scored.merge_loop_oks conjI S start)
  then obtain ts where ts: "merge_loop ?best (?h @ ?us) = Ok ts" "take ?n ts = ?h" "ids_ok ?V (drop ?n ts)" "?best ts = Ok None"
    by (auto simp: oks_def spells_def)
  have "sp_decode T (drop ?n ts) = Ok inp" if good
  proof -
    have "concat (map (sp_text ?V) ?us) = sp_norm inp \<and> (\<forall>t\<in>set ?us. ?V ! unat t \<noteq> [])"
      using sp_tokens_spell_all [OF assms(1)] sp_norm_chars [OF assms(2)] \<open>good\<close> unfolding good_def by metis
    then have "sp_inv ?V ?n ?h (sp_norm inp) (?h @ ?us)"
      using start [of "sp_text ?V"] \<open>good\<close> unfolding sp_inv_def good_def by simp
    then have "oks (merge_loop ?best (?h @ ?us)) (\<lambda>ts. (scored_ok ?V (sp_scores T) (sp_by_bytes T) \<and> sp_inv ?V ?n ?h (sp_norm inp) ts) \<and> ?best ts = Ok None)"
      by (intro fallback.merge_loop_oks conjI S)
    then have "concat (map (sp_text ?V) (drop ?n ts)) = sp_norm inp" using ts(1) by (simp add: sp_inv_def spells_def)
    then show ?thesis using sp_decode_norm [OF assms(2) _ ts(3)] \<open>good\<close> unfolding good_def by blast
  qed
  then show ?thesis using ts best_pair_None [OF S ts(4,3)] unfolding enc good_def Let_def by simp
qed

theorem spm_round_trip_witness:
  "oks (sp_encode sp_demo [0x61, 0x62, 0x20, 0x7A] True) (\<lambda>ts. hd ts = 1 \<and> sp_decode sp_demo (drop 1 ts) = Ok [0x61, 0x62, 0x20, 0x7A])"
proof -
  have "\<not> sublist (str ''<0x'') (sp_norm [0x61, 0x62, 0x20, 0x7A])"
    by (simp add: sp_norm_chars(1) [OF sp_demo_chars] sp_mark_def MARK_def str_def sublist_Cons_right)
  moreover have "\<forall>c\<in>set (MARK # map sp_mark [[0x61], [0x62], [0x20], [0x7A]]). sp_covers sp_demo c"
    using sp_demo_covers by (simp add: sp_mark_def)
  ultimately show ?thesis
    using spm_round_trip [OF sp_demo_ok sp_demo_chars, of True] sp_demo_clean
    by (auto simp: Let_def MARK_def elim!: oks_mono dest: arg_cong [of _ _ hd])
qed

end
