(* ===== verification/GgufBpe.thy ===== *)
theory GgufBpe
  imports TokenBase
begin

text \<open>
  The byte-level tokenizer of a GGUF file, \<open>src/src/tokenizer/gguf_bpe.rs\<close>: the printable alphabet for
  bytes, the splitting of the text into pieces, merging by rank, and decoding. A character is its
  UTF-8 encoding; a string slice panics when it does not start and end at character boundaries.
\<close>

subsection \<open>The alphabet\<close>

text \<open>\<open>char::encode_utf8\<close> of a code point.\<close>

definition char_utf8 :: "nat \<Rightarrow> bytes" where
  "char_utf8 c =
     (if c < 0x80 then [of_nat c]
      else if c < 0x800 then [of_nat (0xC0 + c div 64), of_nat (0x80 + c mod 64)]
      else if c < 0x10000 then [of_nat (0xE0 + c div 4096), of_nat (0x80 + c div 64 mod 64), of_nat (0x80 + c mod 64)]
      else [of_nat (0xF0 + c div 262144), of_nat (0x80 + c div 4096 mod 64), of_nat (0x80 + c div 64 mod 64), of_nat (0x80 + c mod 64)])"

definition printable_ranges :: "(nat \<times> nat) list" where
  "printable_ranges = [(0x21, 0x7E), (0xA1, 0xAC), (0xAE, 0xFF)]"

text \<open>Printable bytes stand for themselves, the others are numbered from 256 on.\<close>

definition bytes_to_unicode :: "bytes list" where
  "bytes_to_unicode =
     (let (table, used) = foldl (\<lambda>(table, used) b. (table[b := char_utf8 b], used[b := True])) (replicate 256 (char_utf8 0), replicate 256 False)
            (concat (map (\<lambda>(lo, hi). [lo..<Suc hi]) printable_ranges))
      in fst (foldl (\<lambda>(table, n) b. if used ! b then (table, n) else (table[b := char_utf8 (256 + n)], Suc n)) (table, 0) [0..<256]))"

subsection \<open>Loading\<close>

record GgufBpeTokenizer =
  bp_vocab :: "bytes \<rightharpoonup> u32"
  bp_id_to_tok :: "bytes list"
  bp_merge_rank :: "bytes \<times> bytes \<rightharpoonup> u32"
  bp_byte_encoder :: "bytes list"

definition byte_position :: "u8 \<Rightarrow> bytes \<Rightarrow> nat option" where
  "byte_position c s = (let n = length (takeWhile (\<lambda>b. b \<noteq> c) s) in if n < length s then Some n else None)"

definition bp_merges :: "bytes list \<Rightarrow> bytes \<times> bytes \<rightharpoonup> u32" where
  "bp_merges merges = foldl (\<lambda>m (rank, s). case byte_position 0x20 s of
     Some sp \<Rightarrow> or_insert (take sp s, drop (sp + 1) s) (of_nat rank) m | None \<Rightarrow> m) Map.empty (enumerate 0 merges)"

definition bp_from_gguf :: "GgufFile \<Rightarrow> GgufBpeTokenizer res" where
  "bp_from_gguf g =
     obind (read_str_array ''gguf: expected a string array'' g (str ''tokenizer.ggml.tokens'')) (\<lambda>toks.
     obind (read_str_array ''gguf: expected a string array'' g (str ''tokenizer.ggml.merges'')) (\<lambda>merges.
     Ok \<lparr>bp_vocab = vocab_index toks, bp_id_to_tok = toks, bp_merge_rank = bp_merges merges, bp_byte_encoder = bytes_to_unicode\<rparr>))"

subsection \<open>Splitting the text\<close>

definition char_boundary :: "bytes \<Rightarrow> nat \<Rightarrow> bool" where
  "char_boundary s i \<longleftrightarrow> i = 0 \<or> i = length s \<or> (i < length s \<and> \<not> is_cont (s ! i))"

definition str_slice :: "bytes \<Rightarrow> nat \<Rightarrow> nat \<Rightarrow> bytes res" where
  "str_slice s a b = (if a \<le> b \<and> b \<le> length s \<and> char_boundary s a \<and> char_boundary s b then Ok (slice s a b) else Panic)"

definition is_digit :: "u8 \<Rightarrow> bool" where "is_digit c \<longleftrightarrow> 0x30 \<le> c \<and> c \<le> 0x39"
definition is_letter :: "u8 \<Rightarrow> bool" where
  "is_letter c \<longleftrightarrow> (0x41 \<le> c \<and> c \<le> 0x5A) \<or> (0x61 \<le> c \<and> c \<le> 0x7A) \<or> 0x80 \<le> c"
definition is_space :: "u8 \<Rightarrow> bool" where "is_space c \<longleftrightarrow> c = 0x20 \<or> c = 0x09 \<or> c = 0x0A \<or> c = 0x0D"
definition is_punct :: "u8 \<Rightarrow> bool" where "is_punct c \<longleftrightarrow> \<not> is_space c \<and> \<not> is_letter c \<and> \<not> is_digit c"

definition ascii_lower :: "bytes \<Rightarrow> bytes" where
  "ascii_lower = map (\<lambda>b. if 0x41 \<le> b \<and> b \<le> 0x5A then b + 0x20 else b)"

definition contraction :: "bytes \<Rightarrow> nat \<Rightarrow> (nat \<times> bytes) option res" where
  "contraction b i = (let n = length b in
     if b ! i = 0x27 \<and> i + 1 < n
     then obind (str_slice b i (min (i + 2) n)) (\<lambda>two.
       if ascii_lower two \<in> set (map str [[CHR 0x27, CHR ''s''], [CHR 0x27, CHR ''t''], [CHR 0x27, CHR ''m''], [CHR 0x27, CHR ''d'']])
       then omap (\<lambda>s. Some (i + 2, s)) (str_slice b i (i + 2))
       else if i + 3 \<le> n
       then obind (str_slice b i (i + 3)) (\<lambda>three.
         if ascii_lower three \<in> set (map str [[CHR 0x27, CHR ''r'', CHR ''e''], [CHR 0x27, CHR ''v'', CHR ''e''], [CHR 0x27, CHR ''l'', CHR ''l'']])
         then omap (\<lambda>s. Some (i + 3, s)) (str_slice b i (i + 3))
         else Ok None)
       else Ok None)
     else Ok None)"

text \<open>The run from \<open>i\<close> on, together with what \<open>start\<close> leaves before it.\<close>

definition run_piece :: "(u8 \<Rightarrow> bool) \<Rightarrow> bytes \<Rightarrow> nat \<Rightarrow> nat \<Rightarrow> (nat \<times> bytes list) res" where
  "run_piece p b start i = (let k = i + length (takeWhile p (drop i b)) in omap (\<lambda>s. (k, [s])) (str_slice b start k))"

text \<open>One round of the scanner: the next position and the piece pushed, if any.\<close>

definition pre_step :: "bytes \<Rightarrow> nat \<Rightarrow> (nat \<times> bytes list) res" where
  "pre_step b i = (let n = length b; c = b ! i; j = (if c = 0x20 then i + 1 else i) in
     obind (contraction b i) (\<lambda>r. case r of
       Some (k, s) \<Rightarrow> Ok (k, [s])
     | None \<Rightarrow>
       if (c = 0x20 \<and> i + 1 < n \<and> is_letter (b ! (i + 1))) \<or> is_letter c then run_piece is_letter b i j
       else if is_digit c \<or> (c = 0x20 \<and> i + 1 < n \<and> is_digit (b ! (i + 1))) then run_piece is_digit b i j
       else if (c = 0x20 \<and> i + 1 < n \<and> is_punct (b ! (i + 1))) \<or> is_punct c then run_piece is_punct b i j
       else if is_space c then run_piece is_space b i i
       else Ok (i + 1, [])))"

lemma run_piece_Ok:
  "run_piece p b start i = Ok (k, ps) \<Longrightarrow> k = i + length (takeWhile p (drop i b)) \<and> start \<le> k \<and> k \<le> length b \<and> ps = [slice b start k]"
  by (auto simp: run_piece_def str_slice_def Let_def outcome_simps split: if_splits)

lemma takeWhile_pos: "i < length b \<Longrightarrow> p (b ! i) \<Longrightarrow> 0 < length (takeWhile p (drop i b))"
  by (cases "drop i b") (auto simp: Cons_nth_drop_Suc [symmetric])

lemma contraction_Ok: "contraction b i = Ok (Some (k, s)) \<Longrightarrow> i < k \<and> k \<le> length b \<and> s = slice b i k"
  by (auto simp: contraction_def str_slice_def Let_def outcome_simps split: if_splits)

text \<open>Every round advances and pushes exactly the bytes it passes.\<close>

lemma pre_step_Ok:
  assumes "pre_step b i = Ok (k, ps)" and "i < length b"
  shows "i < k \<and> k \<le> length b \<and> ps = [slice b i k]"
proof -
  let ?c = "b ! i"
  obtain r where r: "contraction b i = Ok r" using assms(1) by (auto simp: pre_step_def Let_def outcome_simps)
  show ?thesis
  proof (cases r)
    case (Some x)
    then show ?thesis using assms(1) r contraction_Ok [of b i k] by (cases x) (auto simp: pre_step_def Let_def)
  next
    case None
    have adv: "i < k" if "run_piece p b i (if ?c = 0x20 then i + 1 else i) = Ok (k, ps)" "?c = 0x20 \<or> p ?c" for p
      using run_piece_Ok [OF that(1)] that(2) takeWhile_pos [OF assms(2), of p] by (auto split: if_splits)
    have spc: "i < k" if "run_piece is_space b i i = Ok (k, ps)" "is_space ?c"
      using run_piece_Ok [OF that(1)] that(2) takeWhile_pos [OF assms(2), of is_space] by auto
    have "\<exists>p j. run_piece p b i j = Ok (k, ps) \<and> i < k"
      using assms(1) r None adv spc
      by (auto simp: pre_step_def Let_def is_punct_def split: if_splits)
    then show ?thesis using run_piece_Ok by blast
  qed
qed

function pre_loop :: "bytes \<Rightarrow> nat \<Rightarrow> bytes list res" where
  "pre_loop b i = (if i < length b then obind (pre_step b i) (\<lambda>(k, ps). omap ((@) ps) (pre_loop b k)) else Ok [])"
  by auto
termination by (relation "measure (\<lambda>(b, i). length b - i)") (auto dest!: pre_step_Ok)

declare pre_loop.simps [simp del]

definition pretokenize :: "bytes \<Rightarrow> bytes list res" where
  "pretokenize s = pre_loop s 0"

subsection \<open>Merging by rank\<close>

text \<open>One round: the leftmost adjacent pair of the lowest rank below \<open>u32::MAX\<close>.\<close>

definition rank_step :: "(bytes \<times> bytes \<rightharpoonup> u32) \<Rightarrow> bytes list \<Rightarrow> u32 \<times> nat option \<Rightarrow> nat \<Rightarrow> (u32 \<times> nat option) res" where
  "rank_step ranks symbols = (\<lambda>(best_rank, best_i) i.
     obind (oget symbols i) (\<lambda>a. obind (oget symbols (i + 1)) (\<lambda>b.
     Ok (case ranks (a, b) of Some r \<Rightarrow> if r < best_rank then (r, Some i) else (best_rank, best_i) | None \<Rightarrow> (best_rank, best_i)))))"

definition best_ranked :: "(bytes \<times> bytes \<rightharpoonup> u32) \<Rightarrow> bytes list \<Rightarrow> (nat \<times> bytes) option res" where
  "best_ranked ranks symbols = obind (oloop (rank_step ranks symbols) [0..<length symbols - 1] (0xFFFFFFFF, None)) (\<lambda>(_, best_i).
     case best_i of None \<Rightarrow> Ok None
     | Some i \<Rightarrow> obind (oget symbols i) (\<lambda>a. obind (oget symbols (i + 1)) (\<lambda>b. Ok (Some (i, a @ b)))))"

definition bpe :: "GgufBpeTokenizer \<Rightarrow> bytes list \<Rightarrow> bytes list res" where
  "bpe T = merge_loop (best_ranked (bp_merge_rank T))"

subsection \<open>Encoding and decoding\<close>

definition bp_piece :: "GgufBpeTokenizer \<Rightarrow> u32 list \<Rightarrow> bytes \<Rightarrow> u32 list res" where
  "bp_piece T = (\<lambda>ids piece.
     obind (omapM (\<lambda>b. oget (bp_byte_encoder T) (unat b)) piece) (\<lambda>symbols. obind (bpe T symbols) (\<lambda>symbols.
     Ok (foldl (\<lambda>ids sym. case bp_vocab T sym of Some ix \<Rightarrow> ids @ [ix] | None \<Rightarrow> ids) ids symbols))))"

definition bp_encode :: "GgufBpeTokenizer \<Rightarrow> bytes \<Rightarrow> u32 list res" where
  "bp_encode T inp = obind (pretokenize inp) (\<lambda>pieces. oloop (bp_piece T) pieces [])"

definition bp_rev :: "GgufBpeTokenizer \<Rightarrow> bytes \<rightharpoonup> u8" where
  "bp_rev T = foldl (\<lambda>m b. m(bp_byte_encoder T ! b \<mapsto> of_nat b)) Map.empty [0..<256]"

definition bp_decode :: "GgufBpeTokenizer \<Rightarrow> u32 list \<Rightarrow> bytes" where
  "bp_decode T ids = utf8_lossy [0xEF, 0xBF, 0xBD] (foldl (\<lambda>bs t.
     if unat t < length (bp_id_to_tok T)
     then (case utf8_chars (bp_id_to_tok T ! unat t) of Some cs \<Rightarrow> bs @ List.map_filter (bp_rev T) cs | None \<Rightarrow> bs)
     else bs) [] ids)"

subsection \<open>The alphabet is injective\<close>

definition printable :: "nat \<Rightarrow> bool" where
  "printable b \<longleftrightarrow> (0x21 \<le> b \<and> b \<le> 0x7E) \<or> (0xA1 \<le> b \<and> b \<le> 0xAC) \<or> (0xAE \<le> b \<and> b \<le> 0xFF)"

text \<open>The code point of a byte.\<close>

definition byte_code :: "nat \<Rightarrow> nat" where
  "byte_code b = (if printable b then b else 256 + length (filter (\<lambda>j. \<not> printable j) [0..<b]))"

lemma bytes_to_unicode_eq: "bytes_to_unicode = map (\<lambda>b. char_utf8 (byte_code b)) [0..<256]"
proof -
  let ?rs = "concat (map (\<lambda>(lo, hi). [lo..<Suc hi]) printable_ranges)"
  define f where "f = (\<lambda>(table :: bytes list, used) b. (table[b := char_utf8 b], used[b := True]))"
  have two: "length (fst (foldl f (t, u) bs)) = length t \<and> length (snd (foldl f (t, u) bs)) = length u \<and>
      (\<forall>b < length t. fst (foldl f (t, u) bs) ! b = (if b \<in> set bs then char_utf8 b else t ! b)) \<and>
      (\<forall>b < length u. snd (foldl f (t, u) bs) ! b = (b \<in> set bs \<or> u ! b))" for t u bs
    by (induction bs arbitrary: t u) (auto simp: f_def nth_update_at)
  obtain table used where tu: "foldl f (replicate 256 (char_utf8 0), replicate 256 False) ?rs = (table, used)" by fastforce
  have rs: "b \<in> set ?rs \<longleftrightarrow> printable b" for b by (auto simp: printable_ranges_def printable_def simp del: upt_Suc upt_rec_numeral)
  have len: "length table = 256" and table: "table ! b = (if printable b then char_utf8 b else char_utf8 0)"
    and used: "used ! b = printable b" if "b < 256" for b
    using two [of "replicate 256 (char_utf8 0)" "replicate 256 False" ?rs] that rs [of b] unfolding tu by auto
  let ?g = "\<lambda>(table, n) b. if used ! b then (table, n) else (table[b := char_utf8 (256 + n)], Suc n)"
  let ?n = "\<lambda>k. length (filter (\<lambda>j. \<not> printable j) [0..<k])"
  have "foldl ?g (table, 0) [0..<k] = (map (\<lambda>b. char_utf8 (byte_code b)) [0..<k] @ drop k table, ?n k)" if "k \<le> 256" for k
    using that
  proof (induction k)
    case (Suc k)
    then have "drop k table = table ! k # drop (Suc k) table" using len [of 0] by (simp add: Cons_nth_drop_Suc)
    then show ?case using Suc used [of k] table [of k] by (simp add: byte_code_def list_update_append)
  qed simp
  from this [of 256] show ?thesis using tu len [of 0] unfolding f_def bytes_to_unicode_def by simp
qed

lemma byte_code_bounds: "b < 256 \<Longrightarrow> 0x21 \<le> byte_code b \<and> byte_code b < 0x200"
proof -
  assume b: "b < 256"
  have "length (filter (\<lambda>j. \<not> printable j) [0..<b]) \<le> b" using length_filter_le [of _ "[0..<b]"] by simp
  then show ?thesis using b by (auto simp: byte_code_def printable_def)
qed

lemma byte_code_inj: "byte_code a = byte_code b \<Longrightarrow> a < 256 \<Longrightarrow> b < 256 \<Longrightarrow> a = b"
proof -
  have less: "length (filter (\<lambda>j. \<not> printable j) [0..<a]) < length (filter (\<lambda>j. \<not> printable j) [0..<b])" if "a < b" "\<not> printable a" for a b
  proof -
    have "[0..<b] = [0..<a] @ a # [Suc a..<b]" using that upt_add_eq_append [of 0 a "b - a"] by (simp add: upt_conv_Cons)
    then show ?thesis using that(2) by simp
  qed
  show "byte_code a = byte_code b \<Longrightarrow> a < 256 \<Longrightarrow> b < 256 \<Longrightarrow> a = b"
    using less [of a b] less [of b a] by (auto simp: byte_code_def split: if_splits) (metis linorder_neqE_nat less_irrefl)
qed

lemma char_utf8_inj: "char_utf8 a = char_utf8 b \<Longrightarrow> a < 0x200 \<Longrightarrow> b < 0x200 \<Longrightarrow> a = b"
proof -
  assume e: "char_utf8 a = char_utf8 b" and ab: "a < 0x200" "b < 0x200"
  have w: "unat (of_nat k :: u8) = k" if "k < 256" for k using that by (simp add: unat_of_nat)
  have "map unat (char_utf8 c) = (if c < 128 then [c] else [192 + c div 64, 128 + c mod 64])" if "c < 0x200" for c
    using that w [of c] w [of "192 + c div 64"] w [of "128 + c mod 64"] by (simp add: char_utf8_def)
  then have "(if a < 128 then [a] else [192 + a div 64, 128 + a mod 64]) = (if b < 128 then [b] else [192 + b div 64, 128 + b mod 64])"
    using e ab by metis
  then have "a = b \<or> (a div 64 = b div 64 \<and> a mod 64 = b mod 64)" by (auto split: if_splits)
  then show ?thesis by (metis div_mult_mod_eq)
qed

subsection \<open>Pieces cover the text\<close>

lemma pre_loop_concat: "pre_loop b i = Ok ps \<Longrightarrow> i \<le> length b \<Longrightarrow> concat ps = drop i b \<and> [] \<notin> set ps"
proof (induction b i arbitrary: ps rule: pre_loop.induct)
  case (1 b i)
  show ?case
  proof (cases "i < length b")
    case True
    then obtain k qs rs where s: "pre_step b i = Ok (k, qs)" "pre_loop b k = Ok rs" "ps = qs @ rs"
      using 1(2) by (subst (asm) pre_loop.simps) (auto simp: outcome_simps)
    note k = pre_step_Ok [OF s(1) True]
    have "concat rs = drop k b \<and> [] \<notin> set rs" using 1(1) [OF True s(1) refl s(2)] k by simp
    moreover have "slice b i k @ drop k b = drop i b" using k slice_append_slice [of i k "length b" b] by (simp add: slice_def)
    moreover have "slice b i k \<noteq> []" using k by (metis length_slice list.size(3) zero_less_diff less_irrefl)
    ultimately show ?thesis using s(3) k by auto
  next
    case False
    then show ?thesis using 1(2,3) by (simp add: pre_loop.simps)
  qed
qed

lemma char_bytes: "c \<noteq> [] \<Longrightarrow> utf8_width c = length c \<Longrightarrow> lead_width (hd c) = length c \<and> list_all is_cont (tl c)"
  by (cases c) (auto simp: Let_def follow_ok_def split: if_splits)

lemma lead_not_cont: "lead_width a \<noteq> 0 \<Longrightarrow> \<not> is_cont a"
  by (auto simp: lead_width_def is_cont_def word_le_nat_alt split: if_splits)

lemma lead_ascii: "1 < lead_width a \<Longrightarrow> \<not> a < 0x80"
  by (auto simp: lead_width_def word_le_nat_alt word_less_nat_alt split: if_splits)

lemma hd_not_cont: "utf8_chars bs = Some cs \<Longrightarrow> bs \<noteq> [] \<Longrightarrow> \<not> is_cont (hd bs)"
  by (induction rule: utf8_chars_induct) (use char_bytes lead_not_cont in \<open>auto simp: hd_append\<close>)

text \<open>What follows an ASCII byte of a well-formed string starts a character.\<close>

lemma after_ascii: "utf8_chars bs = Some cs \<Longrightarrow> Suc i < length bs \<Longrightarrow> bs ! i < 0x80 \<Longrightarrow> \<not> is_cont (bs ! Suc i)"
proof (induction arbitrary: i rule: utf8_chars_induct)
  case (Char c bs cs)
  note c = char_bytes [OF Char(1,2)]
  consider "Suc i < length c" | "Suc i = length c" | "length c \<le> i" by linarith
  then show ?case
  proof cases
    case 1
    have "\<not> c ! i < 0x80"
    proof (cases i)
      case 0
      then show ?thesis using 1 c lead_ascii [of "hd c"] Char(1) by (simp add: hd_conv_nth)
    next
      case (Suc j)
      then have "is_cont (c ! i)" using 1 c by (cases c) (auto simp: list_all_length)
      then show ?thesis by (simp add: is_cont_def word_le_nat_alt word_less_nat_alt)
    qed
    then show ?thesis using 1 Char.prems by (simp add: nth_append)
  next
    case 2
    then show ?thesis using hd_not_cont [OF Char(4)] Char.prems by (auto simp: nth_append hd_conv_nth)
  next
    case 3
    then show ?thesis using Char(5) [of "i - length c"] Char.prems by (simp add: nth_append Suc_diff_le)
  qed
qed simp

text \<open>Every apostrophe is followed by two ASCII bytes, as far as the text goes.\<close>

definition quotes_ascii :: "bytes \<Rightarrow> bool" where
  "quotes_ascii s \<longleftrightarrow> list_all (\<lambda>i. s ! i = 0x27 \<longrightarrow> list_all (\<lambda>b. b < 0x80) (take 2 (drop (Suc i) s))) [0..<length s]"

lemma boundary_after: "utf8_ok b \<Longrightarrow> i < length b \<Longrightarrow> b ! i < 0x80 \<Longrightarrow> char_boundary b (Suc i)"
  using after_ascii [of b _ i] by (auto simp: utf8_ok_def char_boundary_def)

lemma contraction_safe:
  assumes "utf8_ok b" and "quotes_ascii b" and "i < length b" and "char_boundary b i"
  shows "oks (contraction b i) (\<lambda>r. \<forall>k s. r = Some (k, s) \<longrightarrow> char_boundary b k)"
proof (cases "b ! i = 0x27 \<and> i + 1 < length b")
  case True
  have q: "list_all (\<lambda>b. b < 0x80) (take 2 (drop (Suc i) b))" using assms(2,3) True by (auto simp: quotes_ascii_def list_all_iff)
  have "b ! (i + 1) < 0x80" using q True by (auto simp: list_all_length dest: spec [of _ 0])
  then have two: "char_boundary b (i + 2)" using boundary_after [OF assms(1), of "i + 1"] True by simp
  have "b ! (i + 2) < 0x80" if "i + 3 \<le> length b" using q that by (auto simp: list_all_length dest: spec [of _ 1])
  then have three: "char_boundary b (i + 3)" if "i + 3 \<le> length b"
    using boundary_after [OF assms(1), of "i + 2"] that by (simp add: numeral_eq_Suc)
  have "str_slice b i (min (i + 2) (length b)) = Ok (slice b i (i + 2))" "str_slice b i (i + 2) = Ok (slice b i (i + 2))"
    "i + 3 \<le> length b \<Longrightarrow> str_slice b i (i + 3) = Ok (slice b i (i + 3))"
    using True assms(4) two three by (auto simp: str_slice_def min_def)
  then show ?thesis using two three True by (simp add: contraction_def Let_def)
next
  case False
  show ?thesis unfolding contraction_def Let_def if_not_P [OF False] by simp
qed

lemma run_safe:
  assumes "utf8_ok b" and "char_boundary b i" and "i \<le> j" and "j \<le> length b"
    and "(\<forall>c. \<not> p c \<longrightarrow> c < 0x80) \<or> ((\<forall>c. p c \<longrightarrow> c < 0x80) \<and> j < length b \<and> p (b ! j))"
  shows "oks (run_piece p b i j) (\<lambda>(k, ps). char_boundary b k)"
proof -
  let ?t = "takeWhile p (drop j b)" and ?k = "j + length (takeWhile p (drop j b))"
  have k: "?k \<le> length b" using length_takeWhile_le [of p "drop j b"] assms(4) by simp
  have "char_boundary b ?k"
  proof (cases "?k < length b")
    case True
    show ?thesis
    proof (cases "\<forall>c. \<not> p c \<longrightarrow> c < 0x80")
      case all: True
      have "\<not> p (drop j b ! length ?t)" using True by (intro nth_length_takeWhile) simp
      then have "b ! ?k < 0x80" using all k by simp
      then show ?thesis using True by (simp add: char_boundary_def is_cont_def word_le_nat_alt word_less_nat_alt)
    next
      case False
      then have p: "\<forall>c. p c \<longrightarrow> c < 0x80" "j < length b" "p (b ! j)" using assms(5) by auto
      then have pos: "0 < length ?t" by (intro takeWhile_pos)
      then have e: "?k - 1 = j + (length ?t - 1)" by linarith
      have "?t ! (length ?t - 1) = b ! (?k - 1)" unfolding e using pos k by (subst takeWhile_nth) auto
      moreover have "p (?t ! (length ?t - 1))" using nth_mem [of "length ?t - 1" ?t] pos set_takeWhileD by (metis diff_less zero_less_one)
      ultimately have "b ! (?k - 1) < 0x80" using p(1) by simp
      then show ?thesis using boundary_after [OF assms(1), of "?k - 1"] pos True by simp
    qed
  next
    case False
    then show ?thesis using k by (simp add: char_boundary_def)
  qed
  then show ?thesis using k assms(2,3) by (simp add: run_piece_def Let_def str_slice_def)
qed


lemma pre_step_safe:
  assumes "utf8_ok b" and "quotes_ascii b" and "i < length b" and "char_boundary b i"
  shows "oks (pre_step b i) (\<lambda>(k, ps). char_boundary b k)"
proof -
  let ?c = "b ! i"
  have letters: "\<forall>c. \<not> is_letter c \<longrightarrow> c < 0x80" by (simp add: is_letter_def not_le)
  have ascii: "\<forall>c. is_digit c \<longrightarrow> c < 0x80" "\<forall>c. is_punct c \<longrightarrow> c < 0x80" "\<forall>c. is_space c \<longrightarrow> c < 0x80"
    by (auto simp: is_digit_def is_punct_def is_letter_def is_space_def word_le_nat_alt word_less_nat_alt)
  have kinds: "\<not> is_letter 0x20" "\<not> is_digit 0x20" "\<not> is_punct 0x20" by (simp_all add: is_letter_def is_digit_def is_punct_def is_space_def)
  have total: "is_letter ?c \<or> is_digit ?c \<or> is_punct ?c \<or> is_space ?c" by (auto simp: is_punct_def)
  let ?j = "if ?c = 0x20 then i + 1 else i"
  have run: "oks (run_piece p b i ?j) (\<lambda>(k, ps). char_boundary b k)"
    if "p = is_letter \<or> p = is_digit \<or> p = is_punct" "(?c = 0x20 \<and> i + 1 < length b \<and> p (b ! (i + 1))) \<or> p ?c" for p
    using that letters ascii kinds assms(3) by (intro run_safe [OF assms(1,4)]) (auto split: if_splits)
  have spaces: "oks (run_piece is_space b i i) (\<lambda>(k, ps). char_boundary b k)" if "is_space ?c"
    using that ascii assms(3) by (intro run_safe [OF assms(1,4)]) auto
  have "oks (case r of Some (k, s) \<Rightarrow> Ok (k, [s])
     | None \<Rightarrow>
       if (?c = 0x20 \<and> i + 1 < length b \<and> is_letter (b ! (i + 1))) \<or> is_letter ?c then run_piece is_letter b i ?j
       else if is_digit ?c \<or> (?c = 0x20 \<and> i + 1 < length b \<and> is_digit (b ! (i + 1))) then run_piece is_digit b i ?j
       else if (?c = 0x20 \<and> i + 1 < length b \<and> is_punct (b ! (i + 1))) \<or> is_punct ?c then run_piece is_punct b i ?j
       else if is_space ?c then run_piece is_space b i i
       else Ok (i + 1, [])) (\<lambda>(k, ps). char_boundary b k)" if "\<forall>k s. r = Some (k, s) \<longrightarrow> char_boundary b k" for r
  proof (cases r)
    case None
    show ?thesis unfolding None option.case using run spaces total by (intro oks_if) blast+
  qed (use that in auto)
  then show ?thesis unfolding pre_step_def Let_def by (intro oks_bind [OF contraction_safe [OF assms]])
qed

lemma pre_loop_safe: "utf8_ok b \<Longrightarrow> quotes_ascii b \<Longrightarrow> char_boundary b i \<Longrightarrow> oks (pre_loop b i) (\<lambda>ps. True)"
proof (induction b i rule: pre_loop.induct)
  case (1 b i)
  show ?case
  proof (cases "i < length b")
    case True
    obtain k ps where k: "pre_step b i = Ok (k, ps)" "char_boundary b k"
      using pre_step_safe [OF 1(2,3) True 1(4)] by (auto simp: oks_def)
    then show ?thesis using 1(1) [OF True k(1) refl 1(2,3) k(2)] True by (subst pre_loop.simps) (auto intro: oks_map)
  qed (simp add: pre_loop.simps)
qed

subsection \<open>Merging keeps the bytes\<close>

definition pair_rank :: "(bytes \<times> bytes \<rightharpoonup> u32) \<Rightarrow> bytes list \<Rightarrow> nat \<Rightarrow> u32 option" where
  "pair_rank ranks xs i = ranks (xs ! i, xs ! Suc i)"

lemma best_ranked_oks:
  "oks (best_ranked ranks xs) (\<lambda>r. case r of
     None \<Rightarrow> \<forall>j. Suc j < length xs \<longrightarrow> pair_rank ranks xs j \<in> {None, Some 0xFFFFFFFF}
   | Some (i, m) \<Rightarrow> Suc i < length xs \<and> m = xs ! i @ xs ! Suc i \<and> (\<exists>r. pair_rank ranks xs i = Some r \<and>
       (\<forall>j r'. Suc j < length xs \<and> pair_rank ranks xs j = Some r' \<longrightarrow> r \<le> r' \<and> (j < i \<longrightarrow> r < r'))))"
proof -
  define P where "P k s \<longleftrightarrow> (case snd s of
     None \<Rightarrow> fst s = 0xFFFFFFFF \<and> (\<forall>j < k. pair_rank ranks xs j \<in> {None, Some 0xFFFFFFFF})
   | Some i \<Rightarrow> i < k \<and> pair_rank ranks xs i = Some (fst s) \<and>
       (\<forall>j r'. j < k \<and> pair_rank ranks xs j = Some r' \<longrightarrow> fst s \<le> r' \<and> (j < i \<longrightarrow> fst s < r')))"
    for k and s :: "u32 \<times> nat option"
  have "oks (oloop (rank_step ranks xs) [0..<length xs - 1] (0xFFFFFFFF, None)) (P (length xs - 1))"
  proof (rule oks_loop_upt [where P = P])
    fix k s assume k: "k < length xs - 1" and s: "P k s"
    obtain r b where sb: "s = (r, b)" by (cases s)
    have step: "rank_step ranks xs s k = Ok (case pair_rank ranks xs k of Some q \<Rightarrow> if q < r then (q, Some k) else (r, b) | None \<Rightarrow> (r, b))"
      using k sb by (simp add: rank_step_def oget_ok pair_rank_def)
    have top_nat: "unat q < 2 ^ 32" for q :: u32 using unsigned_less [of q] by simp
    have top: "\<not> q < 0xFFFFFFFF \<Longrightarrow> q = 0xFFFFFFFF" for q :: u32 using top_nat [of q] by (auto simp: word_unat_eq_iff word_less_nat_alt)
    show "oks (rank_step ranks xs s k) (P (Suc k))"
    proof (cases "pair_rank ranks xs k")
      case None
      then show ?thesis using s sb step by (auto simp: P_def less_Suc_eq split: option.splits)
    next
      case (Some q)
      then show ?thesis using s sb step top [of q]
        by (fastforce simp: P_def less_Suc_eq split: option.splits if_splits)
    qed
  qed (simp_all add: P_def)
  then obtain s where s: "oloop (rank_step ranks xs) [0..<length xs - 1] (0xFFFFFFFF, None) = Ok s" "P (length xs - 1) s"
    by (auto simp: oks_def)
  obtain r b where sb: "s = (r, b)" by (cases s)
  show ?thesis
  proof (cases b)
    case None
    then show ?thesis using s sb by (auto simp: best_ranked_def P_def)
  next
    case (Some i)
    then have "Suc i < length xs" using s(2) sb by (auto simp: P_def)
    then show ?thesis using s sb Some by (auto simp: best_ranked_def P_def less_diff_conv)
  qed
qed

definition byte_symbol :: "u8 \<Rightarrow> bytes" where
  "byte_symbol b = char_utf8 (byte_code (unat b))"

definition bp_closed :: "GgufBpeTokenizer \<Rightarrow> bool" where
  "bp_closed T \<longleftrightarrow> (\<forall>b. bp_vocab T (byte_symbol b) \<noteq> None) \<and> (\<forall>p\<in>dom (bp_merge_rank T). bp_vocab T (fst p @ snd p) \<noteq> None)"

text \<open>The symbols spell the bytes of the piece, and stay in a vocabulary that is closed under merging.\<close>

definition symbols_spell :: "GgufBpeTokenizer \<Rightarrow> bytes \<Rightarrow> bytes list \<Rightarrow> bool" where
  "symbols_spell T piece xs \<longleftrightarrow> (\<exists>bss. xs = map (\<lambda>bs. concat (map byte_symbol bs)) bss \<and> concat bss = piece) \<and>
     (bp_closed T \<longrightarrow> list_all (\<lambda>x. bp_vocab T x \<noteq> None) xs)"

lemma symbols_spell_merge:
  assumes "symbols_spell T piece xs" and "Suc i < length xs" and "bp_merge_rank T (xs ! i, xs ! Suc i) \<noteq> None"
  shows "symbols_spell T piece (merge_at i (xs ! i @ xs ! Suc i) xs)"
proof -
  let ?f = "\<lambda>bs. concat (map byte_symbol bs)"
  obtain bss where bss: "xs = map ?f bss" "concat bss = piece" using assms(1) by (auto simp: symbols_spell_def)
  let ?m = "merge_at i (bss ! i @ bss ! Suc i) bss"
  have "bss = take i bss @ bss ! i # bss ! Suc i # drop (i + 2) bss" using split_pair [of i bss] assms(2) bss(1) by simp
  then have "concat bss = concat (take i bss @ bss ! i # bss ! Suc i # drop (i + 2) bss)" by simp
  then have "concat ?m = piece" using bss(2) by (simp add: merge_at_def)
  moreover have "merge_at i (xs ! i @ xs ! Suc i) xs = map ?f ?m" using assms(2) bss(1) by (simp add: merge_at_def take_map drop_map)
  moreover have "list_all (\<lambda>x. bp_vocab T x \<noteq> None) (merge_at i (xs ! i @ xs ! Suc i) xs)" if "bp_closed T"
  proof -
    have "bp_vocab T (xs ! i @ xs ! Suc i) \<noteq> None" using that assms(3) unfolding bp_closed_def by (metis domIff fst_conv snd_conv)
    then show ?thesis using that assms(1) by (auto simp: symbols_spell_def list_all_iff merge_at_def dest: in_set_takeD in_set_dropD)
  qed
  ultimately show ?thesis unfolding symbols_spell_def by blast
qed

interpretation ranked: merger "best_ranked (bp_merge_rank T)" "symbols_spell T piece" for T piece
proof unfold_locales
  fix xs assume "symbols_spell T piece xs"
  then show "oks (best_ranked (bp_merge_rank T) xs) (\<lambda>r. \<forall>i x. r = Some (i, x) \<longrightarrow> Suc i < length xs \<and> symbols_spell T piece (merge_at i x xs))"
    by (intro oks_mono [OF best_ranked_oks]) (auto intro!: symbols_spell_merge simp: pair_rank_def)
qed

subsection \<open>Decoding the alphabet\<close>

lemma byte_lt: "unat (b :: u8) < 256"
  using unsigned_less [of b] by simp

lemma unat_of_nat_byte: "k < 256 \<Longrightarrow> unat (of_nat k :: u8) = k"
  by (simp add: unat_of_nat)

lemma char_utf8_valid: "0x21 \<le> c \<Longrightarrow> c < 0x200 \<Longrightarrow> char_utf8 c \<noteq> [] \<and> utf8_width (char_utf8 c) = length (char_utf8 c)"
proof -
  assume c: "0x21 \<le> c" "c < 0x200"
  show ?thesis
  proof (cases "c < 0x80")
    case True
    then have "of_nat c \<le> (0x7F :: u8)" by (simp add: word_le_nat_alt unat_of_nat_byte)
    then show ?thesis using True utf8_width_ascii [of "of_nat c" "[]"] by (simp add: char_utf8_def del: utf8_width.simps)
  next
    case False
    define a b where "a = (of_nat (0xC0 + c div 64) :: u8)" and "b = (of_nat (0x80 + c mod 64) :: u8)"
    have u: "unat a = 0xC0 + c div 64" "unat b = 0x80 + c mod 64" unfolding a_def b_def using c by (intro unat_of_nat_byte; simp)+
    have "2 \<le> c div 64" "c div 64 < 8" "c mod 64 < 64" using c False by auto
    then have "lead_width a = 2" "is_cont b" "a \<notin> {0xE0, 0xED, 0xF0, 0xF4}"
      using u by (auto simp: lead_width_def is_cont_def word_le_nat_alt)
    moreover have "char_utf8 c = [a, b]" using c False by (simp add: char_utf8_def a_def b_def)
    ultimately show ?thesis by (simp add: follow_ok_def)
  qed
qed

lemma byte_symbol_valid: "byte_symbol b \<noteq> [] \<and> utf8_width (byte_symbol b) = length (byte_symbol b)"
  unfolding byte_symbol_def using byte_code_bounds [of "unat b"] unsigned_less [of b] by (intro char_utf8_valid) auto

lemma byte_symbol_inj: "byte_symbol a = byte_symbol b \<Longrightarrow> a = b"
  unfolding byte_symbol_def using byte_code_bounds [of "unat a"] byte_code_bounds [of "unat b"] unsigned_less [of a] unsigned_less [of b]
  by (auto simp: word_unat_eq_iff dest!: char_utf8_inj byte_code_inj)

lemma foldl_upd_inj: "inj_on k (set xs) \<Longrightarrow> x \<in> set xs \<Longrightarrow> foldl (\<lambda>m b. m(k b \<mapsto> v b)) m xs (k x) = Some (v x)"
  by (induction xs rule: rev_induct) (auto simp: inj_on_def)

definition bp_ok :: "GgufBpeTokenizer \<Rightarrow> bool" where
  "bp_ok T \<longleftrightarrow> bp_vocab T = vocab_index (bp_id_to_tok T) \<and> length (bp_id_to_tok T) \<le> 2 ^ 32 \<and> bp_byte_encoder T = bytes_to_unicode"

lemma encoder_nth: "bp_ok T \<Longrightarrow> k < 256 \<Longrightarrow> bp_byte_encoder T ! k = byte_symbol (of_nat k)"
  by (simp add: bp_ok_def bytes_to_unicode_eq byte_symbol_def unat_of_nat_byte)

lemma bp_rev_symbol:
  assumes "bp_ok T"
  shows "bp_rev T (byte_symbol b) = Some b"
proof -
  have "inj_on (\<lambda>k. bp_byte_encoder T ! k) (set [0..<256])"
    using encoder_nth [OF assms] by (auto simp: inj_on_def dest!: byte_symbol_inj) (metis unat_of_nat_byte)
  moreover have b: "unat b < 256" using unsigned_less [of b] by simp
  ultimately have "bp_rev T (bp_byte_encoder T ! unat b) = Some (of_nat (unat b))"
    unfolding bp_rev_def by (intro foldl_upd_inj) simp_all
  then show ?thesis using encoder_nth [OF assms b] by simp
qed

subsection \<open>The tokens of a piece\<close>

definition token_bytes :: "GgufBpeTokenizer \<Rightarrow> u32 \<Rightarrow> bytes" where
  "token_bytes T t = (if unat t < length (bp_id_to_tok T)
     then (case utf8_chars (bp_id_to_tok T ! unat t) of Some cs \<Rightarrow> List.map_filter (bp_rev T) cs | None \<Rightarrow> []) else [])"

lemma bp_decode_eq: "bp_decode T ids = utf8_lossy [0xEF, 0xBF, 0xBD] (concat (map (token_bytes T) ids))"
proof -
  have "foldl (\<lambda>bs t. if unat t < length (bp_id_to_tok T)
     then (case utf8_chars (bp_id_to_tok T ! unat t) of Some cs \<Rightarrow> bs @ List.map_filter (bp_rev T) cs | None \<Rightarrow> bs)
     else bs) bs ids = bs @ concat (map (token_bytes T) ids)" for bs
    by (induction ids arbitrary: bs) (auto simp: token_bytes_def split: option.splits)
  then show ?thesis by (simp add: bp_decode_def)
qed

lemma token_bytes_symbol:
  assumes "bp_ok T" and "bp_vocab T (concat (map byte_symbol bs)) = Some t"
  shows "token_bytes T t = bs"
proof -
  have t: "unat t < length (bp_id_to_tok T)" "bp_id_to_tok T ! unat t = concat (map byte_symbol bs)"
    using assms vocab_index_Some [of "bp_id_to_tok T"] by (auto simp: bp_ok_def)
  have "utf8_chars (concat (map byte_symbol bs)) = Some (map byte_symbol bs)"
    using byte_symbol_valid by (intro utf8_chars_Some_concat) auto
  moreover have "List.map_filter (bp_rev T) (map byte_symbol bs) = bs"
    by (induction bs) (simp_all add: map_filter_simps bp_rev_symbol [OF assms(1)])
  ultimately show ?thesis using t by (simp add: token_bytes_def)
qed

lemma bpe_oks:
  assumes "bp_ok T"
  shows "oks (bpe T (map byte_symbol piece)) (\<lambda>xs. symbols_spell T piece xs \<and> best_ranked (bp_merge_rank T) xs = Ok None)"
proof -
  have "symbols_spell T piece (map byte_symbol piece)"
    unfolding symbols_spell_def bp_closed_def
    by (intro conjI exI [of _ "map (\<lambda>b. [b]) piece"]) (auto simp: list_all_iff comp_def concat_map_singleton)
  then show ?thesis unfolding bpe_def by (rule ranked.merge_loop_oks)
qed

lemma bp_piece_oks:
  assumes "bp_ok T"
  shows "oks (bp_piece T ids piece) (\<lambda>ids'. bp_closed T \<longrightarrow> concat (map (token_bytes T) ids') = concat (map (token_bytes T) ids) @ piece)"
proof -
  have "bp_byte_encoder T ! unat b = byte_symbol b \<and> unat b < length (bp_byte_encoder T)" for b
    using encoder_nth [OF assms, of "unat b"] byte_lt [of b] assms by (simp add: bp_ok_def bytes_to_unicode_eq)
  then have syms: "omapM (\<lambda>b. oget (bp_byte_encoder T) (unat b)) piece = (Ok (map byte_symbol piece) :: bytes list res)"
    by (intro omapM_Ok) simp
  have ids: "concat (map (token_bytes T) (foldl (\<lambda>ids sym. case bp_vocab T sym of Some ix \<Rightarrow> ids @ [ix] | None \<Rightarrow> ids) ids (map (\<lambda>bs. concat (map byte_symbol bs)) bss)))
      = concat (map (token_bytes T) ids) @ concat bss"
    if "list_all (\<lambda>bs. bp_vocab T (concat (map byte_symbol bs)) \<noteq> None) bss" for bss
    using that by (induction bss arbitrary: ids) (auto simp: token_bytes_symbol [OF assms])
  show ?thesis unfolding bp_piece_def prod.case syms obind.simps
  proof (rule oks_bind [OF bpe_oks [OF assms]])
    fix xs assume xs: "symbols_spell T piece xs \<and> best_ranked (bp_merge_rank T) xs = Ok None"
    then obtain bss where "xs = map (\<lambda>bs. concat (map byte_symbol bs)) bss" "concat bss = piece"
      "bp_closed T \<longrightarrow> list_all (\<lambda>bs. bp_vocab T (concat (map byte_symbol bs)) \<noteq> None) bss"
      by (auto simp: symbols_spell_def list_all_iff)
    then show "oks (Ok (foldl (\<lambda>ids sym. case bp_vocab T sym of Some ix \<Rightarrow> ids @ [ix] | None \<Rightarrow> ids) ids xs))
        (\<lambda>ids'. bp_closed T \<longrightarrow> concat (map (token_bytes T) ids') = concat (map (token_bytes T) ids) @ piece)"
      using ids by auto
  qed
qed

lemma bp_pieces_oks:
  assumes "bp_ok T"
  shows "oks (oloop (bp_piece T) pieces ids) (\<lambda>ids'. bp_closed T \<longrightarrow> concat (map (token_bytes T) ids') = concat (map (token_bytes T) ids) @ concat pieces)"
proof (induction pieces arbitrary: ids)
  case (Cons p ps)
  show ?case unfolding oloop.simps
    by (rule oks_bind [OF bp_piece_oks [OF assms]], rule oks_mono [OF Cons]) auto
qed simp

subsection \<open>A small vocabulary\<close>

text \<open>The 256 byte symbols, two letters merged, and their merge rule.\<close>

definition bp_demo_tokens :: "bytes list" where
  "bp_demo_tokens = map (\<lambda>k. byte_symbol (of_nat k)) [0..<256] @ [str ''ab'']"

definition bp_demo :: GgufBpeTokenizer where
  "bp_demo = \<lparr>bp_vocab = vocab_index bp_demo_tokens, bp_id_to_tok = bp_demo_tokens, bp_merge_rank = bp_merges [str ''a b''],
     bp_byte_encoder = bytes_to_unicode\<rparr>"

lemma bp_demo_ok: "bp_ok bp_demo"
  by (simp add: bp_ok_def bp_demo_def bp_demo_tokens_def)

lemma bp_demo_closed: "bp_closed bp_demo"
proof -
  have "byte_symbol b \<in> set bp_demo_tokens" for b
    using imageI [of "unat b" "{0..<256}" "\<lambda>k. byte_symbol (of_nat k)"] byte_lt [of b] by (simp add: bp_demo_tokens_def)
  moreover have "bp_merges [str ''a b''] = [(str ''a'', str ''b'') \<mapsto> 0]"
    by (auto simp: bp_merges_def byte_position_def or_insert_def str_def)
  moreover have "str ''a'' @ str ''b'' \<in> set bp_demo_tokens" by (simp add: bp_demo_tokens_def str_def)
  ultimately show ?thesis unfolding bp_closed_def using vocab_index_None [of bp_demo_tokens] by (auto simp: bp_demo_def)
qed

subsection \<open>Properties\<close>

text \<open>
  C29: on well-formed text in which the two bytes after every apostrophe are ASCII, the scanner
  ends without a panic, and its pieces are non-empty and concatenate to the text. A text that starts
  with an apostrophe and a multi-byte character, which is just as well-formed, panics: the
  contraction test cuts the string inside the character.
\<close>

theorem pretokenize_splits:
  assumes "utf8_ok inp" and "quotes_ascii inp" and "1 < length c" and "utf8_width c = length c"
  shows "oks (pretokenize inp) (\<lambda>ps. concat ps = inp \<and> [] \<notin> set ps) \<and> pretokenize (0x27 # c @ rest) = Panic"
proof (rule conjI)
  have "oks (pretokenize inp) (\<lambda>ps. True)" unfolding pretokenize_def by (intro pre_loop_safe assms(1,2)) (simp add: char_boundary_def)
  then show "oks (pretokenize inp) (\<lambda>ps. concat ps = inp \<and> [] \<notin> set ps)"
    using pre_loop_concat [of inp 0] by (auto simp: oks_def pretokenize_def)
  obtain x y zs where c: "c = x # y # zs" using assms(3) by (cases c; cases "tl c") auto
  then have "is_cont y" using char_bytes [of c] assms(4) by simp
  then have "contraction (0x27 # c @ rest) 0 = Panic" using c by (simp add: contraction_def str_slice_def char_boundary_def Let_def)
  then show "pretokenize (0x27 # c @ rest) = Panic" unfolding pretokenize_def by (subst pre_loop.simps) (simp add: pre_step_def Let_def)
qed

theorem pretokenize_splits_witness:
  "oks (pretokenize (str ''a b'')) (\<lambda>ps. concat ps = str ''a b'' \<and> [] \<notin> set ps) \<and> pretokenize (0x27 # [0xC3, 0xA9] @ str ''t'') = Panic"
proof (rule pretokenize_splits)
  show "utf8_ok (str ''a b'')" by (rule utf8_ok_ascii) (simp add: str_def)
qed (simp_all add: quotes_ascii_def str_def lead_width_def follow_ok_def is_cont_def)

text \<open>
  C30: with a vocabulary that holds the symbol of every byte and the result of every merge, encoding a
  well-formed text in which the two bytes after every apostrophe are ASCII gives tokens that decode to
  the text.
\<close>

theorem bpe_round_trip:
  assumes "bp_ok T" and "bp_closed T" and "utf8_ok inp" and "quotes_ascii inp"
  shows "oks (bp_encode T inp) (\<lambda>ids. bp_decode T ids = inp)"
proof -
  have "oks (pretokenize inp) (\<lambda>ps. concat ps = inp)"
    using pre_loop_safe [OF assms(3,4), of 0] pre_loop_concat [of inp 0] by (auto simp: oks_def pretokenize_def char_boundary_def)
  then show ?thesis unfolding bp_encode_def
  proof (rule oks_bind)
    fix ps assume "concat ps = inp"
    then show "oks (oloop (bp_piece T) ps []) (\<lambda>ids. bp_decode T ids = inp)"
      using assms(2,3) by (intro oks_mono [OF bp_pieces_oks [OF assms(1)]]) (simp add: bp_decode_eq utf8_lossy_ok)
  qed
qed

theorem bpe_round_trip_witness:
  "oks (bp_encode bp_demo [0x61, 0x62, 0x20, 0xC3, 0xA9]) (\<lambda>ids. bp_decode bp_demo ids = [0x61, 0x62, 0x20, 0xC3, 0xA9])"
proof (rule bpe_round_trip [OF bp_demo_ok bp_demo_closed])
  have "utf8_ok ([0x61, 0x62, 0x20] @ [0xC3, 0xA9])"
    by (intro utf8_ok_append utf8_ok_ascii utf8_ok_char) (simp_all add: lead_width_def follow_ok_def is_cont_def)
  then show "utf8_ok [0x61, 0x62, 0x20, 0xC3, 0xA9]" by simp
qed (simp add: quotes_ascii_def)

text \<open>
  C31: each merge round picks the adjacent pair of the lowest rank, the leftmost of these, and
  merging a piece ends, with its bytes kept, when no adjacent pair has a rank below the largest word.
\<close>

theorem bpe_lowest_rank_first:
  assumes "bp_ok T"
  shows "oks (best_ranked (bp_merge_rank T) xs) (\<lambda>r. \<forall>i m. r = Some (i, m) \<longrightarrow> Suc i < length xs \<and> m = xs ! i @ xs ! Suc i \<and>
      (\<exists>q. pair_rank (bp_merge_rank T) xs i = Some q \<and>
       (\<forall>j q'. Suc j < length xs \<and> pair_rank (bp_merge_rank T) xs j = Some q' \<longrightarrow> q \<le> q' \<and> (j < i \<longrightarrow> q < q')))) \<and>
    oks (bpe T (map byte_symbol piece)) (\<lambda>ys. concat ys = concat (map byte_symbol piece) \<and>
      (\<forall>j. Suc j < length ys \<longrightarrow> pair_rank (bp_merge_rank T) ys j \<in> {None, Some 0xFFFFFFFF}))"
proof (rule conjI)
  show "oks (best_ranked (bp_merge_rank T) xs) (\<lambda>r. \<forall>i m. r = Some (i, m) \<longrightarrow> Suc i < length xs \<and> m = xs ! i @ xs ! Suc i \<and>
      (\<exists>q. pair_rank (bp_merge_rank T) xs i = Some q \<and>
       (\<forall>j q'. Suc j < length xs \<and> pair_rank (bp_merge_rank T) xs j = Some q' \<longrightarrow> q \<le> q' \<and> (j < i \<longrightarrow> q < q'))))"
    by (rule oks_mono [OF best_ranked_oks]) auto
  show "oks (bpe T (map byte_symbol piece)) (\<lambda>ys. concat ys = concat (map byte_symbol piece) \<and>
      (\<forall>j. Suc j < length ys \<longrightarrow> pair_rank (bp_merge_rank T) ys j \<in> {None, Some 0xFFFFFFFF}))"
  proof (rule oks_mono [OF bpe_oks [OF assms]])
    fix ys assume ys: "symbols_spell T piece ys \<and> best_ranked (bp_merge_rank T) ys = Ok None"
    then have "\<forall>j. Suc j < length ys \<longrightarrow> pair_rank (bp_merge_rank T) ys j \<in> {None, Some 0xFFFFFFFF}"
      using best_ranked_oks [of "bp_merge_rank T" ys] by simp
    moreover have "concat (map (\<lambda>bs. concat (map byte_symbol bs)) bss) = concat (map byte_symbol (concat bss))" for bss
      by (induction bss) auto
    ultimately show "concat ys = concat (map byte_symbol piece) \<and> (\<forall>j. Suc j < length ys \<longrightarrow> pair_rank (bp_merge_rank T) ys j \<in> {None, Some 0xFFFFFFFF})"
      using ys by (auto simp: symbols_spell_def)
  qed
qed

theorem bpe_lowest_rank_first_witness:
  "oks (bpe bp_demo (map byte_symbol [0x61, 0x62])) (\<lambda>ys. concat ys = concat (map byte_symbol [0x61, 0x62]))"
  using bpe_lowest_rank_first [OF bp_demo_ok, of "[]" "[0x61, 0x62]"] by (auto elim!: oks_mono)

end
