(* ===== verification/GpuHost.thy ===== *)
theory GpuHost
  imports Inference
begin

text \<open>
  What the host side of the two GPU backends shares (\<open>src/cuda/src/lib.rs\<close>, \<open>src/metal/src/lib.rs\<close>): the
  embedding lookup and the rotation tables, which are computed on the host, and the driver. The
  backends take the place of the forward pass of \<open>Inference\<close>; \<open>gpu_forward\<close> is what a backend has to
  keep for a run to end as on the processor.
\<close>

subsection \<open>Host computations\<close>

text \<open>The derived debug text of a tensor type, which the backends match on.\<close>

fun gt_debug :: "GgufTensorType \<Rightarrow> string" where
  "gt_debug GT_F32 = ''F32''" | "gt_debug GT_F16 = ''F16''" | "gt_debug GT_Q4_0 = ''Q4_0''"
| "gt_debug GT_Q8_0 = ''Q8_0''" | "gt_debug GT_Q5_0 = ''Q5_0''" | "gt_debug GT_Q4_K = ''Q4_K''"
| "gt_debug GT_Q6_K = ''Q6_K''" | "gt_debug (GT_Other v) = ''Other('' @ dec_digits (unat v) @ '')''"

definition host_f32 :: "bytes \<Rightarrow> nat \<Rightarrow> f32 res" where
  "host_f32 b p = obind (oget b p) (\<lambda>b0. obind (oget b (wrap_add p 1)) (\<lambda>b1. obind (oget b (wrap_add p 2)) (\<lambda>b2.
     obind (oget b (wrap_add p 3)) (\<lambda>b3. Ok (le32 [b0, b1, b2, b3])))))"

definition embed_slice :: "bytes \<Rightarrow> nat \<Rightarrow> nat \<Rightarrow> bytes res" where
  "embed_slice b token rb = oslice b (wrap_mul token rb) (wrap_mul (token + 1) rb)"

text \<open>One row of the embedding table, \<open>None\<close> for a type outside the list.\<close>

definition host_row :: "bytes \<Rightarrow> string \<Rightarrow> nat \<Rightarrow> nat \<Rightarrow> f32 list res option" where
  "host_row b dt dm token =
     (if dt = ''F32'' then Some (let off = wrap_mul (wrap_mul token dm) 4 in omapM (\<lambda>i. host_f32 b (wrap_add off (i * 4))) [0..<dm])
      else if dt = ''Q4_0'' then Some (obind (embed_slice b token (wrap_mul (dm div 32) 18)) dequantize_q4_0)
      else if dt = ''Q8_0'' then Some (obind (embed_slice b token (wrap_mul (dm div 32) 34)) dequantize_q8_0)
      else if dt = ''Q5_0'' then Some (obind (embed_slice b token (wrap_mul (dm div 32) 22)) dequantize_q5_0)
      else if dt = ''Q4_K'' then Some (obind (embed_slice b token (wrap_mul (dm div 256) 144)) dequantize_q4_k)
      else if dt = ''Q6_K'' then Some (obind (embed_slice b token (wrap_mul (dm div 256) 210)) dequantize_q6_k)
      else None)"

text \<open>\<open>Result::expect\<close>.\<close>

fun expect :: "('e, 'a) outcome \<Rightarrow> 'a res" where
  "expect (Ok x) = Ok x"
| "expect (Err e) = Panic"
| "expect Panic = Panic"

text \<open>The cosines and sines of a position.\<close>

definition rope_cache :: "libm \<Rightarrow> f32 \<Rightarrow> nat \<Rightarrow> nat \<Rightarrow> f32 list \<times> f32 list" where
  "rope_cache lm theta hs pos =
     (let val = (\<lambda>j. let freq = f32_div f32_one (powf lm theta (f32_div (f32_of_nat (2 * j)) (f32_of_nat hs))) in f32_mul (f32_of_nat pos) freq) in
      (map (\<lambda>j. cosf lm (val j)) [0..<hs div 2], map (\<lambda>j. sinf lm (val j)) [0..<hs div 2]))"

subsection \<open>They are those of the processor\<close>

lemma rope_cache_angles: "rope_cache lm theta hs pos =
    (map (\<lambda>j. cosf lm (rope_angle lm theta hs pos (2 * j))) [0..<hs div 2], map (\<lambda>j. sinf lm (rope_angle lm theta hs pos (2 * j))) [0..<hs div 2])"
  by (simp add: rope_cache_def rope_angle_def Let_def)

lemma embed_slice_table:
  assumes "dm mod block = 0" and "row < n" and "n * (dm div block) * nb \<le> length bs" and "length bs \<le> usize_max"
  shows "obind (embed_slice bs row (wrap_mul (dm div block) nb)) dec = table_row bad past dec block nb bs row dm"
proof -
  let ?k = "dm div block"
  have le: "row * (?k * nb) + ?k * nb \<le> length bs"
    using row_bound_le [OF assms(2), of "?k * nb"] assms(3) by (simp add: mult.assoc)
  then have k: "wrap_mul ?k nb = ?k * nb" using assms(4) by (intro wrap_mul_small) simp
  have a: "wrap_mul row (?k * nb) = row * (?k * nb)" "wrap_mul (row + 1) (?k * nb) = row * (?k * nb) + ?k * nb"
    using le assms(4) by (simp_all add: wrap_mul_def usize_max_def)
  have b: "wrap_mul (wrap_mul row ?k) nb = row * (?k * nb)"
    using le assms(4) by (intro wrap_mul_fits(2)) (simp_all add: mult.assoc)
  show ?thesis unfolding embed_slice_def table_row_def k a b Let_def using le assms(1,4) by (simp add: not_less)
qed

lemma host_f32_word:
  assumes "4 * i + 4 \<le> length b" and "length b \<le> usize_max"
  shows "host_f32 b (4 * i) = Ok (le32 (slice b (4 * i) (4 * i + 4)))"
proof -
  have "slice b (4 * i) (4 * i + 4) = [b ! (4 * i), b ! (4 * i + 1), b ! (4 * i + 2), b ! (4 * i + 3)]"
    using assms(1) by (intro nth_equalityI) (auto simp: less_Suc_eq numeral_eq_Suc)
  moreover have "wrap_add (4 * i) k = 4 * i + k" if "k < 4" for k using assms that by (intro wrap_add_small) simp
  ultimately show ?thesis using assms(1) by (simp add: host_f32_def oget_ok)
qed

text \<open>For a table of the right size the host decodes the row that the processor decodes.\<close>

lemma host_row_eq:
  assumes "linear_ok base te dm n" and "row < n" and "dm \<le> usize_max"
  shows "host_row (qt_bytes te) (gt_debug (qt_dtype te)) dm row = Some (embedding_row base te row dm)"
proof -
  note L = assms(1) [unfolded linear_ok_def Let_def]
  show ?thesis
  proof (cases "qt_dtype te")
    case GT_F32
    then have *: "length (qt_bytes te) = n * dm * 4" "(base + qt_start te) mod 4 = 0" "length (qt_bytes te) \<le> usize_max" using L by auto
    have r: "(row + 1) * dm * 4 \<le> n * dm * 4" using assms(2) by (intro mult_le_mono1) simp
    have w: "wrap_mul (wrap_mul (row + 1) dm) 4 = (row + 1) * dm * 4" "wrap_mul (wrap_mul row dm) 4 = row * dm * 4"
      using r * by (intro wrap_mul_fits(2); auto)+
    have d: "wrap_mul row dm = row * dm" "wrap_mul (row + 1) dm = (row + 1) * dm"
      using r * by (intro wrap_mul_small; simp)+
    have "omapM (\<lambda>i. host_f32 (qt_bytes te) (wrap_add (row * dm * 4) (i * 4))) [0..<dm] = Ok (map (\<lambda>i. words_of (qt_bytes te) ! (row * dm + i)) [0..<dm])"
    proof (rule omapM_Ok)
      fix i assume "i \<in> set [0..<dm]"
      then have i: "4 * (row * dm + i) + 4 \<le> length (qt_bytes te)" using r * by simp
      have e: "wrap_add (row * dm * 4) (i * 4) = 4 * (row * dm + i)" using i * by (subst wrap_add_small) simp_all
      show "host_f32 (qt_bytes te) (wrap_add (row * dm * 4) (i * 4)) = Ok (words_of (qt_bytes te) ! (row * dm + i))"
        unfolding e using host_f32_word [OF i] i * by (simp add: words_of_def)
    qed
    moreover have "slice (words_of (qt_bytes te)) (row * dm) ((row + 1) * dm) = map (\<lambda>i. words_of (qt_bytes te) ! (row * dm + i)) [0..<dm]"
      using r * by (subst slice_conv_nth) (simp_all add: words_of_def)
    moreover have "(row + 1) * dm \<le> length (words_of (qt_bytes te))" using r * by (simp add: words_of_def)
    ultimately show ?thesis
      unfolding host_row_def embedding_row_def Let_def GT_F32 gt_debug.simps GgufTensorType.case w unfolding d using * r
      by (auto simp add: f32_view_def not_less simp del: mult_Suc)
  qed (use L assms(2) in \<open>auto simp: host_row_def embedding_row_def q4k_good_def q6k_good_def q4k_row_bytes_def q6k_row_bytes_def block_consts mult.assoc
        simp del: wrap_mul_small intro!: embed_slice_table\<close>)
qed

subsection \<open>A step from an embedded token\<close>

text \<open>The decode step of the processor, from the embedded row on; nobody observes.\<close>

definition row_step :: "libm \<Rightarrow> (bytes \<Rightarrow> bytes) \<Rightarrow> Target \<Rightarrow> nat \<Rightarrow> Config \<Rightarrow> QuantizedWeights \<Rightarrow> RunState \<Rightarrow> f32 list \<Rightarrow> nat \<Rightarrow> (tensor \<times> RunState) res" where
  "row_step lm H tg base cfg w st emb pos =
     obind (kv_dim cfg) (\<lambda>kvd. obind (kv_mul cfg) (\<lambda>kvm. obind (head_size cfg) (\<lambda>hs.
     let e = \<lparr>qe_lm = lm, qe_hash = H, qe_target = tg, qe_base = base, qe_cfg = cfg, qe_weights = w, qe_plan = None, qe_pos = pos,
              qe_kvd = kvd, qe_kvm = kvm, qe_hs = hs, qe_regime = rs_regime st\<rparr> in
     obind (slice_to_tensor emb [c_dim cfg]) (\<lambda>x.
     obind (oloop (q_layer e) [0..<c_n_layers cfg] (x, st, no_observers)) (\<lambda>(x, st, ob).
     omap (\<lambda>(logits, ob). (logits, st)) (q_lm_head e x ob))))))"

lemma unseen_checkpoint: "residual_checkpoint H None tok l cp n x no_observers = Ok (x, no_observers)"
  by (simp add: residual_checkpoint_def plan_override_def when_seen_def no_observers_def)

lemma q_step_row:
  assumes "heads_ok cfg" and "sizes_ok cfg"
  shows "q_step lm H tg base cfg w st token pos =
    obind (embedding_row base (q_token_embedding_table w) (unat token) (c_dim cfg)) (\<lambda>emb. row_step lm H tg base cfg w st emb pos)"
proof -
  have "no_observers\<lparr>ob_ops := None\<rparr> = no_observers" by (simp add: no_observers_def)
  then show ?thesis
    by (simp add: q_step_def step_with_recorder_def step_with_recorders_def row_step_def step_dims [OF assms] unseen_checkpoint Let_def
        split_def omap_bind omap_twice)
qed

subsection \<open>Backends that follow the processor\<close>

text \<open>
  A backend follows the processor when, in related states, it returns the logits of every step that
  the processor completes, up to the length of its cache.
\<close>

locale gpu_forward = forward_pass forward cfg good
  for forward :: "u32 \<Rightarrow> nat \<Rightarrow> 'k \<Rightarrow> (tensor \<times> 'k) res" and cfg :: Config and good :: "'k \<Rightarrow> bool" +
  fixes gpu :: "u32 \<Rightarrow> nat \<Rightarrow> 'd \<Rightarrow> (tensor \<times> 'd) res" and related :: "'k \<Rightarrow> 'd \<Rightarrow> bool" and max_seq :: nat
  assumes follows: "good k \<Longrightarrow> related k d \<Longrightarrow> unat token < c_vocab_size cfg \<Longrightarrow> pos < max_seq \<Longrightarrow> pos < c_seq_len cfg \<Longrightarrow>
      forward token pos k = Ok (logits, k') \<Longrightarrow> \<exists>d'. gpu token pos d = Ok (logits, d') \<and> related k' d'"
begin

lemma decode_pos_same:
  assumes "good k" and "related k d" and "unat cur < c_vocab_size cfg" and "pos < max_seq" and "pos < c_seq_len cfg"
    and "\<forall>t\<in>set prompt. unat t < c_vocab_size cfg"
  shows "\<exists>k' d' u g'. decode_pos forward prompt (k, cur, g) pos = Ok (k', u, g') \<and> decode_pos gpu prompt (d, cur, g) pos = Ok (d', u, g') \<and>
    good k' \<and> related k' d' \<and> unat u < c_vocab_size cfg"
proof -
  obtain l k' where f: "forward cur pos k = Ok (l, k')" "good k'" and p: "oks (pick l) (\<lambda>t. unat t < c_vocab_size cfg)"
    using forward_pick [OF assms(1,3,5)] by (auto simp: oks_def)
  obtain t where t: "pick l = Ok t" "unat t < c_vocab_size cfg" using p by (auto simp: oks_def)
  obtain d' where d: "gpu cur pos d = Ok (l, d')" "related k' d'" using follows [OF assms(1-5) f(1)] by blast
  show ?thesis
    using f d t assms(6) by (cases "pos + 1 < length prompt") (auto simp: decode_pos_def oget_ok)
qed

text \<open>So a run that fits the cache generates the same tokens on both.\<close>

lemma generate_same:
  assumes "good k" and "related k d" and "request_ok cfg req" and "length (rq_prompt_tokens req) + rq_n_new_tokens req \<le> max_seq"
  shows "generate gpu cfg req d = generate forward cfg req k"
proof -
  let ?p = "rq_prompt_tokens req" and ?n = "rq_n_new_tokens req"
  have req: "?p \<noteq> []" "\<forall>t\<in>set ?p. unat t < c_vocab_size cfg" "length ?p + ?n \<le> c_seq_len cfg" "c_seq_len cfg \<le> usize_max"
    using assms(3) by (auto simp: request_ok_def)
  have total: "check_request cfg req = Ok (length ?p + ?n)" using req by (simp add: check_request_def)
  have loop: "m \<le> length ?p + ?n \<Longrightarrow> \<exists>k' d' u g. oloop (decode_pos forward ?p) [0..<m] (k, ?p ! 0, []) = Ok (k', u, g) \<and>
      oloop (decode_pos gpu ?p) [0..<m] (d, ?p ! 0, []) = Ok (d', u, g) \<and> good k' \<and> related k' d' \<and> unat u < c_vocab_size cfg" for m
  proof (induction m)
    case 0
    then show ?case using assms(1,2) req(1,2) by (auto simp: neq_Nil_conv)
  next
    case (Suc m)
    then obtain k' d' u g where IH: "oloop (decode_pos forward ?p) [0..<m] (k, ?p ! 0, []) = Ok (k', u, g)"
      "oloop (decode_pos gpu ?p) [0..<m] (d, ?p ! 0, []) = Ok (d', u, g)" "good k'" "related k' d'" "unat u < c_vocab_size cfg" by auto
    obtain k'' d'' v h where "decode_pos forward ?p (k', u, g) m = Ok (k'', v, h)" "decode_pos gpu ?p (d', u, g) m = Ok (d'', v, h)"
      "good k''" "related k'' d''" "unat v < c_vocab_size cfg"
      using decode_pos_same [OF IH(3-5) _ _ req(2), of m g] Suc.prems assms(4) req(3) by auto
    then show ?case using IH by (simp add: oloop_append oloop_Nil_fun)
  qed
  obtain k' d' u g where "oloop (decode_pos forward ?p) [0..<length ?p + ?n] (k, ?p ! 0, []) = Ok (k', u, g)"
    "oloop (decode_pos gpu ?p) [0..<length ?p + ?n] (d, ?p ! 0, []) = Ok (d', u, g)" using loop [OF order_refl] by blast
  then show ?thesis using total req(1) by (simp add: generate_def oget_ok)
qed

text \<open>And with a prefill that leaves what feeding the prompt leaves.\<close>

lemma feed_prompt_good:
  assumes "good k" and "ts \<noteq> []" and "\<forall>t\<in>set ts. unat t < c_vocab_size cfg" and "pos + length ts \<le> c_seq_len cfg"
  shows "oks (feed_prompt forward pos ts k) (\<lambda>(l, k'). oks (pick l) (\<lambda>t. unat t < c_vocab_size cfg) \<and> good k')"
  using assms
proof (induction ts arbitrary: pos k)
  case (Cons t ts)
  have f: "oks (forward t pos k) (\<lambda>(l, k'). oks (pick l) (\<lambda>t. unat t < c_vocab_size cfg) \<and> good k')"
    using Cons.prems by (intro forward_pick) auto
  show ?case
  proof (cases ts)
    case (Cons u us)
    have "oks (feed_prompt forward (Suc pos) ts k') (\<lambda>(l, k'). oks (pick l) (\<lambda>t. unat t < c_vocab_size cfg) \<and> good k')" if "good k'" for k'
      using that Cons Cons.prems by (intro Cons.IH) auto
    then show ?thesis unfolding Cons feed_prompt.simps using Cons by (auto intro!: oks_bind [OF f])
  qed (use f in simp)
qed simp

lemma decode_new_same:
  assumes "good k" and "related k d" and "unat cur < c_vocab_size cfg" and "len + i < max_seq" and "len + i < c_seq_len cfg"
  shows "\<exists>k' d' u. decode_new forward len (k, cur, g) i = Ok (k', u, g @ [u]) \<and> decode_new gpu len (d, cur, g) i = Ok (d', u, g @ [u]) \<and>
    good k' \<and> related k' d' \<and> unat u < c_vocab_size cfg"
proof -
  obtain l k' where f: "forward cur (len + i) k = Ok (l, k')" "good k'" and p: "oks (pick l) (\<lambda>t. unat t < c_vocab_size cfg)"
    using forward_pick [OF assms(1,3,5)] by (auto simp: oks_def)
  obtain t where t: "pick l = Ok t" "unat t < c_vocab_size cfg" using p by (auto simp: oks_def)
  obtain d' where "gpu cur (len + i) d = Ok (l, d')" "related k' d'" using follows [OF assms(1-5) f(1)] by blast
  then show ?thesis using f t by (auto simp: decode_new_def)
qed

lemma generate_prefilled_same:
  assumes "good k" and "request_ok cfg req" and "length (rq_prompt_tokens req) + rq_n_new_tokens req \<le> max_seq"
    and "\<And>l k'. feed_prompt forward 0 (rq_prompt_tokens req) k = Ok (l, k') \<Longrightarrow> \<exists>d'. prefill (rq_prompt_tokens req) d = Ok (l, d') \<and> related k' d'"
  shows "generate_prefilled prefill gpu cfg req d = generate_prefilled (feed_prompt forward 0) forward cfg req k"
proof -
  let ?p = "rq_prompt_tokens req" and ?n = "rq_n_new_tokens req"
  have req: "?p \<noteq> []" "\<forall>t\<in>set ?p. unat t < c_vocab_size cfg" "length ?p + ?n \<le> c_seq_len cfg" "c_seq_len cfg \<le> usize_max"
    using assms(2) by (auto simp: request_ok_def)
  have total: "check_request cfg req = Ok (length ?p + ?n)" using req by (simp add: check_request_def)
  obtain l k1 where l: "feed_prompt forward 0 ?p k = Ok (l, k1)" "good k1" and p: "oks (pick l) (\<lambda>t. unat t < c_vocab_size cfg)"
    using feed_prompt_good [OF assms(1) req(1,2), of 0] req(3) by (auto simp: oks_def)
  obtain t where t: "pick l = Ok t" "unat t < c_vocab_size cfg" using p by (auto simp: oks_def)
  obtain d1 where d1: "prefill ?p d = Ok (l, d1)" "related k1 d1" using assms(4) [OF l(1)] by blast
  have loop: "m \<le> ?n \<Longrightarrow> \<exists>k' d' u g. oloop (decode_new forward (length ?p)) [0..<m] (k1, t, []) = Ok (k', u, g) \<and>
      oloop (decode_new gpu (length ?p)) [0..<m] (d1, t, []) = Ok (d', u, g) \<and> good k' \<and> related k' d' \<and> unat u < c_vocab_size cfg" for m
  proof (induction m)
    case 0
    then show ?case using l(2) d1(2) t(2) by auto
  next
    case (Suc m)
    then obtain k' d' u g where IH: "oloop (decode_new forward (length ?p)) [0..<m] (k1, t, []) = Ok (k', u, g)"
      "oloop (decode_new gpu (length ?p)) [0..<m] (d1, t, []) = Ok (d', u, g)" "good k'" "related k' d'" "unat u < c_vocab_size cfg" by auto
    then show ?case using decode_new_same [OF IH(3-5), of "length ?p" m g] Suc.prems assms(3) req(3)
      by (auto simp: oloop_append oloop_Nil_fun)
  qed
  obtain k' d' u g where "oloop (decode_new forward (length ?p)) [0..<?n] (k1, t, []) = Ok (k', u, g)"
    "oloop (decode_new gpu (length ?p)) [0..<?n] (d1, t, []) = Ok (d', u, g)" using loop [OF order_refl] by blast
  then show ?thesis using total l t d1 by (simp add: generate_prefilled_def)
qed

lemma feed_prompt_follows:
  assumes "good k" and "related k d" and "\<forall>t\<in>set ts. unat t < c_vocab_size cfg" and "pos + length ts \<le> max_seq"
    and "pos + length ts \<le> c_seq_len cfg" and "feed_prompt forward pos ts k = Ok (l, k')"
  shows "\<exists>d'. feed_prompt gpu pos ts d = Ok (l, d') \<and> related k' d'"
  using assms
proof (induction ts arbitrary: pos k d)
  case (Cons t ts)
  show ?case
  proof (cases ts)
    case Nil
    then show ?thesis using Cons.prems follows [of k d t pos l k'] by simp
  next
    case (Cons u us)
    obtain l1 k1 where f: "forward t pos k = Ok (l1, k1)" "good k1"
      using forward_pick [of k t pos] Cons.prems by (auto simp: oks_def)
    obtain d1 where "gpu t pos d = Ok (l1, d1)" "related k1 d1" using follows [of k d t pos, OF _ _ _ _ _ f(1)] Cons.prems by auto
    then show ?thesis using Cons.IH [of k1 d1 "Suc pos"] Cons.prems f Cons by simp
  qed
qed simp

end

text \<open>A forward pass that panics where it is not used: it is followed by what the pass returns.\<close>

definition guarded :: "('k \<Rightarrow> bool) \<Rightarrow> Config \<Rightarrow> (u32 \<Rightarrow> nat \<Rightarrow> 'k \<Rightarrow> (tensor \<times> 'k) res) \<Rightarrow> u32 \<Rightarrow> nat \<Rightarrow> 'k \<Rightarrow> (tensor \<times> 'k) res" where
  "guarded good cfg forward token pos k =
     (if good k \<and> unat token < c_vocab_size cfg \<and> pos < c_seq_len cfg then forward token pos k else Panic)"

context forward_pass
begin

lemma guarded_follows: "gpu_forward forward cfg good (guarded good cfg forward) (=) (c_seq_len cfg)"
  by unfold_locales (simp add: guarded_def)

lemma guarded_pick: "guarded good cfg forward t p k = Ok (l, k') \<Longrightarrow> \<exists>u. pick l = Ok u"
  using forward_pick [of k t p] by (auto simp: guarded_def oks_def split: if_splits)

text \<open>Feeding the prompt first and then generating is generating.\<close>

lemma prefilled_same:
  assumes "good k" and "request_ok cfg req" and "length (rq_prompt_tokens req) * 4 < 2 ^ 63"
  shows "generate_prefilled (feed_prompt forward 0) forward cfg req k = generate forward cfg req k"
proof -
  let ?g = "guarded good cfg forward" and ?p = "rq_prompt_tokens req"
  note req = assms(2) [unfolded request_ok_def]
  have "\<exists>d'. feed_prompt ?g 0 ?p k = Ok (l, d') \<and> k' = d'" if "feed_prompt forward 0 ?p k = Ok (l, k')" for l k'
    by (rule gpu_forward.feed_prompt_follows [OF guarded_follows assms(1) refl _ _ _ that]) (use req in auto)
  then have "generate_prefilled (feed_prompt ?g 0) ?g cfg req k = generate_prefilled (feed_prompt forward 0) forward cfg req k"
    by (intro gpu_forward.generate_prefilled_same [OF guarded_follows]) (use assms(1,2) req in auto)
  moreover have "generate_prefilled (feed_prompt ?g 0) ?g cfg req k = generate ?g cfg req k"
    by (rule generate_prefilled_eq [OF guarded_pick]) (use assms(3) req in auto)
  moreover have "generate ?g cfg req k = generate forward cfg req k"
    by (rule gpu_forward.generate_same [OF guarded_follows]) (use assms(1,2) req in auto)
  ultimately show ?thesis by simp
qed

end

subsection \<open>Runs on the processor\<close>

text \<open>What the processor returns in either regime.\<close>

definition cpu_run :: "libm \<Rightarrow> (bytes \<Rightarrow> bytes) \<Rightarrow> Target \<Rightarrow> nat \<Rightarrow> Config \<Rightarrow> QuantizedWeights \<Rightarrow> bytes \<Rightarrow> Request \<Rightarrow> u8 \<Rightarrow> Outcome res" where
  "cpu_run lm H tg base cfg w wh req regime = obind (run_state_new cfg) (\<lambda>rs.
     omap (run_outcome H cfg wh req) (generate (\<lambda>cur pos rs. q_step lm H tg base cfg w rs cur pos) cfg req (set_regime regime rs)))"

lemma cpu_run_2: "heads_ok cfg \<Longrightarrow> sizes_ok cfg \<Longrightarrow> cpu_run lm H tg base cfg w wh req 2 = run_quantized lm H tg base cfg w wh req"
proof -
  assume M: "heads_ok cfg" "sizes_ok cfg"
  have "set_regime 2 rs = rs" if "rs_regime rs = 2" for rs using that by (cases rs) (simp add: set_regime_def)
  then show ?thesis using run_state_new_oks [OF M] by (auto simp: cpu_run_def run_quantized_eq oks_def)
qed

lemma cpu_run_3: "cpu_run lm H tg base cfg w wh req 3 = run_quantized_regime3 lm H tg base cfg w wh req"
  by (simp add: cpu_run_def run_quantized_regime3_eq)

subsection \<open>A small model\<close>

lemma model_sizes: "q_model_ok base cfg w \<Longrightarrow> heads_ok cfg \<and> sizes_ok cfg \<and> c_dim cfg \<le> usize_max \<and>
    linear_ok base (q_token_embedding_table w) (c_dim cfg) (c_vocab_size cfg)"
proof -
  assume M: "q_model_ok base cfg w"
  then have "c_dim cfg * c_dim cfg \<le> usize_max" by (simp add: q_model_ok_def sizes_ok_def Let_def)
  then have "c_dim cfg \<le> usize_max" by (meson le_trans le_square)
  then show ?thesis using M by (simp add: q_model_ok_def)
qed

text \<open>A model of one layer that loads: all matrices \<open>Q8_0\<close>, tied embedding.\<close>

definition q8_cfg :: Config where
  "q8_cfg = \<lparr>c_dim = 32, c_hidden_dim = 32, c_n_layers = 1, c_n_heads = 1, c_n_kv_heads = 1, c_vocab_size = 2, c_seq_len = 2,
     c_shared_weights = True\<rparr>"

definition q8_tensor :: "nat \<Rightarrow> QuantTensor" where
  "q8_tensor rows = \<lparr>qt_shape = [], qt_dtype = GT_Q8_0, qt_start = 0, qt_bytes = replicate (rows * 34) 0\<rparr>"

definition q8_model :: QuantizedWeights where
  "q8_model = (let m = q8_tensor 32; ones = replicate 32 f32_one in
     \<lparr>q_token_embedding_table = q8_tensor 2, q_layers = [\<lparr>l_rms_att_weight = ones, l_wq = m, l_wk = m, l_wv = m, l_wo = m,
        l_rms_ffn_weight = ones, l_w1 = m, l_w2 = m, l_w3 = m, l_bq = None, l_bk = None, l_bv = None\<rparr>],
      q_rms_final_weight = ones, q_wcls = None, q_rope_theta = f32_10000, q_rms_eps = f32_1e_5, q_rope_neox = False\<rparr>)"

lemma q8_model_ok: "q_model_ok 0 q8_cfg q8_model"
  by (simp add: q_model_ok_def heads_ok_def sizes_ok_def layer_ok_def linear_ok_def cache_size_def kvd_of_def hs_of_def
      q8_cfg_def q8_model_def q8_tensor_def usize_max_def Let_def)

definition q8_request :: Request where
  "q8_request = \<lparr>rq_model_id = [], rq_prompt_tokens = [1], rq_n_new_tokens = 1\<rparr>"

end
