(* ===== verification/Cuda.thy ===== *)
theory Cuda
  imports GpuHost
begin

text \<open>
  The CUDA backend, \<open>src/cuda/src/lib.rs\<close>: uploading a model, the decode step, the batched prefill and
  the four drivers. The device functions behind the foreign interface are CUDA C++ and driver calls:
  they are the record \<open>CudaDevice\<close>, a parameter, over a device state that the code holds by its handle.
\<close>

subsection \<open>The foreign interface\<close>

record VtCfg =
  vc_dim :: u32
  vc_hidden :: u32
  vc_n_layers :: u32
  vc_n_heads :: u32
  vc_head_size :: u32
  vc_kv_dim :: u32
  vc_kv_mul :: u32
  vc_vocab :: u32
  vc_max_seq :: u32
  vc_rope_neox :: u32
  vc_regime :: u32
  vc_rms_eps :: f32
  vc_rope_theta :: f32

text \<open>The arguments of \<open>vt_cuda_set_layer\<close>: bytes and kind of each matrix, a null pointer for no bias.\<close>

record CudaLayer =
  cl_rms_att :: "f32 list"
  cl_rms_ffn :: "f32 list"
  cl_wq :: "bytes \<times> u32"
  cl_wk :: "bytes \<times> u32"
  cl_wv :: "bytes \<times> u32"
  cl_wo :: "bytes \<times> u32"
  cl_w1 :: "bytes \<times> u32"
  cl_w2 :: "bytes \<times> u32"
  cl_w3 :: "bytes \<times> u32"
  cl_bq :: "f32 list option"
  cl_bk :: "f32 list option"
  cl_bv :: "f32 list option"

text \<open>Every call returns the new device state, with its return code and the buffer it fills, if any.\<close>

record 'd CudaDevice =
  vt_new :: "VtCfg \<Rightarrow> 'd option"
  vt_set_wcls :: "bytes \<Rightarrow> u32 \<Rightarrow> 'd \<Rightarrow> 'd"
  vt_set_rms_final :: "f32 list \<Rightarrow> 'd \<Rightarrow> 'd"
  vt_set_layer :: "u32 \<Rightarrow> CudaLayer \<Rightarrow> 'd \<Rightarrow> 'd"
  vt_finalize :: "'d \<Rightarrow> u32 \<times> 'd"
  vt_reset :: "'d \<Rightarrow> 'd"
  vt_step :: "f32 list \<Rightarrow> u32 \<Rightarrow> f32 list \<Rightarrow> f32 list \<Rightarrow> f32 list \<Rightarrow> 'd \<Rightarrow> u32 \<times> f32 list \<times> 'd"
  vt_prefill :: "f32 list \<Rightarrow> u32 \<Rightarrow> f32 list \<Rightarrow> f32 list \<Rightarrow> f32 list \<Rightarrow> 'd \<Rightarrow> u32 \<times> f32 list \<times> 'd"

datatype CudaError = CeAlloc string | CeUnsupported string | CeDevice u32 | CeEngine error

type_synonym 'a cuda_res = "(CudaError, 'a) outcome"

subsection \<open>Loading a model\<close>

definition cuda_kind :: "QuantTensor \<Rightarrow> string \<Rightarrow> u32 cuda_res" where
  "cuda_kind t name = (let dt = gt_debug (qt_dtype t) in
     if dt = ''Q4_K'' then Ok 0 else if dt = ''Q6_K'' then Ok 1 else if dt = ''Q8_0'' then Ok 2 else if dt = ''Q5_0'' then Ok 3
     else Err (CeUnsupported (name @ '' is '' @ dt @ ''; only Q4_K/Q6_K/Q8_0/Q5_0 are ported'')))"

definition cuda_weight :: "QuantTensor \<Rightarrow> string \<Rightarrow> (bytes \<times> u32) cuda_res" where
  "cuda_weight t name = omap (\<lambda>k. (qt_bytes t, k)) (cuda_kind t name)"

definition cuda_layer :: "QuantLayer \<Rightarrow> CudaLayer cuda_res" where
  "cuda_layer l =
     obind (cuda_weight (l_wq l) ''wq'') (\<lambda>wq. obind (cuda_weight (l_wk l) ''wk'') (\<lambda>wk. obind (cuda_weight (l_wv l) ''wv'') (\<lambda>wv.
     obind (cuda_weight (l_wo l) ''wo'') (\<lambda>wo. obind (cuda_weight (l_w1 l) ''w1'') (\<lambda>w1. obind (cuda_weight (l_w2 l) ''w2'') (\<lambda>w2.
     obind (cuda_weight (l_w3 l) ''w3'') (\<lambda>w3.
     Ok \<lparr>cl_rms_att = l_rms_att_weight l, cl_rms_ffn = l_rms_ffn_weight l, cl_wq = wq, cl_wk = wk, cl_wv = wv, cl_wo = wo,
         cl_w1 = w1, cl_w2 = w2, cl_w3 = w3, cl_bq = l_bq l, cl_bk = l_bk l, cl_bv = l_bv l\<rparr>)))))))"

record 'd CudaForward =
  cf_h :: 'd
  cf_head_size :: nat
  cf_rope_theta :: f32
  cf_vocab :: nat
  cf_dim :: nat
  cf_embed_bytes :: bytes
  cf_embed_dtype :: string
  cf_cos :: "f32 list"
  cf_sin :: "f32 list"

text \<open>The cache length: \<open>env\<close> is what the environment variable parses to, if it is set.\<close>

definition cuda_max_seq :: "nat option \<Rightarrow> Config \<Rightarrow> nat" where
  "cuda_max_seq env cfg = min (c_seq_len cfg) (case env of Some n \<Rightarrow> n | None \<Rightarrow> 4096)"

definition vt_cfg :: "nat option \<Rightarrow> Config \<Rightarrow> QuantizedWeights \<Rightarrow> u32 \<Rightarrow> nat \<Rightarrow> nat \<Rightarrow> nat \<Rightarrow> VtCfg" where
  "vt_cfg env cfg w regime hs kvd kvm =
     \<lparr>vc_dim = of_nat (c_dim cfg), vc_hidden = of_nat (c_hidden_dim cfg), vc_n_layers = of_nat (c_n_layers cfg),
      vc_n_heads = of_nat (c_n_heads cfg), vc_head_size = of_nat hs, vc_kv_dim = of_nat kvd, vc_kv_mul = of_nat kvm,
      vc_vocab = of_nat (c_vocab_size cfg), vc_max_seq = of_nat (cuda_max_seq env cfg),
      vc_rope_neox = (if q_rope_neox w then 1 else 0), vc_regime = regime, vc_rms_eps = q_rms_eps w, vc_rope_theta = q_rope_theta w\<rparr>"

definition cuda_upload :: "'d CudaDevice \<Rightarrow> QuantizedWeights \<Rightarrow> 'd \<Rightarrow> 'd cuda_res" where
  "cuda_upload D w d =
     obind (case q_wcls w of Some c \<Rightarrow> cuda_weight c ''output'' | None \<Rightarrow> cuda_weight (q_token_embedding_table w) ''tied-embedding'') (\<lambda>(b, k).
     let d = vt_set_rms_final D (q_rms_final_weight w) (vt_set_wcls D b k d) in
     obind (oloop (\<lambda>d (i, l). omap (\<lambda>cl. vt_set_layer D (of_nat i) cl d) (cuda_layer l)) (enumerate 0 (q_layers w)) d) (\<lambda>d.
     let (rc, d) = vt_finalize D d in
     if rc \<noteq> 0 then Err (CeAlloc ''weight upload / scratch allocation (out of GPU memory?)'') else Ok d))"

definition cuda_new_regime :: "'d CudaDevice \<Rightarrow> nat option \<Rightarrow> Config \<Rightarrow> QuantizedWeights \<Rightarrow> u32 \<Rightarrow> 'd CudaForward cuda_res" where
  "cuda_new_regime D env cfg w regime =
     obind (omap_err CeEngine (head_size cfg)) (\<lambda>hs. obind (omap_err CeEngine (kv_dim cfg)) (\<lambda>kvd. obind (omap_err CeEngine (kv_mul cfg)) (\<lambda>kvm.
     case vt_new D (vt_cfg env cfg w regime hs kvd kvm) of
       None \<Rightarrow> Err (CeAlloc ''vt_cuda_new'')
     | Some d \<Rightarrow> omap (\<lambda>d. \<lparr>cf_h = d, cf_head_size = hs, cf_rope_theta = q_rope_theta w, cf_vocab = c_vocab_size cfg, cf_dim = c_dim cfg,
           cf_embed_bytes = qt_bytes (q_token_embedding_table w), cf_embed_dtype = gt_debug (qt_dtype (q_token_embedding_table w)),
           cf_cos = replicate (hs div 2) 0, cf_sin = replicate (hs div 2) 0\<rparr>) (cuda_upload D w d))))"

subsection \<open>Steps\<close>

definition cuda_embed_row :: "'d CudaForward \<Rightarrow> nat \<Rightarrow> f32 list cuda_res" where
  "cuda_embed_row cf token = (case host_row (cf_embed_bytes cf) (cf_embed_dtype cf) (cf_dim cf) token of
     Some m \<Rightarrow> omap_err CeEngine m
   | None \<Rightarrow> Err (CeUnsupported (''embedding dtype '' @ cf_embed_dtype cf)))"

definition cuda_reset :: "'d CudaDevice \<Rightarrow> 'd CudaForward \<Rightarrow> 'd CudaForward" where
  "cuda_reset D cf = cf\<lparr>cf_h := vt_reset D (cf_h cf)\<rparr>"

definition cuda_rope_cache :: "libm \<Rightarrow> 'd CudaForward \<Rightarrow> nat \<Rightarrow> 'd CudaForward" where
  "cuda_rope_cache lm cf pos = (let (c, s) = rope_cache lm (cf_rope_theta cf) (cf_head_size cf) pos in cf\<lparr>cf_cos := c, cf_sin := s\<rparr>)"

definition cuda_step :: "'d CudaDevice \<Rightarrow> libm \<Rightarrow> 'd CudaForward \<Rightarrow> u32 \<Rightarrow> nat \<Rightarrow> (f32 list \<times> 'd CudaForward) res" where
  "cuda_step D lm cf token pos =
     (let cf = cuda_rope_cache lm cf pos in
      obind (expect (cuda_embed_row cf (unat token))) (\<lambda>x.
      let (rc, logits, d) = vt_step D x (of_nat pos) (cf_cos cf) (cf_sin cf) (replicate (cf_vocab cf) 0) (cf_h cf) in
      if rc \<noteq> 0 then Panic else Ok (logits, cf\<lparr>cf_h := d\<rparr>)))"

definition cuda_prefill :: "'d CudaDevice \<Rightarrow> libm \<Rightarrow> 'd CudaForward \<Rightarrow> u32 list \<Rightarrow> (f32 list \<times> 'd CudaForward) res" where
  "cuda_prefill D lm cf tokens =
     (let p = length tokens; table = (\<lambda>pos. rope_cache lm (cf_rope_theta cf) (cf_head_size cf) pos) in
      obind (oloop (\<lambda>xemb t. omap (\<lambda>r. xemb @ r) (expect (cuda_embed_row cf (unat t)))) tokens []) (\<lambda>xemb.
      let (rc, out, d) = vt_prefill D xemb (of_nat p) (concat (map (\<lambda>pos. fst (table pos)) [0..<p])) (concat (map (\<lambda>pos. snd (table pos)) [0..<p]))
            (replicate (cf_vocab cf) 0) (cf_h cf) in
      if rc \<noteq> 0 then Panic else Ok (out, cf\<lparr>cf_h := d\<rparr>)))"

subsection \<open>Drivers\<close>

text \<open>The closures passed to the inference drivers.\<close>

definition cuda_tensor :: "nat \<Rightarrow> (f32 list \<times> 'd CudaForward) res \<Rightarrow> (tensor \<times> 'd CudaForward) res" where
  "cuda_tensor vocab m = obind m (\<lambda>(xs, cf). omap (\<lambda>t. (t, cf)) (slice_to_tensor xs [vocab]))"

definition cuda_forward :: "'d CudaDevice \<Rightarrow> libm \<Rightarrow> nat \<Rightarrow> u32 \<Rightarrow> nat \<Rightarrow> 'd CudaForward \<Rightarrow> (tensor \<times> 'd CudaForward) res" where
  "cuda_forward D lm vocab cur pos cf = cuda_tensor vocab (cuda_step D lm cf cur pos)"

definition run_cuda_with :: "'d CudaDevice \<Rightarrow> libm \<Rightarrow> (bytes \<Rightarrow> bytes) \<Rightarrow> 'd CudaForward \<Rightarrow> Config \<Rightarrow> bytes \<Rightarrow> Request \<Rightarrow> Outcome cuda_res" where
  "run_cuda_with D lm H cf cfg weights_hash req =
     (let cf = cuda_reset D cf in omap_err CeEngine (no_sink
       (run_quantized_with_forward H cfg weights_hash req null_sink 0 (cuda_forward D lm (cf_vocab cf)) cf ())))"

definition run_cuda :: "'d CudaDevice \<Rightarrow> nat option \<Rightarrow> libm \<Rightarrow> (bytes \<Rightarrow> bytes) \<Rightarrow> Config \<Rightarrow> QuantizedWeights \<Rightarrow> bytes \<Rightarrow> Request \<Rightarrow> Outcome cuda_res" where
  "run_cuda D env lm H cfg w weights_hash req =
     obind (cuda_new_regime D env cfg w 2) (\<lambda>cf. run_cuda_with D lm H cf cfg weights_hash req)"

definition run_cuda_regime3 :: "'d CudaDevice \<Rightarrow> nat option \<Rightarrow> libm \<Rightarrow> (bytes \<Rightarrow> bytes) \<Rightarrow> Config \<Rightarrow> QuantizedWeights \<Rightarrow> bytes \<Rightarrow> Request \<Rightarrow> Outcome cuda_res" where
  "run_cuda_regime3 D env lm H cfg w weights_hash req =
     obind (cuda_new_regime D env cfg w 3) (\<lambda>cf. run_cuda_with D lm H cf cfg weights_hash req)"

definition run_cuda_regime3_prefill :: "'d CudaDevice \<Rightarrow> nat option \<Rightarrow> libm \<Rightarrow> (bytes \<Rightarrow> bytes) \<Rightarrow> Config \<Rightarrow> QuantizedWeights \<Rightarrow> bytes \<Rightarrow> Request \<Rightarrow> Outcome cuda_res" where
  "run_cuda_regime3_prefill D env lm H cfg w weights_hash req =
     obind (cuda_new_regime D env cfg w 3) (\<lambda>cf. let cf = cuda_reset D cf; vocab = cf_vocab cf in
     omap_err CeEngine (no_sink (run_quantized_with_prefill H cfg weights_hash req null_sink 0
       (\<lambda>prompt cf. cuda_tensor vocab (cuda_prefill D lm cf prompt)) (cuda_forward D lm vocab) cf ())))"

subsection \<open>What the device promises\<close>

text \<open>
  The kernels are documented to be bit-exact. Stated of the foreign functions: a device loaded with a
  model is related to some state of the processor; a reset relates it to the fresh state; a step on
  an embedded row with the tables of its position, and a prefill on the rows of a prompt with the
  tables of their positions, return the logits of the processor's step or steps on these rows and stay
  related, as long as the position is in the cache.
\<close>

definition cuda_contract :: "'d CudaDevice \<Rightarrow> nat option \<Rightarrow> libm \<Rightarrow> (bytes \<Rightarrow> bytes) \<Rightarrow> Target \<Rightarrow> nat \<Rightarrow> Config \<Rightarrow> QuantizedWeights \<Rightarrow> u8 \<Rightarrow> (RunState \<Rightarrow> 'd \<Rightarrow> bool) \<Rightarrow> bool" where
  "cuda_contract D env lm H tg base cfg w regime R \<longleftrightarrow>
     (let tables = rope_cache lm (q_rope_theta w) (hs_of cfg); row = row_step lm H tg base cfg w; vocab = c_vocab_size cfg; top = cuda_max_seq env cfg in
      (\<forall>cf. cuda_new_regime D env cfg w (ucast regime) = Ok cf \<longrightarrow> (\<exists>st. R st (cf_h cf))) \<and>
      (\<forall>st rs d. R st d \<and> run_state_new cfg = Ok rs \<longrightarrow> R (set_regime regime rs) (vt_reset D d)) \<and>
      (\<forall>st st' d x pos t buf. R st d \<and> pos < top \<and> row st x pos = Ok (t, st') \<longrightarrow>
         (\<exists>logits d'. vt_step D x (of_nat pos) (fst (tables pos)) (snd (tables pos)) buf d = (0, logits, d') \<and>
            slice_to_tensor logits [vocab] = Ok t \<and> R st' d')) \<and>
      (\<forall>st st' d xs t buf. R st d \<and> length xs \<le> top \<and> feed_prompt (\<lambda>x pos st. row st x pos) 0 xs st = Ok (t, st') \<longrightarrow>
         (\<exists>logits d'. vt_prefill D (concat xs) (of_nat (length xs)) (concat (map (\<lambda>pos. fst (tables pos)) [0..<length xs]))
              (concat (map (\<lambda>pos. snd (tables pos)) [0..<length xs])) buf d = (0, logits, d') \<and>
            slice_to_tensor logits [vocab] = Ok t \<and> R st' d')))"

lemma cuda_contractD:
  assumes "cuda_contract D env lm H tg base cfg w regime R"
  shows "cuda_new_regime D env cfg w (ucast regime) = Ok cf \<Longrightarrow> \<exists>st. R st (cf_h cf)"
    and "R st d \<Longrightarrow> run_state_new cfg = Ok rs \<Longrightarrow> R (set_regime regime rs) (vt_reset D d)"
    and "R st d \<Longrightarrow> pos < cuda_max_seq env cfg \<Longrightarrow> row_step lm H tg base cfg w st x pos = Ok (t, st') \<Longrightarrow>
      \<exists>logits d'. vt_step D x (of_nat pos) (fst (rope_cache lm (q_rope_theta w) (hs_of cfg) pos)) (snd (rope_cache lm (q_rope_theta w) (hs_of cfg) pos)) buf d
        = (0, logits, d') \<and> slice_to_tensor logits [c_vocab_size cfg] = Ok t \<and> R st' d'"
    and "R st d \<Longrightarrow> length xs \<le> cuda_max_seq env cfg \<Longrightarrow> feed_prompt (\<lambda>x pos st. row_step lm H tg base cfg w st x pos) 0 xs st = Ok (t, st') \<Longrightarrow>
      \<exists>logits d'. vt_prefill D (concat xs) (of_nat (length xs)) (concat (map (\<lambda>pos. fst (rope_cache lm (q_rope_theta w) (hs_of cfg) pos)) [0..<length xs]))
         (concat (map (\<lambda>pos. snd (rope_cache lm (q_rope_theta w) (hs_of cfg) pos)) [0..<length xs])) buf d
        = (0, logits, d') \<and> slice_to_tensor logits [c_vocab_size cfg] = Ok t \<and> R st' d'"
  using assms unfolding cuda_contract_def Let_def by blast+

text \<open>A handle that holds the model.\<close>

definition cuda_loaded :: "Config \<Rightarrow> QuantizedWeights \<Rightarrow> 'd CudaForward \<Rightarrow> bool" where
  "cuda_loaded cfg w cf \<longleftrightarrow> cf_head_size cf = hs_of cfg \<and> cf_rope_theta cf = q_rope_theta w \<and> cf_vocab cf = c_vocab_size cfg \<and>
     cf_dim cf = c_dim cfg \<and> cf_embed_bytes cf = qt_bytes (q_token_embedding_table w) \<and>
     cf_embed_dtype cf = gt_debug (qt_dtype (q_token_embedding_table w))"

lemma cuda_new_loaded:
  assumes "heads_ok cfg" and "sizes_ok cfg" and "cuda_new_regime D env cfg w regime = Ok cf"
  shows "cuda_loaded cfg w cf"
  using assms(3) by (auto simp: cuda_new_regime_def step_dims [OF assms(1,2)] cuda_loaded_def outcome_simps split: option.splits)

lemma cuda_embed_row_ok:
  assumes "cuda_loaded cfg w cf" and "linear_ok base (q_token_embedding_table w) (c_dim cfg) (c_vocab_size cfg)"
    and "row < c_vocab_size cfg" and "c_dim cfg \<le> usize_max"
  shows "expect (cuda_embed_row cf row) = embedding_row base (q_token_embedding_table w) row (c_dim cfg)"
proof -
  obtain xs where "embedding_row base (q_token_embedding_table w) row (c_dim cfg) = Ok xs"
    using embedding_row_oks [OF assms(2-4)] by (auto simp: oks_def)
  then show ?thesis
    using host_row_eq [OF assms(2-4)] assms(1) by (simp add: cuda_embed_row_def cuda_loaded_def)
qed

subsection \<open>The backend follows the processor\<close>

lemma cuda_follows:
  assumes "q_model_ok base cfg w" and "cuda_contract D env lm H tg base cfg w regime R" and "cuda_loaded cfg w cf" and "R st (cf_h cf)"
    and "unat token < c_vocab_size cfg" and "pos < cuda_max_seq env cfg" and "q_step lm H tg base cfg w st token pos = Ok (t, st')"
  shows "\<exists>cf'. cuda_forward D lm (c_vocab_size cfg) token pos cf = Ok (t, cf') \<and> cuda_loaded cfg w cf' \<and> R st' (cf_h cf')"
proof -
  note M = model_sizes [OF assms(1)]
  obtain x where x: "embedding_row base (q_token_embedding_table w) (unat token) (c_dim cfg) = Ok x"
    "row_step lm H tg base cfg w st x pos = Ok (t, st')"
    using assms(7) q_step_row [of cfg lm H tg base w st token pos] M by (auto simp: outcome_simps)
  let ?cf = "cuda_rope_cache lm cf pos"
  have cf: "cuda_loaded cfg w ?cf" "cf_h ?cf = cf_h cf" "cf_cos ?cf = fst (rope_cache lm (q_rope_theta w) (hs_of cfg) pos)"
    "cf_sin ?cf = snd (rope_cache lm (q_rope_theta w) (hs_of cfg) pos)" "cf_vocab ?cf = c_vocab_size cfg"
    using assms(3) by (simp_all add: cuda_rope_cache_def cuda_loaded_def split_def Let_def)
  have e: "expect (cuda_embed_row ?cf (unat token)) = Ok x" using cuda_embed_row_ok [OF cf(1), of base "unat token"] M assms(5) x(1) by simp
  obtain logits d' where d: "vt_step D x (of_nat pos) (cf_cos ?cf) (cf_sin ?cf) (replicate (c_vocab_size cfg) 0) (cf_h cf) = (0, logits, d')"
    "slice_to_tensor logits [c_vocab_size cfg] = Ok t" "R st' d'"
    using cuda_contractD(3) [OF assms(2,4,6) x(2)] cf by fastforce
  then have "cuda_forward D lm (c_vocab_size cfg) token pos cf = Ok (t, ?cf\<lparr>cf_h := d'\<rparr>)"
    using e cf by (simp add: cuda_forward_def cuda_tensor_def cuda_step_def Let_def)
  then show ?thesis using d(3) cf(1) by (auto simp: cuda_loaded_def)
qed

interpretation cuda: gpu_forward "\<lambda>cur pos rs. q_step lm H tg base cfg w rs cur pos" cfg
    "\<lambda>rs. vocab_ok cfg \<and> q_model_ok base cfg w \<and> target_ok tg \<and> state_ok cfg rs" "cuda_forward D lm (c_vocab_size cfg)"
    "\<lambda>rs cf. cuda_contract D env lm H tg base cfg w regime R \<and> cuda_loaded cfg w cf \<and> R rs (cf_h cf)" "cuda_max_seq env cfg"
    for lm H tg base cfg w D env regime R
  by unfold_locales (auto dest: cuda_follows)

text \<open>Feeding embedded rows is feeding their tokens.\<close>

lemma feed_rows:
  assumes "heads_ok cfg" and "sizes_ok cfg" and "\<forall>t\<in>set ts. embedding_row base (q_token_embedding_table w) (unat t) (c_dim cfg) = Ok (emb t)"
  shows "feed_prompt (\<lambda>cur pos rs. q_step lm H tg base cfg w rs cur pos) pos ts st
    = feed_prompt (\<lambda>x pos st. row_step lm H tg base cfg w st x pos) pos (map emb ts) st"
  using assms(3)
proof (induction ts arbitrary: pos st)
  case (Cons t ts)
  have "q_step lm H tg base cfg w st t pos = row_step lm H tg base cfg w st (emb t) pos"
    using q_step_row [OF assms(1,2)] Cons.prems by simp
  then show ?case using Cons by (cases ts) (auto intro!: obind_cong)
qed simp


lemma oloop_rows: "\<forall>t\<in>set ts. f t = Ok (emb t) \<Longrightarrow> oloop (\<lambda>xs t. omap (\<lambda>r. xs @ r) (f t)) ts acc = Ok (acc @ concat (map emb ts))"
  by (induction ts arbitrary: acc) simp_all

lemma cuda_prefill_follows:
  assumes "q_model_ok base cfg w" and "cuda_contract D env lm H tg base cfg w regime R" and "cuda_loaded cfg w cf" and "R st (cf_h cf)"
    and "\<forall>t\<in>set ts. unat t < c_vocab_size cfg" and "length ts \<le> cuda_max_seq env cfg"
    and "feed_prompt (\<lambda>cur pos rs. q_step lm H tg base cfg w rs cur pos) 0 ts st = Ok (l, st')"
  shows "\<exists>cf'. cuda_tensor (c_vocab_size cfg) (cuda_prefill D lm cf ts) = Ok (l, cf') \<and> cuda_loaded cfg w cf' \<and> R st' (cf_h cf')"
proof -
  note M = model_sizes [OF assms(1)]
  let ?row = "\<lambda>t :: u32. embedding_row base (q_token_embedding_table w) (unat t) (c_dim cfg)"
  have "\<forall>t. \<exists>x. unat t < c_vocab_size cfg \<longrightarrow> ?row t = Ok x"
    using embedding_row_oks [of base "q_token_embedding_table w" "c_dim cfg" "c_vocab_size cfg"] M by (fastforce simp: oks_def)
  from choice [OF this] obtain emb where "\<And>t. unat t < c_vocab_size cfg \<Longrightarrow> ?row t = Ok (emb t)" by blast
  then have emb: "\<forall>t\<in>set ts. ?row t = Ok (emb t)" using assms(5) by simp
  then have "\<forall>t\<in>set ts. expect (cuda_embed_row cf (unat t)) = Ok (emb t)"
    using cuda_embed_row_ok [OF assms(3), of base] M assms(5) by simp
  then have rows: "oloop (\<lambda>xs t. omap (\<lambda>r. xs @ r) (expect (cuda_embed_row cf (unat t)))) ts [] = Ok (concat (map emb ts))"
    using oloop_rows [of ts "\<lambda>t. expect (cuda_embed_row cf (unat t))" emb "[]"] by simp
  have "feed_prompt (\<lambda>x pos st. row_step lm H tg base cfg w st x pos) 0 (map emb ts) st = Ok (l, st')"
    using assms(7) feed_rows [OF _ _ emb] M by simp
  from cuda_contractD(4) [OF assms(2,4) _ this] assms(6)
  obtain logits d' where d: "vt_prefill D (concat (map emb ts)) (of_nat (length ts)) (concat (map (\<lambda>pos. fst (rope_cache lm (q_rope_theta w) (hs_of cfg) pos)) [0..<length ts]))
         (concat (map (\<lambda>pos. snd (rope_cache lm (q_rope_theta w) (hs_of cfg) pos)) [0..<length ts])) (replicate (c_vocab_size cfg) 0) (cf_h cf) = (0, logits, d')"
    "slice_to_tensor logits [c_vocab_size cfg] = Ok l" "R st' d'" by (metis length_map)
  have cf: "cf_head_size cf = hs_of cfg" "cf_rope_theta cf = q_rope_theta w" "cf_vocab cf = c_vocab_size cfg"
    using assms(3) by (simp_all add: cuda_loaded_def)
  have "cuda_tensor (c_vocab_size cfg) (cuda_prefill D lm cf ts) = Ok (l, cf\<lparr>cf_h := d'\<rparr>)"
    using rows d(1,2) by (simp add: cuda_tensor_def cuda_prefill_def cf Let_def)
  then show ?thesis using d(3) assms(3) by (auto simp: cuda_loaded_def)
qed

subsection \<open>Runs\<close>

text \<open>What a run on a device assumes: a well-formed model and a request that fits the model and the cache.\<close>

definition cuda_run_ok :: "nat option \<Rightarrow> Target \<Rightarrow> nat \<Rightarrow> Config \<Rightarrow> QuantizedWeights \<Rightarrow> Request \<Rightarrow> bool" where
  "cuda_run_ok env tg base cfg w req \<longleftrightarrow> q_model_ok base cfg w \<and> vocab_ok cfg \<and> target_ok tg \<and> request_ok cfg req \<and>
     length (rq_prompt_tokens req) + rq_n_new_tokens req \<le> cuda_max_seq env cfg \<and> cuda_max_seq env cfg < 2 ^ 31"

lemma cuda_generates:
  assumes "cuda_run_ok env tg base cfg w req" and "cuda_contract D env lm H tg base cfg w regime R"
    and "cuda_new_regime D env cfg w (ucast regime) = Ok cf"
  obtains rs where "run_state_new cfg = Ok rs" and "cf_vocab (cuda_reset D cf) = c_vocab_size cfg"
    and "generate (cuda_forward D lm (c_vocab_size cfg)) cfg req (cuda_reset D cf)
      = generate (\<lambda>cur pos rs. q_step lm H tg base cfg w rs cur pos) cfg req (set_regime regime rs)"
    and "generate_prefilled (\<lambda>prompt cf. cuda_tensor (c_vocab_size cfg) (cuda_prefill D lm cf prompt)) (cuda_forward D lm (c_vocab_size cfg)) cfg req (cuda_reset D cf)
      = generate (\<lambda>cur pos rs. q_step lm H tg base cfg w rs cur pos) cfg req (set_regime regime rs)"
proof -
  let ?f = "\<lambda>cur pos rs. q_step lm H tg base cfg w rs cur pos" and ?cf = "cuda_reset D cf"
  note ok = assms(1) [unfolded cuda_run_ok_def]
  have M: "heads_ok cfg" "sizes_ok cfg" using ok model_sizes by blast+
  obtain rs where rs: "run_state_new cfg = Ok rs" "state_ok cfg rs" using run_state_new_oks [OF M] by (auto simp: oks_def)
  let ?k = "set_regime regime rs"
  have good: "vocab_ok cfg \<and> q_model_ok base cfg w \<and> target_ok tg \<and> state_ok cfg ?k"
    using ok rs(2) by (simp add: state_ok_def set_regime_def)
  have loaded: "cuda_loaded cfg w ?cf" using cuda_new_loaded [OF M assms(3)] by (simp add: cuda_loaded_def cuda_reset_def)
  have "R ?k (cf_h ?cf)" using cuda_contractD(1,2) [OF assms(2)] assms(3) rs(1) by (fastforce simp: cuda_reset_def)
  then have related: "cuda_contract D env lm H tg base cfg w regime R \<and> cuda_loaded cfg w ?cf \<and> R ?k (cf_h ?cf)"
    using assms(2) loaded by simp
  have fits: "request_ok cfg req" "length (rq_prompt_tokens req) + rq_n_new_tokens req \<le> cuda_max_seq env cfg" using ok by auto
  have "generate_prefilled (\<lambda>prompt cf. cuda_tensor (c_vocab_size cfg) (cuda_prefill D lm cf prompt)) (cuda_forward D lm (c_vocab_size cfg)) cfg req ?cf
      = generate_prefilled (feed_prompt ?f 0) ?f cfg req ?k"
    by (rule cuda.generate_prefilled_same [OF good fits])
      (use cuda_prefill_follows [of base cfg w D env lm H tg regime R ?cf ?k "rq_prompt_tokens req"] related ok fits in
        \<open>auto simp: request_ok_def\<close>)
  moreover have "generate_prefilled (feed_prompt ?f 0) ?f cfg req ?k = generate ?f cfg req ?k"
    by (rule quantized.prefilled_same [OF good fits(1)]) (use fits(2) ok in simp)
  ultimately show ?thesis
    using that rs(1) loaded cuda.generate_same [OF good related fits] by (simp add: cuda_loaded_def)
qed



subsection \<open>A device\<close>

text \<open>A device that keeps the contract: its state is that of the processor. It shows that the contract can be kept.\<close>

definition sim_result :: "f32 list \<Rightarrow> RunState \<Rightarrow> (tensor \<times> RunState) res \<Rightarrow> u32 \<times> f32 list \<times> RunState" where
  "sim_result buf d m = (case obind m (\<lambda>(t, d'). omap (\<lambda>xs. (xs, d')) (tensor_as_f32 WHY_Q t)) of Ok (xs, d') \<Rightarrow> (0, xs, d') | _ \<Rightarrow> (1, buf, d))"

definition sim_device :: "libm \<Rightarrow> (bytes \<Rightarrow> bytes) \<Rightarrow> Target \<Rightarrow> nat \<Rightarrow> Config \<Rightarrow> QuantizedWeights \<Rightarrow> u8 \<Rightarrow> RunState CudaDevice" where
  "sim_device lm H tg base cfg w regime =
     (let fresh = (case run_state_new cfg of Ok rs \<Rightarrow> Some (set_regime regime rs) | _ \<Rightarrow> None);
          row = (\<lambda>x pos d. row_step lm H tg base cfg w d x pos); dm = c_dim cfg in
      \<lparr>vt_new = (\<lambda>_. fresh), vt_set_wcls = (\<lambda>_ _ d. d), vt_set_rms_final = (\<lambda>_ d. d), vt_set_layer = (\<lambda>_ _ d. d),
       vt_finalize = (\<lambda>d. (0, d)), vt_reset = (\<lambda>d. case fresh of Some rs \<Rightarrow> rs | None \<Rightarrow> d),
       vt_step = (\<lambda>x pos _ _ buf d. sim_result buf d (row x (unat pos) d)),
       vt_prefill = (\<lambda>xs p _ _ buf d. sim_result buf d (feed_prompt row 0 (map (\<lambda>i. slice xs (i * dm) (i * dm + dm)) [0..<unat p]) d))\<rparr>)"

lemma sim_result_Ok:
  assumes "m = Ok (t, d')" and "slice_to_tensor xs ds = Ok t"
  shows "sim_result buf d m = (0, xs, d')"
proof -
  obtain s where "shape_new ds = Ok s" "tensor_from_f32 xs s = Ok t" using assms(2) by (auto simp: slice_to_tensor_def outcome_simps)
  then have "f32_tensor t xs (shape_dims s)" using f32_tensor_from_f32 shape_new_ok by blast
  then show ?thesis using assms(1) by (simp add: sim_result_def tensor_as_f32_def f32_tensorD(1) as_f32_from_f32)
qed

lemma row_step_Ok:
  assumes "row_step lm H tg base cfg w st x pos = Ok (t, st')" and "c_dim cfg \<le> usize_max"
  shows "length x = c_dim cfg \<and> (\<exists>xs. slice_to_tensor xs [c_vocab_size cfg] = Ok t)"
proof
  show "length x = c_dim cfg" using assms
    by (auto simp: row_step_def slice_to_tensor_def outcome_simps Let_def tensor_from_f32_def numel_eq shape_new_ok shape_new_dims split: if_splits)
  show "\<exists>xs. slice_to_tensor xs [c_vocab_size cfg] = Ok t" using assms
    by (auto simp: row_step_def q_lm_head_def outcome_simps Let_def split: prod.splits)
qed

lemma feed_rows_Ok:
  assumes "feed_prompt (\<lambda>x pos st. row_step lm H tg base cfg w st x pos) pos xs st = Ok (t, st')" and "c_dim cfg \<le> usize_max"
  shows "(\<forall>x\<in>set xs. length x = c_dim cfg) \<and> (\<exists>xs. slice_to_tensor xs [c_vocab_size cfg] = Ok t)"
  using assms(1)
proof (induction xs arbitrary: pos st)
  case (Cons x xs)
  then show ?case using row_step_Ok [OF _ assms(2)] by (cases xs) (fastforce simp: outcome_simps split: prod.splits)+
qed simp

lemma split_rows:
  assumes "\<forall>x\<in>set xs. length x = n"
  shows "map (\<lambda>i. slice (concat xs) (i * n) (i * n + n)) [0..<length xs] = xs"
proof -
  have "concat xs = concat (map (\<lambda>i. xs ! i) [0..<length xs])" by (simp add: map_nth)
  then have "slice (concat xs) (i * n) (i * n + n) = xs ! i" if "i < length xs" for i
    using slice_concat_rows [of "length xs" "\<lambda>i. xs ! i" n i] assms that by simp
  then show ?thesis by (intro nth_equalityI) simp_all
qed

lemma sim_contract:
  assumes "cuda_max_seq env cfg < 2 ^ 31" and "c_dim cfg \<le> usize_max"
  shows "cuda_contract (sim_device lm H tg base cfg w regime) env lm H tg base cfg w regime (=)"
proof -
  have u: "unat (of_nat n :: u32) = n" if "n \<le> cuda_max_seq env cfg" for n using assms(1) that by (simp add: unsigned_of_nat take_bit_nat_eq_self)
  have step: "\<exists>logits. sim_result buf d m = (0, logits, st') \<and> slice_to_tensor logits ds = Ok t"
    if "m = Ok (t, st')" "\<exists>xs. slice_to_tensor xs ds = Ok t" for buf d m t st' ds
    using that sim_result_Ok [OF that(1)] by blast
  show ?thesis unfolding cuda_contract_def Let_def sim_device_def
    using u row_step_Ok [OF _ assms(2)] feed_rows_Ok [OF _ assms(2)]
    by (auto simp: split_rows intro!: step)
qed



lemma q8_run_ok: "cuda_run_ok None serial_target 0 q8_cfg q8_model q8_request"
  using q8_model_ok tiny_targets(1)
  by (simp add: cuda_run_ok_def vocab_ok_def request_ok_def cuda_max_seq_def q8_cfg_def q8_request_def usize_max_def)

abbreviation q8_device :: "u8 \<Rightarrow> RunState CudaDevice" where
  "q8_device \<equiv> sim_device id_libm id serial_target 0 q8_cfg q8_model"

lemma q8_contract: "cuda_contract (q8_device regime) None id_libm id serial_target 0 q8_cfg q8_model regime (=)"
  by (rule sim_contract) (simp_all add: cuda_max_seq_def q8_cfg_def usize_max_def)

lemma q8_loads: "\<exists>cf. cuda_new_regime (q8_device regime) None q8_cfg q8_model r = Ok cf"
proof -
  have M: "heads_ok q8_cfg" "sizes_ok q8_cfg" using q8_model_ok model_sizes by blast+
  obtain rs where "run_state_new q8_cfg = Ok rs" using run_state_new_oks [OF M] by (auto simp: oks_def)
  then show ?thesis
    by (simp add: cuda_new_regime_def step_dims [OF M] sim_device_def cuda_upload_def cuda_weight_def cuda_kind_def cuda_layer_def
        q8_model_def q8_tensor_def Let_def)
qed


end
