(* ===== verification/Metal.thy ===== *)
theory Metal
  imports GpuHost
begin

text \<open>
  The Metal backend, \<open>src/metal/src/lib.rs\<close>: loading a model into device buffers, the command list of a
  decode step, and the two drivers. A step encodes dispatches of compute kernels and barriers into one
  command buffer and runs it. The commands are data here; what a kernel does to memory when it is
  dispatched is a parameter, the field \<open>md_run\<close> of the device, together with the presence of a device
  and what its compiler answers.
\<close>

subsection \<open>Buffers and commands\<close>

datatype MetalError = MeNoDevice | MeCompile string | MeEngine error

type_synonym 'a metal_res = "(MetalError, 'a) outcome"

text \<open>The compute pipelines of \<open>MetalForward\<close>, and the kernel sources that are compiled.\<close>

datatype Pipeline = Pl_q4k_linear | Pl_q4k_linear_acc | Pl_q6k_quant | Pl_q6k_dot | Pl_q6k_dot_acc | Pl_q4k_dequant
  | Pl_rms | Pl_silu_mul | Pl_add | Pl_rope | Pl_rope_neox | Pl_attn | Pl_q8_0 | Pl_q8_0_acc | Pl_q5_0 | Pl_q5_0_acc
  | Pl_q8_quant | Pl_q4k_rs | Pl_q4k_rs_acc | Pl_q6k_rs | Pl_q6k_rs_acc

datatype MetalSrc = Q4K | Q6K_INT | FWD | REGIME3 | DTYPES

definition pipelines :: "(Pipeline \<times> MetalSrc \<times> string) list" where
  "pipelines = [(Pl_q4k_linear, Q4K, ''q4k_linear''), (Pl_q4k_linear_acc, Q4K, ''q4k_linear_acc''),
     (Pl_q6k_quant, Q6K_INT, ''q6k_quantize''), (Pl_q6k_dot, Q6K_INT, ''q6k_integer_dot''), (Pl_q6k_dot_acc, Q6K_INT, ''q6k_integer_dot_acc''),
     (Pl_q4k_dequant, Q4K, ''q4k_dequant''), (Pl_rms, FWD, ''rms_kernel''), (Pl_silu_mul, FWD, ''silu_mul''), (Pl_add, FWD, ''add_inplace''),
     (Pl_rope, FWD, ''rope_apply''), (Pl_rope_neox, FWD, ''rope_apply_neox''), (Pl_attn, FWD, ''attention''),
     (Pl_q8_0, DTYPES, ''q8_0_linear''), (Pl_q8_0_acc, DTYPES, ''q8_0_linear_acc''), (Pl_q5_0, DTYPES, ''q5_0_linear''),
     (Pl_q5_0_acc, DTYPES, ''q5_0_linear_acc''), (Pl_q8_quant, REGIME3, ''q8_quant''), (Pl_q4k_rs, REGIME3, ''q4k_integer_rs''),
     (Pl_q4k_rs_acc, REGIME3, ''q4k_integer_rs_acc''), (Pl_q6k_rs, REGIME3, ''q6k_integer_rs''), (Pl_q6k_rs_acc, REGIME3, ''q6k_integer_rs_acc'')]"

text \<open>The device buffers, by the field that holds them; those of a layer carry its number.\<close>

datatype MBuf = B_x | B_xb | B_q | B_att | B_tmp_dim | B_gate | B_up | B_inner | B_logits | B_cos | B_sin
  | B_q8_dx | B_q8_qs | B_q8_bsums | Key_cache nat | Value_cache nat
  | B_rms_final | L_rms_att nat | L_rms_ffn nat | L_bq nat | L_bk nat | L_bv nat
  | W_wcls | W_wq nat | W_wk nat | W_wv nat | W_wo nat | W_w1 nat | W_w2 nat | W_w3 nat

text \<open>
  Device memory: the buffers of 32-bit words, whose lengths are multiples of four bytes, and the
  quantised weights, which are bytes and are never written.
\<close>

record GpuMem =
  gm_words :: "MBuf \<Rightarrow> f32 list"
  gm_bytes :: "MBuf \<Rightarrow> bytes"

text \<open>
  A dispatch binds buffers at byte offsets and constant words to argument indices, and runs
  \<open>groups * tg\<close> threads; a barrier orders the later dispatches after the writes to its buffers.
\<close>

datatype MCmd =
    Dispatch Pipeline "(nat \<times> MBuf \<times> nat) list" "(nat \<times> u32 list) list" nat nat
  | Barrier "MBuf list"

record MetalDevice =
  md_present :: bool
  md_compile :: "MetalSrc \<Rightarrow> string \<Rightarrow> string option"
  md_run :: "Pipeline \<Rightarrow> (nat \<times> MBuf \<times> nat) list \<Rightarrow> (nat \<times> u32 list) list \<Rightarrow> nat \<Rightarrow> GpuMem \<Rightarrow> GpuMem"

text \<open>The default encoder runs its dispatches in order.\<close>

fun exec_cmd :: "MetalDevice \<Rightarrow> GpuMem \<Rightarrow> MCmd \<Rightarrow> GpuMem" where
  "exec_cmd D m (Dispatch pl bufs scalars groups tg) = md_run D pl bufs scalars (groups * tg) m"
| "exec_cmd D m (Barrier bufs) = m"

definition exec_cmds :: "MetalDevice \<Rightarrow> MCmd list \<Rightarrow> GpuMem \<Rightarrow> GpuMem" where
  "exec_cmds D cmds m = foldl (exec_cmd D) m cmds"

text \<open>A host write to the front of a buffer. The code does not compare the lengths.\<close>

definition write_buf :: "MBuf \<Rightarrow> f32 list \<Rightarrow> GpuMem \<Rightarrow> GpuMem" where
  "write_buf b xs m = m\<lparr>gm_words := (gm_words m)(b := xs @ drop (length xs) (gm_words m b))\<rparr>"

subsection \<open>Loading a model\<close>

record WBuf =
  wb_buf :: MBuf
  wb_kind :: u8
  wb_n :: nat
  wb_k :: nat

definition dtype_kind :: "string \<Rightarrow> u8" where
  "dtype_kind dt = (if dt = ''Q6_K'' then 1 else if dt = ''Q8_0'' then 2 else if dt = ''Q5_0'' then 3 else 0)"

definition mkw :: "MBuf \<Rightarrow> QuantTensor \<Rightarrow> nat \<Rightarrow> nat \<Rightarrow> WBuf" where
  "mkw b t n k = \<lparr>wb_buf = b, wb_kind = dtype_kind (gt_debug (qt_dtype t)), wb_n = n, wb_k = k\<rparr>"

record MetalForward =
  mf_mem :: GpuMem
  mf_rope_neox :: bool
  mf_regime :: u8
  mf_dim :: nat
  mf_hidden :: nat
  mf_n_layers :: nat
  mf_n_heads :: nat
  mf_kv_dim :: nat
  mf_kv_mul :: nat
  mf_head_size :: nat
  mf_vocab :: nat
  mf_rms_eps :: f32
  mf_rope_theta :: f32
  mf_embed_host :: bytes
  mf_embed_dtype :: string
  mf_wcls :: WBuf
  mf_l_rms_att :: "MBuf list"
  mf_l_rms_ffn :: "MBuf list"
  mf_l_wq :: "WBuf list"
  mf_l_wk :: "WBuf list"
  mf_l_wv :: "WBuf list"
  mf_l_bq :: "MBuf option list"
  mf_l_bk :: "MBuf option list"
  mf_l_bv :: "MBuf option list"
  mf_l_wo :: "WBuf list"
  mf_l_w1 :: "WBuf list"
  mf_l_w2 :: "WBuf list"
  mf_l_w3 :: "WBuf list"
  mf_key_cache :: "MBuf list"
  mf_value_cache :: "MBuf list"

text \<open>The contents that loading gives the buffers: a new buffer without data is zero-filled.\<close>

definition zbuf :: "nat \<Rightarrow> f32 list" where
  "zbuf n = replicate (max (wrap_mul n 4) 4 div 4) 0"

definition opt_words :: "f32 list option \<Rightarrow> f32 list" where
  "opt_words b = (case b of Some xs \<Rightarrow> xs | None \<Rightarrow> [])"

fun new_words :: "Config \<Rightarrow> QuantizedWeights \<Rightarrow> nat \<Rightarrow> nat \<Rightarrow> nat \<Rightarrow> MBuf \<Rightarrow> f32 list" where
  "new_words cfg w hs kvd q_out B_x = zbuf (c_dim cfg)"
| "new_words cfg w hs kvd q_out B_xb = zbuf (c_dim cfg)"
| "new_words cfg w hs kvd q_out B_q = zbuf q_out"
| "new_words cfg w hs kvd q_out B_att = zbuf q_out"
| "new_words cfg w hs kvd q_out B_tmp_dim = zbuf (c_dim cfg)"
| "new_words cfg w hs kvd q_out B_gate = zbuf (c_hidden_dim cfg)"
| "new_words cfg w hs kvd q_out B_up = zbuf (c_hidden_dim cfg)"
| "new_words cfg w hs kvd q_out B_inner = zbuf (c_hidden_dim cfg)"
| "new_words cfg w hs kvd q_out B_logits = zbuf (c_vocab_size cfg)"
| "new_words cfg w hs kvd q_out B_cos = zbuf (hs div 2)"
| "new_words cfg w hs kvd q_out B_sin = zbuf (hs div 2)"
| "new_words cfg w hs kvd q_out B_q8_dx = zbuf (max (c_dim cfg) (c_hidden_dim cfg) div 256)"
| "new_words cfg w hs kvd q_out B_q8_qs = replicate (max (max (c_dim cfg) (c_hidden_dim cfg) div 256 * 256) 4 div 4) 0"
| "new_words cfg w hs kvd q_out B_q8_bsums = replicate (max (max (c_dim cfg) (c_hidden_dim cfg) div 256 * 8 * 4) 4 div 4) 0"
| "new_words cfg w hs kvd q_out (Key_cache _) = zbuf (wrap_mul (c_seq_len cfg) kvd)"
| "new_words cfg w hs kvd q_out (Value_cache _) = zbuf (wrap_mul (c_seq_len cfg) kvd)"
| "new_words cfg w hs kvd q_out B_rms_final = q_rms_final_weight w"
| "new_words cfg w hs kvd q_out (L_rms_att l) = l_rms_att_weight (q_layers w ! l)"
| "new_words cfg w hs kvd q_out (L_rms_ffn l) = l_rms_ffn_weight (q_layers w ! l)"
| "new_words cfg w hs kvd q_out (L_bq l) = opt_words (l_bq (q_layers w ! l))"
| "new_words cfg w hs kvd q_out (L_bk l) = opt_words (l_bk (q_layers w ! l))"
| "new_words cfg w hs kvd q_out (L_bv l) = opt_words (l_bv (q_layers w ! l))"
| "new_words cfg w hs kvd q_out _ = []"

fun new_bytes :: "QuantizedWeights \<Rightarrow> MBuf \<Rightarrow> bytes" where
  "new_bytes w W_wcls = qt_bytes (case q_wcls w of Some c \<Rightarrow> c | None \<Rightarrow> q_token_embedding_table w)"
| "new_bytes w (W_wq l) = qt_bytes (l_wq (q_layers w ! l))"
| "new_bytes w (W_wk l) = qt_bytes (l_wk (q_layers w ! l))"
| "new_bytes w (W_wv l) = qt_bytes (l_wv (q_layers w ! l))"
| "new_bytes w (W_wo l) = qt_bytes (l_wo (q_layers w ! l))"
| "new_bytes w (W_w1 l) = qt_bytes (l_w1 (q_layers w ! l))"
| "new_bytes w (W_w2 l) = qt_bytes (l_w2 (q_layers w ! l))"
| "new_bytes w (W_w3 l) = qt_bytes (l_w3 (q_layers w ! l))"
| "new_bytes w _ = []"

definition metal_pipelines :: "MetalDevice \<Rightarrow> unit metal_res" where
  "metal_pipelines D = oloop (\<lambda>_ (pl, src, func). case md_compile D src func of Some e \<Rightarrow> Err (MeCompile e) | None \<Rightarrow> Ok ()) pipelines ()"

text \<open>A list with one entry for each layer.\<close>

definition per_layer :: "QuantizedWeights \<Rightarrow> (nat \<Rightarrow> QuantLayer \<Rightarrow> 'a) \<Rightarrow> 'a list" where
  "per_layer w f = map (\<lambda>(i, l). f i l) (enumerate 0 (q_layers w))"

definition metal_loaded :: "Config \<Rightarrow> QuantizedWeights \<Rightarrow> nat \<Rightarrow> nat \<Rightarrow> nat \<Rightarrow> MetalForward" where
  "metal_loaded cfg w hs kvd kvm =
     (let dm = c_dim cfg; hd = c_hidden_dim cfg; vs = c_vocab_size cfg; q_out = wrap_mul (c_n_heads cfg) hs; n_layers = c_n_layers cfg in
      \<lparr>mf_mem = \<lparr>gm_words = new_words cfg w hs kvd q_out, gm_bytes = new_bytes w\<rparr>, mf_rope_neox = q_rope_neox w, mf_regime = 2,
       mf_dim = dm, mf_hidden = hd, mf_n_layers = n_layers, mf_n_heads = c_n_heads cfg, mf_kv_dim = kvd, mf_kv_mul = kvm,
       mf_head_size = hs, mf_vocab = vs, mf_rms_eps = q_rms_eps w, mf_rope_theta = q_rope_theta w,
       mf_embed_host = qt_bytes (q_token_embedding_table w), mf_embed_dtype = gt_debug (qt_dtype (q_token_embedding_table w)),
       mf_wcls = mkw W_wcls (case q_wcls w of Some c \<Rightarrow> c | None \<Rightarrow> q_token_embedding_table w) vs dm,
       mf_l_rms_att = per_layer w (\<lambda>i l. L_rms_att i), mf_l_rms_ffn = per_layer w (\<lambda>i l. L_rms_ffn i),
       mf_l_wq = per_layer w (\<lambda>i l. mkw (W_wq i) (l_wq l) q_out dm), mf_l_wk = per_layer w (\<lambda>i l. mkw (W_wk i) (l_wk l) kvd dm),
       mf_l_wv = per_layer w (\<lambda>i l. mkw (W_wv i) (l_wv l) kvd dm),
       mf_l_bq = per_layer w (\<lambda>i l. map_option (\<lambda>_. L_bq i) (l_bq l)), mf_l_bk = per_layer w (\<lambda>i l. map_option (\<lambda>_. L_bk i) (l_bk l)),
       mf_l_bv = per_layer w (\<lambda>i l. map_option (\<lambda>_. L_bv i) (l_bv l)),
       mf_l_wo = per_layer w (\<lambda>i l. mkw (W_wo i) (l_wo l) dm dm), mf_l_w1 = per_layer w (\<lambda>i l. mkw (W_w1 i) (l_w1 l) hd dm),
       mf_l_w2 = per_layer w (\<lambda>i l. mkw (W_w2 i) (l_w2 l) dm hd), mf_l_w3 = per_layer w (\<lambda>i l. mkw (W_w3 i) (l_w3 l) hd dm),
       mf_key_cache = map Key_cache [0..<n_layers], mf_value_cache = map Value_cache [0..<n_layers]\<rparr>)"

definition metal_new :: "MetalDevice \<Rightarrow> Config \<Rightarrow> QuantizedWeights \<Rightarrow> MetalForward metal_res" where
  "metal_new D cfg w =
     (if \<not> md_present D then Err MeNoDevice
      else obind (omap_err MeEngine (kv_dim cfg)) (\<lambda>kvd. obind (omap_err MeEngine (head_size cfg)) (\<lambda>hs.
       obind (metal_pipelines D) (\<lambda>_. omap (metal_loaded cfg w hs kvd) (omap_err MeEngine (kv_mul cfg))))))"

definition metal_set_regime :: "u8 \<Rightarrow> MetalForward \<Rightarrow> MetalForward" where
  "metal_set_regime r mf = mf\<lparr>mf_regime := r\<rparr>"


subsection \<open>Encoding a step\<close>

definition disp :: "Pipeline \<Rightarrow> (nat \<times> MBuf \<times> nat) list \<Rightarrow> (nat \<times> u32 list) list \<Rightarrow> nat \<Rightarrow> MCmd" where
  "disp pl bufs scalars threads = (let tg = max (min 64 threads) 1 in Dispatch pl bufs scalars ((threads + tg - 1) div tg) tg)"

definition lin_dims :: "WBuf \<Rightarrow> u32 list" where
  "lin_dims wt = [of_nat (wb_k wt), of_nat (wb_n wt), of_nat (wb_k wt div 256)]"

text \<open>
  One linear layer from \<open>inb\<close> to \<open>out\<close>. The two versions of the code differ in the pipelines only: the
  accumulating one adds to what \<open>out\<close> holds.
\<close>

definition lin_direct :: "Pipeline \<Rightarrow> MBuf \<Rightarrow> nat \<Rightarrow> WBuf \<Rightarrow> MBuf \<Rightarrow> nat \<Rightarrow> MCmd list" where
  "lin_direct pl inb in_off wt out out_off = [disp pl [(0, inb, in_off), (1, wb_buf wt, 0), (2, out, out_off)] [(3, lin_dims wt)] (wb_n wt)]"

definition lin :: "u8 \<Rightarrow> MBuf \<Rightarrow> nat \<Rightarrow> WBuf \<Rightarrow> MBuf \<Rightarrow> nat \<Rightarrow> MCmd list" where
  "lin regime inb in_off wt out out_off =
     (let nsuper = wb_k wt div 256; dims = lin_dims wt in
      if wb_kind wt = 2 then lin_direct Pl_q8_0 inb in_off wt out out_off
      else if wb_kind wt = 3 then lin_direct Pl_q5_0 inb in_off wt out out_off
      else if regime = 3 then
        [disp Pl_q8_quant [(0, inb, in_off), (1, B_q8_dx, 0), (2, B_q8_qs, 0), (3, B_q8_bsums, 0)] [(4, [of_nat nsuper])] nsuper,
         Barrier [B_q8_dx, B_q8_qs, B_q8_bsums]] @
        (if wb_kind wt = 1 then [disp Pl_q6k_rs [(0, B_q8_dx, 0), (1, B_q8_qs, 0), (2, wb_buf wt, 0), (3, out, out_off)] [(4, dims)] (wb_n wt)]
         else [disp Pl_q4k_rs [(0, B_q8_dx, 0), (1, B_q8_qs, 0), (2, B_q8_bsums, 0), (3, wb_buf wt, 0), (4, out, out_off)] [(5, dims)] (wb_n wt)])
      else if wb_kind wt = 1 then
        [disp Pl_q6k_quant [(0, inb, in_off), (1, B_q8_dx, 0), (2, B_q8_qs, 0)] [(3, [of_nat nsuper])] nsuper,
         Barrier [B_q8_dx, B_q8_qs],
         disp Pl_q6k_dot [(0, B_q8_dx, 0), (1, B_q8_qs, 0), (2, wb_buf wt, 0), (3, out, out_off)] [(4, dims)] (wb_n wt)]
      else lin_direct Pl_q4k_linear inb in_off wt out out_off)"

definition lin_acc :: "u8 \<Rightarrow> MBuf \<Rightarrow> nat \<Rightarrow> WBuf \<Rightarrow> MBuf \<Rightarrow> nat \<Rightarrow> MCmd list" where
  "lin_acc regime inb in_off wt out out_off =
     (let nsuper = wb_k wt div 256; dims = lin_dims wt in
      if wb_kind wt = 2 then lin_direct Pl_q8_0_acc inb in_off wt out out_off
      else if wb_kind wt = 3 then lin_direct Pl_q5_0_acc inb in_off wt out out_off
      else if regime = 3 then
        [disp Pl_q8_quant [(0, inb, in_off), (1, B_q8_dx, 0), (2, B_q8_qs, 0), (3, B_q8_bsums, 0)] [(4, [of_nat nsuper])] nsuper,
         Barrier [B_q8_dx, B_q8_qs, B_q8_bsums]] @
        (if wb_kind wt = 1 then [disp Pl_q6k_rs_acc [(0, B_q8_dx, 0), (1, B_q8_qs, 0), (2, wb_buf wt, 0), (3, out, out_off)] [(4, dims)] (wb_n wt)]
         else [disp Pl_q4k_rs_acc [(0, B_q8_dx, 0), (1, B_q8_qs, 0), (2, B_q8_bsums, 0), (3, wb_buf wt, 0), (4, out, out_off)] [(5, dims)] (wb_n wt)])
      else if wb_kind wt = 1 then
        [disp Pl_q6k_quant [(0, inb, in_off), (1, B_q8_dx, 0), (2, B_q8_qs, 0)] [(3, [of_nat nsuper])] nsuper,
         Barrier [B_q8_dx, B_q8_qs],
         disp Pl_q6k_dot_acc [(0, B_q8_dx, 0), (1, B_q8_qs, 0), (2, wb_buf wt, 0), (3, out, out_off)] [(4, dims)] (wb_n wt)]
      else lin_direct Pl_q4k_linear_acc inb in_off wt out out_off)"

text \<open>The buffers of a layer, looked up by the indexing of the code.\<close>

definition enc_norm :: "MetalForward \<Rightarrow> MBuf \<Rightarrow> MCmd list" where
  "enc_norm mf w = [disp Pl_rms [(0, B_x, 0), (1, w, 0), (2, B_xb, 0)] [(3, [of_nat (mf_dim mf), 1]), (4, [mf_rms_eps mf])] 1, Barrier [B_xb]]"

definition enc_qkv :: "MetalForward \<Rightarrow> nat \<Rightarrow> MBuf \<Rightarrow> MBuf \<Rightarrow> WBuf \<Rightarrow> WBuf \<Rightarrow> WBuf \<Rightarrow> MCmd list" where
  "enc_qkv mf koff kc vc wq wk wv =
     lin (mf_regime mf) B_xb 0 wq B_q 0 @ lin (mf_regime mf) B_xb 0 wk kc koff @ lin (mf_regime mf) B_xb 0 wv vc koff @ [Barrier [B_q, kc, vc]]"

definition unwrap :: "'a option \<Rightarrow> 'a res" where
  "unwrap v = (case v of Some x \<Rightarrow> Ok x | None \<Rightarrow> Panic)"

definition enc_bias :: "MetalForward \<Rightarrow> nat \<Rightarrow> nat \<Rightarrow> MBuf \<Rightarrow> MBuf \<Rightarrow> MCmd list res" where
  "enc_bias mf layer koff kc vc =
     obind (oget (mf_l_bq mf) layer) (\<lambda>bq. case bq of None \<Rightarrow> Ok []
     | Some bq \<Rightarrow>
       obind (obind (oget (mf_l_bk mf) layer) unwrap) (\<lambda>bk. obind (obind (oget (mf_l_bv mf) layer) unwrap) (\<lambda>bv.
       let qo = wrap_mul (mf_n_heads mf) (mf_head_size mf); kvd = mf_kv_dim mf in
       Ok [disp Pl_add [(0, B_q, 0), (1, bq, 0)] [(2, [of_nat qo])] qo, disp Pl_add [(0, kc, koff), (1, bk, 0)] [(2, [of_nat kvd])] kvd,
           disp Pl_add [(0, vc, koff), (1, bv, 0)] [(2, [of_nat kvd])] kvd, Barrier [B_q, kc, vc]])))"

definition enc_rope :: "MetalForward \<Rightarrow> nat \<Rightarrow> MBuf \<Rightarrow> MCmd list res" where
  "enc_rope mf koff kc =
     (let rope = (if mf_rope_neox mf then Pl_rope_neox else Pl_rope); nh = mf_n_heads mf; hs = mf_head_size mf in
      omap (\<lambda>n_kv. [disp rope [(0, B_q, 0), (1, B_cos, 0), (2, B_sin, 0), (3, B_q, 0)] [(4, [1, of_nat nh, of_nat hs])] nh,
          disp rope [(0, kc, koff), (1, B_cos, 0), (2, B_sin, 0), (3, kc, koff)] [(4, [1, of_nat n_kv, of_nat hs])] n_kv,
          Barrier [B_q, kc]]) (odiv (mf_kv_dim mf) hs))"

definition enc_attn :: "MetalForward \<Rightarrow> nat \<Rightarrow> MBuf \<Rightarrow> MBuf \<Rightarrow> WBuf \<Rightarrow> MCmd list" where
  "enc_attn mf pos kc vc wo =
     [disp Pl_attn [(0, B_q, 0), (1, kc, 0), (2, vc, 0), (3, B_att, 0)]
        [(4, [of_nat (mf_n_heads mf), of_nat (mf_head_size mf), of_nat (mf_kv_dim mf), of_nat (mf_kv_mul mf), of_nat pos])] (mf_n_heads mf),
      Barrier [B_att]] @ lin_acc (mf_regime mf) B_att 0 wo B_x 0 @ [Barrier [B_x]]"

definition enc_ffn :: "MetalForward \<Rightarrow> WBuf \<Rightarrow> WBuf \<Rightarrow> WBuf \<Rightarrow> MCmd list" where
  "enc_ffn mf w1 w3 w2 =
     lin (mf_regime mf) B_xb 0 w1 B_gate 0 @ lin (mf_regime mf) B_xb 0 w3 B_up 0 @
     [Barrier [B_gate, B_up],
      disp Pl_silu_mul [(0, B_gate, 0), (1, B_up, 0), (2, B_inner, 0)] [(3, [of_nat (mf_hidden mf)])] (mf_hidden mf),
      Barrier [B_inner]] @ lin_acc (mf_regime mf) B_inner 0 w2 B_x 0 @ [Barrier [B_x]]"

definition enc_layer :: "MetalForward \<Rightarrow> nat \<Rightarrow> nat \<Rightarrow> nat \<Rightarrow> MCmd list res" where
  "enc_layer mf pos koff layer =
     obind (oget (mf_l_rms_att mf) layer) (\<lambda>rms_att. obind (oget (mf_l_wq mf) layer) (\<lambda>wq. obind (oget (mf_l_wk mf) layer) (\<lambda>wk.
     obind (oget (mf_key_cache mf) layer) (\<lambda>kc. obind (oget (mf_l_wv mf) layer) (\<lambda>wv. obind (oget (mf_value_cache mf) layer) (\<lambda>vc.
     obind (enc_bias mf layer koff kc vc) (\<lambda>bias. obind (enc_rope mf koff kc) (\<lambda>rope.
     obind (oget (mf_l_wo mf) layer) (\<lambda>wo. obind (oget (mf_l_rms_ffn mf) layer) (\<lambda>rms_ffn.
     obind (oget (mf_l_w1 mf) layer) (\<lambda>w1. obind (oget (mf_l_w3 mf) layer) (\<lambda>w3. obind (oget (mf_l_w2 mf) layer) (\<lambda>w2.
     Ok (enc_norm mf rms_att @ enc_qkv mf koff kc vc wq wk wv @ bias @ rope @ enc_attn mf pos kc vc wo @
         enc_norm mf rms_ffn @ enc_ffn mf w1 w3 w2))))))))))))))"

definition enc_step :: "MetalForward \<Rightarrow> nat \<Rightarrow> MCmd list res" where
  "enc_step mf pos =
     (let koff = wrap_mul (wrap_mul pos (mf_kv_dim mf)) 4 in
      omap (\<lambda>layers. concat layers @ enc_norm mf B_rms_final @ lin (mf_regime mf) B_xb 0 (mf_wcls mf) B_logits 0)
        (omapM (enc_layer mf pos koff) [0..<mf_n_layers mf]))"

subsection \<open>Steps\<close>

definition metal_embed_row :: "MetalForward \<Rightarrow> nat \<Rightarrow> f32 list res" where
  "metal_embed_row mf token = (case host_row (mf_embed_host mf) (mf_embed_dtype mf) (mf_dim mf) token of Some m \<Rightarrow> expect m | None \<Rightarrow> Panic)"

definition metal_reset :: "MetalForward \<Rightarrow> MetalForward" where
  "metal_reset mf = mf\<lparr>mf_mem := foldl (\<lambda>m b. write_buf b (replicate (length (gm_words m b)) 0) m) (mf_mem mf) (mf_key_cache mf @ mf_value_cache mf)\<rparr>"

definition metal_step :: "MetalDevice \<Rightarrow> libm \<Rightarrow> MetalForward \<Rightarrow> u32 \<Rightarrow> nat \<Rightarrow> (f32 list \<times> MetalForward) res" where
  "metal_step D lm mf token pos =
     (let (c, s) = rope_cache lm (mf_rope_theta mf) (mf_head_size mf) pos; m = write_buf B_sin s (write_buf B_cos c (mf_mem mf)) in
      obind (metal_embed_row mf (unat token)) (\<lambda>erow.
      obind (enc_step mf pos) (\<lambda>cmds.
      let m = exec_cmds D cmds (write_buf B_x erow m) in
      Ok (take (mf_vocab mf) (gm_words m B_logits), mf\<lparr>mf_mem := m\<rparr>))))"

text \<open>One down projection alone, plain and accumulating.\<close>

definition debug_w2 :: "MetalDevice \<Rightarrow> MetalForward \<Rightarrow> f32 list \<Rightarrow> nat \<Rightarrow> (f32 list \<times> MetalForward) res" where
  "debug_w2 D mf x layer = obind (oget (mf_l_w2 mf) layer) (\<lambda>w2.
     let m = write_buf B_tmp_dim (replicate (mf_dim mf) 0) (write_buf B_inner x (mf_mem mf));
         m = exec_cmds D (lin (mf_regime mf) B_inner 0 w2 B_tmp_dim 0) m in
     Ok (take (mf_dim mf) (gm_words m B_tmp_dim), mf\<lparr>mf_mem := m\<rparr>))"

definition debug_w2_acc :: "MetalDevice \<Rightarrow> MetalForward \<Rightarrow> f32 list \<Rightarrow> f32 list \<Rightarrow> nat \<Rightarrow> (f32 list \<times> MetalForward) res" where
  "debug_w2_acc D mf x residual layer = obind (oget (mf_l_w2 mf) layer) (\<lambda>w2.
     let m = write_buf B_tmp_dim residual (write_buf B_inner x (mf_mem mf));
         m = exec_cmds D (lin_acc (mf_regime mf) B_inner 0 w2 B_tmp_dim 0) m in
     Ok (take (mf_dim mf) (gm_words m B_tmp_dim), mf\<lparr>mf_mem := m\<rparr>))"

subsection \<open>Drivers\<close>

definition metal_forward :: "MetalDevice \<Rightarrow> libm \<Rightarrow> nat \<Rightarrow> u32 \<Rightarrow> nat \<Rightarrow> MetalForward \<Rightarrow> (tensor \<times> MetalForward) res" where
  "metal_forward D lm vocab cur pos mf = obind (metal_step D lm mf cur pos) (\<lambda>(xs, mf). omap (\<lambda>t. (t, mf)) (slice_to_tensor xs [vocab]))"

definition run_metal :: "MetalDevice \<Rightarrow> libm \<Rightarrow> (bytes \<Rightarrow> bytes) \<Rightarrow> Config \<Rightarrow> QuantizedWeights \<Rightarrow> bytes \<Rightarrow> Request \<Rightarrow> Outcome metal_res" where
  "run_metal D lm H cfg w weights_hash req = obind (metal_new D cfg w) (\<lambda>mf.
     omap_err MeEngine (no_sink (run_quantized_with_forward H cfg weights_hash req null_sink 0 (metal_forward D lm (c_vocab_size cfg)) mf ())))"

definition run_metal_regime3 :: "MetalDevice \<Rightarrow> libm \<Rightarrow> (bytes \<Rightarrow> bytes) \<Rightarrow> Config \<Rightarrow> QuantizedWeights \<Rightarrow> bytes \<Rightarrow> Request \<Rightarrow> Outcome metal_res" where
  "run_metal_regime3 D lm H cfg w weights_hash req = obind (metal_new D cfg w) (\<lambda>mf. let mf = metal_set_regime 3 mf in
     omap_err MeEngine (no_sink (run_quantized_with_forward H cfg weights_hash req null_sink 0 (metal_forward D lm (c_vocab_size cfg)) mf ())))"


subsection \<open>Barriers\<close>

text \<open>The arguments that a kernel may write: those without \<open>const\<close> in its signature.\<close>

fun written :: "Pipeline \<Rightarrow> nat list" where
  "written Pl_q6k_quant = [1, 2]" | "written Pl_q8_quant = [1, 2, 3]" | "written Pl_q4k_dequant = [1]" | "written Pl_add = [0]"
| "written Pl_q6k_dot = [3]" | "written Pl_q6k_dot_acc = [3]" | "written Pl_rope = [3]" | "written Pl_rope_neox = [3]" | "written Pl_attn = [3]"
| "written Pl_q6k_rs = [3]" | "written Pl_q6k_rs_acc = [3]" | "written Pl_q4k_rs = [4]" | "written Pl_q4k_rs_acc = [4]"
| "written _ = [2]"

fun cmd_binds :: "MCmd \<Rightarrow> MBuf set" where
  "cmd_binds (Dispatch pl bufs scalars groups tg) = (\<lambda>(i, b, off). b) ` set bufs"
| "cmd_binds (Barrier bs) = {}"

fun cmd_writes :: "MCmd \<Rightarrow> MBuf set" where
  "cmd_writes (Dispatch pl bufs scalars groups tg) = {b. \<exists>i off. (i, b, off) \<in> set bufs \<and> i \<in> set (written pl)}"
| "cmd_writes (Barrier bs) = {}"

fun cmd_orders :: "MCmd \<Rightarrow> MBuf set" where
  "cmd_orders (Dispatch pl bufs scalars groups tg) = {}"
| "cmd_orders (Barrier bs) = set bs"

text \<open>
  The buffers written since their last barrier, after a list of commands none of which touches such a
  buffer.
\<close>

fun ordered :: "MBuf set \<Rightarrow> MCmd list \<Rightarrow> MBuf set option" where
  "ordered dirty [] = Some dirty"
| "ordered dirty (c # cs) = (if cmd_binds c \<inter> dirty = {} then ordered ((dirty \<union> cmd_writes c) - cmd_orders c) cs else None)"

lemma ordered_append: "ordered dirty (a @ b) = (case ordered dirty a of None \<Rightarrow> None | Some d \<Rightarrow> ordered d b)"
  by (induction a arbitrary: dirty) simp_all

lemma ordered_between:
  assumes "ordered dirty cs \<noteq> None" and "j < length cs" and "b \<in> cmd_binds (cs ! j)" and "b \<in> dirty"
  shows "\<exists>k<j. b \<in> cmd_orders (cs ! k)"
  using assms
proof (induction cs arbitrary: dirty j)
  case (Cons c cs)
  show ?case
  proof (cases j)
    case 0
    then show ?thesis using Cons.prems by (auto split: if_splits)
  next
    case (Suc j')
    show ?thesis
    proof (cases "b \<in> cmd_orders c")
      case False
      then have "\<exists>k<j'. b \<in> cmd_orders (cs ! k)" using Cons.prems Suc by (intro Cons.IH [of "(dirty \<union> cmd_writes c) - cmd_orders c"]) (auto split: if_splits)
      then show ?thesis using Suc by auto
    qed (use Suc in auto)
  qed
qed simp

lemma ordered_writes:
  assumes "ordered dirty cs \<noteq> None" and "i < j" and "j < length cs" and "b \<in> cmd_writes (cs ! i)" and "b \<in> cmd_binds (cs ! j)"
  shows "\<exists>k. i < k \<and> k < j \<and> b \<in> cmd_orders (cs ! k)"
  using assms
proof (induction cs arbitrary: dirty i j)
  case (Cons c cs)
  obtain j' where j: "j = Suc j'" using Cons.prems(2) by (cases j) auto
  show ?case
  proof (cases i)
    case 0
    then have "b \<notin> cmd_orders c" using Cons.prems(4) by (cases c) auto
    then have "\<exists>k<j'. b \<in> cmd_orders (cs ! k)"
      using Cons.prems j 0 by (intro ordered_between [of "(dirty \<union> cmd_writes c) - cmd_orders c"]) (auto split: if_splits)
    then show ?thesis using j 0 by auto
  next
    case (Suc i')
    then have "\<exists>k. i' < k \<and> k < j' \<and> b \<in> cmd_orders (cs ! k)"
      using Cons.prems j by (intro Cons.IH [of "(dirty \<union> cmd_writes c) - cmd_orders c"]) (auto split: if_splits)
    then show ?thesis using Suc j by auto
  qed
qed simp

definition q8_bufs :: "MBuf set" where "q8_bufs = {B_q8_dx, B_q8_qs, B_q8_bsums}"

lemma disp_access [simp]:
  "cmd_binds (disp pl bufs scalars n) = (\<lambda>(i, b, off). b) ` set bufs"
  "cmd_writes (disp pl bufs scalars n) = {b. \<exists>i off. (i, b, off) \<in> set bufs \<and> i \<in> set (written pl)}"
  "cmd_orders (disp pl bufs scalars n) = {}"
  by (simp_all add: disp_def Let_def)

lemma ordered_lin:
  assumes "{inb, wb_buf wt, out} \<inter> dirty = {}" and "q8_bufs \<inter> dirty = {}" and "wb_buf wt \<notin> q8_bufs" and "inb \<notin> q8_bufs" and "out \<notin> q8_bufs"
    and "wb_buf wt \<noteq> out" and "inb \<noteq> out"
  shows "ordered dirty (lin regime inb io wt out oo) = Some (insert out dirty)"
    and "ordered dirty (lin_acc regime inb io wt out oo) = Some (insert out dirty)"
  using assms by (auto simp: lin_def lin_acc_def lin_direct_def Let_def q8_bufs_def)


subsection \<open>The commands of a loaded model\<close>

text \<open>A loaded model in some regime, with some memory.\<close>

definition metal_at :: "Config \<Rightarrow> QuantizedWeights \<Rightarrow> nat \<Rightarrow> nat \<Rightarrow> nat \<Rightarrow> u8 \<Rightarrow> GpuMem \<Rightarrow> MetalForward" where
  "metal_at cfg w hs kvd kvm r m = metal_loaded cfg w hs kvd kvm\<lparr>mf_regime := r, mf_mem := m\<rparr>"

lemma metal_at_simps [simp]:
  "mf_mem (metal_at cfg w hs kvd kvm r m) = m" "mf_regime (metal_at cfg w hs kvd kvm r m) = r" "mf_dim (metal_at cfg w hs kvd kvm r m) = c_dim cfg"
  "mf_hidden (metal_at cfg w hs kvd kvm r m) = c_hidden_dim cfg" "mf_n_layers (metal_at cfg w hs kvd kvm r m) = c_n_layers cfg"
  "mf_n_heads (metal_at cfg w hs kvd kvm r m) = c_n_heads cfg" "mf_kv_dim (metal_at cfg w hs kvd kvm r m) = kvd"
  "mf_kv_mul (metal_at cfg w hs kvd kvm r m) = kvm" "mf_head_size (metal_at cfg w hs kvd kvm r m) = hs"
  "mf_vocab (metal_at cfg w hs kvd kvm r m) = c_vocab_size cfg" "mf_rms_eps (metal_at cfg w hs kvd kvm r m) = q_rms_eps w"
  "mf_rope_theta (metal_at cfg w hs kvd kvm r m) = q_rope_theta w" "mf_rope_neox (metal_at cfg w hs kvd kvm r m) = q_rope_neox w"
  "mf_embed_host (metal_at cfg w hs kvd kvm r m) = qt_bytes (q_token_embedding_table w)"
  "mf_embed_dtype (metal_at cfg w hs kvd kvm r m) = gt_debug (qt_dtype (q_token_embedding_table w))"
  "mf_wcls (metal_at cfg w hs kvd kvm r m) = mkw W_wcls (case q_wcls w of Some c \<Rightarrow> c | None \<Rightarrow> q_token_embedding_table w) (c_vocab_size cfg) (c_dim cfg)"
  "metal_at cfg w hs kvd kvm r m\<lparr>mf_mem := m'\<rparr> = metal_at cfg w hs kvd kvm r m'"
  by (simp_all add: metal_at_def metal_loaded_def Let_def)

lemma wb_simps [simp]: "wb_buf (mkw b t n k) = b" "wb_n (mkw b t n k) = n" "wb_k (mkw b t n k) = k"
  by (simp_all add: mkw_def)

lemma oget_per_layer: "oget (per_layer w f) i = (if i < length (q_layers w) then Ok (f i (q_layers w ! i)) else Panic)"
  by (simp add: oget_def per_layer_def nth_enumerate_eq)

lemma oget_upt: "oget (map f [0..<n]) i = (if i < n then Ok (f i) else Panic)"
  by (simp add: oget_def)

definition bias_cmds :: "Config \<Rightarrow> QuantLayer \<Rightarrow> nat \<Rightarrow> nat \<Rightarrow> nat \<Rightarrow> nat \<Rightarrow> MCmd list res" where
  "bias_cmds cfg lay hs kvd koff l = (let qo = wrap_mul (c_n_heads cfg) hs in
     case l_bq lay of None \<Rightarrow> Ok [] | Some _ \<Rightarrow> if l_bk lay = None \<or> l_bv lay = None then Panic
       else Ok [disp Pl_add [(0, B_q, 0), (1, L_bq l, 0)] [(2, [of_nat qo])] qo,
           disp Pl_add [(0, Key_cache l, koff), (1, L_bk l, 0)] [(2, [of_nat kvd])] kvd,
           disp Pl_add [(0, Value_cache l, koff), (1, L_bv l, 0)] [(2, [of_nat kvd])] kvd, Barrier [B_q, Key_cache l, Value_cache l]])"

text \<open>What a layer encodes, with the buffers that loading made.\<close>

definition layer_cmds :: "MetalForward \<Rightarrow> nat \<Rightarrow> nat \<Rightarrow> nat \<Rightarrow> QuantLayer \<Rightarrow> MCmd list \<Rightarrow> MCmd list \<Rightarrow> MCmd list" where
  "layer_cmds mf pos koff l lay bias rot =
     (let dm = mf_dim mf; hd = mf_hidden mf; kvd = mf_kv_dim mf; q_out = wrap_mul (mf_n_heads mf) (mf_head_size mf); kc = Key_cache l; vc = Value_cache l in
      enc_norm mf (L_rms_att l) @
      enc_qkv mf koff kc vc (mkw (W_wq l) (l_wq lay) q_out dm) (mkw (W_wk l) (l_wk lay) kvd dm) (mkw (W_wv l) (l_wv lay) kvd dm) @ bias @ rot @
      enc_attn mf pos kc vc (mkw (W_wo l) (l_wo lay) dm dm) @
      enc_norm mf (L_rms_ffn l) @
      enc_ffn mf (mkw (W_w1 l) (l_w1 lay) hd dm) (mkw (W_w3 l) (l_w3 lay) hd dm) (mkw (W_w2 l) (l_w2 lay) dm hd))"

lemma enc_layer_eq:
  fixes hs kvd kvm :: nat and r :: u8 and m :: GpuMem
  assumes "l < c_n_layers cfg" and "l < length (q_layers w)"
  defines "mf \<equiv> metal_at cfg w hs kvd kvm r m"
  shows "enc_layer mf pos koff l = obind (bias_cmds cfg (q_layers w ! l) hs kvd koff l) (\<lambda>bias.
    omap (layer_cmds mf pos koff l (q_layers w ! l) bias) (enc_rope mf koff (Key_cache l)))"
proof -
  have lists: "oget (mf_l_rms_att mf) l = Ok (L_rms_att l)" "oget (mf_l_rms_ffn mf) l = Ok (L_rms_ffn l)"
    "oget (mf_l_wq mf) l = Ok (mkw (W_wq l) (l_wq (q_layers w ! l)) (wrap_mul (c_n_heads cfg) hs) (c_dim cfg))"
    "oget (mf_l_wk mf) l = Ok (mkw (W_wk l) (l_wk (q_layers w ! l)) kvd (c_dim cfg))"
    "oget (mf_l_wv mf) l = Ok (mkw (W_wv l) (l_wv (q_layers w ! l)) kvd (c_dim cfg))"
    "oget (mf_l_wo mf) l = Ok (mkw (W_wo l) (l_wo (q_layers w ! l)) (c_dim cfg) (c_dim cfg))"
    "oget (mf_l_w1 mf) l = Ok (mkw (W_w1 l) (l_w1 (q_layers w ! l)) (c_hidden_dim cfg) (c_dim cfg))"
    "oget (mf_l_w2 mf) l = Ok (mkw (W_w2 l) (l_w2 (q_layers w ! l)) (c_dim cfg) (c_hidden_dim cfg))"
    "oget (mf_l_w3 mf) l = Ok (mkw (W_w3 l) (l_w3 (q_layers w ! l)) (c_hidden_dim cfg) (c_dim cfg))"
    "oget (mf_key_cache mf) l = Ok (Key_cache l)" "oget (mf_value_cache mf) l = Ok (Value_cache l)"
    using assms(1,2) by (simp_all add: mf_def metal_at_def metal_loaded_def Let_def oget_per_layer oget_upt)
  have b: "enc_bias mf l koff (Key_cache l) (Value_cache l) = bias_cmds cfg (q_layers w ! l) hs kvd koff l"
    using assms(1,2) by (simp add: mf_def enc_bias_def bias_cmds_def metal_at_def metal_loaded_def Let_def oget_per_layer unwrap_def split: option.split)
  show ?thesis unfolding enc_layer_def lists obind.simps b
    by (cases "bias_cmds cfg (q_layers w ! l) hs kvd koff l"; cases "enc_rope mf koff (Key_cache l)") (simp_all add: mf_def layer_cmds_def Let_def)
qed

lemma enc_layer_loaded:
  assumes "enc_layer (metal_at cfg w hs kvd kvm r m) pos koff l = Ok cmds"
  obtains rope bias where "l < c_n_layers cfg" and "l < length (q_layers w)"
    and "bias_cmds cfg (q_layers w ! l) hs kvd koff l = Ok bias" and "enc_rope (metal_at cfg w hs kvd kvm r m) koff (Key_cache l) = Ok rope"
    and "cmds = layer_cmds (metal_at cfg w hs kvd kvm r m) pos koff l (q_layers w ! l) bias rope"
proof -
  have l: "l < c_n_layers cfg" "l < length (q_layers w)"
    using assms by (auto simp: enc_layer_def outcome_simps metal_at_def metal_loaded_def Let_def oget_per_layer oget_upt split: if_splits)
  then show thesis using assms that by (auto simp: enc_layer_eq outcome_simps)
qed


lemma ordered_norm: "w \<notin> {B_x, B_xb} \<Longrightarrow> ordered {} (enc_norm mf w) = Some {}"
  by (auto simp: enc_norm_def)

lemma ordered_layer:
  assumes "enc_layer (metal_at cfg w hs kvd kvm r m) pos koff l = Ok cmds"
  shows "ordered {} cmds = Some {}"
  using assms
proof (rule enc_layer_loaded)
  let ?mf = "metal_at cfg w hs kvd kvm r m"
  fix rope bias
  assume b: "bias_cmds cfg (q_layers w ! l) hs kvd koff l = Ok bias" and rope: "enc_rope ?mf koff (Key_cache l) = Ok rope"
    and c: "cmds = layer_cmds ?mf pos koff l (q_layers w ! l) bias rope"
  have "ordered {} bias = Some {}" using b by (auto simp: bias_cmds_def Let_def split: option.splits if_splits)
  moreover have "ordered {} rope = Some {}" using rope by (auto simp: enc_rope_def outcome_simps Let_def)
  moreover have "ordered {} (enc_qkv ?mf koff (Key_cache l) (Value_cache l) (mkw (W_wq l) q n d) (mkw (W_wk l) k n' d) (mkw (W_wv l) v n' d)) = Some {}"
    for q k v n n' d by (simp add: enc_qkv_def ordered_append ordered_lin q8_bufs_def)
  moreover have "ordered {} (enc_attn ?mf pos (Key_cache l) (Value_cache l) (mkw (W_wo l) o' n d)) = Some {}" for o' n d
    by (auto simp: enc_attn_def ordered_append ordered_lin q8_bufs_def)
  moreover have "ordered {} (enc_ffn ?mf (mkw (W_w1 l) a n d) (mkw (W_w3 l) g n d) (mkw (W_w2 l) e d n)) = Some {}" for a g e n d
    by (auto simp: enc_ffn_def ordered_append ordered_lin q8_bufs_def)
  ultimately show ?thesis unfolding c layer_cmds_def Let_def by (simp add: ordered_append ordered_norm)
qed

lemma ordered_layers:
  "omapM (enc_layer (metal_at cfg w hs kvd kvm r m) pos koff) ls = Ok cmds \<Longrightarrow> ordered {} (concat cmds) = Some {}"
proof (induction ls arbitrary: cmds)
  case (Cons l ls)
  then show ?case using ordered_layer [of cfg w hs kvd kvm r m pos koff l] by (auto simp: outcome_simps ordered_append)
qed simp

lemma ordered_step: "enc_step (metal_at cfg w hs kvd kvm r m) pos = Ok cmds \<Longrightarrow> ordered {} cmds = Some {B_logits}"
  by (auto simp: enc_step_def outcome_simps ordered_append ordered_layers ordered_norm ordered_lin q8_bufs_def)

lemma metal_new_at: "metal_new D cfg w = Ok mf \<Longrightarrow> \<exists>hs kvd kvm. \<forall>r m. mf\<lparr>mf_regime := r, mf_mem := m\<rparr> = metal_at cfg w hs kvd kvm r m"
  by (auto simp: metal_new_def outcome_simps metal_at_def split: if_splits)

text \<open>
  C20: every step that a loaded model encodes is ordered by its own barriers: when a
  dispatch may write a buffer and a later dispatch uses the buffer, a barrier that names the buffer
  stands between them. The outputs that are read by nobody before the end are the logits alone. The
  order of two dispatches of which only the second writes is left to the encoder, which runs its
  commands in order: the quantised activations are overwritten while no barrier follows their last use.
\<close>

theorem metal_barriers:
  assumes "metal_new D cfg w = Ok mf" and "enc_step (mf\<lparr>mf_regime := r, mf_mem := m\<rparr>) pos = Ok cmds"
    and "i < j" and "j < length cmds" and "b \<in> cmd_writes (cmds ! i)" and "b \<in> cmd_binds (cmds ! j)"
  shows "\<exists>k bs. i < k \<and> k < j \<and> cmds ! k = Barrier bs \<and> b \<in> set bs"
proof -
  have "ordered {} cmds = Some {B_logits}" using assms(2) metal_new_at [OF assms(1)] ordered_step by fastforce
  then obtain k where "i < k" "k < j" "b \<in> cmd_orders (cmds ! k)" using ordered_writes [of "{}" cmds i j b] assms(3-6) by auto
  then show ?thesis by (cases "cmds ! k") auto
qed

definition idle_device :: MetalDevice where
  "idle_device = \<lparr>md_present = True, md_compile = (\<lambda>_ _. None), md_run = (\<lambda>_ _ _ _ m. m)\<rparr>"

lemma q8_metal_new: "md_present D \<Longrightarrow> \<forall>src func. md_compile D src func = None \<Longrightarrow> metal_new D q8_cfg q8_model = Ok (metal_loaded q8_cfg q8_model 32 32 1)"
  by (simp add: metal_new_def metal_pipelines_def pipelines_def kv_dim_def head_size_def kv_mul_def odiv_def q8_cfg_def wrap_mul_def usize_max_def)

theorem metal_barriers_witness:
  "\<exists>cmds. enc_step (metal_loaded q8_cfg q8_model 32 32 1) 0 = Ok cmds \<and>
     B_xb \<in> cmd_writes (cmds ! 0) \<and> B_xb \<in> cmd_binds (cmds ! 2) \<and> (\<exists>k bs. 0 < k \<and> k < 2 \<and> cmds ! k = Barrier bs \<and> B_xb \<in> set bs)"
proof -
  define m where "m = mf_mem (metal_loaded q8_cfg q8_model 32 32 1)"
  define mf where "mf = metal_at q8_cfg q8_model 32 32 1 2 m"
  have eq: "metal_loaded q8_cfg q8_model 32 32 1 = mf" "mf\<lparr>mf_regime := 2, mf_mem := m\<rparr> = mf"
    by (simp_all add: mf_def m_def metal_at_def metal_loaded_def Let_def)
  have l: "(0 :: nat) < c_n_layers q8_cfg" "0 < length (q_layers q8_model)" "l_bq (q_layers q8_model ! 0) = None"
    "mkw (W_wq 0) (l_wq (q_layers q8_model ! 0)) n d = \<lparr>wb_buf = W_wq 0, wb_kind = 2, wb_n = n, wb_k = d\<rparr>" for n d
    by (simp_all add: q8_cfg_def q8_model_def q8_tensor_def mkw_def dtype_kind_def Let_def)
  have fields: "mf_kv_dim mf = 32" "mf_head_size mf = 32" "mf_regime mf = 2" "mf_n_layers mf = 1" by (simp_all add: mf_def q8_cfg_def)
  have "\<exists>n d rest. enc_layer mf 0 0 0 = Ok (enc_norm mf (L_rms_att 0) @ lin 2 B_xb 0 \<lparr>wb_buf = W_wq 0, wb_kind = 2, wb_n = n, wb_k = d\<rparr> B_q 0 @ rest)"
    using enc_layer_eq [OF l(1,2), of 32 32 1 2 m 0 0, folded mf_def]
    by (simp add: bias_cmds_def l enc_rope_def odiv_def fields layer_cmds_def enc_qkv_def Let_def) blast
  then obtain cmds where c: "enc_step mf 0 = Ok cmds" "2 < length cmds" "B_xb \<in> cmd_writes (cmds ! 0)" "B_xb \<in> cmd_binds (cmds ! 2)"
    by (auto simp: enc_step_def fields Let_def lin_def lin_direct_def enc_norm_def)
  have "metal_new idle_device q8_cfg q8_model = Ok mf" unfolding eq(1) [symmetric] by (rule q8_metal_new) (simp_all add: idle_device_def)
  from metal_barriers [OF this, where r = 2 and m = m and pos = 0 and cmds = cmds and i = 0 and j = 2 and b = B_xb] c show ?thesis unfolding eq by fastforce
qed

end
