(* ===== verification/StepParts.thy ===== *)
theory StepParts
  imports GpuHost
begin

text \<open>
  The decode step of \<open>src/src/model/forward_quantized.rs\<close>, unobserved, taken apart into the computations a
  device dispatches: norms, linear layers, the rotation, attention head by head on the cache of one
  layer, the activation, the residuals. The Metal backend is compared with these.
\<close>

subsection \<open>Nobody observes\<close>

lemma unseen [simp]:
  "see_op H nm l k x y no_observers = no_observers" "see_act H tok l cp xs no_observers = no_observers"
  "see_lens tok l cp xs no_observers = no_observers" "when_seen False t f ob = Ok ob"
  "ob_ops no_observers = None" "ob_acts no_observers = None" "ob_lens no_observers = None"
  by (simp_all add: no_observers_def see_op_def see_act_def see_lens_def when_seen_def)

lemma q_project_plain: "q_project e l key x w n m no_observers = omap (\<lambda>y. (y, no_observers)) (qe_linear e x w n m)"
  by (cases "qe_linear e x w n m") (simp_all add: q_project_def)

definition norm_list :: "libm \<Rightarrow> f32 list \<Rightarrow> f32 list \<Rightarrow> f32 \<Rightarrow> f32 list res" where
  "norm_list lm xs ws eps = obind (slice_to_tensor xs [length xs]) (\<lambda>x. obind (rms_norm_slice lm x ws eps) (tensor_as_f32 WHY_Q))"

text \<open>The tensor of a vector.\<close>

definition vec_tensor :: "f32 list \<Rightarrow> nat \<Rightarrow> tensor \<Rightarrow> bool" where
  "vec_tensor xs n x \<longleftrightarrow> slice_to_tensor xs [n] = Ok x"

lemma vec_shape: "shape_new [n] = Ok \<lparr>sh_dims = n # replicate (MAX_RANK - 1) 0, sh_rank = 1\<rparr>"
  by (simp add: shape_new_eq MAX_RANK_def)

lemma vec_tensor_iff: "vec_tensor xs n x \<longleftrightarrow> length xs = min n usize_max \<and>
    x = \<lparr>t_storage = StCpu (storage_from_f32 xs), t_shape = \<lparr>sh_dims = n # replicate (MAX_RANK - 1) 0, sh_rank = 1\<rparr>,
      t_strides = contiguous_strides \<lparr>sh_dims = n # replicate (MAX_RANK - 1) 0, sh_rank = 1\<rparr>, t_offset = 0, t_dtype = F32, t_device = Cpu\<rparr>"
  by (auto simp: vec_tensor_def slice_to_tensor_def vec_shape tensor_from_f32_def numel_eq shape_dims_def)

lemma vec_tensor_f32: "vec_tensor xs n x \<Longrightarrow> tensor_as_f32 why x = Ok xs"
  by (simp add: vec_tensor_iff tensor_as_f32_def)

lemma q_norm_plain:
  assumes "vec_tensor xs n x" and "n \<le> usize_max" and "q_norm e l key x ws no_observers = Ok (y, ob)"
  shows "norm_list (qe_lm e) xs ws (q_rms_eps (qe_weights e)) = Ok y \<and> ob = no_observers"
proof -
  have "length xs = n" using assms(1,2) by (simp add: vec_tensor_iff)
  then have "slice_to_tensor xs [length xs] = Ok x" using assms(1) by (simp add: vec_tensor_def)
  then show ?thesis using assms(3) by (auto simp: q_norm_def norm_list_def outcome_simps)
qed

lemma q_residual_vec:
  assumes "vec_tensor xs n x" and "q_residual n x ys = Ok x'" and "n \<le> usize_max"
  shows "vec_tensor (map2 f32_add xs ys) n x' \<and> length ys = n"
proof -
  obtain y where y: "vec_tensor ys n y" "tensor_add x y = Ok x'" using assms(2) by (auto simp: q_residual_def outcome_simps vec_tensor_def)
  have "strides_contiguous (contiguous_strides s) s" for s by (simp add: strides_contiguous_def)
  then have "vec_tensor (map2 f32_add xs ys) n x'" using assms(1,3) y
    by (auto simp: vec_tensor_iff tensor_add_def binary_op_def binary_apply_def check_compatible_def is_contiguous_def t_dims_def
        tensor_from_f32_def numel_eq shape_dims_def split: if_splits)
  then show ?thesis using y(1) assms(3) by (simp add: vec_tensor_iff)
qed

subsection \<open>A layer\<close>

text \<open>The values between the operations of a layer.\<close>

lemma q_attention_parts:
  assumes "q_attention e layer lay (x, st, no_observers) = Ok (x', st', ob)" and "qe_plan e = None"
    and "vec_tensor xs (c_dim (qe_cfg e)) x" and "c_dim (qe_cfg e) \<le> usize_max"
  obtains xb q_out q k v q' xo y where
    "norm_list (qe_lm e) xs (l_rms_att_weight lay) (q_rms_eps (qe_weights e)) = Ok xb" and "attn_q_out_dim (qe_cfg e) = Ok q_out"
    and "qe_linear e xb (l_wq lay) (c_dim (qe_cfg e)) q_out = Ok q" and "qe_linear e xb (l_wk lay) (c_dim (qe_cfg e)) (qe_kvd e) = Ok k"
    and "qe_linear e xb (l_wv lay) (c_dim (qe_cfg e)) (qe_kvd e) = Ok v"
    and "q_store_rope e layer (add_bias q (l_bq lay)) (add_bias k (l_bk lay)) (add_bias v (l_bv lay)) st = Ok (q', st')"
    and "oloop (q_attn_head (qe_lm e) (qe_cfg e) (qe_kvd e) (qe_kvm e) (qe_hs e) layer (qe_pos e) q' (rs_key_cache st') (rs_value_cache st'))
        [0..<c_n_heads (qe_cfg e)] (replicate (c_dim (qe_cfg e)) 0) = Ok xo"
    and "qe_linear e xo (l_wo lay) (c_dim (qe_cfg e)) (c_dim (qe_cfg e)) = Ok y"
    and "vec_tensor (map2 f32_add xs y) (c_dim (qe_cfg e)) x'" and "ob = no_observers"
proof -
  let ?dm = "c_dim (qe_cfg e)"
  note A = assms(1) [unfolded q_attention_def prod.case Let_def]
  obtain xb ob1 where n: "q_norm e (of_nat layer) (param_key ''rms_att'' layer) x (l_rms_att_weight lay) no_observers = Ok (xb, ob1)"
    using A by (auto elim!: obind_OkE)
  note n1 = q_norm_plain [OF assms(3,4) n]
  note A1 = A [unfolded n conjunct2 [OF n1] obind.simps prod.case]
  obtain q_out q k v where qkv: "attn_q_out_dim (qe_cfg e) = Ok q_out" "qe_linear e xb (l_wq lay) ?dm q_out = Ok q"
    "qe_linear e xb (l_wk lay) ?dm (qe_kvd e) = Ok k" "qe_linear e xb (l_wv lay) ?dm (qe_kvd e) = Ok v"
    using A1 by (auto simp: q_qkv_def q_project_plain Let_def elim!: obind_OkE omap_OkE)
  then have "q_qkv e layer lay xb no_observers = Ok ((add_bias q (l_bq lay), add_bias k (l_bk lay), add_bias v (l_bv lay)), no_observers)"
    by (simp add: q_qkv_def q_project_plain Let_def)
  note A2 = A1 [unfolded this obind.simps prod.case]
  obtain q' st1 where r: "q_store_rope e layer (add_bias q (l_bq lay)) (add_bias k (l_bk lay)) (add_bias v (l_bv lay)) st = Ok (q', st1)"
    using A2 by (auto elim!: obind_OkE)
  note A3 = A2 [unfolded r obind.simps prod.case]
  obtain xo where h: "oloop (q_attn_head (qe_lm e) (qe_cfg e) (qe_kvd e) (qe_kvm e) (qe_hs e) layer (qe_pos e) q' (rs_key_cache st1) (rs_value_cache st1))
        [0..<c_n_heads (qe_cfg e)] (replicate ?dm 0) = Ok xo" using A3 by (auto elim!: obind_OkE)
  obtain y x2 where y: "qe_linear e xo (l_wo lay) ?dm ?dm = Ok y" "q_residual ?dm x y = Ok x2" "x2 = x'" "ob = no_observers" "st1 = st'"
    using A3 [unfolded h] by (auto simp: q_project_plain assms(2) unseen_checkpoint elim!: obind_OkE omap_OkE)
  show thesis
    by (rule that [OF conjunct1 [OF n1] qkv]) (use r h y conjunct1 [OF q_residual_vec [OF assms(3) y(2) assms(4)]] in simp_all)
qed

lemma q_ffn_parts:
  assumes "q_ffn e layer lay (x, st, no_observers) = Ok (x', st', ob)" and "qe_plan e = None"
    and "vec_tensor xs (c_dim (qe_cfg e)) x" and "c_dim (qe_cfg e) \<le> usize_max"
  obtains xb gate up inner y where
    "norm_list (qe_lm e) xs (l_rms_ffn_weight lay) (q_rms_eps (qe_weights e)) = Ok xb"
    and "qe_linear e xb (l_w1 lay) (c_dim (qe_cfg e)) (c_hidden_dim (qe_cfg e)) = Ok gate"
    and "qe_linear e xb (l_w3 lay) (c_dim (qe_cfg e)) (c_hidden_dim (qe_cfg e)) = Ok up"
    and "q_swiglu (qe_lm e) (c_hidden_dim (qe_cfg e)) gate up = Ok inner"
    and "qe_linear e inner (l_w2 lay) (c_hidden_dim (qe_cfg e)) (c_dim (qe_cfg e)) = Ok y"
    and "vec_tensor (map2 f32_add xs y) (c_dim (qe_cfg e)) x'" and "st' = st" and "ob = no_observers"
proof -
  let ?dm = "c_dim (qe_cfg e)" and ?hd = "c_hidden_dim (qe_cfg e)"
  note A = assms(1) [unfolded q_ffn_def prod.case Let_def]
  obtain xb ob1 where n: "q_norm e (of_nat layer) (param_key ''rms_ffn'' layer) x (l_rms_ffn_weight lay) no_observers = Ok (xb, ob1)"
    using A by (auto elim!: obind_OkE)
  note n1 = q_norm_plain [OF assms(3,4) n]
  note A1 = A [unfolded n conjunct2 [OF n1] obind.simps prod.case]
  obtain gate up inner y x2 where y: "qe_linear e xb (l_w1 lay) ?dm ?hd = Ok gate" "qe_linear e xb (l_w3 lay) ?dm ?hd = Ok up"
    "q_swiglu (qe_lm e) ?hd gate up = Ok inner" "qe_linear e inner (l_w2 lay) ?hd ?dm = Ok y" "q_residual ?dm x y = Ok x2"
    "x2 = x'" "ob = no_observers" "st = st'"
    using A1 by (auto simp: q_project_plain assms(2) unseen_checkpoint elim!: obind_OkE omap_OkE)
  show thesis
    by (rule that [OF conjunct1 [OF n1] y(1-4)]) (use y conjunct1 [OF q_residual_vec [OF assms(3) y(5) assms(4)]] in simp_all)
qed

lemma q_lm_head_parts:
  assumes "q_lm_head e x no_observers = Ok (t, ob)" and "qe_plan e = None"
    and "vec_tensor xs (c_dim (qe_cfg e)) x" and "c_dim (qe_cfg e) \<le> usize_max"
  obtains xb y where
    "norm_list (qe_lm e) xs (q_rms_final_weight (qe_weights e)) (q_rms_eps (qe_weights e)) = Ok xb"
    and "qe_linear e xb (case q_wcls (qe_weights e) of Some c \<Rightarrow> c | None \<Rightarrow> q_token_embedding_table (qe_weights e)) (c_dim (qe_cfg e))
        (c_vocab_size (qe_cfg e)) = Ok y"
    and "vec_tensor y (c_vocab_size (qe_cfg e)) t"
proof -
  let ?w = "qe_weights e"
  note A = assms(1) [unfolded q_lm_head_def Let_def]
  obtain xb ob1 where n: "q_norm e U32_MAX (str ''rms_final'') x (q_rms_final_weight ?w) no_observers = Ok (xb, ob1)"
    using A by (auto elim!: obind_OkE)
  note n1 = q_norm_plain [OF assms(3,4) n]
  note A1 = A [unfolded n conjunct2 [OF n1] obind.simps prod.case]
  have o: "override_vec e cp m xs = xs" for cp m xs by (simp add: override_vec_def plan_override_def assms(2))
  obtain y where "qe_linear e xb (case q_wcls ?w of Some c \<Rightarrow> c | None \<Rightarrow> q_token_embedding_table ?w) (c_dim (qe_cfg e)) (c_vocab_size (qe_cfg e)) = Ok y"
    "vec_tensor y (c_vocab_size (qe_cfg e)) t"
    using A1 by (cases "q_wcls ?w") (auto simp: q_project_plain o vec_tensor_def elim!: obind_OkE omap_OkE)
  then show thesis by (rule that [OF conjunct1 [OF n1]])
qed


subsection \<open>Rotation\<close>

text \<open>
  The kernels \<open>rope_apply\<close> and \<open>rope_apply_neox\<close> of \<open>src/kernels/forward_ops.metal\<close> on one row: a thread
  for each head, which touches its own head only; here one after the other.
\<close>

definition rope_kernel :: "bool \<Rightarrow> nat \<Rightarrow> nat \<Rightarrow> f32 list \<Rightarrow> f32 list \<Rightarrow> f32 list \<Rightarrow> f32 list res" where
  "rope_kernel neox heads hs cosc sinc x =
     (let hd = hs div 2 in
      oloop (\<lambda>x h. let head_off = h * hs in
        oloop (\<lambda>x i. obind (oget cosc i) (\<lambda>c. obind (oget sinc i) (\<lambda>sn.
          if neox then rotate_pair c sn x (head_off + i) (head_off + i + hd)
          else rotate_pair c sn x (head_off + 2 * i) (head_off + 2 * i + 1)))) [0..<hd] x) [0..<heads] x)"

text \<open>A loop that stays in a window of a buffer runs on the window.\<close>

lemma oloop_window:
  assumes "\<And>i w. i \<in> set ks \<Longrightarrow> length w = n \<Longrightarrow> f (splice base off w) i = omap (splice base off) (g w i)"
    and "\<And>i w w'. i \<in> set ks \<Longrightarrow> length w = n \<Longrightarrow> g w i = Ok w' \<Longrightarrow> length w' = n" and "length w = n"
  shows "oloop f ks (splice base off w) = omap (splice base off) (oloop g ks w)"
  using assms
proof (induction ks arbitrary: w)
  case (Cons k ks)
  show ?case
  proof (cases "g w k")
    case (Ok w')
    have l: "length w' = n" using Cons.prems(2) [of k w w'] Cons.prems(3) Ok by simp
    have "oloop f ks (splice base off w') = omap (splice base off) (oloop g ks w')"
      by (rule Cons.IH [OF Cons.prems(1,2) l]) simp_all
    then show ?thesis using Cons.prems(1,3) Ok by simp
  qed (use Cons.prems in simp_all)
qed simp

lemma oloop_length:
  assumes "\<And>i w w'. i \<in> set ks \<Longrightarrow> length w = n \<Longrightarrow> g w i = Ok w' \<Longrightarrow> length w' = n" and "length w = n" and "oloop g ks w = Ok w'"
  shows "length w' = n"
  using oloop_invariant [OF assms(3), where P = "\<lambda>w. length w = n"] assms(1,2) by blast

lemma splice_nth: "length w = n \<Longrightarrow> i < n \<Longrightarrow> off + n \<le> length base \<Longrightarrow> splice base off w ! (off + i) = w ! i"
  by (simp add: splice_def nth_append)

lemma splice_update: "length w = n \<Longrightarrow> i < n \<Longrightarrow> off + n \<le> length base \<Longrightarrow> (splice base off w)[off + i := v] = splice base off (w[i := v])"
  by (simp add: splice_def list_update_append)

lemma rotate_pair_length: "rotate_pair c s w i j = Ok w' \<Longrightarrow> length w' = length w"
  by (auto simp: rotate_pair_def outcome_simps)

lemma rotate_pair_window:
  assumes "length w = n" and "i < n" and "j < n" and "off + n \<le> length base"
  shows "rotate_pair c s (splice base off w) (off + i) (off + j) = omap (splice base off) (rotate_pair c s w i j)"
  using assms by (simp add: rotate_pair_def oget_ok oset_ok splice_nth splice_update)

lemma rope_kernel_length: "rope_kernel neox heads hs c s x = Ok y \<Longrightarrow> length y = length x"
  unfolding rope_kernel_def Let_def
proof (erule oloop_length [rotated 2])
  fix h and w w' :: "f32 list"
  assume l: "length w = length x" and r: "oloop (\<lambda>x i. obind (oget c i) (\<lambda>c. obind (oget s i) (\<lambda>sn.
          if neox then rotate_pair c sn x (h * hs + i) (h * hs + i + hs div 2)
          else rotate_pair c sn x (h * hs + 2 * i) (h * hs + 2 * i + 1)))) [0..<hs div 2] w = Ok w'"
  show "length w' = length x"
    by (rule oloop_length [OF _ l r]) (auto simp: outcome_simps rotate_pair_length split: if_splits)
qed simp

lemma rope_cache_nth:
  assumes "j < hs div 2"
  shows "oget (fst (rope_cache lm theta hs pos)) j = Ok (cosf lm (rope_angle lm theta hs pos (2 * j)))"
    "oget (snd (rope_cache lm theta hs pos)) j = Ok (sinf lm (rope_angle lm theta hs pos (2 * j)))"
  using assms by (simp_all add: rope_cache_angles oget_ok)

lemma rope_neox_window:
  assumes "length w = heads * hs" and "off + heads * hs \<le> length base" and "length base \<le> usize_max"
  shows "rope_neox lm theta hs pos heads off (splice base off w)
    = omap (splice base off) (rope_kernel True heads hs (fst (rope_cache lm theta hs pos)) (snd (rope_cache lm theta hs pos)) w)"
  unfolding rope_neox_def rope_kernel_def Let_def
proof (rule oloop_window [where n = "heads * hs"])
  fix h and v :: "f32 list" assume h: "h \<in> set [0..<heads]" and v: "length v = heads * hs"
  have le: "h * hs + hs \<le> heads * hs" using h by (intro row_bound_le) simp
  show "oloop (\<lambda>xs j. rotate_pair (cosf lm (rope_angle lm theta hs pos (2 * j))) (sinf lm (rope_angle lm theta hs pos (2 * j))) xs
        (wrap_add (wrap_add off (wrap_mul h hs)) j) (wrap_add (wrap_add (wrap_add off (wrap_mul h hs)) j) (hs div 2))) [0..<hs div 2] (splice base off v)
    = omap (splice base off) (oloop (\<lambda>x i. obind (oget (fst (rope_cache lm theta hs pos)) i) (\<lambda>c. obind (oget (snd (rope_cache lm theta hs pos)) i) (\<lambda>sn.
        if True then rotate_pair c sn x (h * hs + i) (h * hs + i + hs div 2) else rotate_pair c sn x (h * hs + 2 * i) (h * hs + 2 * i + 1)))) [0..<hs div 2] v)"
  proof (rule oloop_window [where n = "heads * hs"])
    fix j and u :: "f32 list" assume j: "j \<in> set [0..<hs div 2]" and u: "length u = heads * hs"
    have f: "off + (h * hs + j + hs div 2) < off + heads * hs" using j le by simp
    then have "wrap_add (wrap_add off (wrap_mul h hs)) j = off + (h * hs + j)"
      "wrap_add (off + (h * hs + j)) (hs div 2) = off + (h * hs + j + hs div 2)" using assms(2,3) by simp_all
    then show "rotate_pair (cosf lm (rope_angle lm theta hs pos (2 * j))) (sinf lm (rope_angle lm theta hs pos (2 * j))) (splice base off u)
        (wrap_add (wrap_add off (wrap_mul h hs)) j) (wrap_add (wrap_add (wrap_add off (wrap_mul h hs)) j) (hs div 2))
      = omap (splice base off) (obind (oget (fst (rope_cache lm theta hs pos)) j) (\<lambda>c. obind (oget (snd (rope_cache lm theta hs pos)) j) (\<lambda>sn.
        if True then rotate_pair c sn u (h * hs + j) (h * hs + j + hs div 2) else rotate_pair c sn u (h * hs + 2 * j) (h * hs + 2 * j + 1))))"
      using rotate_pair_window [OF u, of "h * hs + j" "h * hs + j + hs div 2" off base] f j assms(2) by (simp add: rope_cache_nth)
  qed (use v in \<open>auto simp: outcome_simps rotate_pair_length\<close>)
qed (use assms(1) in \<open>auto elim!: oloop_length [rotated 2] simp: outcome_simps rotate_pair_length\<close>)


text \<open>The interleaved loop rotates the query and the key together; they are independent.\<close>

lemma rope_step_parts:
  assumes "oloop (rope_step lm theta hs pos kvd off) (map (\<lambda>j. 2 * j) [0..<n]) (q, kc) = Ok (q', kc')" and "even kvd"
  shows "oloop (\<lambda>q j. let v = rope_angle lm theta hs pos (2 * j mod hs) in rotate_pair (cosf lm v) (sinf lm v) q (2 * j) (2 * j + 1)) [0..<n] q = Ok q' \<and>
    oloop (\<lambda>k j. let v = rope_angle lm theta hs pos (2 * j mod hs) in
      rotate_pair (cosf lm v) (sinf lm v) k (wrap_add off (2 * j)) (wrap_add (wrap_add off (2 * j)) 1)) [0..<min n (kvd div 2)] kc = Ok kc'"
  using assms(1)
proof (induction n arbitrary: q' kc')
  case (Suc n)
  obtain q1 kc1 where 1: "oloop (rope_step lm theta hs pos kvd off) (map (\<lambda>j. 2 * j) [0..<n]) (q, kc) = Ok (q1, kc1)"
    "rope_step lm theta hs pos kvd off (q1, kc1) (2 * n) = Ok (q', kc')"
    using Suc.prems by (auto simp: oloop_append outcome_simps oloop_Nil_fun)
  have "2 * n < kvd \<longleftrightarrow> n < kvd div 2" using assms(2) by auto
  then show ?case using Suc.IH [OF 1(1)] 1(2)
    by (auto simp: rope_step_def outcome_simps oloop_append oloop_Nil_fun Let_def min_def not_less split: if_splits)
qed simp

lemma oloop_blocks: "oloop f [0..<m * w] s = oloop (\<lambda>s h. oloop (\<lambda>s i. f s (h * w + i)) [0..<w] s) [0..<m] s"
proof (induction m)
  case (Suc m)
  have "[0..<Suc m * w] = [0..<m * w] @ map (\<lambda>i. m * w + i) [0..<w]"
    using upt_add_eq_append [of 0 "m * w" w] map_add_upt [of "m * w" w] by (simp add: add.commute)
  then show ?case using Suc by (auto simp: oloop_append oloop_map oloop_Nil_fun obind_Ok_right intro!: obind_cong)
qed simp

lemma rope_block_window:
  assumes "length w = heads * hs" and "off + heads * hs \<le> length base" and "length base \<le> usize_max" and "even hs" and "0 < hs"
  shows "oloop (\<lambda>k j. let v = rope_angle lm theta hs pos (2 * j mod hs) in
      rotate_pair (cosf lm v) (sinf lm v) k (wrap_add off (2 * j)) (wrap_add (wrap_add off (2 * j)) 1)) [0..<heads * (hs div 2)] (splice base off w)
    = omap (splice base off) (rope_kernel False heads hs (fst (rope_cache lm theta hs pos)) (snd (rope_cache lm theta hs pos)) w)"
  unfolding rope_kernel_def Let_def oloop_blocks
proof (rule oloop_window [where n = "heads * hs"])
  fix h and v :: "f32 list" assume h: "h \<in> set [0..<heads]" and v: "length v = heads * hs"
  have le: "h * hs + hs \<le> heads * hs" using h by (intro row_bound_le) simp
  show "oloop (\<lambda>k i. rotate_pair (cosf lm (rope_angle lm theta hs pos (2 * (h * (hs div 2) + i) mod hs))) (sinf lm (rope_angle lm theta hs pos (2 * (h * (hs div 2) + i) mod hs)))
        k (wrap_add off (2 * (h * (hs div 2) + i))) (wrap_add (wrap_add off (2 * (h * (hs div 2) + i))) 1)) [0..<hs div 2] (splice base off v)
    = omap (splice base off) (oloop (\<lambda>x i. obind (oget (fst (rope_cache lm theta hs pos)) i) (\<lambda>c. obind (oget (snd (rope_cache lm theta hs pos)) i) (\<lambda>sn.
        if False then rotate_pair c sn x (h * hs + i) (h * hs + i + hs div 2) else rotate_pair c sn x (h * hs + 2 * i) (h * hs + 2 * i + 1)))) [0..<hs div 2] v)"
  proof (rule oloop_window [where n = "heads * hs"])
    fix j and u :: "f32 list" assume j: "j \<in> set [0..<hs div 2]" and u: "length u = heads * hs"
    have e: "2 * (h * (hs div 2) + j) = h * hs + 2 * j" using assms(4) by (auto elim!: evenE)
    have j2: "2 * j + 1 < hs" using j assms(4) by (auto elim!: evenE)
    then have m: "(h * hs + 2 * j) mod hs = 2 * j" by simp
    have f: "off + (h * hs + 2 * j + 1) < off + heads * hs" using j2 le by simp
    then have "wrap_add off (h * hs + 2 * j) = off + (h * hs + 2 * j)" "wrap_add (off + (h * hs + 2 * j)) 1 = off + (h * hs + 2 * j + 1)"
      using assms(2,3) by simp_all
    then show "rotate_pair (cosf lm (rope_angle lm theta hs pos (2 * (h * (hs div 2) + j) mod hs))) (sinf lm (rope_angle lm theta hs pos (2 * (h * (hs div 2) + j) mod hs)))
        (splice base off u) (wrap_add off (2 * (h * (hs div 2) + j))) (wrap_add (wrap_add off (2 * (h * (hs div 2) + j))) 1)
      = omap (splice base off) (obind (oget (fst (rope_cache lm theta hs pos)) j) (\<lambda>c. obind (oget (snd (rope_cache lm theta hs pos)) j) (\<lambda>sn.
        if False then rotate_pair c sn u (h * hs + j) (h * hs + j + hs div 2) else rotate_pair c sn u (h * hs + 2 * j) (h * hs + 2 * j + 1))))"
      unfolding e m using rotate_pair_window [OF u, of "h * hs + 2 * j" "h * hs + 2 * j + 1" off base] f j assms(2) by (simp add: rope_cache_nth)
  qed (use v in \<open>auto simp: outcome_simps rotate_pair_length\<close>)
qed (use assms(1) in \<open>auto elim!: oloop_length [rotated 2] simp: outcome_simps rotate_pair_length\<close>)

lemma splice_whole [simp]: "length w = length base \<Longrightarrow> splice base 0 w = w"
  by (simp add: splice_def)

lemma splice_slice: "off + n \<le> length xs \<Longrightarrow> splice xs off (slice xs off (off + n)) = xs"
  by (simp add: splice_def slice_def flip: append_assoc) (metis append_take_drop_id add.commute drop_drop take_add)

text \<open>The rotation of a position is the kernel on the query and on the key row of the position.\<close>

lemma rope_q_kernel:
  assumes "heads_ok cfg" and "rope_q lm theta neox cfg (hs_of cfg) pos (kvd_of cfg) off q kc = Ok (q', kc')"
    and "length q = c_dim cfg" and "c_dim cfg \<le> usize_max" and "off + kvd_of cfg \<le> length kc" and "length kc \<le> usize_max"
  defines "tables \<equiv> rope_cache lm theta (hs_of cfg) pos"
  shows "rope_kernel neox (c_n_heads cfg) (hs_of cfg) (fst tables) (snd tables) q = Ok q' \<and>
    (\<exists>k. rope_kernel neox (c_n_kv_heads cfg) (hs_of cfg) (fst tables) (snd tables) (slice kc off (off + kvd_of cfg)) = Ok k \<and> kc' = splice kc off k)"
proof -
  note F = heads_facts [OF assms(1)]
  let ?hs = "hs_of cfg" and ?nh = "c_n_heads cfg" and ?nkv = "c_n_kv_heads cfg" and ?w = "slice kc off (off + kvd_of cfg)"
  have nkv: "kvd_of cfg = ?nkv * ?hs" and even: "even ?hs" using assms(1) by (simp_all add: kvd_of_def heads_ok_def)
  have w: "length ?w = ?nkv * ?hs" "off + ?nkv * ?hs \<le> length kc" "splice kc off ?w = kc"
    using assms(5) nkv splice_slice [of off "kvd_of cfg" kc] by simp_all
  have q: "length q = ?nh * ?hs" "0 + ?nh * ?hs \<le> length q" "length q \<le> usize_max" using assms(3,4) F(1) by simp_all
  have whole: "omap (splice q 0) (rope_kernel b ?nh ?hs c s q) = rope_kernel b ?nh ?hs c s q" for b c s
    by (cases "rope_kernel b ?nh ?hs c s q") (auto simp: rope_kernel_length)
  show ?thesis
  proof (cases neox)
    case True
    have "odiv (kvd_of cfg) ?hs = Ok ?nkv" using F(2) nkv by (simp add: odiv_def)
    then have "rope_neox lm theta ?hs pos ?nh 0 q = Ok q'" "rope_neox lm theta ?hs pos ?nkv off kc = Ok kc'"
      using assms(2) True by (auto simp: rope_q_def outcome_simps)
    then have "rope_kernel True ?nh ?hs (fst tables) (snd tables) q = Ok q'"
      "omap (splice kc off) (rope_kernel True ?nkv ?hs (fst tables) (snd tables) ?w) = Ok kc'"
      using rope_neox_window [OF q, of lm theta pos] rope_neox_window [OF w(1,2) assms(6), of lm theta pos]
      by (simp_all add: w(3) whole tables_def)
    then show ?thesis using True by (auto elim: omap_OkE)
  next
    case False
    have n: "(c_dim cfg + 1) div 2 = ?nh * (?hs div 2)" "min (?nh * (?hs div 2)) (kvd_of cfg div 2) = ?nkv * (?hs div 2)"
      using F(1,5,7) even nkv by (auto elim!: evenE simp: mult.assoc [symmetric] min_def) 
    have "oloop (rope_step lm theta ?hs pos (kvd_of cfg) off) (map (\<lambda>j. 2 * j) [0..<?nh * (?hs div 2)]) (q, kc) = Ok (q', kc')"
      using assms(2) False by (simp add: rope_q_def rope_interleaved_def evens_below_def n [simplified])
    note parts = rope_step_parts [OF this F(6), unfolded n]
    have "oloop (\<lambda>q j. let v = rope_angle lm theta ?hs pos (2 * j mod ?hs) in rotate_pair (cosf lm v) (sinf lm v) q (wrap_add 0 (2 * j)) (wrap_add (wrap_add 0 (2 * j)) 1))
        [0..<?nh * (?hs div 2)] q = Ok q'"
      using conjunct1 [OF parts]
    proof (rule trans [rotated], intro oloop_cong refl)
      fix j s assume "j \<in> set [0..<?nh * (?hs div 2)]"
      then have "2 * j + 1 < c_dim cfg" using n(1) F(7) by (auto elim!: evenE)
      then have "wrap_add 0 (2 * j) = 2 * j" "wrap_add (2 * j) 1 = 2 * j + 1" using assms(4) by simp_all
      then show "(let v = rope_angle lm theta ?hs pos (2 * j mod ?hs) in rotate_pair (cosf lm v) (sinf lm v) s (wrap_add 0 (2 * j)) (wrap_add (wrap_add 0 (2 * j)) 1))
        = (let v = rope_angle lm theta ?hs pos (2 * j mod ?hs) in rotate_pair (cosf lm v) (sinf lm v) s (2 * j) (2 * j + 1))" by simp
    qed
    then have "rope_kernel False ?nh ?hs (fst tables) (snd tables) q = Ok q'"
      "omap (splice kc off) (rope_kernel False ?nkv ?hs (fst tables) (snd tables) ?w) = Ok kc'"
      using parts rope_block_window [OF q even F(2), of lm theta pos] rope_block_window [OF w(1,2) assms(6) even F(2), of lm theta pos]
      by (simp_all add: w(3) whole tables_def)
    then show ?thesis using False by (auto elim: omap_OkE)
  qed
qed


subsection \<open>Attention\<close>

text \<open>One head on the cache of one layer.\<close>

definition attend :: "libm \<Rightarrow> nat \<Rightarrow> nat \<Rightarrow> nat \<Rightarrow> nat \<Rightarrow> f32 list \<Rightarrow> f32 list \<Rightarrow> f32 list \<Rightarrow> nat \<Rightarrow> f32 list res" where
  "attend lm hs kvd kvm pos q kl vl h =
     (let tlen = pos + 1; row = (\<lambda>t. t * kvd + h div kvm * hs) in
      obind (omapM (\<lambda>t. omap (\<lambda>s. f32_div s (sqrtf lm (f32_of_nat hs)))
          (canonical_dot (slice q (h * hs) (h * hs + hs)) (slice kl (row t) (row t + hs)) hs)) [0..<tlen]) (\<lambda>att.
      obind (softmax_inplace lm att) (\<lambda>att.
      omapM (\<lambda>d. canonical_dot att (map (\<lambda>t. vl ! (row t + d)) [0..<tlen]) tlen) [0..<hs])))"

definition layer_of :: "Config \<Rightarrow> nat \<Rightarrow> 'a list \<Rightarrow> 'a list" where
  "layer_of cfg l xs = slice xs (l * (c_seq_len cfg * kvd_of cfg)) (l * (c_seq_len cfg * kvd_of cfg) + c_seq_len cfg * kvd_of cfg)"

lemma layer_bound: "l < c_n_layers cfg \<Longrightarrow> l * (c_seq_len cfg * kvd_of cfg) + c_seq_len cfg * kvd_of cfg \<le> cache_size cfg"
  using row_bound_le [of l "c_n_layers cfg" "c_seq_len cfg * kvd_of cfg"] by (simp add: cache_size_def mult.assoc)

lemma omapM_snoc: "omapM f (xs @ [x]) = obind (omapM f xs) (\<lambda>ys. omap (\<lambda>y. ys @ [y]) (f x))"
proof (induction xs)
  case (Cons a xs)
  then show ?case by (cases "f a") (simp_all add: obind_assoc obind_omap omap_bind omap_twice obind_Ok_map)
qed (cases "f x"; simp)

text \<open>Filling a buffer by a loop.\<close>


lemma fill_prefix:
  assumes "\<And>i ys. i < n \<Longrightarrow> length ys = length xs \<Longrightarrow> body ys i = omap (\<lambda>v. ys[off + i := v]) (g i)" and "off + n \<le> length xs"
  shows "m \<le> n \<Longrightarrow> oloop body [0..<m] xs = omap (splice xs off) (omapM g [0..<m])"
proof (induction m)
  case (Suc m)
  have "body (splice xs off ys) m = omap (\<lambda>v. splice xs off (ys @ [v])) (g m)" if "length ys = m" for ys
  proof -
    have "(splice xs off ys)[off + m := v] = splice xs off (ys @ [v])" for v
      using that assms(2) Suc.prems by (simp add: splice_def list_update_append Cons_nth_drop_Suc [symmetric])
    then show ?thesis using assms Suc.prems that by simp
  qed
  then show ?case using Suc omapM_length [of g "[0..<m]"]
    by (cases "omapM g [0..<m]") (auto simp: oloop_append oloop_Nil_fun omapM_snoc omap_twice)
qed (simp add: splice_def)

text \<open>The same with a scratch buffer that every round overwrites.\<close>

lemma fill_prefix_scratch:
  assumes "\<And>i ys v. i < n \<Longrightarrow> length ys = length xs \<Longrightarrow> length v = k \<Longrightarrow> body (ys, v) i = omap (\<lambda>r. (ys[off + i := r], col i)) (g i)"
    and "\<And>i. length (col i) = k" and "length v = k" and "off + n \<le> length xs"
  shows "m \<le> n \<Longrightarrow> oloop body [0..<m] (xs, v) = omap (\<lambda>ys. (splice xs off ys, if m = 0 then v else col (m - 1))) (omapM g [0..<m])"
proof (induction m)
  case (Suc m)
  have "body (splice xs off ys, w) m = omap (\<lambda>r. (splice xs off (ys @ [r]), col m)) (g m)" if "length ys = m" "length w = k" for ys w
  proof -
    have "(splice xs off ys)[off + m := r] = splice xs off (ys @ [r])" for r
      using that assms(4) Suc.prems by (simp add: splice_def list_update_append Cons_nth_drop_Suc [symmetric])
    then show ?thesis using assms Suc.prems that by simp
  qed
  then show ?case using Suc assms(2,3) omapM_length [of g "[0..<m]"]
    by (cases "omapM g [0..<m]") (auto simp: oloop_append oloop_Nil_fun omapM_snoc omap_twice)
qed (simp add: splice_def)

lemma head_offset_eq:
  assumes "heads_ok cfg" and "cache_size cfg \<le> usize_max" and "l < c_n_layers cfg" and "t < c_seq_len cfg" and "h < c_n_heads cfg"
  shows "head_offset cfg (kvd_of cfg) (kvm_of cfg) (hs_of cfg) l t h
      = Ok (l * (c_seq_len cfg * kvd_of cfg) + (t * kvd_of cfg + h div kvm_of cfg * hs_of cfg))"
    and "t * kvd_of cfg + h div kvm_of cfg * hs_of cfg + hs_of cfg \<le> c_seq_len cfg * kvd_of cfg"
proof -
  note F = heads_facts [OF assms(1)]
  let ?g = "h div kvm_of cfg" and ?o = "(l * c_seq_len cfg + t) * kvd_of cfg"
  have g: "?g * hs_of cfg + hs_of cfg \<le> kvd_of cfg"
    using row_bound_le [OF F(8) [OF assms(5)], of "hs_of cfg"] by (simp add: kvd_of_def)
  then show "t * kvd_of cfg + ?g * hs_of cfg + hs_of cfg \<le> c_seq_len cfg * kvd_of cfg"
    using row_bound_le [OF assms(4), of "kvd_of cfg"] by linarith
  have "?o + ?g * hs_of cfg + hs_of cfg \<le> cache_size cfg" using cache_row_bound [OF assms(3,4)] g by linarith
  then have "?o + ?g * hs_of cfg \<le> usize_max" "?g * hs_of cfg \<le> usize_max" using assms(2) by linarith+
  then have "wrap_add ?o (wrap_mul ?g (hs_of cfg)) = ?o + ?g * hs_of cfg" by simp
  then show "head_offset cfg (kvd_of cfg) (kvm_of cfg) (hs_of cfg) l t h
      = Ok (l * (c_seq_len cfg * kvd_of cfg) + (t * kvd_of cfg + ?g * hs_of cfg))"
    using F(3) by (simp add: head_offset_def odiv_def kv_offset_eq [OF assms(3,4,2)] add_mult_distrib mult.assoc)
qed

lemma q_attn_head_attend:
  assumes "heads_ok cfg" and "sizes_ok cfg" and "l < c_n_layers cfg" and "pos < c_seq_len cfg" and "h < c_n_heads cfg"
    and "length q = c_dim cfg" and "length kc = cache_size cfg" and "length vc = cache_size cfg" and "length xb = c_dim cfg"
  shows "q_attn_head lm cfg (kvd_of cfg) (kvm_of cfg) (hs_of cfg) l pos q kc vc xb h
    = omap (splice xb (h * hs_of cfg)) (attend lm (hs_of cfg) (kvd_of cfg) (kvm_of cfg) pos q (layer_of cfg l kc) (layer_of cfg l vc) h)"
proof -
  let ?hs = "hs_of cfg" and ?kvd = "kvd_of cfg" and ?kvm = "kvm_of cfg" and ?L = "l * (c_seq_len cfg * kvd_of cfg)"
  let ?row = "\<lambda>t. t * ?kvd + h div ?kvm * ?hs"
  have C: "cache_size cfg \<le> usize_max" and D: "c_dim cfg \<le> usize_max" using sizes_facts [OF assms(2,1,3)] by simp_all
  have "c_seq_len cfg \<le> cache_size cfg" using heads_facts(4) [OF assms(1)] assms(3) by (simp add: cache_size_def)
  then have tlen: "wrap_add pos 1 = pos + 1" "pos + 1 \<le> c_seq_len cfg" using C assms(4) by simp_all
  note H = head_offset_eq [OF assms(1) C assms(3) _ assms(5)]
  note B = layer_bound [OF assms(3)]
  have hq: "h * ?hs + ?hs \<le> c_dim cfg" using row_bound_le [OF assms(5), of ?hs] heads_facts(1) [OF assms(1)] by simp
  have in_layer: "slice kc (?L + r) (?L + r + ?hs) = slice (layer_of cfg l kc) r (r + ?hs)" if "r + ?hs \<le> c_seq_len cfg * ?kvd" for r
    using that by (simp add: layer_of_def slice_slice add.assoc)
  have scores: "q_attn_scores cfg ?kvd ?kvm ?hs l (pos + 1) sq h q kc
      = omapM (\<lambda>t. omap (\<lambda>s. f32_div s sq) (canonical_dot (slice q (h * ?hs) (h * ?hs + ?hs)) (slice (layer_of cfg l kc) (?row t) (?row t + ?hs)) ?hs)) [0..<pos + 1]" for sq
  proof -
    let ?g = "\<lambda>t. omap (\<lambda>s. f32_div s sq) (canonical_dot (slice q (h * ?hs) (h * ?hs + ?hs)) (slice (layer_of cfg l kc) (?row t) (?row t + ?hs)) ?hs)"
    have "q_attn_scores cfg ?kvd ?kvm ?hs l (pos + 1) sq h q kc = omap (splice (replicate (pos + 1) 0) 0) (omapM ?g [0..<pos + 1])"
      unfolding q_attn_scores_def
    proof (rule fill_prefix [where n = "pos + 1"])
      fix t and ys :: "f32 list" assume t: "t < pos + 1" and ys: "length ys = length (replicate (pos + 1) (0 :: f32))"
      have h: "wrap_mul h ?hs = h * ?hs" "wrap_add (h * ?hs) ?hs = h * ?hs + ?hs" using hq D by simp_all
      have r: "?row t + ?hs \<le> c_seq_len cfg * ?kvd" "?L + ?row t + ?hs \<le> length kc" using H(2) [of t] t tlen(2) B assms(7) by simp_all
      then have k: "wrap_add (?L + ?row t) ?hs = ?L + ?row t + ?hs" using assms(7) C by simp
      show "obind (head_offset cfg ?kvd ?kvm ?hs l t h) (\<lambda>k_off. obind (oslice kc k_off (wrap_add k_off ?hs)) (\<lambda>ks.
          obind (oslice q (wrap_mul h ?hs) (wrap_add (wrap_mul h ?hs) ?hs)) (\<lambda>qs. obind (canonical_dot qs ks ?hs) (\<lambda>score. oset ys t (f32_div score sq)))))
        = omap (\<lambda>v. ys[0 + t := v]) (?g t)"
        using H(1) [of t] t tlen(2) r k h hq assms(6) ys in_layer [OF r(1)] by (simp add: oset_ok omap_twice obind_Ok_map)
    qed simp_all
    also have "\<dots> = omapM ?g [0..<pos + 1]"
      by (cases "omapM ?g [0..<pos + 1]") (auto dest: omapM_length simp del: upt_Suc)
    finally show ?thesis .
  qed
  have vals: "q_attn_values cfg ?kvd ?kvm ?hs l (pos + 1) h att vc xb
      = omap (splice xb (h * ?hs)) (omapM (\<lambda>d. canonical_dot att (map (\<lambda>t. layer_of cfg l vc ! (?row t + d)) [0..<pos + 1]) (pos + 1)) [0..<?hs])"
    if att: "length att = pos + 1" for att
  proof -
    let ?col = "\<lambda>d. map (\<lambda>t. layer_of cfg l vc ! (?row t + d)) [0..<pos + 1]"
    let ?g = "\<lambda>d. canonical_dot att (?col d) (pos + 1)"
    let ?body = "\<lambda>(xb, vcol) d. obind (oloop (\<lambda>vcol t. obind (head_offset cfg ?kvd ?kvm ?hs l t h) (\<lambda>v_off.
             obind (oget vc (wrap_add v_off d)) (oset vcol t))) [0..<pos + 1] vcol) (\<lambda>vcol.
         obind (canonical_dot att vcol (pos + 1)) (\<lambda>r. omap (\<lambda>xb. (xb, vcol)) (oset xb (wrap_add (wrap_mul h ?hs) d) r)))"
    have col: "oloop (\<lambda>vcol t. obind (head_offset cfg ?kvd ?kvm ?hs l t h) (\<lambda>v_off. obind (oget vc (wrap_add v_off d)) (oset vcol t))) [0..<pos + 1] v
        = (Ok (?col d) :: f32 list res)" if d: "d < ?hs" and v: "length v = pos + 1" for d v
    proof -
      have "oloop (\<lambda>vcol t. obind (head_offset cfg ?kvd ?kvm ?hs l t h) (\<lambda>v_off. obind (oget vc (wrap_add v_off d)) (oset vcol t))) [0..<pos + 1] v
          = (omap (splice v 0) (omapM (\<lambda>t. Ok (layer_of cfg l vc ! (?row t + d))) [0..<pos + 1]) :: f32 list res)"
      proof (rule fill_prefix [where n = "pos + 1"])
        fix t and ys :: "f32 list" assume t: "t < pos + 1" and ys: "length ys = length v"
        have r: "?row t + d < c_seq_len cfg * ?kvd" "?L + (?row t + d) < length vc" using H(2) [of t] t tlen(2) d B assms(8) by simp_all
        then have "wrap_add (?L + ?row t) d = ?L + (?row t + d)" using assms(8) C by simp
        moreover have "layer_of cfg l vc ! (?row t + d) = vc ! (?L + (?row t + d))" using r B assms(8) by (simp add: layer_of_def)
        ultimately show "obind (head_offset cfg ?kvd ?kvm ?hs l t h) (\<lambda>v_off. obind (oget vc (wrap_add v_off d)) (oset ys t))
          = omap (\<lambda>x. ys[0 + t := x]) (Ok (layer_of cfg l vc ! (?row t + d)) :: f32 res)"
          using H(1) [of t] t tlen(2) r ys v by (simp add: oset_ok oget_ok)
      qed (use v in simp_all)
      then show ?thesis using v by (simp add: omapM_Ok del: upt_Suc)
    qed
    have "oloop ?body [0..<?hs] (xb, replicate (pos + 1) 0)
        = omap (\<lambda>ys. (splice xb (h * ?hs) ys, if ?hs = 0 then replicate (pos + 1) 0 else ?col (?hs - 1))) (omapM ?g [0..<?hs])"
    proof (rule fill_prefix_scratch [where n = ?hs and k = "pos + 1"])
      fix d and ys v :: "f32 list" assume d: "d < ?hs" and ys: "length ys = length xb" and v: "length v = pos + 1"
      show "?body (ys, v) d = omap (\<lambda>r. (ys[h * ?hs + d := r], ?col d)) (?g d)"
        using head_index [OF assms(1,2,5) d] ys assms(9) unfolding prod.case col [OF d v]
        by (simp add: oset_ok obind_Ok_map del: upt_Suc)
    qed (use hq assms(9) in simp_all)
    then show ?thesis unfolding q_attn_values_def by (simp add: omap_twice del: upt_Suc)
  qed
  show ?thesis unfolding q_attn_head_def attend_def Let_def tlen(1) scores
  proof (cases "omapM (\<lambda>t. omap (\<lambda>s. f32_div s (sqrtf lm (f32_of_nat ?hs))) (canonical_dot (slice q (h * ?hs) (h * ?hs + ?hs))
      (slice (layer_of cfg l kc) (?row t) (?row t + ?hs)) ?hs)) [0..<pos + 1]")
    case (Ok s)
    then have "length s = pos + 1" by (simp add: omapM_length del: upt_Suc)
    then obtain att where "softmax_inplace lm s = Ok att" "length att = pos + 1" using softmax_inplace_oks [of lm s] by (auto simp: oks_def)
    then show "obind (omapM (\<lambda>t. omap (\<lambda>s. f32_div s (sqrtf lm (f32_of_nat ?hs))) (canonical_dot (slice q (h * ?hs) (h * ?hs + ?hs))
        (slice (layer_of cfg l kc) (?row t) (?row t + ?hs)) ?hs)) [0..<pos + 1])
        (\<lambda>att. obind (softmax_inplace lm att) (\<lambda>att. q_attn_values cfg ?kvd ?kvm ?hs l (pos + 1) h att vc xb))
      = omap (splice xb (h * ?hs)) (obind (omapM (\<lambda>t. omap (\<lambda>s. f32_div s (sqrtf lm (f32_of_nat ?hs))) (canonical_dot (slice q (h * ?hs) (h * ?hs + ?hs))
        (slice (layer_of cfg l kc) (?row t) (?row t + ?hs)) ?hs)) [0..<pos + 1])
        (\<lambda>att. obind (softmax_inplace lm att) (\<lambda>att. omapM (\<lambda>d. canonical_dot att (map (\<lambda>t. layer_of cfg l vc ! (?row t + d)) [0..<pos + 1]) (pos + 1)) [0..<?hs])))"
      using Ok vals [of att] by (simp del: upt_Suc)
  qed (simp_all del: upt_Suc)
qed


lemma splice_rows:
  assumes "\<And>r ys. r < n \<Longrightarrow> length ys = length xs \<Longrightarrow> body ys r = omap (splice ys (r * w)) (f r)"
    and "\<And>r y. f r = Ok y \<Longrightarrow> length y = w" and "n * w \<le> length xs"
  shows "m \<le> n \<Longrightarrow> oloop body [0..<m] xs = omap (\<lambda>yss. concat yss @ drop (m * w) xs) (omapM f [0..<m])"
proof (induction m)
  case (Suc m)
  show ?case
  proof (cases "omapM f [0..<m]")
    case (Ok yss)
    have "length (yss ! i) = w" if "i < m" for i using omapM_nth [OF Ok, of i] assms(2) that by simp
    moreover have "length yss = m" using omapM_length [OF Ok] by simp
    ultimately have "\<forall>y\<in>set yss. length y = w" by (metis in_set_conv_nth)
    then have len: "length (concat yss) = m * w" using \<open>length yss = m\<close> by (induction yss arbitrary: m) auto
    have mw: "m * w + w \<le> length xs" using Suc.prems row_bound_le [of m n w] assms(3) by simp
    have "splice (concat yss @ drop (m * w) xs) (m * w) y = concat (yss @ [y]) @ drop (Suc m * w) xs" if "length y = w" for y
      using len that by (simp add: splice_def add.commute)
    then show ?thesis using Suc Ok assms len mw
      by (cases "f m") (simp_all add: oloop_append omapM_snoc)
  qed (use Suc in \<open>simp_all add: oloop_append omapM_snoc\<close>)
qed simp

lemma attend_length: "attend lm hs kvd kvm pos q kl vl h = Ok y \<Longrightarrow> length y = hs"
  by (auto simp: attend_def outcome_simps Let_def dest!: omapM_length)

lemma attention_heads:
  assumes "heads_ok cfg" and "sizes_ok cfg" and "l < c_n_layers cfg" and "pos < c_seq_len cfg"
    and "length q = c_dim cfg" and "length kc = cache_size cfg" and "length vc = cache_size cfg"
  shows "oloop (q_attn_head lm cfg (kvd_of cfg) (kvm_of cfg) (hs_of cfg) l pos q kc vc) [0..<c_n_heads cfg] (replicate (c_dim cfg) 0)
    = omap concat (omapM (attend lm (hs_of cfg) (kvd_of cfg) (kvm_of cfg) pos q (layer_of cfg l kc) (layer_of cfg l vc)) [0..<c_n_heads cfg])"
proof -
  have "c_n_heads cfg * hs_of cfg = c_dim cfg" by (rule heads_facts(1) [OF assms(1)])
  moreover have "oloop (q_attn_head lm cfg (kvd_of cfg) (kvm_of cfg) (hs_of cfg) l pos q kc vc) [0..<c_n_heads cfg] (replicate (c_dim cfg) 0)
    = omap (\<lambda>yss. concat yss @ drop (c_n_heads cfg * hs_of cfg) (replicate (c_dim cfg) 0))
        (omapM (attend lm (hs_of cfg) (kvd_of cfg) (kvm_of cfg) pos q (layer_of cfg l kc) (layer_of cfg l vc)) [0..<c_n_heads cfg])"
    by (rule splice_rows [OF _ attend_length _ order_refl]) (use calculation assms in \<open>simp_all add: q_attn_head_attend\<close>)
  ultimately show ?thesis by simp
qed


subsection \<open>The cache of a layer\<close>

lemma slice_splice_in: "o' + length ys \<le> b - a \<Longrightarrow> a \<le> b \<Longrightarrow> b \<le> length xs \<Longrightarrow> slice (splice xs (a + o') ys) a b = splice (slice xs a b) o' ys"
  by (simp add: slice_def splice_def drop_take) (simp add: ac_simps)

lemma slice_splice_out: "a \<le> b \<Longrightarrow> b \<le> length xs \<Longrightarrow> o' + length ys \<le> length xs \<Longrightarrow> b \<le> o' \<or> o' + length ys \<le> a \<Longrightarrow>
    slice (splice xs o' ys) a b = slice xs a b"
  by (intro nth_equalityI) (auto simp: splice_def nth_append)

lemma layer_of_splice:
  assumes "l < c_n_layers cfg" and "l' < c_n_layers cfg" and "pos < c_seq_len cfg" and "length k = kvd_of cfg" and "length xs = cache_size cfg"
  shows "layer_of cfg l' (splice xs ((l * c_seq_len cfg + pos) * kvd_of cfg) k)
    = (if l' = l then splice (layer_of cfg l xs) (pos * kvd_of cfg) k else layer_of cfg l' xs)"
proof -
  let ?w = "c_seq_len cfg * kvd_of cfg"
  have p: "pos * kvd_of cfg + kvd_of cfg \<le> ?w" by (rule row_bound_le [OF assms(3)])
  have off: "(l * c_seq_len cfg + pos) * kvd_of cfg = l * ?w + pos * kvd_of cfg" by (simp add: add_mult_distrib mult.assoc)
  show ?thesis
  proof (cases "l' = l")
    case True
    then show ?thesis using p assms(4,5) layer_bound [OF assms(1)] by (simp add: layer_of_def off slice_splice_in)
  next
    case False
    then have "l' * ?w + ?w \<le> l * ?w \<or> l * ?w + ?w \<le> l' * ?w"
      using row_bound_le [of l' l ?w] row_bound_le [of l l' ?w] by (cases "l' < l") auto
    then have "l' * ?w + ?w \<le> l * ?w + pos * kvd_of cfg \<or> l * ?w + pos * kvd_of cfg + length k \<le> l' * ?w" using p assms(4) by linarith
    then show ?thesis using False p assms(4,5) layer_bound [OF assms(1)] layer_bound [OF assms(2)]
      by (simp add: layer_of_def off slice_splice_out)
  qed
qed

lemma store_rope_parts:
  assumes "env_ok e" and "layer < c_n_layers (qe_cfg e)" and "state_ok (qe_cfg e) st" and "length q = c_dim (qe_cfg e)"
    and "length k = kvd_of (qe_cfg e)" and "length v = kvd_of (qe_cfg e)" and "q_store_rope e layer q k v st = Ok (q', st')"
  defines "tables \<equiv> rope_cache (qe_lm e) (q_rope_theta (qe_weights e)) (hs_of (qe_cfg e)) (qe_pos e)"
    and "off \<equiv> (layer * c_seq_len (qe_cfg e) + qe_pos e) * kvd_of (qe_cfg e)"
  obtains k' where
    "rope_kernel (q_rope_neox (qe_weights e)) (c_n_heads (qe_cfg e)) (hs_of (qe_cfg e)) (fst tables) (snd tables) q = Ok q'"
    and "rope_kernel (q_rope_neox (qe_weights e)) (c_n_kv_heads (qe_cfg e)) (hs_of (qe_cfg e)) (fst tables) (snd tables) k = Ok k'"
    and "st' = st\<lparr>rs_key_cache := splice (rs_key_cache st) off k', rs_value_cache := splice (rs_value_cache st) off v\<rparr>"
proof -
  let ?cfg = "qe_cfg e"
  note E = env_facts [OF assms(1)]
  have S: "c_dim ?cfg \<le> usize_max" "cache_size ?cfg \<le> usize_max" using sizes_facts [OF E(2,1) assms(2)] by simp_all
  have b: "off + kvd_of ?cfg \<le> cache_size ?cfg" unfolding off_def by (rule cache_row_bound [OF assms(2) E(3)])
  have off: "kv_offset ?cfg (kvd_of ?cfg) layer (qe_pos e) = off" unfolding off_def by (rule kv_offset_eq [OF assms(2) E(3) S(2)])
  have w: "wrap_add off (kvd_of ?cfg) = off + kvd_of ?cfg" using b S(2) by simp
  have len: "length (rs_key_cache st) = cache_size ?cfg" "length (rs_value_cache st) = cache_size ?cfg"
    using assms(3) by (simp_all add: state_ok_def)
  let ?kc = "splice (rs_key_cache st) off k"
  have kc: "length ?kc = cache_size ?cfg" "slice ?kc off (off + kvd_of ?cfg) = k"
    using b len assms(5) by (simp_all add: splice_def slice_def)
  obtain kc' where r: "rope_q (qe_lm e) (q_rope_theta (qe_weights e)) (q_rope_neox (qe_weights e)) ?cfg (hs_of ?cfg) (qe_pos e) (kvd_of ?cfg) off q ?kc = Ok (q', kc')"
    and st': "st' = st\<lparr>rs_key_cache := kc', rs_value_cache := splice (rs_value_cache st) off v\<rparr>"
    using assms(7) b len assms(5,6) by (auto simp: q_store_rope_def Let_def E(5,7) off w ocopy_def outcome_simps)
  obtain k' where k': "rope_kernel (q_rope_neox (qe_weights e)) (c_n_heads ?cfg) (hs_of ?cfg) (fst tables) (snd tables) q = Ok q'"
    "rope_kernel (q_rope_neox (qe_weights e)) (c_n_kv_heads ?cfg) (hs_of ?cfg) (fst tables) (snd tables) k = Ok k'" "kc' = splice ?kc off k'"
    using rope_q_kernel [OF E(1) r assms(4) S(1)] b kc S(2) by (auto simp: tables_def)
  have "splice ?kc off k' = splice (rs_key_cache st) off k'"
    using b len(1) assms(5) rope_kernel_length [OF k'(2)] by (simp add: splice_def)
  then show thesis using that k' st' by simp
qed

subsection \<open>Rows of a linear layer\<close>

text \<open>One output row, for the weight types of the mixed models by the numbers the backends give them.\<close>

definition block_row :: "(bytes \<Rightarrow> f32 list res) \<Rightarrow> nat \<Rightarrow> bytes \<Rightarrow> nat \<Rightarrow> f32 list \<Rightarrow> nat \<Rightarrow> f32 res" where
  "block_row decode rb w k x r = obind (oslice w (r * rb) (r * rb + rb)) (\<lambda>bs. obind (decode bs) (\<lambda>row. canonical_dot x row k))"

definition linear_row :: "u8 \<Rightarrow> u8 \<Rightarrow> bytes \<Rightarrow> nat \<Rightarrow> f32 list \<Rightarrow> nat \<Rightarrow> f32 res" where
  "linear_row regime kind w k x r =
     (if kind = 2 then block_row dequantize_q8_0 (k div 32 * 34) w k x r
      else if kind = 3 then block_row dequantize_q5_0 (k div 32 * 22) w k x r
      else if regime = 3 then obind (quantize_row k x) (\<lambda>q. omap running_sum
        (if kind = 1 then q6k_int_parts w k q r else q4k_int_parts dot32_pair_scalar w k q r))
      else if kind = 1 then obind (quantize_row k x) (\<lambda>q. omap fixed_tree (q6k_int_parts w k q r))
      else q4k_fused_row w k x r)"

definition kind_of :: "GgufTensorType \<Rightarrow> u8 option" where
  "kind_of t = (case t of GT_Q4_K \<Rightarrow> Some 0 | GT_Q6_K \<Rightarrow> Some 1 | GT_Q8_0 \<Rightarrow> Some 2 | GT_Q5_0 \<Rightarrow> Some 3 | _ \<Rightarrow> None)"

lemma obind_oset: "r < length ys \<Longrightarrow> obind m (oset ys r) = omap (\<lambda>v. ys[r := v]) m"
  by (cases m) (simp_all add: oset_ok)

lemma dispatch_rows_eq:
  assumes "rb = Ok m" and "out_feat * m \<le> length (qt_bytes w)" and "length (qt_bytes w) \<le> usize_max"
  shows "dispatch_rows msg decode rb x w k out_feat (replicate out_feat 0) = omapM (block_row decode m (qt_bytes w) k x) [0..<out_feat]"
proof -
  have "oloop (\<lambda>y r. obind (oslice (qt_bytes w) (wrap_mul r m) (wrap_mul (r + 1) m)) (\<lambda>bs.
          obind (decode bs) (\<lambda>row. obind (canonical_dot x row k) (oset y r)))) [0..<out_feat] (replicate out_feat 0)
      = omap (splice (replicate out_feat 0) 0) (omapM (block_row decode m (qt_bytes w) k x) [0..<out_feat])"
  proof (rule fill_prefix [where n = out_feat])
    fix r and ys :: "f32 list" assume r: "r < out_feat" and ys: "length ys = length (replicate out_feat (0 :: f32))"
    have le: "r * m + m \<le> length (qt_bytes w)" using row_bound_le [OF r, of m] assms(2) by linarith
    then have "wrap_mul (r + 1) m = r * m + m" "wrap_mul r m = r * m" using assms(3) by (simp_all add: add.commute)
    then show "obind (oslice (qt_bytes w) (wrap_mul r m) (wrap_mul (r + 1) m)) (\<lambda>bs. obind (decode bs) (\<lambda>row. obind (canonical_dot x row k) (oset ys r)))
        = omap (\<lambda>v. ys[0 + r := v]) (block_row decode m (qt_bytes w) k x r)"
      using r ys by (simp add: block_row_def omap_bind obind_oset)
  qed simp_all
  also have "\<dots> = omapM (block_row decode m (qt_bytes w) k x) [0..<out_feat]"
    by (cases "omapM (block_row decode m (qt_bytes w) k x) [0..<out_feat]") (auto dest: omapM_length)
  finally show ?thesis using assms by (simp add: dispatch_rows_def)
qed


lemma linear_rows:
  assumes "linear_ok base w k n" and "kind_of (qt_dtype w) = Some kind" and "target_ok tg" and "length x = k"
  shows "linear_dispatch tg base x w k n regime = omapM (linear_row regime kind (qt_bytes w) k x) [0..<n]"
proof -
  note L = assms(1) [unfolded linear_ok_def Let_def]
  have written: "rows_written n (\<lambda>b. val (slice x (b * k) ((b + 1) * k))) (replicate n 0) 1 = map (val x) [0..<n]" for val :: "f32 list \<Rightarrow> nat \<Rightarrow> f32"
    using assms(4) by (simp add: rows_written_def)
  consider "qt_dtype w = GT_Q4_K" "kind = 0" | "qt_dtype w = GT_Q6_K" "kind = 1" | "qt_dtype w = GT_Q8_0" "kind = 2" | "qt_dtype w = GT_Q5_0" "kind = 3"
    using assms(2) by (cases "qt_dtype w") (simp_all add: kind_of_def)
  then show ?thesis
  proof cases
    case 1
    then have g: "q4k_good (qt_bytes w) k n" using L by simp
    have "omapM (linear_row regime 0 (qt_bytes w) k x) [0..<n] = Ok (map (\<lambda>r. if regime = 3 then running_sum (q4k_int_vals dot32_pair_scalar (qt_bytes w) k x r)
        else q4k_fused_val (qt_bytes w) k x r) [0..<n])"
      by (rule omapM_Ok) (use g assms(4) in \<open>simp add: linear_row_def quantize_row_Ok q4k_int_parts_Ok q4k_fused_row_Ok\<close>)
    then show ?thesis using 1 dispatch_q4k [OF 1(1) assms(3) g, of x base regime] assms(4)
        written [of "\<lambda>x r. running_sum (q4k_int_vals dot32_pair_scalar (qt_bytes w) k x r)"]
      by (simp add: q4i.outputs_def q4f.outputs_def written del: One_nat_def)
  next
    case 2
    then have g: "q6k_good (qt_bytes w) k n" using L by simp
    have "omapM (linear_row regime 1 (qt_bytes w) k x) [0..<n] = Ok (map (\<lambda>r. (if regime = 3 then running_sum else fixed_tree) (q6k_int_vals (qt_bytes w) k x r)) [0..<n])"
      by (rule omapM_Ok) (use g assms(4) in \<open>simp add: linear_row_def quantize_row_Ok q6k_int_parts_Ok\<close>)
    then show ?thesis using 2 dispatch_q6k [OF 2(1) assms(3) g, of x base regime] assms(4)
        written [of "\<lambda>x r. (if regime = 3 then running_sum else fixed_tree) (q6k_int_vals (qt_bytes w) k x r)"]
      by (simp add: q6i.outputs_def del: One_nat_def)
  next
    case 3
    then have "q8_0_row_bytes k = Ok (k div 32 * 34)" "n * (k div 32 * 34) \<le> length (qt_bytes w)" "length (qt_bytes w) \<le> usize_max"
      using L by (simp_all add: q8_0_row_bytes_def)
    from dispatch_rows_eq [OF this] show ?thesis using 3 by (simp add: linear_dispatch_def linear_row_def [abs_def])
  next
    case 4
    then have "q5_0_row_bytes k = Ok (k div 32 * 22)" "n * (k div 32 * 22) \<le> length (qt_bytes w)" "length (qt_bytes w) \<le> usize_max"
      using L by (simp_all add: q5_0_row_bytes_def)
    from dispatch_rows_eq [OF this] show ?thesis using 4 by (simp add: linear_dispatch_def linear_row_def [abs_def])
  qed
qed

end
