(* ===== verification/MetalKernels.thy ===== *)
theory MetalKernels
  imports Metal StepParts
begin

text \<open>
  What the compute kernels of the Metal backend promise. They are shaders (\<open>src/kernels/*.metal\<close>),
  documented to reproduce the operations of the processor bit for bit within the sizes of their fixed
  arrays. \<open>kernel_spec\<close> writes this down; a \<open>metal_device\<close> is a device whose kernels do what it says.
  \<open>leads\<close> is the language the proofs about command lists use: from buffers with these contents, the
  commands lead to buffers with those.
\<close>

subsection \<open>What the kernels promise\<close>

text \<open>
  The words of a bound buffer at a byte offset. A kernel is specified only where its accesses are
  aligned and inside the buffers.
\<close>

definition fits :: "GpuMem \<Rightarrow> MBuf \<times> nat \<Rightarrow> nat \<Rightarrow> bool" where
  "fits m bo n \<longleftrightarrow> 4 dvd snd bo \<and> snd bo div 4 + n \<le> length (gm_words m (fst bo))"

definition words_at :: "GpuMem \<Rightarrow> MBuf \<times> nat \<Rightarrow> nat \<Rightarrow> f32 list" where
  "words_at m bo n = slice (gm_words m (fst bo)) (snd bo div 4) (snd bo div 4 + n)"

definition put_words :: "MBuf \<times> nat \<Rightarrow> f32 list \<Rightarrow> GpuMem \<Rightarrow> GpuMem" where
  "put_words bo xs m = m\<lparr>gm_words := (gm_words m)(fst bo := splice (gm_words m (fst bo)) (snd bo div 4) xs)\<rparr>"

definition put_res :: "MBuf \<times> nat \<Rightarrow> GpuMem \<Rightarrow> f32 list res \<Rightarrow> GpuMem option" where
  "put_res bo m r = (case r of Ok xs \<Rightarrow> if fits m bo (length xs) then Some (put_words bo xs m) else None | _ \<Rightarrow> None)"

text \<open>Arguments by index.\<close>

definition arg :: "(nat \<times> MBuf \<times> nat) list \<Rightarrow> nat \<Rightarrow> MBuf \<times> nat" where
  "arg bufs i = the (map_of bufs i)"

definition scalar :: "(nat \<times> u32 list) list \<Rightarrow> nat \<Rightarrow> nat \<Rightarrow> nat" where
  "scalar scalars i j = unat (the (map_of scalars i) ! j)"

text \<open>Quantised activations in device memory: a scale, 256 codes and 8 sums for each block.\<close>

definition q8_words :: "Q8Block list \<Rightarrow> f32 list" where
  "q8_words q = words_of (concat (map q8_qs q))"

definition q8_fits :: "GpuMem \<Rightarrow> MBuf \<Rightarrow> MBuf \<Rightarrow> MBuf option \<Rightarrow> nat \<Rightarrow> bool" where
  "q8_fits m dx qs sums n \<longleftrightarrow> fits m (dx, 0) n \<and> fits m (qs, 0) (n * 64) \<and> dx \<noteq> qs \<and>
     (case sums of Some bs \<Rightarrow> fits m (bs, 0) (n * 8) \<and> bs \<noteq> dx \<and> bs \<noteq> qs | None \<Rightarrow> True)"

definition put_q8 :: "MBuf \<Rightarrow> MBuf \<Rightarrow> MBuf option \<Rightarrow> Q8Block list \<Rightarrow> GpuMem \<Rightarrow> GpuMem" where
  "put_q8 dx qs sums q m =
     (let m = put_words (qs, 0) (q8_words q) (put_words (dx, 0) (map q8_d q) m) in
      case sums of Some bs \<Rightarrow> put_words (bs, 0) (concat (map q8_bsums q)) m | None \<Rightarrow> m)"

definition get_q8 :: "MBuf \<Rightarrow> MBuf \<Rightarrow> MBuf option \<Rightarrow> nat \<Rightarrow> GpuMem \<Rightarrow> Q8Block list" where
  "get_q8 dx qs sums n m = map (\<lambda>s. \<lparr>q8_d = gm_words m dx ! s, q8_qs = slice (word_bytes (gm_words m qs)) (s * 256) (s * 256 + 256),
     q8_bsums = (case sums of Some bs \<Rightarrow> slice (gm_words m bs) (s * 8) (s * 8 + 8) | None \<Rightarrow> [])\<rparr>) [0..<n]"

text \<open>A linear kernel writes one output per thread, or adds it to what is there.\<close>

definition linear_spec :: "bool \<Rightarrow> MBuf \<times> nat \<Rightarrow> nat \<Rightarrow> nat \<Rightarrow> (nat \<Rightarrow> f32 res) \<Rightarrow> nat \<Rightarrow> GpuMem \<Rightarrow> GpuMem option" where
  "linear_spec acc out k n row threads m =
     (if k \<le> 16384 \<and> n \<le> threads \<and> fits m out n then
        put_res out m (omap (\<lambda>ys. if acc then map2 f32_add (words_at m out n) ys else ys) (omapM row [0..<n]))
      else None)"

definition direct_spec :: "bool \<Rightarrow> (bytes \<Rightarrow> nat \<Rightarrow> f32 list \<Rightarrow> nat \<Rightarrow> f32 res) \<Rightarrow> (nat \<times> MBuf \<times> nat) list \<Rightarrow> (nat \<times> u32 list) list \<Rightarrow> nat \<Rightarrow>
    GpuMem \<Rightarrow> GpuMem option" where
  "direct_spec acc row bufs scalars threads m =
     (let x = arg bufs 0; k = scalar scalars 3 0 in
      if fits m x k \<and> fst (arg bufs 2) \<noteq> fst x then
        linear_spec acc (arg bufs 2) k (scalar scalars 3 1) (row (gm_bytes m (fst (arg bufs 1))) k (words_at m x k)) threads m
      else None)"

definition dot_spec_q8 :: "bool \<Rightarrow> bool \<Rightarrow> (bytes \<Rightarrow> nat \<Rightarrow> Q8Block list \<Rightarrow> nat \<Rightarrow> f32 res) \<Rightarrow> (nat \<times> MBuf \<times> nat) list \<Rightarrow> (nat \<times> u32 list) list \<Rightarrow> nat \<Rightarrow>
    GpuMem \<Rightarrow> GpuMem option" where
  "dot_spec_q8 acc sums row bufs scalars threads m =
     (let i = (if sums then 3 else 2); k = scalar scalars (i + 2) 0; n = scalar scalars (i + 2) 2; dx = fst (arg bufs 0); qs = fst (arg bufs 1);
          bs = (if sums then Some (fst (arg bufs 2)) else None); out = arg bufs (i + 1) in
      if q8_fits m dx qs bs n \<and> n = k div 256 \<and> fst out \<notin> {dx, qs} \<and> Some (fst out) \<noteq> bs then
        linear_spec acc out k (scalar scalars (i + 2) 1) (row (gm_bytes m (fst (arg bufs i))) k (get_q8 dx qs bs n m)) threads m
      else None)"

definition quant_spec :: "bool \<Rightarrow> (nat \<times> MBuf \<times> nat) list \<Rightarrow> (nat \<times> u32 list) list \<Rightarrow> nat \<Rightarrow> GpuMem \<Rightarrow> GpuMem option" where
  "quant_spec sums bufs scalars threads m =
     (let x = arg bufs 0; n = scalar scalars (if sums then 4 else 3) 0; dx = fst (arg bufs 1); qs = fst (arg bufs 2);
          bs = (if sums then Some (fst (arg bufs 3)) else None) in
      if n \<le> threads \<and> fits m x (n * 256) \<and> q8_fits m dx qs bs n \<and> fst x \<notin> {dx, qs} \<and> Some (fst x) \<noteq> bs then
        case quantize_row (n * 256) (words_at m x (n * 256)) of Ok q \<Rightarrow> Some (put_q8 dx qs bs q m) | _ \<Rightarrow> None
      else None)"

definition rope_spec :: "bool \<Rightarrow> (nat \<times> MBuf \<times> nat) list \<Rightarrow> (nat \<times> u32 list) list \<Rightarrow> nat \<Rightarrow> GpuMem \<Rightarrow> GpuMem option" where
  "rope_spec neox bufs scalars threads m =
     (let x = arg bufs 0; c = arg bufs 1; s = arg bufs 2; out = arg bufs 3; heads = scalar scalars 4 1; hs = scalar scalars 4 2 in
      if scalar scalars 4 0 = 1 \<and> heads \<le> threads \<and> out = x \<and> fst x \<notin> {fst c, fst s} \<and> fits m x (heads * hs) \<and>
          fits m c (hs div 2) \<and> fits m s (hs div 2) then
        put_res out m (rope_kernel neox heads hs (words_at m c (hs div 2)) (words_at m s (hs div 2)) (words_at m x (heads * hs)))
      else None)"

definition attn_spec :: "libm \<Rightarrow> (nat \<times> MBuf \<times> nat) list \<Rightarrow> (nat \<times> u32 list) list \<Rightarrow> nat \<Rightarrow> GpuMem \<Rightarrow> GpuMem option" where
  "attn_spec lm bufs scalars threads m =
     (let q = arg bufs 0; kc = arg bufs 1; vc = arg bufs 2; out = arg bufs 3;
          nh = scalar scalars 4 0; hs = scalar scalars 4 1; kvd = scalar scalars 4 2; kvm = scalar scalars 4 3; pos = scalar scalars 4 4 in
      if nh \<le> threads \<and> hs \<le> 8192 \<and> pos < 512 \<and> 0 < kvm \<and> fst out \<notin> {fst q, fst kc, fst vc} \<and>
          fits m q (nh * hs) \<and> fits m kc ((pos + 1) * kvd) \<and> fits m vc ((pos + 1) * kvd) then
        put_res out m (omap concat (omapM (attend lm hs kvd kvm pos (words_at m q (nh * hs))
          (words_at m kc ((pos + 1) * kvd)) (words_at m vc ((pos + 1) * kvd))) [0..<nh]))
      else None)"

fun kernel_spec :: "libm \<Rightarrow> Pipeline \<Rightarrow> (nat \<times> MBuf \<times> nat) list \<Rightarrow> (nat \<times> u32 list) list \<Rightarrow> nat \<Rightarrow> GpuMem \<Rightarrow> GpuMem option" where
  "kernel_spec lm Pl_q4k_linear bufs scalars = direct_spec False q4k_fused_row bufs scalars"
| "kernel_spec lm Pl_q4k_linear_acc bufs scalars = direct_spec True q4k_fused_row bufs scalars"
| "kernel_spec lm Pl_q8_0 bufs scalars = direct_spec False (\<lambda>w k. block_row dequantize_q8_0 (k div 32 * 34) w k) bufs scalars"
| "kernel_spec lm Pl_q8_0_acc bufs scalars = direct_spec True (\<lambda>w k. block_row dequantize_q8_0 (k div 32 * 34) w k) bufs scalars"
| "kernel_spec lm Pl_q5_0 bufs scalars = direct_spec False (\<lambda>w k. block_row dequantize_q5_0 (k div 32 * 22) w k) bufs scalars"
| "kernel_spec lm Pl_q5_0_acc bufs scalars = direct_spec True (\<lambda>w k. block_row dequantize_q5_0 (k div 32 * 22) w k) bufs scalars"
| "kernel_spec lm Pl_q6k_quant bufs scalars = quant_spec False bufs scalars"
| "kernel_spec lm Pl_q8_quant bufs scalars = quant_spec True bufs scalars"
| "kernel_spec lm Pl_q6k_dot bufs scalars = dot_spec_q8 False False (\<lambda>w k q r. omap fixed_tree (q6k_int_parts w k q r)) bufs scalars"
| "kernel_spec lm Pl_q6k_dot_acc bufs scalars = dot_spec_q8 True False (\<lambda>w k q r. omap fixed_tree (q6k_int_parts w k q r)) bufs scalars"
| "kernel_spec lm Pl_q6k_rs bufs scalars = dot_spec_q8 False False (\<lambda>w k q r. omap running_sum (q6k_int_parts w k q r)) bufs scalars"
| "kernel_spec lm Pl_q6k_rs_acc bufs scalars = dot_spec_q8 True False (\<lambda>w k q r. omap running_sum (q6k_int_parts w k q r)) bufs scalars"
| "kernel_spec lm Pl_q4k_rs bufs scalars = dot_spec_q8 False True (\<lambda>w k q r. omap running_sum (q4k_int_parts dot32_pair_scalar w k q r)) bufs scalars"
| "kernel_spec lm Pl_q4k_rs_acc bufs scalars = dot_spec_q8 True True (\<lambda>w k q r. omap running_sum (q4k_int_parts dot32_pair_scalar w k q r)) bufs scalars"
| "kernel_spec lm Pl_rope bufs scalars = rope_spec False bufs scalars"
| "kernel_spec lm Pl_rope_neox bufs scalars = rope_spec True bufs scalars"
| "kernel_spec lm Pl_attn bufs scalars = attn_spec lm bufs scalars"
| "kernel_spec lm Pl_q4k_dequant bufs scalars = (\<lambda>threads m. None)"
| "kernel_spec lm Pl_rms bufs scalars = (\<lambda>threads m.
     let x = arg bufs 0; w = arg bufs 1; out = arg bufs 2; feat = scalar scalars 3 0 in
     if scalar scalars 3 1 = 1 \<and> 1 \<le> threads \<and> feat \<le> 8192 \<and> fits m x feat \<and> fits m w feat \<and> fst out \<notin> {fst x, fst w} then
       put_res out m (norm_list lm (words_at m x feat) (words_at m w feat) (the (map_of scalars 4) ! 0))
     else None)"
| "kernel_spec lm Pl_silu_mul bufs scalars = (\<lambda>threads m.
     let g = arg bufs 0; u = arg bufs 1; out = arg bufs 2; n = scalar scalars 3 0 in
     if n \<le> threads \<and> fits m g n \<and> fits m u n \<and> fst out \<notin> {fst g, fst u} then put_res out m (q_swiglu lm n (words_at m g n) (words_at m u n)) else None)"
| "kernel_spec lm Pl_add bufs scalars = (\<lambda>threads m.
     let x = arg bufs 0; y = arg bufs 1; n = scalar scalars 2 0 in
     if n \<le> threads \<and> fits m x n \<and> fits m y n \<and> fst x \<noteq> fst y then put_res x m (Ok (map2 f32_add (words_at m x n) (words_at m y n))) else None)"

text \<open>The promise, for every dispatch that the specification covers.\<close>

definition metal_contract :: "MetalDevice \<Rightarrow> libm \<Rightarrow> bool" where
  "metal_contract D lm \<longleftrightarrow> (\<forall>pl bufs scalars threads m m'. kernel_spec lm pl bufs scalars threads m = Some m' \<longrightarrow>
     md_run D pl bufs scalars threads m = m')"

locale metal_device =
  fixes D :: MetalDevice and lm :: libm
  assumes kernels: "kernel_spec lm pl bufs scalars threads m = Some m' \<Longrightarrow> md_run D pl bufs scalars threads m = m'"

text \<open>A device made of the promises.\<close>

definition ref_device :: "libm \<Rightarrow> MetalDevice" where
  "ref_device lm = \<lparr>md_present = True, md_compile = (\<lambda>_ _. None),
     md_run = (\<lambda>pl bufs scalars threads m. case kernel_spec lm pl bufs scalars threads m of Some m' \<Rightarrow> m' | None \<Rightarrow> m)\<rparr>"

interpretation reference: metal_device "ref_device lm" lm for lm
  by (rule metal_device.intro) (simp add: ref_device_def del: kernel_spec.simps)

lemma contract_device: "metal_contract D lm \<Longrightarrow> metal_device D lm"
  by (rule metal_device.intro) (simp add: metal_contract_def del: kernel_spec.simps)

lemma ref_contract: "metal_contract (ref_device lm) lm"
  by (simp add: metal_contract_def ref_device_def del: kernel_spec.simps)

subsection \<open>Memory as the host sees it\<close>

text \<open>
  \<open>holds\<close> states the contents of the buffers, up to the scratch for quantised activations, of which only
  the sizes are kept.
\<close>

definition holds :: "(MBuf \<Rightarrow> bytes) \<Rightarrow> nat \<Rightarrow> (MBuf \<Rightarrow> f32 list) \<Rightarrow> GpuMem \<Rightarrow> bool" where
  "holds bs cap W m \<longleftrightarrow> gm_bytes m = bs \<and> (\<forall>b. b \<notin> q8_bufs \<longrightarrow> gm_words m b = W b) \<and>
     cap \<le> length (gm_words m B_q8_dx) \<and> cap * 64 \<le> length (gm_words m B_q8_qs) \<and> cap * 8 \<le> length (gm_words m B_q8_bsums)"

lemma holds_at:
  assumes "holds bs cap W m" and "fst bo \<notin> q8_bufs"
  shows "words_at m bo n = slice (W (fst bo)) (snd bo div 4) (snd bo div 4 + n)"
    and "fits m bo n \<longleftrightarrow> 4 dvd snd bo \<and> snd bo div 4 + n \<le> length (W (fst bo))"
  using assms by (simp_all add: holds_def words_at_def fits_def)

lemma holds_put:
  assumes "holds bs cap W m" and "fst bo \<notin> q8_bufs"
  shows "holds bs cap (W(fst bo := splice (W (fst bo)) (snd bo div 4) xs)) (put_words bo xs m)"
proof -
  have "fst bo \<noteq> B_q8_dx" "fst bo \<noteq> B_q8_qs" "fst bo \<noteq> B_q8_bsums" "gm_words m (fst bo) = W (fst bo)"
    using assms by (auto simp: holds_def q8_bufs_def)
  then show ?thesis using assms(1) by (simp add: holds_def put_words_def)
qed

lemma put_res_holds:
  assumes "holds bs cap W m" and "fst bo \<notin> q8_bufs" and "r = Ok xs" and "4 dvd snd bo" and "snd bo div 4 + length xs \<le> length (W (fst bo))"
  shows "\<exists>m'. put_res bo m r = Some m' \<and> holds bs cap (W(fst bo := splice (W (fst bo)) (snd bo div 4) xs)) m'"
  using holds_put [OF assms(1,2)] holds_at(2) [OF assms(1,2)] assms(3-5) by (simp add: put_res_def)


subsection \<open>Command lists\<close>

definition leads :: "MetalDevice \<Rightarrow> (MBuf \<Rightarrow> bytes) \<Rightarrow> nat \<Rightarrow> (MBuf \<Rightarrow> f32 list) \<Rightarrow> MCmd list \<Rightarrow> (MBuf \<Rightarrow> f32 list) \<Rightarrow> bool" where
  "leads D bs cap W cmds W' \<longleftrightarrow> (\<forall>m. holds bs cap W m \<longrightarrow> holds bs cap W' (exec_cmds D cmds m))"

lemma exec_append: "exec_cmds D (a @ b) m = exec_cmds D b (exec_cmds D a m)"
  by (simp add: exec_cmds_def)

lemma leads_append: "leads D bs cap W a W' \<Longrightarrow> leads D bs cap W' b W'' \<Longrightarrow> leads D bs cap W (a @ b) W''"
  by (simp add: leads_def exec_append)

lemma leads_Nil [simp]: "leads D bs cap W [] W"
  by (simp add: leads_def exec_cmds_def)

lemma leads_barrier [simp]: "leads D bs cap W (Barrier b # cmds) W' \<longleftrightarrow> leads D bs cap W cmds W'"
  by (simp add: leads_def exec_cmds_def)

lemma leads_Cons: "leads D bs cap W [c] W' \<Longrightarrow> leads D bs cap W' cmds W'' \<Longrightarrow> leads D bs cap W (c # cmds) W''"
  using leads_append [of D bs cap W "[c]" W' cmds W''] by simp

text \<open>A dispatch runs at least the threads it is asked for.\<close>

lemma disp_threads: "\<exists>t\<ge>n. disp pl bufs scalars n = Dispatch pl bufs scalars ((n + max (min 64 n) 1 - 1) div max (min 64 n) 1) (max (min 64 n) 1) \<and>
    t = (n + max (min 64 n) 1 - 1) div max (min 64 n) 1 * max (min 64 n) 1"
proof -
  define g where "g = max (min 64 n) 1"
  have g: "0 < g" by (simp add: g_def)
  then have "n + g - 1 < g + (n + g - 1) div g * g" by (rule dividend_less_div_times)
  then have "n \<le> (n + g - 1) div g * g" using g by linarith
  then show ?thesis by (auto simp: disp_def Let_def g_def)
qed

lemma u32_nat [simp]: "n < 2 ^ 32 \<Longrightarrow> unat (of_nat n :: u32) = n"
  by (simp add: unsigned_of_nat take_bit_nat_eq_self)

context metal_device
begin

lemma leads_disp:
  assumes "\<And>m t. holds bs cap W m \<Longrightarrow> n \<le> t \<Longrightarrow> \<exists>m'. kernel_spec lm pl bufs scalars t m = Some m' \<and> holds bs cap W' m'"
  shows "leads D bs cap W [disp pl bufs scalars n] W'"
proof -
  obtain t where "n \<le> t" "\<And>m. exec_cmds D [disp pl bufs scalars n] m = md_run D pl bufs scalars t m"
    using disp_threads [of n pl bufs scalars] by (auto simp: exec_cmds_def)
  then show ?thesis using assms kernels by (fastforce simp: leads_def)
qed

end

end
