(* ===== verification/MetalOps.thy ===== *)
theory MetalOps
  imports MetalKernels
begin

text \<open>
  The operations the Metal backend dispatches, on a device that keeps its promises: a norm, a linear
  layer of any weight type with and without accumulation, the bias, the rotation, attention, the
  activation. Each lemma says what the commands of \<open>src/metal/src/lib.rs\<close> for the operation leave in the
  buffers.
\<close>

subsection \<open>Vectors in buffers\<close>

text \<open>A vector at a byte offset, room for one, and writing one.\<close>

definition vec :: "(MBuf \<Rightarrow> f32 list) \<Rightarrow> MBuf \<Rightarrow> nat \<Rightarrow> f32 list \<Rightarrow> bool" where
  "vec W b off xs \<longleftrightarrow> 4 dvd off \<and> off div 4 + length xs \<le> length (W b) \<and> slice (W b) (off div 4) (off div 4 + length xs) = xs"

definition room :: "(MBuf \<Rightarrow> f32 list) \<Rightarrow> MBuf \<Rightarrow> nat \<Rightarrow> nat \<Rightarrow> bool" where
  "room W b off n \<longleftrightarrow> 4 dvd off \<and> off div 4 + n \<le> length (W b)"

definition put :: "MBuf \<Rightarrow> nat \<Rightarrow> f32 list \<Rightarrow> (MBuf \<Rightarrow> f32 list) \<Rightarrow> MBuf \<Rightarrow> f32 list" where
  "put b off xs W = W(b := splice (W b) (off div 4) xs)"

lemma put_other [simp]: "b' \<noteq> b \<Longrightarrow> put b off xs W b' = W b'"
  by (simp add: put_def)

lemma put_length: "room W b off (length xs) \<Longrightarrow> length (put b off xs W b') = length (W b')"
  by (simp add: put_def room_def)

lemma room_put [simp]: "room W b off (length xs) \<Longrightarrow> room (put b off xs W) b' off' n \<longleftrightarrow> room W b' off' n"
  by (simp add: room_def put_length)

lemma vec_put [simp]: "room W b off (length xs) \<Longrightarrow> vec (put b off xs W) b off xs"
  by (simp add: vec_def room_def put_def) (simp add: splice_def slice_def)

lemma vec_put_other [simp]: "b' \<noteq> b \<Longrightarrow> vec (put b off xs W) b' off' ys \<longleftrightarrow> vec W b' off' ys"
  by (simp add: vec_def)

lemma vec_room: "vec W b off xs \<Longrightarrow> length xs = n \<Longrightarrow> room W b off n"
  by (auto simp: vec_def room_def)

lemma put_put: "length ys = length xs \<Longrightarrow> room W b off (length xs) \<Longrightarrow> put b off ys (put b off xs W) = put b off ys W"
  by (simp add: put_def room_def splice_def fun_eq_iff)

lemma holds_vec:
  assumes "holds bs cap W m" and "b \<notin> q8_bufs" and "vec W b off xs"
  shows "words_at m (b, off) (length xs) = xs" and "fits m (b, off) (length xs)"
  using assms holds_at [of bs cap W m "(b, off)"] by (simp_all add: vec_def)

lemma holds_room:
  assumes "holds bs cap W m" and "b \<notin> q8_bufs" and "room W b off n"
  shows "fits m (b, off) n"
  using assms holds_at(2) [of bs cap W m "(b, off)"] by (simp add: room_def)

lemma put_res_put:
  assumes "holds bs cap W m" and "b \<notin> q8_bufs" and "room W b off (length xs)"
  shows "\<exists>m'. put_res (b, off) m (Ok xs) = Some m' \<and> holds bs cap (put b off xs W) m'"
  using put_res_holds [OF assms(1), of "(b, off)" "Ok xs" xs] assms(2,3) by (simp add: room_def put_def)

subsection \<open>Quantised activations\<close>

lemma word_bytes_words_of: "4 dvd length bs \<Longrightarrow> word_bytes (words_of bs) = bs"
  using word_bytes_pack [of bs "length bs div 4"] by (simp add: words_of_def)

lemma length_words_of [simp]: "length (words_of bs) = length bs div 4"
  by (simp add: words_of_def)

lemma word_bytes_append [simp]: "word_bytes (a @ b) = word_bytes a @ word_bytes b"
  by (simp add: word_bytes_def)

text \<open>What a kernel without the sums reads back of a block.\<close>

definition seen_block :: "bool \<Rightarrow> Q8Block \<Rightarrow> Q8Block" where
  "seen_block sums q = (if sums then q else q\<lparr>q8_bsums := []\<rparr>)"

lemma concat_rows:
  assumes "\<forall>x\<in>set xs. length (f x) = w"
  shows "length (concat (map f xs)) = length xs * w" and "i < length xs \<Longrightarrow> slice (concat (map f xs)) (i * w) (i * w + w) = f (xs ! i)"
proof -
  have "concat (map f xs) = concat (map (\<lambda>i. f (xs ! i)) [0..<length xs])" by (intro arg_cong [where f = concat] nth_equalityI) simp_all
  then show "length (concat (map f xs)) = length xs * w" "i < length xs \<Longrightarrow> slice (concat (map f xs)) (i * w) (i * w + w) = f (xs ! i)"
    using assms length_concat_rows [of "length xs" "\<lambda>i. f (xs ! i)" w] slice_concat_rows [of "length xs" "\<lambda>i. f (xs ! i)" w i] by simp_all
qed

lemma get_put_q8:
  assumes "q8_fits m dx qs sums n" and "length q = n" and "\<forall>b\<in>set q. wf_q8 b"
  shows "get_q8 dx qs sums n (put_q8 dx qs sums q m) = map (seen_block (sums \<noteq> None)) q"
proof (intro nth_equalityI)
  fix i assume "i < length (get_q8 dx qs sums n (put_q8 dx qs sums q m))"
  then have i: "i < length q" using assms(2) by (simp add: get_q8_def)
  have Q: "length (concat (map q8_qs q)) = length q * 256" "slice (concat (map q8_qs q)) (i * 256) (i * 256 + 256) = q8_qs (q ! i)"
    using concat_rows(1) [of q q8_qs 256] concat_rows(2) [of q q8_qs 256 i] assms(3) i by (simp_all add: wf_q8_def)
  have B: "length (concat (map q8_bsums q)) = length q * 8" "slice (concat (map q8_bsums q)) (i * 8) (i * 8 + 8) = q8_bsums (q ! i)"
    using concat_rows(1) [of q q8_bsums 8] concat_rows(2) [of q q8_bsums 8 i] assms(3) i by (simp_all add: wf_q8_def)
  have front: "slice (splice xs 0 ys) a b = slice ys a b" if "b \<le> length ys" for xs ys :: "'x list" and a b
    using that by (simp add: splice_def slice_def)
  have "word_bytes (q8_words q) = concat (map q8_qs q)" unfolding q8_words_def by (rule word_bytes_words_of) (simp add: Q(1))
  then have W: "slice (word_bytes (splice xs 0 (q8_words q))) (i * 256) (i * 256 + 256) = q8_qs (q ! i)" for xs
    using Q i by (simp add: splice_def slice_def)
  have D: "splice xs 0 (map q8_d q) ! i = q8_d (q ! i)" for xs using i by (simp add: splice_def nth_append)
  have "i * 8 + 8 \<le> length q * 8" using i by simp
  then have S: "slice (splice xs 0 (concat (map q8_bsums q))) (i * 8) (i * 8 + 8) = q8_bsums (q ! i)" for xs using B by (simp add: front)
  show "get_q8 dx qs sums n (put_q8 dx qs sums q m) ! i = map (seen_block (sums \<noteq> None)) q ! i"
    using i assms(1,2) by (cases sums) (auto simp: get_q8_def put_q8_def put_words_def q8_fits_def seen_block_def Let_def W D S)
qed (simp add: get_q8_def assms(2))

subsection \<open>Operations\<close>

lemma scratch_free [simp]: "B_x \<notin> q8_bufs" "B_xb \<notin> q8_bufs" "B_q \<notin> q8_bufs" "B_att \<notin> q8_bufs" "B_gate \<notin> q8_bufs" "B_up \<notin> q8_bufs"
  "B_inner \<notin> q8_bufs" "B_logits \<notin> q8_bufs" "B_cos \<notin> q8_bufs" "B_sin \<notin> q8_bufs" "B_tmp_dim \<notin> q8_bufs" "B_rms_final \<notin> q8_bufs" "Key_cache l \<notin> q8_bufs"
  "Value_cache l \<notin> q8_bufs" "L_rms_att l \<notin> q8_bufs" "L_rms_ffn l \<notin> q8_bufs" "L_bq l \<notin> q8_bufs" "L_bk l \<notin> q8_bufs" "L_bv l \<notin> q8_bufs"
  by (simp_all add: q8_bufs_def)

lemma args [simp]: "arg ((i, b) # bufs) j = (if j = i then b else arg bufs j)" "scalar ((i, ws) # ss) j k = (if j = i then unat (ws ! k) else scalar ss j k)"
  by (simp_all add: arg_def scalar_def)

text \<open>A head reads the rows up to its position.\<close>

lemma attend_prefix:
  assumes "n = (pos + 1) * kvd" and "h div kvm * hs + hs \<le> kvd" and "n \<le> length kl" and "n \<le> length vl"
  shows "attend lm hs kvd kvm pos q (take n kl) (take n vl) h = attend lm hs kvd kvm pos q kl vl h"
proof -
  have row: "t * kvd + h div kvm * hs + hs \<le> n" if "t < pos + 1" for t
    using row_bound_le [OF that, of kvd] assms(1,2) by linarith
  have k: "slice (take n kl) a (a + hs) = slice kl a (a + hs)" if "a + hs \<le> n" for a
    using that by (simp add: slice_def drop_take min_def)
  have v: "take n vl ! (t * kvd + h div kvm * hs + d) = vl ! (t * kvd + h div kvm * hs + d)" if "t < pos + 1" "d < hs" for t d
    using row [OF that(1)] that(2) by simp
  have cols: "map (\<lambda>t. take n vl ! (t * kvd + h div kvm * hs + d)) [0..<pos + 1] = map (\<lambda>t. vl ! (t * kvd + h div kvm * hs + d)) [0..<pos + 1]"
    if "d < hs" for d by (rule map_cong [OF refl], rule v) (use that in \<open>simp_all del: upt_Suc\<close>)
  have scores: "omapM (\<lambda>t. omap (\<lambda>s. f32_div s (sqrtf lm (f32_of_nat hs))) (canonical_dot (slice q (h * hs) (h * hs + hs))
        (slice (take n kl) (t * kvd + h div kvm * hs) (t * kvd + h div kvm * hs + hs)) hs)) [0..<pos + 1]
      = omapM (\<lambda>t. omap (\<lambda>s. f32_div s (sqrtf lm (f32_of_nat hs))) (canonical_dot (slice q (h * hs) (h * hs + hs))
        (slice kl (t * kvd + h div kvm * hs) (t * kvd + h div kvm * hs + hs)) hs)) [0..<pos + 1]"
    by (rule omapM_cong [OF refl], subst k [OF row]) auto
  show ?thesis unfolding attend_def Let_def scores
    by (intro obind_cong omapM_cong refl, subst cols) auto
qed

lemma room_vec: "room W b off n \<Longrightarrow> \<exists>old. vec W b off old \<and> length old = n"
  by (auto simp: room_def vec_def intro!: exI [of _ "slice (W b) (off div 4) (off div 4 + n)"])

text \<open>What a linear layer leaves: its outputs, or the old values with the outputs added.\<close>

definition outputs :: "bool \<Rightarrow> f32 list \<Rightarrow> f32 list \<Rightarrow> f32 list" where
  "outputs acc old ys = (if acc then map2 f32_add old ys else ys)"

lemma linear_spec_put:
  assumes "holds bs cap W m" and "out \<notin> q8_bufs" and "vec W out oo old" and "length old = n" and "k \<le> 16384" and "n \<le> t"
    and "omapM row [0..<n] = Ok ys"
  shows "\<exists>m'. linear_spec acc (out, oo) k n row t m = Some m' \<and> holds bs cap (put out oo (outputs acc old ys) W) m'"
proof -
  note o' = holds_vec [OF assms(1-3)]
  have "room W out oo (length (outputs acc old ys))" using vec_room [OF assms(3,4)] omapM_length [OF assms(7)] assms(4) by (simp add: outputs_def)
  from put_res_put [OF assms(1,2) this] o' assms(4-7) show ?thesis by (cases acc) (simp_all add: linear_spec_def outputs_def)
qed

lemma holds_put_q8: "holds bs cap W m \<Longrightarrow> q8_fits m B_q8_dx B_q8_qs sums (length q) \<Longrightarrow> sums \<in> {None, Some B_q8_bsums} \<Longrightarrow> \<forall>b\<in>set q. wf_q8 b \<Longrightarrow>
    holds bs cap W (put_q8 B_q8_dx B_q8_qs sums q m)"
  using concat_rows(1) [of q q8_qs 256] concat_rows(1) [of q q8_bsums 8]
  by (auto simp: holds_def put_q8_def put_words_def q8_fits_def fits_def q8_words_def wf_q8_def q8_bufs_def)

lemma holds_q8_fits: "holds bs cap W m \<Longrightarrow> n \<le> cap \<Longrightarrow> sums \<in> {None, Some B_q8_bsums} \<Longrightarrow> q8_fits m B_q8_dx B_q8_qs sums n"
  by (auto simp: holds_def q8_fits_def fits_def)

text \<open>The Q6_K kernels do not read the sums.\<close>

lemma q6k_seen: "q6k_int_parts w k (map (seen_block sums) q) r = q6k_int_parts w k q r"
proof -
  have "dot_q6k_q8_block b (seen_block sums x) n = dot_q6k_q8_block b x n" for b x n by (simp add: dot_q6k_q8_block_def seen_block_def)
  then have "obind (oget (map (seen_block sums) q) s) (\<lambda>x. Ok (dot_q6k_q8_block b x n)) = obind (oget q s) (\<lambda>x. Ok (dot_q6k_q8_block b x n) :: f32 res)" for b s n
    by (simp add: oget_def)
  then show ?thesis by (simp add: q6k_int_parts_def)
qed

text \<open>The linear layers of the code: plain or accumulating.\<close>

definition lin_with :: "bool \<Rightarrow> u8 \<Rightarrow> MBuf \<Rightarrow> nat \<Rightarrow> WBuf \<Rightarrow> MBuf \<Rightarrow> nat \<Rightarrow> MCmd list" where
  "lin_with acc = (if acc then lin_acc else lin)"

context metal_device
begin

lemma lead_norm:
  assumes "vec W B_x 0 xs" and "vec W b 0 ws" and "length xs = mf_dim mf" and "length ws = mf_dim mf" and "mf_dim mf \<le> 8192"
    and "norm_list lm xs ws (mf_rms_eps mf) = Ok y" and "room W B_xb 0 (length y)" and "b \<notin> q8_bufs" and "b \<noteq> B_xb"
  shows "leads D bs cap W (enc_norm mf b) (put B_xb 0 y W)"
  unfolding enc_norm_def
proof (rule leads_Cons [OF leads_disp])
  fix m t assume h: "holds bs cap W m" and t: "(1 :: nat) \<le> t"
  note x = holds_vec [OF h _ assms(1), simplified] and w = holds_vec [OF h assms(8,2)]
  show "\<exists>m'. kernel_spec lm Pl_rms [(0, B_x, 0), (1, b, 0), (2, B_xb, 0)] [(3, [of_nat (mf_dim mf), 1]), (4, [mf_rms_eps mf])] t m = Some m' \<and>
      holds bs cap (put B_xb 0 y W) m'"
    using put_res_put [OF h _ assms(7)] x w assms(3-6,9) t by (simp add: Let_def)
qed simp

lemma lead_add:
  assumes "vec W b off xs" and "vec W c 0 ys" and "length xs = n" and "length ys = n" and "b \<notin> q8_bufs" and "c \<notin> q8_bufs" and "b \<noteq> c" and "n < 2 ^ 32"
  shows "leads D bs cap W [disp Pl_add [(0, b, off), (1, c, 0)] [(2, [of_nat n])] n] (put b off (map2 f32_add xs ys) W)"
proof (rule leads_disp)
  fix m t assume h: "holds bs cap W m" and t: "n \<le> t"
  note x = holds_vec [OF h assms(5,1)] and y = holds_vec [OF h assms(6,2)]
  have "room W b off (length (map2 f32_add xs ys))" using vec_room [OF assms(1)] assms(3,4) by simp
  from put_res_put [OF h assms(5) this] x y assms(3,4,7,8) t
  show "\<exists>m'. kernel_spec lm Pl_add [(0, b, off), (1, c, 0)] [(2, [of_nat n])] t m = Some m' \<and> holds bs cap (put b off (map2 f32_add xs ys) W) m'"
    by (simp add: Let_def)
qed

lemma lead_rope:
  assumes "vec W b off xs" and "vec W B_cos 0 c" and "vec W B_sin 0 s" and "length xs = nh * hs" and "length c = hs div 2" and "length s = hs div 2"
    and "rope_kernel neox nh hs c s xs = Ok y" and "b \<notin> q8_bufs" and "b \<noteq> B_cos" and "b \<noteq> B_sin" and "nh < 2 ^ 32" and "hs < 2 ^ 32"
  shows "leads D bs cap W [disp (if neox then Pl_rope_neox else Pl_rope) [(0, b, off), (1, B_cos, 0), (2, B_sin, 0), (3, b, off)]
    [(4, [1, of_nat nh, of_nat hs])] nh] (put b off y W)"
proof (rule leads_disp)
  fix m t assume h: "holds bs cap W m" and t: "nh \<le> t"
  note x = holds_vec [OF h assms(8,1)] and c = holds_vec [OF h _ assms(2), simplified] and s = holds_vec [OF h _ assms(3), simplified]
  have "room W b off (length y)" using vec_room [OF assms(1)] rope_kernel_length [OF assms(7)] by simp
  from put_res_put [OF h assms(8) this] x c s assms(4-7,9-12) t
  show "\<exists>m'. kernel_spec lm (if neox then Pl_rope_neox else Pl_rope) [(0, b, off), (1, B_cos, 0), (2, B_sin, 0), (3, b, off)]
      [(4, [1, of_nat nh, of_nat hs])] t m = Some m' \<and> holds bs cap (put b off y W) m'"
    by (cases neox) (simp_all add: rope_spec_def Let_def)
qed

lemma lead_attn:
  assumes "vec W B_q 0 q" and "vec W (Key_cache l) 0 kl" and "vec W (Value_cache l) 0 vl" and "length q = nh * hs"
    and "(pos + 1) * kvd \<le> length kl" and "(pos + 1) * kvd \<le> length vl" and "\<And>h. h < nh \<Longrightarrow> h div kvm * hs + hs \<le> kvd"
    and "omap concat (omapM (attend lm hs kvd kvm pos q kl vl) [0..<nh]) = Ok y" and "room W B_att 0 (length y)"
    and "nh < 2 ^ 32" and "hs \<le> 8192" and "kvd < 2 ^ 32" and "kvm < 2 ^ 32" and "pos < 512" and "0 < kvm"
  shows "leads D bs cap W [disp Pl_attn [(0, B_q, 0), (1, Key_cache l, 0), (2, Value_cache l, 0), (3, B_att, 0)]
    [(4, [of_nat nh, of_nat hs, of_nat kvd, of_nat kvm, of_nat pos])] nh] (put B_att 0 y W)"
proof (rule leads_disp)
  fix m t assume h: "holds bs cap W m" and t: "nh \<le> t"
  have k: "words_at m (Key_cache l, 0) ((pos + 1) * kvd) = take ((pos + 1) * kvd) kl" "fits m (Key_cache l, 0) ((pos + 1) * kvd)"
    and v: "words_at m (Value_cache l, 0) ((pos + 1) * kvd) = take ((pos + 1) * kvd) vl" "fits m (Value_cache l, 0) ((pos + 1) * kvd)"
    using holds_at [OF h, of "(Key_cache l, 0)"] holds_at [OF h, of "(Value_cache l, 0)"] assms(2,3,5,6)
    by (auto simp: vec_def min_def dest: arg_cong [where f = "take ((pos + 1) * kvd)"])
  have "omapM (attend lm hs kvd kvm pos q (take ((pos + 1) * kvd) kl) (take ((pos + 1) * kvd) vl)) [0..<nh]
      = omapM (attend lm hs kvd kvm pos q kl vl) [0..<nh]"
    by (rule omapM_cong [OF refl], rule attend_prefix [OF refl assms(7,5,6)]) simp
  note a = this k v holds_vec [OF h _ assms(1), simplified]
  from put_res_put [OF h _ assms(9), simplified] a assms(4,8,10-15) t
  show "\<exists>m'. kernel_spec lm Pl_attn [(0, B_q, 0), (1, Key_cache l, 0), (2, Value_cache l, 0), (3, B_att, 0)]
      [(4, [of_nat nh, of_nat hs, of_nat kvd, of_nat kvm, of_nat pos])] t m = Some m' \<and> holds bs cap (put B_att 0 y W) m'"
    by (simp add: attn_spec_def Let_def)
qed

lemma lead_silu:
  assumes "vec W B_gate 0 g" and "vec W B_up 0 u" and "length g = n" and "length u = n" and "q_swiglu lm n g u = Ok y" and "room W B_inner 0 (length y)"
    and "n < 2 ^ 32"
  shows "leads D bs cap W [disp Pl_silu_mul [(0, B_gate, 0), (1, B_up, 0), (2, B_inner, 0)] [(3, [of_nat n])] n] (put B_inner 0 y W)"
proof (rule leads_disp)
  fix m t assume h: "holds bs cap W m" and t: "n \<le> t"
  note g = holds_vec [OF h _ assms(1), simplified] and u = holds_vec [OF h _ assms(2), simplified]
  from put_res_put [OF h _ assms(6), simplified] g u assms(3-5,7) t
  show "\<exists>m'. kernel_spec lm Pl_silu_mul [(0, B_gate, 0), (1, B_up, 0), (2, B_inner, 0)] [(3, [of_nat n])] t m = Some m' \<and>
      holds bs cap (put B_inner 0 y W) m'" by (simp add: Let_def)
qed

lemma exec_disp:
  assumes "\<And>t. n \<le> t \<Longrightarrow> \<exists>m'. kernel_spec lm pl bufs scalars t m = Some m' \<and> P m'"
  shows "P (exec_cmds D [disp pl bufs scalars n] m)"
  using disp_threads [of n pl bufs scalars] kernels assms by (fastforce simp: exec_cmds_def)

lemma lead_direct:
  assumes "kernel_spec lm pl = direct_spec acc row" and "vec W inb io x" and "length x = wb_k wt" and "wb_k wt \<le> 16384" and "inb \<notin> q8_bufs"
    and "out \<notin> q8_bufs" and "out \<noteq> inb" and "vec W out oo old" and "length old = wb_n wt" and "wb_n wt < 2 ^ 32"
    and "omapM (row (bs (wb_buf wt)) (wb_k wt) x) [0..<wb_n wt] = Ok ys"
  shows "leads D bs cap W (lin_direct pl inb io wt out oo) (put out oo (outputs acc old ys) W)"
  unfolding lin_direct_def
proof (rule leads_disp)
  fix m t assume h: "holds bs cap W m" and t: "wb_n wt \<le> t"
  have b: "gm_bytes m = bs" using h by (simp add: holds_def)
  have k: "unat (of_nat (wb_k wt) :: u32) = wb_k wt" using assms(4) by simp
  from linear_spec_put [OF h assms(6,8,9,4) t assms(11)]
  show "\<exists>m'. kernel_spec lm pl [(0, inb, io), (1, wb_buf wt, 0), (2, out, oo)] [(3, lin_dims wt)] t m = Some m' \<and>
      holds bs cap (put out oo (outputs acc old ys) W) m'"
    using holds_vec [OF h assms(5,2)] assms(3,7,10) by (simp add: assms(1) direct_spec_def lin_dims_def k b Let_def)
qed

text \<open>Quantising the input and multiplying go together: the scratch in between is not part of the contents.\<close>

lemma lead_quant_dot:
  assumes "kernel_spec lm plq = quant_spec sums" and "kernel_spec lm pld = dot_spec_q8 acc dsums row" and "dsums \<longrightarrow> sums"
    and "vec W inb io x" and "length x = wb_k wt" and "wb_k wt \<le> 16384" and "256 dvd wb_k wt" and "wb_k wt div 256 \<le> cap" and "inb \<notin> q8_bufs"
    and "out \<notin> q8_bufs" and "vec W out oo old" and "length old = wb_n wt" and "wb_n wt < 2 ^ 32"
    and "omapM (row (bs (wb_buf wt)) (wb_k wt) (map (seen_block dsums) (q8_row (wb_k wt) x))) [0..<wb_n wt] = Ok ys"
    and "qbufs = [(0, inb, io), (1, B_q8_dx, 0), (2, B_q8_qs, 0)] @ (if sums then [(3, B_q8_bsums, 0)] else [])"
    and "dbufs = [(0, B_q8_dx, 0), (1, B_q8_qs, 0)] @ (if dsums then [(2, B_q8_bsums, 0), (3, wb_buf wt, 0), (4, out, oo)] else [(2, wb_buf wt, 0), (3, out, oo)])"
  shows "leads D bs cap W [disp plq qbufs [(if sums then 4 else 3, [of_nat (wb_k wt div 256)])] (wb_k wt div 256), Barrier bl,
    disp pld dbufs [(if dsums then 5 else 4, lin_dims wt)] (wb_n wt)] (put out oo (outputs acc old ys) W)"
  unfolding leads_def
proof (intro allI impI)
  fix m assume h: "holds bs cap W m"
  let ?n = "wb_k wt div 256" and ?q = "q8_row (wb_k wt) x"
  let ?S = "\<lambda>s. if s then Some B_q8_bsums else None"
  have k: "?n * 256 = wb_k wt" "?n < 2 ^ 32" "wb_k wt < 2 ^ 32" using assms(6,7) by auto
  have q: "length ?q = ?n" "\<forall>b\<in>set ?q. wf_q8 b" using q8_row_wf [OF assms(5)] by (auto simp: q8_row_def in_set_conv_nth)
  note x = holds_vec [OF h assms(9,4)]
  have f: "q8_fits m' B_q8_dx B_q8_qs (?S s) ?n" if "holds bs cap W m'" for m' s using holds_q8_fits [OF that assms(8)] by simp
  let ?m = "put_q8 B_q8_dx B_q8_qs (?S sums) ?q m"
  have 1: "exec_cmds D [disp plq qbufs [(if sums then 4 else 3, [of_nat ?n])] ?n] m = ?m"
  proof (rule exec_disp)
    fix t assume "?n \<le> t"
    then show "\<exists>m'. kernel_spec lm plq qbufs [(if sums then 4 else 3, [of_nat ?n])] t m = Some m' \<and> m' = ?m"
      using x f [OF h, of sums] assms(5,9) k quantize_row_Ok [OF assms(5)] by (auto simp: assms(1,15) quant_spec_def q8_bufs_def Let_def)
  qed
  have m: "holds bs cap W ?m" using holds_put_q8 [OF h _ _ q(2), of "?S sums"] f [OF h, of sums] q(1) by simp
  have G: "get_q8 B_q8_dx B_q8_qs (?S sums) ?n ?m = map (seen_block sums) ?q" using get_put_q8 [OF f [OF h, of sums] q] by (cases sums) simp_all
  have less: "get_q8 B_q8_dx B_q8_qs None ?n ?m = map (seen_block False) (get_q8 B_q8_dx B_q8_qs (?S sums) ?n ?m)"
    by (simp add: get_q8_def seen_block_def)
  have g: "get_q8 B_q8_dx B_q8_qs (?S dsums) ?n ?m = map (seen_block dsums) ?q"
  proof (cases dsums)
    case False
    then show ?thesis using less unfolding G by (simp add: seen_block_def)
  qed (use assms(3) G in simp)
  have b: "gm_bytes ?m = bs" using m by (simp add: holds_def)
  have "holds bs cap (put out oo (outputs acc old ys) W) (exec_cmds D [disp pld dbufs [(if dsums then 5 else 4, lin_dims wt)] (wb_n wt)] ?m)"
  proof (rule exec_disp)
    fix t assume t: "wb_n wt \<le> t"
    show "\<exists>m'. kernel_spec lm pld dbufs [(if dsums then 5 else 4, lin_dims wt)] t ?m = Some m' \<and> holds bs cap (put out oo (outputs acc old ys) W) m'"
      using linear_spec_put [OF m assms(10,11,12,6) t assms(14)] f [OF m, of dsums] g b k assms(10,13)
      by (cases dsums) (simp_all add: assms(2,16) dot_spec_q8_def lin_dims_def q8_bufs_def Let_def)
  qed
  then show "holds bs cap (put out oo (outputs acc old ys) W) (exec_cmds D [disp plq qbufs [(if sums then 4 else 3, [of_nat ?n])] ?n, Barrier bl,
      disp pld dbufs [(if dsums then 5 else 4, lin_dims wt)] (wb_n wt)] m)"
    using 1 by (simp add: exec_cmds_def)
qed

lemma lead_linear:
  assumes "vec W inb io x" and "length x = wb_k wt" and "wb_k wt \<le> 16384" and "wb_k wt div 256 \<le> cap" and "wb_kind wt \<in> {0, 1} \<Longrightarrow> 256 dvd wb_k wt"
    and "inb \<notin> q8_bufs" and "out \<notin> q8_bufs" and "out \<noteq> inb" and "vec W out oo old" and "length old = wb_n wt" and "wb_n wt < 2 ^ 32"
    and "wb_kind wt \<in> {0, 1, 2, 3}" and "omapM (linear_row regime (wb_kind wt) (bs (wb_buf wt)) (wb_k wt) x) [0..<wb_n wt] = Ok ys"
  shows "leads D bs cap W (lin_with acc regime inb io wt out oo) (put out oo (outputs acc old ys) W)"
proof -
  let ?k = "wb_k wt" and ?n = "wb_n wt" and ?w = "bs (wb_buf wt)" and ?q = "q8_row (wb_k wt) x"
  let ?goal = "\<lambda>cmds. leads D bs cap W cmds (put out oo (outputs acc old ys) W)"
  have direct: "?goal (lin_direct pl inb io wt out oo)"
    if "kernel_spec lm pl = direct_spec acc row" "omapM (row ?w ?k x) [0..<?n] = Ok ys" for pl row
    by (rule lead_direct [where row = row and bs = bs and wt = wt and x = x, OF that(1) assms(1-3,6-11) that(2)])
  have dot: "?goal [disp plq qbufs [(if sums then 4 else 3, [of_nat (?k div 256)])] (?k div 256), Barrier bl,
        disp pld dbufs [(if dsums then 5 else 4, lin_dims wt)] ?n]"
    if "kernel_spec lm plq = quant_spec sums" "kernel_spec lm pld = dot_spec_q8 acc dsums row" "dsums \<longrightarrow> sums" "wb_kind wt \<in> {0, 1}"
      "omapM (row ?w ?k (map (seen_block dsums) ?q)) [0..<?n] = Ok ys"
      "qbufs = [(0, inb, io), (1, B_q8_dx, 0), (2, B_q8_qs, 0)] @ (if sums then [(3, B_q8_bsums, 0)] else [])"
      "dbufs = [(0, B_q8_dx, 0), (1, B_q8_qs, 0)] @ (if dsums then [(2, B_q8_bsums, 0), (3, wb_buf wt, 0), (4, out, oo)] else [(2, wb_buf wt, 0), (3, out, oo)])"
    for plq pld row qbufs dbufs sums dsums bl
    by (rule lead_quant_dot [where row = row and bs = bs and wt = wt and x = x, OF that(1-3) assms(1-3) assms(5) [OF that(4)] assms(4,6,7,9-11) that(5-7)])
  note rows = assms(13) [unfolded linear_row_def quantize_row_Ok [OF assms(2)] obind.simps]
  have plain: "map (seen_block True) ?q = ?q" by (simp add: seen_block_def map_idI)
  consider "wb_kind wt = 2" | "wb_kind wt = 3" | "wb_kind wt = 0" "regime = 3" | "wb_kind wt = 0" "regime \<noteq> 3"
    | "wb_kind wt = 1" "regime = 3" | "wb_kind wt = 1" "regime \<noteq> 3" using assms(12) by auto
  then show ?thesis
  proof cases
    case 1
    show ?thesis using direct [where pl = "if acc then Pl_q8_0_acc else Pl_q8_0" and row = "\<lambda>w k. block_row dequantize_q8_0 (k div 32 * 34) w k"] rows 1
      by (cases acc) (simp_all add: lin_with_def lin_def lin_acc_def Let_def fun_eq_iff)
  next
    case 2
    show ?thesis using direct [where pl = "if acc then Pl_q5_0_acc else Pl_q5_0" and row = "\<lambda>w k. block_row dequantize_q5_0 (k div 32 * 22) w k"] rows 2
      by (cases acc) (simp_all add: lin_with_def lin_def lin_acc_def Let_def fun_eq_iff)
  next
    case 3
    show ?thesis using dot [where plq = Pl_q8_quant and pld = "if acc then Pl_q4k_rs_acc else Pl_q4k_rs" and sums = True and dsums = True
          and row = "\<lambda>w k q r. omap running_sum (q4k_int_parts dot32_pair_scalar w k q r)"] rows 3
      by (cases acc) (simp_all add: lin_with_def lin_def lin_acc_def Let_def fun_eq_iff plain)
  next
    case 4
    show ?thesis using direct [where pl = "if acc then Pl_q4k_linear_acc else Pl_q4k_linear" and row = q4k_fused_row] rows 4
      by (cases acc) (simp_all add: lin_with_def lin_def lin_acc_def Let_def fun_eq_iff)
  next
    case 5
    show ?thesis using dot [where plq = Pl_q8_quant and pld = "if acc then Pl_q6k_rs_acc else Pl_q6k_rs" and sums = True and dsums = False
          and row = "\<lambda>w k q r. omap running_sum (q6k_int_parts w k q r)"] rows 5
      by (cases acc) (simp_all add: lin_with_def lin_def lin_acc_def Let_def fun_eq_iff q6k_seen)
  next
    case 6
    show ?thesis using dot [where plq = Pl_q6k_quant and pld = "if acc then Pl_q6k_dot_acc else Pl_q6k_dot" and sums = False and dsums = False
          and row = "\<lambda>w k q r. omap fixed_tree (q6k_int_parts w k q r)"] rows 6
      by (cases acc) (simp_all add: lin_with_def lin_def lin_acc_def Let_def fun_eq_iff q6k_seen)
  qed
qed

end

end
