(* ===== verification/MetalParts.thy ===== *)
theory MetalParts
  imports MetalOps
begin

text \<open>
  The parts of a layer on a Metal device: the norm and the projections, the biases, the rotation,
  attention, the feed-forward half, the final norm and the classifier. For a model the backend can run,
  each lemma says what the commands of the part leave in the buffers, and that the buffers of the model
  stay intact.
\<close>

subsection \<open>Models for Metal\<close>

text \<open>
  The linear layers of a model, and what the backend needs beyond a well-formed model: weights of the
  four types the kernels read, sizes inside the kernels' fixed arrays, biases on all three projections
  of a layer or on none.
\<close>

definition layer_linears :: "QuantLayer \<Rightarrow> QuantTensor list" where
  "layer_linears lay = [l_wq lay, l_wk lay, l_wv lay, l_wo lay, l_w1 lay, l_w2 lay, l_w3 lay]"

definition classifier :: "QuantizedWeights \<Rightarrow> QuantTensor" where
  "classifier w = (case q_wcls w of Some c \<Rightarrow> c | None \<Rightarrow> q_token_embedding_table w)"

definition bias_ok :: "Config \<Rightarrow> QuantLayer \<Rightarrow> bool" where
  "bias_ok cfg lay \<longleftrightarrow> (case (l_bq lay, l_bk lay, l_bv lay) of (None, None, None) \<Rightarrow> True
     | (Some bq, Some bk, Some bv) \<Rightarrow> length bq = c_dim cfg \<and> length bk = kvd_of cfg \<and> length bv = kvd_of cfg | _ \<Rightarrow> False)"

definition metal_ok :: "nat \<Rightarrow> Config \<Rightarrow> QuantizedWeights \<Rightarrow> bool" where
  "metal_ok base cfg w \<longleftrightarrow> q_model_ok base cfg w \<and> (\<forall>lay\<in>set (q_layers w). bias_ok cfg lay \<and> (\<forall>t\<in>set (layer_linears lay). kind_of (qt_dtype t) \<noteq> None)) \<and>
     kind_of (qt_dtype (classifier w)) \<noteq> None \<and> c_dim cfg \<le> 8192 \<and> c_hidden_dim cfg \<le> 16384 \<and> c_vocab_size cfg < 2 ^ 32 \<and>
     0 < c_seq_len cfg \<and> c_seq_len cfg * kvd_of cfg * 4 \<le> usize_max"

lemma dtype_kind_of: "kind_of t = Some k \<Longrightarrow> dtype_kind (gt_debug t) = k \<and> k \<in> {0, 1, 2, 3}"
  by (cases t) (auto simp: kind_of_def dtype_kind_def)

subsection \<open>The buffers during a step\<close>

text \<open>The buffers a step writes; the others keep what loading put there, and no buffer changes its length.\<close>

definition writable :: "MBuf \<Rightarrow> bool" where
  "writable b \<longleftrightarrow> b \<in> {B_x, B_xb, B_q, B_att, B_gate, B_up, B_inner, B_logits, B_cos, B_sin} \<or> b \<in> range Key_cache \<or> b \<in> range Value_cache"

definition loaded_words :: "Config \<Rightarrow> QuantizedWeights \<Rightarrow> MBuf \<Rightarrow> f32 list" where
  "loaded_words cfg w = new_words cfg w (hs_of cfg) (kvd_of cfg) (c_dim cfg)"

definition intact :: "Config \<Rightarrow> QuantizedWeights \<Rightarrow> (MBuf \<Rightarrow> f32 list) \<Rightarrow> bool" where
  "intact cfg w W \<longleftrightarrow> (\<forall>b. length (W b) = length (loaded_words cfg w b)) \<and> (\<forall>b. \<not> writable b \<longrightarrow> W b = loaded_words cfg w b)"

lemma intact_put: "intact cfg w W \<Longrightarrow> writable b \<Longrightarrow> room W b off (length xs) \<Longrightarrow> intact cfg w (put b off xs W)"
  by (auto simp: intact_def put_length) (metis put_other)

lemma writable_simps [simp]: "writable B_x" "writable B_xb" "writable B_q" "writable B_att" "writable B_gate" "writable B_up" "writable B_inner"
  "writable B_logits" "writable B_cos" "writable B_sin" "writable (Key_cache l)" "writable (Value_cache l)"
  "\<not> writable B_rms_final" "\<not> writable (L_rms_att l)" "\<not> writable (L_rms_ffn l)" "\<not> writable (L_bq l)" "\<not> writable (L_bk l)" "\<not> writable (L_bv l)"
  by (auto simp: writable_def)

lemma vec_whole: "W b = xs \<Longrightarrow> vec W b 0 xs"
  by (simp add: vec_def)

lemma vec_cong: "W' b = W b \<Longrightarrow> vec W' b off xs \<longleftrightarrow> vec W b off xs"
  by (simp add: vec_def)

lemma length_zbuf: "n * 4 \<le> usize_max \<Longrightarrow> length (zbuf n) = max n 1"
  by (simp add: zbuf_def max_def)

text \<open>Room in the buffers.\<close>

lemma metal_facts:
  assumes "metal_ok base cfg w"
  shows "q_model_ok base cfg w" "heads_ok cfg" "sizes_ok cfg" "c_dim cfg \<le> 8192" "c_hidden_dim cfg \<le> 16384" "c_vocab_size cfg < 2 ^ 32"
    "kvd_of cfg \<le> c_dim cfg" "hs_of cfg \<le> c_dim cfg" "c_n_heads cfg \<le> c_dim cfg" "c_n_kv_heads cfg \<le> c_n_heads cfg" "kvm_of cfg \<le> c_n_heads cfg"
    "0 < c_dim cfg" "wrap_mul (c_n_heads cfg) (hs_of cfg) = c_dim cfg" "c_seq_len cfg * kvd_of cfg * 4 \<le> usize_max" "length (q_layers w) = c_n_layers cfg"
proof -
  show M: "q_model_ok base cfg w" "heads_ok cfg" "sizes_ok cfg" "c_dim cfg \<le> 8192" "c_hidden_dim cfg \<le> 16384" "c_vocab_size cfg < 2 ^ 32"
    "c_seq_len cfg * kvd_of cfg * 4 \<le> usize_max" "length (q_layers w) = c_n_layers cfg"
    using assms by (simp_all add: metal_ok_def q_model_ok_def)
  note F = heads_facts [OF M(2)]
  show "kvd_of cfg \<le> c_dim cfg" "0 < c_dim cfg" using F(5) M(2) by (simp_all add: heads_ok_def)
  have n: "0 < c_n_heads cfg" "c_n_kv_heads cfg dvd c_n_heads cfg" using M(2) by (simp_all add: heads_ok_def)
  then show "c_n_kv_heads cfg \<le> c_n_heads cfg" "kvm_of cfg \<le> c_n_heads cfg" by (simp_all add: dvd_imp_le kvm_of_def)
  show "hs_of cfg \<le> c_dim cfg" "c_n_heads cfg \<le> c_dim cfg" using F(1,2) n(1) by (metis mult_le_mono1 mult_1 Suc_leI One_nat_def, metis mult_le_mono2 mult.right_neutral Suc_leI One_nat_def)
  show "wrap_mul (c_n_heads cfg) (hs_of cfg) = c_dim cfg" using F(1) M(4) by (simp add: usize_max_def)
qed

lemma intact_room:
  assumes "metal_ok base cfg w" and "intact cfg w W"
  shows "room W B_x 0 (c_dim cfg)" "room W B_xb 0 (c_dim cfg)" "room W B_q 0 (c_dim cfg)" "room W B_att 0 (c_dim cfg)" "room W B_gate 0 (c_hidden_dim cfg)"
    "room W B_up 0 (c_hidden_dim cfg)" "room W B_inner 0 (c_hidden_dim cfg)" "room W B_logits 0 (c_vocab_size cfg)"
    "room W B_cos 0 (hs_of cfg div 2)" "room W B_sin 0 (hs_of cfg div 2)"
    "length (W (Key_cache l)) = c_seq_len cfg * kvd_of cfg" "length (W (Value_cache l)) = c_seq_len cfg * kvd_of cfg"
proof -
  note F = metal_facts [OF assms(1)]
  have z: "n \<le> length (zbuf n)" if "n \<le> 2 ^ 32" for n using length_zbuf [of n] that by (simp add: usize_max_def)
  have L: "length (W b) = length (loaded_words cfg w b)" for b using assms(2) by (simp add: intact_def)
  show "room W B_x 0 (c_dim cfg)" "room W B_xb 0 (c_dim cfg)" "room W B_q 0 (c_dim cfg)" "room W B_att 0 (c_dim cfg)" "room W B_gate 0 (c_hidden_dim cfg)"
    "room W B_up 0 (c_hidden_dim cfg)" "room W B_inner 0 (c_hidden_dim cfg)" "room W B_logits 0 (c_vocab_size cfg)"
    "room W B_cos 0 (hs_of cfg div 2)" "room W B_sin 0 (hs_of cfg div 2)"
    using F(4-8) z by (simp_all add: room_def L loaded_words_def)
  have "0 < c_seq_len cfg * kvd_of cfg" "c_seq_len cfg * kvd_of cfg * 4 \<le> usize_max"
    using assms(1) heads_facts(4) [OF F(2)] by (simp_all add: metal_ok_def)
  then have "length (zbuf (wrap_mul (c_seq_len cfg) (kvd_of cfg))) = c_seq_len cfg * kvd_of cfg" by (simp add: length_zbuf)
  then show "length (W (Key_cache l)) = c_seq_len cfg * kvd_of cfg" "length (W (Value_cache l)) = c_seq_len cfg * kvd_of cfg"
    by (simp_all add: L loaded_words_def)
qed

subsection \<open>Operations of the model\<close>

abbreviation cap_of :: "Config \<Rightarrow> nat" where
  "cap_of cfg \<equiv> max (c_dim cfg) (c_hidden_dim cfg) div 256"

text \<open>A weight of the model, in a buffer that holds its bytes.\<close>

lemma linear_dispatch_length:
  assumes "linear_dispatch tg base x t k n regime = Ok ys" and "linear_ok base t k n" and "kind_of (qt_dtype t) = Some kind" and "target_ok tg" and "length x = k"
  shows "omapM (linear_row regime kind (qt_bytes t) k x) [0..<n] = Ok ys" and "length ys = n"
  using assms(1) linear_rows [OF assms(2-5)] by (auto dest: omapM_length)

lemma linear_ok_super: "linear_ok base t k n \<Longrightarrow> kind_of (qt_dtype t) = Some kind \<Longrightarrow> kind \<in> {0, 1} \<Longrightarrow> 256 dvd k"
  by (cases "qt_dtype t") (auto simp: linear_ok_def kind_of_def q4k_good_def q6k_good_def Let_def)

lemma norm_list_length:
  assumes "norm_list lm xs ws eps = Ok y" and "length ws = length xs" and "0 < length xs" and "length xs \<le> usize_max"
  shows "length y = length xs"
proof -
  obtain x t where x: "slice_to_tensor xs [length xs] = Ok x" "rms_norm_slice lm x ws eps = Ok t" "tensor_as_f32 WHY_Q t = Ok y"
    using assms(1) by (auto simp: norm_list_def outcome_simps)
  have "oks (slice_to_tensor xs [length xs]) (\<lambda>x. has_dims x [length xs])" using assms(4) by (intro slice_to_tensor_oks) (simp_all add: MAX_RANK_def)
  then obtain zs where z: "f32_tensor x zs [length xs]" using x(1) by (auto simp: oks_def elim!: has_dimsE)
  then have d: "prod_list [length xs] \<le> usize_max" "[length xs] \<noteq> []" "0 < last [length xs]" "length ws = last [length xs]" using assms by auto
  have "has_dims t [length xs]"
    by (rule rms_norm_slice_Ok [OF z d, where lm = lm and eps = eps]) (use x(2) in \<open>simp add: has_dimsI [OF _ d(1)]\<close>)
  then show ?thesis using x(3) as_f32_oks [of t "[length xs]" WHY_Q] by (auto simp: oks_def)
qed

lemma koff_eq:
  assumes "metal_ok base cfg w" and "pos < c_seq_len cfg"
  shows "wrap_mul (wrap_mul pos (kvd_of cfg)) 4 = pos * kvd_of cfg * 4" and "pos * kvd_of cfg + kvd_of cfg \<le> c_seq_len cfg * kvd_of cfg"
proof -
  show r: "pos * kvd_of cfg + kvd_of cfg \<le> c_seq_len cfg * kvd_of cfg" by (rule row_bound_le [OF assms(2)])
  then have "pos * kvd_of cfg * 4 \<le> c_seq_len cfg * kvd_of cfg * 4" using assms(2) by simp
  then have "pos * kvd_of cfg * 4 \<le> usize_max" using metal_facts(14) [OF assms(1)] by linarith
  then show "wrap_mul (wrap_mul pos (kvd_of cfg)) 4 = pos * kvd_of cfg * 4" by simp
qed

lemma layer_facts:
  assumes "metal_ok base cfg w" and "l < c_n_layers cfg"
  defines "lay \<equiv> q_layers w ! l"
  shows "lay \<in> set (q_layers w)" "bias_ok cfg lay" "length (l_rms_att_weight lay) = c_dim cfg" "length (l_rms_ffn_weight lay) = c_dim cfg"
    "linear_ok base (l_wq lay) (c_dim cfg) (c_dim cfg) \<and> kind_of (qt_dtype (l_wq lay)) \<noteq> None"
    "linear_ok base (l_wk lay) (c_dim cfg) (kvd_of cfg) \<and> kind_of (qt_dtype (l_wk lay)) \<noteq> None"
    "linear_ok base (l_wv lay) (c_dim cfg) (kvd_of cfg) \<and> kind_of (qt_dtype (l_wv lay)) \<noteq> None"
    "linear_ok base (l_wo lay) (c_dim cfg) (c_dim cfg) \<and> kind_of (qt_dtype (l_wo lay)) \<noteq> None"
    "linear_ok base (l_w1 lay) (c_dim cfg) (c_hidden_dim cfg) \<and> kind_of (qt_dtype (l_w1 lay)) \<noteq> None"
    "linear_ok base (l_w3 lay) (c_dim cfg) (c_hidden_dim cfg) \<and> kind_of (qt_dtype (l_w3 lay)) \<noteq> None"
    "linear_ok base (l_w2 lay) (c_hidden_dim cfg) (c_dim cfg) \<and> kind_of (qt_dtype (l_w2 lay)) \<noteq> None"
proof -
  show l: "lay \<in> set (q_layers w)" using metal_facts(15) [OF assms(1)] assms(2) by (simp add: lay_def)
  then have "layer_ok base cfg lay" "bias_ok cfg lay" "\<forall>t\<in>set (layer_linears lay). kind_of (qt_dtype t) \<noteq> None"
    using assms(1) by (simp_all add: metal_ok_def q_model_ok_def)
  then show "bias_ok cfg lay" "length (l_rms_att_weight lay) = c_dim cfg" "length (l_rms_ffn_weight lay) = c_dim cfg"
    "linear_ok base (l_wq lay) (c_dim cfg) (c_dim cfg) \<and> kind_of (qt_dtype (l_wq lay)) \<noteq> None"
    "linear_ok base (l_wk lay) (c_dim cfg) (kvd_of cfg) \<and> kind_of (qt_dtype (l_wk lay)) \<noteq> None"
    "linear_ok base (l_wv lay) (c_dim cfg) (kvd_of cfg) \<and> kind_of (qt_dtype (l_wv lay)) \<noteq> None"
    "linear_ok base (l_wo lay) (c_dim cfg) (c_dim cfg) \<and> kind_of (qt_dtype (l_wo lay)) \<noteq> None"
    "linear_ok base (l_w1 lay) (c_dim cfg) (c_hidden_dim cfg) \<and> kind_of (qt_dtype (l_w1 lay)) \<noteq> None"
    "linear_ok base (l_w3 lay) (c_dim cfg) (c_hidden_dim cfg) \<and> kind_of (qt_dtype (l_w3 lay)) \<noteq> None"
    "linear_ok base (l_w2 lay) (c_hidden_dim cfg) (c_dim cfg) \<and> kind_of (qt_dtype (l_w2 lay)) \<noteq> None"
    by (simp_all add: layer_ok_def layer_linears_def Let_def)
qed

text \<open>The constant buffers of a layer.\<close>

lemma intact_consts:
  assumes "intact cfg w W"
  shows "vec W B_rms_final 0 (q_rms_final_weight w)" "vec W (L_rms_att l) 0 (l_rms_att_weight (q_layers w ! l))"
    "vec W (L_rms_ffn l) 0 (l_rms_ffn_weight (q_layers w ! l))" "vec W (L_bq l) 0 (opt_words (l_bq (q_layers w ! l)))"
    "vec W (L_bk l) 0 (opt_words (l_bk (q_layers w ! l)))" "vec W (L_bv l) 0 (opt_words (l_bv (q_layers w ! l)))"
  using assms by (simp_all add: intact_def loaded_words_def vec_def)

lemma put_here [simp]: "put b off xs W b = splice (W b) (off div 4) xs"
  by (simp add: put_def)

lemma splice_splice: "length ys = length xs \<Longrightarrow> off + length xs \<le> length zs \<Longrightarrow> splice (splice zs off xs) off ys = splice zs off ys"
  by (simp add: splice_def)

lemma add_bias_map2: "length v = length b \<Longrightarrow> add_bias v (Some b) = map2 f32_add v b"
  by (simp add: add_bias_def)

lemma caps:
  assumes "metal_ok base cfg w"
  shows "c_dim cfg div 256 \<le> cap_of cfg" "c_hidden_dim cfg div 256 \<le> cap_of cfg" "c_dim cfg \<le> 16384" "c_dim cfg < 2 ^ 32" "kvd_of cfg < 2 ^ 32"
    "c_hidden_dim cfg < 2 ^ 32" "c_n_heads cfg < 2 ^ 32" "c_n_kv_heads cfg < 2 ^ 32" "hs_of cfg < 2 ^ 32" "kvm_of cfg < 2 ^ 32" "hs_of cfg \<le> 8192"
    "c_dim cfg \<le> usize_max"
  using metal_facts(4-11) [OF assms] by (simp_all add: div_le_mono usize_max_def)

text \<open>The state between the projections and attention: query, and the rows of the position in the caches of the layer.\<close>

definition same_but :: "MBuf set \<Rightarrow> (MBuf \<Rightarrow> f32 list) \<Rightarrow> (MBuf \<Rightarrow> f32 list) \<Rightarrow> bool" where
  "same_but S W W' \<longleftrightarrow> (\<forall>b. b \<notin> S \<longrightarrow> W' b = W b)"

lemma same_but_vec: "same_but S W W' \<Longrightarrow> b \<notin> S \<Longrightarrow> vec W' b off xs \<longleftrightarrow> vec W b off xs"
  by (simp add: same_but_def vec_def)

definition projected :: "Config \<Rightarrow> QuantizedWeights \<Rightarrow> nat \<Rightarrow> nat \<Rightarrow> f32 list \<Rightarrow> f32 list \<Rightarrow> f32 list \<Rightarrow> f32 list \<Rightarrow> f32 list \<Rightarrow> (MBuf \<Rightarrow> f32 list) \<Rightarrow> bool" where
  "projected cfg w l pos K V q k v W \<longleftrightarrow> intact cfg w W \<and> pos < c_seq_len cfg \<and> vec W B_q 0 q \<and>
     W (Key_cache l) = splice K (pos * kvd_of cfg) k \<and> W (Value_cache l) = splice V (pos * kvd_of cfg) v \<and>
     length q = c_dim cfg \<and> length k = kvd_of cfg \<and> length v = kvd_of cfg \<and> length K = c_seq_len cfg * kvd_of cfg \<and> length V = c_seq_len cfg * kvd_of cfg"

lemma cache_row:
  assumes "metal_ok base cfg w" and "projected cfg w l pos K V q k v W"
  shows "vec W (Key_cache l) (pos * kvd_of cfg * 4) k" "vec W (Value_cache l) (pos * kvd_of cfg * 4) v"
proof -
  note P = assms(2) [unfolded projected_def]
  then have "pos * kvd_of cfg + kvd_of cfg \<le> c_seq_len cfg * kvd_of cfg" using koff_eq(2) [OF assms(1)] by blast
  then show "vec W (Key_cache l) (pos * kvd_of cfg * 4) k" "vec W (Value_cache l) (pos * kvd_of cfg * 4) v"
    using P by (simp_all add: vec_def) (simp_all add: splice_def slice_def)
qed

lemma projected_put:
  assumes "metal_ok base cfg w" and "projected cfg w l pos K V q k v W"
  shows "length q' = c_dim cfg \<Longrightarrow> projected cfg w l pos K V q' k v (put B_q 0 q' W)"
    and "length k' = kvd_of cfg \<Longrightarrow> projected cfg w l pos K V q k' v (put (Key_cache l) (pos * kvd_of cfg * 4) k' W)"
    and "length v' = kvd_of cfg \<Longrightarrow> projected cfg w l pos K V q k v' (put (Value_cache l) (pos * kvd_of cfg * 4) v' W)"
proof -
  note P = assms(2) [unfolded projected_def] and R = cache_row [OF assms, THEN vec_room, OF refl]
  have o': "pos * kvd_of cfg + kvd_of cfg \<le> c_seq_len cfg * kvd_of cfg" using P koff_eq(2) [OF assms(1)] by blast
  have q: "room W B_q 0 (c_dim cfg)" using P vec_room by blast
  show "length q' = c_dim cfg \<Longrightarrow> projected cfg w l pos K V q' k v (put B_q 0 q' W)"
    using P q by (simp add: projected_def intact_put)
  show "length k' = kvd_of cfg \<Longrightarrow> projected cfg w l pos K V q k' v (put (Key_cache l) (pos * kvd_of cfg * 4) k' W)"
    using P R o' by (simp add: projected_def intact_put splice_splice)
  show "length v' = kvd_of cfg \<Longrightarrow> projected cfg w l pos K V q k v' (put (Value_cache l) (pos * kvd_of cfg * 4) v' W)"
    using P R o' by (simp add: projected_def intact_put splice_splice)
qed

lemma same_but_put: "same_but S W W' \<Longrightarrow> b \<in> S \<Longrightarrow> same_but S W (put b off xs W')" and same_but_refl: "same_but S W W"
  by (auto simp: same_but_def put_def)

lemma same_but_trans: "same_but S W W' \<Longrightarrow> same_but S W' W'' \<Longrightarrow> same_but S W W''"
  by (simp add: same_but_def)

context metal_device
begin

lemma lead_weight:
  assumes "linear_dispatch tg base x t k n regime = Ok ys" and "linear_ok base t k n" and "kind_of (qt_dtype t) \<noteq> None" and "target_ok tg"
    and "vec W inb io x" and "length x = k" and "k \<le> 16384" and "k div 256 \<le> cap" and "n < 2 ^ 32" and "bs b = qt_bytes t"
    and "inb \<notin> q8_bufs" and "out \<notin> q8_bufs" and "out \<noteq> inb" and "vec W out oo old" and "length old = n"
  shows "leads D bs cap W (lin_with acc regime inb io (mkw b t n k) out oo) (put out oo (outputs acc old ys) W)"
proof -
  obtain kind where k: "kind_of (qt_dtype t) = Some kind" using assms(3) by blast
  then have d: "wb_kind (mkw b t n k) = kind" "kind \<in> {0, 1, 2, 3}" using dtype_kind_of by (auto simp: mkw_def)
  show ?thesis
    by (rule lead_linear [where x = x])
      (use assms d linear_dispatch_length(1) [OF assms(1,2) k assms(4,6)] linear_ok_super [OF assms(2) k] in simp_all)
qed

lemma lead_plain:
  assumes "linear_dispatch tg base x t k n regime = Ok ys" and "linear_ok base t k n" and "kind_of (qt_dtype t) \<noteq> None" and "target_ok tg"
    and "vec W inb io x" and "length x = k" and "k \<le> 16384" and "k div 256 \<le> cap" and "n < 2 ^ 32" and "bs b = qt_bytes t"
    and "inb \<notin> q8_bufs" and "out \<notin> q8_bufs" and "out \<noteq> inb" and "room W out oo n"
  shows "leads D bs cap W (lin regime inb io (mkw b t n k) out oo) (put out oo ys W)"
proof -
  obtain old where "vec W out oo old" "length old = n" using room_vec [OF assms(14)] by blast
  from lead_weight [where acc = False and bs = bs and b = b and t = t and regime = regime, unfolded lin_with_def outputs_def if_False, OF assms(1-13) this] show ?thesis .
qed

lemmas lead_weight_acc = lead_weight [where acc = True, unfolded lin_with_def outputs_def if_True]

text \<open>The norm and the projections, up to the biases.\<close>

lemma lead_qkv:
  fixes m0 :: GpuMem
  assumes M: "metal_ok base cfg w" and "l < c_n_layers cfg" and "pos < c_seq_len cfg" and tg: "target_ok tg" and I: "intact cfg w W"
    and "vec W B_x 0 xs" and "length xs = c_dim cfg" and n: "norm_list lm xs (l_rms_att_weight (q_layers w ! l)) (q_rms_eps w) = Ok xb"
    and q: "linear_dispatch tg base xb (l_wq (q_layers w ! l)) (c_dim cfg) (c_dim cfg) r = Ok q"
    and k: "linear_dispatch tg base xb (l_wk (q_layers w ! l)) (c_dim cfg) (kvd_of cfg) r = Ok k"
    and v: "linear_dispatch tg base xb (l_wv (q_layers w ! l)) (c_dim cfg) (kvd_of cfg) r = Ok v"
  defines "mf \<equiv> metal_at cfg w (hs_of cfg) (kvd_of cfg) (kvm_of cfg) r m0" and "koff \<equiv> pos * kvd_of cfg * 4"
  shows "leads D (new_bytes w) (cap_of cfg) W
     (enc_norm mf (L_rms_att l) @ enc_qkv mf koff (Key_cache l) (Value_cache l) (mkw (W_wq l) (l_wq (q_layers w ! l)) (c_dim cfg) (c_dim cfg))
       (mkw (W_wk l) (l_wk (q_layers w ! l)) (kvd_of cfg) (c_dim cfg)) (mkw (W_wv l) (l_wv (q_layers w ! l)) (kvd_of cfg) (c_dim cfg)))
     (put (Value_cache l) koff v (put (Key_cache l) koff k (put B_q 0 q (put B_xb 0 xb W))))"
    and "length q = c_dim cfg" "length k = kvd_of cfg" "length v = kvd_of cfg"
    and "intact cfg w (put (Value_cache l) koff v (put (Key_cache l) koff k (put B_q 0 q (put B_xb 0 xb W))))"
proof -
  note F = metal_facts [OF M] and L = layer_facts [OF M assms(2)] and C = caps [OF M] and R = intact_room [OF M]
  have xb: "length xb = c_dim cfg" using norm_list_length [OF n] L(3) assms(7) F(12) C(12) by simp
  have len: "length ys = n" if "linear_dispatch tg base xb t (c_dim cfg) n r = Ok ys" "linear_ok base t (c_dim cfg) n \<and> kind_of (qt_dtype t) \<noteq> None" for t n ys
    using linear_dispatch_length(2) [OF that(1) _ _ tg xb] that(2) by auto
  show l: "length q = c_dim cfg" "length k = kvd_of cfg" "length v = kvd_of cfg" using len q k v L(5-7) by blast+
  have cache: "room W (Key_cache l) koff (kvd_of cfg)" "room W (Value_cache l) koff (kvd_of cfg)"
    using R(11,12) [OF I] koff_eq(2) [OF M assms(3)] by (simp_all add: room_def koff_def)
  note rooms = R [OF I] cache
  show "intact cfg w (put (Value_cache l) koff v (put (Key_cache l) koff k (put B_q 0 q (put B_xb 0 xb W))))"
    by (intro intact_put I writable_simps) (use rooms xb l in simp_all)
  have x: "vec (put B_xb 0 xb W) B_xb 0 xb" using rooms xb by simp
  have 0: "leads D (new_bytes w) (cap_of cfg) W (enc_norm mf (L_rms_att l)) (put B_xb 0 xb W)"
    by (rule lead_norm [OF assms(6) intact_consts(2) [OF I]]) (use n assms(7) L(3) F(4) xb rooms in \<open>simp_all add: mf_def\<close>)
  have 1: "leads D (new_bytes w) (cap_of cfg) W1 (lin r B_xb 0 (mkw b t n (c_dim cfg)) out oo) (put out oo ys W1)"
    if "linear_dispatch tg base xb t (c_dim cfg) n r = Ok ys" "linear_ok base t (c_dim cfg) n \<and> kind_of (qt_dtype t) \<noteq> None" "vec W1 B_xb 0 xb"
      "new_bytes w b = qt_bytes t" "out \<notin> q8_bufs" "out \<noteq> B_xb" "room W1 out oo n" "n < 2 ^ 32" for t n ys b out oo W1
    by (rule lead_plain [OF that(1) _ _ tg that(3) xb]) (use that C in simp_all)
  show "leads D (new_bytes w) (cap_of cfg) W
     (enc_norm mf (L_rms_att l) @ enc_qkv mf koff (Key_cache l) (Value_cache l) (mkw (W_wq l) (l_wq (q_layers w ! l)) (c_dim cfg) (c_dim cfg))
       (mkw (W_wk l) (l_wk (q_layers w ! l)) (kvd_of cfg) (c_dim cfg)) (mkw (W_wv l) (l_wv (q_layers w ! l)) (kvd_of cfg) (c_dim cfg)))
     (put (Value_cache l) koff v (put (Key_cache l) koff k (put B_q 0 q (put B_xb 0 xb W))))"
    unfolding enc_qkv_def mf_def metal_at_simps
    by (intro leads_append [OF 0 [unfolded mf_def]] leads_append [OF 1 [OF q L(5)]] leads_append [OF 1 [OF k L(6)]] leads_append [OF 1 [OF v L(7)]])
      (use rooms x xb l C in simp_all)
qed

text \<open>The biases of a layer, or nothing.\<close>

lemma lead_bias:
  assumes M: "metal_ok base cfg w" and "l < c_n_layers cfg" and P: "projected cfg w l pos K V q k v W"
    and b: "bias_cmds cfg (q_layers w ! l) (hs_of cfg) (kvd_of cfg) (pos * kvd_of cfg * 4) l = Ok bias"
  shows "\<exists>W'. leads D bs cap W bias W' \<and> same_but {B_q, Key_cache l, Value_cache l} W W' \<and>
    projected cfg w l pos K V (add_bias q (l_bq (q_layers w ! l))) (add_bias k (l_bk (q_layers w ! l))) (add_bias v (l_bv (q_layers w ! l))) W'"
proof (cases "l_bq (q_layers w ! l)")
  case None
  then have "bias = []" "l_bk (q_layers w ! l) = None" "l_bv (q_layers w ! l) = None"
    using b layer_facts(2) [OF M assms(2)] by (auto simp: bias_cmds_def bias_ok_def Let_def split: option.splits)
  then show ?thesis using P None by (intro exI [of _ W]) (simp add: add_bias_def same_but_refl)
next
  case (Some bq)
  then obtain bk bv where B: "l_bk (q_layers w ! l) = Some bk" "l_bv (q_layers w ! l) = Some bv" "length bq = c_dim cfg" "length bk = kvd_of cfg" "length bv = kvd_of cfg"
    using layer_facts(2) [OF M assms(2)] by (auto simp: bias_ok_def split: option.splits)
  let ?kc = "Key_cache l" and ?vc = "Value_cache l" and ?ko = "pos * kvd_of cfg * 4"
  let ?q = "map2 f32_add q bq" and ?k = "map2 f32_add k bk" and ?v = "map2 f32_add v bv"
  let ?W1 = "put B_q 0 ?q W"
  let ?W2 = "put ?kc ?ko ?k ?W1"
  have len: "length q = c_dim cfg" "length k = kvd_of cfg" "length v = kvd_of cfg" "vec W B_q 0 q" using P by (simp_all add: projected_def)
  have P1: "projected cfg w l pos K V ?q k v ?W1" using projected_put(1) [OF M P] len B by simp
  have P2: "projected cfg w l pos K V ?q ?k v ?W2" using projected_put(2) [OF M P1] len B by simp
  have P3: "projected cfg w l pos K V ?q ?k ?v (put ?vc ?ko ?v ?W2)" using projected_put(3) [OF M P2] len B by simp
  have bias: "bias = [disp Pl_add [(0, B_q, 0), (1, L_bq l, 0)] [(2, [of_nat (c_dim cfg)])] (c_dim cfg),
      disp Pl_add [(0, ?kc, ?ko), (1, L_bk l, 0)] [(2, [of_nat (kvd_of cfg)])] (kvd_of cfg),
      disp Pl_add [(0, ?vc, ?ko), (1, L_bv l, 0)] [(2, [of_nat (kvd_of cfg)])] (kvd_of cfg), Barrier [B_q, ?kc, ?vc]]"
    using b Some B metal_facts(13) [OF M] by (simp add: bias_cmds_def Let_def)
  have I: "intact cfg w W" "intact cfg w ?W1" "intact cfg w ?W2" using P P1 P2 by (simp_all add: projected_def)
  have cb: "vec W' (L_bq l) 0 bq" "vec W' (L_bk l) 0 bk" "vec W' (L_bv l) 0 bv" if "intact cfg w W'" for W'
    using intact_consts(4-6) [OF that, of l] Some B by (simp_all add: opt_words_def)
  note C = caps [OF M]
  have 1: "leads D bs cap W [disp Pl_add [(0, B_q, 0), (1, L_bq l, 0)] [(2, [of_nat (c_dim cfg)])] (c_dim cfg)] ?W1"
    by (rule lead_add [OF len(4) cb(1) [OF I(1)]]) (use len B C in simp_all)
  have 2: "leads D bs cap ?W1 [disp Pl_add [(0, ?kc, ?ko), (1, L_bk l, 0)] [(2, [of_nat (kvd_of cfg)])] (kvd_of cfg)] ?W2"
    by (rule lead_add [OF cache_row(1) [OF M P1] cb(2) [OF I(2)]]) (use len B C in simp_all)
  have 3: "leads D bs cap ?W2 [disp Pl_add [(0, ?vc, ?ko), (1, L_bv l, 0)] [(2, [of_nat (kvd_of cfg)])] (kvd_of cfg)] (put ?vc ?ko ?v ?W2)"
    by (rule lead_add [OF cache_row(2) [OF M P2] cb(3) [OF I(3)]]) (use len B C in simp_all)
  have "leads D bs cap W bias (put ?vc ?ko ?v ?W2)" unfolding bias
    by (intro leads_Cons [OF 1] leads_Cons [OF 2] leads_Cons [OF 3]) simp
  moreover have "same_but {B_q, ?kc, ?vc} W (put ?vc ?ko ?v ?W2)" by (intro same_but_put same_but_refl) simp_all
  ultimately show ?thesis using P3 Some B len by (auto simp: add_bias_map2)
qed

text \<open>The rotation of the query and of the key row.\<close>

lemma lead_rot:
  fixes m0 :: GpuMem
  assumes M: "metal_ok base cfg w" and P: "projected cfg w l pos K V q k v W" and c: "vec W B_cos 0 c" and s: "vec W B_sin 0 s"
    and len: "length c = hs_of cfg div 2" "length s = hs_of cfg div 2"
    and q': "rope_kernel (q_rope_neox w) (c_n_heads cfg) (hs_of cfg) c s q = Ok q'"
    and k': "rope_kernel (q_rope_neox w) (c_n_kv_heads cfg) (hs_of cfg) c s k = Ok k'"
    and r: "enc_rope (metal_at cfg w (hs_of cfg) (kvd_of cfg) (kvm_of cfg) rg m0) (pos * kvd_of cfg * 4) (Key_cache l) = Ok rot"
  shows "\<exists>W'. leads D bs cap W rot W' \<and> same_but {B_q, Key_cache l, Value_cache l} W W' \<and> projected cfg w l pos K V q' k' v W'"
proof -
  let ?kc = "Key_cache l" and ?ko = "pos * kvd_of cfg * 4" and ?rope = "if q_rope_neox w then Pl_rope_neox else Pl_rope"
  let ?W1 = "put B_q 0 q' W"
  note F = metal_facts [OF M] and H = heads_facts [OF metal_facts(2) [OF M]] and C = caps [OF M]
  have L: "length q = c_n_heads cfg * hs_of cfg" "length k = c_n_kv_heads cfg * hs_of cfg" "vec W B_q 0 q"
    using P H(1) by (simp_all add: projected_def kvd_of_def)
  have P1: "projected cfg w l pos K V q' k v ?W1" using projected_put(1) [OF M P] rope_kernel_length [OF q'] L H(1) by simp
  have P2: "projected cfg w l pos K V q' k' v (put ?kc ?ko k' ?W1)" using projected_put(2) [OF M P1] rope_kernel_length [OF k'] L by (simp add: kvd_of_def)
  have 1: "leads D bs cap W [disp ?rope [(0, B_q, 0), (1, B_cos, 0), (2, B_sin, 0), (3, B_q, 0)] [(4, [1, of_nat (c_n_heads cfg), of_nat (hs_of cfg)])] (c_n_heads cfg)] ?W1"
    by (rule lead_rope [OF L(3) c s L(1) len q']) (use C in simp_all)
  have 2: "leads D bs cap ?W1 [disp ?rope [(0, ?kc, ?ko), (1, B_cos, 0), (2, B_sin, 0), (3, ?kc, ?ko)]
      [(4, [1, of_nat (c_n_kv_heads cfg), of_nat (hs_of cfg)])] (c_n_kv_heads cfg)] (put ?kc ?ko k' ?W1)"
    by (rule lead_rope [OF cache_row(1) [OF M P1] _ _ L(2) len k']) (use C c s in simp_all)
  have "odiv (kvd_of cfg) (hs_of cfg) = Ok (c_n_kv_heads cfg)" using H(2) by (simp add: odiv_def kvd_of_def)
  then have rot: "rot = [disp ?rope [(0, B_q, 0), (1, B_cos, 0), (2, B_sin, 0), (3, B_q, 0)] [(4, [1, of_nat (c_n_heads cfg), of_nat (hs_of cfg)])] (c_n_heads cfg),
      disp ?rope [(0, ?kc, ?ko), (1, B_cos, 0), (2, B_sin, 0), (3, ?kc, ?ko)] [(4, [1, of_nat (c_n_kv_heads cfg), of_nat (hs_of cfg)])] (c_n_kv_heads cfg),
      Barrier [B_q, ?kc]]" using r by (simp add: enc_rope_def Let_def)
  have "leads D bs cap W rot (put ?kc ?ko k' ?W1)" unfolding rot by (rule leads_Cons [OF 1], rule leads_Cons [OF 2]) simp
  moreover have "same_but {B_q, ?kc, Value_cache l} W (put ?kc ?ko k' ?W1)" by (intro same_but_put same_but_refl) simp_all
  ultimately show ?thesis using P2 by blast
qed

text \<open>Attention, and the projection of its result added to the residual stream.\<close>

lemma lead_attention:
  fixes m0 :: GpuMem
  assumes M: "metal_ok base cfg w" and "l < c_n_layers cfg" and tg: "target_ok tg" and P: "projected cfg w l pos K V q k v W" and "pos < 512"
    and x: "vec W B_x 0 xs" "length xs = c_dim cfg"
    and a: "omap concat (omapM (attend lm (hs_of cfg) (kvd_of cfg) (kvm_of cfg) pos q (splice K (pos * kvd_of cfg) k) (splice V (pos * kvd_of cfg) v)) [0..<c_n_heads cfg]) = Ok xo"
    and y: "linear_dispatch tg base xo (l_wo (q_layers w ! l)) (c_dim cfg) (c_dim cfg) r = Ok y"
  shows "leads D (new_bytes w) (cap_of cfg) W (enc_attn (metal_at cfg w (hs_of cfg) (kvd_of cfg) (kvm_of cfg) r m0) pos (Key_cache l) (Value_cache l)
      (mkw (W_wo l) (l_wo (q_layers w ! l)) (c_dim cfg) (c_dim cfg))) (put B_x 0 (map2 f32_add xs y) (put B_att 0 xo W))"
    and "intact cfg w (put B_x 0 (map2 f32_add xs y) (put B_att 0 xo W))" and "vec (put B_x 0 (map2 f32_add xs y) (put B_att 0 xo W)) B_x 0 (map2 f32_add xs y)"
    and "length y = c_dim cfg"
proof -
  note F = metal_facts [OF M] and H = heads_facts [OF metal_facts(2) [OF M]] and C = caps [OF M] and L = layer_facts(8) [OF M assms(2)]
  have I: "intact cfg w W" using P by (simp add: projected_def)
  note rooms = intact_room [OF M I]
  obtain yss where yss: "omapM (attend lm (hs_of cfg) (kvd_of cfg) (kvm_of cfg) pos q (splice K (pos * kvd_of cfg) k) (splice V (pos * kvd_of cfg) v)) [0..<c_n_heads cfg] = Ok yss"
    "xo = concat yss" using a by (auto elim: omap_OkE)
  have "\<forall>z\<in>set yss. length z = hs_of cfg" using omapM_nth [OF yss(1)] omapM_length [OF yss(1)] attend_length by (fastforce simp: in_set_conv_nth)
  then have xo: "length xo = c_dim cfg" using concat_rows(1) [of yss id "hs_of cfg"] omapM_length [OF yss(1)] H(1) yss(2) by simp
  show ly: "length y = c_dim cfg" using linear_dispatch_length(2) [OF y _ _ tg xo] L by auto
  have g: "h div kvm_of cfg * hs_of cfg + hs_of cfg \<le> kvd_of cfg" if "h < c_n_heads cfg" for h
    using row_bound_le [OF H(8) [OF that], of "hs_of cfg"] by (simp add: kvd_of_def)
  have K: "length (splice K (pos * kvd_of cfg) k) = c_seq_len cfg * kvd_of cfg" "length (splice V (pos * kvd_of cfg) v) = c_seq_len cfg * kvd_of cfg"
    "(pos + 1) * kvd_of cfg \<le> c_seq_len cfg * kvd_of cfg" "vec W B_q 0 q" "length q = c_n_heads cfg * hs_of cfg"
    using P H(1) koff_eq(2) [OF M, of pos] by (simp_all add: projected_def add.commute)
  have KV: "vec W (Key_cache l) 0 (splice K (pos * kvd_of cfg) k)" "vec W (Value_cache l) 0 (splice V (pos * kvd_of cfg) v)"
    using P by (simp_all add: vec_whole projected_def)
  have k: "(pos + 1) * kvd_of cfg \<le> length (splice K (pos * kvd_of cfg) k)" "(pos + 1) * kvd_of cfg \<le> length (splice V (pos * kvd_of cfg) v)"
    using K by simp_all
  have 1: "leads D (new_bytes w) (cap_of cfg) W [disp Pl_attn [(0, B_q, 0), (1, Key_cache l, 0), (2, Value_cache l, 0), (3, B_att, 0)]
      [(4, [of_nat (c_n_heads cfg), of_nat (hs_of cfg), of_nat (kvd_of cfg), of_nat (kvm_of cfg), of_nat pos])] (c_n_heads cfg)] (put B_att 0 xo W)"
    by (rule lead_attn [OF K(4) KV K(5) k g a]) (use rooms xo C assms(5) H(3) in simp_all)
  have x': "vec (put B_att 0 xo W) B_x 0 xs" using x by simp
  have 2: "leads D (new_bytes w) (cap_of cfg) (put B_att 0 xo W) (lin_acc r B_att 0 (mkw (W_wo l) (l_wo (q_layers w ! l)) (c_dim cfg) (c_dim cfg)) B_x 0)
      (put B_x 0 (map2 f32_add xs y) (put B_att 0 xo W))"
    by (rule lead_weight_acc [where t = "l_wo (q_layers w ! l)" and x = xo, OF y _ _ tg]) (use L xo C rooms x x' in simp_all)
  show "leads D (new_bytes w) (cap_of cfg) W (enc_attn (metal_at cfg w (hs_of cfg) (kvd_of cfg) (kvm_of cfg) r m0) pos (Key_cache l) (Value_cache l)
      (mkw (W_wo l) (l_wo (q_layers w ! l)) (c_dim cfg) (c_dim cfg))) (put B_x 0 (map2 f32_add xs y) (put B_att 0 xo W))"
    unfolding enc_attn_def append_Cons append_Nil metal_at_simps by (rule leads_Cons [OF 1]) (simp add: leads_append [OF 2])
  show "intact cfg w (put B_x 0 (map2 f32_add xs y) (put B_att 0 xo W))"
    by (intro intact_put I writable_simps) (use rooms xo ly x in simp_all)
  show "vec (put B_x 0 (map2 f32_add xs y) (put B_att 0 xo W)) B_x 0 (map2 f32_add xs y)" by (rule vec_put) (use rooms xo ly x in simp)
qed

text \<open>The feed-forward half of a layer.\<close>

lemma lead_ffn:
  fixes m0 :: GpuMem
  assumes M: "metal_ok base cfg w" and "l < c_n_layers cfg" and tg: "target_ok tg" and I: "intact cfg w W" and x: "vec W B_x 0 xs" "length xs = c_dim cfg"
    and n: "norm_list lm xs (l_rms_ffn_weight (q_layers w ! l)) (q_rms_eps w) = Ok xb"
    and g: "linear_dispatch tg base xb (l_w1 (q_layers w ! l)) (c_dim cfg) (c_hidden_dim cfg) r = Ok g"
    and u: "linear_dispatch tg base xb (l_w3 (q_layers w ! l)) (c_dim cfg) (c_hidden_dim cfg) r = Ok u"
    and i: "q_swiglu lm (c_hidden_dim cfg) g u = Ok inner"
    and y: "linear_dispatch tg base inner (l_w2 (q_layers w ! l)) (c_hidden_dim cfg) (c_dim cfg) r = Ok y"
  defines "mf \<equiv> metal_at cfg w (hs_of cfg) (kvd_of cfg) (kvm_of cfg) r m0"
    and "W' \<equiv> put B_x 0 (map2 f32_add xs y) (put B_inner 0 inner (put B_up 0 u (put B_gate 0 g (put B_xb 0 xb W))))"
  shows "leads D (new_bytes w) (cap_of cfg) W (enc_norm mf (L_rms_ffn l) @ enc_ffn mf (mkw (W_w1 l) (l_w1 (q_layers w ! l)) (c_hidden_dim cfg) (c_dim cfg))
      (mkw (W_w3 l) (l_w3 (q_layers w ! l)) (c_hidden_dim cfg) (c_dim cfg)) (mkw (W_w2 l) (l_w2 (q_layers w ! l)) (c_dim cfg) (c_hidden_dim cfg))) W'"
    and "intact cfg w W'" and "vec W' B_x 0 (map2 f32_add xs y)" and "length y = c_dim cfg"
proof -
  note F = metal_facts [OF M] and C = caps [OF M] and L = layer_facts [OF M assms(2)] and rooms = intact_room [OF M I]
  have xb: "length xb = c_dim cfg" using norm_list_length [OF n] L(4) x F(12) C(12) by simp
  have gu: "length g = c_hidden_dim cfg" "length u = c_hidden_dim cfg"
    using linear_dispatch_length(2) [OF g _ _ tg xb] linear_dispatch_length(2) [OF u _ _ tg xb] L(9,10) by auto
  have inner: "length inner = c_hidden_dim cfg" using q_swiglu_oks [OF gu, of lm] i by (simp add: oks_def)
  show ly: "length y = c_dim cfg" using linear_dispatch_length(2) [OF y _ _ tg inner] L(11) by auto
  let ?W1 = "put B_xb 0 xb W" let ?W2 = "put B_gate 0 g ?W1" let ?W3 = "put B_up 0 u ?W2" let ?W4 = "put B_inner 0 inner ?W3"
  show "intact cfg w W'" unfolding W'_def by (intro intact_put I writable_simps) (use rooms xb gu inner x ly in simp_all)
  show "vec W' B_x 0 (map2 f32_add xs y)" unfolding W'_def by (rule vec_put) (use rooms xb gu inner x ly in simp)
  have v: "vec ?W1 B_xb 0 xb" "vec ?W2 B_xb 0 xb" "vec ?W3 B_gate 0 g" "vec ?W3 B_up 0 u" "vec ?W4 B_inner 0 inner" "vec ?W4 B_x 0 xs"
    using rooms xb gu inner x by simp_all
  have 0: "leads D (new_bytes w) (cap_of cfg) W (enc_norm mf (L_rms_ffn l)) ?W1"
    by (rule lead_norm [OF x(1) intact_consts(3) [OF I]]) (use n x(2) L(4) F(4) xb rooms in \<open>simp_all add: mf_def\<close>)
  have 1: "leads D (new_bytes w) (cap_of cfg) ?W1 (lin r B_xb 0 (mkw (W_w1 l) (l_w1 (q_layers w ! l)) (c_hidden_dim cfg) (c_dim cfg)) B_gate 0) ?W2"
    by (rule lead_plain [OF g _ _ tg v(1) xb]) (use L C rooms xb in simp_all)
  have 2: "leads D (new_bytes w) (cap_of cfg) ?W2 (lin r B_xb 0 (mkw (W_w3 l) (l_w3 (q_layers w ! l)) (c_hidden_dim cfg) (c_dim cfg)) B_up 0) ?W3"
    by (rule lead_plain [OF u _ _ tg v(2) xb]) (use L C rooms xb gu in simp_all)
  have 3: "leads D (new_bytes w) (cap_of cfg) ?W3 [disp Pl_silu_mul [(0, B_gate, 0), (1, B_up, 0), (2, B_inner, 0)] [(3, [of_nat (c_hidden_dim cfg)])] (c_hidden_dim cfg)] ?W4"
    by (rule lead_silu [OF v(3,4) gu i]) (use rooms xb gu inner C in simp_all)
  have 4: "leads D (new_bytes w) (cap_of cfg) ?W4 (lin_acc r B_inner 0 (mkw (W_w2 l) (l_w2 (q_layers w ! l)) (c_dim cfg) (c_hidden_dim cfg)) B_x 0) W'"
    unfolding W'_def by (rule lead_weight_acc [where t = "l_w2 (q_layers w ! l)" and x = inner, OF y _ _ tg v(5) inner])
      (use L C rooms x F(5) v(6) in simp_all)
  show "leads D (new_bytes w) (cap_of cfg) W (enc_norm mf (L_rms_ffn l) @ enc_ffn mf (mkw (W_w1 l) (l_w1 (q_layers w ! l)) (c_hidden_dim cfg) (c_dim cfg))
      (mkw (W_w3 l) (l_w3 (q_layers w ! l)) (c_hidden_dim cfg) (c_dim cfg)) (mkw (W_w2 l) (l_w2 (q_layers w ! l)) (c_dim cfg) (c_hidden_dim cfg))) W'"
    unfolding enc_ffn_def mf_def metal_at_simps append_Cons append_Nil
    by (rule leads_append [OF 0 [unfolded mf_def]], rule leads_append [OF 1], rule leads_append [OF 2], unfold leads_barrier, rule leads_Cons [OF 3])
      (simp add: leads_append [OF 4])
qed

text \<open>The final norm and the classifier.\<close>

lemma lead_head:
  fixes m0 :: GpuMem
  assumes M: "metal_ok base cfg w" and tg: "target_ok tg" and I: "intact cfg w W" and x: "vec W B_x 0 xs" "length xs = c_dim cfg"
    and n: "norm_list lm xs (q_rms_final_weight w) (q_rms_eps w) = Ok xb"
    and y: "linear_dispatch tg base xb (classifier w) (c_dim cfg) (c_vocab_size cfg) r = Ok y"
  defines "mf \<equiv> metal_at cfg w (hs_of cfg) (kvd_of cfg) (kvm_of cfg) r m0" and "W' \<equiv> put B_logits 0 y (put B_xb 0 xb W)"
  shows "leads D (new_bytes w) (cap_of cfg) W (enc_norm mf B_rms_final @ lin r B_xb 0 (mkw W_wcls (classifier w) (c_vocab_size cfg) (c_dim cfg)) B_logits 0) W'"
    and "intact cfg w W'" and "vec W' B_logits 0 y" and "length y = c_vocab_size cfg"
proof -
  note F = metal_facts [OF M] and C = caps [OF M] and rooms = intact_room [OF M I]
  have L: "linear_ok base (classifier w) (c_dim cfg) (c_vocab_size cfg)" "kind_of (qt_dtype (classifier w)) \<noteq> None" "length (q_rms_final_weight w) = c_dim cfg"
    using M by (auto simp: metal_ok_def q_model_ok_def classifier_def split: option.splits)
  have xb: "length xb = c_dim cfg" using norm_list_length [OF n] L(3) x F(12) C(12) by simp
  show ly: "length y = c_vocab_size cfg" using linear_dispatch_length(2) [OF y _ _ tg xb] L by auto
  show "intact cfg w W'" unfolding W'_def by (intro intact_put I writable_simps) (use rooms xb ly in simp_all)
  show "vec W' B_logits 0 y" unfolding W'_def by (rule vec_put) (use rooms xb ly in simp)
  have v: "vec (put B_xb 0 xb W) B_xb 0 xb" using rooms xb by simp
  have 0: "leads D (new_bytes w) (cap_of cfg) W (enc_norm mf B_rms_final) (put B_xb 0 xb W)"
    by (rule lead_norm [OF x(1) intact_consts(1) [OF I]]) (use n x(2) L(3) F(4) xb rooms in \<open>simp_all add: mf_def\<close>)
  have "leads D (new_bytes w) (cap_of cfg) (put B_xb 0 xb W) (lin r B_xb 0 (mkw W_wcls (classifier w) (c_vocab_size cfg) (c_dim cfg)) B_logits 0) W'"
    unfolding W'_def by (rule lead_plain [OF y _ _ tg v xb]) (use L C F(6) rooms xb in \<open>simp_all add: classifier_def\<close>)
  then show "leads D (new_bytes w) (cap_of cfg) W (enc_norm mf B_rms_final @ lin r B_xb 0 (mkw W_wcls (classifier w) (c_vocab_size cfg) (c_dim cfg)) B_logits 0) W'"
    by (rule leads_append [OF 0])
qed

end

end
