(* ===== verification/MetalOk.thy ===== *)
theory MetalOk
  imports MetalParts
begin

text \<open>
  The Metal backend computes what the processor computes: on a device that keeps the promises of its
  kernels, the command list of a decode step leaves in the buffers what the step of
  \<open>src/src/model/forward_quantized.rs\<close> computes, so that a run ends with the same tokens and certificate.
\<close>

subsection \<open>Layers\<close>

text \<open>The buffers mirror the state of the processor between two layers.\<close>

definition mirrors_caches :: "Config \<Rightarrow> RunState \<Rightarrow> (MBuf \<Rightarrow> f32 list) \<Rightarrow> bool" where
  "mirrors_caches cfg st W \<longleftrightarrow> state_ok cfg st \<and>
     (\<forall>l<c_n_layers cfg. W (Key_cache l) = layer_of cfg l (rs_key_cache st) \<and> W (Value_cache l) = layer_of cfg l (rs_value_cache st))"

definition mirrors :: "libm \<Rightarrow> Config \<Rightarrow> QuantizedWeights \<Rightarrow> nat \<Rightarrow> f32 list \<Rightarrow> RunState \<Rightarrow> (MBuf \<Rightarrow> f32 list) \<Rightarrow> bool" where
  "mirrors lm cfg w pos xs st W \<longleftrightarrow> intact cfg w W \<and> mirrors_caches cfg st W \<and> vec W B_x 0 xs \<and>
     vec W B_cos 0 (fst (rope_cache lm (q_rope_theta w) (hs_of cfg) pos)) \<and> vec W B_sin 0 (snd (rope_cache lm (q_rope_theta w) (hs_of cfg) pos))"

lemma rope_cache_lengths: "length (fst (rope_cache lm theta hs pos)) = hs div 2" "length (snd (rope_cache lm theta hs pos)) = hs div 2"
  by (simp_all add: rope_cache_angles)

text \<open>A layer of the model on the processor, at a position.\<close>

definition metal_env :: "libm \<Rightarrow> (bytes \<Rightarrow> bytes) \<Rightarrow> Target \<Rightarrow> nat \<Rightarrow> Config \<Rightarrow> QuantizedWeights \<Rightarrow> u8 \<Rightarrow> nat \<Rightarrow> q_env" where
  "metal_env lm H tg base cfg w r pos = \<lparr>qe_lm = lm, qe_hash = H, qe_target = tg, qe_base = base, qe_cfg = cfg, qe_weights = w, qe_plan = None, qe_pos = pos,
     qe_kvd = kvd_of cfg, qe_kvm = kvm_of cfg, qe_hs = hs_of cfg, qe_regime = r\<rparr>"

lemma metal_env_simps [simp]: "qe_lm (metal_env lm H tg base cfg w r pos) = lm" "qe_target (metal_env lm H tg base cfg w r pos) = tg"
  "qe_base (metal_env lm H tg base cfg w r pos) = base" "qe_cfg (metal_env lm H tg base cfg w r pos) = cfg" "qe_weights (metal_env lm H tg base cfg w r pos) = w"
  "qe_plan (metal_env lm H tg base cfg w r pos) = None" "qe_pos (metal_env lm H tg base cfg w r pos) = pos" "qe_kvd (metal_env lm H tg base cfg w r pos) = kvd_of cfg"
  "qe_kvm (metal_env lm H tg base cfg w r pos) = kvm_of cfg" "qe_hs (metal_env lm H tg base cfg w r pos) = hs_of cfg" "qe_regime (metal_env lm H tg base cfg w r pos) = r"
  by (simp_all add: metal_env_def)

lemma metal_env_ok: "metal_ok base cfg w \<Longrightarrow> target_ok tg \<Longrightarrow> pos < c_seq_len cfg \<Longrightarrow> env_ok (metal_env lm H tg base cfg w r pos)"
  using metal_facts(1) by (simp add: env_ok_def)

context metal_device
begin

text \<open>A layer: what the processor computes is what its commands leave.\<close>

lemma lead_layer_attention:
  fixes m0 :: GpuMem
  assumes M: "metal_ok base cfg w" and l: "l < c_n_layers cfg" and tg: "target_ok tg" and pos: "pos < c_seq_len cfg" "pos < 512"
    and x: "vec_tensor xs (c_dim cfg) x" and m: "mirrors lm cfg w pos xs st W"
    and a: "q_attention (metal_env lm H tg base cfg w r pos) l (q_layers w ! l) (x, st, no_observers) = Ok (x', st', ob)"
  defines "mf \<equiv> metal_at cfg w (hs_of cfg) (kvd_of cfg) (kvm_of cfg) r m0" and "koff \<equiv> pos * kvd_of cfg * 4"
  obtains bias rot xs' W' where "bias_cmds cfg (q_layers w ! l) (hs_of cfg) (kvd_of cfg) koff l = Ok bias" and "enc_rope mf koff (Key_cache l) = Ok rot"
    and "leads D (new_bytes w) (cap_of cfg) W ((enc_norm mf (L_rms_att l) @
        enc_qkv mf koff (Key_cache l) (Value_cache l) (mkw (W_wq l) (l_wq (q_layers w ! l)) (c_dim cfg) (c_dim cfg))
          (mkw (W_wk l) (l_wk (q_layers w ! l)) (kvd_of cfg) (c_dim cfg)) (mkw (W_wv l) (l_wv (q_layers w ! l)) (kvd_of cfg) (c_dim cfg))) @ bias @ rot @
        enc_attn mf pos (Key_cache l) (Value_cache l) (mkw (W_wo l) (l_wo (q_layers w ! l)) (c_dim cfg) (c_dim cfg))) W'"
    and "mirrors lm cfg w pos xs' st' W'" and "vec_tensor xs' (c_dim cfg) x'" and "ob = no_observers"
proof -
  let ?e = "metal_env lm H tg base cfg w r pos" and ?lay = "q_layers w ! l"
  let ?c = "fst (rope_cache lm (q_rope_theta w) (hs_of cfg) pos)" and ?s = "snd (rope_cache lm (q_rope_theta w) (hs_of cfg) pos)"
  note F = metal_facts [OF M] and C = caps [OF M] and E = metal_env_ok [OF M tg pos(1), of lm H r]
  have I: "intact cfg w W" "state_ok cfg st" "vec W B_x 0 xs" "vec W B_cos 0 ?c" "vec W B_sin 0 ?s"
    and K: "\<And>l. l < c_n_layers cfg \<Longrightarrow> W (Key_cache l) = layer_of cfg l (rs_key_cache st) \<and> W (Value_cache l) = layer_of cfg l (rs_value_cache st)"
    using m by (simp_all add: mirrors_def mirrors_caches_def)
  have xs: "length xs = c_dim cfg" using x C(12) by (simp add: vec_tensor_iff)
  obtain xb q_out q k v q' xo y where parts: "norm_list lm xs (l_rms_att_weight ?lay) (q_rms_eps w) = Ok xb" "attn_q_out_dim cfg = Ok q_out"
    "linear_dispatch tg base xb (l_wq ?lay) (c_dim cfg) q_out r = Ok q" "linear_dispatch tg base xb (l_wk ?lay) (c_dim cfg) (kvd_of cfg) r = Ok k"
    "linear_dispatch tg base xb (l_wv ?lay) (c_dim cfg) (kvd_of cfg) r = Ok v"
    "q_store_rope ?e l (add_bias q (l_bq ?lay)) (add_bias k (l_bk ?lay)) (add_bias v (l_bv ?lay)) st = Ok (q', st')"
    "oloop (q_attn_head lm cfg (kvd_of cfg) (kvm_of cfg) (hs_of cfg) l pos q' (rs_key_cache st') (rs_value_cache st')) [0..<c_n_heads cfg] (replicate (c_dim cfg) 0) = Ok xo"
    "linear_dispatch tg base xo (l_wo ?lay) (c_dim cfg) (c_dim cfg) r = Ok y"
    "vec_tensor (map2 f32_add xs y) (c_dim cfg) x'" "ob = no_observers"
    by (rule q_attention_parts [OF a, unfolded qe_linear_def metal_env_simps, OF refl x C(12)]) (rule that; assumption)
  have "q_out = c_dim cfg" using parts(2) F(13) step_dims(3) [OF F(2,3)] by (auto simp: attn_q_out_dim_def outcome_simps)
  note q = parts(3) [unfolded this]
  note ops = M l pos(1) tg I(1) I(3) xs parts(1) q parts(4,5)
  note A = lead_qkv(1) [where ?m0.0 = m0, OF ops, folded koff_def mf_def] lead_qkv(2-) [OF ops, folded koff_def]
  let ?W1 = "put (Value_cache l) koff v (put (Key_cache l) koff k (put B_q 0 q (put B_xb 0 xb W)))"
  have room: "room W (Key_cache l) koff (kvd_of cfg)" "room W (Value_cache l) koff (kvd_of cfg)" "length (W (Key_cache l)) = c_seq_len cfg * kvd_of cfg"
    "length (W (Value_cache l)) = c_seq_len cfg * kvd_of cfg"
    using intact_room(11,12) [OF M I(1)] koff_eq(2) [OF M pos(1)] by (simp_all add: room_def koff_def)
  have P1: "projected cfg w l pos (W (Key_cache l)) (W (Value_cache l)) q k v ?W1"
    using A(2-5) intact_room(2,3) [OF M I(1)] norm_list_length [OF parts(1)] xs layer_facts(3) [OF M l] F(12) C(12) room pos(1)
    by (simp add: projected_def koff_def)
  obtain bias where b: "bias_cmds cfg ?lay (hs_of cfg) (kvd_of cfg) koff l = Ok bias"
    using layer_facts(2) [OF M l] by (auto simp: bias_cmds_def bias_ok_def Let_def split: option.splits)
  let ?q = "add_bias q (l_bq ?lay)" and ?k = "add_bias k (l_bk ?lay)" and ?v = "add_bias v (l_bv ?lay)"
  obtain W2 where B: "leads D (new_bytes w) (cap_of cfg) ?W1 bias W2" "same_but {B_q, Key_cache l, Value_cache l} ?W1 W2"
    "projected cfg w l pos (W (Key_cache l)) (W (Value_cache l)) ?q ?k ?v W2"
    using lead_bias [OF M l P1 b [unfolded koff_def]] by blast
  have len: "length ?q = c_dim cfg" "length ?k = kvd_of cfg" "length ?v = kvd_of cfg" using A(2-4) by simp_all
  obtain k' where rope: "rope_kernel (q_rope_neox w) (c_n_heads cfg) (hs_of cfg) ?c ?s ?q = Ok q'"
    "rope_kernel (q_rope_neox w) (c_n_kv_heads cfg) (hs_of cfg) ?c ?s ?k = Ok k'"
    "st' = st\<lparr>rs_key_cache := splice (rs_key_cache st) ((l * c_seq_len cfg + pos) * kvd_of cfg) k',
      rs_value_cache := splice (rs_value_cache st) ((l * c_seq_len cfg + pos) * kvd_of cfg) ?v\<rparr>"
    using store_rope_parts [OF E, of l st ?q ?k ?v q' st'] parts(6) l I(2) len by auto
  have "odiv (kvd_of cfg) (hs_of cfg) \<noteq> Panic" "\<And>err. odiv (kvd_of cfg) (hs_of cfg) \<noteq> Err err" using heads_facts(2) [OF F(2)] by (simp_all add: odiv_def)
  then obtain rot where rot: "enc_rope mf koff (Key_cache l) = Ok rot" by (cases "odiv (kvd_of cfg) (hs_of cfg)") (auto simp: enc_rope_def mf_def Let_def)
  have cs: "vec W2 B_cos 0 ?c" "vec W2 B_sin 0 ?s" "vec W2 B_x 0 xs" using same_but_vec [OF B(2)] I by simp_all
  obtain W3 where R: "leads D (new_bytes w) (cap_of cfg) W2 rot W3" "same_but {B_q, Key_cache l, Value_cache l} W2 W3"
    "projected cfg w l pos (W (Key_cache l)) (W (Value_cache l)) q' k' ?v W3"
    using lead_rot [OF M B(3) cs(1,2) rope_cache_lengths rope(1,2) rot [unfolded mf_def koff_def]] by blast
  have k': "length k' = kvd_of cfg" using rope_kernel_length [OF rope(2)] len by simp
  have sz: "length (rs_key_cache st) = cache_size cfg" "length (rs_value_cache st) = cache_size cfg" using I(2) by (simp_all add: state_ok_def)
  have b': "(l * c_seq_len cfg + pos) * kvd_of cfg + kvd_of cfg \<le> cache_size cfg" by (rule cache_row_bound [OF l pos(1)])
  have st': "state_ok cfg st'" using rope(3) sz b' k' len by (simp add: state_ok_def)
  have layer: "layer_of cfg l' (rs_key_cache st') = (if l' = l then splice (layer_of cfg l (rs_key_cache st)) (pos * kvd_of cfg) k' else layer_of cfg l' (rs_key_cache st))"
    "layer_of cfg l' (rs_value_cache st') = (if l' = l then splice (layer_of cfg l (rs_value_cache st)) (pos * kvd_of cfg) ?v else layer_of cfg l' (rs_value_cache st))"
    if "l' < c_n_layers cfg" for l'
    by (simp_all add: rope(3) layer_of_splice [OF l that pos(1)] k' len(3) sz del: length_add_bias)
  have att: "omap concat (omapM (attend lm (hs_of cfg) (kvd_of cfg) (kvm_of cfg) pos q' (splice (W (Key_cache l)) (pos * kvd_of cfg) k')
      (splice (W (Value_cache l)) (pos * kvd_of cfg) ?v)) [0..<c_n_heads cfg]) = Ok xo"
    using parts(7) attention_heads [OF F(2,3) l pos(1), of q' "rs_key_cache st'" "rs_value_cache st'" lm] st' rope_kernel_length [OF rope(1)] len
      layer [OF l] K [OF l] by (simp add: state_ok_def)
  have x3: "vec W3 B_x 0 xs" using same_but_vec [OF R(2)] cs(3) by simp
  note ops' = M l tg R(3) pos(2) x3 xs att parts(8)
  note T = lead_attention(1) [where ?m0.0 = m0, OF ops', folded mf_def] lead_attention(2-) [OF ops']
  let ?W4 = "put B_x 0 (map2 f32_add xs y) (put B_att 0 xo W3)"
  have caches: "?W4 (Key_cache l') = layer_of cfg l' (rs_key_cache st') \<and> ?W4 (Value_cache l') = layer_of cfg l' (rs_value_cache st')"
    if "l' < c_n_layers cfg" for l'
  proof (cases "l' = l")
    case True
    then show ?thesis using R(3) K [OF l] layer [OF l] by (simp add: projected_def)
  next
    case False
    then have "W3 (Key_cache l') = ?W1 (Key_cache l')" "W3 (Value_cache l') = ?W1 (Value_cache l')" using B(2) R(2) by (simp_all add: same_but_def)
    then show ?thesis using False K [OF that] layer [OF that] by simp
  qed
  have "mirrors lm cfg w pos (map2 f32_add xs y) st' ?W4"
    using T(2,3) caches st' same_but_vec [OF R(2)] cs by (simp add: mirrors_def mirrors_caches_def)
  moreover have "leads D (new_bytes w) (cap_of cfg) W ((enc_norm mf (L_rms_att l) @
        enc_qkv mf koff (Key_cache l) (Value_cache l) (mkw (W_wq l) (l_wq (q_layers w ! l)) (c_dim cfg) (c_dim cfg))
          (mkw (W_wk l) (l_wk (q_layers w ! l)) (kvd_of cfg) (c_dim cfg)) (mkw (W_wv l) (l_wv (q_layers w ! l)) (kvd_of cfg) (c_dim cfg))) @ bias @ rot @
        enc_attn mf pos (Key_cache l) (Value_cache l) (mkw (W_wo l) (l_wo (q_layers w ! l)) (c_dim cfg) (c_dim cfg))) ?W4"
    by (rule leads_append [OF A(1) leads_append [OF B(1) leads_append [OF R(1) T(1)]]])
  ultimately show thesis using that b rot parts(9,10) by blast
qed

lemma lead_layer:
  fixes m0 :: GpuMem
  assumes M: "metal_ok base cfg w" and l: "l < c_n_layers cfg" and tg: "target_ok tg" and pos: "pos < c_seq_len cfg" "pos < 512"
    and x: "vec_tensor xs (c_dim cfg) x" and m: "mirrors lm cfg w pos xs st W"
    and q: "q_layer (metal_env lm H tg base cfg w r pos) (x, st, no_observers) l = Ok (x', st', ob)"
  shows "\<exists>cmds xs' W'. enc_layer (metal_at cfg w (hs_of cfg) (kvd_of cfg) (kvm_of cfg) r m0) pos (pos * kvd_of cfg * 4) l = Ok cmds \<and>
    leads D (new_bytes w) (cap_of cfg) W cmds W' \<and> mirrors lm cfg w pos xs' st' W' \<and> vec_tensor xs' (c_dim cfg) x' \<and> ob = no_observers"
proof -
  let ?e = "metal_env lm H tg base cfg w r pos" and ?lay = "q_layers w ! l" and ?mf = "metal_at cfg w (hs_of cfg) (kvd_of cfg) (kvm_of cfg) r m0"
  note F = metal_facts [OF M] and C = caps [OF M]
  obtain x1 st1 ob1 where a: "q_attention ?e l ?lay (x, st, no_observers) = Ok (x1, st1, ob1)" and f: "q_ffn ?e l ?lay (x1, st1, ob1) = Ok (x', st', ob)"
    using q l F(15) by (auto simp: q_layer_def outcome_simps oget_ok)
  obtain bias rot xs1 W1 where A: "bias_cmds cfg ?lay (hs_of cfg) (kvd_of cfg) (pos * kvd_of cfg * 4) l = Ok bias" "enc_rope ?mf (pos * kvd_of cfg * 4) (Key_cache l) = Ok rot"
    "leads D (new_bytes w) (cap_of cfg) W ((enc_norm ?mf (L_rms_att l) @
        enc_qkv ?mf (pos * kvd_of cfg * 4) (Key_cache l) (Value_cache l) (mkw (W_wq l) (l_wq ?lay) (c_dim cfg) (c_dim cfg))
          (mkw (W_wk l) (l_wk ?lay) (kvd_of cfg) (c_dim cfg)) (mkw (W_wv l) (l_wv ?lay) (kvd_of cfg) (c_dim cfg))) @ bias @ rot @
        enc_attn ?mf pos (Key_cache l) (Value_cache l) (mkw (W_wo l) (l_wo ?lay) (c_dim cfg) (c_dim cfg))) W1"
    "mirrors lm cfg w pos xs1 st1 W1" "vec_tensor xs1 (c_dim cfg) x1" "ob1 = no_observers"
    by (rule lead_layer_attention [OF M l tg pos x m a])
  obtain xb g u inner y where parts: "norm_list lm xs1 (l_rms_ffn_weight ?lay) (q_rms_eps w) = Ok xb"
    "linear_dispatch tg base xb (l_w1 ?lay) (c_dim cfg) (c_hidden_dim cfg) r = Ok g" "linear_dispatch tg base xb (l_w3 ?lay) (c_dim cfg) (c_hidden_dim cfg) r = Ok u"
    "q_swiglu lm (c_hidden_dim cfg) g u = Ok inner" "linear_dispatch tg base inner (l_w2 ?lay) (c_hidden_dim cfg) (c_dim cfg) r = Ok y"
    "vec_tensor (map2 f32_add xs1 y) (c_dim cfg) x'" "st' = st1" "ob = no_observers"
    by (rule q_ffn_parts [OF f [unfolded A(6)], unfolded qe_linear_def metal_env_simps, OF refl A(5) C(12)]) (rule that; assumption)
  have m1: "intact cfg w W1" "vec W1 B_x 0 xs1" "length xs1 = c_dim cfg" using A(4,5) C(12) by (simp_all add: mirrors_def vec_tensor_iff)
  note ops = M l tg m1 parts(1-5)
  let ?W2 = "put B_x 0 (map2 f32_add xs1 y) (put B_inner 0 inner (put B_up 0 u (put B_gate 0 g (put B_xb 0 xb W1))))"
  have "mirrors lm cfg w pos (map2 f32_add xs1 y) st' ?W2"
    using A(4) lead_ffn(2,3) [OF ops] parts(7) by (simp add: mirrors_def mirrors_caches_def)
  moreover have "enc_layer ?mf pos (pos * kvd_of cfg * 4) l = Ok (layer_cmds ?mf pos (pos * kvd_of cfg * 4) l ?lay bias rot)"
    using enc_layer_eq [OF l, of w "hs_of cfg" "kvd_of cfg" "kvm_of cfg" r m0 pos "pos * kvd_of cfg * 4"] l F(15) A(1,2) by simp
  moreover have "leads D (new_bytes w) (cap_of cfg) W (layer_cmds ?mf pos (pos * kvd_of cfg * 4) l ?lay bias rot) ?W2"
    using leads_append [OF A(3) lead_ffn(1) [OF ops, of m0]] by (simp add: layer_cmds_def Let_def F(13))
  ultimately show ?thesis using parts(6,8) by blast
qed

lemma lead_layers:
  fixes m0 :: GpuMem
  assumes M: "metal_ok base cfg w" and tg: "target_ok tg" and pos: "pos < c_seq_len cfg" "pos < 512"
    and x: "vec_tensor xs (c_dim cfg) x" and m: "mirrors lm cfg w pos xs st W" and n: "n \<le> c_n_layers cfg"
    and q: "oloop (q_layer (metal_env lm H tg base cfg w r pos)) [0..<n] (x, st, no_observers) = Ok (x', st', ob)"
  shows "\<exists>cmds xs' W'. omapM (enc_layer (metal_at cfg w (hs_of cfg) (kvd_of cfg) (kvm_of cfg) r m0) pos (pos * kvd_of cfg * 4)) [0..<n] = Ok cmds \<and>
    leads D (new_bytes w) (cap_of cfg) W (concat cmds) W' \<and> mirrors lm cfg w pos xs' st' W' \<and> vec_tensor xs' (c_dim cfg) x' \<and> ob = no_observers"
  using n q
proof (induction n arbitrary: x' st' ob)
  case 0
  then show ?case using x m by (auto intro: leads_Nil)
next
  case (Suc n)
  let ?e = "metal_env lm H tg base cfg w r pos"
  obtain x1 st1 ob1 where 1: "oloop (q_layer ?e) [0..<n] (x, st, no_observers) = Ok (x1, st1, ob1)" "q_layer ?e (x1, st1, ob1) n = Ok (x', st', ob)"
    using Suc.prems by (auto simp: oloop_append outcome_simps oloop_Nil_fun)
  from Suc.IH [OF _ 1(1)] Suc.prems(1) obtain cmds xs1 W1 where
    IH: "omapM (enc_layer (metal_at cfg w (hs_of cfg) (kvd_of cfg) (kvm_of cfg) r m0) pos (pos * kvd_of cfg * 4)) [0..<n] = Ok cmds"
      "leads D (new_bytes w) (cap_of cfg) W (concat cmds) W1" "mirrors lm cfg w pos xs1 st1 W1" "vec_tensor xs1 (c_dim cfg) x1" "ob1 = no_observers" by auto
  from lead_layer [OF M _ tg pos IH(4,3) 1(2) [unfolded IH(5)], of m0] Suc.prems(1) obtain c xs2 W2 where
    2: "enc_layer (metal_at cfg w (hs_of cfg) (kvd_of cfg) (kvm_of cfg) r m0) pos (pos * kvd_of cfg * 4) n = Ok c" "leads D (new_bytes w) (cap_of cfg) W1 c W2"
      "mirrors lm cfg w pos xs2 st' W2" "vec_tensor xs2 (c_dim cfg) x'" "ob = no_observers" by auto
  then show ?case using IH leads_append [OF IH(2) 2(2)] by (auto simp: omapM_snoc)
qed

text \<open>A step.\<close>

lemma lead_step:
  fixes m0 :: GpuMem
  assumes M: "metal_ok base cfg w" and tg: "target_ok tg" and pos: "pos < c_seq_len cfg" "pos < 512"
    and m: "mirrors lm cfg w pos emb st W" and q: "row_step lm H tg base cfg w st emb pos = Ok (t, st')"
  shows "\<exists>cmds W' y. enc_step (metal_at cfg w (hs_of cfg) (kvd_of cfg) (kvm_of cfg) (rs_regime st) m0) pos = Ok cmds \<and>
    leads D (new_bytes w) (cap_of cfg) W cmds W' \<and> intact cfg w W' \<and> mirrors_caches cfg st' W' \<and> vec W' B_logits 0 y \<and> vec_tensor y (c_vocab_size cfg) t"
proof -
  let ?e = "metal_env lm H tg base cfg w (rs_regime st) pos" and ?mf = "metal_at cfg w (hs_of cfg) (kvd_of cfg) (kvm_of cfg) (rs_regime st) m0"
  note F = metal_facts [OF M] and C = caps [OF M]
  obtain x x1 st1 ob where s: "vec_tensor emb (c_dim cfg) x" "oloop (q_layer ?e) [0..<c_n_layers cfg] (x, st, no_observers) = Ok (x1, st1, ob)"
    "\<exists>ob'. q_lm_head ?e x1 ob = Ok (t, ob')" "st1 = st'"
    using q by (auto simp: row_step_def step_dims [OF F(2,3)] outcome_simps vec_tensor_def metal_env_def Let_def split: prod.splits)
  obtain cmds xs1 W1 where L: "omapM (enc_layer ?mf pos (pos * kvd_of cfg * 4)) [0..<c_n_layers cfg] = Ok cmds" "leads D (new_bytes w) (cap_of cfg) W (concat cmds) W1"
    "mirrors lm cfg w pos xs1 st1 W1" "vec_tensor xs1 (c_dim cfg) x1" "ob = no_observers"
    using lead_layers [OF M tg pos s(1) m order_refl s(2), of m0] by blast
  obtain ob' where h: "q_lm_head ?e x1 no_observers = Ok (t, ob')" using s(3) L(5) by blast
  obtain xb y where parts: "norm_list lm xs1 (q_rms_final_weight w) (q_rms_eps w) = Ok xb"
    "linear_dispatch tg base xb (classifier w) (c_dim cfg) (c_vocab_size cfg) (rs_regime st) = Ok y" "vec_tensor y (c_vocab_size cfg) t"
    by (rule q_lm_head_parts [OF h, unfolded qe_linear_def metal_env_simps, OF refl L(4) C(12), folded classifier_def]) (rule that; assumption)
  have m1: "intact cfg w W1" "vec W1 B_x 0 xs1" "length xs1 = c_dim cfg" using L(3,4) C(12) by (simp_all add: mirrors_def vec_tensor_iff)
  note ops = M tg m1 parts(1,2)
  let ?W2 = "put B_logits 0 y (put B_xb 0 xb W1)"
  have "enc_step ?mf pos = Ok (concat cmds @ enc_norm ?mf B_rms_final @ lin (rs_regime st) B_xb 0 (mkw W_wcls (classifier w) (c_vocab_size cfg) (c_dim cfg)) B_logits 0)"
    using L(1) koff_eq(1) [OF M pos(1)] by (simp add: enc_step_def classifier_def Let_def)
  moreover have "leads D (new_bytes w) (cap_of cfg) W (concat cmds @ enc_norm ?mf B_rms_final @
      lin (rs_regime st) B_xb 0 (mkw W_wcls (classifier w) (c_vocab_size cfg) (c_dim cfg)) B_logits 0) ?W2"
    by (rule leads_append [OF L(2) lead_head(1) [OF ops]])
  moreover have "mirrors_caches cfg st' ?W2" using L(3) s(4) by (simp add: mirrors_def mirrors_caches_def)
  ultimately show ?thesis using lead_head(2,3) [OF ops] parts(3) by blast
qed

end

subsection \<open>The backend follows the processor\<close>

text \<open>
  Between two steps the handle is a loaded model in the regime of the processor's state, whose memory
  mirrors the caches.
\<close>

definition metal_related :: "Config \<Rightarrow> QuantizedWeights \<Rightarrow> RunState \<Rightarrow> MetalForward \<Rightarrow> bool" where
  "metal_related cfg w rs mf \<longleftrightarrow> (\<exists>m W. mf = metal_at cfg w (hs_of cfg) (kvd_of cfg) (kvm_of cfg) (rs_regime rs) m \<and>
     holds (new_bytes w) (cap_of cfg) W m \<and> intact cfg w W \<and> mirrors_caches cfg rs W)"

lemma holds_write: "holds bs cap W m \<Longrightarrow> b \<notin> q8_bufs \<Longrightarrow> holds bs cap (put b 0 xs W) (write_buf b xs m)"
  using holds_put [of bs cap W m "(b, 0)" xs]
  by (auto simp: put_def write_buf_def put_words_def holds_def splice_def)

lemma metal_step_follows:
  assumes K: "metal_contract D lm" and M: "metal_ok base cfg w" and tg: "target_ok tg" and r: "metal_related cfg w rs mf"
    and tok: "unat token < c_vocab_size cfg" and pos: "pos < c_seq_len cfg" "pos < 512"
    and q: "q_step lm H tg base cfg w rs token pos = Ok (t, rs')"
  shows "\<exists>mf'. metal_forward D lm (c_vocab_size cfg) token pos mf = Ok (t, mf') \<and> metal_related cfg w rs' mf'"
proof -
  note dev = contract_device [OF K]
  note F = metal_facts [OF M] and C = caps [OF M]
  obtain m W where mf: "mf = metal_at cfg w (hs_of cfg) (kvd_of cfg) (kvm_of cfg) (rs_regime rs) m" and h: "holds (new_bytes w) (cap_of cfg) W m"
    and I: "intact cfg w W" and mc: "mirrors_caches cfg rs W" using r by (auto simp: metal_related_def)
  have L: "linear_ok base (q_token_embedding_table w) (c_dim cfg) (c_vocab_size cfg)" using F(1) by (simp add: q_model_ok_def)
  obtain emb where emb: "embedding_row base (q_token_embedding_table w) (unat token) (c_dim cfg) = Ok emb" "row_step lm H tg base cfg w rs emb pos = Ok (t, rs')"
    using q q_step_row [OF F(2,3)] by (auto simp: outcome_simps)
  have le: "length emb = c_dim cfg" using embedding_row_oks [OF L tok C(12)] emb(1) by (simp add: oks_def)
  have e: "metal_embed_row mf (unat token) = Ok emb" using host_row_eq [OF L tok C(12)] emb(1) by (simp add: metal_embed_row_def mf)
  let ?c = "fst (rope_cache lm (q_rope_theta w) (hs_of cfg) pos)" and ?s = "snd (rope_cache lm (q_rope_theta w) (hs_of cfg) pos)"
  let ?W = "put B_x 0 emb (put B_sin 0 ?s (put B_cos 0 ?c W))"
  let ?m = "write_buf B_x emb (write_buf B_sin ?s (write_buf B_cos ?c m))"
  note rooms = intact_room [OF M I]
  have h': "holds (new_bytes w) (cap_of cfg) ?W ?m" by (intro holds_write h) simp_all
  have "mirrors lm cfg w pos emb rs ?W" unfolding mirrors_def
    by (intro conjI intact_put I writable_simps) (use rooms le mc in \<open>simp_all add: rope_cache_lengths mirrors_caches_def\<close>)
  from metal_device.lead_step [OF dev M tg pos this emb(2), of m]
  obtain cmds W' y where s: "enc_step (metal_at cfg w (hs_of cfg) (kvd_of cfg) (kvm_of cfg) (rs_regime rs) m) pos = Ok cmds"
    "leads D (new_bytes w) (cap_of cfg) ?W cmds W'" "intact cfg w W'" "mirrors_caches cfg rs' W'" "vec W' B_logits 0 y" "vec_tensor y (c_vocab_size cfg) t" by blast
  let ?m' = "exec_cmds D cmds ?m"
  have m': "holds (new_bytes w) (cap_of cfg) W' ?m'" using s(2) h' by (simp add: leads_def)
  have "c_vocab_size cfg \<le> usize_max" using F(6) by (simp add: usize_max_def)
  then have y: "take (c_vocab_size cfg) (gm_words ?m' B_logits) = y" "slice_to_tensor y [c_vocab_size cfg] = Ok t"
    using m' s(5,6) by (auto simp: holds_def vec_def vec_tensor_def vec_tensor_iff [unfolded vec_tensor_def])
  have "metal_forward D lm (c_vocab_size cfg) token pos mf = Ok (t, metal_at cfg w (hs_of cfg) (kvd_of cfg) (kvm_of cfg) (rs_regime rs) ?m')"
    using e s(1) y by (simp add: metal_forward_def metal_step_def mf Let_def split_def)
  moreover have "rs_regime rs' = rs_regime rs"
    using q_step_oks [OF F(1) tg _ tok pos(1), of rs lm H] q mc by (simp add: oks_def mirrors_caches_def state_kept_def)
  ultimately show ?thesis using m' s(3,4) by (auto simp: metal_related_def)
qed

interpretation metal: gpu_forward "\<lambda>cur pos rs. q_step lm H tg base cfg w rs cur pos" cfg
    "\<lambda>rs. vocab_ok cfg \<and> q_model_ok base cfg w \<and> target_ok tg \<and> state_ok cfg rs" "metal_forward D lm (c_vocab_size cfg)"
    "\<lambda>rs mf. metal_contract D lm \<and> metal_ok base cfg w \<and> metal_related cfg w rs mf" 512
    for lm H tg base cfg w D
  by unfold_locales (auto dest: metal_step_follows)

text \<open>A loaded model mirrors the fresh state.\<close>

lemma metal_fresh:
  assumes M: "metal_ok base cfg w" and n: "metal_new D cfg w = Ok mf" and rs: "run_state_new cfg = Ok rs"
  shows "metal_related cfg w rs mf" and "metal_related cfg w (set_regime r rs) (metal_set_regime r mf)"
proof -
  note F = metal_facts [OF M]
  let ?m = "\<lparr>gm_words = loaded_words cfg w, gm_bytes = new_bytes w\<rparr>"
  have mf: "metal_set_regime r mf = metal_at cfg w (hs_of cfg) (kvd_of cfg) (kvm_of cfg) r ?m" "mf = metal_at cfg w (hs_of cfg) (kvd_of cfg) (kvm_of cfg) 2 ?m" for r
    using n step_dims [OF F(2,3)] F(13)
    by (auto simp: metal_new_def metal_at_def metal_set_regime_def metal_loaded_def loaded_words_def outcome_simps Let_def split: if_splits)
  let ?N = "c_seq_len cfg * kvd_of cfg"
  have I: "intact cfg w (loaded_words cfg w)" by (simp add: intact_def)
  have cap: "cap_of cfg * 4 \<le> usize_max" using F(4,5) by (simp add: usize_max_def)
  have quarter: "n * 64 \<le> max (n * 256) 4 div 4" "n * 8 \<le> max (n * 32) 4 div 4" for n :: nat
    by (cases "n = 0"; simp add: max_def)+
  have h: "holds (new_bytes w) (cap_of cfg) (loaded_words cfg w) ?m"
    using length_zbuf [OF cap] quarter [of "cap_of cfg"] by (simp add: holds_def loaded_words_def mult.assoc)
  have c: "cache_size cfg \<le> usize_max" using F(3) by (simp add: sizes_ok_def Let_def)
  moreover have "c_n_layers cfg * c_seq_len cfg \<le> cache_size cfg" using heads_facts(4) [OF F(2)] by (simp add: cache_size_def)
  ultimately have "c_n_layers cfg * c_seq_len cfg \<le> usize_max" by simp
  then have R: "rs = \<lparr>rs_key_cache = replicate (cache_size cfg) 0, rs_value_cache = replicate (cache_size cfg) 0, rs_regime = 2\<rparr>"
    using rs step_dims(1) [OF F(2,3)] c by (simp add: run_state_new_def cache_size_def Let_def)
  have N: "0 < ?N" "?N * 4 \<le> usize_max" using M heads_facts(4) [OF F(2)] by (simp_all add: metal_ok_def)
  then have "length (zbuf ?N) = max ?N 1" "max ?N 1 = ?N" using length_zbuf [OF N(2)] by linarith+
  then have "length (zbuf ?N) = ?N" by simp
  then have "zbuf ?N = replicate ?N 0" by (simp add: zbuf_def)
  then have z: "zbuf (wrap_mul (c_seq_len cfg) (kvd_of cfg)) = replicate ?N 0" using N(2) by simp
  have "layer_of cfg l (replicate (cache_size cfg) 0) = replicate ?N (0 :: f32)" if "l < c_n_layers cfg" for l
    using layer_bound [OF that] by (simp add: layer_of_def slice_def)
  then have mc: "mirrors_caches cfg (set_regime r rs) (loaded_words cfg w)" for r
    by (simp add: mirrors_caches_def state_ok_def R set_regime_def loaded_words_def z)
  then have "mirrors_caches cfg rs (loaded_words cfg w)" using mc [of 2] by (simp add: R set_regime_def)
  then show "metal_related cfg w rs mf" using h I mf(2) by (auto simp: metal_related_def R)
  show "metal_related cfg w (set_regime r rs) (metal_set_regime r mf)"
    using h I mf(1) [of r] mc [of r] by (auto simp: metal_related_def set_regime_def)
qed

subsection \<open>Runs\<close>

text \<open>What a run on Metal assumes: a model the backend can run and a request that fits the model and the attention kernel.\<close>

definition metal_run_ok :: "Target \<Rightarrow> nat \<Rightarrow> Config \<Rightarrow> QuantizedWeights \<Rightarrow> Request \<Rightarrow> bool" where
  "metal_run_ok tg base cfg w req \<longleftrightarrow> metal_ok base cfg w \<and> vocab_ok cfg \<and> target_ok tg \<and> request_ok cfg req \<and>
     length (rq_prompt_tokens req) + rq_n_new_tokens req \<le> 512"

lemma metal_generates:
  assumes "metal_run_ok tg base cfg w req" and "metal_contract D lm" and "run_state_new cfg = Ok rs" and "metal_related cfg w (set_regime r rs) mf"
  shows "generate (metal_forward D lm (c_vocab_size cfg)) cfg req mf
    = generate (\<lambda>cur pos rs. q_step lm H tg base cfg w rs cur pos) cfg req (set_regime r rs)"
proof -
  note ok = assms(1) [unfolded metal_run_ok_def]
  have M: "heads_ok cfg" "sizes_ok cfg" "q_model_ok base cfg w" using ok metal_facts by blast+
  have "state_ok cfg rs" using run_state_new_oks [OF M(1,2)] assms(3) by (simp add: oks_def)
  then have good: "vocab_ok cfg \<and> q_model_ok base cfg w \<and> target_ok tg \<and> state_ok cfg (set_regime r rs)"
    using ok M(3) by (simp add: state_ok_def set_regime_def)
  show ?thesis by (rule metal.generate_same [OF good]) (use ok assms(2,4) in simp_all)
qed


lemma q8_metal_ok: "metal_run_ok serial_target 0 q8_cfg q8_model q8_request"
  using q8_model_ok tiny_targets(1)
  by (simp add: metal_run_ok_def metal_ok_def vocab_ok_def request_ok_def q8_cfg_def q8_request_def usize_max_def q8_model_def q8_tensor_def
      bias_ok_def layer_linears_def classifier_def kind_of_def kvd_of_def hs_of_def Let_def)


end
