(* ===== verification/Conformance.thy ===== *)
theory Conformance
  imports StepParts
begin

text \<open>
  The reference computations of the two kernel conformance programs, \<open>src/kernels/conformance-metal\<close> and
  \<open>src/kernels/conformance-forward\<close>: the copies of the canonical reduction, the matrix product and the
  attention that the device is compared with, the input generators, the hash of the pinned result, the
  distance in units of the last place, and the software division and exponential. The lemmas show that the
  copies are the library's computations, and what the comparisons measure.
\<close>

subsection \<open>The copy of the canonical reduction\<close>

text \<open>\<open>fixed_tree\<close> is the library's, loop by loop; the chunk and the dot product here advance an index.\<close>

function ref_lanes :: "f32 list \<Rightarrow> f32 list \<Rightarrow> nat \<Rightarrow> nat \<Rightarrow> f32 list \<Rightarrow> f32 list res" where
  "ref_lanes x w full i lanes = (if i < full then
     obind (oloop (\<lambda>lanes j. dot_step x w (i + j) lanes j) [0..<CANON_LANES] lanes) (ref_lanes x w full (i + CANON_LANES))
   else Ok lanes)"
  by auto
termination by (relation "measure (\<lambda>(x, w, full, i, lanes). full - i)") (auto simp: CANON_LANES_def)

function ref_tail :: "f32 list \<Rightarrow> f32 list \<Rightarrow> nat \<Rightarrow> nat \<Rightarrow> f32 list \<Rightarrow> f32 list res" where
  "ref_tail x w n i lanes = (if i < n then obind (dot_step x w i lanes (i mod CANON_LANES)) (ref_tail x w n (i + 1)) else Ok lanes)"
  by auto
termination by (relation "measure (\<lambda>(x, w, n, i, lanes). n - i)") auto

declare ref_lanes.simps [simp del] ref_tail.simps [simp del]

definition ref_chunk :: "f32 list \<Rightarrow> f32 list \<Rightarrow> f32 res" where
  "ref_chunk x w = (let n = length x; full = n - n mod CANON_LANES in
     obind (ref_lanes x w full 0 (replicate CANON_LANES 0)) (\<lambda>lanes. omap fixed_tree (ref_tail x w n full lanes)))"

definition ref_dot :: "f32 list \<Rightarrow> f32 list \<Rightarrow> nat \<Rightarrow> f32 res" where
  "ref_dot x w n =
     (if n = 0 then Ok 0
      else if n \<le> CANON_CHUNK then obind (oslice x 0 n) (\<lambda>xs. obind (oslice w 0 n) (ref_chunk xs))
      else let nchunks = (n + CANON_CHUNK - 1) div CANON_CHUNK in
        omap fixed_tree (oloop (\<lambda>sums c. let s = c * CANON_CHUNK; e = min (s + CANON_CHUNK) n in
            obind (oslice x s e) (\<lambda>xs. obind (oslice w s e) (\<lambda>ws. omap (\<lambda>v. sums[c := v]) (ref_chunk xs ws))))
          [0..<nchunks] (replicate nchunks 0)))"

definition cpu_matmul :: "f32 list \<Rightarrow> f32 list \<Rightarrow> nat \<Rightarrow> nat \<Rightarrow> nat \<Rightarrow> f32 list res" where
  "cpu_matmul a b m k n = omap fst
     (oloop (\<lambda>(buf, col) j.
        if k = 0 then Ok (buf, col)
        else obind (if n = 1 then oslice b 0 k
            else oloop (\<lambda>col kk. obind (oget b (kk * n + j)) (oset col kk)) [0..<k] col) (\<lambda>col. omap (\<lambda>buf. (buf, col))
          (oloop (\<lambda>buf i. obind (oslice a (i * k) (i * k + k)) (\<lambda>row. obind (ref_dot row col k) (oset buf (i * n + j)))) [0..<m] buf)))
      [0..<n] (replicate (m * n) 0, replicate k 0))"

subsection \<open>Generated inputs and the pinned hash\<close>

definition fnv1a_f32 :: "f32 list \<Rightarrow> u64" where
  "fnv1a_f32 v = foldl (\<lambda>h x. foldl (\<lambda>h byte. (h XOR ucast byte) * 0x100000001B3) h (to_le_bytes32 x)) 0xCBF29CE484222325 v"

definition lcg_float :: "u64 \<Rightarrow> f32" where
  "lcg_float s = f32_sub (f32_mul (f32_div (f32_of_nat (unat (drop_bit 33 s))) (f32_of_nat (2 ^ 31))) (f32_of_nat 2)) f32_one"

text \<open>\<open>n\<close> rounds of the generator with increment \<open>c\<close>, and the state they leave.\<close>

primrec lcg_take :: "u64 \<Rightarrow> nat \<Rightarrow> u64 \<Rightarrow> f32 list \<times> u64" where
  "lcg_take c 0 s = ([], s)"
| "lcg_take c (Suc n) s = (let s = s * 6364136223846793005 + c; (xs, t) = lcg_take c n s in (lcg_float s # xs, t))"

definition pin_vector :: "nat \<Rightarrow> nat \<Rightarrow> nat \<Rightarrow> f32 list \<times> f32 list" where
  "pin_vector m k n = (let (a, s) = lcg_take 1 (m * k) 0x1234; (b, s) = lcg_take 1 (k * n) s in (a, b))"

definition rand_vec :: "nat \<Rightarrow> u64 \<Rightarrow> f32 list" where
  "rand_vec len seed = fst (lcg_take 1442695040888963407 len seed)"

definition PINNED_MATMUL_HASH :: u64 where "PINNED_MATMUL_HASH = 0x8A428433686D13AF"

subsection \<open>The copies are the library's\<close>

lemma ref_lanes_eq:
  "full = i + d * CANON_LANES \<Longrightarrow> ref_lanes x w full i =
    oloop (\<lambda>lanes i. oloop (\<lambda>lanes j. dot_step x w (i + j) lanes j) [0..<CANON_LANES] lanes) (map (\<lambda>k. i + k * CANON_LANES) [0..<d])"
proof (induction d arbitrary: i)
  case (Suc d)
  have "map (\<lambda>k. i + k * CANON_LANES) [0..<Suc d] = i # map (\<lambda>k. (i + CANON_LANES) + k * CANON_LANES) [0..<d]"
    by (simp add: upt_conv_Cons map_Suc_upt [symmetric] comp_def add.assoc del: upt_Suc)
  moreover have "ref_lanes x w full (i + CANON_LANES) = oloop (\<lambda>lanes i. oloop (\<lambda>lanes j. dot_step x w (i + j) lanes j) [0..<CANON_LANES] lanes)
      (map (\<lambda>k. (i + CANON_LANES) + k * CANON_LANES) [0..<d])" using Suc.prems by (intro Suc.IH) simp
  moreover have "i < full" using Suc.prems by (simp add: CANON_LANES_def)
  ultimately show ?case by (intro ext, subst ref_lanes.simps) (simp del: upt_Suc)
qed (simp add: ref_lanes.simps fun_eq_iff)

lemma ref_tail_eq: "i \<le> n \<Longrightarrow> ref_tail x w n i = oloop (\<lambda>lanes i. dot_step x w i lanes (i mod CANON_LANES)) [i..<n]"
proof (induction "n - i" arbitrary: i)
  case (Suc d)
  then have "i < n" "ref_tail x w n (i + 1) = oloop (\<lambda>lanes i. dot_step x w i lanes (i mod CANON_LANES)) [i + 1..<n]" by simp_all
  then show ?case by (intro ext, subst ref_tail.simps) (simp add: upt_conv_Cons)
qed (simp add: ref_tail.simps fun_eq_iff)

lemma ref_chunk_eq: "ref_chunk = canonical_chunk"
proof (intro ext)
  fix x w :: "f32 list"
  let ?n = "length x"
  have "?n - ?n mod CANON_LANES = 0 + (?n - ?n mod CANON_LANES) div CANON_LANES * CANON_LANES"
    by (simp add: minus_mod_eq_div_mult)
  from ref_lanes_eq [OF this] show "ref_chunk x w = canonical_chunk x w"
    by (simp add: ref_chunk_def canonical_chunk_def Let_def ref_tail_eq obind_Ok_map)
qed

lemma ref_dot_eq: "ref_dot = canonical_dot"
  by (intro ext) (simp add: ref_dot_def canonical_dot_def ref_chunk_eq Let_def)

lemma zero_entries:
  assumes "j < n"
  shows "oloop (\<lambda>buf i. oset buf (i * n + j) 0) [0..<m] (replicate (m * n) (0 :: f32)) = (Ok (replicate (m * n) 0) :: f32 list res)"
proof -
  have "oset (replicate (m * n) 0) (i * n + j) (0 :: f32) = (Ok (replicate (m * n) 0) :: f32 list res)" if "i < m" for i
    using row_bound [OF that assms] by (simp add: oset_ok list_update_same_conv)
  then have "k \<le> m \<Longrightarrow> oloop (\<lambda>buf i. oset buf (i * n + j) 0) [0..<k] (replicate (m * n) (0 :: f32)) = (Ok (replicate (m * n) 0) :: f32 list res)" for k
    by (induction k) (simp_all add: oloop_append oloop_Nil_fun)
  then show ?thesis by simp
qed

lemma cpu_matmul_eq: "cpu_matmul a b m k n = matmul_loop a b m k n"
proof (cases "k = 0")
  case True
  have "l \<le> n \<Longrightarrow> oloop (\<lambda>(buf, col) j. omap (\<lambda>buf. (buf, col)) (oloop (\<lambda>buf i. oset buf (i * n + j) 0) [0..<m] buf)) [0..<l]
      (replicate (m * n) 0, []) = (Ok (replicate (m * n) (0 :: f32), [] :: f32 list) :: (f32 list \<times> f32 list) res)" for l
    by (induction l) (simp_all add: oloop_append oloop_Nil_fun zero_entries)
  moreover have "oloop (\<lambda>(buf, col) j. Ok (buf, col)) js s = (Ok s :: (f32 list \<times> f32 list) res)" for js :: "nat list" and s
    by (induction js) auto
  ultimately show ?thesis using True by (simp add: cpu_matmul_def matmul_loop_def)
qed (simp add: cpu_matmul_def matmul_loop_def matmul_col_def ref_dot_eq)

subsection \<open>Distance in units of the last place\<close>

definition ref_ord :: "f32 \<Rightarrow> int" where
  "ref_ord x = (if x AND 0x80000000 \<noteq> 0 then uint (NOT x) else uint (x OR 0x80000000))"

definition ref_ulp :: "f32 \<Rightarrow> f32 \<Rightarrow> int" where
  "ref_ulp a b = \<bar>ref_ord a - ref_ord b\<bar>"

lemma sign_mask: "x AND 0x80000000 \<noteq> 0 \<longleftrightarrow> f32_neg_bit x" for x :: f32
proof -
  have "x AND 0x80000000 \<noteq> 0 \<longleftrightarrow> bit x 31" using and_exp_eq_0_iff_not_bit [of x 31] by simp
  also have "\<dots> \<longleftrightarrow> bit (unat x) 31" by (simp add: bit_unsigned_iff)
  moreover have "unat x div 2147483648 = (if f32_neg_bit x then 1 else 0)"
    using unat_f32_less [of x] by (auto simp: f32_neg_bit_def intro!: div_nat_eqI)
  ultimately show ?thesis by (simp add: bit_iff_odd)
qed

lemma ref_ord_eq: "ref_ord x = (if f32_neg_bit x then 2 ^ 31 - 1 - int (f32_mag x) else 2 ^ 31 + int (f32_mag x))"
proof -
  have u: "uint x = (if f32_neg_bit x then 2 ^ 31 else 0) + int (f32_mag x)"
  proof -
    have "unat x = (if f32_neg_bit x then 2 ^ 31 else 0) + f32_mag x" using unat_f32_mk [OF f32_mag_less, of "f32_neg_bit x" x] by simp
    then have "int (unat x) = (if f32_neg_bit x then 2 ^ 31 else 0) + int (f32_mag x)" by simp
    then show ?thesis by simp
  qed
  show ?thesis
  proof (cases "f32_neg_bit x")
    case True
    have "uint (NOT x) = 2 ^ 32 - 1 - uint x" 
    proof -
      have "(2 ^ 32 - 1 - uint x) mod 2 ^ 32 = 2 ^ 32 - 1 - uint x" 
      proof (rule mod_pos_pos_trivial)
        show "0 \<le> 2 ^ 32 - 1 - uint x" using uint_lt2p [of x] by simp
        show "2 ^ 32 - 1 - uint x < 2 ^ 32" using uint_ge_0 [of x] by linarith
      qed
      moreover have "(- uint x - 1 + 2 ^ 32) mod 2 ^ 32 = (- uint x - 1) mod (2 ^ 32 :: int)" by (rule mod_add_self2)
      ultimately show ?thesis by (simp add: not_eq_complement uint_word_ariths mod_diff_left_eq)
    qed
    then show ?thesis using True u by (simp add: ref_ord_def sign_mask)
  next
    case False
    then have "x OR 0x80000000 = x + 0x80000000"
      using disjunctive_add_eq_or [of x "0x80000000"] sign_mask [of x] by simp
    then have "uint (x OR 0x80000000) = uint x + 2 ^ 31" using u False f32_mag_less [of x] by (simp add: uint_word_ariths)
    then show ?thesis using False u by (simp add: ref_ord_def sign_mask)
  qed
qed

lemma ref_ord_inj: "ref_ord a = ref_ord b \<longleftrightarrow> a = b"
  using f32_mag_less [of a] f32_mag_less [of b] by (auto simp: ref_ord_eq intro!: f32_eqI split: if_splits)

lemma ref_ord_less:
  assumes "\<not> f32_is_nan a" and "\<not> f32_is_nan b"
  shows "f32_lt a b \<longleftrightarrow> ref_ord a < ref_ord b \<and> \<not> (f32_is_zero a \<and> f32_is_zero b)"
proof -
  have pos: "0 < f32_val m \<longleftrightarrow> 0 < m" for m using f32_val_less_iff [of 0 m] by simp
  show ?thesis using assms f32_mag_less [of a] f32_mag_less [of b] pos [of "f32_mag a"] pos [of "f32_mag b"]
    by (cases "f32_neg_bit a"; cases "f32_neg_bit b") (auto simp: f32_lt_def ref_ord_eq f32_int_def f32_is_zero_def)
qed

definition argmax_i :: "f32 list \<Rightarrow> nat res" where
  "argmax_i v = omap (\<lambda>v0. fst (foldl (\<lambda>(bi, bv) (i, x). if f32_lt bv x then (i, x) else (bi, bv)) (0, v0) (drop 1 (enumerate 0 v)))) (oget v 0)"

subsection \<open>Software division and exponential\<close>

text \<open>\<open>a.mul_add(b, c)\<close>: the exact product and sum, rounded once.\<close>

definition f32_fma :: "f32 \<Rightarrow> f32 \<Rightarrow> f32 \<Rightarrow> f32" where
  "f32_fma x y z =
     (let s = (f32_neg_bit x \<noteq> f32_neg_bit y) in
      if f32_is_nan x \<or> f32_is_nan y \<or> f32_is_nan z then f32_nan
      else if f32_is_inf x \<or> f32_is_inf y then
        (if f32_is_zero x \<or> f32_is_zero y \<or> (f32_is_inf z \<and> f32_neg_bit z \<noteq> s) then f32_nan else f32_mk s f32_inf_mag)
      else if f32_is_inf z then z
      else let v = f32_int x * f32_int y + f32_int z * 2 ^ 149 in
        if v = 0 then f32_mk (s \<and> f32_neg_bit z) 0 else f32_round (v < 0) (nat \<bar>v\<bar>) 149)"

definition div_sw :: "f32 \<Rightarrow> f32 \<Rightarrow> f32" where
  "div_sw a b =
     (let sgn = (a XOR b) AND 0x80000000; ba = b AND 0x7FFFFFFF; aa = a AND 0x7FFFFFFF;
          y = 0x7EF127EA - ba; nb = f32_neg ba;
          e = f32_fma nb y f32_one; y = f32_fma y e y;
          e = f32_fma nb y f32_one; y = f32_fma y e y;
          e = f32_fma nb y f32_one; y = f32_fma y e y;
          q = f32_mul aa y; r = f32_fma nb q aa; q = f32_fma r y q in
      q XOR sgn)"

definition scalbnf_ref :: "f32 \<Rightarrow> int \<Rightarrow> f32" where
  "scalbnf_ref x n =
     (let f_exp_max = push_bit 23 254; f_exp_min = push_bit 23 1; f_pow_subnorm = push_bit 23 151; down = f32_mul f_exp_min f_pow_subnorm;
          (x, n) = (if 127 < n then let x = f32_mul x f_exp_max; n = n - 127 in
              if 127 < n then let x = f32_mul x f_exp_max; n = n - 127 in (x, if 127 < n then 127 else n) else (x, n)
            else if n < - 126 then let x = f32_mul x down; n = n + 102 in
              if n < - 126 then let x = f32_mul x down; n = n + 102 in (x, if n < - 126 then - 126 else n) else (x, n)
            else (x, n)) in
      f32_mul x (push_bit 23 (word_of_int (127 + n))))"

text \<open>The constants of the source, as the patterns their decimal texts round to.\<close>

definition expf_ref :: "f32 \<Rightarrow> f32" where
  "expf_ref x =
     (let ln2_hi = 0x3F317200; ln2_lo = 0x35BFBE8E; inv_ln2 = 0x3FB8AA3B; p1 = 0x3E2AAA8F; p2 = 0xBB355215; x1p127 = 0x7F000000;
          signb = drop_bit 31 x \<noteq> 0; hx = x AND 0x7FFFFFFF;
          poly = (\<lambda>k hi lo x. let xx = f32_mul x x; c = f32_sub x (f32_mul xx (f32_add p1 (f32_mul xx p2)));
              y = f32_add f32_one (f32_add (f32_sub (div_sw (f32_mul x c) (f32_sub (f32_of_nat 2) c)) lo) hi) in
            if k = 0 then y else scalbnf_ref y k);
          reduced = (\<lambda>k. let kf = f32_of_int k; hi = f32_sub x (f32_mul kf ln2_hi); lo = f32_mul kf ln2_lo in poly k hi lo (f32_sub hi lo)) in
      if 0x42AEAC50 \<le> hx \<and> 0x7F800000 < hx then x
      else if 0x42AEAC50 \<le> hx \<and> 0x42B17218 \<le> hx \<and> \<not> signb then f32_mul x x1p127
      else if 0x42AEAC50 \<le> hx \<and> signb \<and> 0x42CFF1B5 \<le> hx then 0
      else if 0x3EB17218 < hx then
        (if 0x3F851592 < hx then reduced (f32_to_i32 (f32_add (f32_mul inv_ln2 x) (if signb then 0xBF000000 else 0x3F000000)))
         else reduced (1 - (if signb then 1 else 0) - (if signb then 1 else 0)))
      else if 0x39000000 < hx then poly 0 x 0 x
      else f32_add f32_one x)"

subsection \<open>Attention\<close>

text \<open>The copy of the attention of one layer: scores, softmax and values of a head, for all heads.\<close>

definition ref_scores :: "nat \<Rightarrow> nat \<Rightarrow> nat \<Rightarrow> nat \<Rightarrow> f32 \<Rightarrow> f32 list \<Rightarrow> f32 list \<Rightarrow> nat \<Rightarrow> f32 list res" where
  "ref_scores hs kvd kvm tlen sqrt_hd q kc h =
     oloop (\<lambda>att t. obind (odiv h kvm) (\<lambda>kvh. let k_off = t * kvd + kvh * hs in
       obind (oslice q (h * hs) (h * hs + hs)) (\<lambda>qs. obind (oslice kc k_off (k_off + hs)) (\<lambda>ks.
       obind (canonical_dot qs ks hs) (\<lambda>score. oset att t (f32_div score sqrt_hd)))))) [0..<tlen] (replicate tlen 0)"

definition ref_softmax :: "libm \<Rightarrow> nat \<Rightarrow> f32 list \<Rightarrow> f32 list res" where
  "ref_softmax lm tlen att =
     (let mx = foldl (\<lambda>mx v. if f32_lt mx v then v else mx) f32_neg_infinity att; att = map (\<lambda>v. expf lm (f32_sub v mx)) att in
      obind (canonical_sum att tlen) (\<lambda>s. let inv = f32_div f32_one s in Ok (map (\<lambda>v. f32_mul v inv) att)))"

definition ref_col :: "nat \<Rightarrow> nat \<Rightarrow> nat \<Rightarrow> nat \<Rightarrow> f32 list \<Rightarrow> nat \<Rightarrow> nat \<Rightarrow> f32 list \<Rightarrow> f32 list res" where
  "ref_col hs kvd kvm tlen vc h dd vcol =
     oloop (\<lambda>vcol t. obind (odiv h kvm) (\<lambda>kvh. let v_off = t * kvd + kvh * hs in obind (oget vc (v_off + dd)) (oset vcol t))) [0..<tlen] vcol"

definition ref_head :: "libm \<Rightarrow> nat \<Rightarrow> nat \<Rightarrow> nat \<Rightarrow> nat \<Rightarrow> f32 list \<Rightarrow> f32 list \<Rightarrow> f32 list \<Rightarrow> f32 list \<Rightarrow> nat \<Rightarrow> f32 list res" where
  "ref_head lm hs kvd kvm tlen q kc vc xb h =
     obind (ref_scores hs kvd kvm tlen (sqrtf lm (f32_of_nat hs)) q kc h) (\<lambda>att. obind (ref_softmax lm tlen att) (\<lambda>att.
     omap fst (oloop (\<lambda>(xb, vcol) dd. obind (ref_col hs kvd kvm tlen vc h dd vcol) (\<lambda>vcol.
       obind (canonical_dot att vcol tlen) (\<lambda>s. omap (\<lambda>xb. (xb, vcol)) (oset xb (h * hs + dd) s)))) [0..<hs] (xb, replicate tlen 0))))"

definition attention_cpu :: "libm \<Rightarrow> f32 list \<Rightarrow> f32 list \<Rightarrow> f32 list \<Rightarrow> nat \<Rightarrow> nat \<Rightarrow> nat \<Rightarrow> nat \<Rightarrow> nat \<Rightarrow> f32 list res" where
  "attention_cpu lm q kc vc n_heads hs kvd kvm pos =
     oloop (ref_head lm hs kvd kvm (pos + 1) q kc vc) [0..<n_heads] (replicate (n_heads * hs) 0)"

lemma ref_scores_eq:
  assumes "0 < kvm" and "h * hs + hs \<le> length q" and "\<And>t. t < tlen \<Longrightarrow> t * kvd + h div kvm * hs + hs \<le> length kc"
  shows "ref_scores hs kvd kvm tlen sq q kc h = omapM (\<lambda>t. omap (\<lambda>s. f32_div s sq)
    (canonical_dot (slice q (h * hs) (h * hs + hs)) (slice kc (t * kvd + h div kvm * hs) (t * kvd + h div kvm * hs + hs)) hs)) [0..<tlen]"
    (is "_ = omapM ?g _")
proof -
  have "ref_scores hs kvd kvm tlen sq q kc h = omap (splice (replicate tlen 0) 0) (omapM ?g [0..<tlen])"
    unfolding ref_scores_def
    by (rule fill_prefix [where n = tlen]) (use assms in \<open>auto simp: odiv_def Let_def oset_ok omap_twice obind_Ok_map\<close>)
  also have "\<dots> = omapM ?g [0..<tlen]" by (cases "omapM ?g [0..<tlen]") (auto dest: omapM_length)
  finally show ?thesis .
qed

lemma ref_col_eq:
  assumes "0 < kvm" and "\<And>t. t < tlen \<Longrightarrow> t * kvd + h div kvm * hs + d < length vc" and "length v = tlen"
  shows "ref_col hs kvd kvm tlen vc h d v = Ok (map (\<lambda>t. vc ! (t * kvd + h div kvm * hs + d)) [0..<tlen])"
proof -
  have "ref_col hs kvd kvm tlen vc h d v = omap (splice v 0) (omapM (\<lambda>t. Ok (vc ! (t * kvd + h div kvm * hs + d))) [0..<tlen])"
    unfolding ref_col_def
    by (rule fill_prefix [where n = tlen]) (use assms in \<open>auto simp: odiv_def Let_def oset_ok oget_ok\<close>)
  then show ?thesis using assms(3) by (simp add: omapM_Ok)
qed

lemma ref_softmax_eq: "length att = tlen \<Longrightarrow> ref_softmax lm tlen att = softmax_inplace lm att"
  by (simp add: ref_softmax_def softmax_inplace_def row_max_def Let_def)

lemma ref_head_attend:
  assumes "0 < kvm" and "h * hs + hs \<le> length q" and "h * hs + hs \<le> length xb"
    and "\<And>t. t < pos + 1 \<Longrightarrow> t * kvd + h div kvm * hs + hs \<le> length kc" and "\<And>t. t < pos + 1 \<Longrightarrow> t * kvd + h div kvm * hs + hs \<le> length vc"
  shows "ref_head lm hs kvd kvm (pos + 1) q kc vc xb h = omap (splice xb (h * hs)) (attend lm hs kvd kvm pos q kc vc h)"
proof -
  let ?col = "\<lambda>d. map (\<lambda>t. vc ! (t * kvd + h div kvm * hs + d)) [0..<pos + 1]"
  let ?body = "\<lambda>att (xb, vcol) dd. obind (ref_col hs kvd kvm (pos + 1) vc h dd vcol) (\<lambda>vcol.
       obind (canonical_dot att vcol (pos + 1)) (\<lambda>s. omap (\<lambda>xb. (xb, vcol)) (oset xb (h * hs + dd) s)))"
  have vals: "omap fst (oloop (?body att) [0..<hs] (xb, replicate (pos + 1) 0))
    = omap (splice xb (h * hs)) (omapM (\<lambda>d. canonical_dot att (?col d) (pos + 1)) [0..<hs])" for att
  proof -
    have "oloop (?body att) [0..<hs] (xb, replicate (pos + 1) 0)
      = omap (\<lambda>ys. (splice xb (h * hs) ys, if hs = 0 then replicate (pos + 1) 0 else ?col (hs - 1))) (omapM (\<lambda>d. canonical_dot att (?col d) (pos + 1)) [0..<hs])"
    proof (rule fill_prefix_scratch [where n = hs and k = "pos + 1"])
      fix d and ys v :: "f32 list" assume d: "d < hs" and ys: "length ys = length xb" and v: "length v = pos + 1"
      have "t * kvd + h div kvm * hs + d < length vc" if "t < pos + 1" for t using assms(5) [OF that] d by linarith
      from ref_col_eq [OF assms(1) this v]
      show "?body att (ys, v) d = omap (\<lambda>r. (ys[h * hs + d := r], ?col d)) (canonical_dot att (?col d) (pos + 1))"
        using d ys assms(3) by (simp add: oset_ok obind_Ok_map del: upt_Suc)
    qed (use assms(3) in simp_all)
    then show ?thesis by (simp add: omap_twice del: upt_Suc)
  qed
  have "obind (omapM g [0..<pos + 1]) (\<lambda>att. obind (ref_softmax lm (pos + 1) att) F) = obind (omapM g [0..<pos + 1]) (\<lambda>att. obind (softmax_inplace lm att) F)"
    for g and F :: "f32 list \<Rightarrow> f32 list res"
    by (rule obind_cong) (auto dest: omapM_length simp: ref_softmax_eq simp del: upt_Suc)
  moreover note ref_scores_eq [of kvm h hs q "pos + 1" kvd kc "sqrtf lm (f32_of_nat hs)", OF assms(1,2,4)]
  ultimately show ?thesis unfolding ref_head_def attend_def Let_def vals by (simp add: omap_bind del: upt_Suc)
qed

text \<open>
  C36: the attention the device is compared with is that of the quantised forward
  pass: on the cache of a layer it returns what the loop over the heads leaves.
\<close>

theorem attention_replica:
  assumes "heads_ok cfg" and "sizes_ok cfg" and "l < c_n_layers cfg" and "pos < c_seq_len cfg"
    and "length q = c_dim cfg" and "length kc = cache_size cfg" and "length vc = cache_size cfg"
  shows "attention_cpu lm q (layer_of cfg l kc) (layer_of cfg l vc) (c_n_heads cfg) (hs_of cfg) (kvd_of cfg) (kvm_of cfg) pos
    = oloop (q_attn_head lm cfg (kvd_of cfg) (kvm_of cfg) (hs_of cfg) l pos q kc vc) [0..<c_n_heads cfg] (replicate (c_dim cfg) 0)"
proof -
  note F = heads_facts [OF assms(1)] and C = sizes_facts [OF assms(2,1,3)]
  let ?nh = "c_n_heads cfg" and ?hs = "hs_of cfg" and ?w = "c_seq_len cfg * kvd_of cfg"
  let ?a = "attend lm ?hs (kvd_of cfg) (kvm_of cfg) pos q (layer_of cfg l kc) (layer_of cfg l vc)"
  have len: "length (layer_of cfg l kc) = ?w" "length (layer_of cfg l vc) = ?w"
    using layer_bound [OF assms(3)] assms(6,7) by (simp_all add: layer_of_def)
  have "attention_cpu lm q (layer_of cfg l kc) (layer_of cfg l vc) ?nh ?hs (kvd_of cfg) (kvm_of cfg) pos
    = omap (\<lambda>yss. concat yss @ drop (?nh * ?hs) (replicate (?nh * ?hs) 0)) (omapM ?a [0..<?nh])"
    unfolding attention_cpu_def
  proof (rule splice_rows [OF _ attend_length _ order_refl])
    fix h and xb :: "f32 list" assume h: "h < ?nh" and xb: "length xb = length (replicate (?nh * ?hs) (0 :: f32))"
    have "t * kvd_of cfg + h div kvm_of cfg * ?hs + ?hs \<le> ?w" if "t < pos + 1" for t
      using head_offset_eq(2) [OF assms(1) C(6) assms(3) _ h, of t] that assms(4) by simp
    then show "ref_head lm ?hs (kvd_of cfg) (kvm_of cfg) (pos + 1) q (layer_of cfg l kc) (layer_of cfg l vc) xb h = omap (splice xb (h * ?hs)) (?a h)"
      using row_bound_le [OF h, of ?hs] F(1,3) assms(5) xb len by (intro ref_head_attend) simp_all
  qed simp_all
  then show ?thesis unfolding attention_heads [OF assms] by simp
qed

lemma argmax_i_eq: "argmax_i v = (if v = [] then Panic else Ok (argmax_row v))"
proof (cases v)
  case (Cons x xs)
  have "drop 1 (enumerate 0 v) = map (\<lambda>i. (i, v ! i)) [1..<length v]"
    by (rule nth_equalityI) (simp_all add: nth_enumerate_eq)
  then have "foldl (\<lambda>(bi, bv) (i, x). if f32_lt bv x then (i, x) else (bi, bv)) s (drop 1 (enumerate 0 v))
    = foldl (\<lambda>(bi, bv) i. if f32_lt bv (v ! i) then (i, v ! i) else (bi, bv)) s [1..<length v]" for s
    by (simp add: foldl_map case_prod_beta' cong: if_cong)
  moreover have "(oget v 0 :: f32 res) = Ok (v ! 0)" using Cons by (simp add: oget_ok)
  ultimately show ?thesis unfolding argmax_i_def argmax_row_def using Cons by (simp only: omap.simps) simp
qed (simp add: argmax_i_def oget_def)

subsection \<open>Properties\<close>

text \<open>
  The copy of the reduction that anchors the device comparison is the reduction
  of the library, panics included: the same lanes, tail, chunks and trees for any two vectors and length,
  and the same matrix product for any two buffers and sizes. Its pick of the largest entry is that of the
  library on a row with an entry and panics on an empty one.
\<close>

theorem replica_is_contract:
  "ref_dot x w n = canonical_dot x w n \<and> cpu_matmul a b m k j = matmul_loop a b m k j \<and> argmax_i v = (if v = [] then Panic else Ok (argmax_row v))"
  by (simp add: ref_dot_eq cpu_matmul_eq argmax_i_eq)

text \<open>
  The distance that the comparisons report is a metric on bit patterns. It is zero for
  equal bits only, so a largest distance of zero is equality bit for bit, NaNs and signed zeros included;
  it follows the order of the values, with the two zeros one apart, and it is one from a float to
  the next larger magnitude.
\<close>

theorem ulp_measures:
  "(ref_ulp a b = 0 \<longleftrightarrow> a = b) \<and> ref_ulp a b = ref_ulp b a \<and> ref_ulp a c \<le> ref_ulp a b + ref_ulp b c \<and>
   (\<not> f32_is_nan a \<and> \<not> f32_is_nan b \<longrightarrow> (f32_lt a b \<longleftrightarrow> ref_ord a < ref_ord b \<and> \<not> (f32_is_zero a \<and> f32_is_zero b))) \<and>
   (f32_finite a \<longrightarrow> ref_ulp a (f32_mk (f32_neg_bit a) (f32_mag a + 1)) = 1)"
proof (intro conjI impI)
  show "ref_ulp a b = 0 \<longleftrightarrow> a = b" using ref_ord_inj [of a b] by (simp add: ref_ulp_def)
  show "ref_ulp a b = ref_ulp b a" "ref_ulp a c \<le> ref_ulp a b + ref_ulp b c" by (simp_all add: ref_ulp_def)
  show "f32_lt a b \<longleftrightarrow> ref_ord a < ref_ord b \<and> \<not> (f32_is_zero a \<and> f32_is_zero b)" if "\<not> f32_is_nan a \<and> \<not> f32_is_nan b"
    using that by (intro ref_ord_less) simp_all
  assume "f32_finite a"
  then have "f32_mag a + 1 < 2147483648" by (simp add: f32_finite_def f32_inf_mag_def)
  then show "ref_ulp a (f32_mk (f32_neg_bit a) (f32_mag a + 1)) = 1" by (simp add: ref_ulp_def ref_ord_eq)
qed

theorem ulp_measures_witness:
  "f32_lt f32_one 0x40000000 \<and> ref_ord f32_one < ref_ord 0x40000000 \<and> ref_ulp 0x3F800000 (f32_mk (f32_neg_bit 0x3F800000) (f32_mag 0x3F800000 + 1)) = 1"
  using ulp_measures [of f32_one "0x40000000"] ulp_measures [of "0x3F800000"]
  by (simp add: f32_one_def ref_ord_eq f32_neg_bit_def f32_mag_def f32_is_nan_def f32_inf_mag_def f32_is_zero_def f32_finite_def)

text \<open>
  C37: the software division is wrong for an infinite divisor. Dividing a finite value
  other than zero by it gives an infinity of the opposite sign where the division of the
  processor gives zero. So \<open>x / (1 + exp (- x))\<close> overflows on the device once the exponential does.
\<close>

lemma infinity_fields: "f32_mag f32_infinity = f32_inf_mag" "\<not> f32_neg_bit f32_infinity" "f32_mag f32_neg_infinity = f32_inf_mag" "f32_neg_bit f32_neg_infinity"
  by (simp_all add: f32_infinity_def f32_neg_infinity_def f32_mag_def f32_neg_bit_def f32_inf_mag_def)

lemma fma_infinite:
  assumes "f32_is_inf x \<or> f32_is_inf y" and "\<not> f32_is_nan x" "\<not> f32_is_nan y" "\<not> f32_is_nan z" and "\<not> f32_is_zero x" "\<not> f32_is_zero y"
    and "f32_is_inf z \<Longrightarrow> f32_neg_bit z = (f32_neg_bit x \<noteq> f32_neg_bit y)"
  shows "f32_fma x y z = f32_mk (f32_neg_bit x \<noteq> f32_neg_bit y) f32_inf_mag"
  using assms by (auto simp: f32_fma_def Let_def)

lemma fma_constants:
  "f32_fma 0xFF800000 (- 9361430) f32_one = 0x7F800000" "f32_fma (- 9361430) 0x7F800000 (- 9361430) = 0xFF800000"
  "f32_fma 0xFF800000 0xFF800000 f32_one = 0x7F800000" "f32_fma 0xFF800000 0x7F800000 0xFF800000 = 0xFF800000"
  "f32_fma 0x7F800000 0xFF800000 0xFF800000 = 0xFF800000"
proof -
  have e: "(- 9361430 :: f32) = 0xFF7127EA" by simp
  show "f32_fma 0xFF800000 (- 9361430) f32_one = 0x7F800000" "f32_fma (- 9361430) 0x7F800000 (- 9361430) = 0xFF800000"
    unfolding e by (simp_all add: f32_fma_def Let_def f32_is_nan_def f32_is_inf_def f32_is_zero_def f32_mag_def f32_neg_bit_def f32_inf_mag_def f32_mk_def f32_one_def)
qed (simp_all add: f32_fma_def Let_def f32_is_nan_def f32_is_inf_def f32_is_zero_def f32_mag_def f32_neg_bit_def f32_inf_mag_def f32_mk_def f32_one_def)

lemma abs_mask: "a AND 0x7FFFFFFF = f32_abs a"
proof (rule f32_eqI)
  have m: "(0x7FFFFFFF :: f32) = mask 31" by (simp add: mask_eq_exp_minus_1)
  have "unat (a AND mask 31) = unat a mod 2147483648" by (simp only: take_bit_eq_mask [symmetric] unsigned_take_bit_eq) (simp add: take_bit_eq_mod)
  then have "unat (a AND 0x7FFFFFFF) = unat a mod 2147483648" by (simp only: m)
  then have "f32_mag (a AND 0x7FFFFFFF) = f32_mag a" "\<not> f32_neg_bit (a AND 0x7FFFFFFF)"
    by (simp_all add: f32_mag_def f32_neg_bit_def not_le)
  then show "f32_mag (a AND 0x7FFFFFFF) = f32_mag (f32_abs a)" "f32_neg_bit (a AND 0x7FFFFFFF) = f32_neg_bit (f32_abs a)" by simp_all
qed

lemma sign_bits: "a AND 0x80000000 = (if f32_neg_bit a then 0x80000000 else 0)"
proof -
  define m :: f32 where "m = 2 ^ 31"
  have m: "m = 0x80000000" "bit m n \<longleftrightarrow> n = 31" for n by (simp_all only: m_def bit_exp_iff) auto
  have "a AND m = 0 \<or> a AND m = m"
  proof (cases "bit a 31")
    case True
    then have "a AND m = m" by (intro bit_word_eqI) (auto simp: bit_and_iff m(2))
    then show ?thesis ..
  next
    case False
    then have "a AND m = 0" by (intro bit_word_eqI) (auto simp: bit_and_iff m(2))
    then show ?thesis ..
  qed
  then show ?thesis using sign_mask [of a] by (auto simp: m(1))
qed

theorem softdiv_infinite:
  assumes "f32_finite a" and "\<not> f32_is_zero a"
  shows "div_sw a f32_infinity = f32_mk (\<not> f32_neg_bit a) f32_inf_mag \<and> f32_div a f32_infinity = f32_mk (f32_neg_bit a) 0"
proof
  show "f32_div a f32_infinity = f32_mk (f32_neg_bit a) 0" using assms(1)
    by (simp add: f32_div_def Let_def f32_is_inf_def f32_is_nan_def f32_finite_def infinity_fields)
next
  have "(a XOR 0x7F800000) AND 0x80000000 = a AND 0x80000000" by (simp add: bit.conj_xor_distrib2)
  moreover have "f32_abs 0x7F800000 = 0x7F800000" "f32_neg 0x7F800000 = 0xFF800000"
    by (simp_all add: f32_abs_def f32_neg_def f32_mag_def f32_neg_bit_def f32_mk_def)
  moreover have "f32_mul (f32_abs a) 0xFF800000 = 0xFF800000" "f32_fma 0xFF800000 0xFF800000 (f32_abs a) = 0x7F800000"
    using assms by (simp_all add: f32_mul_def f32_fma_def Let_def f32_finite_def f32_is_zero_def f32_is_nan_def f32_is_inf_def f32_mk_def f32_inf_mag_def)
      (simp_all add: f32_mag_def f32_neg_bit_def)
  ultimately show "div_sw a f32_infinity = f32_mk (\<not> f32_neg_bit a) f32_inf_mag"
    by (simp add: div_sw_def f32_infinity_def abs_mask Let_def fma_constants sign_bits f32_mk_def f32_inf_mag_def)
qed

theorem softdiv_infinite_witness: "div_sw 0xC2C80000 f32_infinity = f32_infinity \<and> f32_div 0xC2C80000 f32_infinity = 0x80000000"
  using softdiv_infinite [of "0xC2C80000"]
  by (simp add: f32_finite_def f32_is_zero_def f32_mag_def f32_neg_bit_def f32_inf_mag_def f32_mk_def f32_infinity_def)

theorem attention_replica_witness:
  "attention_cpu id_libm (replicate 32 0) (replicate 64 0) (replicate 64 0) 1 32 32 1 0
     = oloop (q_attn_head id_libm q8_cfg 32 1 32 0 0 (replicate 32 0) (replicate 64 0) (replicate 64 0)) [0..<1] (replicate 32 0)"
proof -
  have c: "heads_ok q8_cfg" "sizes_ok q8_cfg" using q8_model_ok model_sizes by blast+
  have "c_n_layers q8_cfg = 1" "c_seq_len q8_cfg = 2" "c_dim q8_cfg = 32" "cache_size q8_cfg = 64" "c_n_heads q8_cfg = 1" "hs_of q8_cfg = 32"
    "kvd_of q8_cfg = 32" "kvm_of q8_cfg = 1" by (simp_all add: q8_cfg_def cache_size_def hs_of_def kvd_of_def kvm_of_def)
  then show ?thesis using attention_replica [OF c, of 0 0 "replicate 32 0" "replicate 64 0" "replicate 64 0" id_libm] by (simp add: layer_of_def)
qed

end
