(* ===== verification/Receipt.thy ===== *)
theory Receipt
  imports Conformance
begin

text \<open>
  The two programs of \<open>src/src/bin\<close>: \<open>vitni-receipt.rs\<close>, which runs a model file on a prompt and prints the
  digest of the run, and \<open>gen-anchors.rs\<close>, which prints the digests and the reduction pin that are
  published. The command line, the environment, the file system and the address at which a file is
  read are parameters; a program ends with its output or a panic.
\<close>

subsection \<open>Text\<close>

text \<open>\<open>Option::expect\<close>.\<close>

definition expect_some :: "'a option \<Rightarrow> 'a res" where
  "expect_some v = (case v of Some x \<Rightarrow> Ok x | None \<Rightarrow> Panic)"

text \<open>\<open>format!("{:02x}", x)\<close> for each byte.\<close>

definition hex_digit :: "nat \<Rightarrow> u8" where
  "hex_digit d = of_nat (if d < 10 then 48 + d else 87 + d)"

definition hex :: "bytes \<Rightarrow> bytes" where
  "hex b = concat (map (\<lambda>x. [hex_digit (unat x div 16), hex_digit (unat x mod 16)]) b)"

text \<open>The characters that \<open>str::trim\<close> removes, in UTF-8.\<close>

definition white :: "bytes \<Rightarrow> bool" where
  "white c \<longleftrightarrow> c \<in> {[9], [10], [11], [12], [13], [32], [0xC2, 0x85], [0xC2, 0xA0], [0xE1, 0x9A, 0x80], [0xE2, 0x80, 0xA8], [0xE2, 0x80, 0xA9],
     [0xE2, 0x80, 0xAF], [0xE2, 0x81, 0x9F], [0xE3, 0x80, 0x80]} \<or> (\<exists>b\<in>set [0x80, 0x81, 0x82, 0x83, 0x84, 0x85, 0x86, 0x87, 0x88, 0x89, 0x8A]. c = [0xE2, 0x80, b])"

definition trim :: "bytes \<Rightarrow> bytes" where
  "trim s = (case utf8_chars s of Some cs \<Rightarrow> concat (rev (dropWhile white (rev (dropWhile white cs)))) | None \<Rightarrow> s)"

text \<open>\<open>s.split(',')\<close>: at least one piece.\<close>

fun split_on :: "u8 \<Rightarrow> bytes \<Rightarrow> bytes list" where
  "split_on sep [] = [[]]"
| "split_on sep (b # bs) = (if b = sep then [] # split_on sep bs
     else (case split_on sep bs of p # ps \<Rightarrow> (b # p) # ps | [] \<Rightarrow> [[b]]))"

text \<open>\<open>v.join(sep)\<close>.\<close>

fun join :: "bytes \<Rightarrow> bytes list \<Rightarrow> bytes" where
  "join sep [] = []"
| "join sep [p] = p"
| "join sep (p # q # ps) = p @ sep @ join sep (q # ps)"

text \<open>\<open>parse\<close> of an unsigned integer of \<open>w\<close> bits: a plus sign is allowed.\<close>

definition parse_uint :: "nat \<Rightarrow> bytes \<Rightarrow> nat option" where
  "parse_uint w s =
     (let ds = (case s of [] \<Rightarrow> [] | c # cs \<Rightarrow> if c = 43 then cs else s); v = foldl (\<lambda>v d. v * 10 + (unat d - 48)) 0 ds in
      if ds = [] \<or> \<not> list_all (\<lambda>d. 48 \<le> d \<and> d \<le> 57) ds \<or> 2 ^ w \<le> v then None else Some v)"

definition show_nat :: "nat \<Rightarrow> bytes" where
  "show_nat n = str (dec_digits n)"

text \<open>The argument after the first occurrence of a flag.\<close>

fun cli_arg :: "bytes list \<Rightarrow> string \<Rightarrow> bytes option" where
  "cli_arg [] flag = None"
| "cli_arg (a # as) flag = (if a = str flag then (case as of [] \<Rightarrow> None | v # _ \<Rightarrow> Some v) else cli_arg as flag)"

definition quote :: "bytes \<Rightarrow> bytes" where
  "quote s = 34 # s @ [34]"

subsection \<open>The receipt of a run\<close>

text \<open>The frozen digest of a certificate.\<close>

definition cert_v1 :: "(bytes \<Rightarrow> bytes) \<Rightarrow> Cert \<Rightarrow> bytes" where
  "cert_v1 H c = compute_digest_v1 H \<lparr>s_inputs = cert_inputs c, s_outputs = cert_outputs c, s_ops = cert_ops c,
     s_activations = cert_activations c, s_interventions = cert_interventions c\<rparr>"

text \<open>The printed line.\<close>

definition receipt_line :: "bytes \<Rightarrow> bytes \<Rightarrow> bytes \<Rightarrow> u32 list \<Rightarrow> bytes" where
  "receipt_line digest v1 wh toks =
     str ''{'' @ quote (str ''model_digest'') @ str '':'' @ quote (hex digest) @ str '','' @ quote (str ''regime'') @ str '':'' @ quote REGIME @
     str '','' @ quote (str ''model_digest_v1'') @ str '':'' @ quote (hex v1) @ str '','' @ quote (str ''weights_hash'') @ str '':'' @ quote (hex wh) @
     str '','' @ quote (str ''tokens'') @ str '':['' @ join (str '','') (map (\<lambda>t. show_nat (unat t)) toks) @ str '']}'' @ [10]"

text \<open>The command line: the file, and the request with the model's name, the prompt and the count.\<close>

definition receipt_request :: "bytes list \<Rightarrow> (bytes \<times> Request) res" where
  "receipt_request args =
     (if \<not> list_all utf8_ok args then Panic else
      obind (expect_some (cli_arg args ''--gguf'')) (\<lambda>path.
      obind (expect_some (cli_arg args ''--prompt'')) (\<lambda>p.
      obind (omapM (\<lambda>s. expect_some (parse_uint 32 (trim s))) (split_on 44 p)) (\<lambda>ts.
      obind (expect_some (parse_uint 64 (case cli_arg args ''--n'' of Some s \<Rightarrow> s | None \<Rightarrow> str ''16''))) (\<lambda>n.
      Ok (path, \<lparr>rq_model_id = (case cli_arg args ''--model-id'' of Some s \<Rightarrow> s | None \<Rightarrow> str ''vitni-receipt''),
            rq_prompt_tokens = map of_nat ts, rq_n_new_tokens = n\<rparr>))))))"

text \<open>The model of a file, and its run on a request.\<close>

definition load_model :: "nat \<Rightarrow> bytes \<Rightarrow> (Config \<times> QuantizedWeights) res" where
  "load_model base blob = obind (gguf_parse blob) (\<lambda>g. obind (config_from_gguf g) (\<lambda>cfg. omap (Pair cfg) (quantized_weights_from_gguf base g cfg)))"

definition run_file :: "libm \<Rightarrow> (bytes \<Rightarrow> bytes) \<Rightarrow> Target \<Rightarrow> nat \<Rightarrow> bytes \<Rightarrow> Request \<Rightarrow> Outcome res" where
  "run_file lm H tg base blob req = obind (load_model base blob) (\<lambda>(cfg, w). run_quantized lm H tg base cfg w (H blob) req)"

definition receipt :: "libm \<Rightarrow> (bytes \<Rightarrow> bytes) \<Rightarrow> Target \<Rightarrow> nat \<Rightarrow> (bytes \<Rightarrow> bytes option) \<Rightarrow> bytes list \<Rightarrow> bytes res" where
  "receipt lm H tg base files args =
     obind (receipt_request args) (\<lambda>(path, req).
     obind (expect_some (files path)) (\<lambda>blob.
     obind (expect (run_file lm H tg base blob req)) (\<lambda>oc.
     Ok (receipt_line (cert_digest (oc_cert oc)) (cert_v1 H (oc_cert oc)) (H blob) (oc_generated_tokens oc)))))"

subsection \<open>Anchors\<close>

text \<open>
  The digests and tokens of one model, none when the file cannot be read or the run is an error.
\<close>

definition model_digest :: "libm \<Rightarrow> (bytes \<Rightarrow> bytes) \<Rightarrow> Target \<Rightarrow> nat \<Rightarrow> (bytes \<Rightarrow> bytes option) \<Rightarrow> bytes \<Rightarrow> bytes \<Rightarrow> u32 list \<Rightarrow> nat \<Rightarrow>
    (bytes \<times> bytes \<times> u32 list) option res" where
  "model_digest lm H tg base files name path prompt n =
     (case files path of None \<Rightarrow> Ok None
      | Some blob \<Rightarrow> (case run_file lm H tg base blob \<lparr>rq_model_id = name, rq_prompt_tokens = prompt, rq_n_new_tokens = n\<rparr> of
          Ok oc \<Rightarrow> Ok (Some (hex (cert_digest (oc_cert oc)), hex (cert_v1 H (oc_cert oc)), oc_generated_tokens oc))
        | Err _ \<Rightarrow> Ok None | Panic \<Rightarrow> Panic))"

definition matmul_pin :: "u64 res" where
  "matmul_pin =
     (let (a, b) = pin_vector 4 64 4 in
      obind (expect (obind (expect (shape_new [4, 64])) (tensor_from_f32 a))) (\<lambda>ta.
      obind (expect (obind (expect (shape_new [64, 4])) (tensor_from_f32 b))) (\<lambda>tb.
      obind (expect (matmul ta tb)) (\<lambda>out.
      case t_storage out of StCpu s \<Rightarrow> Ok (fnv1a_f32 (as_f32_slice s)) | StGpu _ \<Rightarrow> Panic))))"

text \<open>\<open>format!("{:#018x}", h)\<close>.\<close>

definition hex_u64 :: "u64 \<Rightarrow> bytes" where
  "hex_u64 h = str ''0x'' @ hex (rev (to_le_bytes64 h))"

definition anchor_prompt :: "u32 list" where
  "anchor_prompt = [1, 9038, 2501, 263, 931, 29892]"

definition anchor_models :: "(string \<times> string \<times> string) list" where
  "anchor_models = [(''tinyllama-1.1b-Q4_K_M'', ''VITNI_GGUF_TINYLLAMA'', ''tinyllama-Q4_K_M.gguf''),
     (''mistral-7b-Q4_K_M'', ''VITNI_GGUF_MISTRAL'', ''mistral-7b-v0.1.Q4_K_M.gguf''),
     (''qwen2.5-0.5b-Q4_K_M'', ''VITNI_GGUF_QWEN'', ''qwen2.5-0.5b-instruct-q4_k_m.gguf'')]"

definition model_line :: "bytes \<Rightarrow> (bytes \<times> bytes \<times> u32 list) option \<Rightarrow> bytes" where
  "model_line name d = str ''    '' @ quote name @ str '': '' @ (case d of
       Some (v2, v1, toks) \<Rightarrow> str ''{ '' @ quote (str ''model_digest'') @ str '': '' @ quote v2 @ str '', '' @ quote (str ''model_digest_v1'') @ str '': '' @ quote v1 @
         str '', '' @ quote (str ''tokens'') @ str '': ['' @ join (str '', '') (map (\<lambda>t. show_nat (unat t)) toks) @ str ''] }''
     | None \<Rightarrow> str ''null'')"

definition gen_anchors :: "libm \<Rightarrow> (bytes \<Rightarrow> bytes) \<Rightarrow> Target \<Rightarrow> nat \<Rightarrow> (bytes \<Rightarrow> bytes option) \<Rightarrow> (bytes \<Rightarrow> bytes option) \<Rightarrow> bytes res" where
  "gen_anchors lm H tg base files env =
     obind (omapM (\<lambda>(name, var, default).
       let path = (case env (str var) of Some p \<Rightarrow> p | None \<Rightarrow> str default) in
       omap (model_line (str name)) (model_digest lm H tg base files (str name) path anchor_prompt 20)) anchor_models) (\<lambda>models.
     obind matmul_pin (\<lambda>pin.
     Ok (str ''{'' @ [10] @ str ''  '' @ quote (str ''regime'') @ str '': '' @ quote REGIME @ str '','' @ [10] @
       str ''  '' @ quote (str ''prompt_tokens'') @ str '': ['' @ join (str '', '') (map (\<lambda>t. show_nat (unat t)) anchor_prompt) @ str ''],'' @ [10] @
       str ''  '' @ quote (str ''n_new_tokens'') @ str '': '' @ show_nat 20 @ str '','' @ [10] @
       str ''  '' @ quote (str ''pins'') @ str '': {'' @ [10] @ str ''    '' @ quote (str ''matmul_reduction'') @ str '': '' @ quote (hex_u64 pin) @ [10] @ str ''  },'' @ [10] @
       str ''  '' @ quote (str ''models'') @ str '': {'' @ [10] @ join (str '','' @ [10]) models @ [10] @ str ''  }'' @ [10] @ str ''}'' @ [10])))"

subsection \<open>Printed numbers and lists read back\<close>

definition decimal :: "u8 \<Rightarrow> bool" where
  "decimal d \<longleftrightarrow> 48 \<le> d \<and> d \<le> 57"

lemma digit_byte: "d < 10 \<Longrightarrow> (of_char (char_of (48 + d :: nat)) :: u8) = of_nat (48 + d)"
  using of_nat_of_char [of "char_of (48 + d :: nat)", where 'a = u8] by (simp only: of_char_digit)

lemma show_nat_rec: "show_nat n = (if n < 10 then [of_nat (48 + n)] else show_nat (n div 10) @ [of_nat (48 + n mod 10)])"
  by (subst show_nat_def, subst dec_digits.simps) (simp add: show_nat_def str_def digit_byte del: of_nat_add)

lemma show_nat_value: "foldl (\<lambda>v d. v * 10 + (unat d - 48)) 0 (show_nat n) = n \<and> list_all decimal (show_nat n) \<and> show_nat n \<noteq> []"
proof (induction n rule: less_induct)
  case (less n)
  have d: "unat (of_nat (48 + d) :: u8) = 48 + d" "decimal (of_nat (48 + d))" if "d < 10" for d
    using that by (auto simp: decimal_def word_le_nat_alt simp del: of_nat_add)
  show ?case
  proof (cases "n < 10")
    case True
    then show ?thesis using d by (subst (1 2 3) show_nat_rec) (simp del: of_nat_add)
  next
    case False
    then show ?thesis using less [of "n div 10"] d [of "n mod 10"] by (subst (1 2 3) show_nat_rec) (simp del: of_nat_add)
  qed
qed

lemma decimal_ascii: "list_all decimal s \<Longrightarrow> \<forall>b\<in>set s. b \<le> 0x7F"
  by (auto simp: list_all_iff decimal_def word_le_nat_alt)

lemma trim_decimal: "list_all decimal s \<Longrightarrow> trim s = s"
proof -
  assume d: "list_all decimal s"
  have w: "\<not> white [b]" if "decimal b" for b
    using that by (auto simp: white_def decimal_def word_le_nat_alt)
  have *: "dropWhile white (map (\<lambda>b. [b]) t) = map (\<lambda>b. [b]) t" if "list_all decimal t" for t
    using that w by (cases t) auto
  have "dropWhile white (rev (map (\<lambda>b. [b]) s)) = rev (map (\<lambda>b. [b]) s)" using * [of "rev s"] d by (simp add: rev_map)
  then show ?thesis using * [OF d] by (simp add: trim_def utf8_chars_ascii [OF decimal_ascii [OF d]])
qed

lemma parse_show: "n < 2 ^ w \<Longrightarrow> parse_uint w (show_nat n) = Some n"
proof -
  assume n: "n < 2 ^ w"
  note v = show_nat_value [of n]
  then obtain c cs where s: "show_nat n = c # cs" by (cases "show_nat n") auto
  then have "c \<noteq> 43" using v by (auto simp: decimal_def word_le_nat_alt)
  then show ?thesis using v n unfolding s by (simp add: parse_uint_def Let_def decimal_def [abs_def])
qed

lemma split_join: "ps \<noteq> [] \<Longrightarrow> \<forall>p\<in>set ps. sep \<notin> set p \<Longrightarrow> split_on sep (join [sep] ps) = ps"
proof (induction "[sep]" ps rule: join.induct)
  have one: "sep \<notin> set p \<Longrightarrow> split_on sep (p @ sep # r) = p # split_on sep r" for p r by (induction p) auto
  have all: "sep \<notin> set p \<Longrightarrow> split_on sep p = [p]" for p by (induction p) auto
  { case (2 p) then show ?case by (simp add: all) }
  { case (3 p q ps) then show ?case by (simp add: one) }
qed simp

lemma prompt_round_trip:
  assumes "ts \<noteq> []"
  shows "omapM (\<lambda>s. expect_some (parse_uint 32 (trim s))) (split_on 44 (join [44] (map (\<lambda>t :: u32. show_nat (unat t)) ts))) = Ok (map unat ts)"
proof -
  have "44 \<notin> set (show_nat n)" for n using show_nat_value [of n] by (auto simp: list_all_iff decimal_def word_le_nat_alt)
  then have "split_on 44 (join [44] (map (\<lambda>t. show_nat (unat t)) ts)) = map (\<lambda>t. show_nat (unat t)) ts" using assms by (intro split_join) auto
  moreover have "omapM (\<lambda>s. expect_some (parse_uint 32 (trim s))) (map (\<lambda>t :: u32. show_nat (unat t)) us) = Ok (map unat us)" for us
  proof (induction us)
    case (Cons u us)
    have "parse_uint 32 (show_nat (unat u)) = Some (unat u)" using unsigned_less [of u] by (intro parse_show) simp
    then show ?case using Cons show_nat_value [of "unat u"] by (simp add: trim_decimal expect_some_def)
  qed simp
  ultimately show ?thesis by simp
qed

subsection \<open>The address of the file\<close>

text \<open>
  The address is only looked at modulo four, and a model that loads at two addresses has the same
  remainder at both: its final norm is an aligned view.
\<close>

lemma f32_view_mod: "a mod 4 = b mod 4 \<Longrightarrow> f32_view a bs = f32_view b bs"
  by (simp add: f32_view_def)

lemma base_add: "a mod 4 = b mod 4 \<Longrightarrow> (a + n) mod 4 = (b + n) mod (4 :: nat)"
  by (metis mod_add_left_eq)

lemma load_model_mod:
  assumes "base mod 4 = base' mod 4"
  shows "load_model base = load_model base'"
proof -
  note view = f32_view_mod [OF base_add [OF assms]]
  have reads: "read_f32_tensor base = read_f32_tensor base'" "read_f32_tensor_opt base = read_f32_tensor_opt base'"
    unfolding read_f32_tensor_def [abs_def] read_f32_tensor_opt_def [abs_def] view by simp_all
  have load: "quantized_weights_from_gguf base = quantized_weights_from_gguf base'"
    unfolding quantized_weights_from_gguf_def [abs_def] load_layer_def [abs_def] reads by (rule refl)
  show ?thesis unfolding load_model_def [abs_def] load by (rule refl)
qed

lemma load_model_address:
  assumes "load_model base blob = Ok m" and "load_model base' blob = Ok m'"
  shows "base mod 4 = base' mod 4"
proof -
  have first: "\<exists>rf. read_f32_tensor b g (str ''output_norm.weight'') = Ok rf" if "quantized_weights_from_gguf b g cfg = Ok w" for b g cfg w
    using that by (cases "read_f32_tensor b g (str ''output_norm.weight'')") (simp_all add: quantized_weights_from_gguf_def outcome_simps)
  have norm: "\<exists>g t. gguf_parse blob = Ok g \<and> get_tensor g (str ''output_norm.weight'') = Ok t \<and> (b + gt_start t) mod 4 = 0"
    if "load_model b blob = Ok m" for b m
    using that by (auto simp: load_model_def read_f32_tensor_def f32_view_def outcome_simps split: if_splits dest!: first)
  have same: "x mod 4 = y mod 4" if "(x + n) mod 4 = 0" "(y + n) mod 4 = 0" for x y n :: nat
    using that by presburger
  obtain g t where g: "gguf_parse blob = Ok g" "get_tensor g (str ''output_norm.weight'') = Ok t" "(base + gt_start t) mod 4 = 0"
    using norm [OF assms(1)] by (elim exE conjE) (rule that)
  obtain g' t' where g': "gguf_parse blob = Ok g'" "get_tensor g' (str ''output_norm.weight'') = Ok t'" "(base' + gt_start t') mod 4 = 0"
    using norm [OF assms(2)] by (elim exE conjE) (rule that)
  have "g' = g" using g(1) g'(1) by simp
  then have "t' = t" using g(2) g'(2) by simp
  then show ?thesis using g'(3) by (intro same [OF g(3)]) simp
qed

lemma q_model_ok_mod: "base mod 4 = base' mod 4 \<Longrightarrow> q_model_ok base cfg w = q_model_ok base' cfg w"
proof -
  assume b: "base mod 4 = base' mod 4"
  have linear: "linear_ok base = linear_ok base'" unfolding linear_ok_def [abs_def] base_add [OF b] by (rule refl)
  show ?thesis unfolding q_model_ok_def layer_ok_def linear by (rule refl)
qed

lemma run_file_address:
  assumes "load_model base blob = Ok (cfg, w)" and "load_model base' blob = Ok m'" and "q_model_ok base cfg w"
    and "target_ok tg" and "target_ok tg'"
  shows "run_file lm H tg' base' blob req = run_file lm H tg base blob req"
proof -
  have b: "base mod 4 = base' mod 4" by (rule load_model_address [OF assms(1,2)])
  have "load_model base' blob = Ok (cfg, w)" using assms(1) by (simp only: load_model_mod [OF b])
  moreover have "q_step lm H tg' base' cfg w rs cur pos = q_step lm H tg base cfg w rs cur pos" for rs cur pos
    using assms(3) by (intro q_step_target [OF _ assms(3,5,4)]) (simp only: q_model_ok_mod [OF b])
  ultimately show ?thesis using assms(1) by (simp add: run_file_def run_quantized_eq)
qed

lemma run_file_oks:
  assumes "load_model base blob = Ok (cfg, w)" and "q_model_ok base cfg w" and "target_ok tg" and "vocab_ok cfg" and "request_ok cfg req"
  shows "oks (run_file lm H tg base blob req) (outcome_ok H cfg (H blob) req)"
proof -
  have M: "heads_ok cfg" "sizes_ok cfg" using assms(2) by (simp_all add: q_model_ok_def)
  show ?thesis using assms
    by (auto simp: run_file_def run_quantized_eq intro!: oks_bind [OF run_state_new_oks [OF M]] quantized.run_oks)
qed

subsection \<open>What a printed line determines\<close>

lemma hex_length: "length (hex b) = 2 * length b"
  by (induction b) (simp_all add: hex_def)

lemma hex_digit_inj: "d < 16 \<Longrightarrow> e < 16 \<Longrightarrow> hex_digit d = hex_digit e \<Longrightarrow> d = e"
  by (auto simp: hex_digit_def word_unat_eq_iff simp del: of_nat_add split: if_splits)

lemma hex_inj: "hex a = hex b \<Longrightarrow> a = b"
proof (induction a arbitrary: b)
  case Nil
  then show ?case by (cases b) (simp_all add: hex_def)
next
  case (Cons x a)
  then obtain y c where b: "b = y # c" by (cases b) (simp_all add: hex_def)
  have byte: "unat z div 16 < 16" "unat z mod 16 < 16" for z :: u8
  proof -
    have "unat z < 256" using unsigned_less [of z] by simp
    then show "unat z div 16 < 16" "unat z mod 16 < 16" by auto
  qed
  have "unat x div 16 = unat y div 16" "unat x mod 16 = unat y mod 16" "hex a = hex c"
    using Cons.prems b byte by (auto simp: hex_def intro: hex_digit_inj)
  then have "unat x = unat y" by (metis div_mult_mod_eq)
  then show ?case using Cons.IH \<open>hex a = hex c\<close> b by (simp add: word_unat_eq_iff)
qed

lemma receipt_line_inj:
  assumes "receipt_line d v wh ts = receipt_line d' v' wh' ts'" and "length d = length d'"
  shows "d = d'"
proof -
  have "hex d = hex d'" using assms by (simp add: receipt_line_def quote_def hex_length)
  then show ?thesis by (rule hex_inj)
qed

lemma run_file_OkD:
  assumes "load_model base blob = Ok (cfg, w)" and "run_file lm H tg base blob req = Ok oc"
  obtains rs g where "generate (\<lambda>cur pos rs. q_step lm H tg base cfg w rs cur pos) cfg req rs = Ok g"
    and "oc = run_outcome H cfg (H blob) req g"
  using assms by (auto simp: run_file_def run_quantized_eq outcome_simps)

lemma receipt_eq:
  assumes "receipt_request args = Ok (path, req)" and "files path = Some blob"
  shows "receipt lm H tg base files args = obind (expect (run_file lm H tg base blob req)) (\<lambda>oc.
    Ok (receipt_line (cert_digest (oc_cert oc)) (cert_v1 H (oc_cert oc)) (H blob) (oc_generated_tokens oc)))"
  using assms by (simp add: receipt_def expect_some_def)

lemma length_split_on: "length (split_on sep s) \<le> length s + 1"
proof (induction s)
  case (Cons b s)
  then show ?case by (cases "split_on sep s") auto
qed simp

lemma cli_arg_in: "cli_arg args flag = Some v \<Longrightarrow> v \<in> set args"
  by (induction args) (auto split: if_splits list.splits)

text \<open>A command line of arguments shorter than \<open>2^60\<close> bytes asks for a request of bounded fields.\<close>

lemma receipt_request_bounds:
  assumes "receipt_request args = Ok (path, req)" and "\<forall>a\<in>set args. length a < 2 ^ 60"
  shows "len_ok (rq_model_id req) \<and> length (rq_prompt_tokens req) * 4 < 2 ^ 63"
proof -
  obtain p ts where p: "cli_arg args ''--prompt'' = Some p" and ts: "omapM (\<lambda>s. expect_some (parse_uint 32 (trim s))) (split_on 44 p) = Ok ts"
    and req: "rq_prompt_tokens req = map of_nat ts" "rq_model_id req = (case cli_arg args ''--model-id'' of Some s \<Rightarrow> s | None \<Rightarrow> str ''vitni-receipt'')"
    using assms(1) by (auto simp: receipt_request_def outcome_simps expect_some_def split: if_splits option.splits)
  have "length (rq_prompt_tokens req) \<le> length p + 1" using omapM_length [OF ts] length_split_on [of 44 p] req(1) by simp
  moreover have "length p < 2 ^ 60" using cli_arg_in [OF p] assms(2) by blast
  moreover have "len_ok (rq_model_id req)"
    using req(2) assms(2) cli_arg_in [of args "''--model-id''"] by (fastforce simp: len_ok_def str_def split: option.splits)
  ultimately show ?thesis by simp
qed

lemma len_ok_hash: "length h = 32 \<Longrightarrow> len_ok h"
  by (simp add: len_ok_def)

text \<open>The command line of an anchor: the model's name is its identifier.\<close>

definition anchor_args :: "bytes \<Rightarrow> bytes \<Rightarrow> bytes \<Rightarrow> u32 list \<Rightarrow> nat \<Rightarrow> bytes list" where
  "anchor_args prog name path prompt n = [prog, str ''--gguf'', path, str ''--prompt'', join [44] (map (\<lambda>t. show_nat (unat t)) prompt),
     str ''--n'', show_nat n, str ''--model-id'', name]"

definition flags :: "bytes set" where
  "flags = {str ''--gguf'', str ''--prompt'', str ''--n'', str ''--model-id''}"

lemma utf8_ok_show: "utf8_ok (show_nat n)"
  using show_nat_value [of n] by (intro utf8_ok_ascii decimal_ascii) simp

lemma utf8_ok_join: "utf8_ok sep \<Longrightarrow> \<forall>p\<in>set ps. utf8_ok p \<Longrightarrow> utf8_ok (join sep ps)"
  by (induction sep ps rule: join.induct) (simp_all add: utf8_ok_append)

lemma join_set: "set (join sep ps) \<subseteq> set sep \<union> (\<Union>p\<in>set ps. set p)"
  by (induction sep ps rule: join.induct) auto

lemma not_flag: "45 \<notin> set s \<Longrightarrow> f \<in> flags \<Longrightarrow> s \<noteq> f"
  by (auto simp: flags_def str_def)

lemma anchor_request:
  assumes "utf8_ok prog" and "utf8_ok path" and "utf8_ok name" and "prog \<notin> flags" and "path \<notin> flags" and "prompt \<noteq> []" and "n < 2 ^ 64"
  shows "receipt_request (anchor_args prog name path prompt n) = Ok (path, \<lparr>rq_model_id = name, rq_prompt_tokens = prompt, rq_n_new_tokens = n\<rparr>)"
proof -
  let ?p = "join [44] (map (\<lambda>t. show_nat (unat t)) prompt)"
  have digits: "45 \<notin> set (show_nat m)" for m using show_nat_value [of m] by (auto simp: list_all_iff decimal_def word_le_nat_alt)
  have "45 \<notin> set ?p"
  proof
    assume "45 \<in> set ?p"
    then obtain q where "q \<in> set (map (\<lambda>t. show_nat (unat t)) prompt)" "45 \<in> set q"
      using join_set [of "[44]" "map (\<lambda>t. show_nat (unat t)) prompt"] by (auto simp del: set_map)
    then show False using digits by auto
  qed
  then have plain: "?p \<notin> flags" "show_nat n \<notin> flags" using not_flag digits by blast+
  have utf8: "list_all utf8_ok (anchor_args prog name path prompt n)"
    using assms(1-3) by (auto simp: anchor_args_def utf8_ok_show utf8_ok_ascii str_def intro!: utf8_ok_join)
  have args: "cli_arg (anchor_args prog name path prompt n) ''--gguf'' = Some path"
    "cli_arg (anchor_args prog name path prompt n) ''--prompt'' = Some ?p"
    "cli_arg (anchor_args prog name path prompt n) ''--n'' = Some (show_nat n)"
    "cli_arg (anchor_args prog name path prompt n) ''--model-id'' = Some name"
    using assms(4,5) plain by (simp_all add: anchor_args_def flags_def str_inj)
  show ?thesis
    using prompt_round_trip [OF assms(6)] parse_show [OF assms(7)] utf8 by (simp add: receipt_request_def args expect_some_def comp_def)
qed

subsection \<open>A small model file\<close>

text \<open>A file with no layers, an embedding of two tokens and its norm, and a hash that looks at the first byte and the sum.\<close>

definition file_kvs :: "(bytes \<times> GgufValue) list" where
  "file_kvs = [(str ''general.architecture'', GvString (str ''llama'')), (str ''llama.embedding_length'', GvU32 2),
     (str ''llama.feed_forward_length'', GvU32 2), (str ''llama.block_count'', GvU32 0), (str ''llama.attention.head_count'', GvU32 1),
     (str ''llama.context_length'', GvU32 8), (str ''llama.vocab_size'', GvU32 2)]"

definition file_infos :: "tensor_info list" where
  "file_infos = [(str ''token_embd.weight'', [2, 2], GT_F32, 0), (str ''output_norm.weight'', [2], GT_F32, 32)]"

definition file_blob :: bytes where
  "file_blob = gguf_encode 3 file_kvs file_infos (replicate 40 1)"

definition file_cfg :: Config where
  "file_cfg = \<lparr>c_dim = 2, c_hidden_dim = 2, c_n_layers = 0, c_n_heads = 1, c_n_kv_heads = 1, c_vocab_size = 2, c_seq_len = 8, c_shared_weights = True\<rparr>"

definition tag_hash :: "bytes \<Rightarrow> bytes" where
  "tag_hash x = (if x = [] then 0 else hd x) # sum_list x # replicate 30 0"

definition disk :: "bytes \<Rightarrow> bytes option" where
  "disk path = (if path = str ''m.gguf'' then Some file_blob else None)"

definition demo_args :: "u32 \<Rightarrow> bytes list" where
  "demo_args t = anchor_args (str ''receipt'') (str ''m'') (str ''m.gguf'') [t] 0"

lemma file_ok:
  "list_all (\<lambda>(k, v). string_ok k \<and> value_ok v) file_kvs" "list_all info_ok file_infos"
  "list_all (info_fits (replicate 40 1)) file_infos" "alignment_of (insert_all Map.empty file_kvs) = 32"
  by (simp_all add: file_kvs_def file_infos_def str_def string_ok_ascii tensor_type_from_u32_def
      checked_numel_def usize_mul_def usize_max_def alignment_of_def insert_all_def DEFAULT_ALIGNMENT_def)

lemma file_length: "length file_blob \<le> usize_max"
proof -
  let ?h = "gguf_head 3 file_kvs file_infos"
  have "length ?h \<le> 1000"
    by (simp add: gguf_head_def file_kvs_def file_infos_def enc_kv_def enc_string_def GGUF_MAGIC_def str_def)
  moreover have "align_up 32 (length ?h) \<le> length ?h + 32" by (rule align_up_le) simp
  ultimately show ?thesis by (simp add: file_blob_def gguf_encode_def Let_def file_ok usize_max_def)
qed

definition file_gguf :: GgufFile where
  "file_gguf = \<lparr>gf_version = 3, gf_metadata = insert_all Map.empty file_kvs,
     gf_tensors = map (info_tensor (gguf_base 3 file_kvs file_infos) (replicate 40 1)) file_infos,
     gf_by_name = insert_all Map.empty (zip (map fst file_infos) [0..<length file_infos])\<rparr>"

lemma file_parse: "gguf_parse file_blob = Ok file_gguf"
  unfolding file_blob_def file_gguf_def
  by (rule gguf_parse_encode) (use file_length in \<open>simp_all add: file_ok file_blob_def SUPPORTED_VERSIONS_def\<close>)

lemma file_base: "gguf_base 3 file_kvs file_infos mod 4 = 0"
  by (simp add: gguf_base_def file_ok align_up_def flip: mod_mult_right_eq)

lemma file_metadata:
  "gf_metadata file_gguf (str ''general.architecture'') = Some (GvString (str ''llama''))"
  "gf_metadata file_gguf (str ''llama.embedding_length'') = Some (GvU32 2)"
  "gf_metadata file_gguf (str ''llama.feed_forward_length'') = Some (GvU32 2)"
  "gf_metadata file_gguf (str ''llama.block_count'') = Some (GvU32 0)"
  "gf_metadata file_gguf (str ''llama.attention.head_count'') = Some (GvU32 1)"
  "gf_metadata file_gguf (str ''llama.attention.head_count_kv'') = None"
  "gf_metadata file_gguf (str ''llama.context_length'') = Some (GvU32 8)"
  "gf_metadata file_gguf (str ''llama.vocab_size'') = Some (GvU32 2)"
  "gf_metadata file_gguf (str ''tokenizer.ggml.tokens'') = None"
  by (simp_all add: file_gguf_def file_kvs_def insert_all_def str_inj)

lemma arch_key_str: "arch_key (str a) s = str (a @ ''.'' @ s)"
  by (simp add: arch_key_def str_def)

lemma file_tensors:
  "gf_tensor file_gguf (str ''output.weight'') = Ok None"
  "\<exists>t. gf_tensor file_gguf (str ''token_embd.weight'') = Ok (Some t) \<and> gt_dtype t = GT_F32 \<and> gt_start t mod 4 = 0 \<and> length (gt_bytes t) = 16"
  "\<exists>t. gf_tensor file_gguf (str ''output_norm.weight'') = Ok (Some t) \<and> gt_dtype t = GT_F32 \<and> gt_start t mod 4 = 0 \<and> length (gt_bytes t) = 8"
  using file_base by (auto simp: file_gguf_def file_infos_def gf_tensor_def insert_all_def str_inj mod_Suc_eq slice_def
      checked_numel_def usize_mul_def usize_max_def)

lemma file_config: "config_from_gguf file_gguf = Ok file_cfg"
  by (simp add: config_from_gguf_def metadata_str_def read_u32_loose_def unwrap_or_def arch_key_str file_metadata file_tensors file_cfg_def)

lemma file_model:
  assumes "base mod 4 = 0"
  obtains w where "load_model base file_blob = Ok (file_cfg, w)" and "q_model_ok base file_cfg w"
proof -
  obtain te where te: "gf_tensor file_gguf (str ''token_embd.weight'') = Ok (Some te)" "gt_dtype te = GT_F32" "gt_start te mod 4 = 0" "length (gt_bytes te) = 16"
    using file_tensors(2) by (elim exE conjE) (rule that)
  obtain rf where rf: "gf_tensor file_gguf (str ''output_norm.weight'') = Ok (Some rf)" "gt_dtype rf = GT_F32" "gt_start rf mod 4 = 0" "length (gt_bytes rf) = 8"
    using file_tensors(3) by (elim exE conjE) (rule that)
  have al: "(base + gt_start te) mod 4 = 0" "(base + gt_start rf) mod 4 = 0" using assms te(3) rf(3) by presburger+
  define w where "w = \<lparr>q_token_embedding_table = quant_tensor_from te, q_layers = [], q_rms_final_weight = words_of (gt_bytes rf), q_wcls = None,
    q_rope_theta = read_f32_meta file_gguf (arch_key (str ''llama'') ''rope.freq_base'') f32_10000,
    q_rms_eps = read_f32_meta file_gguf (arch_key (str ''llama'') ''attention.layer_norm_rms_epsilon'') f32_1e_5, q_rope_neox = False\<rparr>"
  have "quantized_weights_from_gguf base file_gguf file_cfg = Ok w"
    using te rf al by (simp add: quantized_weights_from_gguf_def get_tensor_def read_f32_tensor_def f32_view_def file_tensors
        file_cfg_def metadata_str_def file_metadata str_inj w_def Let_def)
  moreover have "q_model_ok base file_cfg w"
    using te rf al by (simp add: q_model_ok_def heads_ok_def sizes_ok_def linear_ok_def cache_size_def kvd_of_def hs_of_def
        file_cfg_def w_def quant_tensor_from_def words_of_def usize_max_def Let_def)
  ultimately show thesis using that by (simp add: load_model_def file_parse file_config)
qed

lemma demo_args_request: "receipt_request (demo_args t) = Ok (str ''m.gguf'', \<lparr>rq_model_id = str ''m'', rq_prompt_tokens = [t], rq_n_new_tokens = 0\<rparr>)"
  unfolding demo_args_def
  by (rule anchor_request) (simp_all add: utf8_ok_ascii flags_def str_def)

subsection \<open>Properties\<close>



text \<open>
  C39: A printed line binds the run: if two runs, of any builds and command lines, print the
  same line, then they read the same file and were given the same model name, prompt and count, and
  ended with the same tokens and certificate. This holds for every hash with outputs of 32 bytes that
  separates the strings the two runs hash: the files, the architecture strings and the preimages.
\<close>

theorem receipt_binds:
  assumes "receipt_request args = Ok (path, req)" and "receipt_request args' = Ok (path', req')"
    and "\<forall>a\<in>set args \<union> set args'. length a < 2 ^ 60" and "files path = Some blob" and "files' path' = Some blob'"
    and "load_model base blob = Ok (cfg, w)" and "load_model base' blob' = Ok (cfg', w')"
    and "run_file lm H tg base blob req = Ok oc" and "run_file lm' H tg' base' blob' req' = Ok oc'"
    and "\<forall>x. length (H x) = 32"
    and "inj_on H {blob, blob', arch_string cfg, arch_string cfg',
      preimage_v2 REGIME (run_sections H cfg (H blob) req (oc_generated_tokens oc)),
      preimage_v2 REGIME (run_sections H cfg' (H blob') req' (oc_generated_tokens oc'))}"
    and "receipt lm H tg base files args = receipt lm' H tg' base' files' args'"
  shows "blob = blob' \<and> req = req' \<and> oc = oc'"
proof -
  obtain rs g where g: "generate (\<lambda>cur pos rs. q_step lm H tg base cfg w rs cur pos) cfg req rs = Ok g" and oc: "oc = run_outcome H cfg (H blob) req g"
    by (rule run_file_OkD [OF assms(6,8)])
  obtain rs' g' where g': "generate (\<lambda>cur pos rs. q_step lm' H tg' base' cfg' w' rs cur pos) cfg' req' rs' = Ok g'" and oc': "oc' = run_outcome H cfg' (H blob') req' g'"
    by (rule run_file_OkD [OF assms(7,9)])
  have "len_ok (rq_model_id req) \<and> length (rq_prompt_tokens req) * 4 < 2 ^ 63" "len_ok (rq_model_id req') \<and> length (rq_prompt_tokens req') * 4 < 2 ^ 63"
    using assms(3) by (intro receipt_request_bounds [OF assms(1)] receipt_request_bounds [OF assms(2)]; simp)+
  then have ok: "bound_fields_ok H cfg (H blob) req g" "bound_fields_ok H cfg' (H blob') req' g'"
    using assms(10) by (simp_all add: bound_fields_ok_def len_ok_hash)
  note inj = assms(11) [unfolded oc oc' run_outcome_simps(1)]
  have "cert_digest (oc_cert oc) = cert_digest (oc_cert oc')"
  proof (rule receipt_line_inj)
    show "receipt_line (cert_digest (oc_cert oc)) (cert_v1 H (oc_cert oc)) (H blob) (oc_generated_tokens oc)
        = receipt_line (cert_digest (oc_cert oc')) (cert_v1 H (oc_cert oc')) (H blob') (oc_generated_tokens oc')"
      using assms(12) by (simp add: receipt_eq [where files = files, OF assms(1,4)] receipt_eq [where files = files', OF assms(2,5)] assms(8,9))
    show "length (cert_digest (oc_cert oc)) = length (cert_digest (oc_cert oc'))"
      using assms(10) by (simp add: oc oc' run_outcome_simps)
  qed
  from run_outcome_binds [OF g g' ok inj_on_subset [OF inj] this [unfolded oc oc']] oc oc'
  have "H blob = H blob'" "req = req'" "oc = oc'" by auto
  moreover have "blob = blob'" by (rule inj_onD [OF inj]) (use \<open>H blob = H blob'\<close> in simp_all)
  ultimately show ?thesis by blast
qed

definition demo_preimage :: "u32 \<Rightarrow> bytes" where
  "demo_preimage t = preimage_v2 REGIME (run_sections tag_hash file_cfg (tag_hash file_blob) \<lparr>rq_model_id = str ''m'', rq_prompt_tokens = [t], rq_n_new_tokens = 0\<rparr> [])"

lemma tag_hash_length: "length (tag_hash x) = 32"
  by (simp add: tag_hash_def)

lemma demo_separated: "inj_on tag_hash {file_blob, arch_string file_cfg, demo_preimage 0, demo_preimage 1}"
proof -
  have first: "hd file_blob = 71 \<and> file_blob \<noteq> []" "hd (arch_string file_cfg) = 108 \<and> arch_string file_cfg \<noteq> []" "hd (demo_preimage t) = 118 \<and> demo_preimage t \<noteq> []" for t
    by (simp_all add: file_blob_def gguf_encode_def gguf_head_def GGUF_MAGIC_def arch_string_def arch_text_def demo_preimage_def preimage_v2_def
        DOMAIN_V2_def str_def Let_def)
  have bytes: "sum_list (to_le_bytes32 1) = sum_list (to_le_bytes32 0) + 1" by code_simp
  have "sum_list (demo_preimage 1) = sum_list (demo_preimage 0) + 1"
    by (simp add: demo_preimage_def preimage_v2_def write_sections_def write_counted_def write_field_def run_sections_def builder_sections_def
        bind_outputs_def bind_request_def builder_new_def declare_input_def declare_output_def u32_bytes_eq bytes Let_def add.assoc)
  then show ?thesis using first by (auto simp: inj_on_def tag_hash_def)
qed

lemma demo_run_file:
  assumes "base mod 4 = 0" and "target_ok tg" and "unat t < 2"
  obtains oc where "run_file id_libm tag_hash tg base file_blob \<lparr>rq_model_id = str ''m'', rq_prompt_tokens = [t], rq_n_new_tokens = 0\<rparr> = Ok oc"
    and "oc_generated_tokens oc = []"
proof -
  let ?r = "\<lparr>rq_model_id = str ''m'', rq_prompt_tokens = [t], rq_n_new_tokens = 0\<rparr>"
  obtain w where w: "load_model base file_blob = Ok (file_cfg, w)" "q_model_ok base file_cfg w" using assms(1) by (rule file_model)
  have "vocab_ok file_cfg" "request_ok file_cfg ?r" using assms(3) by (simp_all add: vocab_ok_def request_ok_def file_cfg_def usize_max_def)
  then show thesis using run_file_oks [OF w assms(2), of ?r id_libm tag_hash] that by (auto simp: oks_def outcome_ok_def)
qed

theorem receipt_binds_witness:
  "receipt id_libm tag_hash serial_target 0 disk (demo_args 0) \<noteq> receipt id_libm tag_hash pool_target 64 disk (demo_args 1)"
proof
  assume eq: "receipt id_libm tag_hash serial_target 0 disk (demo_args 0) = receipt id_libm tag_hash pool_target 64 disk (demo_args 1)"
  let ?r = "\<lambda>t. \<lparr>rq_model_id = str ''m'', rq_prompt_tokens = [t], rq_n_new_tokens = 0\<rparr>"
  obtain w where w: "load_model 0 file_blob = Ok (file_cfg, w)" by (rule file_model [of 0]) simp_all
  obtain w' where w': "load_model 64 file_blob = Ok (file_cfg, w')" by (rule file_model [of 64]) simp_all
  obtain oc where oc: "run_file id_libm tag_hash serial_target 0 file_blob (?r 0) = Ok oc" "oc_generated_tokens oc = []"
    by (rule demo_run_file [where base = 0 and t = 0, OF _ tiny_targets(1)]) (simp, simp, rule that)
  obtain oc' where oc': "run_file id_libm tag_hash pool_target 64 file_blob (?r 1) = Ok oc'" "oc_generated_tokens oc' = []"
    by (rule demo_run_file [where base = 64 and t = 1, OF _ tiny_targets(2)]) (simp, simp, rule that)
  have short: "\<forall>a\<in>set (demo_args 0) \<union> set (demo_args 1). length a < 2 ^ 60"
    by (simp add: demo_args_def anchor_args_def str_def show_nat_rec [of 0] show_nat_rec [of "Suc 0"])
  have on_disk: "disk (str ''m.gguf'') = Some file_blob" by (simp add: disk_def)
  have "inj_on tag_hash {file_blob, file_blob, arch_string file_cfg, arch_string file_cfg,
      preimage_v2 REGIME (run_sections tag_hash file_cfg (tag_hash file_blob) (?r 0) (oc_generated_tokens oc)),
      preimage_v2 REGIME (run_sections tag_hash file_cfg (tag_hash file_blob) (?r 1) (oc_generated_tokens oc'))}"
    using demo_separated by (simp add: demo_preimage_def oc(2) oc'(2) insert_commute)
  from receipt_binds [where files = disk and files' = disk, OF demo_args_request demo_args_request short on_disk on_disk w w' oc(1) oc'(1) _ this eq]
  show False by (simp add: tag_hash_length)
qed

text \<open>
  C40: An anchor is the receipt of the command line that names its model: what the anchors'
  program records for a model is what the receipt's program prints when it is given the file, the prompt and
  the count as text, and where it records nothing the other panics. Numbers and lists of numbers read back
  as they are printed.
\<close>

theorem anchor_is_receipt:
  assumes "utf8_ok prog" and "utf8_ok path" and "utf8_ok name" and "prog \<notin> flags" and "path \<notin> flags" and "prompt \<noteq> []" and "n < 2 ^ 64"
  shows "case model_digest lm H tg base files name path prompt n of
      Ok (Some (v2, v1, toks)) \<Rightarrow> \<exists>d d1 blob. files path = Some blob \<and> v2 = hex d \<and> v1 = hex d1 \<and>
        receipt lm H tg base files (anchor_args prog name path prompt n) = Ok (receipt_line d d1 (H blob) toks)
    | _ \<Rightarrow> receipt lm H tg base files (anchor_args prog name path prompt n) = Panic"
proof (cases "files path")
  case None
  then show ?thesis by (simp add: model_digest_def receipt_def anchor_request [OF assms] expect_some_def)
next
  case (Some blob)
  let ?req = "\<lparr>rq_model_id = name, rq_prompt_tokens = prompt, rq_n_new_tokens = n\<rparr>"
  note receipt = receipt_eq [where files = files, OF anchor_request [OF assms] Some]
  show ?thesis
    by (cases "run_file lm H tg base blob ?req") (use Some in \<open>auto simp: model_digest_def receipt\<close>)
qed

theorem anchor_is_receipt_witness:
  "\<exists>d d1. model_digest id_libm tag_hash serial_target 0 disk (str ''m'') (str ''m.gguf'') [1] 0 = Ok (Some (hex d, hex d1, [])) \<and>
     receipt id_libm tag_hash serial_target 0 disk (demo_args 1) = Ok (receipt_line d d1 (tag_hash file_blob) [])"
proof -
  let ?r = "\<lparr>rq_model_id = str ''m'', rq_prompt_tokens = [1], rq_n_new_tokens = 0\<rparr>"
  have on_disk: "disk (str ''m.gguf'') = Some file_blob" by (simp add: disk_def)
  obtain oc where oc: "run_file id_libm tag_hash serial_target 0 file_blob ?r = Ok oc" "oc_generated_tokens oc = []"
    by (rule demo_run_file [where base = 0 and t = 1, OF _ tiny_targets(1)]) (simp, simp, rule that)
  then have digest: "model_digest id_libm tag_hash serial_target 0 disk (str ''m'') (str ''m.gguf'') [1] 0
      = Ok (Some (hex (cert_digest (oc_cert oc)), hex (cert_v1 tag_hash (oc_cert oc)), []))"
    by (simp add: model_digest_def on_disk)
  have "case model_digest id_libm tag_hash serial_target 0 disk (str ''m'') (str ''m.gguf'') [1] 0 of
      Ok (Some (v2, v1, toks)) \<Rightarrow> \<exists>d d1 blob. disk (str ''m.gguf'') = Some blob \<and> v2 = hex d \<and> v1 = hex d1 \<and>
        receipt id_libm tag_hash serial_target 0 disk (demo_args 1) = Ok (receipt_line d d1 (tag_hash blob) toks)
    | _ \<Rightarrow> receipt id_libm tag_hash serial_target 0 disk (demo_args 1) = Panic"
    unfolding demo_args_def by (rule anchor_is_receipt) (simp_all add: utf8_ok_ascii flags_def str_def)
  then show ?thesis unfolding digest by (auto simp: on_disk)
qed

end
