(* ===== verification/Spec2Isabelle.thy ===== *)
theory Spec2Isabelle
  imports Prelude F32 Shape Tensor Half Quant Reduction Fused IntDot Linear Ops Utf8 Gguf Config QuantWeights Cert Accel Forward DecodeOk ForwardQ ForwardQOk Inference TokenBase Llama2c GgufSpm GgufBpe GpuHost Cuda Metal StepParts MetalKernels MetalOps MetalParts MetalOk Receipt
begin

text \<open>
  Verification of the tensor crate: deterministic inference of quantised language models with
  certificates of each run. Sources are under \<open>src/src\<close> unless a longer path is given.

  The program. A model file (GGUF, or the llama2.c blob) is parsed into tensors that are slices of the
  file; a configuration and weight views are derived from it. A tokenizer, loaded from its own file or
  from the same GGUF, turns a prompt into token ids. The inference driver feeds the ids one by one (or
  in a batched prefill) through a forward pass, which reads and writes a key/value cache and is built
  from the tensor operations and the quantised kernels; it picks the largest logit at each new position
  and binds configuration, weights, prompt and outcome in a certificate, whose digest is the hash of a
  canonical encoding. An accelerator may stand in for the processor in the dense passes, recorders and
  interventions may observe and override the quantised pass, and sinks receive the fields of the
  certificate.

  Theories, in order of dependency, and the files they model.

    \<^item> \<open>Prelude\<close>: machine types, the errors of \<open>error.rs\<close>, outcomes (a value, an error, a panic), slices
      and indexing with their panics, loops over ranges, \<open>usize\<close> arithmetic, little-endian layouts.
    \<^item> \<open>F32\<close>: IEEE single arithmetic on bit patterns, rounding to nearest even, conversions.
    \<^item> \<open>Shape\<close>, \<open>Tensor\<close>: \<open>dtype.rs\<close>, \<open>shape.rs\<close>, \<open>device.rs\<close>; \<open>storage.rs\<close>, \<open>tensor.rs\<close>.
    \<^item> \<open>Half\<close>, \<open>Quant\<close>, \<open>Reduction\<close>, \<open>Fused\<close>, \<open>IntDot\<close>, \<open>Linear\<close>: \<open>ops/quant.rs\<close>, in its order: half floats,
      block formats, the canonical reduction, the fused kernels, the integer kernels with the NEON
      variant, the linear layers (reference, fused, integer, parallel).
    \<^item> \<open>Ops\<close>: the other files of \<open>ops\<close> (element-wise, argmax, embedding, softmax, norm, rope, matmul).
    \<^item> \<open>Utf8\<close>: well-formed strings and their characters, as in the standard library.
    \<^item> \<open>Gguf\<close>, \<open>Config\<close>, \<open>QuantWeights\<close>: \<open>model/gguf.rs\<close>; \<open>model/config.rs\<close>, \<open>model/mod.rs\<close>, \<open>model/weights.rs\<close>;
      \<open>model/quant_weights.rs\<close>.
    \<^item> \<open>Cert\<close>: \<open>cert/builder.rs\<close>, \<open>cert/sink.rs\<close>.
    \<^item> \<open>Accel\<close>, \<open>Forward\<close>, \<open>DecodeOk\<close>: \<open>accel/mod.rs\<close>; \<open>model/forward.rs\<close> and \<open>model/gemma.rs\<close>; their total
      correctness.
    \<^item> \<open>ForwardQ\<close>, \<open>ForwardQOk\<close>: \<open>model/forward_quantized.rs\<close> and its properties.
    \<^item> \<open>Inference\<close>: \<open>model/inference.rs\<close>.
    \<^item> \<open>TokenBase\<close>, \<open>Llama2c\<close>, \<open>GgufSpm\<close>, \<open>GgufBpe\<close>: \<open>tokenizer\<close>.
    \<^item> \<open>GpuHost\<close>, \<open>Cuda\<close>, \<open>Metal\<close>: what the host side of the GPU backends shares; \<open>src/cuda/src/lib.rs\<close>;
      \<open>src/metal/src/lib.rs\<close>, the buffers of a loaded model and the command list of a step as data.
    \<^item> \<open>StepParts\<close>, \<open>MetalKernels\<close>, \<open>MetalOps\<close>, \<open>MetalParts\<close>, \<open>MetalOk\<close>: the quantised step taken apart into what a
      device dispatches; what the Metal kernels promise; what the commands of an operation, of the parts
      of a layer, and of a whole step leave in the buffers, so that a run on Metal ends as on the
      processor.
    \<^item> \<open>Conformance\<close>: the reference computations of \<open>src/kernels/conformance-metal/src/main.rs\<close> and
      \<open>src/kernels/conformance-forward/src\<close>, with which the output of the kernels is compared.
    \<^item> \<open>Receipt\<close>: \<open>bin/vitni-receipt.rs\<close> and \<open>bin/gen-anchors.rs\<close>: from a command line and a file to the printed
      digests, with the printed numbers read back and the line as a binding of the run.
  This theory adds what spans components: tokenizers loaded from a parsed file, and a run from text to
  text.

  Interfaces. \<open>block_format\<close> (a block decoder gives the decoder of a tensor), \<open>row_kernel\<close> (a row kernel
  gives the serial and the parallel linear layer), \<open>reader\<close> and \<open>codec\<close> (a cursor reader stays in bounds;
  it reads back what an encoder wrote), \<open>prefix_code\<close> (an encoding can be cut off the front of a string),
  \<open>conforming\<close> (an accelerator whose operations agree with the processor's), \<open>forward_pass\<close> (what the
  driver needs of a decode step) and \<open>merger\<close> (what the greedy merge loop needs of the choice of a
  merge), \<open>gpu_forward\<close> (a device that
  follows the processor gives the same tokens and certificate) and \<open>metal_device\<close> (the kernels keep
  their promises). Each is interpreted on the definitions of the model that provide it.

  Lemma groups. For each operation: its value on every branch, errors and panics included; \<open>oks m P\<close> says
  that \<open>m\<close> returns a value with \<open>P\<close>, and is what the properties of a component are chained with. Invariants
  (\<open>model_ok\<close>, \<open>q_model_ok\<close>, \<open>state_ok\<close>, \<open>cur_ok\<close>, \<open>sp_ok\<close>, ...) are established by the constructors and kept
  by every step. Equivalences relate optimised routines to their definitions bit for bit; refinements
  relate layers to the layer below; round trips relate encoders and parsers.

  Conventions. \<open>usize\<close> is \<open>nat\<close> below \<open>2 ^ 64\<close>: sums and products that the code leaves unchecked wrap
  around (\<open>wrap_add\<close>, \<open>wrap_mul\<close>), as in a release build, and the checked ones return errors. All other
  integers are words of their width. A float is its bit pattern; a result that is not a number is the
  canonical quiet one, whose payload the code never inspects. An operation that fails leaves no state:
  the callers drop it. An allocation fails only by asking for more than \<open>isize::MAX\<close> bytes. Loops are
  folds over index ranges or functions with a termination proof; the only fuel is that of \<open>f16_normalize\<close>,
  eleven, one more than the shifts a subnormal half can need.

  Parameters, code not in the repository: the hash function \<open>H\<close> (BLAKE3), the mathematical functions of
  \<open>libm\<close>, the schedule of the parallel iterator (any permutation of the rows), the address at which the
  model file is mapped, the build target, the functions of the CUDA device behind the foreign
  interface (\<open>CudaDevice\<close>, with \<open>cuda_contract\<close> as what they promise: the bit-exactness that their file
  documents), the presence of a Metal device, its compiler and what a compute kernel does to memory when
  it is dispatched (\<open>MetalDevice\<close>, with \<open>metal_contract\<close> as the documented promise, kernel by kernel and
  only where a kernel's accesses are inside its buffers and its fixed arrays), the environment, the file system and
  the arguments of a program. The address of a file is only looked at modulo four, and a receipt does not
  depend on it.

  Not modelled: the device code of the GPU backends (CUDA C++ and Metal shaders, which are
  not Rust); in the kernel conformance programs the running of the device, the sweeps over shapes and
  the reports; the benchmark programs of the backends, examples, fuzz targets and integration
  tests, which only call the library, and the unit tests inside the modelled files; \<open>Display\<close> and \<open>Debug\<close>
  texts of errors; the accelerator trait objects' dynamic dispatch beyond the calls themselves.
\<close>

subsection \<open>A file with a vocabulary\<close>

definition tokens_array :: "bytes list \<Rightarrow> GgufArray" where
  "tokens_array ss = \<lparr>ga_elem_type = STRING, ga_len = of_nat (length ss), ga_data = enc_strs ss\<rparr>"

definition scores_array :: "f32 list \<Rightarrow> GgufArray" where
  "scores_array xs = \<lparr>ga_elem_type = FLOAT32, ga_len = of_nat (length xs), ga_data = concat (map to_le_bytes32 xs)\<rparr>"

definition vocab_kvs :: "(bytes \<times> GgufValue) list" where
  "vocab_kvs = [(str ''tokenizer.ggml.tokens'', GvArray (tokens_array [str ''a'', str ''b''])),
     (str ''tokenizer.ggml.scores'', GvArray (scores_array [0, 0])),
     (str ''tokenizer.ggml.merges'', GvArray (tokens_array [str ''a b'']))]"

lemma vocab_kvs_ok: "list_all (\<lambda>(k, v). string_ok k \<and> value_ok v) vocab_kvs"
proof -
  have "array_ok (tokens_array ss)" if "length ss < 2 ^ 64" "list_all (\<lambda>s. length s \<le> usize_max) ss" for ss
    unfolding array_ok_def tokens_array_def using that by (auto simp: enc_strs_def unat_of_nat intro!: exI [of _ ss])
  moreover have "array_ok (scores_array [0, 0])" by (simp add: array_ok_def scores_array_def)
  ultimately show ?thesis by (simp add: vocab_kvs_def string_ok_ascii str_def usize_max_def)
qed

lemma vocab_file:
  "\<exists>g. gguf_parse (gguf_encode 3 vocab_kvs [] []) = Ok g \<and> gf_metadata g = insert_all Map.empty vocab_kvs"
  "length (gguf_encode 3 vocab_kvs [] []) < 2 ^ 61"
proof -
  let ?h = "gguf_head 3 vocab_kvs []"
  have al: "alignment_of (insert_all Map.empty vocab_kvs) = 32"
    by (simp add: vocab_kvs_def alignment_of_def insert_all_def DEFAULT_ALIGNMENT_def str_def)
  have "length ?h \<le> 1000"
    by (simp add: gguf_head_def vocab_kvs_def tokens_array_def scores_array_def enc_array_def enc_strs_def enc_kv_def enc_string_def GGUF_MAGIC_def str_def)
  moreover have "align_up 32 (length ?h) \<le> length ?h + 32" by (rule align_up_le) simp
  ultimately show len: "length (gguf_encode 3 vocab_kvs [] []) < 2 ^ 61" by (simp add: gguf_encode_def Let_def al)
  show "\<exists>g. gguf_parse (gguf_encode 3 vocab_kvs [] []) = Ok g \<and> gf_metadata g = insert_all Map.empty vocab_kvs"
    using len gguf_parse_encode [of 3 vocab_kvs "[]" "[]"] by (simp add: vocab_kvs_ok al SUPPORTED_VERSIONS_def usize_max_def)
qed

subsection \<open>Properties that span components\<close>

text \<open>
  C32: loading either tokenizer from a parsed file ends with a tokenizer or an error, never a panic.
  The vocabulary is exactly the string array of the file, and the tokenizer is well formed, so the
  round trips of the two tokenizers apply to it.
\<close>

theorem gguf_tokenizer_load:
  assumes "gguf_parse blob = Ok g" and "length blob < 2 ^ 61"
  shows "sp_from_gguf g \<noteq> Panic \<and> bp_from_gguf g \<noteq> Panic \<and>
    (sp_from_gguf g = Ok S \<longrightarrow> (\<exists>a. gf_metadata g (str ''tokenizer.ggml.tokens'') = Some (GvArray a) \<and> ga_data a = enc_strs (sp_vocab S)) \<and>
       (length (sp_vocab S) \<le> 2 ^ 32 \<longrightarrow> sp_ok S)) \<and>
    (bp_from_gguf g = Ok B \<longrightarrow> (\<exists>a. gf_metadata g (str ''tokenizer.ggml.tokens'') = Some (GvArray a) \<and> ga_data a = enc_strs (bp_id_to_tok B)) \<and>
       (length (bp_id_to_tok B) \<le> 2 ^ 32 \<longrightarrow> bp_ok B))"
proof (intro conjI impI)
  note np = read_arrays_parsed [OF assms]
  show "sp_from_gguf g \<noteq> Panic" "bp_from_gguf g \<noteq> Panic"
    using np by (auto simp: sp_from_gguf_def bp_from_gguf_def outcome_simps split: if_splits)
next
  assume S: "sp_from_gguf g = Ok S"
  then have "read_str_array ''gguf: tokenizer.ggml.tokens missing or not a string array'' g (str ''tokenizer.ggml.tokens'') = Ok (sp_vocab S)"
    by (auto simp: sp_from_gguf_def outcome_simps split: if_splits)
  note data = read_str_array_data [OF assms this]
  then show "\<exists>a. gf_metadata g (str ''tokenizer.ggml.tokens'') = Some (GvArray a) \<and> ga_data a = enc_strs (sp_vocab S)" by blast
  have "\<forall>v\<in>set (sp_vocab S). length v < 2 ^ 62" using data by fastforce
  then show "sp_ok S" if "length (sp_vocab S) \<le> 2 ^ 32" using sp_from_gguf_ok [OF S that] by blast
next
  assume B: "bp_from_gguf g = Ok B"
  then have "read_str_array ''gguf: expected a string array'' g (str ''tokenizer.ggml.tokens'') = Ok (bp_id_to_tok B)"
    by (auto simp: bp_from_gguf_def outcome_simps)
  from read_str_array_data [OF assms this]
  show "\<exists>a. gf_metadata g (str ''tokenizer.ggml.tokens'') = Some (GvArray a) \<and> ga_data a = enc_strs (bp_id_to_tok B)" by blast
  show "bp_ok B" if "length (bp_id_to_tok B) \<le> 2 ^ 32" using B that by (auto simp: bp_from_gguf_def bp_ok_def outcome_simps)
qed

theorem gguf_tokenizer_load_witness:
  "\<exists>g. gguf_parse (gguf_encode 3 vocab_kvs [] []) = Ok g \<and> sp_from_gguf g \<noteq> Panic \<and> bp_from_gguf g \<noteq> Panic \<and>
     gf_metadata g (str ''tokenizer.ggml.tokens'') = Some (GvArray (tokens_array [str ''a'', str ''b'']))"
proof -
  obtain g where g: "gguf_parse (gguf_encode 3 vocab_kvs [] []) = Ok g" "gf_metadata g = insert_all Map.empty vocab_kvs"
    using vocab_file(1) by blast
  then have "gf_metadata g (str ''tokenizer.ggml.tokens'') = Some (GvArray (tokens_array [str ''a'', str ''b'']))"
    by (simp add: insert_all_def vocab_kvs_def str_def)
  then show ?thesis using gguf_tokenizer_load [OF g(1) vocab_file(2)] g(1) by blast
qed


definition tiny_tokenizer :: Llama2cTokenizer where
  "tiny_tokenizer = \<lparr>l2_vocab = [[0x61], [0x62]], l2_scores = [0, 0], l2_max_token_length = 1, l2_by_bytes = vocab_index [[0x61], [0x62]]\<rparr>"


end
